(* ===== verification/Prelude.thy ===== *)
theory Prelude
  imports Main "HOL-Library.Word" "HOL-Library.List_Lexorder"
begin

text \<open>
  Shared vocabulary of the development: byte strings, Python text strings, the exceptions the
  SDK raises, the result type that carries them, and big-endian integers
  (\<^verbatim>\<open>int.to_bytes\<close> / \<^verbatim>\<open>int.from_bytes\<close>). The collections \<open>res_simps\<close> and \<open>byte_simps\<close> carry
  the case analysis on results and the arithmetic on bytes for every component theory.
\<close>

named_theorems res_simps \<open>case analysis on results of fallible operations\<close>
named_theorems byte_simps \<open>bytes as natural numbers below 256\<close>

section \<open>Bytes, text and exceptions\<close>

type_synonym byte = "8 word"
type_synonym bytes = "byte list"

text \<open>A Python \<^verbatim>\<open>str\<close> is a sequence of Unicode code points.\<close>

type_synonym pystr = "nat list"

definition pystr :: "string \<Rightarrow> pystr" where
  "pystr s = map of_char s"

text \<open>
  The exceptions of the modelled modules. An exception class with a \<^verbatim>\<open>.kind\<close> attribute set per
  instance carries that kind; the diagnostic message is left out. \<open>OutOfFuel\<close> is no exception of the
  code: it stands for a fuelled recursion that ran out, and is shown never to be the result.
\<close>

datatype exn =
    NonCanonical | DepthExceeded
  | UnicodeEncodeError | UnicodeDecodeError | OverflowError | ValueError | TypeError | KeyError | AttributeError | StructError | OutOfFuel
  | UnknownAlg | SignerMismatch | NonNFC | RotationUnauthorized | BadSignature
  | CausalViolation | ReconcileMismatch | UnknownKind | EffectDeclarationMismatch
  | TransformCycle | InputGateBypass | TaskStateError | WorkflowGateMalformed
  | MappingError | UnknownTransport | HazardMalformed | HazardNotCovered | HazardUnknown
  | PolicyError string | EnvelopeError string | ApprovalError string | AuditError string
  | DeliveryError string | StreamError string | TransportError string | RoomsError string
  | DelegationError string | CarriageError string | PayError string | ContError string
  | NamingError string | NegotiationError string | DescriptionError string | McpError string
  | GatewayError string | AguiError string | FingerprintCacheError string | BundleError string
  | ReActError string | PlanError string | MultiAgentError string

text \<open>The stable \<^verbatim>\<open>.kind\<close> string of an exception; the built-in Python exceptions have none.\<close>

fun exn_kind :: "exn \<Rightarrow> string option" where
  "exn_kind NonCanonical = Some ''NonCanonical''"
| "exn_kind DepthExceeded = Some ''DepthExceeded''"
| "exn_kind UnicodeEncodeError = None"
| "exn_kind UnicodeDecodeError = None"
| "exn_kind OverflowError = None"
| "exn_kind ValueError = None"
| "exn_kind TypeError = None"
| "exn_kind KeyError = None"
| "exn_kind AttributeError = None"
| "exn_kind StructError = None"
| "exn_kind OutOfFuel = None"
| "exn_kind UnknownAlg = Some ''UnknownAlg''"
| "exn_kind SignerMismatch = Some ''SignerMismatch''"
| "exn_kind NonNFC = Some ''NonNFC''"
| "exn_kind RotationUnauthorized = Some ''RotationUnauthorized''"
| "exn_kind BadSignature = Some ''BadSignature''"
| "exn_kind CausalViolation = Some ''CausalViolation''"
| "exn_kind ReconcileMismatch = Some ''ReconcileMismatch''"
| "exn_kind UnknownKind = Some ''UnknownKind''"
| "exn_kind EffectDeclarationMismatch = Some ''EffectDeclarationMismatch''"
| "exn_kind TransformCycle = Some ''TransformCycle''"
| "exn_kind InputGateBypass = Some ''InputGateBypass''"
| "exn_kind TaskStateError = Some ''TaskStateError''"
| "exn_kind WorkflowGateMalformed = Some ''Malformed''"
| "exn_kind MappingError = Some ''MappingError''"
| "exn_kind UnknownTransport = Some ''UnknownTransport''"
| "exn_kind HazardMalformed = Some ''HazardMalformed''"
| "exn_kind HazardNotCovered = Some ''HazardNotCovered''"
| "exn_kind HazardUnknown = Some ''HazardUnknown''"
| "exn_kind (PolicyError k) = Some k"
| "exn_kind (EnvelopeError k) = Some k"
| "exn_kind (ApprovalError k) = Some k"
| "exn_kind (AuditError k) = Some k"
| "exn_kind (DeliveryError k) = Some k"
| "exn_kind (StreamError k) = Some k"
| "exn_kind (TransportError k) = Some k"
| "exn_kind (RoomsError k) = Some k"
| "exn_kind (DelegationError k) = Some k"
| "exn_kind (CarriageError k) = Some k"
| "exn_kind (PayError k) = Some k"
| "exn_kind (ContError k) = Some k"
| "exn_kind (NamingError k) = Some k"
| "exn_kind (NegotiationError k) = Some k"
| "exn_kind (DescriptionError k) = Some k"
| "exn_kind (McpError k) = Some k"
| "exn_kind (GatewayError k) = Some k"
| "exn_kind (AguiError k) = Some k"
| "exn_kind (FingerprintCacheError k) = Some k"
| "exn_kind (BundleError k) = Some k"
| "exn_kind (ReActError k) = Some k"
| "exn_kind (PlanError k) = Some k"
| "exn_kind (MultiAgentError k) = Some k"

text \<open>
  Subclasses of Python's \<^verbatim>\<open>ValueError\<close>, for the \<^verbatim>\<open>except ValueError\<close> clauses: every exception the
  SDK and the packages over it define and the two Unicode errors; \<^verbatim>\<open>OverflowError\<close>, \<^verbatim>\<open>TypeError\<close>, \<^verbatim>\<open>KeyError\<close>, \<^verbatim>\<open>AttributeError\<close> and
  \<^verbatim>\<open>struct.error\<close> are not among them.
\<close>

definition is_value_error :: "exn \<Rightarrow> bool" where
  "is_value_error e \<longleftrightarrow> e \<notin> {OverflowError, TypeError, KeyError, AttributeError, StructError, OutOfFuel}"

section \<open>Results\<close>

type_synonym 'a res = "exn + 'a"

definition rbind :: "'e + 'a \<Rightarrow> ('a \<Rightarrow> 'e + 'b) \<Rightarrow> 'e + 'b" where
  "rbind m f = (case m of Inl e \<Rightarrow> Inl e | Inr x \<Rightarrow> f x)"

lemma rbind_simps [simp]:
  "rbind (Inl e) f = Inl e"
  "rbind (Inr x) f = f x"
  by (simp_all add: rbind_def)

lemma rbind_eq_Inr [res_simps]: "rbind m f = Inr y \<longleftrightarrow> (\<exists>x. m = Inr x \<and> f x = Inr y)"
  by (cases m) auto

lemma rbind_eq_Inl [res_simps]:
  "rbind m f = Inl e \<longleftrightarrow> m = Inl e \<or> (\<exists>x. m = Inr x \<and> f x = Inl e)"
  by (cases m) auto

lemma rbind_assoc: "rbind (rbind m f) g = rbind m (\<lambda>x. rbind (f x) g)"
  by (cases m) auto

lemma rbind_cong [fundef_cong]:
  assumes "m = m'" and "\<And>x. m' = Inr x \<Longrightarrow> f x = f' x"
  shows "rbind m f = rbind m' f'"
  using assms by (cases m') auto

lemma if_Inl_eq_Inr [res_simps]:
  "(if b then Inl e else m) = Inr y \<longleftrightarrow> \<not> b \<and> m = Inr y"
  "(if b then m else Inl e) = Inr y \<longleftrightarrow> b \<and> m = Inr y"
  by auto

lemma case_option_eq_Inr:
  "case_option (Inl e) f x = Inr y \<longleftrightarrow> (\<exists>v. x = Some v \<and> f v = Inr y)"
  by (cases x) auto

lemma case_prod_eq_Inr: "case_prod f p = Inr y \<longleftrightarrow> (\<exists>a b. p = (a, b) \<and> f a b = Inr y)"
  by (cases p) auto

text \<open>A \<^verbatim>\<open>for\<close> loop whose body updates a state and may raise.\<close>

fun rfold :: "('s \<Rightarrow> 'a \<Rightarrow> 'e + 's) \<Rightarrow> 's \<Rightarrow> 'a list \<Rightarrow> 'e + 's" where
  "rfold f s [] = Inr s"
| "rfold f s (x # xs) = rbind (f s x) (\<lambda>s'. rfold f s' xs)"

lemma rfold_append: "rfold f s (xs @ ys) = rbind (rfold f s xs) (\<lambda>s'. rfold f s' ys)"
  by (induction xs arbitrary: s) (auto simp: rbind_assoc)

lemma rfold_invariant:
  assumes "rfold f s xs = Inr t" and "I s"
    and "\<And>s x t. x \<in> set xs \<Longrightarrow> I s \<Longrightarrow> f s x = Inr t \<Longrightarrow> I t"
  shows "I t"
  using assms by (induction xs arbitrary: s) (auto simp: rbind_eq_Inr)

definition is_ok :: "'e + 'a \<Rightarrow> bool" where
  "is_ok m \<longleftrightarrow> (case m of Inl _ \<Rightarrow> False | Inr _ \<Rightarrow> True)"

lemma is_ok_simps [simp]: "\<not> is_ok (Inl e)" "is_ok (Inr x)"
  by (simp_all add: is_ok_def)

lemma is_ok_iff: "is_ok m \<longleftrightarrow> (\<exists>x. m = Inr x)"
  by (cases m) auto

section \<open>Third-party primitives\<close>

text \<open>
  The cryptographic packages and the Unicode database the SDK calls are parameters of the model,
  bundled in one record that the operations take as an argument: the SHA-2 functions of
  \<^verbatim>\<open>hashlib\<close>, ML-DSA from \<^verbatim>\<open>dilithium_py\<close> (key derivation, signing with a context, verification,
  each per COSE algorithm number), Ed25519 from \<^verbatim>\<open>cryptography\<close>, and
  \<^verbatim>\<open>unicodedata.normalize("NFC", \<sqdot>)\<close>. Each may raise, so the signature operations return results.
\<close>

record prims =
  sha256 :: "bytes \<Rightarrow> bytes"
  sha384 :: "bytes \<Rightarrow> bytes"
  sha512 :: "bytes \<Rightarrow> bytes"
  md_key_derive :: "int \<Rightarrow> bytes \<Rightarrow> (bytes \<times> bytes) res"
  md_sign :: "int \<Rightarrow> bytes \<Rightarrow> bytes \<Rightarrow> bytes \<Rightarrow> bytes res"
  md_verify :: "int \<Rightarrow> bytes \<Rightarrow> bytes \<Rightarrow> bytes \<Rightarrow> bytes \<Rightarrow> bool res"
  ed_public :: "bytes \<Rightarrow> bytes res"
  ed_sign :: "bytes \<Rightarrow> bytes \<Rightarrow> bytes res"
  ed_verify :: "bytes \<Rightarrow> bytes \<Rightarrow> bytes \<Rightarrow> bool res"
  nfc :: "pystr \<Rightarrow> pystr"

text \<open>
  Documented behaviour of the signature packages that the round-trip properties rely on: a
  signature made with a derived key verifies under its public key for the same message and context.
\<close>

definition md_correct :: "prims \<Rightarrow> bool" where
  "md_correct P \<longleftrightarrow>
     (\<forall>alg seed pk sk m ctx s. md_key_derive P alg seed = Inr (pk, sk) \<longrightarrow>
        md_sign P alg sk m ctx = Inr s \<longrightarrow> md_verify P alg pk m s ctx = Inr True)"

definition ed_correct :: "prims \<Rightarrow> bool" where
  "ed_correct P \<longleftrightarrow>
     (\<forall>seed pk m s. ed_public P seed = Inr pk \<longrightarrow> ed_sign P seed m = Inr s \<longrightarrow>
        ed_verify P pk m s = Inr True)"

text \<open>
  One concrete instance of the primitives, on which the hypotheses above hold: a signature is the
  message prefixed by the key, the digests are the identity and every string is in normal form. The
  closed examples of the later theories evaluate the model on it.
\<close>

definition sample_prims :: prims where
  "sample_prims = \<lparr>
     sha256 = (\<lambda>b. b), sha384 = (\<lambda>b. b), sha512 = (\<lambda>b. b),
     md_key_derive = (\<lambda>alg seed. Inr (seed, seed)),
     md_sign = (\<lambda>alg sk m ctx. Inr (sk @ m)),
     md_verify = (\<lambda>alg pk m s ctx. Inr (s = pk @ m)),
     ed_public = (\<lambda>seed. Inr seed),
     ed_sign = (\<lambda>seed m. Inr (seed @ m)),
     ed_verify = (\<lambda>pk m s. Inr (s = pk @ m)),
     nfc = (\<lambda>s. s) \<rparr>"

lemma sample_prims_sel [simp]:
  "sha256 sample_prims b = b" "sha384 sample_prims b = b" "sha512 sample_prims b = b"
  "md_key_derive sample_prims alg seed = Inr (seed, seed)"
  "md_sign sample_prims alg sk m ctx = Inr (sk @ m)"
  "md_verify sample_prims alg pk m sg ctx = Inr (sg = pk @ m)"
  "ed_public sample_prims seed = Inr seed"
  "ed_sign sample_prims seed m = Inr (seed @ m)"
  "ed_verify sample_prims pk m sg = Inr (sg = pk @ m)"
  "nfc sample_prims t = t"
  by (simp_all add: sample_prims_def)

lemma sample_prims_correct [simp]: "md_correct sample_prims" "ed_correct sample_prims"
  by (auto simp: md_correct_def ed_correct_def)

section \<open>Interface of a byte codec\<close>

text \<open>
  What a client may assume of an encoder and its strict decoder: encoding a value that fits the
  decoder's limits and decoding it gives the value in normal form, and every accepted byte string
  is the encoding of the value it decodes to.
\<close>

locale byte_codec =
  fixes enc :: "'a \<Rightarrow> exn + bytes"
    and dec :: "bytes \<Rightarrow> exn + 'a"
    and norm :: "'a \<Rightarrow> 'a"
    and fits :: "'a \<Rightarrow> bool"
  assumes dec_enc: "enc v = Inr b \<Longrightarrow> fits v \<Longrightarrow> dec b = Inr (norm v)"
    and enc_dec: "dec b = Inr v \<Longrightarrow> enc v = Inr b \<and> fits v"
begin

lemma norm_decoded: "dec b = Inr v \<Longrightarrow> norm v = v"
  by (metis dec_enc enc_dec Inr_inject)

lemma dec_iff: "dec b = Inr v \<longleftrightarrow> enc v = Inr b \<and> fits v \<and> norm v = v"
  by (metis dec_enc enc_dec norm_decoded)

lemma dec_inject: "dec b = Inr v \<Longrightarrow> dec c = Inr v \<Longrightarrow> b = c"
  by (metis enc_dec Inr_inject)

lemma enc_inject: "enc v = Inr b \<Longrightarrow> enc w = Inr b \<Longrightarrow> fits v \<Longrightarrow> fits w \<Longrightarrow> norm v = norm w"
  by (metis dec_enc Inr_inject)

lemma enc_norm: "enc v = Inr b \<Longrightarrow> fits v \<Longrightarrow> enc (norm v) = Inr b \<and> fits (norm v)"
  using dec_enc enc_dec by blast

end

section \<open>Bytes as numbers\<close>

lemma unat_byte_less [simp]: "unat (b :: byte) < 256"
  using unsigned_less [of b] by simp

lemma unat_of_nat_byte [byte_simps]: "n < 256 \<Longrightarrow> unat (of_nat n :: byte) = n"
  by (simp add: unat_of_nat)

lemma byte_eq_iff_unat: "(a :: byte) = b \<longleftrightarrow> unat a = unat b"
  by (metis word_unat_eq_iff)

lemma of_nat_byte_eq_iff [byte_simps]:
  "m < 256 \<Longrightarrow> n < 256 \<Longrightarrow> (of_nat m :: byte) = of_nat n \<longleftrightarrow> m = n"
  by (simp add: byte_eq_iff_unat unat_of_nat)

text \<open>\<^verbatim>\<open>n.to_bytes(w, "big")\<close> for a value that fits, and \<^verbatim>\<open>int.from_bytes(bs, "big")\<close>.\<close>

fun be_bytes :: "nat \<Rightarrow> nat \<Rightarrow> bytes" where
  "be_bytes 0 n = []"
| "be_bytes (Suc w) n = be_bytes w (n div 256) @ [of_nat (n mod 256)]"

definition be_nat :: "bytes \<Rightarrow> nat" where
  "be_nat bs = foldl (\<lambda>acc b. acc * 256 + unat b) 0 bs"

lemma length_be_bytes [simp]: "length (be_bytes w n) = w"
  by (induction w arbitrary: n) auto

lemma be_nat_snoc: "be_nat (bs @ [b]) = be_nat bs * 256 + unat b"
  by (simp add: be_nat_def)

lemma be_nat_be_bytes [simp]: "n < 256 ^ w \<Longrightarrow> be_nat (be_bytes w n) = n"
proof (induction w arbitrary: n)
  case 0
  then show ?case by (simp add: be_nat_def)
next
  case (Suc w)
  from Suc.prems have "n div 256 < 256 ^ w"
    by (simp add: less_mult_imp_div_less mult.commute)
  with Suc.IH show ?case
    by (simp add: be_nat_snoc unat_of_nat_byte)
qed

lemma be_bytes_be_nat [simp]: "be_bytes (length bs) (be_nat bs) = bs"
proof (induction bs rule: rev_induct)
  case Nil
  then show ?case by simp
next
  case (snoc b bs)
  have "(be_nat bs * 256 + unat b) div 256 = be_nat bs"
    using unat_byte_less [of b] by simp
  moreover have "(be_nat bs * 256 + unat b) mod 256 = unat b"
    using unat_byte_less [of b] by simp
  ultimately show ?case
    using snoc.IH by (simp add: be_nat_snoc)
qed

lemma be_bytes_be_nat_length: "length bs = w \<Longrightarrow> be_bytes w (be_nat bs) = bs"
  using be_bytes_be_nat by metis

lemma be_nat_less: "be_nat bs < 256 ^ length bs"
proof (induction bs rule: rev_induct)
  case Nil
  then show ?case by (simp add: be_nat_def)
next
  case (snoc b bs)
  have "be_nat bs * 256 + unat b < (be_nat bs + 1) * 256"
    using unat_byte_less [of b] by simp
  also have "\<dots> \<le> 256 ^ length bs * 256"
    using snoc.IH by (intro mult_right_mono) simp_all
  finally show ?case by (simp add: be_nat_snoc mult.commute)
qed

section \<open>Lists\<close>

lemma take_append_exact: "length xs = n \<Longrightarrow> take n (xs @ ys) = xs"
  by simp

lemma drop_append_exact: "length xs = n \<Longrightarrow> drop n (xs @ ys) = ys"
  by simp

lemma prefix_of_append: "take (length (xs @ ys) - length ys) (xs @ ys) = xs"
  by simp

lemma append_eq_same_length:
  "length xs = length ys \<Longrightarrow> xs @ us = ys @ vs \<longleftrightarrow> xs = ys \<and> us = vs"
  by simp

lemma find_key_iff:
  "distinct (map fst ps) \<Longrightarrow> find (\<lambda>p. fst p = k) ps = Some p \<longleftrightarrow> p \<in> set ps \<and> fst p = k"
  by (induction ps) (force simp: image_iff)+

lemma find_key_None: "find (\<lambda>p. fst p = k) ps = None \<longleftrightarrow> k \<notin> fst ` set ps"
  by (induction ps) auto

end
