(* ===== verification/Utf8.thy ===== *)
theory Utf8
  imports Prelude
begin

text \<open>
  The strict UTF-8 codec of Python's \<^verbatim>\<open>str.encode("utf-8")\<close> and \<^verbatim>\<open>bytes.decode("utf-8")\<close>, which the
  CBOR codec uses for text strings. Surrogates are not encodable; decoding rejects overlong forms,
  surrogates, code points above 0x10FFFF and truncated sequences. The two directions are inverse,
  so a text string has exactly one encoding.
\<close>

definition utf8_byte :: "nat \<Rightarrow> byte" where
  "utf8_byte n = of_nat n"

fun utf8_encode_char :: "nat \<Rightarrow> bytes res" where
  "utf8_encode_char c =
     (if c < 0x80 then Inr [utf8_byte c]
      else if c < 0x800 then
        Inr [utf8_byte (0xC0 + c div 64), utf8_byte (0x80 + c mod 64)]
      else if c < 0x10000 then
        (if 0xD800 \<le> c \<and> c \<le> 0xDFFF then Inl UnicodeEncodeError
         else Inr [utf8_byte (0xE0 + c div 4096), utf8_byte (0x80 + c div 64 mod 64),
                   utf8_byte (0x80 + c mod 64)])
      else if c < 0x110000 then
        Inr [utf8_byte (0xF0 + c div 262144), utf8_byte (0x80 + c div 4096 mod 64),
             utf8_byte (0x80 + c div 64 mod 64), utf8_byte (0x80 + c mod 64)]
      else Inl UnicodeEncodeError)"

fun utf8_encode :: "pystr \<Rightarrow> bytes res" where
  "utf8_encode [] = Inr []"
| "utf8_encode (c # cs) =
     rbind (utf8_encode_char c) (\<lambda>b. rbind (utf8_encode cs) (\<lambda>bs. Inr (b @ bs)))"

definition utf8_cont :: "byte \<Rightarrow> bool" where
  "utf8_cont b \<longleftrightarrow> 0x80 \<le> unat b \<and> unat b < 0xC0"

text \<open>Reads the first character: its code point and the bytes after it.\<close>

fun utf8_decode_char :: "bytes \<Rightarrow> (nat \<times> bytes) res" where
  "utf8_decode_char [] = Inl UnicodeDecodeError"
| "utf8_decode_char (b0 # r0) =
     (let x0 = unat b0 in
      if x0 < 0x80 then Inr (x0, r0)
      else if 0xC2 \<le> x0 \<and> x0 < 0xE0 then
        (case r0 of b1 # r1 \<Rightarrow>
           if utf8_cont b1 then Inr ((x0 - 0xC0) * 64 + (unat b1 - 0x80), r1)
           else Inl UnicodeDecodeError
         | [] \<Rightarrow> Inl UnicodeDecodeError)
      else if 0xE0 \<le> x0 \<and> x0 < 0xF0 then
        (case r0 of b1 # b2 # r2 \<Rightarrow>
           let c = (x0 - 0xE0) * 4096 + (unat b1 - 0x80) * 64 + (unat b2 - 0x80) in
           if utf8_cont b1 \<and> utf8_cont b2 \<and> 0x800 \<le> c \<and> \<not> (0xD800 \<le> c \<and> c \<le> 0xDFFF)
           then Inr (c, r2) else Inl UnicodeDecodeError
         | _ \<Rightarrow> Inl UnicodeDecodeError)
      else if 0xF0 \<le> x0 \<and> x0 < 0xF5 then
        (case r0 of b1 # b2 # b3 # r3 \<Rightarrow>
           let c = (x0 - 0xF0) * 262144 + (unat b1 - 0x80) * 4096 + (unat b2 - 0x80) * 64
                   + (unat b3 - 0x80) in
           if utf8_cont b1 \<and> utf8_cont b2 \<and> utf8_cont b3 \<and> 0x10000 \<le> c \<and> c < 0x110000
           then Inr (c, r3) else Inl UnicodeDecodeError
         | _ \<Rightarrow> Inl UnicodeDecodeError)
      else Inl UnicodeDecodeError)"

lemma utf8_decode_char_shorter:
  "utf8_decode_char bs = Inr (c, rest) \<Longrightarrow> length rest < length bs"
  by (cases bs) (auto simp: Let_def split: if_splits list.splits)

function utf8_decode :: "bytes \<Rightarrow> pystr res" where
  "utf8_decode bs =
     (if bs = [] then Inr []
      else rbind (utf8_decode_char bs)
        (\<lambda>(c, rest). rbind (utf8_decode rest) (\<lambda>cs. Inr (c # cs))))"
  by pat_completeness auto
termination
  by (relation "measure length") (auto dest: utf8_decode_char_shorter)

declare utf8_decode.simps [simp del]

lemma utf8_decode_Nil [simp]: "utf8_decode [] = Inr []"
  by (simp add: utf8_decode.simps)

section \<open>Round trips\<close>

lemma unat_utf8_byte [simp]: "n < 256 \<Longrightarrow> unat (utf8_byte n) = n"
  by (simp add: utf8_byte_def unat_of_nat_byte)

lemma utf8_byte_unat [simp]: "utf8_byte (unat b) = b"
  by (simp add: utf8_byte_def)

lemma utf8_byte_eqI: "n = unat b \<Longrightarrow> utf8_byte n = b"
  by simp

lemma base64_digits3: "c div 4096 * 4096 + c div 64 mod 64 * 64 + c mod 64 = (c :: nat)"
proof -
  have "c div 4096 = c div 64 div 64" using div_mult2_eq [of c 64 64] by simp
  then show ?thesis
    using div_mult_mod_eq [of c 64] div_mult_mod_eq [of "c div 64" 64] by linarith
qed

lemma base64_digits4:
  "c div 262144 * 262144 + c div 4096 mod 64 * 4096 + c div 64 mod 64 * 64 + c mod 64 = (c :: nat)"
proof -
  have "c div 262144 = c div 4096 div 64" using div_mult2_eq [of c 4096 64] by simp
  then show ?thesis
    using base64_digits3 [of c] div_mult_mod_eq [of "c div 4096" 64] by linarith
qed

lemma base64_digit_split:
  assumes "(n :: nat) = m * 64 + d" and "d < 64"
  shows "n div 64 = m" and "n mod 64 = d"
  using assms by auto

lemma utf8_char_roundtrip:
  "utf8_encode_char c = Inr b \<Longrightarrow> utf8_decode_char (b @ rest) = Inr (c, rest)"
proof -
  assume enc: "utf8_encode_char c = Inr b"
  consider "c < 0x80" | "0x80 \<le> c" "c < 0x800"
    | "0x800 \<le> c" "c < 0x10000" | "0x10000 \<le> c" "c < 0x110000" | "0x110000 \<le> c"
    by linarith
  then show ?thesis
  proof cases
    case 1
    with enc show ?thesis by auto
  next
    case 2
    then have "c div 64 < 32" "c div 64 \<ge> 2" by auto
    with 2 enc show ?thesis by (auto simp: utf8_cont_def)
  next
    case 3
    have 1: "c div 4096 < 16" using 3 by auto
    have 2: "c div 4096 * 4096 + c div 64 mod 64 * 64 + c mod 64 = c"
      by (rule base64_digits3)
    show ?thesis using 1 2 3 enc by (auto simp: utf8_cont_def Let_def split: if_splits)
  next
    case 4
    have 1: "c div 262144 < 5" using 4 by auto
    have 2: "c div 262144 * 262144 + c div 4096 mod 64 * 4096 + c div 64 mod 64 * 64 + c mod 64 = c"
      by (rule base64_digits4)
    show ?thesis using 1 2 4 enc by (auto simp: utf8_cont_def Let_def split: if_splits)
  next
    case 5
    with enc show ?thesis by auto
  qed
qed

lemma utf8_encode_char_nonempty: "utf8_encode_char c = Inr b \<Longrightarrow> b \<noteq> []"
  by (auto split: if_splits)

lemma utf8_char_canonical:
  "utf8_decode_char bs = Inr (c, rest) \<Longrightarrow> \<exists>b. utf8_encode_char c = Inr b \<and> bs = b @ rest"
proof (cases bs)
  case Nil
  then show "utf8_decode_char bs = Inr (c, rest) \<Longrightarrow> ?thesis" by simp
next
  case (Cons b0 r0)
  assume dec: "utf8_decode_char bs = Inr (c, rest)"
  consider "unat b0 < 0x80" | "0xC2 \<le> unat b0" "unat b0 < 0xE0"
    | "0xE0 \<le> unat b0" "unat b0 < 0xF0" | "0xF0 \<le> unat b0" "unat b0 < 0xF5"
    using dec Cons by (auto simp: Let_def split: if_splits)
  then show ?thesis
  proof cases
    case 1
    with dec Cons show ?thesis by auto
  next
    case 2
    then obtain b1 where r0: "r0 = b1 # rest" and b1: "utf8_cont b1"
      and c: "c = (unat b0 - 0xC0) * 64 + (unat b1 - 0x80)"
      using dec Cons by (auto simp: Let_def split: list.splits if_splits)
    define x y where "x = unat b0 - 0xC0" and "y = unat b1 - 0x80"
    have xy: "unat b0 = 0xC0 + x" "unat b1 = 0x80 + y" "y < 64" "2 \<le> x" "x < 32"
      using 2 b1 by (auto simp: x_def y_def utf8_cont_def)
    have cx: "c = x * 64 + y" using c by (simp add: x_def y_def)
    have "c div 64 = x" "c mod 64 = y" "0x80 \<le> c" "c < 0x800"
      using xy cx by auto
    then have "utf8_encode_char c = Inr [b0, b1]"
      using xy by (auto intro!: utf8_byte_eqI)
    with r0 Cons show ?thesis by auto
  next
    case 3
    then obtain b1 b2 where r0: "r0 = b1 # b2 # rest" and b: "utf8_cont b1" "utf8_cont b2"
      and c: "c = (unat b0 - 0xE0) * 4096 + (unat b1 - 0x80) * 64 + (unat b2 - 0x80)"
      and cr: "0x800 \<le> c" "\<not> (0xD800 \<le> c \<and> c \<le> 0xDFFF)"
      using dec Cons by (auto simp: Let_def split: list.splits if_splits)
    define x y z where "x = unat b0 - 0xE0" and "y = unat b1 - 0x80" and "z = unat b2 - 0x80"
    have xy: "unat b0 = 0xE0 + x" "unat b1 = 0x80 + y" "unat b2 = 0x80 + z"
      "y < 64" "z < 64" "x < 16"
      using 3 b by (auto simp: x_def y_def z_def utf8_cont_def)
    have cx: "c = (x * 64 + y) * 64 + z" using c by (simp add: x_def y_def z_def)
    have d: "c div 64 = x * 64 + y" "c mod 64 = z" using base64_digit_split [OF cx xy(5)] by auto
    then have "c div 4096 = x" "c div 64 mod 64 = y" "c < 0x10000"
      using xy cx by (auto simp: div_mult2_eq [of c 64 64, simplified])
    then have "utf8_encode_char c = Inr [b0, b1, b2]"
      using xy d(2) cr by (auto intro!: utf8_byte_eqI)
    with r0 Cons show ?thesis by auto
  next
    case 4
    then obtain b1 b2 b3 where r0: "r0 = b1 # b2 # b3 # rest"
      and b: "utf8_cont b1" "utf8_cont b2" "utf8_cont b3"
      and c: "c = (unat b0 - 0xF0) * 262144 + (unat b1 - 0x80) * 4096 + (unat b2 - 0x80) * 64
                   + (unat b3 - 0x80)"
      and cr: "0x10000 \<le> c" "c < 0x110000"
      using dec Cons by (auto simp: Let_def split: list.splits if_splits)
    define x y z w where "x = unat b0 - 0xF0" and "y = unat b1 - 0x80"
      and "z = unat b2 - 0x80" and "w = unat b3 - 0x80"
    have xy: "unat b0 = 0xF0 + x" "unat b1 = 0x80 + y" "unat b2 = 0x80 + z" "unat b3 = 0x80 + w"
      "y < 64" "z < 64" "w < 64"
      using 4 b by (auto simp: x_def y_def z_def w_def utf8_cont_def)
    have cx: "c = ((x * 64 + y) * 64 + z) * 64 + w"
      using c by (simp add: x_def y_def z_def w_def)
    have d: "c div 64 = (x * 64 + y) * 64 + z" "c mod 64 = w" using base64_digit_split [OF cx xy(7)] by auto
    have e: "c div 4096 = x * 64 + y" "c div 64 mod 64 = z"
      using base64_digit_split [OF d(1) xy(6)] div_mult2_eq [of c 64 64] by auto
    have "c div 262144 = x" "c div 4096 mod 64 = y"
      using xy e div_mult2_eq [of c 4096 64] by auto
    then have "utf8_encode_char c = Inr [b0, b1, b2, b3]"
      using xy d(2) e(2) cr by (auto intro!: utf8_byte_eqI)
    with r0 Cons show ?thesis by auto
  qed
qed

lemma utf8_decode_encode: "utf8_encode s = Inr bs \<Longrightarrow> utf8_decode bs = Inr s"
proof (induction s arbitrary: bs)
  case Nil
  then show ?case by simp
next
  case (Cons c cs)
  then obtain b bs' where b: "utf8_encode_char c = Inr b" and bs': "utf8_encode cs = Inr bs'"
    and bs: "bs = b @ bs'"
    by (auto simp: res_simps simp del: utf8_encode_char.simps)
  have "bs \<noteq> []" using b bs utf8_encode_char_nonempty by auto
  moreover have "utf8_decode_char bs = Inr (c, bs')"
    using b bs utf8_char_roundtrip by blast
  ultimately show ?case
    using Cons.IH [OF bs'] by (simp add: utf8_decode.simps [of bs])
qed

lemma utf8_encode_decode: "utf8_decode bs = Inr s \<Longrightarrow> utf8_encode s = Inr bs"
proof (induction bs arbitrary: s rule: utf8_decode.induct)
  case (1 bs)
  show ?case
  proof (cases "bs = []")
    case True
    with "1.prems" show ?thesis by simp
  next
    case False
    with "1.prems" obtain c rest cs where c: "utf8_decode_char bs = Inr (c, rest)"
      and cs: "utf8_decode rest = Inr cs" and s: "s = c # cs"
      by (auto simp: utf8_decode.simps [of bs] res_simps)
    from utf8_char_canonical [OF c] obtain b where "utf8_encode_char c = Inr b" "bs = b @ rest"
      by blast
    moreover have "utf8_encode cs = Inr rest"
      using "1.IH" [OF False c] cs by blast
    ultimately show ?thesis by (simp add: s del: utf8_encode_char.simps)
  qed
qed

lemma utf8_decode_iff: "utf8_decode bs = Inr s \<longleftrightarrow> utf8_encode s = Inr bs"
  using utf8_decode_encode utf8_encode_decode by blast

lemma utf8_encode_inject: "utf8_encode s = Inr bs \<Longrightarrow> utf8_encode t = Inr bs \<Longrightarrow> s = t"
  by (metis utf8_decode_encode Inr_inject)

lemma utf8_encode_errors: "utf8_encode s = Inl e \<Longrightarrow> e = UnicodeEncodeError"
  by (induction s) (auto simp: res_simps split: if_splits)

lemma utf8_decode_char_errors: "utf8_decode_char bs = Inl e \<Longrightarrow> e = UnicodeDecodeError"
  by (cases bs) (auto simp: Let_def split: if_splits list.splits)

lemma utf8_decode_errors: "utf8_decode bs = Inl e \<Longrightarrow> e = UnicodeDecodeError"
proof (induction bs rule: utf8_decode.induct)
  case (1 bs)
  show ?case
    using 1 utf8_decode_char_errors [of bs]
    by (auto simp: utf8_decode.simps [of bs] res_simps split: if_splits)
qed

text \<open>ASCII text encodes to its own code points.\<close>

lemma utf8_encode_ascii:
  "\<forall>c \<in> set s. c < 0x80 \<Longrightarrow> utf8_encode s = Inr (map of_nat s)"
  by (induction s) (auto simp: utf8_byte_def)

end
