(* ===== verification/Cbor.thy ===== *)
theory Cbor
  imports Utf8
begin

text \<open>
  Deterministic CBOR (\<^verbatim>\<open>impl/python/naalp/cbor.py\<close>): the value model, the encoder with canonical
  map ordering, and the strict decoder with its nesting bound. The encoder and the decoder are
  inverse in both directions: encoding then decoding gives the value with its maps put in canonical
  order, and every byte string the decoder accepts is the encoding of the value it returns.
\<close>

unbundle bit_operations_syntax

section \<open>Values\<close>

datatype cbor =
    U int
  | N int
  | B bytes
  | T pystr
  | A "cbor list"
  | M "(cbor \<times> cbor) list"
  | Tag int cbor

section \<open>Encoder\<close>

definition init_byte :: "nat \<Rightarrow> nat \<Rightarrow> byte" where
  "init_byte major ai = of_nat (push_bit 5 major OR ai)"

text \<open>
  A negative argument makes \<^verbatim>\<open>bytes([...])\<close> raise \<^verbatim>\<open>ValueError\<close>; one of 65 bits or more makes
  \<^verbatim>\<open>to_bytes\<close> raise \<^verbatim>\<open>OverflowError\<close>.
\<close>

definition head :: "nat \<Rightarrow> int \<Rightarrow> bytes res" where
  "head major n =
     (if n < 24 then
        (if n < 0 then Inl ValueError else Inr [init_byte major (nat n)])
      else if n < 256 then Inr (init_byte major 24 # be_bytes 1 (nat n))
      else if n < 65536 then Inr (init_byte major 25 # be_bytes 2 (nat n))
      else if n < 2 ^ 32 then Inr (init_byte major 26 # be_bytes 4 (nat n))
      else if n < 2 ^ 64 then Inr (init_byte major 27 # be_bytes 8 (nat n))
      else Inl OverflowError)"

function (sequential) encode :: "cbor \<Rightarrow> bytes res"
and encode_items :: "cbor list \<Rightarrow> bytes list res"
and encode_pairs :: "(cbor \<times> cbor) list \<Rightarrow> (bytes \<times> bytes) list res" where
  "encode (U v) = (if v < 0 then Inl NonCanonical else head 0 v)"
| "encode (N v) = head 1 (- 1 - v)"
| "encode (B v) = rbind (head 2 (int (length v))) (\<lambda>h. Inr (h @ v))"
| "encode (T v) =
     rbind (utf8_encode v) (\<lambda>b. rbind (head 3 (int (length b))) (\<lambda>h. Inr (h @ b)))"
| "encode (A items) =
     rbind (head 4 (int (length items))) (\<lambda>h. rbind (encode_items items) (\<lambda>bs. Inr (h @ concat bs)))"
| "encode (M pairs) =
     rbind (encode_pairs pairs) (\<lambda>enc0.
       let enc = sort_key fst enc0; keys = map fst enc in
       if card (set keys) \<noteq> length keys then Inl NonCanonical
       else rbind (head 5 (int (length enc))) (\<lambda>h. Inr (h @ concat (map (\<lambda>(k, v). k @ v) enc))))"
| "encode (Tag n content) = rbind (head 6 n) (\<lambda>h. rbind (encode content) (\<lambda>b. Inr (h @ b)))"
| "encode_items [] = Inr []"
| "encode_items (i # is) = rbind (encode i) (\<lambda>b. rbind (encode_items is) (\<lambda>bs. Inr (b # bs)))"
| "encode_pairs [] = Inr []"
| "encode_pairs ((k, v) # ps) =
     rbind (encode k) (\<lambda>kb. rbind (encode v) (\<lambda>vb.
       rbind (encode_pairs ps) (\<lambda>bs. Inr ((kb, vb) # bs))))"
  by pat_completeness auto
termination
  by (relation "measure (case_sum size (case_sum (size_list size) (size_list (size_prod size size))))")
    auto

section \<open>Decoder\<close>

definition UNBOUNDED_DEPTH :: nat where
  "UNBOUNDED_DEPTH = 2 ^ 20"

text \<open>An argument in the \<open>w\<close> bytes after the initial byte; below \<open>lo\<close> it is not in shortest form.\<close>

definition dec_arg :: "nat \<Rightarrow> nat \<Rightarrow> nat \<Rightarrow> bytes \<Rightarrow> (nat \<times> nat \<times> bytes) res" where
  "dec_arg major w lo data =
     (if length data < 1 + w then Inl NonCanonical
      else let arg = be_nat (take w (drop 1 data)) in
        if arg < lo then Inl NonCanonical else Inr (major, arg, drop (1 + w) data))"

definition dec_head :: "bytes \<Rightarrow> (nat \<times> nat \<times> bytes) res" where
  "dec_head data =
     (case data of [] \<Rightarrow> Inl NonCanonical
      | ib # rest \<Rightarrow>
        let major = drop_bit 5 (unat ib); ai = unat ib AND 0x1F in
        if ai = 31 then Inl NonCanonical
        else if ai < 24 then Inr (major, ai, rest)
        else if ai = 24 then dec_arg major 1 24 data
        else if ai = 25 then dec_arg major 2 256 data
        else if ai = 26 then dec_arg major 4 65536 data
        else if ai = 27 then dec_arg major 8 (2 ^ 32) data
        else Inl NonCanonical)"

text \<open>
  The two loops of the array and map cases are \<open>dec_items\<close> and \<open>dec_pairs\<close>; \<open>prev\<close> is the encoding
  of the preceding key. Recursion is bounded by the nesting bound, the loops by their count.
\<close>

function dec :: "nat \<Rightarrow> nat \<Rightarrow> bytes \<Rightarrow> (cbor \<times> bytes) res"
and dec_items :: "nat \<Rightarrow> nat \<Rightarrow> nat \<Rightarrow> bytes \<Rightarrow> (cbor list \<times> bytes) res"
and dec_pairs :: "nat \<Rightarrow> nat \<Rightarrow> nat \<Rightarrow> bytes option \<Rightarrow> bytes \<Rightarrow> ((cbor \<times> cbor) list \<times> bytes) res"
where
  "dec max_depth depth data =
     (if depth > max_depth then Inl DepthExceeded
      else rbind (dec_head data) (\<lambda>(major, arg, rest).
        if major = 0 then Inr (U (int arg), rest)
        else if major = 1 then Inr (N (- 1 - int arg), rest)
        else if major = 2 then
          (if length rest < arg then Inl NonCanonical
           else Inr (B (take arg rest), drop arg rest))
        else if major = 3 then
          (if length rest < arg then Inl NonCanonical
           else rbind (utf8_decode (take arg rest)) (\<lambda>s. Inr (T s, drop arg rest)))
        else if major = 4 then
          rbind (dec_items max_depth (depth + 1) arg rest) (\<lambda>(items, cur). Inr (A items, cur))
        else if major = 5 then
          rbind (dec_pairs max_depth (depth + 1) arg None rest) (\<lambda>(pairs, cur). Inr (M pairs, cur))
        else if major = 6 then
          rbind (dec max_depth (depth + 1) rest)
            (\<lambda>(content, rest2). Inr (Tag (int arg) content, rest2))
        else Inl NonCanonical))"
| "dec_items max_depth depth 0 cur = Inr ([], cur)"
| "dec_items max_depth depth (Suc n) cur =
     rbind (dec max_depth depth cur) (\<lambda>(it, cur1).
       rbind (dec_items max_depth depth n cur1) (\<lambda>(items, cur2). Inr (it # items, cur2)))"
| "dec_pairs max_depth depth 0 prev cur = Inr ([], cur)"
| "dec_pairs max_depth depth (Suc n) prev before =
     rbind (dec max_depth depth before) (\<lambda>(k, cur).
       let kbytes = take (length before - length cur) before in
       rbind (dec max_depth depth cur) (\<lambda>(val, cur2).
         if (case prev of None \<Rightarrow> False | Some p \<Rightarrow> kbytes \<le> p) then Inl NonCanonical
         else rbind (dec_pairs max_depth depth n (Some kbytes) cur2)
           (\<lambda>(pairs, cur3). Inr ((k, val) # pairs, cur3))))"
  by pat_completeness auto
termination
  by (relation "measures
        [\<lambda>x. case x of Inl (m, d, _) \<Rightarrow> 2 * (m + 1 - d)
           | Inr (Inl (m, d, _, _)) \<Rightarrow> 2 * (m + 1 - d) + 1
           | Inr (Inr (m, d, _, _, _)) \<Rightarrow> 2 * (m + 1 - d) + 1,
         \<lambda>x. case x of Inl _ \<Rightarrow> 0
           | Inr (Inl (_, _, n, _)) \<Rightarrow> n
           | Inr (Inr (_, _, n, _, _)) \<Rightarrow> n]") auto

declare dec.simps [simp del]

definition decode_bounded :: "bytes \<Rightarrow> nat \<Rightarrow> cbor res" where
  "decode_bounded data max_depth =
     rbind (dec max_depth 1 data) (\<lambda>(v, rest). if rest \<noteq> [] then Inl NonCanonical else Inr v)"

definition decode :: "bytes \<Rightarrow> cbor res" where
  "decode data =
     rbind (dec UNBOUNDED_DEPTH 1 data) (\<lambda>(v, rest). if rest \<noteq> [] then Inl NonCanonical else Inr v)"

section \<open>Content identifiers\<close>

text \<open>\<^verbatim>\<open>content_id\<close> of raw bytes and of a value; \<open>h\<close> is SHA-384.\<close>

definition content_id_bytes :: "(bytes \<Rightarrow> bytes) \<Rightarrow> bytes \<Rightarrow> bytes" where
  "content_id_bytes h body = [0x20, 0x30] @ h body"

definition content_id :: "(bytes \<Rightarrow> bytes) \<Rightarrow> cbor \<Rightarrow> bytes res" where
  "content_id h v = rbind (encode v) (\<lambda>b. Inr (content_id_bytes h b))"

section \<open>Reference notions\<close>

text \<open>The encoding of an encodable value, its nesting depth and its canonical form.\<close>

definition enc_of :: "cbor \<Rightarrow> bytes" where
  "enc_of v = (case encode v of Inr b \<Rightarrow> b | Inl _ \<Rightarrow> [])"

definition encodable :: "cbor \<Rightarrow> bool" where
  "encodable v \<longleftrightarrow> is_ok (encode v)"

fun nesting :: "cbor \<Rightarrow> nat" where
  "nesting (A items) = Suc (fold max (map nesting items) 0)"
| "nesting (M pairs) = Suc (fold max (map (\<lambda>(k, v). max (nesting k) (nesting v)) pairs) 0)"
| "nesting (Tag n content) = Suc (nesting content)"
| "nesting _ = 1"

fun canon :: "cbor \<Rightarrow> cbor" where
  "canon (A items) = A (map canon items)"
| "canon (M pairs) =
     M (sort_key (\<lambda>p. enc_of (fst p)) (map (\<lambda>(k, v). (canon k, canon v)) pairs))"
| "canon (Tag n content) = Tag n (canon content)"
| "canon v = v"

abbreviation key_enc :: "cbor \<times> cbor \<Rightarrow> bytes" where
  "key_enc p \<equiv> enc_of (fst p)"

abbreviation pair_enc :: "cbor \<times> cbor \<Rightarrow> bytes" where
  "pair_enc p \<equiv> enc_of (fst p) @ enc_of (snd p)"

definition dec_ok :: "nat \<Rightarrow> nat \<Rightarrow> cbor \<Rightarrow> bool" where
  "dec_ok m d v \<longleftrightarrow> encodable v \<and> d + nesting v \<le> Suc m"

section \<open>Heads\<close>

lemma push_or_add: "ai < 32 \<Longrightarrow> push_bit 5 major OR ai = major * 32 + (ai :: nat)"
proof -
  assume "ai < 32"
  then have "take_bit 5 ai = ai" by (simp add: take_bit_nat_eq_self)
  then have "push_bit 5 major AND ai = 0"
    by (intro bit_eqI) (metis bit_0_eq bit_and_iff bit_push_bit_iff bit_take_bit_iff bot_apply bot_bool_def not_le)
  then show ?thesis
    by (simp add: disjunctive_add_eq_or [symmetric] push_bit_eq_mult)
qed

lemma unat_init_byte:
  "major < 8 \<Longrightarrow> ai < 32 \<Longrightarrow> unat (init_byte major ai) = major * 32 + ai"
  by (simp add: init_byte_def push_or_add unat_of_nat_byte del: of_nat_add of_nat_mult)

lemma drop_bit_5: "drop_bit 5 (n :: nat) = n div 32"
  by (simp add: drop_bit_eq_div)

lemma and_31: "(n :: nat) AND 31 = n mod 32"
  using take_bit_eq_mask [of 5 n] by (simp add: take_bit_eq_mod mask_eq_exp_minus_1)

lemma init_byte_parts:
  assumes "major < 8" and "ai < 32"
  shows "drop_bit 5 (unat (init_byte major ai)) = major" and "unat (init_byte major ai) AND 31 = ai"
  using assms by (simp_all add: unat_init_byte drop_bit_5 and_31)

lemma init_byte_of_parts: "init_byte (drop_bit 5 (unat b)) (unat b AND 31) = b"
  by (rule byte_eq_iff_unat [THEN iffD2], subst unat_init_byte)
     (auto simp: drop_bit_5 and_31 less_mult_imp_div_less)

lemma dec_head_head:
  assumes "head major n = Inr h" and "major < 8"
  shows "dec_head (h @ rest) = Inr (major, nat n, rest)"
proof -
  consider "n < 0" | "0 \<le> n" "n < 24" | "24 \<le> n" "n < 256" | "256 \<le> n" "n < 65536"
    | "65536 \<le> n" "n < 2 ^ 32" | "2 ^ 32 \<le> n" "n < 2 ^ 64" | "2 ^ 64 \<le> n"
    by linarith
  then show ?thesis
    using assms
    by cases (auto simp: head_def dec_head_def dec_arg_def Let_def init_byte_parts
        take_append_exact nat_less_iff simp del: be_bytes.simps)
qed

lemma dec_arg_inv:
  assumes "dec_arg major w lo (ib # r) = Inr (major', arg, rest)"
  shows "major' = major" and "lo \<le> arg" and "arg < 256 ^ w" and "ib # r = ib # be_bytes w arg @ rest"
proof -
  from assms have l: "w \<le> length r" and m: "major' = major" and lo: "lo \<le> arg"
    and a: "arg = be_nat (take w r)" and r: "rest = drop w r"
    by (auto simp: dec_arg_def Let_def split: if_splits)
  show "major' = major" "lo \<le> arg" by fact+
  show "arg < 256 ^ w" using be_nat_less [of "take w r"] l a by simp
  have "be_bytes w arg = take w r" using a l be_bytes_be_nat_length [of "take w r" w] by simp
  then show "ib # r = ib # be_bytes w arg @ rest" by (simp add: r)
qed

lemma head_dec_head:
  assumes "dec_head bs = Inr (major, arg, rest)"
  shows "\<exists>h. head major (int arg) = Inr h \<and> bs = h @ rest \<and> major < 8"
proof -
  obtain ib r where bs: "bs = ib # r" using assms by (auto simp: dec_head_def split: list.splits)
  define ai where "ai = unat ib AND 31"
  have m8: "drop_bit 5 (unat ib) < 8" by (simp add: drop_bit_5 less_mult_imp_div_less)
  have ib: "init_byte (drop_bit 5 (unat ib)) ai = ib" by (simp add: ai_def init_byte_of_parts)
  consider "ai < 24" | "ai = 24" | "ai = 25" | "ai = 26" | "ai = 27"
    using assms bs unfolding ai_def by (auto simp: dec_head_def Let_def split: if_splits)
  then show ?thesis
  proof cases
    case 1
    then show ?thesis using assms bs m8 ib by (auto simp: dec_head_def head_def Let_def ai_def)
  next
    case 2
    then have "dec_arg (drop_bit 5 (unat ib)) 1 24 (ib # r) = Inr (major, arg, rest)"
      using assms bs by (auto simp: dec_head_def Let_def ai_def)
    from dec_arg_inv [OF this] m8 ib 2 bs show ?thesis by (auto simp: head_def)
  next
    case 3
    then have "dec_arg (drop_bit 5 (unat ib)) 2 256 (ib # r) = Inr (major, arg, rest)"
      using assms bs by (auto simp: dec_head_def Let_def ai_def)
    from dec_arg_inv [OF this] m8 ib 3 bs show ?thesis by (auto simp: head_def)
  next
    case 4
    then have "dec_arg (drop_bit 5 (unat ib)) 4 65536 (ib # r) = Inr (major, arg, rest)"
      using assms bs by (auto simp: dec_head_def Let_def ai_def)
    from dec_arg_inv [OF this] m8 ib 4 bs show ?thesis by (auto simp: head_def)
  next
    case 5
    then have "dec_arg (drop_bit 5 (unat ib)) 8 (2 ^ 32) (ib # r) = Inr (major, arg, rest)"
      using assms bs by (auto simp: dec_head_def Let_def ai_def)
    from dec_arg_inv [OF this] m8 ib 5 bs show ?thesis by (auto simp: head_def)
  qed
qed

lemma head_nonneg: "head major n = Inr h \<Longrightarrow> 0 \<le> n"
  by (auto simp: head_def split: if_splits)

lemma head_nonempty: "head major n = Inr h \<Longrightarrow> h \<noteq> []"
  by (auto simp: head_def split: if_splits)

section \<open>The encoder on lists and maps\<close>

lemma encode_enc_of: "encode v = Inr b \<longleftrightarrow> encodable v \<and> b = enc_of v"
  by (auto simp: encodable_def enc_of_def is_ok_def split: sum.splits)

lemma encode_items_iff:
  "encode_items is = Inr bs \<longleftrightarrow> (\<forall>i \<in> set is. encodable i) \<and> bs = map enc_of is"
  by (induction "is" arbitrary: bs) (auto simp: res_simps encode_enc_of)

lemma encode_pairs_iff:
  "encode_pairs ps = Inr bs \<longleftrightarrow>
     (\<forall>(k, v) \<in> set ps. encodable k \<and> encodable v) \<and> bs = map (\<lambda>(k, v). (enc_of k, enc_of v)) ps"
  by (induction ps arbitrary: bs) (auto simp: res_simps encode_enc_of)

lemma insort_key_map:
  "insort_key f (g x) (map g xs) = map g (insort_key (\<lambda>x. f (g x)) x xs)"
  by (induction xs) auto

lemma sort_key_map: "sort_key f (map g xs) = map g (sort_key (\<lambda>x. f (g x)) xs)"
  by (induction xs) (auto simp: insort_key_map)

lemma sort_key_cong': "(\<And>x. x \<in> set xs \<Longrightarrow> f x = g x) \<Longrightarrow> sort_key f xs = sort_key g xs"
proof (induction xs)
  case (Cons x xs)
  have "insort_key f x ys = insort_key g x ys" if "set ys \<subseteq> set xs" for ys
    using that Cons.prems by (induction ys) auto
  with Cons show ?case by simp
qed simp

lemma sort_key_map_same:
  assumes "\<And>p. p \<in> set ps \<Longrightarrow> f (g p) = f p"
  shows "sort_key f (map g ps) = map g (sort_key f ps)"
  using assms sort_key_cong' [of ps "\<lambda>p. f (g p)" f] by (simp only: sort_key_map)

lemma distinct_map_sort_key: "distinct (map f (sort_key g xs)) \<longleftrightarrow> distinct (map f xs)"
  by (simp add: distinct_map)

lemma encode_M_iff:
  "encode (M ps) = Inr b \<longleftrightarrow>
     (\<forall>(k, v) \<in> set ps. encodable k \<and> encodable v) \<and> distinct (map key_enc ps) \<and>
     (\<exists>h. head 5 (int (length ps)) = Inr h \<and> b = h @ concat (map pair_enc (sort_key key_enc ps)))"
proof -
  let ?e = "\<lambda>(k, v). (enc_of k, enc_of v)"
  have s: "sort_key fst (map ?e ps) = map ?e (sort_key key_enc ps)"
    by (simp add: sort_key_map case_prod_beta)
  have d: "card (set (map key_enc (sort_key key_enc ps))) = length ps \<longleftrightarrow> distinct (map key_enc ps)"
    using distinct_card [of "map key_enc ps"] card_distinct [of "map key_enc ps"]
    by auto
  show ?thesis
  proof (cases "\<forall>(k, v) \<in> set ps. encodable k \<and> encodable v")
    case True
    then have "encode_pairs ps = Inr (map ?e ps)" by (simp add: encode_pairs_iff)
    then have "encode (M ps) = Inr b \<longleftrightarrow> distinct (map key_enc ps) \<and>
        rbind (head 5 (int (length ps))) (\<lambda>h. Inr (h @ concat (map pair_enc (sort_key key_enc ps)))) = Inr b"
      by (auto simp only: encode.simps rbind_simps s d Let_def length_map length_sort map_map
            comp_def case_prod_beta fst_conv snd_conv if_Inl_eq_Inr not_not)
    with True show ?thesis by (auto simp: res_simps)
  next
    case False
    then have "\<nexists>bs. encode_pairs ps = Inr bs" by (auto simp: encode_pairs_iff)
    with False show ?thesis by (auto simp: res_simps)
  qed
qed

lemma encode_A_iff:
  "encode (A is) = Inr b \<longleftrightarrow>
     (\<forall>i \<in> set is. encodable i) \<and>
     (\<exists>h. head 4 (int (length is)) = Inr h \<and> b = h @ concat (map enc_of is))"
  by (auto simp: res_simps encode_items_iff)

lemma encode_nonempty: "encode v = Inr b \<Longrightarrow> b \<noteq> []"
  by (cases v) (auto simp: res_simps Let_def split: if_splits dest: head_nonempty)

lemma enc_of_nonempty: "encodable v \<Longrightarrow> enc_of v \<noteq> []"
  using encode_enc_of encode_nonempty by blast

section \<open>Canonical form\<close>

lemma encode_canon: "encode v = Inr b \<Longrightarrow> encode (canon v) = Inr b"
proof (induction v arbitrary: b)
  case (A x)
  have c: "encodable (canon i) \<and> enc_of (canon i) = enc_of i" if "i \<in> set x" for i
    using A that by (metis encode_A_iff encode_enc_of)
  have "map enc_of (map canon x) = map enc_of x" using c by simp
  then show ?case using A.prems c by (auto simp: encode_A_iff simp del: encode.simps map_map)
next
  case (M x)
  let ?g = "\<lambda>(k, v). (canon k, canon v)"
  have c: "encodable (canon k) \<and> enc_of (canon k) = enc_of k \<and> encodable (canon v) \<and> enc_of (canon v) = enc_of v"
    if "(k, v) \<in> set x" for k v
  proof -
    have "encodable k" "encodable v" using M.prems that by (auto simp: encode_M_iff simp del: encode.simps)
    then have "encode k = Inr (enc_of k)" "encode v = Inr (enc_of v)" by (simp_all add: encode_enc_of)
    then show ?thesis using M.IH [OF that] by (auto simp: encode_enc_of fsts.simps snds.simps)
  qed
  have k: "key_enc (?g p) = key_enc p" "pair_enc (?g p) = pair_enc p" if "p \<in> set x" for p
    using c that by (auto split: prod.splits)
  have s: "sort_key key_enc (map ?g x) = map ?g (sort_key key_enc x)"
    using k(1) by (rule sort_key_map_same)
  have ss: "sort_key key_enc (sort_key key_enc (map ?g x)) = sort_key key_enc (map ?g x)"
    by (simp add: sort_key_id_if_sorted)
  have keys: "map key_enc (map ?g x) = map key_enc x"
    and pairs: "map pair_enc (map ?g (sort_key key_enc x)) = map pair_enc (sort_key key_enc x)"
    using k by simp_all
  have "\<forall>(k, v) \<in> set (sort_key key_enc (map ?g x)). encodable k \<and> encodable v"
    using c by auto
  moreover have "distinct (map key_enc (sort_key key_enc (map ?g x)))"
    using M.prems unfolding encode_M_iff distinct_map_sort_key keys by blast
  moreover have "map pair_enc (sort_key key_enc (map ?g x)) = map pair_enc (sort_key key_enc x)"
    by (simp only: s pairs)
  ultimately show ?case
    using M.prems by (simp only: canon.simps encode_M_iff ss length_map length_sort)
qed (auto simp: res_simps)


section \<open>Nesting\<close>

lemma fold_max_le: "fold max xs a \<le> k \<longleftrightarrow> a \<le> k \<and> (\<forall>x \<in> set xs. x \<le> (k :: nat))"
  by (induction xs arbitrary: a) auto

lemma nesting_A_le: "nesting (A is) \<le> k \<longleftrightarrow> 1 \<le> k \<and> (\<forall>i \<in> set is. Suc (nesting i) \<le> k)"
  by (cases k) (auto simp: fold_max_le)

lemma nesting_M_le:
  "nesting (M ps) \<le> k \<longleftrightarrow> 1 \<le> k \<and> (\<forall>p \<in> set ps. Suc (nesting (fst p)) \<le> k \<and> Suc (nesting (snd p)) \<le> k)"
  by (cases k) (auto simp: fold_max_le)

lemma nesting_pos: "1 \<le> nesting v"
  by (cases v) auto

section \<open>Decoding an encoding\<close>

lemma dec_items_enc:
  assumes "\<And>i rest. i \<in> set is \<Longrightarrow> dec m d (enc_of i @ rest) = Inr (f i, rest)"
  shows "dec_items m d (length is) (concat (map enc_of is) @ rest) = Inr (map f is, rest)"
  using assms by (induction "is") auto

lemma dec_pairs_enc:
  assumes "\<And>p rest. p \<in> set ps \<Longrightarrow> dec m d (enc_of (fst p) @ rest) = Inr (f (fst p), rest)"
    and "\<And>p rest. p \<in> set ps \<Longrightarrow> dec m d (enc_of (snd p) @ rest) = Inr (f (snd p), rest)"
    and "sorted_wrt (<) (map key_enc ps)"
    and "\<And>q. prev = Some q \<Longrightarrow> ps \<noteq> [] \<Longrightarrow> q < key_enc (hd ps)"
  shows "dec_pairs m d (length ps) prev (concat (map pair_enc ps) @ rest)
           = Inr (map (\<lambda>(k, v). (f k, f v)) ps, rest)"
  using assms
proof (induction ps arbitrary: prev)
  case Nil
  then show ?case by simp
next
  case (Cons p ps)
  let ?tail = "concat (map pair_enc ps) @ rest"
  have "\<not> (case prev of None \<Rightarrow> False | Some q \<Rightarrow> key_enc p \<le> q)"
    using Cons.prems(4) by (auto split: option.splits)
  moreover have "dec_pairs m d (length ps) (Some (key_enc p)) ?tail
      = Inr (map (\<lambda>(k, v). (f k, f v)) ps, rest)"
    using Cons.prems by (intro Cons.IH) (auto simp: neq_Nil_conv)
  moreover have "dec m d (enc_of (fst p) @ enc_of (snd p) @ ?tail) = Inr (f (fst p), enc_of (snd p) @ ?tail)"
    and "dec m d (enc_of (snd p) @ ?tail) = Inr (f (snd p), ?tail)"
    using Cons.prems(1,2) [of p] by simp_all
  moreover have "take (length (enc_of (fst p) @ enc_of (snd p) @ ?tail) - length (enc_of (snd p) @ ?tail))
      (enc_of (fst p) @ enc_of (snd p) @ ?tail) = key_enc p"
    by (rule prefix_of_append)
  ultimately show ?case
    by (cases prev) (simp_all add: Let_def case_prod_beta)
qed

lemma strict_sorted_keys:
  "distinct (map f ps) \<Longrightarrow> sorted_wrt (<) (map f (sort_key f ps))"
  by (simp add: strict_sorted_iff distinct_map_sort_key)

lemma dec_step_A:
  assumes "head 4 (int (length is)) = Inr h" and "d \<le> m"
    and "\<And>i rest. i \<in> set is \<Longrightarrow> dec m (d + 1) (enc_of i @ rest) = Inr (f i, rest)"
  shows "dec m d (h @ concat (map enc_of is) @ rest) = Inr (A (map f is), rest)"
proof -
  have "dec_items m (d + 1) (length is) (concat (map enc_of is) @ rest) = Inr (map f is, rest)"
    using assms(3) by (rule dec_items_enc)
  then show ?thesis using assms(2) by (simp add: dec.simps [of m d] dec_head_head [OF assms(1)])
qed

lemma dec_step_M:
  assumes "head 5 (int (length ps)) = Inr h" and "d \<le> m"
    and "\<And>p rest. p \<in> set ps \<Longrightarrow> dec m (d + 1) (enc_of (fst p) @ rest) = Inr (f (fst p), rest)"
    and "\<And>p rest. p \<in> set ps \<Longrightarrow> dec m (d + 1) (enc_of (snd p) @ rest) = Inr (f (snd p), rest)"
    and "sorted_wrt (<) (map key_enc ps)"
  shows "dec m d (h @ concat (map pair_enc ps) @ rest) = Inr (M (map (\<lambda>(k, v). (f k, f v)) ps), rest)"
proof -
  have "dec_pairs m (d + 1) (length ps) None (concat (map pair_enc ps) @ rest)
      = Inr (map (\<lambda>(k, v). (f k, f v)) ps, rest)"
    using assms(3-5) by (intro dec_pairs_enc) auto
  then show ?thesis using assms(2) by (simp add: dec.simps [of m d] dec_head_head [OF assms(1)])
qed

lemma nesting_A_step: "d + nesting (A is) \<le> Suc m \<Longrightarrow> i \<in> set is \<Longrightarrow> d + 1 + nesting i \<le> Suc m"
  using nesting_A_le [of "is" "Suc m - d"] by auto

lemma nesting_M_step:
  "d + nesting (M ps) \<le> Suc m \<Longrightarrow> p \<in> set ps \<Longrightarrow>
     d + 1 + nesting (fst p) \<le> Suc m \<and> d + 1 + nesting (snd p) \<le> Suc m"
  using nesting_M_le [of ps "Suc m - d"] by auto

lemma canon_pairs_sorted:
  assumes "\<forall>(k, v) \<in> set ps. encodable k \<and> encodable v"
  shows "sort_key key_enc (map (\<lambda>(k, v). (canon k, canon v)) ps)
           = map (\<lambda>(k, v). (canon k, canon v)) (sort_key key_enc ps)"
proof (rule sort_key_map_same)
  fix p assume "p \<in> set ps"
  then show "key_enc ((\<lambda>(k, v). (canon k, canon v)) p) = key_enc p"
    using assms encode_canon [of "fst p" "key_enc p"] by (auto simp: encode_enc_of)
qed

lemma dec_encode:
  assumes "encode v = Inr b" and "d + nesting v \<le> Suc m"
  shows "dec m d (b @ rest) = Inr (canon v, rest)"
  using assms
proof (induction v arbitrary: b d rest)
  case (U x)
  then show ?case by (auto simp: dec.simps [of m d] dec_head_head split: if_splits)
next
  case (N x)
  then show ?case by (auto simp: dec.simps [of m d] dec_head_head dest: head_nonneg)
next
  case (B x)
  then obtain h where h: "head 2 (int (length x)) = Inr h" and b: "b = h @ x" by (auto simp: res_simps)
  then show ?case using B.prems(2) by (simp add: dec.simps [of m d] dec_head_head [OF h])
next
  case (T x)
  then obtain t h where t: "utf8_encode x = Inr t" and h: "head 3 (int (length t)) = Inr h"
    and b: "b = h @ t"
    by (auto simp: res_simps)
  then show ?case
    using T.prems(2) by (simp add: dec.simps [of m d] dec_head_head [OF h] utf8_decode_encode)
next
  case (A x)
  then obtain h where e: "\<forall>i \<in> set x. encodable i" and h: "head 4 (int (length x)) = Inr h"
    and b: "b = h @ concat (map enc_of x)"
    unfolding encode_A_iff by blast
  have "dec m (d + 1) (enc_of i @ rest) = Inr (canon i, rest)" if i: "i \<in> set x" for i rest
    using A.IH [OF i] e i nesting_A_step [OF A.prems(2) i] by (simp add: encode_enc_of)
  then show ?case using dec_step_A [OF h] A.prems(2) b by simp
next
  case (M x)
  then obtain h where e: "\<forall>(k, v) \<in> set x. encodable k \<and> encodable v"
    and h: "head 5 (int (length (sort_key key_enc x))) = Inr h"
    and dis: "distinct (map key_enc x)" and b: "b = h @ concat (map pair_enc (sort_key key_enc x))"
    unfolding encode_M_iff by auto
  have "dec m (d + 1) (enc_of w @ rest) = Inr (canon w, rest)"
    if p: "p \<in> set x" and w: "w = fst p \<or> w = snd p" for p w rest
    using M.IH [OF p, of w] e p w nesting_M_step [OF M.prems(2) p]
    by (auto simp: encode_enc_of fsts.simps snds.simps)
  then show ?case
    using dec_step_M [OF h, of d m canon] M.prems(2) strict_sorted_keys [OF dis] b canon_pairs_sorted [OF e]
    by simp
next
  case (Tag n v)
  then obtain h b' where h: "head 6 n = Inr h" and b': "encode v = Inr b'" and b: "b = h @ b'"
    by (auto simp: res_simps)
  from Tag.IH [OF b'] Tag.prems(2) have "dec m (d + 1) (b' @ rest) = Inr (canon v, rest)" by simp
  then show ?case
    using Tag.prems(2) b head_nonneg [OF h] by (simp add: dec.simps [of m d] dec_head_head [OF h])
qed

section \<open>Every accepted byte string is canonical\<close>

lemma encodeD: "encode v = Inr b \<Longrightarrow> encodable v \<and> enc_of v = b"
  by (simp add: encode_enc_of)

lemma dec_ok_A:
  assumes "head 4 (int (length is)) = Inr h" and "d \<le> m" and "\<forall>i \<in> set is. dec_ok m (d + 1) i"
  shows "dec_ok m d (A is) \<and> enc_of (A is) = h @ concat (map enc_of is)"
proof -
  have e: "encode (A is) = Inr (h @ concat (map enc_of is))"
    using assms by (auto simp: encode_A_iff dec_ok_def simp del: encode.simps)
  have "nesting (A is) \<le> Suc m - d"
    using assms(2,3) by (subst nesting_A_le) (auto simp: dec_ok_def)
  then show ?thesis using assms(2) encodeD [OF e] by (simp add: dec_ok_def)
qed

lemma dec_ok_M:
  assumes "head 5 (int (length ps)) = Inr h" and "d \<le> m" and "sorted_wrt (<) (map key_enc ps)"
    and "\<forall>p \<in> set ps. dec_ok m (d + 1) (fst p) \<and> dec_ok m (d + 1) (snd p)"
  shows "dec_ok m d (M ps) \<and> enc_of (M ps) = h @ concat (map pair_enc ps)"
proof -
  have e: "encode (M ps) = Inr (h @ concat (map pair_enc ps))"
    using assms by (auto simp: encode_M_iff dec_ok_def strict_sorted_iff sort_key_id_if_sorted
        simp del: encode.simps)
  have "nesting (M ps) \<le> Suc m - d"
    using assms(2,4) by (subst nesting_M_le) (auto simp: dec_ok_def)
  then show ?thesis using assms(2) encodeD [OF e] by (simp add: dec_ok_def)
qed

lemma dec_ok_Tag:
  assumes "head 6 n = Inr h" and "d \<le> m" and "dec_ok m (d + 1) v"
  shows "dec_ok m d (Tag n v) \<and> enc_of (Tag n v) = h @ enc_of v"
proof -
  have "encode v = Inr (enc_of v)" using assms(3) by (simp add: dec_ok_def encode_enc_of)
  then have e: "encode (Tag n v) = Inr (h @ enc_of v)" using assms(1) by simp
  show ?thesis using assms encodeD [OF e] by (simp add: dec_ok_def)
qed

lemma dec_ok_leaf: "encode v = Inr b \<Longrightarrow> nesting v = 1 \<Longrightarrow> d \<le> m \<Longrightarrow> dec_ok m d v \<and> enc_of v = b"
  by (auto simp: dec_ok_def dest!: encodeD)

text \<open>The seven kinds of item an accepted input can start with.\<close>

lemma dec_InrE:
  assumes "dec m d bs = Inr (v, rest)"
  obtains (leaf) b where "encode v = Inr b" "nesting v = 1" "d \<le> m" "bs = b @ rest"
    | (items) h r n "is" where "head 4 (int n) = Inr h" "bs = h @ r" "d \<le> m" "dec_head bs = Inr (4, n, r)"
        "dec_items m (d + 1) n r = Inr (is, rest)" "v = A is"
    | (pairs) h r n ps where "head 5 (int n) = Inr h" "bs = h @ r" "d \<le> m" "dec_head bs = Inr (5, n, r)"
        "dec_pairs m (d + 1) n None r = Inr (ps, rest)" "v = M ps"
    | (tag) h r n w where "head 6 (int n) = Inr h" "bs = h @ r" "d \<le> m" "dec_head bs = Inr (6, n, r)"
        "dec m (d + 1) r = Inr (w, rest)" "v = Tag (int n) w"
proof -
  from assms obtain major n r where dh: "dec_head bs = Inr (major, n, r)" and d: "d \<le> m"
    by (auto simp: dec.simps [of m d] res_simps split: if_splits)
  from head_dec_head [OF dh] obtain h where h: "head major (int n) = Inr h" and bs: "bs = h @ r"
    by blast
  have body: "major = 0 \<and> v = U (int n) \<and> rest = r \<or> major = 1 \<and> v = N (- 1 - int n) \<and> rest = r
      \<or> major = 2 \<and> n \<le> length r \<and> v = B (take n r) \<and> rest = drop n r
      \<or> major = 3 \<and> n \<le> length r \<and> (\<exists>s. utf8_decode (take n r) = Inr s \<and> v = T s) \<and> rest = drop n r
      \<or> major = 4 \<and> (\<exists>is. dec_items m (d + 1) n r = Inr (is, rest) \<and> v = A is)
      \<or> major = 5 \<and> (\<exists>ps. dec_pairs m (d + 1) n None r = Inr (ps, rest) \<and> v = M ps)
      \<or> major = 6 \<and> (\<exists>w. dec m (d + 1) r = Inr (w, rest) \<and> v = Tag (int n) w)"
    using assms dh d by (auto simp: dec.simps [of m d] res_simps split: if_splits)
  show thesis
  proof (cases "major < 4")
    case True
    then have "\<exists>b. encode v = Inr b \<and> nesting v = 1 \<and> bs = b @ rest"
      using body h bs by (auto simp: min_def dest!: utf8_encode_decode)
    then show thesis using leaf d by blast
  next
    case False
    with body dh d h bs items pairs tag show thesis by auto
  qed
qed

lemma dec_pairs_SucE:
  assumes "dec_pairs m d (Suc n) prev bs = Inr (ps, rest)"
  obtains k cur w cur2 qs where "dec m d bs = Inr (k, cur)" "dec m d cur = Inr (w, cur2)"
    "\<not> (case prev of None \<Rightarrow> False | Some p \<Rightarrow> take (length bs - length cur) bs \<le> p)"
    "dec_pairs m d n (Some (take (length bs - length cur) bs)) cur2 = Inr (qs, rest)" "ps = (k, w) # qs"
  using assms by (auto simp: res_simps Let_def)

lemma dec_sound:
  "dec m d bs = Inr (v, rest) \<Longrightarrow> dec_ok m d v \<and> bs = enc_of v @ rest"
  "dec_items m d n bs = Inr (is, rest) \<Longrightarrow>
     length is = n \<and> (\<forall>i \<in> set is. dec_ok m d i) \<and> bs = concat (map enc_of is) @ rest"
  "dec_pairs m d n prev bs = Inr (ps, rest) \<Longrightarrow>
     length ps = n \<and> (\<forall>p \<in> set ps. dec_ok m d (fst p) \<and> dec_ok m d (snd p)) \<and>
     bs = concat (map pair_enc ps) @ rest \<and> sorted_wrt (<) (map key_enc ps) \<and>
     (\<forall>q. prev = Some q \<longrightarrow> ps \<noteq> [] \<longrightarrow> q < key_enc (hd ps))"
proof (induction m d bs and m d n bs and m d n prev bs arbitrary: v rest and "is" rest and ps rest
    rule: dec_dec_items_dec_pairs.induct)
  case (1 m d bs)
  from "1.prems" show ?case
  proof (cases rule: dec_InrE)
    case (leaf b)
    then show ?thesis using dec_ok_leaf by blast
  next
    case (items h r n "is")
    from "1.IH"(1) [OF _ items(4) refl refl _ _ _ _ _ items(5)] items show ?thesis
      using dec_ok_A [of "is" h d m] by simp
  next
    case (pairs h r n ps)
    from "1.IH"(2) [OF _ pairs(4) refl refl _ _ _ _ _ _ pairs(5)] pairs show ?thesis
      using dec_ok_M [of ps h d m] by simp
  next
    case (tag h r n w)
    from "1.IH"(3) [OF _ tag(4) refl refl _ _ _ _ _ _ _ tag(5)] tag show ?thesis
      using dec_ok_Tag [of "int n" h d m w] by simp
  qed
next
  case (3 m d n cur)
  then show ?case by (fastforce simp: res_simps)
next
  case (5 m d n prev bs)
  from "5.prems" obtain k cur w cur2 qs where
    k: "dec m d bs = Inr (k, cur)" and w: "dec m d cur = Inr (w, cur2)"
    and ord: "\<not> (case prev of None \<Rightarrow> False | Some p \<Rightarrow> take (length bs - length cur) bs \<le> p)"
    and qs: "dec_pairs m d n (Some (take (length bs - length cur) bs)) cur2 = Inr (qs, rest)"
    and ps: "ps = (k, w) # qs"
    by (rule dec_pairs_SucE)
  from "5.IH"(1) [OF k] have kk: "dec_ok m d k" "bs = enc_of k @ cur" by auto
  from "5.IH"(2) [OF k refl refl w] have ww: "dec_ok m d w" "cur = enc_of w @ cur2" by auto
  have kb: "take (length bs - length cur) bs = enc_of k" using kk(2) by simp
  note IH = "5.IH"(3) [OF k refl refl w refl ord qs, unfolded kb]
  then have "\<forall>p \<in> set qs. enc_of k < key_enc p"
    by (cases qs) (auto intro: less_trans)
  then show ?case using IH kk ww ord kb ps by (auto split: option.splits)
qed simp_all

section \<open>Over-nested input\<close>

lemma dec_items_deep:
  assumes "\<And>i rest. i \<in> set is \<Longrightarrow> dec m d (enc_of i @ rest) = (if deep i then Inl DepthExceeded else Inr (f i, rest))"
    and "\<exists>i \<in> set is. deep i"
  shows "dec_items m d (length is) (concat (map enc_of is) @ rest) = Inl DepthExceeded"
  using assms
proof (induction "is")
  case (Cons i "is")
  then show ?case by (cases "deep i") auto
qed simp

lemma dec_pairs_deep:
  assumes "\<And>p w rest. p \<in> set ps \<Longrightarrow> w = fst p \<or> w = snd p \<Longrightarrow>
      dec m d (enc_of w @ rest) = (if deep w then Inl DepthExceeded else Inr (f w, rest))"
    and "\<exists>p \<in> set ps. deep (fst p) \<or> deep (snd p)"
    and "sorted_wrt (<) (map key_enc ps)"
    and "\<And>q. prev = Some q \<Longrightarrow> ps \<noteq> [] \<Longrightarrow> q < key_enc (hd ps)"
  shows "dec_pairs m d (length ps) prev (concat (map pair_enc ps) @ rest) = Inl DepthExceeded"
  using assms
proof (induction ps arbitrary: prev)
  case Nil
  then show ?case by simp
next
  case (Cons p ps)
  let ?tail = "concat (map pair_enc ps) @ rest"
  have step: "dec m d (enc_of (fst p) @ enc_of (snd p) @ ?tail)
      = (if deep (fst p) then Inl DepthExceeded else Inr (f (fst p), enc_of (snd p) @ ?tail))"
    "dec m d (enc_of (snd p) @ ?tail) = (if deep (snd p) then Inl DepthExceeded else Inr (f (snd p), ?tail))"
    using Cons.prems(1) [of p] by simp_all
  have ord: "\<not> (case prev of None \<Rightarrow> False | Some q \<Rightarrow> key_enc p \<le> q)"
    using Cons.prems(4) by (auto split: option.splits)
  have pre: "take (length (enc_of (fst p) @ enc_of (snd p) @ ?tail) - length (enc_of (snd p) @ ?tail))
      (enc_of (fst p) @ enc_of (snd p) @ ?tail) = key_enc p"
    by (rule prefix_of_append)
  have "dec_pairs m d (length ps) (Some (key_enc p)) ?tail = Inl DepthExceeded"
    if "\<not> deep (fst p)" "\<not> deep (snd p)"
  proof (rule Cons.IH)
    show "dec m d (enc_of w @ rest) = (if deep w then Inl DepthExceeded else Inr (f w, rest))"
      if "q \<in> set ps" "w = fst q \<or> w = snd q" for q w rest
      using Cons.prems(1) [of q w] that by simp
    show "\<exists>p \<in> set ps. deep (fst p) \<or> deep (snd p)" using Cons.prems(2) that by simp
    show "sorted_wrt (<) (map key_enc ps)" using Cons.prems(3) by simp
    show "q < key_enc (hd ps)" if "Some (key_enc p) = Some q" "ps \<noteq> []" for q
      using Cons.prems(3) that by (cases ps) auto
  qed
  with step ord pre show ?case
    by (cases prev) (auto simp: Let_def)
qed

lemma nesting_A_deep:
  assumes "d \<le> m" and "Suc m < d + nesting (A is)"
  shows "\<exists>i \<in> set is. Suc m < d + 1 + nesting i"
proof (rule ccontr)
  assume "\<not> ?thesis"
  then have "\<forall>i \<in> set is. Suc (nesting i) \<le> Suc m - d" by force
  then have "nesting (A is) \<le> Suc m - d" using assms(1) by (subst nesting_A_le) auto
  with assms show False by linarith
qed

lemma nesting_M_deep:
  assumes "d \<le> m" and "Suc m < d + nesting (M ps)"
  shows "\<exists>p \<in> set ps. Suc m < d + 1 + nesting (fst p) \<or> Suc m < d + 1 + nesting (snd p)"
proof (rule ccontr)
  assume "\<not> ?thesis"
  then have "\<forall>p \<in> set ps. Suc (nesting (fst p)) \<le> Suc m - d \<and> Suc (nesting (snd p)) \<le> Suc m - d"
    by force
  then have "nesting (M ps) \<le> Suc m - d" using assms(1) by (subst nesting_M_le) auto
  with assms show False by linarith
qed

lemma dec_too_deep:
  assumes "encode v = Inr b" and "Suc m < d + nesting v"
  shows "dec m d (b @ rest) = Inl DepthExceeded"
  using assms
proof (induction v arbitrary: b d rest)
  case (A x)
  then obtain h where e: "\<forall>i \<in> set x. encodable i" and h: "head 4 (int (length x)) = Inr h"
    and b: "b = h @ concat (map enc_of x)"
    unfolding encode_A_iff by blast
  show ?case
  proof (cases "d \<le> m")
    case True
    let ?deep = "\<lambda>i. Suc m < d + 1 + nesting i"
    have "dec m (d + 1) (enc_of i @ rest) = (if ?deep i then Inl DepthExceeded else Inr (canon i, rest))"
      if "i \<in> set x" for i rest
      using A.IH [OF that, of "enc_of i" "d + 1"] dec_encode [of i "enc_of i" "d + 1"] e that
      by (auto simp: encode_enc_of)
    moreover have "\<exists>i \<in> set x. ?deep i"
      using nesting_A_deep [OF True A.prems(2)] .
    ultimately have "dec_items m (d + 1) (length x) (concat (map enc_of x) @ rest) = Inl DepthExceeded"
      by (rule dec_items_deep)
    then show ?thesis using True b by (simp add: dec.simps [of m d] dec_head_head [OF h])
  qed (simp add: dec.simps)
next
  case (M x)
  then obtain h where e: "\<forall>(k, v) \<in> set x. encodable k \<and> encodable v"
    and h: "head 5 (int (length (sort_key key_enc x))) = Inr h"
    and dis: "distinct (map key_enc x)" and b: "b = h @ concat (map pair_enc (sort_key key_enc x))"
    unfolding encode_M_iff by auto
  show ?case
  proof (cases "d \<le> m")
    case True
    let ?deep = "\<lambda>i. Suc m < d + 1 + nesting i"
    have "dec m (d + 1) (enc_of w @ rest) = (if ?deep w then Inl DepthExceeded else Inr (canon w, rest))"
      if p: "p \<in> set (sort_key key_enc x)" and w: "w = fst p \<or> w = snd p" for p w rest
      using M.IH [of p w "enc_of w" "d + 1"] dec_encode [of w "enc_of w" "d + 1"] e p w
      by (auto simp: encode_enc_of fsts.simps snds.simps)
    moreover have "\<exists>p \<in> set (sort_key key_enc x). ?deep (fst p) \<or> ?deep (snd p)"
      using nesting_M_deep [OF True M.prems(2)] by simp
    ultimately have "dec_pairs m (d + 1) (length (sort_key key_enc x)) None
        (concat (map pair_enc (sort_key key_enc x)) @ rest) = Inl DepthExceeded"
      by (rule dec_pairs_deep) (use strict_sorted_keys [OF dis] in auto)
    then show ?thesis using True b by (simp add: dec.simps [of m d] dec_head_head [OF h])
  qed (simp add: dec.simps)
next
  case (Tag n v)
  then obtain h b' where h: "head 6 n = Inr h" and b': "encode v = Inr b'" and b: "b = h @ b'"
    by (auto simp: res_simps)
  from Tag.IH [OF b', of "d + 1"] Tag.prems(2) have "dec m (d + 1) (b' @ rest) = Inl DepthExceeded" by simp
  then show ?case using b by (simp add: dec.simps [of m d] dec_head_head [OF h])
qed (simp_all add: dec.simps)

section \<open>Errors\<close>

lemma head_errors: "head major n = Inl e \<Longrightarrow> e = ValueError \<or> e = OverflowError"
  by (auto simp: head_def split: if_splits)

lemma encode_errors:
  "encode v = Inl e \<Longrightarrow> e \<in> {NonCanonical, ValueError, OverflowError, UnicodeEncodeError}"
  "encode_items is = Inl e \<Longrightarrow> e \<in> {NonCanonical, ValueError, OverflowError, UnicodeEncodeError}"
  "encode_pairs ps = Inl e \<Longrightarrow> e \<in> {NonCanonical, ValueError, OverflowError, UnicodeEncodeError}"
  by (induction v and "is" and ps rule: encode_encode_items_encode_pairs.induct)
    (auto simp: res_simps Let_def split: if_splits dest: head_errors utf8_encode_errors)

lemma dec_head_errors: "dec_head bs = Inl e \<Longrightarrow> e = NonCanonical"
  by (auto simp: dec_head_def dec_arg_def Let_def split: list.splits if_splits)

lemma dec_errors:
  "dec m d bs = Inl e \<Longrightarrow> e \<in> {NonCanonical, DepthExceeded, UnicodeDecodeError}"
  "dec_items m d n bs = Inl e \<Longrightarrow> e \<in> {NonCanonical, DepthExceeded, UnicodeDecodeError}"
  "dec_pairs m d n prev bs = Inl e \<Longrightarrow> e \<in> {NonCanonical, DepthExceeded, UnicodeDecodeError}"
proof (induction m d bs and m d n bs and m d n prev bs rule: dec_dec_items_dec_pairs.induct)
  case (1 m d bs)
  show ?case
  proof (cases "dec_head bs")
    case (Inl e')
    then show ?thesis using "1.prems" dec_head_errors [OF Inl] by (auto simp: dec.simps [of m d] split: if_splits)
  next
    case (Inr x)
    obtain major n r where x: "x = (major, n, r)" by (cases x) auto
    note IH = "1.IH" [OF _ Inr [unfolded x] refl refl]
    show ?thesis
      using "1.prems" Inr x IH utf8_decode_errors
      by (auto simp: dec.simps [of m d] res_simps split: if_splits)
  qed
qed (auto simp: res_simps Let_def split: if_splits)

section \<open>The codec\<close>

lemma decode_eq_bounded: "decode b = decode_bounded b UNBOUNDED_DEPTH"
  by (simp add: decode_def decode_bounded_def)

lemma decode_bounded_encode:
  assumes "encode v = Inr b"
  shows "decode_bounded b m = (if nesting v \<le> m then Inr (canon v) else Inl DepthExceeded)"
  using dec_encode [OF assms, of 1 m "[]"] dec_too_deep [OF assms, of m 1 "[]"]
  by (auto simp: decode_bounded_def)

lemma decode_bounded_sound: "decode_bounded b m = Inr v \<Longrightarrow> encode v = Inr b \<and> nesting v \<le> m"
  by (auto simp: decode_bounded_def res_simps encode_enc_of dec_ok_def split: if_splits dest!: dec_sound(1))

interpretation cbor_bounded: byte_codec encode "\<lambda>b. decode_bounded b m" canon "\<lambda>v. nesting v \<le> m" for m
  by unfold_locales (simp_all only: decode_bounded_encode if_True, blast dest: decode_bounded_sound)

interpretation cbor_codec: byte_codec encode decode canon "\<lambda>v. nesting v \<le> UNBOUNDED_DEPTH"
  using cbor_bounded.byte_codec_axioms by (simp add: decode_eq_bounded [abs_def])

interpretation utf8_codec: byte_codec utf8_encode utf8_decode "\<lambda>s. s" "\<lambda>_. True"
  by unfold_locales (blast intro: utf8_decode_encode utf8_encode_decode)+

section \<open>Properties of the codec\<close>

text \<open>C6: The bounded decoder accepts a byte string exactly when it is the deterministic encoding of the
  value it returns, that value has its map entries in canonical order, and it nests no deeper than the
  bound: no second byte string decodes to the same value, and no canonical encoding is refused.\<close>

theorem decode_bounded_exact:
  "decode_bounded b m = Inr v \<longleftrightarrow> encode v = Inr b \<and> nesting v \<le> m \<and> canon v = v"
  by (rule cbor_bounded.dec_iff)

text \<open>Decoding what was encoded, on both branches of the depth guard: the value comes back with its
  maps in canonical order when it nests within the bound, and is refused with DepthExceeded (never
  accepted, never another error) when it nests deeper.\<close>

theorem decode_bounded_roundtrip:
  assumes "encode v = Inr b"
  shows "decode_bounded b m = (if nesting v \<le> m then Inr (canon v) else Inl DepthExceeded)"
  using assms by (rule decode_bounded_encode)

theorem decode_bounded_roundtrip_witness:
  "decode_bounded [0xA2, 0x01, 0x81, 0x05, 0x02, 0x20] 2 = Inl DepthExceeded
   \<and> decode_bounded [0xA2, 0x01, 0x81, 0x05, 0x02, 0x20] 3 = Inr (M [(U 1, A [U 5]), (U 2, N (- 1))])"
proof -
  have e: "encode (M [(U 2, N (- 1)), (U 1, A [U 5])]) = Inr [0xA2, 0x01, 0x81, 0x05, 0x02, 0x20]"
    by code_simp
  have n: "nesting (M [(U 2, N (- 1)), (U 1, A [U 5])]) = 3"
    by code_simp
  have c: "canon (M [(U 2, N (- 1)), (U 1, A [U 5])]) = M [(U 1, A [U 5]), (U 2, N (- 1))]"
    by code_simp
  show ?thesis
    using decode_bounded_roundtrip [OF e, of 2] decode_bounded_roundtrip [OF e, of 3] n c by simp
qed

text \<open>The content id names the value: two encodable values with the same content id are the same
  up to the order in which their map entries were written, unless SHA-384 collides on their two
  encodings. The hypothesis is collision freedom on those two byte strings only.\<close>

theorem content_id_names_value:
  assumes "content_id h v = Inr i" and "content_id h w = Inr i"
    and "inj_on h {enc_of v, enc_of w}"
    and "nesting v \<le> UNBOUNDED_DEPTH" and "nesting w \<le> UNBOUNDED_DEPTH"
  shows "canon v = canon w"
proof -
  obtain b c where e: "encode v = Inr b" "encode w = Inr c"
    and i: "content_id_bytes h b = i" "content_id_bytes h c = i"
    using assms(1,2) by (auto simp: content_id_def res_simps)
  have "b = c"
    using i e [THEN encodeD] assms(3) by (auto simp: content_id_bytes_def inj_on_def)
  then show ?thesis
    using cbor_codec.enc_inject e assms(4,5) by blast
qed

theorem content_id_names_value_witness:
  "canon (M [(U 1, U 2), (U 0, U 3)]) = canon (M [(U 0, U 3), (U 1, U 2)])"
  by (rule content_id_names_value [where h = "\<lambda>b. b" and i = "[0x20, 0x30, 0xA2, 0, 3, 1, 2]"])
    (code_simp, code_simp, simp, simp add: UNBOUNDED_DEPTH_def, simp add: UNBOUNDED_DEPTH_def)

text \<open>The only ways decoding fails: NonCanonical, DepthExceeded, or UnicodeDecodeError for a text
  string that is not UTF-8. The decoder always returns one of these or a value.\<close>

theorem decode_bounded_errors:
  "case decode_bounded b m of
     Inl e \<Rightarrow> e \<in> {NonCanonical, DepthExceeded, UnicodeDecodeError}
   | Inr v \<Rightarrow> nesting v \<le> m"
  using decode_bounded_sound [of b m]
  by (auto simp: decode_bounded_def res_simps split: sum.splits if_splits dest!: dec_errors)

end
