(* ===== verification/CborMaps.thy ===== *)
theory CborMaps
  imports Cbor
begin

text \<open>
  Every signed body of the SDK is a CBOR map with small unsigned keys. This theory carries the facts
  their proofs share: when a leaf is encodable, that a map written with ascending keys below 24 is
  already canonical, and that a decoded map with such keys lists them in ascending order.
\<close>

named_theorems enc_simps \<open>which values can be encoded\<close>

definition small_key :: "cbor \<Rightarrow> bool" where
  "small_key k \<longleftrightarrow> (case k of U n \<Rightarrow> 0 \<le> n \<and> n < 24 | _ \<Rightarrow> False)"

definition key_int :: "cbor \<Rightarrow> int" where
  "key_int k = (case k of U n \<Rightarrow> n | _ \<Rightarrow> - 1)"

definition asc_keys :: "(cbor \<times> cbor) list \<Rightarrow> bool" where
  "asc_keys ps \<longleftrightarrow> (\<forall>p \<in> set ps. small_key (fst p)) \<and> sorted_wrt (<) (map (\<lambda>p. key_int (fst p)) ps)"

section \<open>Encodable values\<close>

lemma head_ok: "is_ok (head major n) \<longleftrightarrow> 0 \<le> n \<and> n < 2 ^ 64"
  by (auto simp: head_def)

lemma head_Inr_ex: "(\<exists>h. head major n = Inr h) \<longleftrightarrow> 0 \<le> n \<and> n < 2 ^ 64"
  using head_ok [of major n] by (simp add: is_ok_iff)

lemma encodable_iff: "encodable v \<longleftrightarrow> (\<exists>b. encode v = Inr b)"
  by (simp add: encodable_def is_ok_iff)

lemma encodable_U [enc_simps]: "encodable (U n) \<longleftrightarrow> 0 \<le> n \<and> n < 2 ^ 64"
  by (auto simp: encodable_def head_ok)

lemma encodable_N [enc_simps]: "encodable (N n) \<longleftrightarrow> n < 0 \<and> - (2 ^ 64) \<le> n"
  by (auto simp: encodable_def head_ok)

lemma encodable_B [enc_simps]: "encodable (B b) \<longleftrightarrow> length b < 2 ^ 64"
  using head_Inr_ex [of 2 "int (length b)"] by (auto simp: encodable_iff res_simps)

lemma encodable_T [enc_simps]:
  "encodable (T s) \<longleftrightarrow> (\<exists>b. utf8_encode s = Inr b \<and> length b < 2 ^ 64)"
proof (cases "utf8_encode s")
  case (Inr b)
  then show ?thesis using head_Inr_ex [of 3 "int (length b)"] by (auto simp: encodable_iff res_simps)
qed (simp add: encodable_iff)

lemma encodable_A [enc_simps]:
  "encodable (A is) \<longleftrightarrow> (\<forall>i \<in> set is. encodable i) \<and> length is < 2 ^ 64"
  using head_Inr_ex [of 4 "int (length is)"] by (auto simp: encodable_iff encode_A_iff simp del: encode.simps)

lemma encodable_Tag [enc_simps]: "encodable (Tag n v) \<longleftrightarrow> 0 \<le> n \<and> n < 2 ^ 64 \<and> encodable v"
  using head_Inr_ex [of 6 n] by (auto simp: encodable_iff res_simps)

lemma encodable_M:
  "encodable (M ps) \<longleftrightarrow>
     (\<forall>p \<in> set ps. encodable (fst p) \<and> encodable (snd p)) \<and> distinct (map key_enc ps) \<and> length ps < 2 ^ 64"
  using head_Inr_ex [of 5 "int (length ps)"]
  by (auto simp: encodable_iff encode_M_iff simp del: encode.simps)

section \<open>Reading a decoded value\<close>

text \<open>
  The SDK reads decoded values by type tests that raise on any other shape; these rules turn such a
  read that succeeds into the shape it found, one level at a time.
\<close>

lemma case_cbor_eq_Inr [res_simps]:
  "case_cbor f (\<lambda>_. Inl e2) (\<lambda>_. Inl e3) (\<lambda>_. Inl e4) (\<lambda>_. Inl e5) (\<lambda>_. Inl e6) (\<lambda>_ _. Inl e7) v = Inr y \<longleftrightarrow>
     (\<exists>n. v = U n \<and> f n = Inr y)"
  "case_cbor (\<lambda>_. Inl e1) fn (\<lambda>_. Inl e3) (\<lambda>_. Inl e4) (\<lambda>_. Inl e5) (\<lambda>_. Inl e6) (\<lambda>_ _. Inl e7) v = Inr y \<longleftrightarrow>
     (\<exists>n. v = N n \<and> fn n = Inr y)"
  "case_cbor (\<lambda>_. Inl e1) (\<lambda>_. Inl e2) fb (\<lambda>_. Inl e4) (\<lambda>_. Inl e5) (\<lambda>_. Inl e6) (\<lambda>_ _. Inl e7) v = Inr y \<longleftrightarrow>
     (\<exists>b. v = B b \<and> fb b = Inr y)"
  "case_cbor (\<lambda>_. Inl e1) (\<lambda>_. Inl e2) (\<lambda>_. Inl e3) ft (\<lambda>_. Inl e5) (\<lambda>_. Inl e6) (\<lambda>_ _. Inl e7) v = Inr y \<longleftrightarrow>
     (\<exists>t. v = T t \<and> ft t = Inr y)"
  "case_cbor (\<lambda>_. Inl e1) (\<lambda>_. Inl e2) (\<lambda>_. Inl e3) (\<lambda>_. Inl e4) fa (\<lambda>_. Inl e6) (\<lambda>_ _. Inl e7) v = Inr y \<longleftrightarrow>
     (\<exists>is. v = A is \<and> fa is = Inr y)"
  "case_cbor (\<lambda>_. Inl e1) (\<lambda>_. Inl e2) (\<lambda>_. Inl e3) (\<lambda>_. Inl e4) (\<lambda>_. Inl e5) fm (\<lambda>_ _. Inl e7) v = Inr y \<longleftrightarrow>
     (\<exists>ps. v = M ps \<and> fm ps = Inr y)"
  "case_cbor (\<lambda>_. Inl e1) (\<lambda>_. Inl e2) (\<lambda>_. Inl e3) (\<lambda>_. Inl e4) (\<lambda>_. Inl e5) (\<lambda>_. Inl e6) fg v = Inr y \<longleftrightarrow>
     (\<exists>n w. v = Tag n w \<and> fg n w = Inr y)"
  by (cases v; simp; fail)+

lemma case_list_eq_Inr [res_simps]:
  "case_list (Inl e) f xs = Inr y \<longleftrightarrow> (\<exists>x xs'. xs = x # xs' \<and> f x xs' = Inr y)"
  "case_list m (\<lambda>_ _. Inl e) xs = Inr y \<longleftrightarrow> xs = [] \<and> m = Inr y"
  by (cases xs; simp; fail)+

section \<open>Small keys\<close>

lemma init_byte_0: "init_byte 0 n = of_nat n"
  by (simp add: init_byte_def)

lemma enc_of_U_small: "0 \<le> n \<Longrightarrow> n < 24 \<Longrightarrow> enc_of (U n) = [of_int n]"
  by (simp add: enc_of_def head_def init_byte_0)

lemma small_keyE: "small_key k \<Longrightarrow> (\<And>n. k = U n \<Longrightarrow> 0 \<le> n \<Longrightarrow> n < 24 \<Longrightarrow> thesis) \<Longrightarrow> thesis"
  by (auto simp: small_key_def split: cbor.splits)

lemma small_key_encodable: "small_key k \<Longrightarrow> encodable k"
  by (auto elim!: small_keyE simp: enc_simps)

lemma small_key_canon: "small_key k \<Longrightarrow> canon k = k"
  by (auto elim!: small_keyE)

lemma small_key_nesting: "small_key k \<Longrightarrow> nesting k = 1"
  by (auto elim!: small_keyE)

lemma word_less_small:
  "0 \<le> i \<Longrightarrow> i < 24 \<Longrightarrow> 0 \<le> j \<Longrightarrow> j < 24 \<Longrightarrow> (of_int i :: byte) < of_int j \<longleftrightarrow> i < j"
  by (simp add: word_less_def uint_word_of_int)

lemma small_key_less:
  "small_key k \<Longrightarrow> small_key l \<Longrightarrow> enc_of k < enc_of l \<longleftrightarrow> key_int k < key_int l"
  by (auto elim!: small_keyE simp: enc_of_U_small key_int_def word_less_small)

lemma small_keys_sorted:
  assumes "\<forall>p \<in> set ps. small_key (fst p)"
  shows "sorted_wrt (<) (map key_enc ps) \<longleftrightarrow> sorted_wrt (<) (map (\<lambda>p. key_int (fst p)) ps)"
  using assms by (induction ps) (auto simp: small_key_less)

lemma asc_keys_sorted: "asc_keys ps \<Longrightarrow> sorted_wrt (<) (map key_enc ps)"
  using small_keys_sorted by (auto simp: asc_keys_def)

lemma sort_key_sorted: "sorted_wrt (<) (map key_enc ps) \<Longrightarrow> sort_key key_enc ps = ps"
  by (simp add: sort_key_id_if_sorted strict_sorted_iff)

section \<open>Maps with ascending small keys\<close>

lemma canon_sorted_map:
  assumes "sorted_wrt (<) (map key_enc ps)" and "\<forall>p \<in> set ps. canon (fst p) = fst p \<and> canon (snd p) = snd p"
  shows "canon (M ps) = M ps"
proof -
  have "map (\<lambda>(k, v). (canon k, canon v)) ps = ps"
    using assms(2) by (intro map_idI) auto
  then show ?thesis using sort_key_sorted [OF assms(1)] by simp
qed

lemma canon_asc: "asc_keys ps \<Longrightarrow> \<forall>p \<in> set ps. canon (snd p) = snd p \<Longrightarrow> canon (M ps) = M ps"
  by (rule canon_sorted_map) (auto simp: asc_keys_sorted asc_keys_def small_key_canon)

lemma asc_keys_map_values [simp]: "asc_keys (map (\<lambda>(k, v). (k, f v)) ps) \<longleftrightarrow> asc_keys ps"
  by (auto simp: asc_keys_def comp_def case_prod_beta)

lemma canon_asc_map: "asc_keys ps \<Longrightarrow> canon (M ps) = M (map (\<lambda>(k, v). (k, canon v)) ps)"
proof -
  assume asc: "asc_keys ps"
  have "map (\<lambda>(k, v). (canon k, canon v)) ps = map (\<lambda>(k, v). (k, canon v)) ps"
    using asc by (auto simp: asc_keys_def small_key_canon)
  then have "canon (M ps) = M (sort_key key_enc (map (\<lambda>(k, v). (k, canon v)) ps))"
    by (simp only: canon.simps)
  then show ?thesis
    using sort_key_sorted [OF asc_keys_sorted [of "map (\<lambda>(k, v). (k, canon v)) ps"]] asc by simp
qed

lemma encodable_asc [enc_simps]:
  "asc_keys ps \<Longrightarrow> encodable (M ps) \<longleftrightarrow> (\<forall>p \<in> set ps. encodable (snd p)) \<and> length ps < 2 ^ 64"
  using asc_keys_sorted [of ps]
  by (auto simp: encodable_M strict_sorted_iff asc_keys_def small_key_encodable)

lemma decode_asc:
  assumes "encode (M ps) = Inr b" and "asc_keys ps"
    and "\<forall>p \<in> set ps. canon (snd p) = snd p" and "nesting (M ps) \<le> UNBOUNDED_DEPTH"
  shows "decode b = Inr (M ps)"
  using assms canon_asc [OF assms(2,3)] by (subst cbor_codec.dec_iff) (simp del: encode.simps)

text \<open>What a decoded map looks like.\<close>

lemma canon_M_sorted:
  assumes "canon (M ps) = M ps" and "encodable (M ps)"
  shows "sorted_wrt (<) (map key_enc ps)"
proof -
  have "map (\<lambda>p. key_enc p) ps = map key_enc (sort_key key_enc (map (\<lambda>(k, v). (canon k, canon v)) ps))"
    using assms(1) by simp
  then have "sorted (map key_enc ps)" by (metis sorted_sort_key)
  then show ?thesis using assms(2) by (simp add: encodable_M strict_sorted_iff)
qed

lemma canon_M_parts:
  assumes "canon (M ps) = M ps" and "encodable (M ps)" and "p \<in> set ps"
  shows "canon (fst p) = fst p" and "canon (snd p) = snd p"
proof -
  let ?g = "\<lambda>(k, v). (canon k, canon v)"
  have e: "\<forall>(k, v) \<in> set ps. encodable k \<and> encodable v" using assms(2) by (auto simp: encodable_M)
  have "map ?g (sort_key key_enc ps) = ps"
    using assms(1) canon_pairs_sorted [OF e] by simp
  then have "map ?g ps = ps" using sort_key_sorted [OF canon_M_sorted [OF assms(1,2)]] by simp
  then have "?g p = p" using assms(3) by (metis map_eq_conv map_ident)
  then show "canon (fst p) = fst p" "canon (snd p) = snd p" by (cases p; simp)+
qed

lemma canon_M_distinct: "canon (M ps) = M ps \<Longrightarrow> encodable (M ps) \<Longrightarrow> distinct (map fst ps)"
  using canon_M_sorted [of ps] by (auto simp: strict_sorted_iff distinct_map inj_on_def)

lemma decode_M_sorted: "decode b = Inr (M ps) \<Longrightarrow> sorted_wrt (<) (map key_enc ps)"
  using cbor_codec.dec_iff [of b "M ps"] canon_M_sorted by (auto simp: encodable_iff simp del: encode.simps)

lemma decode_M_asc:
  assumes "decode b = Inr (M ps)" and "\<forall>p \<in> set ps. small_key (fst p)"
  shows "asc_keys ps"
  using decode_M_sorted [OF assms(1)] small_keys_sorted [OF assms(2)] assms(2) by (simp add: asc_keys_def)

lemma asc_keys_exact:
  assumes "asc_keys ps" and "(\<lambda>p. key_int (fst p)) ` set ps = set ns" and "sorted_wrt (<) ns"
  shows "map fst ps = map U ns"
proof -
  have "map (\<lambda>p. key_int (fst p)) ps = ns"
    using assms by (intro sorted_distinct_set_unique) (auto simp: asc_keys_def strict_sorted_iff)
  then have "map U ns = map (\<lambda>p. U (key_int (fst p))) ps" by auto
  also have "\<dots> = map fst ps"
    using assms(1) by (auto simp: asc_keys_def key_int_def elim!: small_keyE)
  finally show ?thesis ..
qed

end
