(* ===== verification/Cose.thy ===== *)
theory Cose
  imports CborMaps
begin

text \<open>
  The signing layer (\<^verbatim>\<open>impl/python/naalp/cose.py\<close>): algorithm and profile levels, the COSE_Sign1 and
  COSE_Sign objects, the bytes each signature covers, and the ML-DSA, Ed25519 and composite
  operations over the third-party primitives \<open>P\<close>. The theorems say that parsing inverts assembly,
  what exactly parsing accepts, that the signed bytes determine the header and the payload, and that
  a signed object verifies under its key.
\<close>

section \<open>Constants\<close>

definition ALG_MLDSA65 :: int where "ALG_MLDSA65 = - 49"
definition ALG_MLDSA87 :: int where "ALG_MLDSA87 = - 50"
definition ALG_ED25519 :: int where "ALG_ED25519 = - 19"

definition PROFILE_PUBLIC :: int where "PROFILE_PUBLIC = 1"
definition PROFILE_ENTERPRISE :: int where "PROFILE_ENTERPRISE = 2"
definition PROFILE_SOVEREIGN :: int where "PROFILE_SOVEREIGN = 3"

definition TAG_SIGN1 :: int where "TAG_SIGN1 = 18"
definition TAG_SIGN :: int where "TAG_SIGN = 98"

lemmas alg_defs = ALG_MLDSA65_def ALG_MLDSA87_def ALG_ED25519_def
lemmas profile_defs = PROFILE_PUBLIC_def PROFILE_ENTERPRISE_def PROFILE_SOVEREIGN_def

definition alg_level :: "int \<Rightarrow> int \<times> bool" where
  "alg_level alg =
     (if alg = ALG_MLDSA87 then 5 else if alg = ALG_MLDSA65 then 3 else 0,
      alg \<in> {ALG_MLDSA87, ALG_MLDSA65, ALG_ED25519})"

definition profile_min_level :: "int \<Rightarrow> int" where
  "profile_min_level profile = (if profile = PROFILE_SOVEREIGN then 5 else 3)"

section \<open>COSE_Sign1\<close>

definition to_be_signed_raw :: "bytes \<Rightarrow> bytes \<Rightarrow> bytes res" where
  "to_be_signed_raw protected payload =
     encode (A [T (pystr ''Signature1''), B protected, B [], B payload])"

definition assemble_sign1_raw :: "bytes \<Rightarrow> bytes \<Rightarrow> bytes \<Rightarrow> bytes res" where
  "assemble_sign1_raw protected payload sig =
     encode (Tag TAG_SIGN1 (A [B protected, M [], B payload, B sig]))"

definition parse_sign1_raw :: "bytes \<Rightarrow> (bytes \<times> bytes \<times> bytes) res" where
  "parse_sign1_raw obj =
     rbind (decode obj) (\<lambda>v.
       case v of
         Tag n (A arr) \<Rightarrow>
           if n \<noteq> TAG_SIGN1 then Inl ValueError
           else (case arr of
               [B protected, _, B payload, B sig] \<Rightarrow> Inr (protected, payload, sig)
             | _ \<Rightarrow> Inl ValueError)
       | _ \<Rightarrow> Inl ValueError)"

section \<open>COSE_Sign (several signatures)\<close>

definition leg_protected :: "int \<Rightarrow> bytes res" where
  "leg_protected alg = encode (M [(U 1, N alg)])"

definition signature_to_be_signed :: "bytes \<Rightarrow> int \<Rightarrow> bytes \<Rightarrow> bytes res" where
  "signature_to_be_signed body_prot signer_alg payload =
     rbind (leg_protected signer_alg) (\<lambda>lp.
       encode (A [T (pystr ''Signature''), B body_prot, B lp, B [], B payload]))"

definition assemble_sign_raw :: "bytes \<Rightarrow> bytes \<Rightarrow> (bytes \<times> bytes) list \<Rightarrow> bytes res" where
  "assemble_sign_raw body_prot payload legs =
     (let sig_arr = A (map (\<lambda>(sprot, sig). A [B sprot, M [], B sig]) legs) in
      encode (Tag TAG_SIGN (A [B body_prot, M [], B payload, sig_arr])))"

fun parse_legs :: "cbor list \<Rightarrow> (bytes \<times> bytes) list res" where
  "parse_legs [] = Inr []"
| "parse_legs (e # es) =
     (case e of
        A [B sprot, _, B sig] \<Rightarrow> rbind (parse_legs es) (\<lambda>legs. Inr ((sprot, sig) # legs))
      | _ \<Rightarrow> Inl ValueError)"

definition parse_sign_raw :: "bytes \<Rightarrow> (bytes \<times> bytes \<times> (bytes \<times> bytes) list) res" where
  "parse_sign_raw obj =
     rbind (decode obj) (\<lambda>v.
       case v of
         Tag n (A arr) \<Rightarrow>
           if n \<noteq> TAG_SIGN then Inl ValueError
           else (case arr of
               [B body_prot, _, B payload, A es] \<Rightarrow>
                 rbind (parse_legs es) (\<lambda>legs. Inr (body_prot, payload, legs))
             | _ \<Rightarrow> Inl ValueError)
       | _ \<Rightarrow> Inl ValueError)"

fun find_alg :: "(cbor \<times> cbor) list \<Rightarrow> int res" where
  "find_alg [] = Inl ValueError"
| "find_alg ((k, val) # ps) =
     (case (k, val) of (U n, N alg) \<Rightarrow> if n = 1 then Inr alg else find_alg ps
      | _ \<Rightarrow> find_alg ps)"

definition alg_from_protected :: "bytes \<Rightarrow> int res" where
  "alg_from_protected prot =
     (if prot = [0xA0] then Inl NonCanonical
      else rbind (decode prot) (\<lambda>v. case v of M pairs \<Rightarrow> find_alg pairs | _ \<Rightarrow> Inl ValueError))"

section \<open>Signature operations\<close>

definition mldsa :: "int \<Rightarrow> int res" where
  "mldsa alg =
     (if alg = ALG_MLDSA65 then Inr ALG_MLDSA65
      else if alg = ALG_MLDSA87 then Inr ALG_MLDSA87 else Inl ValueError)"

definition mldsa_keygen :: "prims \<Rightarrow> string \<Rightarrow> bytes \<Rightarrow> bytes res" where
  "mldsa_keygen P param seed =
     rbind (md_key_derive P (if param = ''ML-DSA-87'' then ALG_MLDSA87 else ALG_MLDSA65) seed)
       (\<lambda>(pk, sk). Inr pk)"

definition mldsa_sign :: "prims \<Rightarrow> int \<Rightarrow> bytes \<Rightarrow> bytes \<Rightarrow> bytes res" where
  "mldsa_sign P alg seed tbs =
     rbind (mldsa alg) (\<lambda>m. rbind (md_key_derive P m seed) (\<lambda>(pk, sk). md_sign P m sk tbs []))"

definition mldsa_verify :: "prims \<Rightarrow> int \<Rightarrow> bytes \<Rightarrow> bytes \<Rightarrow> bytes \<Rightarrow> bool res" where
  "mldsa_verify P alg pk tbs sig = rbind (mldsa alg) (\<lambda>m. md_verify P m pk tbs sig [])"

definition signature_leg :: "prims \<Rightarrow> bytes \<Rightarrow> int \<Rightarrow> bytes \<Rightarrow> bytes \<Rightarrow> (bytes \<times> bytes) res" where
  "signature_leg P body_prot alg seed payload =
     rbind (leg_protected alg) (\<lambda>sprot.
       rbind (signature_to_be_signed body_prot alg payload) (\<lambda>tbs.
         rbind (mldsa_sign P alg seed tbs) (\<lambda>sig. Inr (sprot, sig))))"

definition ed25519_sign :: "prims \<Rightarrow> bytes \<Rightarrow> bytes \<Rightarrow> bytes res" where
  "ed25519_sign P seed msg = (if length seed \<noteq> 32 then Inl ValueError else ed_sign P seed msg)"

definition ed25519_verify :: "prims \<Rightarrow> bytes \<Rightarrow> bytes \<Rightarrow> bytes \<Rightarrow> bool res" where
  "ed25519_verify P pk msg sig = ed_verify P pk msg sig"

section \<open>Composite signatures\<close>

definition ALG_COMPOSITE_65_ED25519 :: int where "ALG_COMPOSITE_65_ED25519 = - 65537"
definition ALG_COMPOSITE_44_ED25519 :: int where "ALG_COMPOSITE_44_ED25519 = - 65538"

definition ascii_bytes :: "string \<Rightarrow> bytes" where
  "ascii_bytes s = map of_char s"

definition COMPOSITE_PREFIX :: bytes where
  "COMPOSITE_PREFIX = ascii_bytes ''CompositeAlgorithmSignatures2025''"
definition COMPOSITE_LABEL_MLDSA65_ED25519 :: bytes where
  "COMPOSITE_LABEL_MLDSA65_ED25519 = ascii_bytes ''COMPSIG-MLDSA65-Ed25519-SHA512''"
definition MLDSA65_SIG_SIZE :: nat where "MLDSA65_SIG_SIZE = 3309"
definition MLDSA65_PUB_SIZE :: nat where "MLDSA65_PUB_SIZE = 1952"

definition compute_mprime :: "prims \<Rightarrow> bytes \<Rightarrow> bytes \<Rightarrow> bytes \<Rightarrow> bytes res" where
  "compute_mprime P label ctx m =
     (if length ctx > 255 then Inl ValueError
      else Inr (COMPOSITE_PREFIX @ label @ [of_nat (length ctx)] @ ctx @ sha512 P m))"

definition composite_sign :: "prims \<Rightarrow> bytes \<Rightarrow> bytes \<Rightarrow> bytes \<Rightarrow> bytes res" where
  "composite_sign P mldsa_seed ed_seed tbs =
     rbind (compute_mprime P COMPOSITE_LABEL_MLDSA65_ED25519 [] tbs) (\<lambda>mprime.
       rbind (md_key_derive P ALG_MLDSA65 mldsa_seed) (\<lambda>(pk, sk).
         rbind (md_sign P ALG_MLDSA65 sk mprime COMPOSITE_LABEL_MLDSA65_ED25519) (\<lambda>mldsa_sig.
           rbind (ed25519_sign P ed_seed mprime) (\<lambda>trad_sig. Inr (mldsa_sig @ trad_sig)))))"

definition composite_verify :: "prims \<Rightarrow> bytes \<Rightarrow> bytes \<Rightarrow> bytes \<Rightarrow> bytes \<Rightarrow> bool res" where
  "composite_verify P mldsa_pk ed_pk m sig =
     (if length sig \<noteq> MLDSA65_SIG_SIZE + 64 then Inr False
      else rbind (compute_mprime P COMPOSITE_LABEL_MLDSA65_ED25519 [] m) (\<lambda>mprime.
        rbind (md_verify P ALG_MLDSA65 mldsa_pk mprime (take MLDSA65_SIG_SIZE sig)
                 COMPOSITE_LABEL_MLDSA65_ED25519) (\<lambda>mldsa_ok.
          rbind (ed25519_verify P ed_pk mprime (drop MLDSA65_SIG_SIZE sig)) (\<lambda>ed_ok.
            Inr (mldsa_ok \<and> ed_ok)))))"

section \<open>Signing and verifying an object\<close>

definition cose_sign1 :: "prims \<Rightarrow> int \<Rightarrow> bytes \<Rightarrow> bytes \<Rightarrow> bytes \<Rightarrow> bytes res" where
  "cose_sign1 P alg seed protected payload =
     rbind (to_be_signed_raw protected payload) (\<lambda>tbs.
       rbind (mldsa_sign P alg seed tbs) (\<lambda>sig. assemble_sign1_raw protected payload sig))"

definition cose_verify1_raw :: "prims \<Rightarrow> int \<Rightarrow> bytes \<Rightarrow> bytes \<Rightarrow> bytes \<Rightarrow> bool res" where
  "cose_verify1_raw P alg pk tbs sig =
     (if alg = ALG_MLDSA65 \<or> alg = ALG_MLDSA87 then mldsa_verify P alg pk tbs sig
      else if alg = ALG_ED25519 then ed25519_verify P pk tbs sig
      else Inl ValueError)"

definition cose_verify1 :: "prims \<Rightarrow> int \<Rightarrow> bytes \<Rightarrow> bytes \<Rightarrow> bool res" where
  "cose_verify1 P alg pk obj =
     rbind (parse_sign1_raw obj) (\<lambda>(protected, payload, sig).
       rbind (to_be_signed_raw protected payload) (\<lambda>tbs. cose_verify1_raw P alg pk tbs sig))"

section \<open>Parsing and assembly\<close>

lemma UNBOUNDED_DEPTH_ge [simp]: "n \<le> 1048576 \<Longrightarrow> n \<le> UNBOUNDED_DEPTH"
  by (simp add: UNBOUNDED_DEPTH_def)

lemma parse_sign1_iff:
  "parse_sign1_raw obj = Inr (protected, payload, sig) \<longleftrightarrow>
     (\<exists>unprot. decode obj = Inr (Tag TAG_SIGN1 (A [B protected, unprot, B payload, B sig])))"
  by (auto simp: parse_sign1_raw_def res_simps)

lemma decode_canonical:
  "encode v = Inr b \<Longrightarrow> canon v = v \<Longrightarrow> nesting v \<le> UNBOUNDED_DEPTH \<Longrightarrow> decode b = Inr v"
  using cbor_codec.dec_iff by blast

lemma parse_assemble_sign1:
  "assemble_sign1_raw protected payload sig = Inr obj \<Longrightarrow>
     parse_sign1_raw obj = Inr (protected, payload, sig)"
  unfolding parse_sign1_iff assemble_sign1_raw_def
  by (intro exI [of _ "M []"] decode_canonical) (simp_all del: encode.simps)

lemma parse_legs_assembled:
  "parse_legs (map (\<lambda>(sprot, sig). A [B sprot, M [], B sig]) legs) = Inr legs"
  by (induction legs) auto

lemma nesting_legs:
  "nesting (A (map (\<lambda>(sprot, sig). A [B sprot, M [], B sig]) legs)) \<le> 3"
  by (subst nesting_A_le) auto

lemma parse_assemble_sign:
  assumes "assemble_sign_raw body_prot payload legs = Inr obj"
  shows "parse_sign_raw obj = Inr (body_prot, payload, legs)"
proof -
  let ?a = "A (map (\<lambda>(sprot, sig). A [B sprot, M [], B sig]) legs)"
  let ?v = "Tag TAG_SIGN (A [B body_prot, M [], B payload, ?a])"
  have "nesting ?v \<le> 5" using nesting_legs [of legs] by simp
  moreover have "canon ?v = ?v" by auto
  ultimately have "decode obj = Inr ?v"
    using assms by (intro decode_canonical) (simp_all add: assemble_sign_raw_def Let_def del: encode.simps nesting.simps canon.simps)
  then show ?thesis by (simp add: parse_sign_raw_def parse_legs_assembled)
qed

section \<open>What a signature covers\<close>

lemma encode_canonical_inject:
  assumes "encode v = Inr b" "encode w = Inr b" "canon v = v" "canon w = w"
    "nesting v \<le> UNBOUNDED_DEPTH" "nesting w \<le> UNBOUNDED_DEPTH"
  shows "v = w"
  using cbor_codec.enc_inject [OF assms(1,2,5,6)] assms(3,4) by simp

lemma to_be_signed_inject:
  "to_be_signed_raw p pl = Inr m \<Longrightarrow> to_be_signed_raw p' pl' = Inr m \<Longrightarrow> p = p' \<and> pl = pl'"
  unfolding to_be_signed_raw_def
  by (drule (1) encode_canonical_inject) (simp_all del: encode.simps)

lemma signature_to_be_signed_inject:
  "signature_to_be_signed bp alg pl = Inr m \<Longrightarrow> signature_to_be_signed bp' alg' pl' = Inr m \<Longrightarrow>
     bp = bp' \<and> alg = alg' \<and> pl = pl'"
  unfolding signature_to_be_signed_def leg_protected_def rbind_eq_Inr
  by (elim exE conjE, drule (1) encode_canonical_inject)
    (auto simp del: encode.simps dest: encode_canonical_inject)

lemma signature_inputs_disjoint:
  "to_be_signed_raw p pl = Inr m \<Longrightarrow> signature_to_be_signed bp alg pl' \<noteq> Inr m"
  unfolding to_be_signed_raw_def signature_to_be_signed_def rbind_eq_Inr
  by (auto simp del: encode.simps dest: encode_canonical_inject)

section \<open>Signed objects verify\<close>

lemma mldsa_sign_verify:
  assumes "md_correct P" and "mldsa_sign P alg seed m = Inr s" and "md_key_derive P alg seed = Inr (pk, sk)"
  shows "cose_verify1_raw P alg pk m s = Inr True" and "alg = ALG_MLDSA65 \<or> alg = ALG_MLDSA87"
  using assms
  by (auto simp: mldsa_sign_def mldsa_def mldsa_verify_def cose_verify1_raw_def md_correct_def res_simps
      split: if_splits)

lemma mldsa_verifies:
  assumes "md_correct P" and "mldsa_sign P alg seed m = Inr s" and "md_key_derive P alg seed = Inr (pk, sk)"
  shows "mldsa_verify P alg pk m s = Inr True"
  using assms by (auto simp: mldsa_sign_def mldsa_def mldsa_verify_def md_correct_def res_simps split: if_splits)

lemma cose_sign1_verify1:
  assumes "md_correct P" and "cose_sign1 P alg seed protected payload = Inr obj"
    and "md_key_derive P alg seed = Inr (pk, sk)"
  shows "cose_verify1 P alg pk obj = Inr True"
  using assms mldsa_sign_verify [OF assms(1) _ assms(3)] parse_assemble_sign1
  by (fastforce simp: cose_sign1_def cose_verify1_def rbind_eq_Inr)

lemma composite_verify_iff:
  "composite_verify P mpk epk m sig = Inr True \<longleftrightarrow>
     length sig = MLDSA65_SIG_SIZE + 64 \<and>
     (\<exists>mprime. compute_mprime P COMPOSITE_LABEL_MLDSA65_ED25519 [] m = Inr mprime \<and>
        md_verify P ALG_MLDSA65 mpk mprime (take MLDSA65_SIG_SIZE sig)
          COMPOSITE_LABEL_MLDSA65_ED25519 = Inr True \<and>
        ed25519_verify P epk mprime (drop MLDSA65_SIG_SIZE sig) = Inr True)"
  by (auto simp: composite_verify_def res_simps)

lemma composite_sign_verify:
  assumes "md_correct P" and "ed_correct P"
    and "composite_sign P mseed eseed tbs = Inr sig"
    and "md_key_derive P ALG_MLDSA65 mseed = Inr (mpk, sk)" and "ed_public P eseed = Inr epk"
    and "\<And>m s. md_sign P ALG_MLDSA65 sk m COMPOSITE_LABEL_MLDSA65_ED25519 = Inr s \<Longrightarrow> length s = MLDSA65_SIG_SIZE"
    and "\<And>m s. ed_sign P eseed m = Inr s \<Longrightarrow> length s = 64"
  shows "composite_verify P mpk epk tbs sig = Inr True"
  using assms
  by (fastforce simp: composite_sign_def composite_verify_iff ed25519_sign_def ed25519_verify_def
      md_correct_def ed_correct_def res_simps)

section \<open>Properties of the signing layer\<close>

text \<open>Parsing inverts assembly for both object forms: whatever header, payload, signature or list of
  signature legs an assembled object was built from is what its parser returns.\<close>

theorem assembled_objects_parse:
  "(assemble_sign1_raw protected payload sig = Inr obj \<longrightarrow>
      parse_sign1_raw obj = Inr (protected, payload, sig)) \<and>
   (assemble_sign_raw body_prot payload legs = Inr obj' \<longrightarrow>
      parse_sign_raw obj' = Inr (body_prot, payload, legs))"
  by (blast intro: parse_assemble_sign1 parse_assemble_sign)

theorem assembled_objects_parse_witness:
  "parse_sign1_raw [0xD2, 0x84, 0x41, 1, 0xA0, 0x41, 2, 0x41, 3] = Inr ([1], [2], [3]) \<and>
   parse_sign_raw [0xD8, 0x62, 0x84, 0x41, 1, 0xA0, 0x41, 2, 0x81, 0x83, 0x41, 7, 0xA0, 0x41, 8] = Inr ([1], [2], [([7], [8])])"
proof -
  have a: "assemble_sign1_raw [1] [2] [3] = Inr [0xD2, 0x84, 0x41, 1, 0xA0, 0x41, 2, 0x41, 3]"
    by code_simp
  have b: "assemble_sign_raw [1] [2] [([7], [8])]
      = Inr [0xD8, 0x62, 0x84, 0x41, 1, 0xA0, 0x41, 2, 0x81, 0x83, 0x41, 7, 0xA0, 0x41, 8]"
    by code_simp
  show ?thesis using assembled_objects_parse a b by blast
qed

text \<open>The bytes a signature covers determine what was signed. A single-signer input fixes the
  protected header and the payload; a multi-signer input fixes the body header, the leg's algorithm and
  the payload; and no byte string is an input of both kinds, so a signature of one form cannot be
  replayed as the other.\<close>

theorem signed_bytes_bind:
  assumes "to_be_signed_raw p pl = Inr m"
  shows "(\<forall>p' pl'. to_be_signed_raw p' pl' = Inr m \<longrightarrow> p' = p \<and> pl' = pl) \<and>
    (\<forall>bp alg pl'. signature_to_be_signed bp alg pl' \<noteq> Inr m) \<and>
    (\<forall>bp alg pl1 bp' alg' pl2 n. signature_to_be_signed bp alg pl1 = Inr n \<longrightarrow>
       signature_to_be_signed bp' alg' pl2 = Inr n \<longrightarrow> bp = bp' \<and> alg = alg' \<and> pl1 = pl2)"
  using assms signature_inputs_disjoint to_be_signed_inject signature_to_be_signed_inject by metis

theorem signed_bytes_bind_witness:
  "\<forall>bp alg pl. signature_to_be_signed bp alg pl \<noteq>
     Inr [0x84, 0x6A, 0x53, 0x69, 0x67, 0x6E, 0x61, 0x74, 0x75, 0x72, 0x65, 0x31, 0x41, 1, 0x40, 0x41, 2]"
proof -
  have "to_be_signed_raw [1] [2]
      = Inr [0x84, 0x6A, 0x53, 0x69, 0x67, 0x6E, 0x61, 0x74, 0x75, 0x72, 0x65, 0x31, 0x41, 1, 0x40, 0x41, 2]"
    by code_simp
  from signed_bytes_bind [OF this] show ?thesis by blast
qed

text \<open>An object signed with a seed verifies under the public key derived from that seed, given that
  the ML-DSA package verifies its own signatures.\<close>

theorem signed_object_verifies:
  assumes "md_correct P" and "cose_sign1 P alg seed protected payload = Inr obj"
    and "md_key_derive P alg seed = Inr (pk, sk)"
  shows "cose_verify1 P alg pk obj = Inr True"
  using assms by (rule cose_sign1_verify1)

theorem signed_object_verifies_witness:
  "\<exists>obj. cose_sign1 sample_prims (- 49) [5] [1] [2] = Inr obj \<and>
     cose_verify1 sample_prims (- 49) [5] obj = Inr True"
proof -
  have "is_ok (cose_sign1 sample_prims (- 49) [5] [1] [2])"
    by code_simp
  then obtain obj where o: "cose_sign1 sample_prims (- 49) [5] [1] [2] = Inr obj"
    by (auto simp: is_ok_iff)
  have "cose_verify1 sample_prims (- 49) [5] obj = Inr True"
    by (rule signed_object_verifies [OF _ o]) simp_all
  with o show ?thesis by blast
qed

text \<open>A composite signature verifies exactly when it has the exact composite size and both of its
  halves verify over the same representative of the message: neither leg alone is enough, and neither
  can be stripped.\<close>

theorem composite_needs_both_legs:
  "composite_verify P mpk epk m sig = Inr True \<longleftrightarrow>
     length sig = MLDSA65_SIG_SIZE + 64 \<and>
     (\<exists>mprime. compute_mprime P COMPOSITE_LABEL_MLDSA65_ED25519 [] m = Inr mprime \<and>
        md_verify P ALG_MLDSA65 mpk mprime (take MLDSA65_SIG_SIZE sig)
          COMPOSITE_LABEL_MLDSA65_ED25519 = Inr True \<and>
        ed25519_verify P epk mprime (drop MLDSA65_SIG_SIZE sig) = Inr True)"
  by (rule composite_verify_iff)

end
