(* ===== verification/Envelope.thy ===== *)
theory Envelope
  imports Cose "HOL-Library.AList"
begin

text \<open>
  The signed object envelope (\<^verbatim>\<open>impl/python/naalp/envelope.py\<close> with its generated wire constants
  \<^verbatim>\<open>_wire_constants_gen.py\<close>): the object body and its CBOR map, the protected header, signing (pure and
  composite) and the offline verification with every check in the code's order. The kind validator and
  the set of critical extensions the caller understands are arguments, as in the code.
\<close>

section \<open>Wire constants\<close>

definition FIELD_ID :: int where "FIELD_ID = 1"
definition FIELD_KIND :: int where "FIELD_KIND = 2"
definition FIELD_CHANNEL :: int where "FIELD_CHANNEL = 3"
definition FIELD_TIER :: int where "FIELD_TIER = 4"
definition FIELD_SIGNER :: int where "FIELD_SIGNER = 5"
definition FIELD_CREATED :: int where "FIELD_CREATED = 6"
definition FIELD_EFFECT :: int where "FIELD_EFFECT = 7"
definition FIELD_CAUSES :: int where "FIELD_CAUSES = 8"
definition FIELD_PROFILE :: int where "FIELD_PROFILE = 9"
definition FIELD_BODY :: int where "FIELD_BODY = 10"
definition FIELD_EXT :: int where "FIELD_EXT = 11"
definition FIELD_CEXT :: int where "FIELD_CEXT = 12"
definition FIELD_AUDIENCE :: int where "FIELD_AUDIENCE = 13"
definition FIELD_SUITE :: int where "FIELD_SUITE = 14"

lemmas field_defs = FIELD_ID_def FIELD_KIND_def FIELD_CHANNEL_def FIELD_TIER_def FIELD_SIGNER_def
  FIELD_CREATED_def FIELD_EFFECT_def FIELD_CAUSES_def FIELD_PROFILE_def FIELD_BODY_def FIELD_EXT_def
  FIELD_CEXT_def FIELD_AUDIENCE_def FIELD_SUITE_def

definition NAALP_VERSION :: int where "NAALP_VERSION = 2"
definition HEADER_LABEL :: pystr where "HEADER_LABEL = pystr ''naalp''"

definition MAX_OBJECT_SIZE :: nat where "MAX_OBJECT_SIZE = 1048576"
definition MAX_CAUSES :: nat where "MAX_CAUSES = 1024"
definition MAX_EXT :: nat where "MAX_EXT = 64"
definition MAX_CEXT :: nat where "MAX_CEXT = 64"
definition MAX_NESTING_DEPTH :: nat where "MAX_NESTING_DEPTH = 16"

definition SUITE_MLDSA65_ED25519 :: int where "SUITE_MLDSA65_ED25519 = 1"

definition composite_suite_for_alg :: "int \<Rightarrow> int \<times> bool" where
  "composite_suite_for_alg alg =
     (if alg = ALG_COMPOSITE_65_ED25519 then (SUITE_MLDSA65_ED25519, True) else (0, False))"

definition RECHECK_KEY :: int where "RECHECK_KEY = 13"

definition is_known_recheck_procedure :: "int \<Rightarrow> bool" where
  "is_known_recheck_procedure i \<longleftrightarrow> 1 \<le> i \<and> i \<le> 4"

section \<open>The object\<close>

type_synonym ext_map = "(cbor \<times> cbor) list"

record obj =
  obj_id :: "bytes option"
  kind :: int
  channel :: int
  tier :: int
  signer :: bytes
  created :: int
  effect :: int
  causes :: "bytes list"
  profile :: int
  body :: cbor
  ext :: "ext_map option"
  cext :: "ext_map option"
  audience :: pystr
  suite :: int

definition body_fields :: "obj \<Rightarrow> (cbor \<times> cbor) list" where
  "body_fields obj =
     [(U FIELD_KIND, U (kind obj)), (U FIELD_CHANNEL, U (channel obj)), (U FIELD_TIER, U (tier obj)),
      (U FIELD_SIGNER, B (signer obj)), (U FIELD_CREATED, U (created obj)), (U FIELD_EFFECT, U (effect obj)),
      (U FIELD_CAUSES, A (map B (causes obj))), (U FIELD_PROFILE, U (profile obj)), (U FIELD_BODY, body obj)]
     @ (case ext obj of None \<Rightarrow> [] | Some e \<Rightarrow> [(U FIELD_EXT, M e)])
     @ (case cext obj of None \<Rightarrow> [] | Some e \<Rightarrow> [(U FIELD_CEXT, M e)])
     @ (if audience obj \<noteq> [] then [(U FIELD_AUDIENCE, T (audience obj))] else [])
     @ (if suite obj \<noteq> 0 then [(U FIELD_SUITE, U (suite obj))] else [])"

definition body_map :: "bool \<Rightarrow> obj \<Rightarrow> cbor res" where
  "body_map include_id obj =
     (if include_id
      then (case obj_id obj of None \<Rightarrow> Inl TypeError
            | Some i \<Rightarrow> Inr (M ((U FIELD_ID, B i) # body_fields obj)))
      else Inr (M (body_fields obj)))"

definition object_content_id :: "prims \<Rightarrow> obj \<Rightarrow> bytes res" where
  "object_content_id P obj = rbind (body_map False obj) (content_id (sha384 P))"

section \<open>Signing\<close>

definition protected_header :: "int \<Rightarrow> bytes \<Rightarrow> int \<Rightarrow> bytes res" where
  "protected_header alg sgnr prof =
     (let naalp = M [(U 1, B sgnr), (U 2, U prof), (U 3, U NAALP_VERSION)] in
      encode (M [(U 1, N alg), (T HEADER_LABEL, naalp)]))"

text \<open>The signing functions set fs of the object they are given; the model returns it updated.\<close>

definition assign_id :: "prims \<Rightarrow> obj \<Rightarrow> (obj \<times> bytes) res" where
  "assign_id P obj =
     rbind (object_content_id P obj) (\<lambda>i.
       let o1 = obj\<lparr>obj_id := Some i\<rparr> in
       rbind (rbind (body_map True o1) encode) (\<lambda>payload. Inr (o1, payload)))"

definition sign :: "prims \<Rightarrow> obj \<Rightarrow> int \<Rightarrow> bytes \<Rightarrow> (obj \<times> bytes) res" where
  "sign P obj alg seed =
     rbind (assign_id P obj) (\<lambda>(o1, payload).
       rbind (protected_header alg (signer o1) (profile o1)) (\<lambda>prot.
         rbind (to_be_signed_raw prot payload) (\<lambda>tbs.
           rbind (mldsa_sign P alg seed tbs) (\<lambda>sig.
             rbind (assemble_sign1_raw prot payload sig) (\<lambda>b. Inr (o1, b))))))"

definition sign_composite :: "prims \<Rightarrow> obj \<Rightarrow> bytes \<Rightarrow> bytes \<Rightarrow> (obj \<times> bytes) res" where
  "sign_composite P obj mldsa_seed ed_seed =
     rbind (assign_id P (obj\<lparr>suite := SUITE_MLDSA65_ED25519\<rparr>)) (\<lambda>(o1, payload).
       rbind (protected_header ALG_COMPOSITE_65_ED25519 (signer o1) (profile o1)) (\<lambda>prot.
         rbind (to_be_signed_raw prot payload) (\<lambda>tbs.
           rbind (composite_sign P mldsa_seed ed_seed tbs) (\<lambda>sig.
             rbind (assemble_sign1_raw prot payload sig) (\<lambda>b. Inr (o1, b))))))"

section \<open>Reading the protected header\<close>

record routing =
  r_alg :: "int option"
  r_signer :: "bytes option"
  r_profile :: "int option"
  r_version :: "int option"

definition naalp_entry :: "routing \<Rightarrow> cbor \<times> cbor \<Rightarrow> routing" where
  "naalp_entry r p =
     (case p of
        (U n, B s) \<Rightarrow> if n = 1 then r\<lparr>r_signer := Some s\<rparr> else r
      | (U n, U v) \<Rightarrow> if n = 2 then r\<lparr>r_profile := Some v\<rparr>
                     else if n = 3 then r\<lparr>r_version := Some v\<rparr> else r
      | _ \<Rightarrow> r)"

definition header_entry :: "routing \<Rightarrow> cbor \<times> cbor \<Rightarrow> routing" where
  "header_entry r p =
     (case p of
        (U n, N a) \<Rightarrow> if n = 1 then r\<lparr>r_alg := Some a\<rparr> else r
      | (T t, M ps) \<Rightarrow> if t = HEADER_LABEL then foldl naalp_entry r ps else r
      | _ \<Rightarrow> r)"

definition parse_protected :: "bytes \<Rightarrow> (int \<times> bytes \<times> int \<times> int) res" where
  "parse_protected prot =
     (if prot = [0xA0] then Inl NonCanonical
      else rbind (decode prot) (\<lambda>v.
        case v of
          M pairs \<Rightarrow>
            (let r = foldl header_entry \<lparr>r_alg = None, r_signer = None, r_profile = None, r_version = None\<rparr> pairs in
             case (r_alg r, r_signer r, r_profile r, r_version r) of
               (Some a, Some s, Some p, Some w) \<Rightarrow> Inr (a, s, p, w)
             | _ \<Rightarrow> Inl (EnvelopeError ''Malformed''))
        | _ \<Rightarrow> Inl (EnvelopeError ''Malformed'')))"

section \<open>Reading the object\<close>

definition field_step :: "(int \<rightharpoonup> cbor) \<Rightarrow> cbor \<times> cbor \<Rightarrow> (int \<rightharpoonup> cbor) res" where
  "field_step m p = (case p of (U n, v) \<Rightarrow> Inr (m(n \<mapsto> v)) | _ \<Rightarrow> Inl (EnvelopeError ''Malformed''))"

definition need :: "(int \<rightharpoonup> cbor) \<Rightarrow> int \<Rightarrow> cbor res" where
  "need fs fnum = (case fs fnum of None \<Rightarrow> Inl (EnvelopeError ''Malformed'') | Some v \<Rightarrow> Inr v)"

definition need_U :: "(int \<rightharpoonup> cbor) \<Rightarrow> int \<Rightarrow> int res" where
  "need_U fs fnum = rbind (need fs fnum) (\<lambda>v. case v of U n \<Rightarrow> Inr n | _ \<Rightarrow> Inl (EnvelopeError ''Malformed''))"

definition need_B :: "(int \<rightharpoonup> cbor) \<Rightarrow> int \<Rightarrow> bytes res" where
  "need_B fs fnum = rbind (need fs fnum) (\<lambda>v. case v of B b \<Rightarrow> Inr b | _ \<Rightarrow> Inl (EnvelopeError ''Malformed''))"

definition need_A :: "(int \<rightharpoonup> cbor) \<Rightarrow> int \<Rightarrow> cbor list res" where
  "need_A fs fnum = rbind (need fs fnum) (\<lambda>v. case v of A is \<Rightarrow> Inr is | _ \<Rightarrow> Inl (EnvelopeError ''Malformed''))"

fun read_causes :: "cbor list \<Rightarrow> bytes list res" where
  "read_causes [] = Inr []"
| "read_causes (c # cs) =
     (case c of B b \<Rightarrow> rbind (read_causes cs) (\<lambda>bs. Inr (b # bs)) | _ \<Rightarrow> Inl (EnvelopeError ''Malformed''))"

definition read_ext :: "(int \<rightharpoonup> cbor) \<Rightarrow> int \<Rightarrow> nat \<Rightarrow> ext_map option res" where
  "read_ext fs fnum bound =
     (case fs fnum of
        None \<Rightarrow> Inr None
      | Some (M ps) \<Rightarrow> if length ps > bound then Inl (EnvelopeError ''TooManyExtensions'') else Inr (Some ps)
      | Some _ \<Rightarrow> Inl (EnvelopeError ''Malformed''))"

definition read_audience :: "(int \<rightharpoonup> cbor) \<Rightarrow> pystr res" where
  "read_audience fs =
     (case fs FIELD_AUDIENCE of
        None \<Rightarrow> Inr [] | Some (T t) \<Rightarrow> Inr t | Some _ \<Rightarrow> Inl (EnvelopeError ''Malformed''))"

definition read_suite :: "(int \<rightharpoonup> cbor) \<Rightarrow> int res" where
  "read_suite fs =
     (case fs FIELD_SUITE of
        None \<Rightarrow> Inr 0 | Some (U n) \<Rightarrow> Inr n | Some _ \<Rightarrow> Inl (EnvelopeError ''Malformed''))"

definition object_from_fields :: "(int \<rightharpoonup> cbor) \<Rightarrow> obj res" where
  "object_from_fields fs =
     rbind (need_B fs FIELD_SIGNER) (\<lambda>sgnr.
     rbind (need_A fs FIELD_CAUSES) (\<lambda>cs.
     if length cs > MAX_CAUSES then Inl (EnvelopeError ''TooManyCauses'') else
     rbind (read_causes cs) (\<lambda>cause_ids.
     rbind (read_ext fs FIELD_EXT MAX_EXT) (\<lambda>e.
     rbind (read_ext fs FIELD_CEXT MAX_CEXT) (\<lambda>ce.
     rbind (read_audience fs) (\<lambda>aud.
     rbind (read_suite fs) (\<lambda>st.
     rbind (need_U fs FIELD_KIND) (\<lambda>knd.
     rbind (need_U fs FIELD_CHANNEL) (\<lambda>chan.
     rbind (need_U fs FIELD_CREATED) (\<lambda>crt.
     rbind (need_U fs FIELD_EFFECT) (\<lambda>eff.
     rbind (need fs FIELD_BODY) (\<lambda>bdy.
     rbind (need_U fs FIELD_TIER) (\<lambda>tr.
     rbind (need_U fs FIELD_PROFILE) (\<lambda>prof.
       Inr \<lparr>obj_id = (case fs FIELD_ID of Some (B i) \<Rightarrow> Some i | _ \<Rightarrow> None),
         kind = knd, channel = chan, tier = tr, signer = sgnr, created = crt, effect = eff,
         causes = cause_ids, profile = prof, body = bdy, ext = e, cext = ce, audience = aud, suite = st\<rparr>))))))))))))))"

definition object_from_map :: "(cbor \<times> cbor) list \<Rightarrow> obj res" where
  "object_from_map pairs = rbind (rfold field_step Map.empty pairs) object_from_fields"

section \<open>Verification\<close>

text \<open>The loop that separates the claimed content id from the rest of the body.\<close>

definition split_id_step ::
    "bytes option \<times> (cbor \<times> cbor) list \<Rightarrow> cbor \<times> cbor \<Rightarrow> (bytes option \<times> (cbor \<times> cbor) list) res" where
  "split_id_step s p =
     (if fst p = U FIELD_ID
      then (case snd p of B i \<Rightarrow> Inr (Some i, snd s) | _ \<Rightarrow> Inl (EnvelopeError ''Malformed''))
      else Inr (fst s, snd s @ [p]))"

definition check_body :: "prims \<Rightarrow> bytes \<Rightarrow> obj res" where
  "check_body P payload =
     rbind (decode_bounded payload MAX_NESTING_DEPTH) (\<lambda>bv.
       case bv of
         M pairs \<Rightarrow>
           rbind (rfold split_id_step (None, []) pairs) (\<lambda>(claimed, without).
             case claimed of
               None \<Rightarrow> Inl (EnvelopeError ''Malformed'')
             | Some c \<Rightarrow>
                 rbind (content_id (sha384 P) (M without)) (\<lambda>i.
                   if i \<noteq> c then Inl (EnvelopeError ''ContentIdMismatch'')
                   else object_from_map pairs))
       | _ \<Rightarrow> Inl (EnvelopeError ''Malformed''))"

definition is_rotation_object :: "int \<Rightarrow> int \<Rightarrow> bool" where
  "is_rotation_object chan knd \<longleftrightarrow> chan = 3 \<and> knd = 0"

definition is_composite_alg :: "int \<Rightarrow> bool" where
  "is_composite_alg alg \<longleftrightarrow> alg \<in> {ALG_COMPOSITE_65_ED25519, ALG_COMPOSITE_44_ED25519}"

definition check_ranges :: "obj \<Rightarrow> unit res" where
  "check_ranges obj =
     (if channel obj > 19 \<or> effect obj > 3 \<or> profile obj < 1 \<or> profile obj > 3
      then Inl (EnvelopeError ''RangeError'') else Inr ())"

definition check_header :: "obj \<Rightarrow> bytes \<Rightarrow> int res" where
  "check_header obj prot =
     rbind (parse_protected prot) (\<lambda>(halg, hsigner, hprofile, hversion).
       if hversion \<noteq> NAALP_VERSION then Inl (EnvelopeError ''UnsupportedVersion'')
       else if hsigner \<noteq> signer obj \<or> hprofile \<noteq> profile obj then Inl (EnvelopeError ''HeaderBodyMismatch'')
       else Inr halg)"

definition cext_entry :: "int list \<Rightarrow> unit \<Rightarrow> cbor \<times> cbor \<Rightarrow> unit res" where
  "cext_entry known_cext s p =
     (case fst p of
        U n \<Rightarrow>
          if n = RECHECK_KEY
          then (case snd p of
              U i \<Rightarrow> if is_known_recheck_procedure i then Inr () else Inl (EnvelopeError ''UnknownCriticalExt'')
            | _ \<Rightarrow> Inl (EnvelopeError ''Malformed''))
          else if n \<notin> set known_cext then Inl (EnvelopeError ''UnknownCriticalExt'')
          else Inr ()
      | _ \<Rightarrow> Inl (EnvelopeError ''UnknownCriticalExt''))"

definition check_cext :: "int list \<Rightarrow> obj \<Rightarrow> unit res" where
  "check_cext known_cext obj =
     (case cext obj of None \<Rightarrow> Inr () | Some ps \<Rightarrow> rfold (cext_entry known_cext) () ps)"

type_synonym kind_validator = "(int \<Rightarrow> int \<Rightarrow> bool) option"

definition check_kind :: "kind_validator \<Rightarrow> obj \<Rightarrow> unit res" where
  "check_kind validator obj =
     (case validator of None \<Rightarrow> Inl (EnvelopeError ''UnknownKind'')
      | Some f \<Rightarrow> if f (channel obj) (kind obj) then Inr () else Inl (EnvelopeError ''UnknownKind''))"

definition check_signature :: "prims \<Rightarrow> int \<Rightarrow> bytes \<Rightarrow> obj \<Rightarrow> int \<Rightarrow> bytes \<Rightarrow> bytes \<Rightarrow> obj res" where
  "check_signature P verifier_profile pubkey obj halg tbs sig =
     (if halg = ALG_COMPOSITE_65_ED25519 then
        if verifier_profile = PROFILE_SOVEREIGN then Inl (EnvelopeError ''CompositeRefused'')
        else if suite obj \<noteq> SUITE_MLDSA65_ED25519 then Inl (EnvelopeError ''SuiteMismatch'')
        else
          let mldsa_pub = take MLDSA65_PUB_SIZE pubkey; ed_pub = drop MLDSA65_PUB_SIZE pubkey in
          if length ed_pub \<noteq> 32 then Inl (EnvelopeError ''BadSignature'')
          else rbind (composite_verify P mldsa_pub ed_pub tbs sig) (\<lambda>ok.
            if \<not> ok then Inl (EnvelopeError ''BadSignature'') else Inr obj)
      else if suite obj \<noteq> 0 then Inl (EnvelopeError ''SuiteMismatch'')
      else
        let (level, known) = alg_level halg in
        if \<not> known then Inl (EnvelopeError ''UnknownAlg'')
        else if level < profile_min_level verifier_profile then Inl (EnvelopeError ''ProfileDowngrade'')
        else rbind (cose_verify1_raw P halg pubkey tbs sig) (\<lambda>ok.
          if \<not> ok then Inl (EnvelopeError ''BadSignature'') else Inr obj))"

text \<open>The caller's \<^verbatim>\<open>alg\<close> argument of \<^verbatim>\<open>verify\<close> is not read by the code; it is kept and unused here too.\<close>

definition verify :: "prims \<Rightarrow> int \<Rightarrow> int \<Rightarrow> bytes \<Rightarrow> kind_validator \<Rightarrow> bytes \<Rightarrow> int list \<Rightarrow> obj res" where
  "verify P verifier_profile alg pubkey validator obj_bytes known_cext =
     (if length obj_bytes > MAX_OBJECT_SIZE then Inl (EnvelopeError ''TooLarge'')
      else rbind (parse_sign1_raw obj_bytes) (\<lambda>(prot, payload, sig).
        rbind (check_body P payload) (\<lambda>obj.
          if is_rotation_object (channel obj) (kind obj) then Inl (EnvelopeError ''RotationUnauthorized'')
          else rbind (check_ranges obj) (\<lambda>_.
            rbind (check_header obj prot) (\<lambda>halg.
              rbind (check_cext known_cext obj) (\<lambda>_.
                rbind (check_kind validator obj) (\<lambda>_.
                  rbind (to_be_signed_raw prot payload) (\<lambda>tbs.
                    check_signature P verifier_profile pubkey obj halg tbs sig))))))))"

definition check_audience :: "obj \<Rightarrow> pystr \<Rightarrow> bool \<Rightarrow> unit res" where
  "check_audience obj self_authority consume_once =
     (if audience obj = [] then
        if consume_once then Inl (EnvelopeError ''WrongAudience'') else Inr ()
      else if audience obj \<noteq> self_authority then Inl (EnvelopeError ''WrongAudience'')
      else Inr ())"

section \<open>The body map\<close>

definition canon_ext :: "ext_map \<Rightarrow> ext_map" where
  "canon_ext ps = (case canon (M ps) of M qs \<Rightarrow> qs | _ \<Rightarrow> [])"

text \<open>The object a verifier reads back: maps inside the body and the extensions in canonical order.\<close>

definition canon_obj :: "obj \<Rightarrow> obj" where
  "canon_obj obj = obj\<lparr>body := canon (body obj), ext := map_option canon_ext (ext obj),
     cext := map_option canon_ext (cext obj)\<rparr>"

lemma M_canon_ext: "M (canon_ext ps) = canon (M ps)"
  by (simp add: canon_ext_def)

lemma canon_obj_sel [simp]:
  "obj_id (canon_obj obj) = obj_id obj" "kind (canon_obj obj) = kind obj" "channel (canon_obj obj) = channel obj"
  "signer (canon_obj obj) = signer obj" "effect (canon_obj obj) = effect obj" "profile (canon_obj obj) = profile obj"
  "causes (canon_obj obj) = causes obj" "suite (canon_obj obj) = suite obj" "audience (canon_obj obj) = audience obj"
  "ext (canon_obj obj) = map_option canon_ext (ext obj)" "cext (canon_obj obj) = map_option canon_ext (cext obj)"
  by (simp_all add: canon_obj_def)

lemma length_canon_ext [simp]: "length (canon_ext ps) = length ps"
  by (simp add: canon_ext_def)

lemma body_fields_asc: "asc_keys (body_fields obj)" "asc_keys ((U FIELD_ID, B i) # body_fields obj)"
  by (auto simp: asc_keys_def body_fields_def field_defs small_key_def key_int_def split: option.splits)

lemma body_fields_canon: "map (\<lambda>(k, v). (k, canon v)) (body_fields obj) = body_fields (canon_obj obj)"
  by (auto simp: body_fields_def canon_obj_def M_canon_ext simp del: canon.simps(2) split: option.splits)

lemma body_fields_no_id: "p \<in> set (body_fields obj) \<Longrightarrow> fst p \<noteq> U FIELD_ID"
  by (auto simp: body_fields_def field_defs split: option.splits if_splits)

lemma body_fields_obj_id [simp]: "body_fields (obj\<lparr>obj_id := i\<rparr>) = body_fields obj"
  by (simp add: body_fields_def)

lemma split_id_others:
  "(\<And>p. p \<in> set ps \<Longrightarrow> fst p \<noteq> U FIELD_ID) \<Longrightarrow> rfold split_id_step (c, w) ps = Inr (c, w @ ps)"
  by (induction ps arbitrary: w) (auto simp: split_id_step_def)

lemma split_id_body: "rfold split_id_step (None, []) ((U FIELD_ID, B i) # body_fields obj) = Inr (Some i, body_fields obj)"
  using split_id_others [of "body_fields obj" "Some i" "[]"] body_fields_no_id by (auto simp: split_id_step_def)

lemma read_causes_B [simp]: "read_causes (map B bs) = Inr bs"
  by (induction bs) auto

definition within_counts :: "obj \<Rightarrow> bool" where
  "within_counts obj \<longleftrightarrow> length (causes obj) \<le> MAX_CAUSES \<and>
     (case ext obj of None \<Rightarrow> True | Some ps \<Rightarrow> length ps \<le> MAX_EXT) \<and>
     (case cext obj of None \<Rightarrow> True | Some ps \<Rightarrow> length ps \<le> MAX_CEXT)"

lemmas field_read_defs = need_U_def need_B_def need_A_def need_def read_ext_def read_audience_def read_suite_def

text \<open>Reading the map an object was written as gives the object.\<close>

lemma object_from_body:
  assumes "within_counts obj"
  shows "object_from_map ((U FIELD_ID, B i) # body_fields obj) = Inr (obj\<lparr>obj_id := Some i\<rparr>)"
  using assms
  by (cases "ext obj"; cases "cext obj"; cases "audience obj = []"; cases "suite obj = 0")
    (simp_all add: object_from_map_def object_from_fields_def body_fields_def field_step_def field_defs
      field_read_defs within_counts_def)

section \<open>What signing produces\<close>

lemma assign_id_Inr:
  assumes "assign_id P obj = Inr (o1, payload)"
  obtains i b where "encode (M (body_fields obj)) = Inr b" "i = content_id_bytes (sha384 P) b"
    "o1 = obj\<lparr>obj_id := Some i\<rparr>" "encode (M ((U FIELD_ID, B i) # body_fields obj)) = Inr payload"
  using assms
  by (auto simp: assign_id_def object_content_id_def body_map_def content_id_def res_simps Let_def simp del: encode.simps)

lemma check_body_signed:
  assumes "assign_id P obj = Inr (o1, payload)" and "within_counts obj"
    and "nesting (M ((U FIELD_ID, B []) # body_fields obj)) \<le> MAX_NESTING_DEPTH"
  shows "check_body P payload = Inr (canon_obj o1)"
proof -
  obtain i b where b: "encode (M (body_fields obj)) = Inr b" and i: "i = content_id_bytes (sha384 P) b"
    and o1: "o1 = obj\<lparr>obj_id := Some i\<rparr>" and p: "encode (M ((U FIELD_ID, B i) # body_fields obj)) = Inr payload"
    using assms(1) by (rule assign_id_Inr)
  let ?c = "canon_obj obj"
  have n: "nesting (M ((U FIELD_ID, B i) # body_fields obj)) \<le> MAX_NESTING_DEPTH"
    using assms(3) by simp
  have d: "decode_bounded payload MAX_NESTING_DEPTH = Inr (M ((U FIELD_ID, B i) # body_fields ?c))"
    using decode_bounded_encode [OF p] n canon_asc_map [OF body_fields_asc(2) [of i obj]] body_fields_canon [of obj]
    by simp
  have e: "content_id (sha384 P) (M (body_fields ?c)) = Inr i"
    using encode_canon [OF b] canon_asc_map [OF body_fields_asc(1) [of obj]] body_fields_canon [of obj] i
    by (simp add: content_id_def)
  have "within_counts ?c"
    using assms(2) by (auto simp: within_counts_def split: option.splits)
  then have "object_from_map ((U FIELD_ID, B i) # body_fields ?c) = Inr (?c\<lparr>obj_id := Some i\<rparr>)"
    by (rule object_from_body)
  moreover have "?c\<lparr>obj_id := Some i\<rparr> = canon_obj o1"
    by (simp add: o1 canon_obj_def)
  ultimately show ?thesis
    by (simp add: check_body_def d split_id_body e del: rfold.simps)
qed

lemma HEADER_LABEL_enc: "enc_of (T HEADER_LABEL) = [0x65, 0x6E, 0x61, 0x61, 0x6C, 0x70]"
  by code_simp

lemma header_value_canonical:
  "canon (M [(U 1, N alg), (T HEADER_LABEL, M [(U 1, B s), (U 2, U p), (U 3, U w)])])
     = M [(U 1, N alg), (T HEADER_LABEL, M [(U 1, B s), (U 2, U p), (U 3, U w)])]"
proof (rule canon_sorted_map)
  have "canon (M [(U 1, B s), (U 2, U p), (U 3, U w)]) = M [(U 1, B s), (U 2, U p), (U 3, U w)]"
    by (rule canon_asc) (auto simp: asc_keys_def small_key_def key_int_def)
  then show "\<forall>x \<in> set [(U 1, N alg), (T HEADER_LABEL, M [(U 1, B s), (U 2, U p), (U 3, U w)])].
      canon (fst x) = fst x \<and> canon (snd x) = snd x"
    by (simp del: canon.simps(2))
qed (simp add: HEADER_LABEL_enc enc_of_U_small)

lemma parse_protected_header:
  assumes "protected_header alg s p = Inr prot"
  shows "parse_protected prot = Inr (alg, s, p, NAALP_VERSION)"
proof -
  let ?v = "M [(U 1, N alg), (T HEADER_LABEL, M [(U 1, B s), (U 2, U p), (U 3, U NAALP_VERSION)])]"
  have e: "encode ?v = Inr prot" using assms by (simp only: protected_header_def Let_def)
  have d: "decode prot = Inr ?v"
    by (rule decode_canonical [OF e header_value_canonical]) simp
  have "prot \<noteq> [0xA0]"
  proof
    assume "prot = [0xA0]"
    moreover have "encode (M []) = Inr [0xA0]" by code_simp
    then have "decode [0xA0] = Inr (M [])" by (rule decode_canonical) simp_all
    ultimately show False using d by simp
  qed
  then show ?thesis
    using d by (simp add: parse_protected_def header_entry_def naalp_entry_def)
qed

section \<open>Signed objects verify\<close>

text \<open>The limits and dispatch conditions of a verifier, on the object side.\<close>

definition acceptable :: "kind_validator \<Rightarrow> int list \<Rightarrow> obj \<Rightarrow> bool" where
  "acceptable validator known_cext obj \<longleftrightarrow>
     within_counts obj \<and> nesting (M ((U FIELD_ID, B []) # body_fields obj)) \<le> MAX_NESTING_DEPTH \<and>
     \<not> is_rotation_object (channel obj) (kind obj) \<and> channel obj \<le> 19 \<and> effect obj \<le> 3 \<and>
     1 \<le> profile obj \<and> profile obj \<le> 3 \<and>
     check_cext known_cext (canon_obj obj) = Inr () \<and> check_kind validator obj = Inr ()"

lemma acceptable_plain:
  assumes "nesting (body ob) \<le> 14" and "ext ob = None" and "cext ob = None" and "length (causes ob) \<le> MAX_CAUSES"
    and "channel ob \<le> 19" and "effect ob \<le> 3" and "1 \<le> profile ob" and "profile ob \<le> 3"
    and "\<not> is_rotation_object (channel ob) (kind ob)" and "f (channel ob) (kind ob)"
  shows "acceptable (Some f) known ob"
proof -
  have "nesting (A (map B (causes ob))) \<le> 2" unfolding nesting_A_le by simp
  then have "nesting (M ((U FIELD_ID, B []) # body_fields ob)) \<le> MAX_NESTING_DEPTH"
    unfolding nesting_M_le using assms(1-3) by (auto simp: body_fields_def MAX_NESTING_DEPTH_def simp del: nesting.simps(1))
  then show ?thesis
    using assms by (simp add: acceptable_def within_counts_def check_cext_def check_kind_def canon_obj_def)
qed

lemma check_kind_cong: "channel a = channel b \<Longrightarrow> kind a = kind b \<Longrightarrow> check_kind v a = check_kind v b"
  by (cases v) (simp_all add: check_kind_def)

lemma check_cext_cong: "cext a = cext b \<Longrightarrow> check_cext k a = check_cext k b"
  by (simp add: check_cext_def)

lemma verify_assembled:
  assumes a: "assign_id P obj = Inr (o1, payload)" and h: "protected_header alg (signer o1) (profile o1) = Inr prot"
    and t: "to_be_signed_raw prot payload = Inr tbs" and b: "assemble_sign1_raw prot payload sig = Inr bs"
    and size: "length bs \<le> MAX_OBJECT_SIZE" and ok: "acceptable validator known_cext obj"
  shows "verify P vp va pk validator bs known_cext = check_signature P vp pk (canon_obj o1) alg tbs sig"
proof -
  obtain i where o1: "o1 = obj\<lparr>obj_id := i\<rparr>" using a by (auto elim: assign_id_Inr)
  have "check_body P payload = Inr (canon_obj o1)"
    using check_body_signed [OF a] ok by (simp add: acceptable_def)
  moreover have "check_header (canon_obj o1) prot = Inr alg"
    using parse_protected_header [OF h] by (simp add: check_header_def)
  moreover have "check_cext known_cext (canon_obj o1) = Inr ()" "check_kind validator (canon_obj o1) = Inr ()"
    using ok check_cext_cong [of "canon_obj o1" "canon_obj obj"] check_kind_cong [of "canon_obj o1" obj]
    by (simp_all add: acceptable_def o1)
  ultimately show ?thesis
    using parse_assemble_sign1 [OF b] size ok t
    by (simp add: verify_def check_ranges_def acceptable_def o1)
qed

lemma sign_verify:
  assumes "md_correct P" and "sign P obj alg seed = Inr (o1, bs)" and "md_key_derive P alg seed = Inr (pk, sk)"
    and "length bs \<le> MAX_OBJECT_SIZE" and "acceptable validator known_cext obj" and "suite obj = 0"
    and "profile_min_level vp \<le> fst (alg_level alg)"
  shows "verify P vp va pk validator bs known_cext = Inr (canon_obj o1)"
proof -
  obtain payload prot tbs sig where a: "assign_id P obj = Inr (o1, payload)"
    and h: "protected_header alg (signer o1) (profile o1) = Inr prot" and t: "to_be_signed_raw prot payload = Inr tbs"
    and s: "mldsa_sign P alg seed tbs = Inr sig" and b: "assemble_sign1_raw prot payload sig = Inr bs"
    using assms(2) by (auto simp: sign_def res_simps)
  have "suite o1 = 0" using a assms(6) by (auto elim: assign_id_Inr)
  then show ?thesis
    using verify_assembled [OF a h t b assms(4,5)] mldsa_sign_verify [OF assms(1) s assms(3)] assms(7)
    by (auto simp: check_signature_def alg_level_def alg_defs ALG_COMPOSITE_65_ED25519_def)
qed

lemma sign_composite_verify:
  assumes "md_correct P" and "ed_correct P" and "sign_composite P obj mseed eseed = Inr (o1, bs)"
    and "md_key_derive P ALG_MLDSA65 mseed = Inr (mpk, sk)" and "ed_public P eseed = Inr epk"
    and "length mpk = MLDSA65_PUB_SIZE" and "length epk = 32"
    and "\<And>m s. md_sign P ALG_MLDSA65 sk m COMPOSITE_LABEL_MLDSA65_ED25519 = Inr s \<Longrightarrow> length s = MLDSA65_SIG_SIZE"
    and "\<And>m s. ed_sign P eseed m = Inr s \<Longrightarrow> length s = 64"
    and "length bs \<le> MAX_OBJECT_SIZE" and "acceptable validator known_cext (obj\<lparr>suite := 1\<rparr>)" and "vp \<noteq> PROFILE_SOVEREIGN"
  shows "verify P vp va (mpk @ epk) validator bs known_cext = Inr (canon_obj o1)"
proof -
  obtain payload prot tbs sig where a: "assign_id P (obj\<lparr>suite := 1\<rparr>) = Inr (o1, payload)"
    and h: "protected_header ALG_COMPOSITE_65_ED25519 (signer o1) (profile o1) = Inr prot"
    and t: "to_be_signed_raw prot payload = Inr tbs"
    and s: "composite_sign P mseed eseed tbs = Inr sig" and b: "assemble_sign1_raw prot payload sig = Inr bs"
    using assms(3) by (auto simp: sign_composite_def SUITE_MLDSA65_ED25519_def res_simps)
  have "suite o1 = 1" using a by (auto elim: assign_id_Inr)
  then show ?thesis
    using verify_assembled [OF a h t b assms(10,11)] composite_sign_verify [OF assms(1,2) s assms(4,5,8,9)] assms(6,7,12)
    by (simp add: check_signature_def SUITE_MLDSA65_ED25519_def)
qed

section \<open>What verification establishes\<close>

lemma check_signature_Inr:
  "check_signature P vp pk obj halg tbs sig = Inr o' \<longleftrightarrow> o' = obj \<and>
     (if halg = ALG_COMPOSITE_65_ED25519
      then vp \<noteq> PROFILE_SOVEREIGN \<and> suite obj = SUITE_MLDSA65_ED25519 \<and> length (drop MLDSA65_PUB_SIZE pk) = 32 \<and>
        composite_verify P (take MLDSA65_PUB_SIZE pk) (drop MLDSA65_PUB_SIZE pk) tbs sig = Inr True
      else suite obj = 0 \<and> snd (alg_level halg) \<and> profile_min_level vp \<le> fst (alg_level halg) \<and>
        cose_verify1_raw P halg pk tbs sig = Inr True)"
  by (auto simp: check_signature_def Let_def res_simps split: if_splits prod.splits)

lemma check_ranges_Inr:
  "check_ranges obj = Inr () \<longleftrightarrow> channel obj \<le> 19 \<and> effect obj \<le> 3 \<and> 1 \<le> profile obj \<and> profile obj \<le> 3"
  by (auto simp: check_ranges_def)

lemma check_header_Inr:
  "check_header obj prot = Inr halg \<longleftrightarrow> parse_protected prot = Inr (halg, signer obj, profile obj, NAALP_VERSION)"
  by (auto simp: check_header_def res_simps)

lemma verify_iff:
  "verify P vp va pk validator bs known = Inr obj \<longleftrightarrow>
     length bs \<le> MAX_OBJECT_SIZE \<and>
     (\<exists>prot payload sig halg tbs. parse_sign1_raw bs = Inr (prot, payload, sig) \<and> check_body P payload = Inr obj \<and>
        \<not> is_rotation_object (channel obj) (kind obj) \<and> check_ranges obj = Inr () \<and> check_header obj prot = Inr halg \<and>
        check_cext known obj = Inr () \<and> check_kind validator obj = Inr () \<and>
        to_be_signed_raw prot payload = Inr tbs \<and> check_signature P vp pk obj halg tbs sig = Inr obj)"
  by (auto simp: verify_def res_simps check_signature_Inr not_less)

text \<open>The claimed id is the content id of the rest of the body.\<close>

lemma field_step_Inr: "field_step m p = Inr m' \<longleftrightarrow> (\<exists>n. fst p = U n \<and> m' = m(n \<mapsto> snd p))"
  by (cases p; cases "fst p") (auto simp: field_step_def)

lemma split_id_step_Inr:
  "split_id_step s p = Inr s' \<longleftrightarrow>
     (\<exists>i. p = (U FIELD_ID, B i) \<and> s' = (Some i, snd s)) \<or> (fst p \<noteq> U FIELD_ID \<and> s' = (fst s, snd s @ [p]))"
  by (cases p; cases "snd p") (auto simp: split_id_step_def)

lemma split_id_filter:
  "rfold split_id_step s ps = Inr s' \<Longrightarrow>
     snd s' = snd s @ filter (\<lambda>p. fst p \<noteq> U FIELD_ID) ps \<and>
     (fst s' = fst s \<or> (\<exists>i. fst s' = Some i \<and> (U FIELD_ID, B i) \<in> set ps))"
proof (induction ps arbitrary: s)
  case (Cons p ps)
  then obtain t where "split_id_step s p = Inr t" and r: "rfold split_id_step t ps = Inr s'"
    by (auto simp: rbind_eq_Inr)
  with Cons.IH [OF r] show ?case unfolding split_id_step_Inr by (elim disjE) auto
qed auto

lemma fields_other: "rfold field_step m ps = Inr f \<Longrightarrow> U n \<notin> fst ` set ps \<Longrightarrow> f n = m n"
  by (induction ps arbitrary: m) (auto simp: res_simps field_step_Inr)

lemma fields_lookup:
  "rfold field_step m ps = Inr f \<Longrightarrow> distinct (map fst ps) \<Longrightarrow> (U n, v) \<in> set ps \<Longrightarrow> f n = Some v"
proof (induction ps arbitrary: m)
  case (Cons p ps)
  then show ?case
    using fields_other [of _ ps f n] by (auto simp: res_simps field_step_Inr)
qed simp

lemma object_from_map_id:
  assumes "object_from_map ps = Inr obj" and "distinct (map fst ps)" and "(U FIELD_ID, B i) \<in> set ps"
  shows "obj_id obj = Some i"
  using assms fields_lookup [OF _ assms(2,3), of Map.empty]
  by (auto simp: object_from_map_def object_from_fields_def rbind_eq_Inr if_Inl_eq_Inr)

text \<open>The bytes whose digest is the content id of a payload: its map without the id entry.\<close>

definition id_preimage :: "bytes \<Rightarrow> bytes" where
  "id_preimage payload = (case decode_bounded payload MAX_NESTING_DEPTH of
      Inr (M ps) \<Rightarrow> enc_of (M (filter (\<lambda>p. fst p \<noteq> U FIELD_ID) ps)) | _ \<Rightarrow> [])"

lemma check_body_Inr:
  assumes "check_body P payload = Inr obj"
  obtains ps i where "encode (M ps) = Inr payload" "canon (M ps) = M ps" "nesting (M ps) \<le> MAX_NESTING_DEPTH"
    "(U FIELD_ID, B i) \<in> set ps" "i = content_id_bytes (sha384 P) (id_preimage payload)"
    "encodable (M (filter (\<lambda>p. fst p \<noteq> U FIELD_ID) ps))"
    "id_preimage payload = enc_of (M (filter (\<lambda>p. fst p \<noteq> U FIELD_ID) ps))"
    "object_from_map ps = Inr obj"
proof -
  obtain ps c w where d: "decode_bounded payload MAX_NESTING_DEPTH = Inr (M ps)"
    and s: "rfold split_id_step (None, []) ps = Inr (Some c, w)"
    and cid: "content_id (sha384 P) (M w) = Inr c" and o: "object_from_map ps = Inr obj"
    using assms by (auto simp: check_body_def res_simps split: option.splits)
  have w: "w = filter (\<lambda>p. fst p \<noteq> U FIELD_ID) ps" "(U FIELD_ID, B c) \<in> set ps"
    using split_id_filter [OF s] by auto
  obtain b where "encode (M w) = Inr b" "c = content_id_bytes (sha384 P) b"
    using cid by (auto simp: content_id_def res_simps simp del: encode.simps)
  then have "encodable (M w)" "c = content_id_bytes (sha384 P) (enc_of (M w))"
    using encodeD by auto
  then show ?thesis
    using that [of ps c] d o w cbor_bounded.dec_iff [of payload MAX_NESTING_DEPTH "M ps"] by (simp add: id_preimage_def)
qed

lemma check_body_id:
  assumes "check_body P payload = Inr obj"
  shows "obj_id obj = Some (content_id_bytes (sha384 P) (id_preimage payload))"
  using assms
proof (rule check_body_Inr)
  fix ps i
  assume p: "encode (M ps) = Inr payload" "canon (M ps) = M ps" "(U FIELD_ID, B i) \<in> set ps"
    "i = content_id_bytes (sha384 P) (id_preimage payload)" "object_from_map ps = Inr obj"
  have "distinct (map fst ps)" using canon_M_distinct [OF p(2)] encodeD [OF p(1)] by blast
  from object_from_map_id [OF p(5) this p(3)] p(4) show ?thesis by simp
qed

lemma filter_canonical:
  assumes "canon (M ps) = M ps" "encodable (M ps)"
  shows "canon (M (filter Q ps)) = M (filter Q ps)"
proof (rule canon_sorted_map)
  show "sorted_wrt (<) (map key_enc (filter Q ps))"
    using canon_M_sorted [OF assms] by (simp add: sorted_wrt_map sorted_wrt_filter)
qed (use canon_M_parts [OF assms] in auto)

lemma nesting_filter: "nesting (M ps) \<le> k \<Longrightarrow> nesting (M (filter Q ps)) \<le> k"
  unfolding nesting_M_le by auto

lemma canonical_map_unique:
  assumes "canon (M ps) = M ps" "encodable (M ps)" "canon (M qs) = M qs" "encodable (M qs)" "set ps = set qs"
  shows "ps = qs"
proof (rule map_sorted_distinct_set_unique)
  show "sorted (map key_enc ps)" "distinct (map key_enc ps)" "sorted (map key_enc qs)" "distinct (map key_enc qs)"
    using canon_M_sorted [OF assms(1,2)] canon_M_sorted [OF assms(3,4)] by (simp_all add: strict_sorted_iff)
  then show "inj_on key_enc (set ps \<union> set qs)" using assms(5) by (simp add: distinct_map)
qed (rule assms(5))

lemma distinct_keys_set:
  "distinct (map fst ps) \<Longrightarrow> (k, v) \<in> set ps \<Longrightarrow> set ps = insert (k, v) (set (filter (\<lambda>p. fst p \<noteq> k) ps))"
  by (auto dest: eq_key_imp_eq_value)

text \<open>Two accepted payloads with the same content id are the same bytes.\<close>

lemma check_body_binds:
  assumes "check_body P pl = Inr a" and "check_body P pl' = Inr b"
    and "obj_id a = obj_id b" and "inj_on (sha384 P) {id_preimage pl, id_preimage pl'}"
  shows "pl = pl' \<and> a = b"
proof -
  let ?r = "\<lambda>ps. filter (\<lambda>p. fst p \<noteq> U FIELD_ID) ps"
  obtain ps i where p: "encode (M ps) = Inr pl" "canon (M ps) = M ps" "nesting (M ps) \<le> MAX_NESTING_DEPTH"
      "(U FIELD_ID, B i) \<in> set ps" "i = content_id_bytes (sha384 P) (id_preimage pl)" "encodable (M (?r ps))"
      "id_preimage pl = enc_of (M (?r ps))" "object_from_map ps = Inr a"
    using assms(1) by (rule check_body_Inr)
  obtain qs j where q: "encode (M qs) = Inr pl'" "canon (M qs) = M qs" "nesting (M qs) \<le> MAX_NESTING_DEPTH"
      "(U FIELD_ID, B j) \<in> set qs" "j = content_id_bytes (sha384 P) (id_preimage pl')" "encodable (M (?r qs))"
      "id_preimage pl' = enc_of (M (?r qs))" "object_from_map qs = Inr b"
    using assms(2) by (rule check_body_Inr)
  have ep: "encodable (M ps)" and eq: "encodable (M qs)" using p(1) q(1) encodeD by blast+
  note dp = canon_M_distinct [OF p(2) ep] and dq = canon_M_distinct [OF q(2) eq]
  have ij: "i = j" using object_from_map_id [OF p(8) dp p(4)] object_from_map_id [OF q(8) dq q(4)] assms(3) by simp
  then have "sha384 P (id_preimage pl) = sha384 P (id_preimage pl')"
    using p(5) q(5) unfolding content_id_bytes_def by simp
  then have "id_preimage pl = id_preimage pl'" by (rule inj_onD [OF assms(4)]) simp_all
  then have same: "enc_of (M (?r ps)) = enc_of (M (?r qs))" unfolding p(7) q(7) .
  have "M (?r ps) = M (?r qs)"
  proof (rule encode_canonical_inject)
    show "encode (M (?r ps)) = Inr (enc_of (M (?r ps)))"
      by (simp only: encode_enc_of p(6) simp_thms)
    show "encode (M (?r qs)) = Inr (enc_of (M (?r ps)))"
      by (simp only: encode_enc_of q(6) same simp_thms)
    show "nesting (M (?r ps)) \<le> UNBOUNDED_DEPTH" "nesting (M (?r qs)) \<le> UNBOUNDED_DEPTH"
      using p(3) q(3) by (intro nesting_filter; simp add: MAX_NESTING_DEPTH_def del: nesting.simps)+
  qed (use filter_canonical p(2) q(2) ep eq in blast)+
  then have f: "?r ps = ?r qs" by (simp only: cbor.inject)
  have "set ps = insert (U FIELD_ID, B j) (set (?r qs))"
    using distinct_keys_set [OF dp p(4)] by (simp only: f ij)
  also have "\<dots> = set qs" by (rule distinct_keys_set [OF dq q(4), symmetric])
  finally have "ps = qs" using canonical_map_unique p(2) q(2) ep eq by blast
  then show ?thesis using p(1,8) q(1,8) by simp
qed

section \<open>The object a payload carries\<close>

text \<open>
  Reference reading of a body map, entry by entry: every key is an unsigned integer, each field of the
  object is the value its key is bound to, the extensions are absent or maps, and an absent audience or
  suite is the empty or zero one.
\<close>

definition carries :: "(cbor \<times> cbor) list \<Rightarrow> obj \<Rightarrow> bool" where
  "carries ps obj \<longleftrightarrow>
     (\<forall>k \<in> fst ` set ps. \<exists>n. k = U n) \<and> map_of ps (U FIELD_ID) = map_option B (obj_id obj) \<and> obj_id obj \<noteq> None \<and>
     map_of ps (U FIELD_KIND) = Some (U (kind obj)) \<and> map_of ps (U FIELD_CHANNEL) = Some (U (channel obj)) \<and>
     map_of ps (U FIELD_TIER) = Some (U (tier obj)) \<and> map_of ps (U FIELD_SIGNER) = Some (B (signer obj)) \<and>
     map_of ps (U FIELD_CREATED) = Some (U (created obj)) \<and> map_of ps (U FIELD_EFFECT) = Some (U (effect obj)) \<and>
     map_of ps (U FIELD_CAUSES) = Some (A (map B (causes obj))) \<and>
     map_of ps (U FIELD_PROFILE) = Some (U (profile obj)) \<and> map_of ps (U FIELD_BODY) = Some (body obj) \<and>
     map_of ps (U FIELD_EXT) = map_option M (ext obj) \<and> map_of ps (U FIELD_CEXT) = map_option M (cext obj) \<and>
     (case map_of ps (U FIELD_AUDIENCE) of None \<Rightarrow> audience obj = [] | Some v \<Rightarrow> v = T (audience obj)) \<and>
     (case map_of ps (U FIELD_SUITE) of None \<Rightarrow> suite obj = 0 | Some v \<Rightarrow> v = U (suite obj))"

lemma need_Inr:
  "need fs n = Inr v \<longleftrightarrow> fs n = Some v" "need_U fs n = Inr i \<longleftrightarrow> fs n = Some (U i)"
  "need_B fs n = Inr b \<longleftrightarrow> fs n = Some (B b)" "need_A fs n = Inr cs \<longleftrightarrow> fs n = Some (A cs)"
  by (auto simp: need_def need_U_def need_B_def need_A_def res_simps split: option.splits cbor.splits)

lemma read_causes_Inr: "read_causes cs = Inr bs \<longleftrightarrow> cs = map B bs"
  by (induction cs arbitrary: bs) (auto simp: res_simps split: cbor.splits)

lemma read_ext_Inr:
  "read_ext fs n bound = Inr e \<longleftrightarrow>
     fs n = map_option M e \<and> (case e of None \<Rightarrow> True | Some ps \<Rightarrow> length ps \<le> bound)"
  by (cases e) (auto simp: read_ext_def split: option.splits cbor.splits)

lemma read_optional_Inr:
  "read_audience fs = Inr t \<longleftrightarrow> (case fs FIELD_AUDIENCE of None \<Rightarrow> t = [] | Some v \<Rightarrow> v = T t)"
  "read_suite fs = Inr i \<longleftrightarrow> (case fs FIELD_SUITE of None \<Rightarrow> i = 0 | Some v \<Rightarrow> v = U i)"
  by (auto simp: read_audience_def read_suite_def split: option.splits cbor.splits)

lemma fields_map_of:
  "distinct (map fst ps) \<Longrightarrow> rfold field_step m ps = Inr f \<longleftrightarrow>
     (\<forall>k \<in> fst ` set ps. \<exists>n. k = U n) \<and> f = (\<lambda>n. case map_of ps (U n) of None \<Rightarrow> m n | Some v \<Rightarrow> Some v)"
proof (induction ps arbitrary: m)
  case (Cons p ps)
  have "(\<lambda>n'. case map_of ps (U n') of None \<Rightarrow> (m(n \<mapsto> v)) n' | Some w \<Rightarrow> Some w)
      = (\<lambda>n'. case map_of ((U n, v) # ps) (U n') of None \<Rightarrow> m n' | Some w \<Rightarrow> Some w)"
    if "U n \<notin> fst ` set ps" for n v
    using that map_of_eq_None_iff [of ps "U n"] by (auto simp: fun_eq_iff split: option.split)
  then show ?case
    using Cons by (cases p) (auto simp: res_simps field_step_Inr simp del: fun_upd_apply map_of.simps)
qed auto

text \<open>With distinct keys and a byte string for the id, the code's reader and the reference agree.\<close>

lemma object_from_map_Inr:
  assumes d: "distinct (map fst ps)" and i: "map_of ps (U FIELD_ID) = Some (B i)"
  shows "object_from_map ps = Inr obj \<longleftrightarrow> carries ps obj \<and> within_counts obj"
proof -
  have m: "object_from_map ps = Inr obj \<longleftrightarrow> (\<forall>k \<in> fst ` set ps. \<exists>n. k = U n) \<and>
      object_from_fields (\<lambda>n. map_of ps (U n)) = Inr obj"
    by (auto simp: object_from_map_def res_simps fields_map_of [OF d] option.case_eq_if cong: if_cong)
  have "object_from_fields (\<lambda>n. map_of ps (U n)) = Inr obj \<longleftrightarrow> carries ps obj \<and> within_counts obj"
    if "\<forall>k \<in> fst ` set ps. \<exists>n. k = U n"
    using that i
    by (cases obj) (auto simp: object_from_fields_def res_simps need_Inr read_causes_Inr read_ext_Inr read_optional_Inr
        carries_def within_counts_def split: option.splits)
  moreover have "carries ps obj \<Longrightarrow> \<forall>k \<in> fst ` set ps. \<exists>n. k = U n" by (simp add: carries_def)
  ultimately show ?thesis unfolding m by blast
qed

lemma encodable_filter: "encodable (M ps) \<Longrightarrow> encodable (M (filter Q ps))"
  using le_less_trans [OF length_filter_le [of Q ps]] by (auto simp: encodable_M distinct_map_filter)

lemma split_id_found:
  "distinct (map fst ps) \<Longrightarrow> (U FIELD_ID, B i) \<in> set ps \<Longrightarrow>
     rfold split_id_step (c, w) ps = Inr (Some i, w @ filter (\<lambda>p. fst p \<noteq> U FIELD_ID) ps)"
proof (induction ps arbitrary: c w)
  case (Cons p ps)
  show ?case
  proof (cases "fst p = U FIELD_ID")
    case True
    then have p: "p = (U FIELD_ID, B i)" using Cons.prems by (auto simp: rev_image_eqI)
    have "\<And>q. q \<in> set ps \<Longrightarrow> fst q \<noteq> U FIELD_ID" using Cons.prems(1) True by (auto simp: rev_image_eqI)
    then show ?thesis
      using split_id_others [of ps "Some i" w] by (simp add: p split_id_step_def [of "(c, w)"] filter_id_conv)
  next
    case False
    then have "split_id_step (c, w) p = Inr (c, w @ [p])" "(U FIELD_ID, B i) \<in> set ps"
      using Cons.prems by (auto simp: split_id_step_def)
    then show ?thesis using False Cons.IH [of c "w @ [p]"] Cons.prems(1) by simp
  qed
qed simp

lemma check_body_iff:
  "check_body P payload = Inr obj \<longleftrightarrow>
     (\<exists>ps. decode_bounded payload MAX_NESTING_DEPTH = Inr (M ps) \<and> carries ps obj \<and> within_counts obj \<and>
        obj_id obj = Some (content_id_bytes (sha384 P) (enc_of (M (filter (\<lambda>p. fst p \<noteq> U FIELD_ID) ps)))))"
  (is "_ \<longleftrightarrow> (\<exists>ps. ?C ps)")
proof
  assume a: "check_body P payload = Inr obj"
  then obtain ps i where p: "encode (M ps) = Inr payload" "canon (M ps) = M ps" "nesting (M ps) \<le> MAX_NESTING_DEPTH"
      "(U FIELD_ID, B i) \<in> set ps" "id_preimage payload = enc_of (M (filter (\<lambda>p. fst p \<noteq> U FIELD_ID) ps))"
      "object_from_map ps = Inr obj"
    by (rule check_body_Inr)
  have d: "distinct (map fst ps)" using canon_M_distinct [OF p(2)] encodeD [OF p(1)] by blast
  have "carries ps obj \<and> within_counts obj"
    using p(6) object_from_map_Inr [OF d map_of_is_SomeI [OF d p(4)]] by blast
  then show "\<exists>ps. ?C ps"
    using p cbor_bounded.dec_iff [of payload MAX_NESTING_DEPTH "M ps"] check_body_id [OF a] by (intro exI [of _ ps]) simp
next
  assume "\<exists>ps. ?C ps"
  then obtain ps where c: "?C ps" ..
  then have p: "encode (M ps) = Inr payload" "canon (M ps) = M ps"
    using cbor_bounded.dec_iff [of payload MAX_NESTING_DEPTH "M ps"] by blast+
  have e: "encodable (M ps)" using encodeD [OF p(1)] by simp
  have d: "distinct (map fst ps)" by (rule canon_M_distinct [OF p(2) e])
  obtain i where i: "obj_id obj = Some i" "map_of ps (U FIELD_ID) = Some (B i)"
    using c by (auto simp: carries_def)
  have "rfold split_id_step (None, []) ps = Inr (Some i, filter (\<lambda>p. fst p \<noteq> U FIELD_ID) ps)"
    using split_id_found [OF d map_of_SomeD [OF i(2)]] by simp
  moreover have "encode (M (filter (\<lambda>p. fst p \<noteq> U FIELD_ID) ps)) = Inr (enc_of (M (filter (\<lambda>p. fst p \<noteq> U FIELD_ID) ps)))"
    using encodable_filter [OF e] by (simp only: encode_enc_of simp_thms)
  then have "content_id (sha384 P) (M (filter (\<lambda>p. fst p \<noteq> U FIELD_ID) ps)) = Inr i"
    using c i(1) by (simp only: content_id_def rbind_simps) simp
  moreover have "object_from_map ps = Inr obj"
    using c object_from_map_Inr [OF d i(2)] by blast
  ultimately show "check_body P payload = Inr obj"
    using c by (simp add: check_body_def del: rfold.simps)
qed

text \<open>
  A payload with the SDK's own fields only, none of them written with its default value: what the SDK itself
  produces. Its map is the one the object read from it would be written as.
\<close>

definition sdk_fields :: "(cbor \<times> cbor) list \<Rightarrow> bool" where
  "sdk_fields ps \<longleftrightarrow> list_all (\<lambda>p. fst p \<in> set (map U [1..14]) \<and> p \<noteq> (U FIELD_AUDIENCE, T []) \<and> p \<noteq> (U FIELD_SUITE, U 0)) ps"

lemma sdk_fields_body: "sdk_fields ((U FIELD_ID, B i) # body_fields obj)"
  by (auto simp: sdk_fields_def body_fields_def field_defs split: option.splits)

lemma carried_pair:
  assumes d: "distinct (map fst ps)" and c: "carries ps obj" and s: "sdk_fields ps"
  shows "(k, v) \<in> set ps \<and> k \<noteq> U FIELD_ID \<longleftrightarrow> (k, v) \<in> set (body_fields obj)"
proof
  assume kv: "(k, v) \<in> set ps \<and> k \<noteq> U FIELD_ID"
  then have m: "map_of ps k = Some v" using d by simp
  obtain n where n: "k = U n" "1 \<le> n" "n \<le> 14" using kv s by (auto simp: sdk_fields_def list_all_iff)
  then have "n = FIELD_ID \<or> n = FIELD_KIND \<or> n = FIELD_CHANNEL \<or> n = FIELD_TIER \<or> n = FIELD_SIGNER \<or> n = FIELD_CREATED \<or> n = FIELD_EFFECT \<or>
      n = FIELD_CAUSES \<or> n = FIELD_PROFILE \<or> n = FIELD_BODY \<or> n = FIELD_EXT \<or> n = FIELD_CEXT \<or> n = FIELD_AUDIENCE \<or> n = FIELD_SUITE"
    unfolding field_defs by presburger
  moreover have "(k, v) \<noteq> (U 13, T [])" "(k, v) \<noteq> (U 14, U 0)"
    using kv s by (auto simp: sdk_fields_def list_all_iff field_defs)
  ultimately show "(k, v) \<in> set (body_fields obj)"
    using m kv c unfolding n(1) by (elim disjE) (auto simp: carries_def body_fields_def field_defs map_option_case split: option.splits)
next
  assume "(k, v) \<in> set (body_fields obj)"
  then have "map_of ps k = Some v \<and> k \<noteq> U FIELD_ID"
    using c by (auto simp: carries_def body_fields_def field_defs split: option.splits if_splits)
  then show "(k, v) \<in> set ps \<and> k \<noteq> U FIELD_ID" using map_of_SomeD by metis
qed

lemma carried_body:
  assumes "canon (M ps) = M ps" and "encodable (M ps)" and "carries ps obj" and "sdk_fields ps"
  shows "filter (\<lambda>p. fst p \<noteq> U FIELD_ID) ps = body_fields obj" (is "?f = _")
proof (rule map_sorted_distinct_set_unique)
  have s: "sorted_wrt (<) (map key_enc ?f)"
    using canon_M_sorted [OF assms(1,2)] by (simp add: sorted_wrt_map sorted_wrt_filter)
  have b: "sorted_wrt (<) (map key_enc (body_fields obj))" by (rule asc_keys_sorted [OF body_fields_asc(1)])
  show "sorted (map key_enc ?f)" "distinct (map key_enc ?f)" "sorted (map key_enc (body_fields obj))"
      "distinct (map key_enc (body_fields obj))"
    using s b unfolding strict_sorted_iff by blast+
  show set: "set ?f = set (body_fields obj)"
  proof (rule set_eqI)
    show "q \<in> set ?f \<longleftrightarrow> q \<in> set (body_fields obj)" for q
      using carried_pair [OF canon_M_distinct [OF assms(1,2)] assms(3,4), of "fst q" "snd q"] by auto
  qed
  show "inj_on key_enc (set ?f \<union> set (body_fields obj))"
    using b unfolding set by (simp only: strict_sorted_iff distinct_map Un_absorb simp_thms)
qed

text \<open>A critical extension is understood when its key is one the caller knows, or it names a recheck
  procedure of the registry.\<close>

definition understood :: "int list \<Rightarrow> cbor \<times> cbor \<Rightarrow> bool" where
  "understood known p \<longleftrightarrow>
     (\<exists>n. fst p = U n \<and> (if n = RECHECK_KEY then \<exists>i. snd p = U i \<and> 1 \<le> i \<and> i \<le> 4 else n \<in> set known))"

lemma check_cext_Inr:
  "check_cext known obj = Inr () \<longleftrightarrow> (case cext obj of None \<Rightarrow> True | Some ps \<Rightarrow> list_all (understood known) ps)"
proof -
  have one: "cext_entry known () p = Inr () \<longleftrightarrow> understood known p" for p
    by (auto simp: cext_entry_def understood_def is_known_recheck_procedure_def split: cbor.splits)
  have "rfold (cext_entry known) () ps = Inr () \<longleftrightarrow> list_all (understood known) ps" for ps
    by (induction ps) (auto simp: res_simps one)
  then show ?thesis by (simp add: check_cext_def split: option.splits)
qed

lemma check_kind_Inr: "check_kind validator obj = Inr () \<longleftrightarrow> (\<exists>f. validator = Some f \<and> f (channel obj) (kind obj))"
  by (auto simp: check_kind_def split: option.splits)

section \<open>A sample object\<close>

definition sample_obj :: obj where
  "sample_obj = \<lparr>obj_id = None, kind = 1, channel = 4, tier = 0, signer = [9], created = 5, effect = 1,
     causes = [[1]], profile = 1, body = M [(U 2, U 0), (U 1, T [104])], ext = Some [(U 14, U 3)], cext = None,
     audience = [97], suite = 0\<rparr>"

definition sample_validator :: kind_validator where
  "sample_validator = Some (\<lambda>c k. c = 4 \<and> k = 1)"

lemma sample_signed:
  "case sign sample_prims sample_obj (- 49) [5] of Inl _ \<Rightarrow> False | Inr (o1, bs) \<Rightarrow> length bs \<le> 300"
  "case sign sample_prims sample_obj (- 49) [6] of Inl _ \<Rightarrow> False | Inr (o1, bs) \<Rightarrow> length bs \<le> 300"
  by code_simp+

lemma sample_acceptable: "acceptable sample_validator [] sample_obj"
proof -
  have "nesting (M ((U FIELD_ID, B []) # body_fields sample_obj)) \<le> MAX_NESTING_DEPTH"
    by code_simp
  moreover have "within_counts sample_obj"
    by (simp add: within_counts_def sample_obj_def MAX_CAUSES_def MAX_EXT_def)
  ultimately show ?thesis
    by (simp add: acceptable_def sample_obj_def is_rotation_object_def check_cext_def check_kind_def sample_validator_def
        canon_obj_def)
qed

lemma sample_sign:
  obtains o1 bs where "sign sample_prims sample_obj (- 49) [5] = Inr (o1, bs)" "length bs \<le> MAX_OBJECT_SIZE"
  using sample_signed(1) by (auto simp: MAX_OBJECT_SIZE_def split: sum.splits)

lemma sample_sign':
  obtains o1 bs where "sign sample_prims sample_obj (- 49) [6] = Inr (o1, bs)" "length bs \<le> MAX_OBJECT_SIZE"
  using sample_signed(2) by (auto simp: MAX_OBJECT_SIZE_def split: sum.splits)

lemma sample_level: "profile_min_level 1 \<le> fst (alg_level (- 49))" "suite sample_obj = 0"
  by (simp_all add: profile_min_level_def alg_level_def alg_defs profile_defs sample_obj_def)

section \<open>Properties of the envelope\<close>

text \<open>C13: Signing then verifying: an object within the verifier's limits, of a registered kind, whose
  critical extensions are understood and whose algorithm reaches the profile's level, verifies under the
  key of the seed that signed it, and the verifier reads back the signed object field by field, its id
  included, with map entries in canonical order.\<close>

theorem sign_then_verify:
  assumes "md_correct P" and "sign P obj alg seed = Inr (o1, bs)" and "md_key_derive P alg seed = Inr (pk, sk)"
    and "length bs \<le> MAX_OBJECT_SIZE" and "acceptable validator known_cext obj" and "suite obj = 0"
    and "profile_min_level vp \<le> fst (alg_level alg)"
  shows "verify P vp va pk validator bs known_cext = Inr (canon_obj o1)"
  using assms by (rule sign_verify)

theorem sign_then_verify_witness:
  "\<exists>o1 bs. sign sample_prims sample_obj (- 49) [5] = Inr (o1, bs) \<and>
     verify sample_prims 1 (- 49) [5] sample_validator bs [] = Inr (canon_obj o1)"
proof -
  obtain o1 bs where s: "sign sample_prims sample_obj (- 49) [5] = Inr (o1, bs)" "length bs \<le> MAX_OBJECT_SIZE"
    by (rule sample_sign)
  have "verify sample_prims 1 (- 49) [5] sample_validator bs [] = Inr (canon_obj o1)"
    by (rule sign_then_verify [OF sample_prims_correct(1) s(1) sample_prims_sel(4) s(2) sample_acceptable
        sample_level(2,1)])
  with s show ?thesis by blast
qed

text \<open>C2: Verification is exact, for bytes from anyone. It returns an object exactly when: the bytes are within
  the size limit and split into a protected header, a payload and a signature; the payload is one canonical
  CBOR map within the nesting limit, with integer keys, and every field of the returned object (kind,
  channel, tier, signer, time, effect, causes, profile, body, extensions, audience, suite) is the value the
  payload binds to that field; causes and extensions are within their counts; the id is the content id of the
  payload without its id entry; the object is no rotation and its fields are in range; the header names the
  same signer and profile at this version; every critical extension is understood; the kind is registered;
  and the signature over exactly this header and payload verifies under the given key, with a known
  algorithm at the profile's level and no suite, or as a composite of both legs outside the sovereign profile.\<close>

theorem verify_exact:
  "verify P vp va pk validator bs known = Inr obj \<longleftrightarrow>
    (\<exists>prot payload sig ps halg tbs f.
      length bs \<le> MAX_OBJECT_SIZE \<and> parse_sign1_raw bs = Inr (prot, payload, sig) \<and>
      decode_bounded payload MAX_NESTING_DEPTH = Inr (M ps) \<and> carries ps obj \<and>
      length (causes obj) \<le> MAX_CAUSES \<and>
      (case ext obj of None \<Rightarrow> True | Some e \<Rightarrow> length e \<le> MAX_EXT) \<and>
      (case cext obj of None \<Rightarrow> True | Some e \<Rightarrow> length e \<le> MAX_CEXT \<and> list_all (understood known) e) \<and>
      obj_id obj = Some (content_id_bytes (sha384 P) (enc_of (M (filter (\<lambda>p. fst p \<noteq> U FIELD_ID) ps)))) \<and>
      \<not> is_rotation_object (channel obj) (kind obj) \<and>
      channel obj \<le> 19 \<and> effect obj \<le> 3 \<and> 1 \<le> profile obj \<and> profile obj \<le> 3 \<and>
      parse_protected prot = Inr (halg, signer obj, profile obj, NAALP_VERSION) \<and>
      validator = Some f \<and> f (channel obj) (kind obj) \<and>
      to_be_signed_raw prot payload = Inr tbs \<and>
      (if halg = ALG_COMPOSITE_65_ED25519
       then vp \<noteq> PROFILE_SOVEREIGN \<and> suite obj = SUITE_MLDSA65_ED25519 \<and> length (drop MLDSA65_PUB_SIZE pk) = 32 \<and>
         composite_verify P (take MLDSA65_PUB_SIZE pk) (drop MLDSA65_PUB_SIZE pk) tbs sig = Inr True
       else suite obj = 0 \<and> snd (alg_level halg) \<and> profile_min_level vp \<le> fst (alg_level halg) \<and>
         cose_verify1_raw P halg pk tbs sig = Inr True))"
  (is "_ = ?R")
proof
  assume "verify P vp va pk validator bs known = Inr obj"
  then obtain prot payload sig halg tbs where
    v: "length bs \<le> MAX_OBJECT_SIZE" "parse_sign1_raw bs = Inr (prot, payload, sig)" "check_body P payload = Inr obj"
      "\<not> is_rotation_object (channel obj) (kind obj)" "check_ranges obj = Inr ()" "check_header obj prot = Inr halg"
      "check_cext known obj = Inr ()" "check_kind validator obj = Inr ()" "to_be_signed_raw prot payload = Inr tbs"
      "check_signature P vp pk obj halg tbs sig = Inr obj"
    unfolding verify_iff by blast
  from v(3) obtain ps where b: "decode_bounded payload MAX_NESTING_DEPTH = Inr (M ps)" "carries ps obj" "within_counts obj"
      "obj_id obj = Some (content_id_bytes (sha384 P) (enc_of (M (filter (\<lambda>p. fst p \<noteq> U FIELD_ID) ps))))"
    unfolding check_body_iff by blast
  from v(8) obtain f where f: "validator = Some f" "f (channel obj) (kind obj)" unfolding check_kind_Inr by blast
  from b(3) v(7) have c: "length (causes obj) \<le> MAX_CAUSES" "case ext obj of None \<Rightarrow> True | Some e \<Rightarrow> length e \<le> MAX_EXT"
      "case cext obj of None \<Rightarrow> True | Some e \<Rightarrow> length e \<le> MAX_CEXT \<and> list_all (understood known) e"
    unfolding within_counts_def check_cext_Inr by (auto split: option.splits)
  show ?R
    using v(1,2,4,9) b(1,2,4) c f v(5) [unfolded check_ranges_Inr] v(6) [unfolded check_header_Inr]
      v(10) [unfolded check_signature_Inr]
    by (intro exI [of _ prot] exI [of _ payload] exI [of _ sig] exI [of _ ps] exI [of _ halg] exI [of _ tbs] exI [of _ f]) simp
next
  assume ?R
  then show "verify P vp va pk validator bs known = Inr obj"
    unfolding verify_iff check_body_iff check_ranges_Inr check_header_Inr check_cext_Inr check_kind_Inr
      check_signature_Inr within_counts_def
    by (elim exE conjE) (intro conjI exI; (assumption | simp add: option.case_eq_if))
qed

theorem verify_exact_witness:
  "\<exists>bs obj prot payload sig ps. verify sample_prims 1 0 [5] sample_validator bs [] = Inr obj \<and>
     parse_sign1_raw bs = Inr (prot, payload, sig) \<and> decode_bounded payload MAX_NESTING_DEPTH = Inr (M ps) \<and>
     carries ps obj \<and> causes obj = [[1]] \<and> effect obj = 1 \<and> audience obj = [97] \<and> ext obj = Some [(U 14, U 3)]"
proof -
  obtain o1 bs where s: "sign sample_prims sample_obj (- 49) [5] = Inr (o1, bs)" "length bs \<le> MAX_OBJECT_SIZE"
    by (rule sample_sign)
  have v: "verify sample_prims 1 0 [5] sample_validator bs [] = Inr (canon_obj o1)"
    by (rule sign_verify [OF sample_prims_correct(1) s(1) sample_prims_sel(4) s(2) sample_acceptable sample_level(2,1)])
  obtain i where "o1 = sample_obj\<lparr>obj_id := i\<rparr>" using s(1) by (auto simp: sign_def rbind_eq_Inr elim: assign_id_Inr)
  moreover have "canon_ext [(U 14, U 3)] = [(U 14, U 3)]" by code_simp
  ultimately have "causes (canon_obj o1) = [[1]] \<and> effect (canon_obj o1) = 1 \<and> audience (canon_obj o1) = [97] \<and>
      ext (canon_obj o1) = Some [(U 14, U 3)]"
    by (simp add: sample_obj_def)
  with v iffD1 [OF verify_exact v] show ?thesis by blast
qed

text \<open>A content id names one object: two byte strings that verify, under any keys and profiles, to objects
  with the same id carry the same object in every field, unless SHA-384 collides on the two payloads they
  carry. Header, signature and unprotected bytes may differ; what the id names may not.\<close>

theorem verified_id_names_object:
  assumes "verify P vp va pk validator bs known = Inr a" and "verify P vp' va' pk' validator' bs' known' = Inr b"
    and "parse_sign1_raw bs = Inr (prot, payload, sig)" and "parse_sign1_raw bs' = Inr (prot', payload', sig')"
    and "obj_id a = obj_id b" and "inj_on (sha384 P) {id_preimage payload, id_preimage payload'}"
  shows "a = b \<and> payload = payload'"
  using assms check_body_binds [of P payload a payload' b] by (auto simp: verify_iff)

theorem verified_id_names_object_witness:
  "\<exists>bs bs' prot payload sig prot' payload' sig' a b.
     verify sample_prims 1 0 [5] sample_validator bs [] = Inr a \<and> verify sample_prims 1 0 [6] sample_validator bs' [] = Inr b \<and>
     parse_sign1_raw bs = Inr (prot, payload, sig) \<and> parse_sign1_raw bs' = Inr (prot', payload', sig') \<and>
     a = b \<and> payload = payload'"
proof -
  obtain o1 bs where s: "sign sample_prims sample_obj (- 49) [5] = Inr (o1, bs)" "length bs \<le> MAX_OBJECT_SIZE"
    by (rule sample_sign)
  obtain o2 bs' where s': "sign sample_prims sample_obj (- 49) [6] = Inr (o2, bs')" "length bs' \<le> MAX_OBJECT_SIZE"
    by (rule sample_sign')
  note signed = sign_verify [OF sample_prims_correct(1) _ sample_prims_sel(4) _ sample_acceptable sample_level(2,1)]
  have v: "verify sample_prims 1 0 [5] sample_validator bs [] = Inr (canon_obj o1)"
    and v': "verify sample_prims 1 0 [6] sample_validator bs' [] = Inr (canon_obj o2)"
    by (rule signed [OF s], rule signed [OF s'])
  obtain prot payload sig prot' payload' sig'
    where p: "parse_sign1_raw bs = Inr (prot, payload, sig)" "parse_sign1_raw bs' = Inr (prot', payload', sig')"
    using v v' by (auto simp: verify_iff)
  have "o1 = o2" using s s' by (auto simp: sign_def rbind_eq_Inr)
  then have "canon_obj o1 = canon_obj o2 \<and> payload = payload'"
    by (intro verified_id_names_object [OF v v' p]) (simp_all add: inj_on_def)
  with v v' p show ?thesis by blast
qed

end
