(* ===== verification/EnvelopeExt.thy ===== *)
theory EnvelopeExt
  imports Envelope
begin

text \<open>
  The optional fields an object carries in its extension maps (\<^verbatim>\<open>envelope.py\<close>): the re-check procedure,
  the per-signer counter with the duplication detector that reads it, and the producing-boundary
  disclosure. The three accessors share one contract, the locale \<open>ext_slot\<close>: what is written under a key is
  read back, and no accessor sees another one's key.
\<close>

section \<open>Reading and writing an entry\<close>

fun cext_get_uint_pairs :: "ext_map \<Rightarrow> int \<Rightarrow> int option" where
  "cext_get_uint_pairs [] key = None"
| "cext_get_uint_pairs ((k, v) # ps) key =
     (if k = U key then (case v of U n \<Rightarrow> Some n | _ \<Rightarrow> None) else cext_get_uint_pairs ps key)"

definition cext_get_uint :: "ext_map option \<Rightarrow> int \<Rightarrow> int option" where
  "cext_get_uint m key = (case m of None \<Rightarrow> None | Some ps \<Rightarrow> cext_get_uint_pairs ps key)"

definition replace_entry :: "int \<Rightarrow> cbor \<Rightarrow> ext_map \<times> bool \<Rightarrow> cbor \<times> cbor \<Rightarrow> ext_map \<times> bool" where
  "replace_entry key val s p =
     (if fst p = U key then (fst s @ [(U key, val)], True) else (fst s @ [p], snd s))"

definition put_entry :: "int \<Rightarrow> cbor \<Rightarrow> ext_map option \<Rightarrow> ext_map" where
  "put_entry key val current =
     (case current of
        None \<Rightarrow> [(U key, val)]
      | Some pairs \<Rightarrow>
          (let (new_pairs, replaced) = foldl (replace_entry key val) ([], False) pairs in
           if replaced then new_pairs else new_pairs @ [(U key, val)]))"

section \<open>Re-check procedure and signer counter\<close>

definition SIGNER_COUNTER_KEY :: int where "SIGNER_COUNTER_KEY = 14"

definition recheck :: "obj \<Rightarrow> int \<times> bool \<times> bool" where
  "recheck obj =
     (case cext_get_uint (cext obj) RECHECK_KEY of
        Some v \<Rightarrow> (v, True, True)
      | None \<Rightarrow> (case cext_get_uint (ext obj) RECHECK_KEY of Some v \<Rightarrow> (v, True, False) | None \<Rightarrow> (0, False, False)))"

definition set_recheck :: "obj \<Rightarrow> int \<Rightarrow> bool \<Rightarrow> obj" where
  "set_recheck obj proc_id critical =
     (if critical then obj\<lparr>cext := Some (put_entry RECHECK_KEY (U proc_id) (cext obj))\<rparr>
      else obj\<lparr>ext := Some (put_entry RECHECK_KEY (U proc_id) (ext obj))\<rparr>)"

definition signer_counter :: "obj \<Rightarrow> int option" where
  "signer_counter obj = cext_get_uint (ext obj) SIGNER_COUNTER_KEY"

definition set_signer_counter :: "obj \<Rightarrow> int \<Rightarrow> obj" where
  "set_signer_counter obj seq = obj\<lparr>ext := Some (put_entry SIGNER_COUNTER_KEY (U seq) (ext obj))\<rparr>"

section \<open>Duplication detection\<close>

record duplication_finding =
  df_signer :: bytes
  df_counter :: int
  df_ids :: "bytes list"

text \<open>Python dictionaries in insertion order; the innermost one is used as a set of content ids.\<close>

type_synonym groups = "(bytes \<times> (int \<times> bytes list) list) list"

definition dget :: "('k \<times> 'v list) list \<Rightarrow> 'k \<Rightarrow> 'v list" where
  "dget d k = (case map_of d k of None \<Rightarrow> [] | Some v \<Rightarrow> v)"

definition group_step :: "prims \<Rightarrow> groups \<Rightarrow> obj \<Rightarrow> groups res" where
  "group_step P groups obj =
     (case signer_counter obj of
        None \<Rightarrow> Inr groups
      | Some seq \<Rightarrow>
          (case object_content_id P obj of
             Inl e \<Rightarrow> if e = NonCanonical \<or> e = TypeError then Inr groups else Inl e
           | Inr cid \<Rightarrow>
               let by_counter = dget groups (signer obj); idset = dget by_counter seq in
               Inr (AList.update (signer obj)
                 (AList.update seq (if cid \<in> set idset then idset else idset @ [cid]) by_counter) groups)))"

definition group_findings :: "bytes \<times> (int \<times> bytes list) list \<Rightarrow> duplication_finding list" where
  "group_findings g =
     concat (map (\<lambda>counter. let idset = dget (snd g) counter in
         if length idset < 2 then [] else [\<lparr>df_signer = fst g, df_counter = counter, df_ids = sort idset\<rparr>])
       (sort (map fst (snd g))))"

definition detect_signer_duplication :: "prims \<Rightarrow> obj list \<Rightarrow> duplication_finding list res" where
  "detect_signer_duplication P objs =
     rbind (rfold (group_step P) [] objs) (\<lambda>groups.
       Inr (concat (map (\<lambda>s. group_findings (s, dget groups s)) (sort (map fst groups)))))"

section \<open>Producing boundary\<close>

definition PRODUCING_BOUNDARY_KEY :: int where "PRODUCING_BOUNDARY_KEY = 15"
definition PRODUCING_BOUNDARY_OBSERVED :: int where "PRODUCING_BOUNDARY_OBSERVED = 1"
definition PRODUCING_BOUNDARY_REPORTED :: int where "PRODUCING_BOUNDARY_REPORTED = 2"

lemmas boundary_defs = PRODUCING_BOUNDARY_OBSERVED_def PRODUCING_BOUNDARY_REPORTED_def

record boundary =
  pb_boundary :: bytes
  pb_kind :: int
  pb_reporting :: "bytes option"

type_synonym boundary_acc = "bytes option \<times> int option \<times> bytes option"

definition boundary_entry :: "boundary_acc \<Rightarrow> cbor \<times> cbor \<Rightarrow> unit + boundary_acc" where
  "boundary_entry s p =
     (let (bd, kd, rp) = s in
      case fst p of
        U n \<Rightarrow>
          if n = 1 then (case snd p of B b \<Rightarrow> Inr (Some b, kd, rp) | _ \<Rightarrow> Inl ())
          else if n = 2 then (case snd p of U k \<Rightarrow> Inr (bd, Some k, rp) | _ \<Rightarrow> Inl ())
          else if n = 3 then (case snd p of B r \<Rightarrow> Inr (bd, kd, Some r) | _ \<Rightarrow> Inl ())
          else Inr s
      | _ \<Rightarrow> Inl ())"

definition read_boundary :: "cbor \<Rightarrow> boundary option" where
  "read_boundary val =
     (case val of
        M pairs \<Rightarrow>
          (case rfold boundary_entry (None, None, None) pairs of
             Inl _ \<Rightarrow> None
           | Inr (bd, kd, rp) \<Rightarrow>
               (case (bd, kd) of
                  (Some b, Some k) \<Rightarrow>
                    if b = [] then None
                    else if k \<noteq> PRODUCING_BOUNDARY_OBSERVED \<and> k \<noteq> PRODUCING_BOUNDARY_REPORTED then None
                    else if rp \<noteq> None \<and> k \<noteq> PRODUCING_BOUNDARY_REPORTED then None
                    else Some \<lparr>pb_boundary = b, pb_kind = k, pb_reporting = rp\<rparr>
                | _ \<Rightarrow> None))
      | _ \<Rightarrow> None)"

fun find_entry :: "ext_map \<Rightarrow> int \<Rightarrow> cbor option" where
  "find_entry [] key = None"
| "find_entry ((k, v) # ps) key = (if k = U key then Some v else find_entry ps key)"

definition producing_boundary :: "obj \<Rightarrow> boundary option" where
  "producing_boundary obj =
     (case ext obj of
        None \<Rightarrow> None
      | Some ps \<Rightarrow> (case find_entry ps PRODUCING_BOUNDARY_KEY of None \<Rightarrow> None | Some v \<Rightarrow> read_boundary v))"

definition boundary_value :: "boundary \<Rightarrow> cbor" where
  "boundary_value pb =
     M ([(U 1, B (pb_boundary pb)), (U 2, U (pb_kind pb))] @
        (case pb_reporting pb of
           Some r \<Rightarrow> if pb_kind pb = PRODUCING_BOUNDARY_REPORTED then [(U 3, B r)] else []
         | None \<Rightarrow> []))"

definition set_producing_boundary :: "obj \<Rightarrow> boundary \<Rightarrow> obj" where
  "set_producing_boundary obj pb =
     obj\<lparr>ext := Some (put_entry PRODUCING_BOUNDARY_KEY (boundary_value pb) (ext obj))\<rparr>"

section \<open>The contract of an extension slot\<close>

definition slot_get :: "int \<Rightarrow> (cbor \<Rightarrow> 'a option) \<Rightarrow> ext_map option \<Rightarrow> 'a option" where
  "slot_get key rd m =
     (case m of None \<Rightarrow> None | Some ps \<Rightarrow> (case find_entry ps key of None \<Rightarrow> None | Some v \<Rightarrow> rd v))"

lemma put_entry_pairs:
  "put_entry key val (Some ps) =
     (if U key \<in> fst ` set ps then map (\<lambda>p. if fst p = U key then (U key, val) else p) ps else ps @ [(U key, val)])"
proof -
  have "foldl (replace_entry key val) (acc, r) ps =
      (acc @ map (\<lambda>p. if fst p = U key then (U key, val) else p) ps, r \<or> U key \<in> fst ` set ps)" for acc r
    by (induction ps arbitrary: acc r) (auto simp: replace_entry_def)
  moreover have "map (\<lambda>p. if fst p = U key then (U key, val) else p) ps = ps" if "U key \<notin> fst ` set ps"
    using that by (induction ps) auto
  ultimately show ?thesis by (simp add: put_entry_def)
qed

lemma find_put_entry:
  "find_entry (put_entry key val (Some ps)) k = (if k = key then Some val else find_entry ps k)"
proof -
  have "find_entry (map (\<lambda>p. if fst p = U key then (U key, val) else p) ps) k =
      (if k = key then (if U key \<in> fst ` set ps then Some val else None) else find_entry ps k)"
    by (induction ps k rule: find_entry.induct) (auto, force)
  moreover have "find_entry (ps @ [(U key, val)]) k = (case find_entry ps k of Some v \<Rightarrow> Some v | None \<Rightarrow> if k = key then Some val else None)"
    by (induction ps k rule: find_entry.induct) auto
  moreover have "find_entry ps key = None" if "U key \<notin> fst ` set ps"
    using that by (induction ps key rule: find_entry.induct) auto
  ultimately show ?thesis
    by (cases "U key \<in> fst ` set ps"; cases "k = key") (simp_all add: put_entry_pairs split: option.split)
qed

lemma slot_get_put:
  "slot_get k rd (Some (put_entry key val m)) = (if k = key then rd val else slot_get k rd m)"
proof (cases m)
  case None
  then show ?thesis by (simp add: slot_get_def put_entry_def)
next
  case (Some ps)
  then show ?thesis by (simp add: slot_get_def find_put_entry)
qed

locale ext_slot =
  fixes key :: int and rd :: "cbor \<Rightarrow> 'a option" and wr :: "'a \<Rightarrow> cbor" and ok :: "'a \<Rightarrow> bool"
  assumes read_written: "ok x \<Longrightarrow> rd (wr x) = Some x"
begin

lemma get_put: "ok x \<Longrightarrow> slot_get key rd (Some (put_entry key (wr x) m)) = Some x"
  by (simp add: slot_get_put read_written)

lemma get_put_other: "k \<noteq> key \<Longrightarrow> slot_get k rd' (Some (put_entry key (wr x) m)) = slot_get k rd' m"
  by (simp add: slot_get_put)

end

definition as_uint :: "cbor \<Rightarrow> int option" where
  "as_uint v = (case v of U n \<Rightarrow> Some n | _ \<Rightarrow> None)"

lemma cext_get_uint_slot: "cext_get_uint m key = slot_get key as_uint m"
proof -
  have "cext_get_uint_pairs ps key = (case find_entry ps key of None \<Rightarrow> None | Some v \<Rightarrow> as_uint v)" for ps
    by (induction ps key rule: cext_get_uint_pairs.induct) (auto simp: as_uint_def)
  then show ?thesis by (simp add: cext_get_uint_def slot_get_def split: option.splits)
qed

lemma producing_boundary_slot: "producing_boundary obj = slot_get PRODUCING_BOUNDARY_KEY read_boundary (ext obj)"
  by (simp add: producing_boundary_def slot_get_def)

text \<open>A disclosure the setter writes as it stands: an observer relays from no one.\<close>

definition boundary_wf :: "boundary \<Rightarrow> bool" where
  "boundary_wf pb \<longleftrightarrow> pb_boundary pb \<noteq> [] \<and>
     (pb_kind pb = PRODUCING_BOUNDARY_REPORTED \<or> pb_kind pb = PRODUCING_BOUNDARY_OBSERVED \<and> pb_reporting pb = None)"

interpretation uint_slot: ext_slot key as_uint U "\<lambda>_. True" for key
  by unfold_locales (simp add: as_uint_def)

interpretation boundary_slot: ext_slot PRODUCING_BOUNDARY_KEY read_boundary boundary_value boundary_wf
  by unfold_locales
    (auto simp: read_boundary_def boundary_value_def boundary_wf_def boundary_entry_def boundary_defs split: option.splits)

section \<open>The duplication detector\<close>

text \<open>The content ids presented by a signer under one counter value.\<close>

definition presented :: "prims \<Rightarrow> obj list \<Rightarrow> bytes \<Rightarrow> int \<Rightarrow> bytes set" where
  "presented P objs s c =
     {cid. \<exists>obj \<in> set objs. signer obj = s \<and> signer_counter obj = Some c \<and> object_content_id P obj = Inr cid}"

definition groups_inv :: "prims \<Rightarrow> obj list \<Rightarrow> groups \<Rightarrow> bool" where
  "groups_inv P objs g \<longleftrightarrow> distinct (map fst g) \<and> (\<forall>s. distinct (map fst (dget g s))) \<and>
     (\<forall>s c. distinct (dget (dget g s) c) \<and> set (dget (dget g s) c) = presented P objs s c)"

lemma dget_update: "dget (AList.update k v d) k' = (if k' = k then v else dget d k')"
  by (simp add: dget_def update_conv')

lemma dget_nonempty_key: "dget d k \<noteq> [] \<Longrightarrow> k \<in> fst ` set d"
  by (auto simp: dget_def split: option.splits dest: map_of_SomeD intro: rev_image_eqI)

lemma presented_snoc:
  "presented P (objs @ [x]) s c = presented P objs s c \<union>
     (if signer x = s \<and> signer_counter x = Some c then {cid. object_content_id P x = Inr cid} else {})"
  by (auto simp: presented_def)

lemma group_step_inv:
  assumes "groups_inv P objs g" and "group_step P g x = Inr g'"
  shows "groups_inv P (objs @ [x]) g'"
proof (cases "signer_counter x")
  case None
  then show ?thesis using assms by (simp add: group_step_def groups_inv_def presented_snoc)
next
  case (Some seq)
  show ?thesis
  proof (cases "object_content_id P x")
    case (Inl e)
    then show ?thesis using Some assms
      by (auto simp: group_step_def groups_inv_def presented_snoc split: if_splits)
  next
    case (Inr cid)
    then show ?thesis using Some assms
      by (auto simp: group_step_def groups_inv_def presented_snoc dget_update Let_def distinct_update split: if_splits)
  qed
qed

lemma group_steps_inv:
  "groups_inv P old g \<Longrightarrow> rfold (group_step P) g objs = Inr g' \<Longrightarrow> groups_inv P (old @ objs) g'"
proof (induction objs arbitrary: g old)
  case (Cons x objs)
  then obtain h where h: "group_step P g x = Inr h" "rfold (group_step P) h objs = Inr g'"
    by (auto simp: rbind_eq_Inr)
  from Cons.IH [OF group_step_inv [OF Cons.prems(1) h(1)] h(2)] show ?case by simp
qed simp

lemma groups_inv_empty: "groups_inv P [] []"
  by (simp add: groups_inv_def dget_def presented_def)

lemma UN_UN_if:
  "(\<Union>s \<in> S. \<Union>c \<in> C s. if Q s c then {} else {F s c}) = {F s c | s c. s \<in> S \<and> c \<in> C s \<and> \<not> Q s c}"
  by (auto split: if_splits)

lemma detect_Inr:
  assumes "detect_signer_duplication P objs = Inr fs"
  shows "set fs = {\<lparr>df_signer = s, df_counter = c, df_ids = sorted_list_of_set (presented P objs s c)\<rparr> | s c.
      card (presented P objs s c) \<ge> 2}"
proof -
  obtain g where g: "rfold (group_step P) [] objs = Inr g"
    and fs: "fs = concat (map (\<lambda>s. group_findings (s, dget g s)) (sort (map fst g)))"
    using assms by (auto simp: detect_signer_duplication_def res_simps)
  have inv: "groups_inv P objs g" using group_steps_inv [OF groups_inv_empty g] by simp
  then have ids: "distinct (dget (dget g s) c)" "presented P objs s c = set (dget (dget g s) c)" for s c
    by (simp_all add: groups_inv_def)
  have card: "length (dget (dget g s) c) = card (presented P objs s c)" for s c
    by (simp only: ids(2) distinct_card [OF ids(1)])
  have srt: "sort (dget (dget g s) c) = sorted_list_of_set (presented P objs s c)" for s c
    by (simp only: ids(2) sorted_list_of_set_sort_remdups distinct_remdups_id [OF ids(1)])
  have keys: "s \<in> fst ` set g \<and> c \<in> fst ` set (dget g s)" if "2 \<le> card (presented P objs s c)" for s c
  proof -
    have "dget (dget g s) c \<noteq> []" using that card [of s c] by auto
    then have c: "c \<in> fst ` set (dget g s)" by (rule dget_nonempty_key)
    then have "dget g s \<noteq> []" by auto
    then show ?thesis using c dget_nonempty_key by metis
  qed
  have "set fs = (\<Union>s \<in> fst ` set g. \<Union>c \<in> fst ` set (dget g s). if card (presented P objs s c) < 2 then {}
      else {\<lparr>df_signer = s, df_counter = c, df_ids = sorted_list_of_set (presented P objs s c)\<rparr>})"
    by (simp add: fs group_findings_def Let_def card srt if_distrib [of set] cong: if_cong)
  also have "\<dots> = {\<lparr>df_signer = s, df_counter = c, df_ids = sorted_list_of_set (presented P objs s c)\<rparr> | s c.
      s \<in> fst ` set g \<and> c \<in> fst ` set (dget g s) \<and> \<not> card (presented P objs s c) < 2}"
    by (rule UN_UN_if)
  finally have fs': "set fs = \<dots>" .
  have "(s \<in> fst ` set g \<and> c \<in> fst ` set (dget g s) \<and> \<not> card (presented P objs s c) < 2) \<longleftrightarrow>
      2 \<le> card (presented P objs s c)" for s c
    by (meson keys not_less)
  then show ?thesis unfolding fs' by simp
qed

section \<open>Properties of the extension fields\<close>

text \<open>Each extension field reads back what was written and leaves the others alone, whatever the carrier
  held before: the counter, the re-check procedure in either carrier (the critical one taking precedence),
  and a well-formed producing-boundary disclosure.\<close>

theorem ext_fields_independent:
  assumes "boundary_wf pb"
  shows "signer_counter (set_signer_counter obj seq) = Some seq \<and>
    recheck (set_signer_counter obj seq) = recheck obj \<and>
    producing_boundary (set_signer_counter obj seq) = producing_boundary obj \<and>
    recheck (set_recheck obj i True) = (i, True, True) \<and>
    (fst (snd (recheck (set_recheck obj i False))) \<and>
     (\<not> snd (snd (recheck obj)) \<longrightarrow> recheck (set_recheck obj i False) = (i, True, False))) \<and>
    signer_counter (set_recheck obj i crit) = signer_counter obj \<and>
    producing_boundary (set_recheck obj i crit) = producing_boundary obj \<and>
    producing_boundary (set_producing_boundary obj pb) = Some pb \<and>
    signer_counter (set_producing_boundary obj pb) = signer_counter obj \<and>
    recheck (set_producing_boundary obj pb) = recheck obj"
proof -
  have keys: "SIGNER_COUNTER_KEY \<noteq> RECHECK_KEY" "SIGNER_COUNTER_KEY \<noteq> PRODUCING_BOUNDARY_KEY"
      "RECHECK_KEY \<noteq> PRODUCING_BOUNDARY_KEY"
    by (simp_all add: SIGNER_COUNTER_KEY_def RECHECK_KEY_def PRODUCING_BOUNDARY_KEY_def)
  note keys = keys keys [symmetric]
  note slots = cext_get_uint_slot producing_boundary_slot signer_counter_def set_signer_counter_def recheck_def
    set_recheck_def set_producing_boundary_def
  show ?thesis
    using assms
    by (auto simp: slots uint_slot.get_put boundary_slot.get_put uint_slot.get_put_other boundary_slot.get_put_other keys
        split: option.splits)
qed

theorem ext_fields_independent_witness:
  "producing_boundary (set_producing_boundary sample_obj \<lparr>pb_boundary = [1], pb_kind = 2, pb_reporting = Some [2]\<rparr>)
     = Some \<lparr>pb_boundary = [1], pb_kind = 2, pb_reporting = Some [2]\<rparr>"
proof -
  have "boundary_wf \<lparr>pb_boundary = [1], pb_kind = 2, pb_reporting = Some [2]\<rparr>"
    by code_simp
  from ext_fields_independent [OF this] show ?thesis by blast
qed

text \<open>The duplication detector reports exactly the conflicts that are present: a finding for a signer and
  a counter value exists precisely when two or more distinct content ids were presented under them, and
  it lists all of those ids in ascending order. One sequence alone, or the same object twice, reports
  nothing.\<close>

theorem duplication_findings_exact:
  assumes "detect_signer_duplication P objs = Inr fs"
  shows "set fs = {\<lparr>df_signer = s, df_counter = c, df_ids = sorted_list_of_set (presented P objs s c)\<rparr> | s c.
      card (presented P objs s c) \<ge> 2}"
  using assms by (rule detect_Inr)

theorem duplication_findings_exact_witness:
  "\<exists>fs. detect_signer_duplication sample_prims [sample_obj, sample_obj\<lparr>created := 6\<rparr>, sample_obj] = Inr fs \<and> length fs = 1 \<and>
     set fs = {\<lparr>df_signer = s, df_counter = c,
       df_ids = sorted_list_of_set (presented sample_prims [sample_obj, sample_obj\<lparr>created := 6\<rparr>, sample_obj] s c)\<rparr> | s c.
       card (presented sample_prims [sample_obj, sample_obj\<lparr>created := 6\<rparr>, sample_obj] s c) \<ge> 2}"
proof -
  have "case detect_signer_duplication sample_prims [sample_obj, sample_obj\<lparr>created := 6\<rparr>, sample_obj] of
      Inl _ \<Rightarrow> False | Inr fs \<Rightarrow> length fs = 1"
    by code_simp
  then obtain fs where f: "detect_signer_duplication sample_prims [sample_obj, sample_obj\<lparr>created := 6\<rparr>, sample_obj] = Inr fs"
    and "length fs = 1"
    by (auto split: sum.splits)
  then show ?thesis by (intro exI [of _ fs] conjI duplication_findings_exact [OF f])
qed

end
