(* ===== verification/RotationObject.thy ===== *)
theory RotationObject
  imports Envelope
begin

text \<open>
  The rotation object of \<^verbatim>\<open>envelope.py\<close>: a multi-signer object co-signed by the old and then the new key,
  permitted only on the identity channel, and its verification.
\<close>

section \<open>Signing and verifying\<close>

definition ROTATION_OLD_LEG_FLOOR_APPLIES :: bool where "ROTATION_OLD_LEG_FLOOR_APPLIES = True"

definition sign_rotation_object :: "prims \<Rightarrow> obj \<Rightarrow> int \<Rightarrow> bytes \<Rightarrow> int \<Rightarrow> bytes \<Rightarrow> (obj \<times> bytes) res" where
  "sign_rotation_object P obj old_alg old_seed new_alg new_seed =
     (if \<not> is_rotation_object (channel obj) (kind obj) then Inl (EnvelopeError ''UnknownKind'')
      else if is_composite_alg old_alg \<or> is_composite_alg new_alg then Inl (EnvelopeError ''Malformed'')
      else rbind (assign_id P (obj\<lparr>suite := 0\<rparr>)) (\<lambda>(o1, payload).
        rbind (protected_header new_alg (signer o1) (profile o1)) (\<lambda>body_prot.
          rbind (signature_leg P body_prot old_alg old_seed payload) (\<lambda>old_leg.
            rbind (signature_leg P body_prot new_alg new_seed payload) (\<lambda>new_leg.
              rbind (assemble_sign_raw body_prot payload [old_leg, new_leg]) (\<lambda>b. Inr (o1, b)))))))"

definition leg_floor :: "int \<Rightarrow> int \<Rightarrow> unit res" where
  "leg_floor vprofile leg_alg =
     (let (level, known) = alg_level leg_alg in
      if \<not> known then Inl (EnvelopeError ''UnknownAlg'')
      else if level < profile_min_level vprofile then Inl (EnvelopeError ''ProfileDowngrade'')
      else Inr ())"

definition leg_verifies :: "prims \<Rightarrow> bytes \<Rightarrow> bytes \<Rightarrow> int \<Rightarrow> bytes \<Rightarrow> bytes \<Rightarrow> unit res" where
  "leg_verifies P body_prot payload leg_alg pk sig =
     rbind (signature_to_be_signed body_prot leg_alg payload) (\<lambda>tbs.
       rbind (cose_verify1_raw P leg_alg pk tbs sig) (\<lambda>ok.
         if \<not> ok then Inl (EnvelopeError ''RotationUnauthorized'') else Inr ()))"

definition check_legs ::
    "prims \<Rightarrow> int \<Rightarrow> int \<Rightarrow> bytes \<Rightarrow> int \<Rightarrow> bytes \<Rightarrow> bytes \<Rightarrow> bytes \<Rightarrow> (bytes \<times> bytes) list \<Rightarrow> unit res" where
  "check_legs P vprofile old_alg old_pk new_alg new_pk body_prot payload legs =
     (case legs of
        [(old_prot, old_sig), (new_prot, new_sig)] \<Rightarrow>
          rbind (alg_from_protected old_prot) (\<lambda>old_leg_alg.
          rbind (alg_from_protected new_prot) (\<lambda>new_leg_alg.
            if is_composite_alg old_leg_alg \<or> is_composite_alg new_leg_alg then Inl (EnvelopeError ''Malformed'')
            else if old_leg_alg \<noteq> old_alg \<or> new_leg_alg \<noteq> new_alg then Inl (EnvelopeError ''RotationUnauthorized'')
            else rbind (leg_floor vprofile new_leg_alg) (\<lambda>_.
              rbind (if ROTATION_OLD_LEG_FLOOR_APPLIES then leg_floor vprofile old_leg_alg else Inr ()) (\<lambda>_.
                rbind (leg_verifies P body_prot payload old_leg_alg old_pk old_sig) (\<lambda>_.
                  leg_verifies P body_prot payload new_leg_alg new_pk new_sig)))))
      | _ \<Rightarrow> Inl (EnvelopeError ''RotationUnauthorized''))"

definition verify_rotation_object ::
    "prims \<Rightarrow> int \<Rightarrow> int \<Rightarrow> bytes \<Rightarrow> int \<Rightarrow> bytes \<Rightarrow> kind_validator \<Rightarrow> bytes \<Rightarrow> int list \<Rightarrow> obj res" where
  "verify_rotation_object P vprofile old_alg old_pk new_alg new_pk validator obj_bytes known_cext =
     (if length obj_bytes > MAX_OBJECT_SIZE then Inl (EnvelopeError ''TooLarge'')
      else rbind (parse_sign_raw obj_bytes) (\<lambda>(body_prot, payload, legs).
        rbind (check_body P payload) (\<lambda>obj.
          rbind (check_ranges obj) (\<lambda>_.
            rbind (check_header obj body_prot) (\<lambda>halg.
              rbind (check_cext known_cext obj) (\<lambda>_.
                if \<not> is_rotation_object (channel obj) (kind obj) then Inl (EnvelopeError ''UnknownKind'')
                else rbind (check_kind validator obj) (\<lambda>_.
                  if is_composite_alg halg then Inl (EnvelopeError ''Malformed'')
                  else if halg \<noteq> new_alg then Inl (EnvelopeError ''KeyAlgMismatch'')
                  else rbind (check_legs P vprofile old_alg old_pk new_alg new_pk body_prot payload legs) (\<lambda>_.
                    Inr obj))))))))"

section \<open>Legs\<close>

lemma alg_from_leg_protected:
  assumes "leg_protected alg = Inr b"
  shows "alg_from_protected b = Inr alg"
proof -
  have e: "encode (M [(U 1, N alg)]) = Inr b" using assms by (simp only: leg_protected_def)
  have c: "canon (M [(U 1, N alg)]) = M [(U 1, N alg)]"
    by (rule canon_asc) (auto simp: asc_keys_def small_key_def)
  have d: "decode b = Inr (M [(U 1, N alg)])"
    by (rule decode_canonical [OF e c]) simp
  have "b \<noteq> [0xA0]"
  proof
    assume b: "b = [0xA0]"
    have "encode (M []) = Inr [0xA0]" by code_simp
    then have "decode [0xA0] = Inr (M [])" by (rule decode_canonical) simp_all
    with d b show False by simp
  qed
  then show ?thesis using d by (simp add: alg_from_protected_def)
qed

lemma leg_floor_Inr: "leg_floor vp alg = Inr () \<longleftrightarrow> snd (alg_level alg) \<and> profile_min_level vp \<le> fst (alg_level alg)"
  by (auto simp: leg_floor_def split: prod.splits)

lemma leg_verifies_Inr:
  "leg_verifies P bp pl alg pk sig = Inr () \<longleftrightarrow>
     (\<exists>tbs. signature_to_be_signed bp alg pl = Inr tbs \<and> cose_verify1_raw P alg pk tbs sig = Inr True)"
  by (auto simp: leg_verifies_def res_simps)

lemma signature_leg_verifies:
  assumes "md_correct P" and "signature_leg P bp alg seed pl = Inr (sprot, sig)" and "md_key_derive P alg seed = Inr (pk, sk)"
  shows "leg_verifies P bp pl alg pk sig = Inr ()" and "alg_from_protected sprot = Inr alg"
    and "alg = ALG_MLDSA65 \<or> alg = ALG_MLDSA87"
  using assms mldsa_sign_verify [OF assms(1) _ assms(3)] alg_from_leg_protected
  by (auto simp: signature_leg_def leg_verifies_Inr rbind_eq_Inr)

lemma check_legs_Inr:
  "check_legs P vp oa opk na npk bp pl legs = Inr () \<longleftrightarrow>
     (\<exists>op os np ns. legs = [(op, os), (np, ns)] \<and> alg_from_protected op = Inr oa \<and> alg_from_protected np = Inr na \<and>
        \<not> is_composite_alg oa \<and> \<not> is_composite_alg na \<and> leg_floor vp na = Inr () \<and> leg_floor vp oa = Inr () \<and>
        leg_verifies P bp pl oa opk os = Inr () \<and> leg_verifies P bp pl na npk ns = Inr ())"
  by (auto simp: check_legs_def res_simps ROTATION_OLD_LEG_FLOOR_APPLIES_def)

lemma verify_rotation_object_iff:
  "verify_rotation_object P vp oa opk na npk validator bs known = Inr obj \<longleftrightarrow>
     length bs \<le> MAX_OBJECT_SIZE \<and>
     (\<exists>bp pl legs. parse_sign_raw bs = Inr (bp, pl, legs) \<and> check_body P pl = Inr obj \<and> check_ranges obj = Inr () \<and>
        check_header obj bp = Inr na \<and> check_cext known obj = Inr () \<and> is_rotation_object (channel obj) (kind obj) \<and>
        check_kind validator obj = Inr () \<and> check_legs P vp oa opk na npk bp pl legs = Inr ())"
  by (auto simp: verify_rotation_object_def res_simps not_less check_legs_Inr)

text \<open>The limits of \<open>acceptable\<close> for a rotation object.\<close>

definition rotation_acceptable :: "kind_validator \<Rightarrow> int list \<Rightarrow> obj \<Rightarrow> bool" where
  "rotation_acceptable validator known_cext obj \<longleftrightarrow>
     within_counts obj \<and> nesting (M ((U FIELD_ID, B []) # body_fields (obj\<lparr>suite := 0\<rparr>))) \<le> MAX_NESTING_DEPTH \<and>
     effect obj \<le> 3 \<and> 1 \<le> profile obj \<and> profile obj \<le> 3 \<and>
     check_cext known_cext (canon_obj obj) = Inr () \<and> check_kind validator obj = Inr ()"

lemma sign_rotation_object_verifies:
  assumes P: "md_correct P" and s: "sign_rotation_object P obj oa os na ns = Inr (o1, bs)"
    and k: "md_key_derive P oa os = Inr (opk, osk)" "md_key_derive P na ns = Inr (npk, nsk)"
    and size: "length bs \<le> MAX_OBJECT_SIZE" and ok: "rotation_acceptable validator known obj"
    and lvl: "profile_min_level vp \<le> fst (alg_level oa)" "profile_min_level vp \<le> fst (alg_level na)"
  shows "verify_rotation_object P vp oa opk na npk validator bs known = Inr (canon_obj o1)"
proof -
  obtain pl bp op osg np nsg where rot: "is_rotation_object (channel obj) (kind obj)"
    and comp: "\<not> is_composite_alg oa" "\<not> is_composite_alg na"
    and a: "assign_id P (obj\<lparr>suite := 0\<rparr>) = Inr (o1, pl)" and h: "protected_header na (signer o1) (profile o1) = Inr bp"
    and l: "signature_leg P bp oa os pl = Inr (op, osg)" "signature_leg P bp na ns pl = Inr (np, nsg)"
    and b: "assemble_sign_raw bp pl [(op, osg), (np, nsg)] = Inr bs"
    using s by (auto simp: sign_rotation_object_def res_simps split: if_splits)
  note ol = signature_leg_verifies [OF P l(1) k(1)] and nl = signature_leg_verifies [OF P l(2) k(2)]
  obtain i where o1: "o1 = obj\<lparr>suite := 0, obj_id := i\<rparr>" using a by (auto elim: assign_id_Inr)
  have "check_body P pl = Inr (canon_obj o1)"
    using check_body_signed [OF a] ok by (simp add: rotation_acceptable_def within_counts_def)
  moreover have "check_header (canon_obj o1) bp = Inr na"
    using parse_protected_header [OF h] by (simp add: check_header_Inr)
  moreover have "check_cext known (canon_obj o1) = Inr ()" "check_kind validator (canon_obj o1) = Inr ()"
    using ok check_cext_cong [of "canon_obj o1" "canon_obj obj"] check_kind_cong [of "canon_obj o1" obj]
    by (simp_all add: rotation_acceptable_def o1)
  moreover have "check_legs P vp oa opk na npk bp pl [(op, osg), (np, nsg)] = Inr ()"
    using ol nl comp lvl by (auto simp: check_legs_Inr leg_floor_Inr alg_level_def)
  moreover have "check_ranges (canon_obj o1) = Inr ()"
    using rot ok by (simp add: check_ranges_Inr o1 is_rotation_object_def rotation_acceptable_def)
  ultimately show ?thesis
    using size parse_assemble_sign [OF b] rot by (auto simp: verify_rotation_object_iff o1)
qed

section \<open>Properties of rotation objects\<close>

text \<open>A rotation object co-signed with both seeds verifies under the two keys, and the verifier reads back
  the signed object.\<close>

theorem rotation_object_roundtrip:
  assumes "md_correct P" and "sign_rotation_object P obj oa os na ns = Inr (o1, bs)"
    and "md_key_derive P oa os = Inr (opk, osk)" and "md_key_derive P na ns = Inr (npk, nsk)"
    and "length bs \<le> MAX_OBJECT_SIZE" and "rotation_acceptable validator known obj"
    and "profile_min_level vp \<le> fst (alg_level oa)" and "profile_min_level vp \<le> fst (alg_level na)"
  shows "verify_rotation_object P vp oa opk na npk validator bs known = Inr (canon_obj o1)"
  using assms by (rule sign_rotation_object_verifies)

definition sample_rotation :: obj where
  "sample_rotation = sample_obj\<lparr>kind := 0, channel := 3\<rparr>"

lemma sample_rotation_signed:
  obtains o1 bs where "sign_rotation_object sample_prims sample_rotation (- 49) [5] (- 50) [6] = Inr (o1, bs)"
    "length bs \<le> MAX_OBJECT_SIZE"
proof -
  have "case sign_rotation_object sample_prims sample_rotation (- 49) [5] (- 50) [6] of
      Inl _ \<Rightarrow> False | Inr (o1, bs) \<Rightarrow> length bs \<le> 500"
    by code_simp
  then show ?thesis using that by (auto simp: MAX_OBJECT_SIZE_def split: sum.splits)
qed

lemma sample_rotation_acceptable: "rotation_acceptable (Some (\<lambda>c k. c = 3)) [] sample_rotation"
proof -
  have "nesting (M ((U FIELD_ID, B []) # body_fields (sample_rotation\<lparr>suite := 0\<rparr>))) \<le> MAX_NESTING_DEPTH"
    by code_simp
  then show ?thesis
    by (simp add: rotation_acceptable_def within_counts_def sample_rotation_def sample_obj_def MAX_CAUSES_def MAX_EXT_def
        check_cext_def check_kind_def canon_obj_def)
qed

lemma sample_levels: "profile_min_level 1 \<le> fst (alg_level (- 49))" "profile_min_level 1 \<le> fst (alg_level (- 50))"
  by (simp_all add: profile_min_level_def alg_level_def alg_defs profile_defs)

theorem rotation_object_roundtrip_witness:
  "\<exists>o1 bs. sign_rotation_object sample_prims sample_rotation (- 49) [5] (- 50) [6] = Inr (o1, bs) \<and>
     verify_rotation_object sample_prims 1 (- 49) [5] (- 50) [6] (Some (\<lambda>c k. c = 3)) bs [] = Inr (canon_obj o1)"
proof (rule sample_rotation_signed)
  fix o1 bs
  assume s: "sign_rotation_object sample_prims sample_rotation (- 49) [5] (- 50) [6] = Inr (o1, bs)"
    and l: "length bs \<le> MAX_OBJECT_SIZE"
  from s rotation_object_roundtrip [OF sample_prims_correct(1) s sample_prims_sel(4) sample_prims_sel(4) l
      sample_rotation_acceptable sample_levels] show ?thesis by blast
qed

text \<open>No rotation passes on the new key alone: an accepted rotation object is on the identity channel,
  carries exactly two legs in the order old then new, each naming its key's algorithm, both at the
  profile's level and both verifying over the same header and payload under the verifier's trusted old key
  and the new key. The single-signature verifier refuses every rotation object.\<close>

theorem rotation_needs_old_key:
  assumes "verify_rotation_object P vp oa opk na npk validator bs known = Inr obj"
  shows "channel obj = 3 \<and> kind obj = 0 \<and>
    (\<exists>bp pl op os np ns otbs ntbs. parse_sign_raw bs = Inr (bp, pl, [(op, os), (np, ns)]) \<and>
       alg_from_protected op = Inr oa \<and> alg_from_protected np = Inr na \<and>
       profile_min_level vp \<le> fst (alg_level oa) \<and> profile_min_level vp \<le> fst (alg_level na) \<and>
       signature_to_be_signed bp oa pl = Inr otbs \<and> cose_verify1_raw P oa opk otbs os = Inr True \<and>
       signature_to_be_signed bp na pl = Inr ntbs \<and> cose_verify1_raw P na npk ntbs ns = Inr True \<and>
       obj_id obj = Some (content_id_bytes (sha384 P) (id_preimage pl))) \<and>
    (\<forall>va pk bs'. verify P vp va pk validator bs' known \<noteq> Inr obj)"
proof -
  obtain bp pl legs where v: "parse_sign_raw bs = Inr (bp, pl, legs)" "check_body P pl = Inr obj"
    "is_rotation_object (channel obj) (kind obj)" "check_legs P vp oa opk na npk bp pl legs = Inr ()"
    using assms by (auto simp: verify_rotation_object_iff)
  have "\<forall>va pk bs'. verify P vp va pk validator bs' known \<noteq> Inr obj"
    using v(3) by (simp add: verify_iff)
  then show ?thesis
    using v check_body_id [OF v(2)]
    by (auto simp: is_rotation_object_def check_legs_Inr leg_floor_Inr leg_verifies_Inr)
qed

theorem rotation_needs_old_key_witness:
  "\<exists>bs obj. verify_rotation_object sample_prims 1 (- 49) [5] (- 50) [6] (Some (\<lambda>c k. c = 3)) bs [] = Inr obj \<and>
     channel obj = 3 \<and> kind obj = 0"
proof (rule sample_rotation_signed)
  fix o1 bs
  assume s: "sign_rotation_object sample_prims sample_rotation (- 49) [5] (- 50) [6] = Inr (o1, bs)"
    and l: "length bs \<le> MAX_OBJECT_SIZE"
  note v = sign_rotation_object_verifies [OF sample_prims_correct(1) s sample_prims_sel(4) sample_prims_sel(4) l
      sample_rotation_acceptable sample_levels]
  from v rotation_needs_old_key [OF v] show ?thesis by blast
qed

end
