(* ===== verification/Dfs.thy ===== *)
theory Dfs
  imports Prelude
begin

text \<open>
  The three-colour depth-first search for cycles, which the SDK writes out twice: over the causes of objects
  (\<^verbatim>\<open>graph.py\<close>) and over the parents of coordinate frames (\<^verbatim>\<open>channels.py\<close>). The recursion is bounded by fuel;
  with one unit per node it never runs out, and the search reports exactly whether there is a cycle.
\<close>

section \<open>The search\<close>

datatype color = White | Gray | Black

fun check_causes ::
    "(('a \<Rightarrow> color) \<Rightarrow> 'a \<Rightarrow> (bool \<times> ('a \<Rightarrow> color)) option) \<Rightarrow> ('a \<Rightarrow> color) \<Rightarrow> 'a list \<Rightarrow> (bool \<times> ('a \<Rightarrow> color)) option" where
  "check_causes visit col [] = Some (False, col)"
| "check_causes visit col (j # js) =
     (if col j = Gray then Some (True, col)
      else if col j = White then
        (case visit col j of
           None \<Rightarrow> None
         | Some (found, col') \<Rightarrow> if found then Some (True, col') else check_causes visit col' js)
      else check_causes visit col js)"

primrec has_cycle :: "nat \<Rightarrow> ('a \<Rightarrow> 'a list) \<Rightarrow> ('a \<Rightarrow> color) \<Rightarrow> 'a \<Rightarrow> (bool \<times> ('a \<Rightarrow> color)) option" where
  "has_cycle 0 S = (\<lambda>col i. None)"
| "has_cycle (Suc k) S = (\<lambda>col i.
     case check_causes (has_cycle k S) (col(i := Gray)) (S i) of
       None \<Rightarrow> None
     | Some (found, col') \<Rightarrow> if found then Some (True, col') else Some (False, col'(i := Black)))"

definition search_step :: "exn \<Rightarrow> nat \<Rightarrow> ('a \<Rightarrow> 'a list) \<Rightarrow> ('a \<Rightarrow> color) \<Rightarrow> 'a \<Rightarrow> ('a \<Rightarrow> color) res" where
  "search_step cyclic fuel S col i =
     (if col i = White then
        (case has_cycle fuel S col i of
           None \<Rightarrow> Inl OutOfFuel
         | Some (found, col') \<Rightarrow> if found then Inl cyclic else Inr col')
      else Inr col)"

section \<open>The search finds exactly the cycles\<close>

definition edges :: "('a \<Rightarrow> 'a list) \<Rightarrow> ('a \<times> 'a) set" where
  "edges S = {(i, j). j \<in> set (S i)}"

text \<open>Finished nodes have only finished successors and lie on no cycle.\<close>

definition search_inv :: "('a \<Rightarrow> 'a list) \<Rightarrow> ('a \<Rightarrow> color) \<Rightarrow> bool" where
  "search_inv S col \<longleftrightarrow> (\<forall>b. col b = Black \<longrightarrow> (\<forall>j \<in> set (S b). col j = Black) \<and> (b, b) \<notin> (edges S)\<^sup>+)"

definition extends :: "('a \<Rightarrow> color) \<Rightarrow> ('a \<Rightarrow> color) \<Rightarrow> bool" where
  "extends col col' \<longleftrightarrow> (\<forall>x. (col x = Black \<longrightarrow> col' x = Black) \<and> (col' x = Gray \<longleftrightarrow> col x = Gray))"

lemma extends_refl [simp]: "extends col col"
  by (simp add: extends_def)

lemma extends_trans: "extends a b \<Longrightarrow> extends b c \<Longrightarrow> extends a c"
  by (simp add: extends_def)

lemma extends_white: "extends col col' \<Longrightarrow> col' x = White \<Longrightarrow> col x = White"
  by (metis color.exhaust extends_def)

definition whites :: "'a set \<Rightarrow> ('a \<Rightarrow> color) \<Rightarrow> 'a set" where
  "whites N col = {x \<in> N. col x = White}"

lemma finite_whites [simp]: "finite N \<Longrightarrow> finite (whites N col)"
  by (simp add: whites_def)

lemma whites_gray: "finite N \<Longrightarrow> i \<in> N \<Longrightarrow> col i = White \<Longrightarrow> Suc (card (whites N (col(i := Gray)))) = card (whites N col)"
proof -
  assume "finite N" "i \<in> N" "col i = White"
  then have "whites N col = insert i (whites N (col(i := Gray)))" "i \<notin> whites N (col(i := Gray))"
    by (auto simp: whites_def)
  then show ?thesis using \<open>finite N\<close> by simp
qed

lemma whites_extends: "finite N \<Longrightarrow> extends col col' \<Longrightarrow> card (whites N col') \<le> card (whites N col)"
  by (rule card_mono) (auto simp: whites_def dest: extends_white)

text \<open>The contract of a visit of node \<open>i\<close> with enough fuel.\<close>

definition visit_ok :: "('a \<Rightarrow> 'a list) \<Rightarrow> 'a set \<Rightarrow> nat \<Rightarrow> (('a \<Rightarrow> color) \<Rightarrow> 'a \<Rightarrow> (bool \<times> ('a \<Rightarrow> color)) option) \<Rightarrow> bool" where
  "visit_ok S N k visit \<longleftrightarrow>
     (\<forall>col i. i \<in> N \<longrightarrow> col i = White \<longrightarrow> search_inv S col \<longrightarrow> card (whites N col) \<le> k \<longrightarrow>
        (\<forall>g. col g = Gray \<longrightarrow> (g, i) \<in> (edges S)\<^sup>*) \<longrightarrow>
        (\<exists>found col'. visit col i = Some (found, col') \<and> (found \<longrightarrow> (\<exists>x. (x, x) \<in> (edges S)\<^sup>+)) \<and>
           (\<not> found \<longrightarrow> search_inv S col' \<and> col' i = Black \<and> extends (col(i := Black)) col')))"

lemma check_causes_ok:
  assumes v: "visit_ok S N k visit" and i: "col i = Gray" and gray: "\<forall>g. col g = Gray \<longrightarrow> (g, i) \<in> (edges S)\<^sup>*"
    and inv: "search_inv S col" and k: "card (whites N col) \<le> k" and js: "set js \<subseteq> set (S i)" and n: "\<forall>j \<in> set (S i). j \<in> N" and fin: "finite N"
  shows "\<exists>found col'. check_causes visit col js = Some (found, col') \<and> (found \<longrightarrow> (\<exists>x. (x, x) \<in> (edges S)\<^sup>+)) \<and>
    (\<not> found \<longrightarrow> search_inv S col' \<and> extends col col' \<and> (\<forall>j \<in> set js. col' j = Black))"
  using i gray inv k js
proof (induction js arbitrary: col)
  case (Cons j js)
  have e: "(i, j) \<in> edges S" and jn: "j \<in> N" using Cons.prems(5) n by (auto simp: edges_def)
  show ?case
  proof (cases "col j")
    case White
    have "\<forall>g. col g = Gray \<longrightarrow> (g, j) \<in> (edges S)\<^sup>*"
      using Cons.prems(2) e by (auto intro: rtrancl_into_rtrancl)
    then obtain found col' where vis: "visit col j = Some (found, col')" "found \<longrightarrow> (\<exists>x. (x, x) \<in> (edges S)\<^sup>+)"
      and ok: "\<not> found \<longrightarrow> search_inv S col' \<and> col' j = Black \<and> extends (col(j := Black)) col'"
      using v White jn Cons.prems(3,4) unfolding visit_ok_def by blast
    show ?thesis
    proof (cases found)
      case True
      then show ?thesis using vis White by auto
    next
      case False
      then have ok: "search_inv S col'" "col' j = Black" "extends (col(j := Black)) col'" using ok by auto
      have ext: "extends col col'" using ok(3) White by (auto simp: extends_def split: if_splits)
      have "\<exists>found col''. check_causes visit col' js = Some (found, col'') \<and> (found \<longrightarrow> (\<exists>x. (x, x) \<in> (edges S)\<^sup>+)) \<and>
          (\<not> found \<longrightarrow> search_inv S col'' \<and> extends col' col'' \<and> (\<forall>j \<in> set js. col'' j = Black))"
        using Cons.prems ok(1) ext whites_extends [OF fin ext]
        by (intro Cons.IH) (auto simp: extends_def intro: order_trans)
      then show ?thesis
        using vis White False ok(2) ext extends_trans [OF ext] by (auto simp: extends_def)
    qed
  next
    case Gray
    have "(j, i) \<in> (edges S)\<^sup>*" using Gray Cons.prems(2) by blast
    then have "(j, j) \<in> (edges S)\<^sup>+" using e by (rule rtrancl_into_trancl1)
    then show ?thesis using Gray by auto
  next
    case Black
    then show ?thesis using Cons.IH [OF Cons.prems(1-4)] Cons.prems(5) by (auto simp: extends_def)
  qed
qed auto

lemma finish_node:
  assumes inv: "search_inv S col'" and i: "col' i = Gray" and js: "\<forall>j \<in> set (S i). col' j = Black"
  shows "search_inv S (col'(i := Black))"
proof -
  have reach: "(b, x) \<in> (edges S)\<^sup>* \<Longrightarrow> col' b = Black \<Longrightarrow> col' x = Black" for b x
    by (induction rule: rtrancl_induct) (use inv in \<open>auto simp: search_inv_def edges_def\<close>)
  have "(i, i) \<notin> (edges S)\<^sup>+"
  proof
    assume "(i, i) \<in> (edges S)\<^sup>+"
    then obtain j where "(i, j) \<in> edges S" "(j, i) \<in> (edges S)\<^sup>*" by (meson tranclD)
    then have "col' i = Black" using reach js by (auto simp: edges_def)
    with i show False by simp
  qed
  then show ?thesis using inv js by (auto simp: search_inv_def)
qed

lemma has_cycle_ok:
  assumes n: "\<forall>i \<in> N. \<forall>j \<in> set (S i). j \<in> N" and fin: "finite N"
  shows "visit_ok S N k (has_cycle k S)"
proof (induction k)
  case 0
  then show ?case using fin by (auto simp: visit_ok_def whites_def)
next
  case (Suc k)
  show ?case
    unfolding visit_ok_def
  proof (intro allI impI)
    fix col i
    assume i: "i \<in> N" "col i = White" and inv: "search_inv S col" and k: "card (whites N col) \<le> Suc k"
      and gray: "\<forall>g. col g = Gray \<longrightarrow> (g, i) \<in> (edges S)\<^sup>*"
    let ?c = "col(i := Gray)"
    have inv': "search_inv S ?c" using inv i(2) by (fastforce simp: search_inv_def)
    have "\<exists>found col'. check_causes (has_cycle k S) ?c (S i) = Some (found, col') \<and> (found \<longrightarrow> (\<exists>x. (x, x) \<in> (edges S)\<^sup>+)) \<and>
        (\<not> found \<longrightarrow> search_inv S col' \<and> extends ?c col' \<and> (\<forall>j \<in> set (S i). col' j = Black))"
      using whites_gray [OF fin, of i col] i k gray n fin by (intro check_causes_ok [OF Suc]) (auto intro: inv')
    then obtain found col' where r: "check_causes (has_cycle k S) ?c (S i) = Some (found, col')"
      and t: "found \<longrightarrow> (\<exists>x. (x, x) \<in> (edges S)\<^sup>+)"
      and f: "\<not> found \<longrightarrow> search_inv S col' \<and> extends ?c col' \<and> (\<forall>j \<in> set (S i). col' j = Black)"
      by blast
    show "\<exists>found col'. has_cycle (Suc k) S col i = Some (found, col') \<and> (found \<longrightarrow> (\<exists>x. (x, x) \<in> (edges S)\<^sup>+)) \<and>
        (\<not> found \<longrightarrow> search_inv S col' \<and> col' i = Black \<and> extends (col(i := Black)) col')"
    proof (cases found)
      case True
      then show ?thesis using r t by auto
    next
      case False
      then have "col' i = Gray" "search_inv S (col'(i := Black))"
        using f finish_node [of S col' i] by (auto simp: extends_def)
      then show ?thesis using r False f by (auto simp: extends_def)
    qed
  qed
qed

definition settled :: "('a \<Rightarrow> 'a list) \<Rightarrow> ('a \<Rightarrow> color) \<Rightarrow> bool" where
  "settled S col \<longleftrightarrow> search_inv S col \<and> (\<forall>x. col x \<noteq> Gray)"

lemma search_step_ok:
  assumes "settled S col" and "i \<in> N" and fin: "finite N" and n: "\<forall>i \<in> N. \<forall>j \<in> set (S i). j \<in> N" and fuel: "card N \<le> fuel"
  shows "(\<exists>col'. search_step e fuel S col i = Inr col' \<and> settled S col' \<and> col' i = Black \<and> extends col col') \<or>
    (search_step e fuel S col i = Inl e \<and> (\<exists>x. (x, x) \<in> (edges S)\<^sup>+))"
proof (cases "col i")
  case White
  have "visit_ok S N fuel (has_cycle fuel S)" by (rule has_cycle_ok [OF n fin])
  moreover have "card (whites N col) \<le> fuel"
    using card_mono [OF fin, of "whites N col"] fuel by (auto simp: whites_def)
  ultimately obtain found col' where "has_cycle fuel S col i = Some (found, col')" "found \<longrightarrow> (\<exists>x. (x, x) \<in> (edges S)\<^sup>+)"
    "\<not> found \<longrightarrow> search_inv S col' \<and> col' i = Black \<and> extends (col(i := Black)) col'"
    using assms(1,2) White unfolding visit_ok_def settled_def by blast
  then show ?thesis
    using White assms(1) by (cases found) (auto simp: search_step_def settled_def extends_def split: if_splits)
qed (use assms in \<open>auto simp: search_step_def settled_def\<close>)

lemma search_steps_ok:
  assumes "settled S col" and "set is \<subseteq> N" and fin: "finite N" and n: "\<forall>i \<in> N. \<forall>j \<in> set (S i). j \<in> N" and fuel: "card N \<le> fuel"
  shows "(\<exists>col'. rfold (search_step e fuel S) col is = Inr col' \<and> settled S col' \<and>
      (\<forall>i \<in> set is. col' i = Black) \<and> extends col col') \<or>
    (rfold (search_step e fuel S) col is = Inl e \<and> (\<exists>x. (x, x) \<in> (edges S)\<^sup>+))"
  using assms(1,2)
proof (induction "is" arbitrary: col)
  case (Cons i "is")
  have "i \<in> N" using Cons.prems(2) by simp
  from search_step_ok [OF Cons.prems(1) this fin n fuel, of e] consider
    (more) col' where "search_step e fuel S col i = Inr col'" "settled S col'" "col' i = Black" "extends col col'"
    | (cycle) "search_step e fuel S col i = Inl e" "\<exists>x. (x, x) \<in> (edges S)\<^sup>+"
    by blast
  then show ?case
  proof cases
    case more
    from Cons.IH [OF more(2)] Cons.prems(2) more show ?thesis by (auto simp: extends_def)
  qed simp
qed simp

text \<open>
  Started from every node that has successors, with fuel for all nodes, the search decides whether there is
  a cycle.
\<close>

lemma search_iff:
  assumes fin: "finite N" and range: "\<And>i. set (S i) \<subseteq> N" and fuel: "card N \<le> fuel" and roots: "set is \<subseteq> N"
    and cover: "\<And>x. x \<in> N \<Longrightarrow> S x \<noteq> [] \<Longrightarrow> x \<in> set is"
  shows "rbind (rfold (search_step e fuel S) (\<lambda>_. White) is) (\<lambda>_. Inr ()) = (if acyclic (edges S) then Inr () else Inl e)"
proof -
  have "settled S (\<lambda>_. White)" by (simp add: settled_def search_inv_def)
  from search_steps_ok [OF this roots fin _ fuel, of e] range consider
    (ok) col where "rfold (search_step e fuel S) (\<lambda>_. White) is = Inr col" "settled S col" "\<forall>i \<in> set is. col i = Black"
    | (cycle) "rfold (search_step e fuel S) (\<lambda>_. White) is = Inl e" "\<exists>x. (x, x) \<in> (edges S)\<^sup>+"
    by blast
  then show ?thesis
  proof cases
    case ok
    have False if x: "(x, x) \<in> (edges S)\<^sup>+" for x
    proof -
      obtain y z where "(y, x) \<in> edges S" "(x, z) \<in> edges S" using x by (meson tranclD tranclD2)
      then have "x \<in> N" "S x \<noteq> []" using range by (auto simp: edges_def)
      then show False using cover ok x by (auto simp: settled_def search_inv_def)
    qed
    then show ?thesis using ok(1) by (auto simp: acyclic_def)
  next
    case cycle
    then show ?thesis by (auto simp: acyclic_def)
  qed
qed

end
