(* ===== verification/Graph.thy ===== *)
theory Graph
  imports CborMaps Dfs
begin

text \<open>
  The causal graph (\<^verbatim>\<open>impl/python/naalp/graph.py\<close>): the check that no present cause is later than its effect
  and that the graph has no cycle, by a three-colour depth-first search, and the deterministic merge
  \<^verbatim>\<open>reconcile\<close>, which \<^verbatim>\<open>federation.py\<close> repeats. The search is the one of theory \<open>Dfs\<close>, with one unit of fuel per
  node.
\<close>

section \<open>The causal check\<close>

type_synonym node = "bytes \<times> bytes list \<times> int"

abbreviation node_id :: "node \<Rightarrow> bytes" where "node_id n \<equiv> fst n"
abbreviation node_causes :: "node \<Rightarrow> bytes list" where "node_causes n \<equiv> fst (snd n)"
abbreviation node_pos :: "node \<Rightarrow> int" where "node_pos n \<equiv> snd (snd n)"

text \<open>The dictionary from ids to indices: a later node with the same id replaces an earlier one.\<close>

definition positions :: "'a list \<Rightarrow> 'a \<Rightarrow> nat option" where
  "positions xs c = map_of (rev (zip xs [0..<length xs])) c"

definition idx :: "node list \<Rightarrow> bytes \<Rightarrow> nat option" where
  "idx nodes c = positions (map node_id nodes) c"

definition cause_indices :: "node list \<Rightarrow> nat \<Rightarrow> nat list" where
  "cause_indices nodes i = List.map_filter (idx nodes) (node_causes (nodes ! i))"

definition has_future_cause :: "node list \<Rightarrow> bool" where
  "has_future_cause nodes \<longleftrightarrow>
     list_ex (\<lambda>n. list_ex (\<lambda>c. case idx nodes c of None \<Rightarrow> False | Some j \<Rightarrow> node_pos (nodes ! j) > node_pos n)
       (node_causes n)) nodes"

definition verify_causal :: "node list \<Rightarrow> unit res" where
  "verify_causal nodes =
     (if has_future_cause nodes then Inl CausalViolation
      else rbind (rfold (search_step CausalViolation (length nodes) (cause_indices nodes)) (\<lambda>_. White) [0..<length nodes])
        (\<lambda>_. Inr ()))"

section \<open>The deterministic merge\<close>

record kahn =
  done_flags :: "bool list"
  indeg :: "int list"
  order :: "bytes list"

text \<open>The ready node with the smallest id; among equal ids the first.\<close>

definition pick_step :: "bytes list \<Rightarrow> kahn \<Rightarrow> nat option \<Rightarrow> nat \<Rightarrow> nat option" where
  "pick_step ids s pick i =
     (if done_flags s ! i \<or> indeg s ! i \<noteq> 0 then pick
      else (case pick of None \<Rightarrow> Some i | Some p \<Rightarrow> if ids ! i < ids ! p then Some i else pick))"

definition pick_ready :: "bytes list \<Rightarrow> kahn \<Rightarrow> nat option" where
  "pick_ready ids s = foldl (pick_step ids s) None [0..<length ids]"

definition take_node :: "bytes list \<Rightarrow> bytes list list \<Rightarrow> kahn \<Rightarrow> nat \<Rightarrow> kahn" where
  "take_node ids causes s p =
     (let flags = (done_flags s)[p := True] in
      \<lparr>done_flags = flags,
       indeg = map (\<lambda>j. if \<not> flags ! j \<and> ids ! p \<in> set (causes ! j) then indeg s ! j - 1 else indeg s ! j) [0..<length ids],
       order = order s @ [ids ! p]\<rparr>)"

function kahn_loop :: "bytes list \<Rightarrow> bytes list list \<Rightarrow> kahn \<Rightarrow> bytes list res" where
  "kahn_loop ids causes s =
     (if length (order s) < length ids then
        (case pick_ready ids s of
           None \<Rightarrow> Inl CausalViolation
         | Some p \<Rightarrow> kahn_loop ids causes (take_node ids causes s p))
      else Inr (order s))"
  by pat_completeness auto
termination
  by (relation "measure (\<lambda>(ids, causes, s). length ids - length (order s))") (auto simp: take_node_def Let_def)

declare kahn_loop.simps [simp del]

definition linearize :: "bytes list \<Rightarrow> bytes list list \<Rightarrow> bytes list res" where
  "linearize ids all_causes =
     (let causes = map (filter (\<lambda>c. c \<in> set ids)) all_causes in
      kahn_loop ids causes
        \<lparr>done_flags = replicate (length ids) False, indeg = map (\<lambda>cs. int (length cs)) causes, order = []\<rparr>)"

definition reconcile :: "node list \<Rightarrow> bytes list res" where
  "reconcile nodes = rbind (verify_causal nodes) (\<lambda>_. linearize (map node_id nodes) (map node_causes nodes))"

definition reconcile_record :: "pystr list \<Rightarrow> bytes list \<Rightarrow> bytes res" where
  "reconcile_record authorities ord = encode (M [(U 1, A (map T authorities)), (U 2, A (map B ord))])"

lemma positions_distinct:
  assumes "distinct xs"
  shows "positions xs c = Some j \<longleftrightarrow> j < length xs \<and> xs ! j = c"
proof -
  let ?z = "zip xs [0..<length xs]"
  have "distinct (map fst (rev ?z))" using assms by (simp add: rev_map [symmetric])
  then have "positions xs c = Some j \<longleftrightarrow> (c, j) \<in> set ?z" unfolding positions_def by (subst map_of_eq_Some_iff) auto
  also have "\<dots> \<longleftrightarrow> j < length xs \<and> xs ! j = c"
    by (auto simp: in_set_zip intro!: exI [of _ j])
  finally show ?thesis .
qed

section \<open>The check\<close>

lemma idx_less: "idx nodes c = Some j \<Longrightarrow> j < length nodes"
  by (auto simp: idx_def positions_def dest!: map_of_SomeD in_set_zipE)

lemma cause_indices_less: "j \<in> set (cause_indices nodes i) \<Longrightarrow> j < length nodes"
  by (auto simp: cause_indices_def map_filter_def dest: idx_less)

text \<open>The causal edges between the nodes of the list, from effect to cause.\<close>

definition causal_edges :: "node list \<Rightarrow> (nat \<times> nat) set" where
  "causal_edges nodes = {(i, j). i < length nodes \<and> j \<in> set (cause_indices nodes i)}"

lemma causal_edges_less: "(i, j) \<in> causal_edges nodes \<Longrightarrow> i < length nodes \<and> j < length nodes"
  by (auto simp: causal_edges_def dest: cause_indices_less)

lemma trancl_causal_edges:
  "(x, y) \<in> (edges (cause_indices nodes))\<^sup>+ \<Longrightarrow> x < length nodes \<Longrightarrow> (x, y) \<in> (causal_edges nodes)\<^sup>+ \<and> y < length nodes"
proof (induction rule: trancl_induct)
  case (base y)
  then show ?case by (auto simp: causal_edges_def edges_def dest: cause_indices_less)
next
  case (step y z)
  then have "(y, z) \<in> causal_edges nodes" by (auto simp: causal_edges_def edges_def)
  with step show ?case by (auto simp: edges_def intro: trancl_into_trancl dest: cause_indices_less)
qed

lemma cycle_iff: "(\<exists>x. (x, x) \<in> (edges (cause_indices nodes))\<^sup>+) \<longleftrightarrow> \<not> acyclic (causal_edges nodes)"
proof
  assume "\<exists>x. (x, x) \<in> (edges (cause_indices nodes))\<^sup>+"
  then obtain x where x: "(x, x) \<in> (edges (cause_indices nodes))\<^sup>+" by blast
  then obtain y where "(y, x) \<in> edges (cause_indices nodes)" by (meson tranclD2)
  then have "x < length nodes" by (auto simp: edges_def dest: cause_indices_less)
  then show "\<not> acyclic (causal_edges nodes)" using trancl_causal_edges [OF x] by (auto simp: acyclic_def)
next
  assume "\<not> acyclic (causal_edges nodes)"
  moreover have "causal_edges nodes \<subseteq> edges (cause_indices nodes)" by (auto simp: causal_edges_def edges_def)
  ultimately show "\<exists>x. (x, x) \<in> (edges (cause_indices nodes))\<^sup>+" by (auto simp: acyclic_def dest: trancl_mono)
qed

lemma verify_causal_iff:
  "verify_causal nodes =
     (if has_future_cause nodes \<or> \<not> acyclic (causal_edges nodes) then Inl CausalViolation else Inr ())"
proof -
  have "acyclic (edges (cause_indices nodes)) \<longleftrightarrow> acyclic (causal_edges nodes)"
    using cycle_iff [of nodes] by (auto simp: acyclic_def)
  moreover have "rbind (rfold (search_step CausalViolation (length nodes) (cause_indices nodes)) (\<lambda>_. White) [0..<length nodes])
      (\<lambda>_. Inr ()) = (if acyclic (edges (cause_indices nodes)) then Inr () else Inl CausalViolation)"
    by (rule search_iff [of "{..<length nodes}"]) (auto dest: cause_indices_less)
  ultimately show ?thesis by (simp add: verify_causal_def)
qed

end
