(* ===== verification/Toposort.thy ===== *)
theory Toposort
  imports Prelude "HOL-Library.Product_Lexorder"
begin

text \<open>
  Deterministic topological sorting. The specification \<open>lin\<close> repeatedly takes the least item, under a key,
  all of whose remaining causes were taken. The locale \<open>kahn_sort\<close> is the contract of a loop that does so by
  Kahn's algorithm on a state of its own: what picking and taking a ready item must do to the state. It gives
  that the loop ends, never gets stuck on an acyclic relation, and computes the specification. The merge of
  \<^verbatim>\<open>graph.py\<close> and \<^verbatim>\<open>federation.py\<close>, the order of \<^verbatim>\<open>audit.py\<close> and the schedule of a plan are its instances.
\<close>

section \<open>The specification\<close>

fun lin :: "('a \<Rightarrow> 'k::linorder) \<Rightarrow> ('a \<Rightarrow> 'a set) \<Rightarrow> 'a set \<Rightarrow> 'a list \<Rightarrow> bool" where
  "lin key C R [] \<longleftrightarrow> R = {}"
| "lin key C R (x # xs) \<longleftrightarrow>
     x \<in> R \<and> C x \<inter> R = {} \<and> (\<forall>y \<in> R. C y \<inter> R = {} \<longrightarrow> key x \<le> key y) \<and> lin key C (R - {x}) xs"

lemma lin_unique: "inj_on key R \<Longrightarrow> lin key C R xs \<Longrightarrow> lin key C R ys \<Longrightarrow> xs = ys"
proof (induction xs arbitrary: R ys)
  case (Cons x xs)
  then obtain y ys' where y: "ys = y # ys'" by (cases ys) auto
  have "key x = key y" using Cons.prems by (auto simp: y intro: antisym)
  then have "x = y" using Cons.prems by (auto simp: y dest: inj_onD)
  then show ?case using Cons.prems Cons.IH [of "R - {x}" ys'] by (auto simp: y intro: inj_on_diff)
qed (case_tac ys, auto)

lemma lin_cong: "(\<And>x. x \<in> R \<Longrightarrow> C x = D x) \<Longrightarrow> lin key C R xs \<longleftrightarrow> lin key D R xs"
proof (induction xs arbitrary: R)
  case (Cons x xs)
  have "lin key C (R - {x}) xs \<longleftrightarrow> lin key D (R - {x}) xs" by (rule Cons.IH) (simp add: Cons.prems)
  then show ?case using Cons.prems by auto
qed simp

lemma lin_set: "lin key C R xs \<Longrightarrow> set xs = R \<and> distinct xs"
  by (induction xs arbitrary: R) fastforce+

lemma lin_before:
  "lin key C R xs \<Longrightarrow> i < length xs \<Longrightarrow> j < length xs \<Longrightarrow> xs ! j \<in> C (xs ! i) \<Longrightarrow> j < i"
proof (induction xs arbitrary: R i j)
  case (Cons x xs)
  have set: "set xs = R - {x}" using lin_set [of key C "R - {x}" xs] Cons.prems(1) by auto
  show ?case
  proof (cases i)
    case 0
    have "(x # xs) ! j \<in> R" using Cons.prems(1,3) set by (cases j) auto
    then show ?thesis using Cons.prems(1,4) 0 by auto
  next
    case (Suc i')
    then show ?thesis using Cons by (cases j) auto
  qed
qed simp

text \<open>Whatever was ready when an item was taken has no smaller key.\<close>

lemma lin_tiebreak:
  "lin key C R xs \<Longrightarrow> i \<le> j \<Longrightarrow> j < length xs \<Longrightarrow> C (xs ! j) \<inter> R \<subseteq> set (take i xs) \<Longrightarrow> key (xs ! i) \<le> key (xs ! j)"
proof (induction xs arbitrary: R i j)
  case (Cons x xs)
  have set: "set xs = R - {x}" using lin_set [of key C "R - {x}" xs] Cons.prems(1) by auto
  show ?case
  proof (cases i)
    case 0
    have "(x # xs) ! j \<in> R" using Cons.prems(1,3) set by (cases j) auto
    then show ?thesis using Cons.prems(1,4) 0 by simp
  next
    case (Suc i')
    then obtain j' where j: "j = Suc j'" "i' \<le> j'" using Cons.prems(2) by (cases j) auto
    have "C (xs ! j') \<inter> (R - {x}) \<subseteq> set (take i' xs)" using Cons.prems(4) Suc j by auto
    then show ?thesis using Cons.IH [of "R - {x}" i' j'] Cons.prems(1,3) Suc j by simp
  qed
qed simp

lemma lin_exists:
  assumes "finite R" and "acyclic {(x, c). x \<in> R \<and> c \<in> C x \<inter> R}" and "R \<noteq> {}"
  shows "\<exists>x \<in> R. C x \<inter> R = {}"
proof -
  let ?E = "{(x, c). x \<in> R \<and> c \<in> C x \<inter> R}"
  have "finite ?E" by (rule finite_subset [of _ "R \<times> R"]) (use assms(1) in auto)
  then have "wf (?E\<inverse>)" using assms(2) by (simp add: finite_acyclic_wf_converse)
  moreover obtain r where "r \<in> R" using assms(3) by blast
  ultimately obtain x where "x \<in> R" and "\<And>y. (y, x) \<in> ?E\<inverse> \<Longrightarrow> y \<notin> R"
    by (rule wfE_min) blast
  then show ?thesis by blast
qed

text \<open>A linearised relation has no cycle.\<close>

lemma lin_acyclic:
  assumes "lin key C R xs"
  shows "acyclic {(x, c). x \<in> R \<and> c \<in> C x \<inter> R}"
proof -
  have s: "set xs = R" "distinct xs" using lin_set [OF assms] by simp_all
  define pos where "pos x = (THE i. i < length xs \<and> xs ! i = x)" for x
  have pos: "pos (xs ! i) = i" if "i < length xs" for i
    unfolding pos_def by (rule the_equality) (use s(2) that nth_eq_iff_index_eq in blast)+
  have "pos c < pos x" if "x \<in> R" "c \<in> C x \<inter> R" for x c
  proof -
    have "x \<in> set xs" "c \<in> set xs" using that s(1) by auto
    then obtain i j where ij: "i < length xs" "x = xs ! i" "j < length xs" "c = xs ! j" by (auto simp: in_set_conv_nth)
    then have "j < i" using lin_before [OF assms, of i j] that(2) by simp
    then show ?thesis using ij pos by simp
  qed
  then have "{(x, c). x \<in> R \<and> c \<in> C x \<inter> R} \<subseteq> (measure pos)\<inverse>" by auto
  then show ?thesis by (meson acyclic_converse acyclic_subset wf_acyclic wf_measure)
qed

section \<open>Scanning for the least ready index\<close>

lemma scan_least:
  fixes key :: "nat \<Rightarrow> 'k::linorder"
  assumes step: "\<And>p i. f p i = (if \<not> R i then p else (case p of None \<Rightarrow> Some i | Some j \<Rightarrow> if key i < key j then Some i else p))"
    and "sorted_wrt (<) is" and "\<forall>j. p = Some j \<longrightarrow> (\<forall>i \<in> set is. j < i)" and "foldl f p is = q"
  shows "(q = None \<longleftrightarrow> p = None \<and> (\<forall>i \<in> set is. \<not> R i)) \<and>
    (\<forall>k. q = Some k \<longrightarrow> (p = Some k \<or> k \<in> set is \<and> R k) \<and>
       (\<forall>i \<in> set is. R i \<longrightarrow> (key k, k) \<le> (key i, i)) \<and> (\<forall>j. p = Some j \<longrightarrow> (key k, k) \<le> (key j, j)))"
  using assms(2-4)
proof (induction "is" arbitrary: p)
  case (Cons i "is")
  have r: "foldl f (f p i) is = q" using Cons.prems by simp
  have "\<forall>j. f p i = Some j \<longrightarrow> (\<forall>i \<in> set is. j < i)" using Cons.prems by (auto simp: step split: option.splits if_splits)
  note IH = Cons.IH [OF _ this r]
  show ?case
  proof (cases "R i")
    case False
    with IH Cons.prems(1) show ?thesis by (auto simp: step)
  next
    case True
    show ?thesis
    proof (cases p)
      case None
      then show ?thesis using IH Cons.prems(1) True by (auto simp: step)
    next
      case (Some j)
      then have ji: "j < i" using Cons.prems(2) by simp
      show ?thesis
      proof (cases "key i < key j")
        case True
        then have "(key i, i) \<le> (key j, j)" by simp
        then show ?thesis using IH Cons.prems(1) \<open>R i\<close> Some True by (auto simp: step simp del: less_eq_prod_simp intro: order.trans)
      next
        case False
        then have "(key j, j) \<le> (key i, i)" using ji by auto
        then show ?thesis using IH Cons.prems(1) \<open>R i\<close> Some False by (auto simp: step simp del: less_eq_prod_simp intro: order.trans)
      qed
    qed
  qed
qed auto

section \<open>The contract of the loop\<close>

text \<open>
  \<open>rel s os\<close>: the state \<open>s\<close> is one in which exactly the items \<open>os\<close> were taken, in that order; \<open>out os\<close> is what
  the loop returns when all were.
\<close>

locale kahn_sort =
  fixes items :: "'a set"
    and key :: "'a \<Rightarrow> 'k::linorder"
    and C :: "'a \<Rightarrow> 'a set"
    and rel :: "'s \<Rightarrow> 'a list \<Rightarrow> bool"
    and item :: "'p \<Rightarrow> 'a"
    and pick :: "'s \<Rightarrow> 'p option"
    and take_item :: "'s \<Rightarrow> 'p \<Rightarrow> 's"
    and out :: "'a list \<Rightarrow> 'r"
    and loop :: "'s \<Rightarrow> exn + 'r"
  assumes finite_items: "finite items"
    and rel_taken: "rel s os \<Longrightarrow> distinct os \<and> set os \<subseteq> items"
    and pick_None: "rel s os \<Longrightarrow> pick s = None \<Longrightarrow> x \<in> items - set os \<Longrightarrow> C x \<inter> (items - set os) \<noteq> {}"
    and pick_Some: "rel s os \<Longrightarrow> pick s = Some p \<Longrightarrow> item p \<in> items - set os \<and> C (item p) \<inter> (items - set os) = {}"
    and pick_least: "rel s os \<Longrightarrow> pick s = Some p \<Longrightarrow> y \<in> items - set os \<Longrightarrow> C y \<inter> (items - set os) = {} \<Longrightarrow> key (item p) \<le> key y"
    and take_item: "rel s os \<Longrightarrow> pick s = Some p \<Longrightarrow> rel (take_item s p) (os @ [item p])"
    and loop: "rel s os \<Longrightarrow> loop s =
      (if length os < card items then (case pick s of None \<Rightarrow> Inl CausalViolation | Some p \<Rightarrow> loop (take_item s p)) else Inr (out os))"
begin

lemma loop_lin:
  assumes acyc: "acyclic {(x, c). x \<in> items \<and> c \<in> C x \<inter> items}" and "rel s os"
  shows "\<exists>ys. loop s = Inr (out (os @ ys)) \<and> lin key C (items - set os) ys"
  using assms(2)
proof (induction "card items - length os" arbitrary: s os rule: less_induct)
  case less
  let ?R = "items - set os"
  have len: "length os = card (set os)" and sub: "set os \<subseteq> items"
    using rel_taken [OF less.prems] by (simp_all add: distinct_card)
  show ?case
  proof (cases "length os < card items")
    case True
    then have "?R \<noteq> {}" using len sub by auto
    moreover have "acyclic {(x, c). x \<in> ?R \<and> c \<in> C x \<inter> ?R}" by (rule acyclic_subset [OF acyc]) auto
    ultimately obtain x where x: "x \<in> ?R" "C x \<inter> ?R = {}" using lin_exists [of ?R C] finite_items by auto
    then obtain p where p: "pick s = Some p" using pick_None [OF less.prems _ x(1)] by blast
    have "card items - length (os @ [item p]) < card items - length os" using True by simp
    from less.hyps [OF this take_item [OF less.prems p]]
    obtain ys where ys: "loop (take_item s p) = Inr (out ((os @ [item p]) @ ys))"
      and l: "lin key C (items - set (os @ [item p])) ys" by blast
    have "items - set (os @ [item p]) = ?R - {item p}" by auto
    then have "lin key C ?R (item p # ys)"
      using l pick_Some [OF less.prems p] pick_least [OF less.prems p] by simp
    moreover have "loop s = Inr (out (os @ item p # ys))" using True p ys by (subst loop [OF less.prems]) simp
    ultimately show ?thesis by blast
  next
    case False
    then have "?R = {}" using len sub finite_items card_seteq [of items "set os"] by auto
    then show ?thesis using False by (subst loop [OF less.prems]) (auto intro!: exI [of _ "[]"])
  qed
qed

text \<open>On any relation the loop ends, with the specification or with its error.\<close>

lemma loop_cases:
  assumes "rel s os"
  shows "(\<exists>ys. loop s = Inr (out (os @ ys)) \<and> lin key C (items - set os) ys) \<or> loop s = Inl CausalViolation"
  using assms
proof (induction "card items - length os" arbitrary: s os rule: less_induct)
  case less
  let ?R = "items - set os"
  have len: "length os = card (set os)" and sub: "set os \<subseteq> items"
    using rel_taken [OF less.prems] by (simp_all add: distinct_card)
  show ?case
  proof (cases "length os < card items")
    case False
    then have "?R = {}" using len sub finite_items card_seteq [of items "set os"] by auto
    then show ?thesis using False by (subst loop [OF less.prems]) (auto intro!: exI [of _ "[]"])
  next
    case True
    show ?thesis
    proof (cases "pick s")
      case None
      then show ?thesis using True by (simp add: loop [OF less.prems])
    next
      case (Some p)
      then have l: "loop s = loop (take_item s p)" using True by (simp add: loop [OF less.prems])
      have R: "items - set (os @ [item p]) = ?R - {item p}" by auto
      have "lin key C ?R (item p # ys)" if "lin key C (?R - {item p}) ys" for ys
        using that pick_Some [OF less.prems Some] pick_least [OF less.prems Some] by simp
      note ext = this
      have "card items - length (os @ [item p]) < card items - length os" using True by simp
      from less.hyps [OF this take_item [OF less.prems Some], unfolded R]
      show ?thesis unfolding l
      proof
        assume "\<exists>ys. loop (take_item s p) = Inr (out ((os @ [item p]) @ ys)) \<and> lin key C (?R - {item p}) ys"
        then obtain ys where ys: "loop (take_item s p) = Inr (out (os @ (item p # ys)))" "lin key C (?R - {item p}) ys" by auto
        from ys(1) ext [OF ys(2)]
        show "(\<exists>ys. loop (take_item s p) = Inr (out (os @ ys)) \<and> lin key C ?R ys) \<or> loop (take_item s p) = Inl CausalViolation"
          by blast
      qed (rule disjI2)
    qed
  qed
qed

end

end
