(* ===== verification/Reconcile.thy ===== *)
theory Reconcile
  imports Graph Toposort "HOL-Library.Multiset"
begin

text \<open>
  Correctness of the deterministic merge of \<^verbatim>\<open>graph.py\<close>. Its specification is \<open>lin\<close> with the content id as key:
  repeatedly take the smallest id all of whose present causes were taken. The loop with its counters implements it
  when no id and no cause is repeated, so the result depends on the set of objects only, not on how they
  were split or listed.
\<close>

section \<open>The loop implements it\<close>

definition ready :: "kahn \<Rightarrow> nat \<Rightarrow> bool" where
  "ready s i \<longleftrightarrow> \<not> done_flags s ! i \<and> indeg s ! i = 0"

lemma pick_ready_scan:
  "(pick_ready ids s = None \<longleftrightarrow> (\<forall>i < length ids. \<not> ready s i)) \<and>
   (\<forall>p. pick_ready ids s = Some p \<longrightarrow> p < length ids \<and> ready s p \<and> (\<forall>i < length ids. ready s i \<longrightarrow> ids ! p \<le> ids ! i))"
proof -
  have "pick_step ids s p i = (if \<not> ready s i then p else (case p of None \<Rightarrow> Some i | Some j \<Rightarrow> if ids ! i < ids ! j then Some i else p))"
    for p i by (auto simp: pick_step_def ready_def)
  from scan_least [of "pick_step ids s" "ready s" "\<lambda>i. ids ! i", OF this sorted_wrt_upt _ refl, of None 0 "length ids"]
  show ?thesis by (fastforce simp: pick_ready_def)
qed

lemmas pick_ready_None = pick_ready_scan [THEN conjunct1]
lemmas pick_ready_Some = pick_ready_scan [THEN conjunct2, rule_format]

text \<open>The counters count the causes not yet taken.\<close>

definition kahn_inv :: "bytes list \<Rightarrow> bytes list list \<Rightarrow> kahn \<Rightarrow> bool" where
  "kahn_inv ids causes s \<longleftrightarrow> length (done_flags s) = length ids \<and> length (indeg s) = length ids \<and>
     distinct (order s) \<and> set (order s) \<subseteq> set ids \<and>
     (\<forall>i < length ids. done_flags s ! i \<longleftrightarrow> ids ! i \<in> set (order s)) \<and>
     (\<forall>i < length ids. \<not> done_flags s ! i \<longrightarrow> indeg s ! i = int (card (set (causes ! i) - set (order s))))"

lemma take_node_inv:
  assumes inv: "kahn_inv ids causes s" and p: "p < length ids" "ready s p" and d: "distinct ids"
  shows "kahn_inv ids causes (take_node ids causes s p)"
proof -
  have len: "length (done_flags s) = length ids" using inv by (simp add: kahn_inv_def)
  let ?o = "order s @ [ids ! p]" and ?f = "(done_flags s)[p := True]"
  have new: "ids ! p \<notin> set (order s)" using inv p by (auto simp: kahn_inv_def ready_def)
  have flags: "?f ! i \<longleftrightarrow> ids ! i \<in> set ?o" if "i < length ids" for i
  proof (cases "i = p")
    case True
    then show ?thesis using inv p by (simp add: kahn_inv_def)
  next
    case False
    then have "ids ! i \<noteq> ids ! p" using d p(1) that by (simp add: nth_eq_iff_index_eq)
    then show ?thesis using inv that False by (simp add: kahn_inv_def)
  qed
  have cnt: "indeg (take_node ids causes s p) ! i = int (card (set (causes ! i) - set ?o))"
    if i: "i < length ids" "\<not> ?f ! i" for i
  proof -
    have "\<not> done_flags s ! i" using i(2) len p(1) by (auto simp: nth_list_update split: if_splits)
    then have i': "indeg s ! i = int (card (set (causes ! i) - set (order s)))"
      using inv i(1) by (simp add: kahn_inv_def)
    have "set (causes ! i) - set ?o = (set (causes ! i) - set (order s)) - {ids ! p}" by auto
    moreover have "card (set (causes ! i) - set (order s) - {ids ! p}) + 1 = card (set (causes ! i) - set (order s))"
      if "ids ! p \<in> set (causes ! i)"
      using card.remove [of "set (causes ! i) - set (order s)" "ids ! p"] that new by simp
    ultimately show ?thesis using i' i by (cases "ids ! p \<in> set (causes ! i)") (auto simp: take_node_def Let_def)
  qed
  have "done_flags (take_node ids causes s p) = ?f" "order (take_node ids causes s p) = ?o"
    "length (indeg (take_node ids causes s p)) = length ids" by (simp_all add: take_node_def Let_def)
  then show ?thesis
    using inv new p(1) flags cnt unfolding kahn_inv_def by simp
qed

lemma ready_iff:
  assumes inv: "kahn_inv ids causes s" and C: "C (ids ! i) \<inter> set ids = set (causes ! i)" and i: "i < length ids"
  shows "ready s i \<longleftrightarrow> ids ! i \<in> set ids - set (order s) \<and> C (ids ! i) \<inter> (set ids - set (order s)) = {}"
proof -
  have "C (ids ! i) \<inter> (set ids - set (order s)) = set (causes ! i) - set (order s)" using C by auto
  then show ?thesis using inv i by (auto simp: kahn_inv_def ready_def card_eq_0_iff)
qed

definition merge_state :: "bytes list \<Rightarrow> bytes list list \<Rightarrow> (bytes \<Rightarrow> bytes set) \<Rightarrow> kahn \<Rightarrow> bytes list \<Rightarrow> bool" where
  "merge_state ids causes C s os \<longleftrightarrow> kahn_inv ids causes s \<and> os = order s \<and> distinct ids \<and>
     (\<forall>i < length ids. C (ids ! i) \<inter> set ids = set (causes ! i))"

lemma merge_ready:
  "merge_state ids causes C s os \<Longrightarrow> i < length ids \<Longrightarrow>
     ready s i \<longleftrightarrow> ids ! i \<in> set ids - set os \<and> C (ids ! i) \<inter> (set ids - set os) = {}"
  using ready_iff [of ids causes s C i] by (auto simp: merge_state_def)

interpretation merge: kahn_sort "set ids" "\<lambda>x. x" C "merge_state ids causes C" "\<lambda>p. ids ! p" "pick_ready ids"
    "take_node ids causes" "\<lambda>os. os" "kahn_loop ids causes" for ids causes C
proof unfold_locales
  fix s os p x y
  assume st: "merge_state ids causes C s os"
  show "distinct os \<and> set os \<subseteq> set ids" using st by (simp add: merge_state_def kahn_inv_def)
  show "kahn_loop ids causes s = (if length os < card (set ids)
      then (case pick_ready ids s of None \<Rightarrow> Inl CausalViolation | Some p \<Rightarrow> kahn_loop ids causes (take_node ids causes s p))
      else Inr os)"
    using st by (subst kahn_loop.simps) (simp add: merge_state_def distinct_card)
  show "C x \<inter> (set ids - set os) \<noteq> {}" if "pick_ready ids s = None" "x \<in> set ids - set os"
    using that merge_ready [OF st] pick_ready_None [of ids s] by (auto simp: in_set_conv_nth)
  assume p: "pick_ready ids s = Some p"
  note sel = pick_ready_Some [OF p]
  show "ids ! p \<in> set ids - set os \<and> C (ids ! p) \<inter> (set ids - set os) = {}" using sel merge_ready [OF st] by blast
  show "ids ! p \<le> y" if "y \<in> set ids - set os" "C y \<inter> (set ids - set os) = {}"
    using that sel merge_ready [OF st] by (auto simp: in_set_conv_nth)
  show "merge_state ids causes C (take_node ids causes s p) (os @ [ids ! p])"
    using st sel take_node_inv by (auto simp: merge_state_def take_node_def Let_def)
qed simp

definition causes_of :: "node list \<Rightarrow> bytes \<Rightarrow> bytes set" where
  "causes_of nodes x = (\<Union>n \<in> {n \<in> set nodes. node_id n = x}. set (node_causes n))"

definition id_edges :: "node list \<Rightarrow> (bytes \<times> bytes) set" where
  "id_edges nodes = {(x, c). x \<in> node_id ` set nodes \<and> c \<in> causes_of nodes x \<inter> node_id ` set nodes}"

lemma causes_of_node: "distinct (map node_id nodes) \<Longrightarrow> n \<in> set nodes \<Longrightarrow> causes_of nodes (node_id n) = set (node_causes n)"
proof -
  assume "distinct (map node_id nodes)" "n \<in> set nodes"
  then have "{m \<in> set nodes. node_id m = node_id n} = {n}" using distinct_map inj_on_eq_iff [of node_id "set nodes" _ n] by blast
  then show ?thesis by (simp add: causes_of_def)
qed

lemma linearize_lin:
  assumes d: "distinct (map node_id nodes)" and dc: "\<forall>n \<in> set nodes. distinct (node_causes n)" and acyc: "acyclic (id_edges nodes)"
  shows "\<exists>ys. linearize (map node_id nodes) (map node_causes nodes) = Inr ys \<and>
    lin (\<lambda>x. x) (causes_of nodes) (node_id ` set nodes) ys"
proof -
  let ?ids = "map node_id nodes" and ?cs = "map (filter (\<lambda>c. c \<in> set (map node_id nodes))) (map node_causes nodes)"
  let ?s = "\<lparr>done_flags = replicate (length ?ids) False, indeg = map (\<lambda>cs. int (length cs)) ?cs, order = []\<rparr>"
  have "kahn_inv ?ids ?cs ?s"
    using dc unfolding kahn_inv_def by (auto simp: distinct_card [symmetric] simp del: set_filter)
  moreover have "causes_of nodes (?ids ! i) \<inter> set ?ids = set (?cs ! i)" if "i < length nodes" for i
    using causes_of_node [OF d, of "nodes ! i"] that by auto
  ultimately have "merge_state ?ids ?cs (causes_of nodes) ?s []" using d by (simp add: merge_state_def)
  then show ?thesis
    using merge.loop_lin [of ?ids "causes_of nodes" ?cs ?s "[]"] acyc
    by (simp add: linearize_def id_edges_def)
qed

section \<open>The check over ids\<close>

lemma idx_distinct:
  assumes "distinct (map node_id nodes)"
  shows "idx nodes c = Some j \<longleftrightarrow> j < length nodes \<and> node_id (nodes ! j) = c"
  using positions_distinct [OF assms] by (auto simp: idx_def)

lemma has_future_cause_distinct:
  assumes "distinct (map node_id nodes)"
  shows "has_future_cause nodes \<longleftrightarrow>
    (\<exists>n \<in> set nodes. \<exists>m \<in> set nodes. node_id m \<in> set (node_causes n) \<and> node_pos m > node_pos n)"
proof -
  have "(case idx nodes c of None \<Rightarrow> False | Some j \<Rightarrow> node_pos (nodes ! j) > p) \<longleftrightarrow>
      (\<exists>m \<in> set nodes. node_id m = c \<and> node_pos m > p)" for c p
  proof (cases "idx nodes c")
    case None
    then have "node_id m \<noteq> c" if "m \<in> set nodes" for m
      using idx_distinct [OF assms, of c] that by (metis in_set_conv_nth option.distinct(1))
    then show ?thesis using None by auto
  next
    case (Some j)
    then have j: "j < length nodes" "node_id (nodes ! j) = c" using idx_distinct [OF assms] by auto
    have "m = nodes ! j" if "m \<in> set nodes" "node_id m = c" for m
      using idx_distinct [OF assms, of c] that Some by (metis in_set_conv_nth option.inject)
    then show ?thesis using Some j nth_mem [OF j(1)] by (metis option.simps(5))
  qed
  then show ?thesis unfolding has_future_cause_def list_ex_iff by metis
qed

lemma causal_edges_distinct:
  assumes "distinct (map node_id nodes)"
  shows "(i, j) \<in> causal_edges nodes \<longleftrightarrow> i < length nodes \<and> j < length nodes \<and> (node_id (nodes ! i), node_id (nodes ! j)) \<in> id_edges nodes"
proof -
  have "j \<in> set (cause_indices nodes i) \<longleftrightarrow> j < length nodes \<and> node_id (nodes ! j) \<in> set (node_causes (nodes ! i))"
    unfolding cause_indices_def map_filter_def using idx_distinct [OF assms]
    by (auto simp: image_iff) (metis option.sel)+
  then show ?thesis using causes_of_node [OF assms, of "nodes ! i"] by (auto simp: causal_edges_def id_edges_def)
qed

lemma acyclic_distinct:
  assumes d: "distinct (map node_id nodes)"
  shows "acyclic (causal_edges nodes) \<longleftrightarrow> acyclic (id_edges nodes)"
proof -
  let ?f = "\<lambda>i. node_id (nodes ! i)"
  have up: "(i, j) \<in> (causal_edges nodes)\<^sup>+ \<Longrightarrow> (?f i, ?f j) \<in> (id_edges nodes)\<^sup>+" for i j
    by (induction rule: trancl_induct) (auto simp: causal_edges_distinct [OF d] intro: trancl_into_trancl)
  have ex: "\<exists>j < length nodes. y = ?f j" if "(x, y) \<in> id_edges nodes" for x y
  proof -
    have "y \<in> node_id ` set nodes" using that by (simp add: id_edges_def)
    then obtain m where "m \<in> set nodes" "y = node_id m" by blast
    then show ?thesis by (metis in_set_conv_nth)
  qed
  have down: "(x, y) \<in> (id_edges nodes)\<^sup>+ \<Longrightarrow> x = ?f i \<Longrightarrow> i < length nodes \<Longrightarrow>
      \<exists>j < length nodes. y = ?f j \<and> (i, j) \<in> (causal_edges nodes)\<^sup>+" for x y i
  proof (induction rule: trancl_induct)
    case (base y)
    then show ?case using ex causal_edges_distinct [OF d] by blast
  next
    case (step y z)
    then obtain j k where "j < length nodes" "y = ?f j" "(i, j) \<in> (causal_edges nodes)\<^sup>+" "k < length nodes" "z = ?f k"
      using ex by blast
    with step.hyps(2) show ?case using causal_edges_distinct [OF d] by (blast intro: trancl_into_trancl)
  qed
  have inj: "?f i = ?f j \<longleftrightarrow> i = j" if "i < length nodes" "j < length nodes" for i j
    using nth_eq_iff_index_eq [OF d, of i j] that by simp
  have "\<exists>i < length nodes. x = ?f i" if "(x, x) \<in> (id_edges nodes)\<^sup>+" for x
    using that ex by (meson tranclD2)
  then show ?thesis unfolding acyclic_def using up down inj by metis
qed

definition causally_ordered :: "node list \<Rightarrow> bool" where
  "causally_ordered nodes \<longleftrightarrow>
     (\<forall>n \<in> set nodes. \<forall>m \<in> set nodes. node_id m \<in> set (node_causes n) \<longrightarrow> node_pos m \<le> node_pos n) \<and> acyclic (id_edges nodes)"

lemma verify_causal_distinct:
  assumes "distinct (map node_id nodes)"
  shows "verify_causal nodes = (if causally_ordered nodes then Inr () else Inl CausalViolation)"
  unfolding verify_causal_iff causally_ordered_def has_future_cause_distinct [OF assms] acyclic_distinct [OF assms]
  by (auto simp: not_le)

text \<open>The merge computes the specification.\<close>

lemma reconcile_lin:
  assumes "distinct (map node_id nodes)" and "\<forall>n \<in> set nodes. distinct (node_causes n)" and "causally_ordered nodes"
  shows "\<exists>ys. reconcile nodes = Inr ys \<and> lin (\<lambda>x. x) (causes_of nodes) (node_id ` set nodes) ys"
  using linearize_lin [OF assms(1,2)] assms(3)
  by (simp add: reconcile_def verify_causal_distinct [OF assms(1)]) (simp add: causally_ordered_def)

lemma causally_ordered_set: "set nodes = set nodes' \<Longrightarrow> causally_ordered nodes = causally_ordered nodes'"
  by (simp add: causally_ordered_def id_edges_def causes_of_def)

lemma reconcile_perm:
  assumes "mset nodes = mset nodes'" and "distinct (map node_id nodes)" and "\<forall>n \<in> set nodes. distinct (node_causes n)"
  shows "reconcile nodes = reconcile nodes'"
proof -
  have s: "set nodes = set nodes'" and d: "distinct (map node_id nodes')"
    using assms mset_eq_setD mset_eq_imp_distinct_iff [of "map node_id nodes" "map node_id nodes'"] by (auto simp: mset_map)
  show ?thesis
  proof (cases "causally_ordered nodes")
    case True
    have "causes_of nodes = causes_of nodes'" using s by (auto simp: causes_of_def fun_eq_iff)
    then show ?thesis
      using reconcile_lin [OF assms(2,3) True] reconcile_lin [OF d, folded s, OF assms(3)] True
        causally_ordered_set [OF s] by (auto dest: lin_unique [rotated])
  next
    case False
    then show ?thesis
      using verify_causal_distinct assms(2) d causally_ordered_set [OF s] by (simp add: reconcile_def)
  qed
qed

section \<open>Properties\<close>

text \<open>On nodes with distinct ids the causal check accepts exactly the graphs in which no present cause has a later position
  than its effect and no chain of causes returns to its start; every other graph is a CausalViolation. The
  search therefore never runs out of its fuel.\<close>

theorem verify_causal_exact:
  assumes "distinct (map node_id nodes)"
  shows "verify_causal nodes = (if causally_ordered nodes then Inr () else Inl CausalViolation)"
  by (rule verify_causal_distinct [OF assms])

definition diamond :: "node list" where
  "diamond = [([4], [[2], [3]], 3), ([2], [[1]], 1), ([3], [[1], [9]], 1), ([1], [], 0)]"

lemma diamond_wf: "distinct (map node_id diamond)" "\<forall>n \<in> set diamond. distinct (node_causes n)"
  by (simp_all add: diamond_def)

lemma diamond_verifies: "verify_causal diamond = Inr ()"
  by code_simp

lemma diamond_ordered: "causally_ordered diamond"
  using diamond_verifies verify_causal_distinct [OF diamond_wf(1)] by (auto split: if_splits)

theorem verify_causal_exact_witness:
  "verify_causal diamond = Inr () \<and> causally_ordered diamond"
  using verify_causal_exact [OF diamond_wf(1)] diamond_verifies by (auto split: if_splits)

text \<open>C4: Over a valid causal graph whose ids, and whose cause lists, are free of repetitions, the merge succeeds and its
  result is a total order of exactly the given objects in which every present cause stands before its effect.\<close>

theorem reconcile_total_order:
  assumes "distinct (map node_id nodes)" and "\<forall>n \<in> set nodes. distinct (node_causes n)" and "causally_ordered nodes"
  shows "\<exists>ys. reconcile nodes = Inr ys \<and> distinct ys \<and> set ys = node_id ` set nodes \<and>
    (\<forall>n \<in> set nodes. \<forall>i j. i < length ys \<and> j < length ys \<and> ys ! i = node_id n \<and> ys ! j \<in> set (node_causes n) \<longrightarrow> j < i)"
proof -
  obtain ys where r: "reconcile nodes = Inr ys" and l: "lin (\<lambda>x. x) (causes_of nodes) (node_id ` set nodes) ys"
    using reconcile_lin [OF assms] by blast
  have "j < i" if "n \<in> set nodes" "i < length ys" "j < length ys" "ys ! i = node_id n" "ys ! j \<in> set (node_causes n)" for n i j
    using lin_before [OF l that(2,3)] causes_of_node [OF assms(1) that(1)] that by simp
  then show ?thesis using r lin_set [OF l] by auto
qed

theorem reconcile_total_order_witness: "\<exists>ys. reconcile diamond = Inr ys \<and> set ys = {[1], [2], [3], [4]}"
  using reconcile_total_order [OF diamond_wf diamond_ordered] by (auto simp: diamond_def)

text \<open>The merged order depends only on the objects: any two listings of the same nodes, however they were split between
  authorities, reconcile to the same order or both fail with CausalViolation.\<close>

theorem reconcile_split_independent:
  assumes "mset nodes = mset nodes'" and "distinct (map node_id nodes)" and "\<forall>n \<in> set nodes. distinct (node_causes n)"
  shows "reconcile nodes = reconcile nodes'"
  by (rule reconcile_perm [OF assms])

theorem reconcile_split_independent_witness: "reconcile diamond = reconcile (rev diamond)"
  by (rule reconcile_split_independent [OF _ diamond_wf]) simp

text \<open>A node that names the same present cause twice passes the causal check, but its counter never reaches zero and the
  merge fails with the error its comment calls unreachable.\<close>

theorem reconcile_repeated_cause:
  "verify_causal [([1], [], 0), ([2], [[1], [1]], 0)] = Inr () \<and>
   reconcile [([1], [], 0), ([2], [[1], [1]], 0)] = Inl CausalViolation"
  by code_simp

end
