(* ===== verification/Federation.thy ===== *)
theory Federation
  imports Reconcile Cose
begin

text \<open>
  The federated ordering tier (\<^verbatim>\<open>impl/python/naalp/federation.py\<close>): the merge of several authorities' objects,
  the check that an order respects causality, the signed Reconcile record and the verification of the order it
  claims. The linearization loop is the one of \<^verbatim>\<open>graph.py\<close>, which the module repeats line by line, on nodes
  without a position.
\<close>

record federation_node =
  fn_id :: bytes
  fn_causes :: "bytes list"

abbreviation graph_node :: "federation_node \<Rightarrow> node" where
  "graph_node n \<equiv> (fn_id n, fn_causes n, 0)"

definition federation_reconcile :: "federation_node list \<Rightarrow> bytes list res" where
  "federation_reconcile nodes =
     rbind (verify_causal (map graph_node nodes)) (\<lambda>_. linearize (map fn_id nodes) (map fn_causes nodes))"

definition causally_valid :: "bytes list \<Rightarrow> federation_node list \<Rightarrow> bool" where
  "causally_valid ord nodes \<longleftrightarrow>
     list_all (\<lambda>n. case positions ord (fn_id n) of
         None \<Rightarrow> True
       | Some np \<Rightarrow> list_all (\<lambda>c. case positions ord c of None \<Rightarrow> True | Some cp \<Rightarrow> cp \<le> np) (fn_causes n)) nodes"

record reconcile_record_t =
  authorities :: "pystr list"
  claimed_order :: "bytes list"

definition reconcile_record_bytes :: "reconcile_record_t \<Rightarrow> bytes res" where
  "reconcile_record_bytes r =
     encode (M [(U 1, A (map T (authorities r))), (U 2, A (map B (claimed_order r)))])"

definition sign_reconcile :: "prims \<Rightarrow> reconcile_record_t \<Rightarrow> int \<Rightarrow> bytes \<Rightarrow> bytes res" where
  "sign_reconcile P r alg seed = rbind (reconcile_record_bytes r) (mldsa_sign P alg seed)"

definition verify_reconcile :: "prims \<Rightarrow> reconcile_record_t \<Rightarrow> int \<Rightarrow> bytes \<Rightarrow> bytes \<Rightarrow> bool res" where
  "verify_reconcile P r alg pubkey sig = rbind (reconcile_record_bytes r) (\<lambda>m. mldsa_verify P alg pubkey m sig)"

definition verify_reconcile_order :: "reconcile_record_t \<Rightarrow> federation_node list \<Rightarrow> unit res" where
  "verify_reconcile_order r nodes =
     rbind (federation_reconcile nodes) (\<lambda>recomputed.
       if length recomputed \<noteq> length (claimed_order r) then Inl ReconcileMismatch
       else if list_ex (\<lambda>(got, want). got \<noteq> want) (zip recomputed (claimed_order r)) then Inl ReconcileMismatch
       else Inr ())"

section \<open>The merge\<close>

lemma federation_reconcile_eq: "federation_reconcile nodes = reconcile (map graph_node nodes)"
  by (simp add: federation_reconcile_def reconcile_def comp_def)

text \<open>A federated scope: no object listed twice, no cause named twice, no cycle among the causes.\<close>

definition scope_ok :: "federation_node list \<Rightarrow> bool" where
  "scope_ok nodes \<longleftrightarrow> distinct (map fn_id nodes) \<and> (\<forall>n \<in> set nodes. distinct (fn_causes n)) \<and>
     acyclic (id_edges (map graph_node nodes))"

lemma scope_okD:
  assumes "scope_ok nodes"
  shows "distinct (map node_id (map graph_node nodes))" and "\<forall>n \<in> set (map graph_node nodes). distinct (node_causes n)"
    and "causally_ordered (map graph_node nodes)"
  using assms by (auto simp: scope_ok_def causally_ordered_def comp_def)

lemma verify_reconcile_order_eq:
  "verify_reconcile_order r nodes =
     rbind (federation_reconcile nodes) (\<lambda>ys. if claimed_order r = ys then Inr () else Inl ReconcileMismatch)"
proof -
  have "list_ex (\<lambda>(got, want). got \<noteq> want) (zip xs ys) \<longleftrightarrow> xs \<noteq> ys" if "length xs = length ys" for xs ys :: "bytes list"
    using that by (induction xs ys rule: list_induct2) auto
  then show ?thesis
    by (cases "federation_reconcile nodes") (auto simp: verify_reconcile_order_def)
qed

lemma lin_causally_valid:
  assumes l: "lin (\<lambda>x. x) (causes_of (map graph_node nodes)) R ys" and d: "distinct (map fn_id nodes)"
  shows "causally_valid ys nodes"
proof -
  have dy: "distinct ys" using lin_set [OF l] by simp
  have "cp \<le> np" if "n \<in> set nodes" "positions ys (fn_id n) = Some np" "c \<in> set (fn_causes n)" "positions ys c = Some cp" for n np c cp
  proof -
    have "c \<in> causes_of (map graph_node nodes) (fn_id n)"
      using causes_of_node [of "map graph_node nodes" "graph_node n"] d that(1,3) by (simp add: comp_def)
    then show ?thesis
      using that positions_distinct [OF dy] lin_before [OF l, of np cp] by simp
  qed
  then show ?thesis by (auto simp: causally_valid_def list_all_iff split: option.splits)
qed

lemma reconcile_record_bytes_inject:
  assumes "reconcile_record_bytes a = Inr m" and "reconcile_record_bytes b = Inr m"
  shows "a = b"
proof -
  let ?v = "\<lambda>r. M [(U 1, A (map T (authorities r))), (U 2, A (map B (claimed_order r)))]"
  have c: "canon (?v r) = ?v r" for r
    by (rule canon_asc) (auto simp: asc_keys_def small_key_def key_int_def)
  have n: "nesting (?v r) \<le> UNBOUNDED_DEPTH" for r
  proof -
    have "nesting (A (map T xs)) \<le> 2" "nesting (A (map B ys)) \<le> 2" for xs ys
      by (subst nesting_A_le; simp)+
    then have "nesting (?v r) \<le> 3" unfolding nesting_M_le by (simp add: eval_nat_numeral del: nesting.simps(1))
    then show ?thesis by (simp add: UNBOUNDED_DEPTH_def)
  qed
  have "?v a = ?v b"
    by (rule encode_canonical_inject [OF _ _ c c n n])
      (use assms in \<open>simp_all only: reconcile_record_bytes_def\<close>)
  then have "map T (authorities a) = map T (authorities b)" "map B (claimed_order a) = map B (claimed_order b)" by simp_all
  then show ?thesis by (cases a; cases b) (simp add: inj_map_eq_map inj_def)
qed

text \<open>The signature over a Reconcile record binds it, and the signed bytes are those \<^verbatim>\<open>graph.reconcile_record\<close> writes.\<close>

lemma sign_reconcile_verifies:
  assumes "md_correct P" and "md_key_derive P alg seed = Inr (pk, sk)" and "sign_reconcile P r alg seed = Inr sig"
  shows "verify_reconcile P r alg pk sig = Inr True"
  using assms mldsa_verifies [OF assms(1) _ assms(2)]
  by (auto simp: sign_reconcile_def verify_reconcile_def rbind_eq_Inr)

lemma reconcile_record_bytes_eq: "reconcile_record_bytes r = reconcile_record (authorities r) (claimed_order r)"
  by (simp add: reconcile_record_bytes_def reconcile_record_def)

section \<open>Properties\<close>

text \<open>Federated ordering. Over a valid scope the merge yields one total order of exactly its objects that respects every
  cause, and a verifier who holds the same objects, listed in any other way, accepts a Reconcile record
  precisely when the order it claims is that order; any other claim is a ReconcileMismatch.\<close>

theorem federated_order_exact:
  assumes "scope_ok nodes" and "mset nodes' = mset nodes"
  shows "\<exists>ys. federation_reconcile nodes = Inr ys \<and> distinct ys \<and> set ys = fn_id ` set nodes \<and> causally_valid ys nodes \<and>
    (\<forall>r. verify_reconcile_order r nodes' = (if claimed_order r = ys then Inr () else Inl ReconcileMismatch))"
proof -
  note ok = scope_okD [OF assms(1)]
  obtain ys where r: "federation_reconcile nodes = Inr ys"
    and l: "lin (\<lambda>x. x) (causes_of (map graph_node nodes)) (node_id ` set (map graph_node nodes)) ys"
    using reconcile_lin [OF ok] by (auto simp: federation_reconcile_eq)
  have "mset (map graph_node nodes) = mset (map graph_node nodes')" using assms(2) by simp
  from reconcile_perm [OF this ok(1,2)] have "federation_reconcile nodes' = Inr ys"
    using r by (simp add: federation_reconcile_eq)
  moreover have "causally_valid ys nodes"
    using lin_causally_valid [OF l] assms(1) by (simp add: scope_ok_def)
  ultimately show ?thesis using r lin_set [OF l] by (auto simp: verify_reconcile_order_eq image_image)
qed

definition sample_scope :: "federation_node list" where
  "sample_scope = [\<lparr>fn_id = [2], fn_causes = [[3]]\<rparr>, \<lparr>fn_id = [1], fn_causes = [[3], [9]]\<rparr>, \<lparr>fn_id = [3], fn_causes = []\<rparr>]"

lemma sample_scope_ok: "scope_ok sample_scope"
proof -
  have "verify_causal (map graph_node sample_scope) = Inr ()"
    by code_simp
  moreover have d: "distinct (map node_id (map graph_node sample_scope))" by (simp add: sample_scope_def)
  ultimately have "causally_ordered (map graph_node sample_scope)"
    using verify_causal_distinct [OF d] by (auto split: if_splits)
  then show ?thesis by (simp add: scope_ok_def causally_ordered_def sample_scope_def)
qed

theorem federated_order_exact_witness:
  "\<exists>ys. federation_reconcile sample_scope = Inr ys \<and>
     verify_reconcile_order \<lparr>authorities = [], claimed_order = ys\<rparr> (rev sample_scope) = Inr ()"
  using federated_order_exact [OF sample_scope_ok, of "rev sample_scope"] by auto

end
