(* ===== verification/Chain.thy ===== *)
theory Chain
  imports Prelude
begin

text \<open>
  Hash chains: entries that each carry the digest of the entry before them. The consume ledger, the audit
  trail and the room registry are chains of this kind. The locale assumes only that an entry's body
  determines it and contains the digest it follows, and shows that a chain is tamper-evident: the
  genesis and the final head determine every entry, unless the digest function collides on the bodies
  in question.
\<close>

locale hash_chain =
  fixes H :: "bytes \<Rightarrow> bytes"
    and body :: "'e \<Rightarrow> exn + bytes"
    and prev :: "'e \<Rightarrow> bytes"
  assumes body_inject: "body a = Inr m \<Longrightarrow> body b = Inr m \<Longrightarrow> a = b"
begin

text \<open>\<open>chained g es h\<close>: the entries lead from head \<open>g\<close> to head \<open>h\<close>.\<close>

fun chained :: "bytes \<Rightarrow> 'e list \<Rightarrow> bytes \<Rightarrow> bool" where
  "chained g [] h \<longleftrightarrow> h = g"
| "chained g (e # es) h \<longleftrightarrow> prev e = g \<and> (\<exists>m. body e = Inr m \<and> chained (H m) es h)"

lemma chained_append: "chained g (es @ fs) h \<longleftrightarrow> (\<exists>k. chained g es k \<and> chained k fs h)"
  by (induction es arbitrary: g) auto

lemma chained_snoc: "chained g (es @ [e]) h \<longleftrightarrow> chained g es (prev e) \<and> (\<exists>m. body e = Inr m \<and> h = H m)"
  by (auto simp: chained_append)

lemma chained_functional: "chained g es h \<Longrightarrow> chained g es h' \<Longrightarrow> h = h'"
  by (induction es arbitrary: g) auto

definition bodies :: "'e list \<Rightarrow> bytes set" where
  "bodies es = {m. \<exists>e \<in> set es. body e = Inr m}"

lemma bodies_snoc: "bodies (es @ [e]) = bodies es \<union> {m. body e = Inr m}"
  by (auto simp: bodies_def)

text \<open>The head fixes the whole history of a given length.\<close>

lemma chain_determined:
  assumes "chained g es h" and "chained g fs h" and "length es = length fs"
    and "inj_on H (bodies es \<union> bodies fs)"
  shows "es = fs"
  using assms
proof (induction es arbitrary: fs h rule: rev_induct)
  case (snoc e es)
  obtain f fs' where fs: "fs = fs' @ [f]" using snoc.prems(3) by (cases fs rule: rev_cases) auto
  obtain m n where m: "body e = Inr m" "h = H m" "chained g es (prev e)"
    and n: "body f = Inr n" "h = H n" "chained g fs' (prev f)"
    using snoc.prems(1,2) by (auto simp: fs chained_snoc)
  have "m \<in> bodies (es @ [e]) \<union> bodies fs" "n \<in> bodies (es @ [e]) \<union> bodies fs"
    using m(1) n(1) by (auto simp: fs bodies_snoc)
  then have "m = n" using m(2) n(2) inj_onD [OF snoc.prems(4)] by blast
  then have ef: "e = f" using body_inject m(1) n(1) by blast
  have "es = fs'"
  proof (rule snoc.IH)
    show "chained g es (prev e)" "chained g fs' (prev e)" using m n ef by auto
    show "length es = length fs'" using snoc.prems(3) fs by simp
    show "inj_on H (bodies es \<union> bodies fs')"
      by (rule inj_on_subset [OF snoc.prems(4)]) (auto simp: fs bodies_snoc)
  qed
  then show ?case by (simp add: fs ef)
qed simp

text \<open>
  Without fixing the lengths: if the genesis head is no digest of a body in play (the SDK starts from
  48 zero octets), the head alone determines the history.
\<close>

lemma chain_determined_genesis:
  assumes "chained g es h" and "chained g fs h" and "inj_on H (bodies es \<union> bodies fs)"
    and "g \<notin> H ` (bodies es \<union> bodies fs)"
  shows "es = fs"
  using assms
proof (induction es arbitrary: fs h rule: rev_induct)
  case Nil
  then show ?case by (cases fs rule: rev_cases) (auto simp: chained_snoc bodies_snoc)
next
  case (snoc e es)
  obtain m where m: "body e = Inr m" "h = H m" "chained g es (prev e)"
    using snoc.prems(1) by (auto simp: chained_snoc)
  have "fs \<noteq> []" using snoc.prems(2,4) m by (auto simp: bodies_snoc)
  then obtain f fs' where fs: "fs = fs' @ [f]" by (cases fs rule: rev_cases) auto
  obtain n where n: "body f = Inr n" "h = H n" "chained g fs' (prev f)"
    using snoc.prems(2) by (auto simp: fs chained_snoc)
  have "m \<in> bodies (es @ [e]) \<union> bodies fs" "n \<in> bodies (es @ [e]) \<union> bodies fs"
    using m(1) n(1) by (auto simp: fs bodies_snoc)
  then have "m = n" using m(2) n(2) inj_onD [OF snoc.prems(3)] by blast
  then have ef: "e = f" using body_inject m(1) n(1) by blast
  have "es = fs'"
  proof (rule snoc.IH)
    show "chained g es (prev e)" "chained g fs' (prev e)" using m n ef by auto
    show "inj_on H (bodies es \<union> bodies fs')"
      by (rule inj_on_subset [OF snoc.prems(3)]) (auto simp: fs bodies_snoc)
    show "g \<notin> H ` (bodies es \<union> bodies fs')" using snoc.prems(4) by (auto simp: fs bodies_snoc)
  qed
  then show ?case by (simp add: fs ef)
qed

end

end
