(* ===== verification/AuditChain.thy ===== *)
theory AuditChain
  imports Cose Chain
begin

text \<open>
  The audit layer (\<^verbatim>\<open>impl/python/naalp/audit.py\<close>, first part): the hash-chained receipts an ordering authority
  signs, the offline check of a chain, and the auditor that turns two conflicting receipts into a fork
  proof. The causal order of the same module is in theory \<open>AuditOrder\<close>.
\<close>

section \<open>Receipts\<close>

definition RECEIPT_HEAD_SIZE :: nat where "RECEIPT_HEAD_SIZE = 48"

record receipt =
  rc_prev :: bytes
  rc_obj :: bytes
  rc_seq :: int
  rc_at :: int

definition receipt_bytes :: "receipt \<Rightarrow> bytes res" where
  "receipt_bytes r = encode (M [(U 1, B (rc_prev r)), (U 2, B (rc_obj r)), (U 3, U (rc_seq r)), (U 4, U (rc_at r))])"

definition head_after :: "prims \<Rightarrow> receipt \<Rightarrow> bytes res" where
  "head_after P r = rbind (receipt_bytes r) (\<lambda>b. Inr (sha384 P b))"

record ordering_authority =
  oa_alg :: int
  oa_seed :: bytes
  oa_head :: bytes
  oa_seq :: int

definition new_authority :: "int \<Rightarrow> bytes \<Rightarrow> ordering_authority" where
  "new_authority alg seed = \<lparr>oa_alg = alg, oa_seed = seed, oa_head = replicate RECEIPT_HEAD_SIZE 0, oa_seq = 0\<rparr>"

definition append_receipt :: "prims \<Rightarrow> ordering_authority \<Rightarrow> bytes \<Rightarrow> int \<Rightarrow> (ordering_authority \<times> receipt \<times> bytes) res" where
  "append_receipt P a ob at =
     (let r = \<lparr>rc_prev = oa_head a, rc_obj = ob, rc_seq = oa_seq a, rc_at = at\<rparr> in
      rbind (receipt_bytes r) (\<lambda>m.
        rbind (mldsa_sign P (oa_alg a) (oa_seed a) m) (\<lambda>sig.
          rbind (head_after P r) (\<lambda>h. Inr (a\<lparr>oa_head := h, oa_seq := oa_seq a + 1\<rparr>, r, sig)))))"

text \<open>The loop over the receipts, from index \<open>i\<close> and head \<open>h\<close>.\<close>

fun verify_receipts :: "prims \<Rightarrow> int \<Rightarrow> bytes \<Rightarrow> int \<Rightarrow> bytes \<Rightarrow> (receipt \<times> bytes) list \<Rightarrow> unit res" where
  "verify_receipts P alg pk i h [] = Inr ()"
| "verify_receipts P alg pk i h ((r, sig) # rest) =
     (if rc_seq r \<noteq> i \<or> rc_prev r \<noteq> h then Inl (AuditError ''ChainBroken'')
      else rbind (receipt_bytes r) (\<lambda>m.
        rbind (mldsa_verify P alg pk m sig) (\<lambda>ok.
          if \<not> ok then Inl (AuditError ''ReceiptUnsigned'')
          else rbind (head_after P r) (\<lambda>h'. verify_receipts P alg pk (i + 1) h' rest))))"

definition verify_chain :: "prims \<Rightarrow> receipt list \<Rightarrow> bytes list \<Rightarrow> int \<Rightarrow> bytes \<Rightarrow> unit res" where
  "verify_chain P receipts sigs alg pubkey =
     (if length receipts \<noteq> length sigs then Inl (AuditError ''ChainBroken'')
      else verify_receipts P alg pubkey 0 (replicate RECEIPT_HEAD_SIZE 0) (zip receipts sigs))"

definition consistent_with_anchor :: "int \<Rightarrow> int \<Rightarrow> bool" where
  "consistent_with_anchor created at \<longleftrightarrow> created \<le> at"

section \<open>Fork proofs\<close>

record fork_proof =
  fp_signer :: bytes
  fp_ext_counter :: int
  fp_a :: receipt
  fp_sig_a :: bytes
  fp_b :: receipt
  fp_sig_b :: bytes

definition fork_proof_bytes :: "fork_proof \<Rightarrow> bytes res" where
  "fork_proof_bytes f =
     rbind (receipt_bytes (fp_a f)) (\<lambda>ma. rbind (receipt_bytes (fp_b f)) (\<lambda>mb.
       encode (M [(U 1, B (fp_signer f)), (U 2, U (fp_ext_counter f)), (U 3, B ma), (U 4, B (fp_sig_a f)),
         (U 5, B mb), (U 6, B (fp_sig_b f))])))"

definition fork_proof_preimage :: "fork_proof \<Rightarrow> bytes res" where
  "fork_proof_preimage f =
     rbind (receipt_bytes (fp_a f)) (\<lambda>ma. rbind (receipt_bytes (fp_b f)) (\<lambda>mb.
       encode (M [(U 1, B (fp_signer f)), (U 2, U (fp_ext_counter f)), (U 3, B ma), (U 4, B []),
         (U 5, B mb), (U 6, B [])])))"

definition verify_fork_proof :: "prims \<Rightarrow> fork_proof \<Rightarrow> int \<Rightarrow> bytes \<Rightarrow> unit res" where
  "verify_fork_proof P f alg pubkey =
     (if fp_signer f = [] then Inl (AuditError ''ForkProofInvalid'')
      else if rc_seq (fp_a f) \<noteq> rc_seq (fp_b f) then Inl (AuditError ''ForkProofInvalid'')
      else if rc_obj (fp_a f) = rc_obj (fp_b f) then Inl (AuditError ''ForkProofInvalid'')
      else rbind (receipt_bytes (fp_a f)) (\<lambda>ma.
        rbind (mldsa_verify P alg pubkey ma (fp_sig_a f)) (\<lambda>oka.
          if \<not> oka then Inl (AuditError ''ReceiptUnsigned'')
          else rbind (receipt_bytes (fp_b f)) (\<lambda>mb.
            rbind (mldsa_verify P alg pubkey mb (fp_sig_b f)) (\<lambda>okb.
              if \<not> okb then Inl (AuditError ''ReceiptUnsigned'') else Inr ())))))"

definition new_fork_proof :: "bytes \<Rightarrow> receipt \<Rightarrow> bytes \<Rightarrow> receipt \<Rightarrow> bytes \<Rightarrow> int \<Rightarrow> fork_proof" where
  "new_fork_proof signer a sig_a b sig_b ext_counter =
     \<lparr>fp_signer = signer, fp_ext_counter = ext_counter, fp_a = a, fp_sig_a = sig_a, fp_b = b, fp_sig_b = sig_b\<rparr>"

record auditor =
  au_alg :: int
  au_pk :: bytes
  au_signer :: bytes
  au_ext :: int
  au_seen :: "int \<rightharpoonup> receipt \<times> bytes"

definition new_auditor :: "int \<Rightarrow> bytes \<Rightarrow> bytes \<Rightarrow> int \<Rightarrow> auditor" where
  "new_auditor alg pubkey signer ext_base =
     \<lparr>au_alg = alg, au_pk = pubkey, au_signer = signer, au_ext = ext_base, au_seen = Map.empty\<rparr>"

definition observe_receipt :: "prims \<Rightarrow> auditor \<Rightarrow> receipt \<Rightarrow> bytes \<Rightarrow> (auditor \<times> fork_proof option) res" where
  "observe_receipt P au r sig =
     rbind (receipt_bytes r) (\<lambda>m.
       rbind (mldsa_verify P (au_alg au) (au_pk au) m sig) (\<lambda>ok.
         if \<not> ok then Inl (AuditError ''ReceiptUnsigned'')
         else (case au_seen au (rc_seq r) of
             Some (prev_r, prev_sig) \<Rightarrow>
               if rc_obj prev_r \<noteq> rc_obj r
               then Inr (au\<lparr>au_ext := au_ext au + 1\<rparr>, Some (new_fork_proof (au_signer au) prev_r prev_sig r sig (au_ext au)))
               else Inr (au, None)
           | None \<Rightarrow> Inr (au\<lparr>au_seen := (au_seen au)(rc_seq r \<mapsto> (r, sig))\<rparr>, None))))"

section \<open>Receipt chains\<close>

lemma receipt_bytes_inject:
  assumes "receipt_bytes a = Inr m" and "receipt_bytes b = Inr m"
  shows "a = b"
proof -
  let ?v = "\<lambda>r. M [(U 1, B (rc_prev r)), (U 2, B (rc_obj r)), (U 3, U (rc_seq r)), (U 4, U (rc_at r))]"
  have "?v a = ?v b"
  proof (rule encode_canonical_inject)
    show "encode (?v a) = Inr m" "encode (?v b) = Inr m" using assms by (simp_all only: receipt_bytes_def)
    show "canon (?v a) = ?v a" "canon (?v b) = ?v b"
      by (rule canon_asc; auto simp: asc_keys_def small_key_def key_int_def)+
  qed simp_all
  then show ?thesis by (cases a; cases b) simp
qed

interpretation receipt_chain: hash_chain "sha384 P" receipt_bytes rc_prev for P :: prims
  by unfold_locales (rule receipt_bytes_inject)

definition receipt_signed :: "prims \<Rightarrow> int \<Rightarrow> bytes \<Rightarrow> receipt \<Rightarrow> bytes \<Rightarrow> bool" where
  "receipt_signed P alg pk r sig \<longleftrightarrow> (\<exists>m. receipt_bytes r = Inr m \<and> mldsa_verify P alg pk m sig = Inr True)"

lemma verify_receipts_iff:
  "verify_receipts P alg pk i h rs = Inr () \<longleftrightarrow>
     map (rc_seq \<circ> fst) rs = map (\<lambda>k. i + int k) [0..<length rs] \<and>
     (\<exists>h'. receipt_chain.chained P h (map fst rs) h') \<and> (\<forall>(r, sig) \<in> set rs. receipt_signed P alg pk r sig)"
proof (induction rs arbitrary: i h)
  case (Cons p rs)
  obtain r sig where p: "p = (r, sig)" by (cases p)
  have up: "map (\<lambda>k. i + int k) [0..<length ((r, sig) # rs)] = i # map (\<lambda>k. (i + 1) + int k) [0..<length rs]"
    by (simp add: map_upt_Suc del: upt_Suc)
  show ?case
    unfolding p unfolding up
    by (auto simp: res_simps Cons.IH receipt_signed_def head_after_def)
qed auto

lemma verify_chain_iff:
  "verify_chain P rs sigs alg pk = Inr () \<longleftrightarrow>
     length rs = length sigs \<and> map rc_seq rs = map int [0..<length rs] \<and>
     (\<exists>h. receipt_chain.chained P (replicate RECEIPT_HEAD_SIZE 0) rs h) \<and>
     (\<forall>(r, sig) \<in> set (zip rs sigs). receipt_signed P alg pk r sig)"
proof (cases "length rs = length sigs")
  case True
  then have "map (rc_seq \<circ> fst) (zip rs sigs) = map rc_seq rs" "map fst (zip rs sigs) = rs"
    by (simp_all flip: map_map)
  then show ?thesis using True by (simp add: verify_chain_def verify_receipts_iff)
qed (simp add: verify_chain_def)

fun append_receipts :: "prims \<Rightarrow> ordering_authority \<Rightarrow> (bytes \<times> int) list \<Rightarrow> (ordering_authority \<times> (receipt \<times> bytes) list) res" where
  "append_receipts P a [] = Inr (a, [])"
| "append_receipts P a ((ob, at) # rest) =
     rbind (append_receipt P a ob at) (\<lambda>(a', r, sig).
       rbind (append_receipts P a' rest) (\<lambda>(a'', rs). Inr (a'', (r, sig) # rs)))"

lemma append_receipts_verify:
  assumes "md_correct P" and "md_key_derive P (oa_alg a) (oa_seed a) = Inr (pk, sk)"
    and "append_receipts P a xs = Inr (a', rs)"
  shows "verify_receipts P (oa_alg a) pk (oa_seq a) (oa_head a) rs = Inr () \<and>
    map (\<lambda>(r, _). (rc_obj r, rc_at r)) rs = xs \<and> oa_seq a' = oa_seq a + int (length xs)"
  using assms(2,3)
proof (induction xs arbitrary: a rs)
  case (Cons x xs)
  obtain ob at where x: "x = (ob, at)" by (cases x)
  obtain b r sig rs' where a: "append_receipt P a ob at = Inr (b, r, sig)"
    and t: "append_receipts P b xs = Inr (a', rs')" and rs: "rs = (r, sig) # rs'"
    using Cons.prems(2) by (auto simp: x rbind_eq_Inr)
  obtain m where m: "receipt_bytes r = Inr m" "mldsa_sign P (oa_alg a) (oa_seed a) m = Inr sig"
    and r: "r = \<lparr>rc_prev = oa_head a, rc_obj = ob, rc_seq = oa_seq a, rc_at = at\<rparr>"
    and b: "b = a\<lparr>oa_head := sha384 P m, oa_seq := oa_seq a + 1\<rparr>"
    using a by (auto simp: append_receipt_def Let_def rbind_eq_Inr head_after_def)
  have "md_key_derive P (oa_alg b) (oa_seed b) = Inr (pk, sk)" using Cons.prems(1) b by simp
  note IH = Cons.IH [OF this t]
  have "mldsa_verify P (oa_alg a) pk m sig = Inr True" using mldsa_verifies [OF assms(1) m(2) Cons.prems(1)] .
  then show ?case using IH m r b by (simp add: rs x head_after_def)
qed auto

lemma append_receipts_obj: "append_receipts P a xs = Inr (a', rs) \<Longrightarrow> map (rc_obj \<circ> fst) rs = map fst xs"
  by (induction P a xs arbitrary: rs rule: append_receipts.induct)
    (auto simp: rbind_eq_Inr append_receipt_def Let_def head_after_def)

lemma append_receipts_snoc:
  "append_receipts P a (xs @ [(ob, at)]) =
     rbind (append_receipts P a xs) (\<lambda>(a', rs). rbind (append_receipt P a' ob at) (\<lambda>(a'', r, sig). Inr (a'', rs @ [(r, sig)])))"
proof (induction P a xs rule: append_receipts.induct)
  case (2 P a ob' at' rest)
  then show ?case
    by (cases "append_receipt P a ob' at'") (auto simp: rbind_assoc split_beta intro: rbind_cong)
next
  case (1 P a)
  show ?case by (cases "append_receipt P a ob at") auto
qed

section \<open>The auditor\<close>

text \<open>The auditor over a list of reported receipts; a refused report changes nothing.\<close>

fun observe_log :: "prims \<Rightarrow> auditor \<Rightarrow> (receipt \<times> bytes) list \<Rightarrow> auditor \<times> fork_proof option res list" where
  "observe_log P au [] = (au, [])"
| "observe_log P au ((r, sig) # rest) =
     (case observe_receipt P au r sig of
        Inl e \<Rightarrow> (let (au', outs) = observe_log P au rest in (au', Inl e # outs))
      | Inr (au1, fp) \<Rightarrow> (let (au', outs) = observe_log P au1 rest in (au', Inr fp # outs)))"

lemma verify_fork_proof_iff:
  "verify_fork_proof P f alg pk = Inr () \<longleftrightarrow>
     fp_signer f \<noteq> [] \<and> rc_seq (fp_a f) = rc_seq (fp_b f) \<and> rc_obj (fp_a f) \<noteq> rc_obj (fp_b f) \<and>
     receipt_signed P alg pk (fp_a f) (fp_sig_a f) \<and> receipt_signed P alg pk (fp_b f) (fp_sig_b f)"
  by (auto simp: verify_fork_proof_def receipt_signed_def res_simps)

lemma observe_receipt_Inr:
  "observe_receipt P au r sig = Inr (au', fp) \<longleftrightarrow>
     receipt_signed P (au_alg au) (au_pk au) r sig \<and>
     (case au_seen au (rc_seq r) of
        None \<Rightarrow> au' = au\<lparr>au_seen := (au_seen au)(rc_seq r \<mapsto> (r, sig))\<rparr> \<and> fp = None
      | Some (r0, sig0) \<Rightarrow>
          if rc_obj r0 = rc_obj r then au' = au \<and> fp = None
          else au' = au\<lparr>au_ext := au_ext au + 1\<rparr> \<and> fp = Some (new_fork_proof (au_signer au) r0 sig0 r sig (au_ext au)))"
  by (auto simp: observe_receipt_def receipt_signed_def rbind_eq_Inr split: option.splits)

lemma observe_log_append:
  "observe_log P au (xs @ ys) =
     (let (a, os) = observe_log P au xs; (b, os') = observe_log P a ys in (b, os @ os'))"
  by (induction P au xs rule: observe_log.induct) (auto simp: Let_def split: prod.splits sum.splits)

lemma length_observe_log [simp]: "length (snd (observe_log P au rs)) = length rs"
proof (induction rs arbitrary: au)
  case (Cons x rs)
  then show ?case by (cases x) (simp add: Let_def split_beta split: sum.split)
qed simp

definition auditor_at :: "prims \<Rightarrow> auditor \<Rightarrow> (receipt \<times> bytes) list \<Rightarrow> nat \<Rightarrow> auditor" where
  "auditor_at P au rs k = fst (observe_log P au (take k rs))"

lemma auditor_at_Suc:
  assumes "k < length rs"
  shows "auditor_at P au rs (Suc k) =
      (case observe_receipt P (auditor_at P au rs k) (fst (rs ! k)) (snd (rs ! k)) of Inl _ \<Rightarrow> auditor_at P au rs k | Inr (a, _) \<Rightarrow> a)"
    and "snd (observe_log P au rs) ! k =
      (case observe_receipt P (auditor_at P au rs k) (fst (rs ! k)) (snd (rs ! k)) of Inl e \<Rightarrow> Inl e | Inr (_, fp) \<Rightarrow> Inr fp)"
proof -
  obtain r sig where r: "rs ! k = (r, sig)" by fastforce
  have t: "take (Suc k) rs = take k rs @ [(r, sig)]" using assms r by (simp add: take_Suc_conv_app_nth)
  show "auditor_at P au rs (Suc k) =
      (case observe_receipt P (auditor_at P au rs k) (fst (rs ! k)) (snd (rs ! k)) of Inl _ \<Rightarrow> auditor_at P au rs k | Inr (a, _) \<Rightarrow> a)"
    by (simp add: auditor_at_def t r observe_log_append split: prod.splits sum.splits)
  have d: "rs = take k rs @ (r, sig) # drop (Suc k) rs" using assms r id_take_nth_drop by metis
  have "snd (observe_log P au rs) ! k = snd (observe_log P au (take k rs @ (r, sig) # drop (Suc k) rs)) ! k"
    using d by simp
  also have "\<dots> = (case observe_receipt P (auditor_at P au rs k) r sig of Inl e \<Rightarrow> Inl e | Inr (_, fp) \<Rightarrow> Inr fp)"
    using assms length_observe_log [of P au "take k rs"]
    by (simp add: auditor_at_def observe_log_append nth_append Let_def split_beta split: sum.split)
  finally show "snd (observe_log P au rs) ! k =
      (case observe_receipt P (auditor_at P au rs k) (fst (rs ! k)) (snd (rs ! k)) of Inl e \<Rightarrow> Inl e | Inr (_, fp) \<Rightarrow> Inr fp)"
    by (simp add: r)
qed

lemma find_snoc: "find Q (xs @ [x]) = (case find Q xs of None \<Rightarrow> if Q x then Some x else None | Some y \<Rightarrow> Some y)"
  by (induction xs) auto

lemma find_SomeD: "find Q xs = Some x \<Longrightarrow> x \<in> set xs \<and> Q x"
  by (induction xs) (auto split: if_splits)

lemma find_append_None: "find Q xs = None \<Longrightarrow> find Q (xs @ ys) = find Q ys"
  by (induction xs) (auto split: if_splits)

lemma find_append_Some: "find Q xs = Some x \<Longrightarrow> find Q (xs @ ys) = Some x"
  by (induction xs) (auto split: if_splits)

text \<open>What an auditor remembers: for every position the first well-signed receipt reported there.\<close>

abbreviation first_seen :: "prims \<Rightarrow> int \<Rightarrow> bytes \<Rightarrow> (receipt \<times> bytes) list \<Rightarrow> int \<Rightarrow> (receipt \<times> bytes) option" where
  "first_seen P alg pk rs q \<equiv> find (\<lambda>(r, sig). receipt_signed P alg pk r sig \<and> rc_seq r = q) rs"

lemma auditor_at_inv:
  assumes "k \<le> length rs"
  shows "au_alg (auditor_at P (new_auditor alg pk signer ext) rs k) = alg \<and> au_pk (auditor_at P (new_auditor alg pk signer ext) rs k) = pk \<and>
    au_signer (auditor_at P (new_auditor alg pk signer ext) rs k) = signer \<and>
    au_seen (auditor_at P (new_auditor alg pk signer ext) rs k) = first_seen P alg pk (take k rs)"
  using assms
proof (induction k)
  case 0
  then show ?case by (simp add: auditor_at_def new_auditor_def)
next
  case (Suc k)
  let ?a = "auditor_at P (new_auditor alg pk signer ext) rs"
  obtain r sig where r: "rs ! k = (r, sig)" by fastforce
  have t: "take (Suc k) rs = take k rs @ [(r, sig)]" using Suc.prems r by (simp add: take_Suc_conv_app_nth)
  have IH: "au_alg (?a k) = alg" "au_pk (?a k) = pk" "au_signer (?a k) = signer" "au_seen (?a k) = first_seen P alg pk (take k rs)"
    using Suc by auto
  have st: "?a (Suc k) = (case observe_receipt P (?a k) r sig of Inl _ \<Rightarrow> ?a k | Inr (a, _) \<Rightarrow> a)"
    using auditor_at_Suc(1) [of k rs P] Suc.prems r by simp
  show ?case
  proof (cases "observe_receipt P (?a k) r sig")
    case (Inl e)
    then have "\<not> receipt_signed P alg pk r sig"
      using IH by (auto simp: observe_receipt_def receipt_signed_def split: option.splits if_splits)
    then have "first_seen P alg pk (take (Suc k) rs) = first_seen P alg pk (take k rs)"
      by (auto simp: t find_snoc fun_eq_iff split: option.splits)
    then show ?thesis using IH st Inl by simp
  next
    case (Inr x)
    obtain a fp where x: "x = (a, fp)" by (cases x)
    from Inr [unfolded x observe_receipt_Inr] show ?thesis
      using st Inr x IH by (auto simp: t find_snoc fun_eq_iff split: option.splits if_splits)
  qed
qed

lemma fork_at:
  assumes "k < length rs"
  shows "snd (observe_log P (new_auditor alg pk signer ext) rs) ! k = Inr (Some fp) \<longleftrightarrow>
    receipt_signed P alg pk (fst (rs ! k)) (snd (rs ! k)) \<and>
    (\<exists>r0 sig0. first_seen P alg pk (take k rs) (rc_seq (fst (rs ! k))) = Some (r0, sig0) \<and> rc_obj r0 \<noteq> rc_obj (fst (rs ! k)) \<and>
      fp = new_fork_proof signer r0 sig0 (fst (rs ! k)) (snd (rs ! k)) (au_ext (auditor_at P (new_auditor alg pk signer ext) rs k)))"
proof -
  let ?a = "auditor_at P (new_auditor alg pk signer ext) rs k"
  have "snd (observe_log P (new_auditor alg pk signer ext) rs) ! k = Inr (Some fp) \<longleftrightarrow>
      (\<exists>a. observe_receipt P ?a (fst (rs ! k)) (snd (rs ! k)) = Inr (a, Some fp))"
    using auditor_at_Suc(2) [OF assms, of P] by (auto split: sum.splits)
  then show ?thesis
    using auditor_at_inv [of k rs P alg pk signer ext] assms
    by (auto simp: observe_receipt_Inr split: option.splits if_splits)
qed

lemma fork_sound:
  assumes "k < length rs" and "snd (observe_log P (new_auditor alg pk signer ext) rs) ! k = Inr (Some fp)" and "signer \<noteq> []"
  shows "verify_fork_proof P fp alg pk = Inr ()" and "(fp_a fp, fp_sig_a fp) \<in> set (take k rs)"
    and "(fp_b fp, fp_sig_b fp) = rs ! k"
proof -
  from assms(2) obtain r0 sig0 where s: "receipt_signed P alg pk (fst (rs ! k)) (snd (rs ! k))"
    and f: "first_seen P alg pk (take k rs) (rc_seq (fst (rs ! k))) = Some (r0, sig0)" "rc_obj r0 \<noteq> rc_obj (fst (rs ! k))"
    and fp: "fp = new_fork_proof signer r0 sig0 (fst (rs ! k)) (snd (rs ! k)) (au_ext (auditor_at P (new_auditor alg pk signer ext) rs k))"
    unfolding fork_at [OF assms(1)] by blast
  from f(1) have "(r0, sig0) \<in> set (take k rs)" "receipt_signed P alg pk r0 sig0" "rc_seq r0 = rc_seq (fst (rs ! k))"
    by (auto dest!: find_SomeD)
  then show "verify_fork_proof P fp alg pk = Inr ()" "(fp_a fp, fp_sig_a fp) \<in> set (take k rs)" "(fp_b fp, fp_sig_b fp) = rs ! k"
    using s f(2) assms(3) by (simp_all add: fp new_fork_proof_def verify_fork_proof_iff)
qed

text \<open>Of two conflicting receipts, at least one conflicts with the first one seen at their position.\<close>

lemma fork_complete:
  assumes "i < j" and "j < length rs" and "\<forall>(r, sig) \<in> {rs ! i, rs ! j}. receipt_signed P alg pk r sig"
    and "rc_seq (fst (rs ! i)) = rc_seq (fst (rs ! j))" and "rc_obj (fst (rs ! i)) \<noteq> rc_obj (fst (rs ! j))"
  shows "\<exists>k \<in> {i, j}. \<exists>fp. snd (observe_log P (new_auditor alg pk signer ext) rs) ! k = Inr (Some fp)"
proof -
  let ?q = "rc_seq (fst (rs ! i))" and ?S = "\<lambda>k. receipt_signed P alg pk (fst (rs ! k)) (snd (rs ! k))"
  have sg: "?S i" "?S j" using assms(3) by (auto simp: split_beta)
  have "rs ! i \<in> set (take j rs)" using assms(1,2) by (metis in_set_conv_nth length_take min_less_iff_conj nth_take order_less_trans)
  then have "first_seen P alg pk (take j rs) ?q \<noteq> None"
    using sg(1) unfolding find_None_iff by (metis (mono_tags, lifting) case_prod_beta)
  then obtain r0 sig0 where f: "first_seen P alg pk (take j rs) ?q = Some (r0, sig0)" by fastforce
  show ?thesis
  proof (cases "rc_obj r0 = rc_obj (fst (rs ! j))")
    case False
    then show ?thesis using fork_at [OF assms(2)] sg(2) f assms(4) by auto
  next
    case True
    have "first_seen P alg pk (take i rs) ?q = Some (r0, sig0)"
    proof (cases "first_seen P alg pk (take i rs) ?q")
      case None
      have "take j rs = take i rs @ rs ! i # drop (Suc i) (take j rs)"
        using id_take_nth_drop [of i "take j rs"] assms(1,2) by (simp add: min_def)
      then have "first_seen P alg pk (take j rs) ?q = Some (rs ! i)"
        using find_append_None [OF None, of "rs ! i # drop (Suc i) (take j rs)"] sg(1) by (simp add: split_beta)
      then have "r0 = fst (rs ! i)" using f by (metis fst_conv option.inject)
      then show ?thesis using True assms(5) by simp
    next
      case (Some p)
      have "take j rs = take i rs @ drop i (take j rs)" using append_take_drop_id [of i "take j rs"] assms(1) by (simp add: min_def)
      then show ?thesis using find_append_Some [OF Some, of "drop i (take j rs)"] Some f by simp
    qed
    then show ?thesis using fork_at [of i rs] assms(1,2,5) sg(1) True by fastforce
  qed
qed

section \<open>Properties\<close>

text \<open>What an ordering authority appends, anyone can check offline: the receipts of every sequence of appends by a fresh
  authority, with their signatures, pass the chain check under the authority's public key, one receipt per
  object in the order of the appends.\<close>

theorem appended_chain_verifies:
  assumes "md_correct P" and "md_key_derive P alg seed = Inr (pk, sk)"
    and "append_receipts P (new_authority alg seed) xs = Inr (a, rs)"
  shows "verify_chain P (map fst rs) (map snd rs) alg pk = Inr () \<and> map (\<lambda>(r, _). (rc_obj r, rc_at r)) rs = xs"
  using append_receipts_verify [of P "new_authority alg seed" pk sk xs a rs] assms
  by (simp add: verify_chain_def new_authority_def zip_map_fst_snd)

theorem appended_chain_verifies_witness:
  "\<exists>a rs. append_receipts sample_prims (new_authority (- 49) [5]) [([1], 10), ([2], 11)] = Inr (a, rs) \<and>
     verify_chain sample_prims (map fst rs) (map snd rs) (- 49) [5] = Inr () \<and> length rs = 2"
proof -
  have "is_ok (append_receipts sample_prims (new_authority (- 49) [5]) [([1], 10), ([2], 11)])"
    by code_simp
  then obtain a rs where r: "append_receipts sample_prims (new_authority (- 49) [5]) [([1], 10), ([2], 11)] = Inr (a, rs)"
    by (auto simp: is_ok_iff)
  from appended_chain_verifies [OF sample_prims_correct(1) sample_prims_sel(4) r]
  have v: "verify_chain sample_prims (map fst rs) (map snd rs) (- 49) [5] = Inr ()"
    and m: "map (\<lambda>(r, _). (rc_obj r, rc_at r)) rs = [([1], 10), ([2], 11)]" by simp_all
  have "length rs = 2" using arg_cong [OF m, of length] by simp
  with r v show ?thesis by blast
qed

text \<open>Tamper evidence: two chains that both pass the check, under whatever keys, and end in the same receipt are equal
  receipt by receipt, unless SHA-384 collides on their bodies. No earlier receipt can be reordered, left
  out or replaced without changing the last one.\<close>

theorem receipt_history_determined:
  assumes "verify_chain P rs sigs alg pk = Inr ()" and "verify_chain P rs' sigs' alg' pk' = Inr ()"
    and "rs \<noteq> []" and "rs' \<noteq> []" and "last rs = last rs'"
    and "inj_on (sha384 P) {m. \<exists>r \<in> set rs \<union> set rs'. receipt_bytes r = Inr m}"
  shows "rs = rs'"
proof -
  obtain h where h: "receipt_chain.chained P (replicate RECEIPT_HEAD_SIZE 0) rs h" using assms(1) by (auto simp: verify_chain_iff)
  obtain h' where h': "receipt_chain.chained P (replicate RECEIPT_HEAD_SIZE 0) rs' h'" using assms(2) by (auto simp: verify_chain_iff)
  have seq: "map rc_seq xs = map int [0..<length xs] \<Longrightarrow> xs \<noteq> [] \<Longrightarrow> rc_seq (last xs) = int (length xs) - 1" for xs
    by (metis (no_types, lifting) One_nat_def Suc_pred diff_zero last_map last_upt length_greater_0_conv length_upt of_nat_Suc add_diff_cancel_right' list.map_disc_iff upt_eq_Nil_conv add.commute)
  have "length rs = length rs'" using assms(1-5) seq [of rs] seq [of rs'] by (simp add: verify_chain_iff)
  moreover have "h = h'"
  proof -
    have "receipt_chain.chained P g xs k \<Longrightarrow> xs \<noteq> [] \<Longrightarrow> \<exists>m. receipt_bytes (last xs) = Inr m \<and> k = sha384 P m" for g xs k
      using receipt_chain.chained_snoc [of P g "butlast xs" "last xs" k] by simp
    from this [OF h assms(3)] this [OF h' assms(4)] show ?thesis using assms(5) by auto
  qed
  moreover have "receipt_chain.bodies rs \<union> receipt_chain.bodies rs' = {m. \<exists>r \<in> set rs \<union> set rs'. receipt_bytes r = Inr m}"
    by (auto simp: receipt_chain.bodies_def)
  ultimately show ?thesis using receipt_chain.chain_determined [OF h] h' assms(6) by auto
qed

theorem receipt_history_determined_witness:
  "\<exists>a rs. append_receipts sample_prims (new_authority (- 49) [5]) [([1], 10), ([2], 11)] = Inr (a, rs) \<and> map fst rs = map fst rs @ []"
proof -
  have "is_ok (append_receipts sample_prims (new_authority (- 49) [5]) [([1], 10), ([2], 11)])"
    by code_simp
  then obtain a rs where r: "append_receipts sample_prims (new_authority (- 49) [5]) [([1], 10), ([2], 11)] = Inr (a, rs)"
    by (auto simp: is_ok_iff)
  have v: "verify_receipts sample_prims (- 49) [5] 0 (replicate RECEIPT_HEAD_SIZE 0) rs = Inr ()"
    and m: "map (\<lambda>(r, _). (rc_obj r, rc_at r)) rs = [([1], 10), ([2], 11)]"
    using append_receipts_verify [of sample_prims "new_authority (- 49) [5]" "[5]" "[5]", OF _ _ r]
    by (simp_all add: new_authority_def)
  then have "verify_chain sample_prims (map fst rs) (map snd rs) (- 49) [5] = Inr ()" and "map fst rs @ [] \<noteq> []"
    by (auto simp: verify_chain_def zip_map_fst_snd)
  then show ?thesis
    using receipt_history_determined [of sample_prims "map fst rs" "map snd rs" "- 49" "[5]" "map fst rs @ []"] r
    by (auto simp: inj_on_def)
qed

text \<open>C35: The auditor is sound and complete. Every fork proof it mints verifies under the accused key and is made of two
  receipts it was shown; whenever it was shown two validly signed receipts with one position and different objects, in
  any order and between any others, it has minted a proof by the second.\<close>

theorem auditor_exact:
  assumes "signer \<noteq> []" and "observe_log P (new_auditor alg pk signer ext) rs = (au, outs)"
  shows "(\<forall>k fp. k < length rs \<and> outs ! k = Inr (Some fp) \<longrightarrow> verify_fork_proof P fp alg pk = Inr () \<and>
        (fp_a fp, fp_sig_a fp) \<in> set (take k rs) \<and> (fp_b fp, fp_sig_b fp) = rs ! k) \<and>
    (\<forall>i j. i < j \<and> j < length rs \<and> (\<forall>(r, sig) \<in> {rs ! i, rs ! j}. receipt_signed P alg pk r sig) \<and>
        rc_seq (fst (rs ! i)) = rc_seq (fst (rs ! j)) \<and> rc_obj (fst (rs ! i)) \<noteq> rc_obj (fst (rs ! j)) \<longrightarrow>
        (\<exists>k \<in> {i, j}. \<exists>fp. outs ! k = Inr (Some fp)))"
proof -
  have outs: "outs = snd (observe_log P (new_auditor alg pk signer ext) rs)" using assms(2) by simp
  show ?thesis
    unfolding outs
    by (intro conjI allI impI fork_complete; elim conjE; (intro fork_sound [OF _ _ assms(1)])?; assumption)
qed

definition sample_fork :: "(receipt \<times> bytes) list" where
  "sample_fork = map (\<lambda>r. (r, [5] @ (case receipt_bytes r of Inl _ \<Rightarrow> [] | Inr m \<Rightarrow> m)))
     [\<lparr>rc_prev = [], rc_obj = [1], rc_seq = 0, rc_at = 9\<rparr>, \<lparr>rc_prev = [], rc_obj = [2], rc_seq = 0, rc_at = 9\<rparr>]"

theorem auditor_exact_witness:
  "\<exists>au outs fp. observe_log sample_prims (new_auditor (- 49) [5] [7] 0) sample_fork = (au, outs) \<and> outs ! 1 = Inr (Some fp) \<and>
     verify_fork_proof sample_prims fp (- 49) [5] = Inr ()"
proof -
  obtain au outs where o: "observe_log sample_prims (new_auditor (- 49) [5] [7] 0) sample_fork = (au, outs)" by fastforce
  have "case snd (observe_log sample_prims (new_auditor (- 49) [5] [7] 0) sample_fork) ! 1 of Inr (Some fp) \<Rightarrow> True | _ \<Rightarrow> False"
    by code_simp
  then obtain fp where "outs ! 1 = Inr (Some fp)" using o by (auto split: sum.splits option.splits)
  moreover have "1 < length sample_fork" by (simp add: sample_fork_def)
  ultimately show ?thesis using auditor_exact [OF _ o] o by blast
qed

text \<open>No false accusation: an auditor that is shown only receipts of one verified chain, in any order and any number of
  times, never mints a fork proof.\<close>

theorem honest_authority_not_accused:
  assumes "verify_chain P receipts sigs alg' pk' = Inr ()" and "set rs \<subseteq> set (zip receipts sigs)"
    and "observe_log P (new_auditor alg pk signer ext) rs = (au, outs)"
  shows "Inr (Some fp) \<notin> set outs"
proof
  assume "Inr (Some fp) \<in> set outs"
  then obtain k where k: "k < length rs" "snd (observe_log P (new_auditor alg pk signer ext) rs) ! k = Inr (Some fp)"
    using assms(3) by (metis in_set_conv_nth length_observe_log snd_conv)
  from k(2) obtain r0 sig0 where f: "first_seen P alg pk (take k rs) (rc_seq (fst (rs ! k))) = Some (r0, sig0)"
    and ob: "rc_obj r0 \<noteq> rc_obj (fst (rs ! k))"
    unfolding fork_at [OF k(1)] by blast
  have s: "rc_seq r0 = rc_seq (fst (rs ! k))" and m: "(r0, sig0) \<in> set (take k rs)" using find_SomeD [OF f] by simp_all
  have sub: "fst p \<in> set receipts" if "p \<in> set rs" for p
    using that assms(2) by (metis prod.collapse set_zip_leftD subsetD)
  have "r0 \<in> set receipts" "fst (rs ! k) \<in> set receipts"
    using sub [OF in_set_takeD [OF m]] sub [OF nth_mem [OF k(1)]] by simp_all
  moreover have "inj_on rc_seq (set receipts)"
  proof -
    have "distinct (map rc_seq receipts)" using assms(1) by (simp add: verify_chain_iff distinct_map)
    then show ?thesis by (simp add: distinct_map)
  qed
  ultimately show False using s ob by (auto dest: inj_onD)
qed

theorem honest_authority_not_accused_witness:
  "\<exists>a rs. append_receipts sample_prims (new_authority (- 49) [5]) [([1], 10), ([2], 11)] = Inr (a, rs) \<and>
     Inr (Some \<lparr>fp_signer = [7], fp_ext_counter = 0, fp_a = fst (rs ! 0), fp_sig_a = [], fp_b = fst (rs ! 1), fp_sig_b = []\<rparr>)
       \<notin> set (snd (observe_log sample_prims (new_auditor (- 49) [5] [7] 0) (rs @ rev rs)))"
proof -
  have "is_ok (append_receipts sample_prims (new_authority (- 49) [5]) [([1], 10), ([2], 11)])"
    by code_simp
  then obtain a rs where r: "append_receipts sample_prims (new_authority (- 49) [5]) [([1], 10), ([2], 11)] = Inr (a, rs)"
    by (auto simp: is_ok_iff)
  have "verify_receipts sample_prims (- 49) [5] 0 (replicate RECEIPT_HEAD_SIZE 0) rs = Inr ()"
    using append_receipts_verify [of sample_prims "new_authority (- 49) [5]" "[5]" "[5]", OF _ _ r]
    by (simp add: new_authority_def)
  then have v: "verify_chain sample_prims (map fst rs) (map snd rs) (- 49) [5] = Inr ()"
    by (simp add: verify_chain_def zip_map_fst_snd)
  show ?thesis
    by (intro exI conjI) (rule r, rule honest_authority_not_accused [OF v _ prod.collapse [symmetric]], simp add: zip_map_fst_snd)
qed

end
