(* ===== verification/AuditOrder.thy ===== *)
theory AuditOrder
  imports AuditChain Graph Toposort
begin

text \<open>
  The causal order of \<^verbatim>\<open>impl/python/naalp/audit.py\<close>: the check of the partial order, which calls \<^verbatim>\<open>graph.py\<close>, and
  the topological order whose ties break by position and then by input index. The loop keeps a counter of
  unordered causes per node and, per node, the list of its effects.
\<close>

section \<open>The code\<close>

record causal_node =
  cn_id :: bytes
  cn_causes :: "bytes list"
  cn_position :: int

abbreviation as_node :: "causal_node \<Rightarrow> node" where
  "as_node n \<equiv> (cn_id n, cn_causes n, cn_position n)"

definition audit_verify_causal :: "causal_node list \<Rightarrow> unit res" where
  "audit_verify_causal nodes = verify_causal (map as_node nodes)"

definition add_effect :: "nat \<Rightarrow> int list \<times> nat list list \<Rightarrow> nat \<Rightarrow> int list \<times> nat list list" where
  "add_effect i st j = ((fst st)[i := fst st ! i + 1], (snd st)[j := snd st ! j @ [i]])"

definition count_edges :: "causal_node list \<Rightarrow> int list \<times> nat list list" where
  "count_edges nodes =
     foldl (\<lambda>st i. foldl (add_effect i) st (cause_indices (map as_node nodes) i))
       (replicate (length nodes) 0, replicate (length nodes) []) [0..<length nodes]"

record topo_state =
  ts_done :: "bool list"
  ts_indeg :: "int list"
  ts_order :: "bytes list"

definition topo_pick_step :: "causal_node list \<Rightarrow> topo_state \<Rightarrow> nat option \<Rightarrow> nat \<Rightarrow> nat option" where
  "topo_pick_step nodes s pick i =
     (if ts_done s ! i \<or> ts_indeg s ! i \<noteq> 0 then pick
      else (case pick of None \<Rightarrow> Some i | Some p \<Rightarrow> if cn_position (nodes ! i) < cn_position (nodes ! p) then Some i else pick))"

definition topo_pick :: "causal_node list \<Rightarrow> topo_state \<Rightarrow> nat option" where
  "topo_pick nodes s = foldl (topo_pick_step nodes s) None [0..<length nodes]"

definition topo_take :: "causal_node list \<Rightarrow> nat list list \<Rightarrow> topo_state \<Rightarrow> nat \<Rightarrow> topo_state" where
  "topo_take nodes effects s p =
     \<lparr>ts_done = (ts_done s)[p := True],
      ts_indeg = foldl (\<lambda>d e. d[e := d ! e - 1]) (ts_indeg s) (effects ! p),
      ts_order = ts_order s @ [cn_id (nodes ! p)]\<rparr>"

function topo_loop :: "causal_node list \<Rightarrow> nat list list \<Rightarrow> topo_state \<Rightarrow> bytes list res" where
  "topo_loop nodes effects s =
     (if length (ts_order s) < length nodes then
        (case topo_pick nodes s of
           None \<Rightarrow> Inl CausalViolation
         | Some p \<Rightarrow> topo_loop nodes effects (topo_take nodes effects s p))
      else Inr (ts_order s))"
  by pat_completeness auto
termination
  by (relation "measure (\<lambda>(nodes, effects, s). length nodes - length (ts_order s))") (auto simp: topo_take_def)

declare topo_loop.simps [simp del]

definition topo_order :: "causal_node list \<Rightarrow> bytes list res" where
  "topo_order nodes =
     rbind (audit_verify_causal nodes) (\<lambda>_.
       let (deg, effects) = count_edges nodes in
       topo_loop nodes effects \<lparr>ts_done = replicate (length nodes) False, ts_indeg = deg, ts_order = []\<rparr>)"

section \<open>The counters\<close>

lemma add_effects:
  assumes "foldl (add_effect i) st js = st'" and "i < length (fst st)" and "\<forall>j \<in> set js. j < length (snd st)"
  shows "length (fst st') = length (fst st) \<and> length (snd st') = length (snd st) \<and>
    (\<forall>k < length (fst st). fst st' ! k = fst st ! k + (if k = i then int (length js) else 0)) \<and>
    (\<forall>j < length (snd st). \<forall>k. count_list (snd st' ! j) k = count_list (snd st ! j) k + (if k = i then count_list js j else 0))"
  using assms
proof (induction js arbitrary: st)
  case (Cons j js)
  have "foldl (add_effect i) (add_effect i st j) js = st'" using Cons.prems by simp
  from Cons.IH [OF this] Cons.prems show ?case
    by (auto simp: add_effect_def nth_list_update)
qed auto

lemma count_edges_upto:
  assumes "m \<le> length nodes"
    and "foldl (\<lambda>st i. foldl (add_effect i) st (cause_indices (map as_node nodes) i))
       (replicate (length nodes) 0, replicate (length nodes) []) [0..<m] = (deg, effects)"
  shows "length deg = length nodes \<and> length effects = length nodes \<and>
    (\<forall>i < length nodes. deg ! i = (if i < m then int (length (cause_indices (map as_node nodes) i)) else 0)) \<and>
    (\<forall>j < length nodes. \<forall>i. count_list (effects ! j) i = (if i < m then count_list (cause_indices (map as_node nodes) i) j else 0))"
  using assms
proof (induction m arbitrary: deg effects)
  case (Suc m)
  obtain d e where st: "foldl (\<lambda>st i. foldl (add_effect i) st (cause_indices (map as_node nodes) i))
       (replicate (length nodes) 0, replicate (length nodes) []) [0..<m] = (d, e)" by fastforce
  have IH: "length d = length nodes" "length e = length nodes"
    "\<forall>i < length nodes. d ! i = (if i < m then int (length (cause_indices (map as_node nodes) i)) else 0)"
    "\<forall>j < length nodes. \<forall>i. count_list (e ! j) i = (if i < m then count_list (cause_indices (map as_node nodes) i) j else 0)"
    using Suc.IH [OF _ st] Suc.prems(1) by auto
  have "foldl (add_effect m) (d, e) (cause_indices (map as_node nodes) m) = (deg, effects)"
    using Suc.prems(2) st by simp
  from add_effects [OF this] IH Suc.prems(1) cause_indices_less [of _ "map as_node nodes" m]
  show ?case by (auto simp: less_Suc_eq)
qed auto

lemma count_edges:
  assumes "count_edges nodes = (deg, effects)"
  shows "length deg = length nodes" and "length effects = length nodes"
    and "i < length nodes \<Longrightarrow> deg ! i = int (length (cause_indices (map as_node nodes) i))"
    and "i < length nodes \<Longrightarrow> j < length nodes \<Longrightarrow> count_list (effects ! j) i = count_list (cause_indices (map as_node nodes) i) j"
    and "j < length nodes \<Longrightarrow> set (effects ! j) \<subseteq> {..<length nodes}"
proof -
  note c = count_edges_upto [OF order_refl assms [unfolded count_edges_def]]
  show "length deg = length nodes" "length effects = length nodes" using c by simp_all
  show "i < length nodes \<Longrightarrow> deg ! i = int (length (cause_indices (map as_node nodes) i))" using c by simp
  show "i < length nodes \<Longrightarrow> j < length nodes \<Longrightarrow> count_list (effects ! j) i = count_list (cause_indices (map as_node nodes) i) j"
    using c by simp
  show "j < length nodes \<Longrightarrow> set (effects ! j) \<subseteq> {..<length nodes}"
    using c by (metis count_list_0_iff lessThan_iff subsetI)
qed

lemma decrements:
  assumes "\<forall>e \<in> set es. e < length d" and "i < length d"
  shows "foldl (\<lambda>d e. d[e := d ! e - 1]) d es ! i = d ! i - int (count_list es i)"
    and "length (foldl (\<lambda>d e. d[e := d ! e - 1]) d es) = length d"
  using assms by (induction es arbitrary: d) (auto simp: nth_list_update)

lemma length_filter_insert:
  "p \<notin> X \<Longrightarrow> int (length (filter (\<lambda>j. j \<notin> insert p X) xs)) = int (length (filter (\<lambda>j. j \<notin> X) xs)) - int (count_list xs p)"
  by (induction xs) auto

section \<open>The loop\<close>

definition topo_ready :: "topo_state \<Rightarrow> nat \<Rightarrow> bool" where
  "topo_ready s i \<longleftrightarrow> \<not> ts_done s ! i \<and> ts_indeg s ! i = 0"

lemma topo_pick_scan:
  "(topo_pick nodes s = None \<longleftrightarrow> (\<forall>i < length nodes. \<not> topo_ready s i)) \<and>
   (\<forall>p. topo_pick nodes s = Some p \<longrightarrow> p < length nodes \<and> topo_ready s p \<and>
      (\<forall>i < length nodes. topo_ready s i \<longrightarrow> (cn_position (nodes ! p), p) \<le> (cn_position (nodes ! i), i)))"
proof -
  have "topo_pick_step nodes s p i = (if \<not> topo_ready s i then p
      else (case p of None \<Rightarrow> Some i | Some j \<Rightarrow> if cn_position (nodes ! i) < cn_position (nodes ! j) then Some i else p))"
    for p i by (auto simp: topo_pick_step_def topo_ready_def)
  from scan_least [of "topo_pick_step nodes s" "topo_ready s" "\<lambda>i. cn_position (nodes ! i)", OF this sorted_wrt_upt _ refl, of None 0 "length nodes"]
  show ?thesis by (fastforce simp: topo_pick_def simp del: less_eq_prod_simp)
qed

text \<open>The state after the nodes \<open>os\<close> were taken: the counters count the causes outside \<open>os\<close>, with repetitions.\<close>

definition topo_inv :: "causal_node list \<Rightarrow> nat list list \<Rightarrow> topo_state \<Rightarrow> nat list \<Rightarrow> bool" where
  "topo_inv nodes effects s os \<longleftrightarrow>
     effects = snd (count_edges nodes) \<and> length (ts_done s) = length nodes \<and> length (ts_indeg s) = length nodes \<and>
     distinct os \<and> set os \<subseteq> {..<length nodes} \<and> ts_order s = map (\<lambda>i. cn_id (nodes ! i)) os \<and>
     (\<forall>i < length nodes. ts_done s ! i \<longleftrightarrow> i \<in> set os) \<and>
     (\<forall>i < length nodes. ts_indeg s ! i = int (length (filter (\<lambda>j. j \<notin> set os) (cause_indices (map as_node nodes) i))))"

lemma topo_ready_iff:
  assumes "topo_inv nodes effects s os" and "i < length nodes"
  shows "topo_ready s i \<longleftrightarrow>
    i \<in> {..<length nodes} - set os \<and> set (cause_indices (map as_node nodes) i) \<inter> ({..<length nodes} - set os) = {}"
proof -
  have "ts_indeg s ! i = 0 \<longleftrightarrow> set (cause_indices (map as_node nodes) i) \<subseteq> set os"
    using assms by (auto simp: topo_inv_def filter_empty_conv)
  moreover have "set (cause_indices (map as_node nodes) i) \<subseteq> {..<length nodes}"
    using cause_indices_less [of _ "map as_node nodes" i] by auto
  ultimately show ?thesis using assms by (auto simp: topo_ready_def topo_inv_def)
qed

lemma topo_take_inv:
  assumes inv: "topo_inv nodes effects s os" and p: "p < length nodes" "topo_ready s p"
  shows "topo_inv nodes effects (topo_take nodes effects s p) (os @ [p])"
proof -
  obtain d where c: "count_edges nodes = (d, effects)" using inv by (metis prod.collapse topo_inv_def)
  have new: "p \<notin> set os" using topo_ready_iff [OF inv p(1)] p(2) by blast
  have len: "length (ts_indeg s) = length nodes" using inv by (simp add: topo_inv_def)
  have es: "\<forall>e \<in> set (effects ! p). e < length (ts_indeg s)" using count_edges(5) [OF c p(1)] len by auto
  have deg: "ts_indeg (topo_take nodes effects s p) ! i
      = int (length (filter (\<lambda>j. j \<notin> set (os @ [p])) (cause_indices (map as_node nodes) i)))" if "i < length nodes" for i
    using decrements(1) [OF es, of i] count_edges(4) [OF c that p(1)] inv that len
      length_filter_insert [OF new, of "cause_indices (map as_node nodes) i"]
    by (simp add: topo_take_def topo_inv_def)
  have "length (ts_indeg (topo_take nodes effects s p)) = length nodes"
    using decrements(2) [OF es, of p] len p(1) by (simp add: topo_take_def)
  moreover have "ts_done (topo_take nodes effects s p) = (ts_done s)[p := True]"
    "ts_order (topo_take nodes effects s p) = ts_order s @ [cn_id (nodes ! p)]" by (simp_all add: topo_take_def)
  ultimately show ?thesis
    using inv new p(1) deg unfolding topo_inv_def by (auto simp: nth_list_update)
qed

interpretation topo: kahn_sort "{..<length nodes}" "\<lambda>i. (cn_position (nodes ! i), i)"
    "\<lambda>i. set (cause_indices (map as_node nodes) i)" "topo_inv nodes effects" "\<lambda>p. p" "topo_pick nodes"
    "topo_take nodes effects" "map (\<lambda>i. cn_id (nodes ! i))" "topo_loop nodes effects" for nodes effects
proof unfold_locales
  fix s os p x y
  assume st: "topo_inv nodes effects s os"
  show "distinct os \<and> set os \<subseteq> {..<length nodes}" using st by (simp add: topo_inv_def)
  show "topo_loop nodes effects s = (if length os < card {..<length nodes}
      then (case topo_pick nodes s of None \<Rightarrow> Inl CausalViolation | Some p \<Rightarrow> topo_loop nodes effects (topo_take nodes effects s p))
      else Inr (map (\<lambda>i. cn_id (nodes ! i)) os))"
    using st by (subst topo_loop.simps) (simp add: topo_inv_def)
  show "set (cause_indices (map as_node nodes) x) \<inter> ({..<length nodes} - set os) \<noteq> {}"
    if "topo_pick nodes s = None" "x \<in> {..<length nodes} - set os"
    using that topo_ready_iff [OF st] topo_pick_scan [of nodes s] by blast
  assume p: "topo_pick nodes s = Some p"
  have sel: "p < length nodes" "topo_ready s p"
    "\<forall>i < length nodes. topo_ready s i \<longrightarrow> (cn_position (nodes ! p), p) \<le> (cn_position (nodes ! i), i)"
    using topo_pick_scan [of nodes s] p by (blast+)
  show "p \<in> {..<length nodes} - set os \<and> set (cause_indices (map as_node nodes) p) \<inter> ({..<length nodes} - set os) = {}"
    using sel topo_ready_iff [OF st] by blast
  show "(cn_position (nodes ! p), p) \<le> (cn_position (nodes ! y), y)"
    if "y \<in> {..<length nodes} - set os" "set (cause_indices (map as_node nodes) y) \<inter> ({..<length nodes} - set os) = {}"
    using that sel(3) topo_ready_iff [OF st] by blast
  show "topo_inv nodes effects (topo_take nodes effects s p) (os @ [p])" using topo_take_inv [OF st sel(1,2)] .
qed simp

lemma topo_order_lin:
  assumes "audit_verify_causal nodes = Inr ()"
  shows "\<exists>ys. topo_order nodes = Inr (map (\<lambda>i. cn_id (nodes ! i)) ys) \<and>
    lin (\<lambda>i. (cn_position (nodes ! i), i)) (\<lambda>i. set (cause_indices (map as_node nodes) i)) {..<length nodes} ys"
proof -
  obtain d effects where c: "count_edges nodes = (d, effects)" by fastforce
  let ?s = "\<lparr>ts_done = replicate (length nodes) False, ts_indeg = d, ts_order = []\<rparr>"
  have "topo_inv nodes effects ?s []" using count_edges(1,3) [OF c] c by (simp add: topo_inv_def)
  moreover have "acyclic (causal_edges (map as_node nodes))"
    using assms by (auto simp: audit_verify_causal_def verify_causal_iff split: if_splits)
  then have "acyclic {(x, y). x \<in> {..<length nodes} \<and> y \<in> set (cause_indices (map as_node nodes) x) \<inter> {..<length nodes}}"
    by (rule acyclic_subset) (auto simp: causal_edges_def)
  ultimately show ?thesis
    using topo.loop_lin [of nodes effects ?s "[]"] assms c by (simp add: topo_order_def)
qed

section \<open>Properties\<close>

text \<open>The audit order never gets stuck: it fails exactly when the causal check fails, and otherwise lists every node once, each
  after all its present causes, taking among the ready nodes the one with the lowest position and, at equal
  positions, the one first in the input. Repeated causes and repeated ids do no harm.\<close>

theorem topo_order_exact:
  "topo_order nodes = Inl CausalViolation \<and> audit_verify_causal nodes = Inl CausalViolation \<or>
   audit_verify_causal nodes = Inr () \<and>
   (\<exists>ys. topo_order nodes = Inr (map (\<lambda>i. cn_id (nodes ! i)) ys) \<and> distinct ys \<and> set ys = {..<length nodes} \<and>
      (\<forall>a b. a < length ys \<and> b < length ys \<and> ys ! a \<in> set (cause_indices (map as_node nodes) (ys ! b)) \<longrightarrow> a < b) \<and>
      (\<forall>a b. a < b \<and> b < length ys \<and> set (cause_indices (map as_node nodes) (ys ! b)) \<subseteq> set (take a ys) \<longrightarrow>
         cn_position (nodes ! (ys ! a)) < cn_position (nodes ! (ys ! b)) \<or>
         cn_position (nodes ! (ys ! a)) = cn_position (nodes ! (ys ! b)) \<and> ys ! a < ys ! b))"
proof (cases "audit_verify_causal nodes = Inr ()")
  case True
  then obtain ys where ys: "topo_order nodes = Inr (map (\<lambda>i. cn_id (nodes ! i)) ys)"
    and l: "lin (\<lambda>i. (cn_position (nodes ! i), i)) (\<lambda>i. set (cause_indices (map as_node nodes) i)) {..<length nodes} ys"
    using topo_order_lin by blast
  have d: "distinct ys" "set ys = {..<length nodes}" using lin_set [OF l] by simp_all
  have tie: "cn_position (nodes ! (ys ! a)) < cn_position (nodes ! (ys ! b)) \<or>
      cn_position (nodes ! (ys ! a)) = cn_position (nodes ! (ys ! b)) \<and> ys ! a < ys ! b"
    if "a < b" "b < length ys" "set (cause_indices (map as_node nodes) (ys ! b)) \<subseteq> set (take a ys)" for a b
  proof -
    have "ys ! a \<noteq> ys ! b" using that d(1) by (simp add: nth_eq_iff_index_eq)
    moreover have "set (cause_indices (map as_node nodes) (ys ! b)) \<inter> {..<length nodes} \<subseteq> set (take a ys)" using that(3) by blast
    ultimately show ?thesis using lin_tiebreak [OF l _ that(2), of a] that(1) by auto
  qed
  have before: "\<forall>a b. a < length ys \<and> b < length ys \<and> ys ! a \<in> set (cause_indices (map as_node nodes) (ys ! b)) \<longrightarrow> a < b"
    using lin_before [OF l] by blast
  show ?thesis
    by (rule disjI2, rule conjI [OF True], rule exI [of _ ys], intro conjI ys d before allI impI, elim conjE, rule tie)
next
  case False
  then show ?thesis by (auto simp: topo_order_def audit_verify_causal_def verify_causal_iff)
qed

theorem topo_order_exact_witness:
  "\<exists>ys. topo_order [\<lparr>cn_id = [2], cn_causes = [[1], [1]], cn_position = 4\<rparr>, \<lparr>cn_id = [1], cn_causes = [], cn_position = 3\<rparr>]
       = Inr ys \<and> length ys = 2"
proof -
  let ?n = "[\<lparr>cn_id = [2], cn_causes = [[1], [1]], cn_position = 4\<rparr>, \<lparr>cn_id = [1], cn_causes = [], cn_position = 3\<rparr>]"
  have "audit_verify_causal ?n = Inr ()"
    by code_simp
  then obtain ys where "topo_order ?n = Inr (map (\<lambda>i. cn_id (?n ! i)) ys)" "distinct ys" "set ys = {..<length ?n}"
    using topo_order_exact [of ?n] by auto
  then show ?thesis using distinct_card [of ys] by auto
qed

end
