(* ===== verification/Bodies.thy ===== *)
theory Bodies
  imports CborMaps
begin

text \<open>
  Bodies with numbered, typed fields. The SDK writes every record body as a map from small unsigned keys to
  typed values and reads it back with the same loop: each pair must have a known key with a value of
  its type, and at the end every mandatory field must have been seen. This theory has that loop once, with
  both directions of its round trip.
\<close>

section \<open>The reading loop\<close>

definition typed_step :: "(int \<Rightarrow> cbor \<Rightarrow> bool) \<Rightarrow> exn \<Rightarrow> (int \<rightharpoonup> cbor) \<Rightarrow> cbor \<times> cbor \<Rightarrow> (int \<rightharpoonup> cbor) res" where
  "typed_step ok e m p =
     (case fst p of U n \<Rightarrow> if ok n (snd p) then Inr (m(n \<mapsto> snd p)) else Inl e | _ \<Rightarrow> Inl e)"

definition typed_fields :: "(int \<Rightarrow> cbor \<Rightarrow> bool) \<Rightarrow> exn \<Rightarrow> cbor \<Rightarrow> (int \<rightharpoonup> cbor) res" where
  "typed_fields ok e v = (case v of M pairs \<Rightarrow> rfold (typed_step ok e) Map.empty pairs | _ \<Rightarrow> Inl e)"

definition is_U :: "cbor \<Rightarrow> bool" where "is_U v \<longleftrightarrow> (case v of U _ \<Rightarrow> True | _ \<Rightarrow> False)"
definition is_B :: "cbor \<Rightarrow> bool" where "is_B v \<longleftrightarrow> (case v of B _ \<Rightarrow> True | _ \<Rightarrow> False)"
definition is_T :: "cbor \<Rightarrow> bool" where "is_T v \<longleftrightarrow> (case v of T _ \<Rightarrow> True | _ \<Rightarrow> False)"

lemma is_leaf_simps [simp]:
  "is_U (U n)" "is_B (B b)" "is_T (T t)"
  "\<not> is_U (B b)" "\<not> is_U (T t)" "\<not> is_B (U n)" "\<not> is_B (T t)" "\<not> is_T (U n)" "\<not> is_T (B b)"
  by (simp_all add: is_U_def is_B_def is_T_def)

lemma is_leafE:
  "is_U v \<Longrightarrow> (\<And>n. v = U n \<Longrightarrow> Q) \<Longrightarrow> Q"
  "is_B v \<Longrightarrow> (\<And>b. v = B b \<Longrightarrow> Q) \<Longrightarrow> Q"
  "is_T v \<Longrightarrow> (\<And>t. v = T t \<Longrightarrow> Q) \<Longrightarrow> Q"
  by (auto simp: is_U_def is_B_def is_T_def split: cbor.splits)

definition leaf :: "cbor \<Rightarrow> bool" where "leaf v \<longleftrightarrow> is_U v \<or> is_B v \<or> is_T v"

lemma leaf_canon: "leaf v \<Longrightarrow> canon v = v" and leaf_nesting: "leaf v \<Longrightarrow> nesting v = 1"
  by (auto simp: leaf_def elim!: is_leafE)

section \<open>Both directions\<close>

lemma typed_step_Inr:
  "typed_step ok e m p = Inr m' \<longleftrightarrow> (\<exists>n. fst p = U n \<and> ok n (snd p) \<and> m' = m(n \<mapsto> snd p))"
  by (cases p; cases "fst p") (auto simp: typed_step_def)

lemma typed_steps_Inr:
  "rfold (typed_step ok e) m ps = Inr m' \<longleftrightarrow>
     (\<forall>p \<in> set ps. \<exists>n. fst p = U n \<and> ok n (snd p)) \<and> m' = m ++ map_of (map (\<lambda>p. (key_int (fst p), snd p)) (rev ps))"
proof (induction ps arbitrary: m)
  case (Cons p ps)
  have s1: "rfold (typed_step ok e) m (p # ps) = Inr m' \<longleftrightarrow>
      (\<exists>n. fst p = U n \<and> ok n (snd p)) \<and> rfold (typed_step ok e) (m(key_int (fst p) \<mapsto> snd p)) ps = Inr m'"
    by (auto simp: res_simps typed_step_Inr key_int_def)
  have s2: "m ++ map_of (map (\<lambda>p. (key_int (fst p), snd p)) (rev (p # ps))) =
      m(key_int (fst p) \<mapsto> snd p) ++ map_of (map (\<lambda>p. (key_int (fst p), snd p)) (rev ps))"
    by (simp add: fun_eq_iff map_add_def split: option.split)
  show ?case unfolding s1 s2 Cons.IH by (simp only: list.set ball_simps conj_assoc)
qed auto

text \<open>Keys of a body: ascending and below 24.\<close>

definition field_keys :: "int list \<Rightarrow> bool" where
  "field_keys ns \<longleftrightarrow> sorted_wrt (<) ns \<and> (\<forall>n \<in> set ns. 0 \<le> n \<and> n < 24)"

definition body_of :: "(int \<Rightarrow> cbor) \<Rightarrow> int list \<Rightarrow> cbor" where
  "body_of f ns = M (map (\<lambda>n. (U n, f n)) ns)"

lemma body_of_simps [simp]: "body_of f ns = M (map (\<lambda>n. (U n, f n)) ns)"
  by (simp add: body_of_def)

lemma field_keys_asc: "field_keys ns \<Longrightarrow> asc_keys (map (\<lambda>n. (U n, f n)) ns)"
  by (auto simp: field_keys_def asc_keys_def small_key_def key_int_def comp_def)

lemma field_keys_map_of:
  "field_keys ns \<Longrightarrow> map_of (map (\<lambda>p. (key_int (fst p), snd p)) (rev (map (\<lambda>n. (U n, f n)) ns)))
     = (\<lambda>n. if n \<in> set ns then Some (f n) else None)"
proof -
  assume "field_keys ns"
  have "map (\<lambda>p. (key_int (fst p), snd p)) (rev (map (\<lambda>n. (U n, f n)) ns)) = map (\<lambda>n. (n, f n)) (rev ns)"
    by (simp add: rev_map key_int_def comp_def)
  then show ?thesis by (auto simp: map_of_map_restrict restrict_map_def)
qed

lemma decode_body:
  assumes "encode (body_of f ns) = Inr b" and "field_keys ns" and "\<forall>n \<in> set ns. leaf (f n)"
  shows "decode b = Inr (body_of f ns)"
proof -
  have "nesting (M (map (\<lambda>n. (U n, f n)) ns)) \<le> 2"
    unfolding nesting_M_le using assms(3) by (auto simp: leaf_nesting)
  then show ?thesis
    using assms leaf_canon by (simp del: encode.simps) (rule decode_asc, auto simp: field_keys_asc UNBOUNDED_DEPTH_def)
qed

lemma typed_fields_body:
  assumes "field_keys ns" and "\<forall>n \<in> set ns. ok n (f n)"
  shows "typed_fields ok e (body_of f ns) = Inr (\<lambda>n. if n \<in> set ns then Some (f n) else None)"
  using assms field_keys_map_of [OF assms(1), of f] by (auto simp: typed_fields_def typed_steps_Inr)

lemma typed_fields_sound:
  assumes "decode b = Inr v" and "typed_fields ok e v = Inr m" and "field_keys ns"
    and "\<And>n w. ok n w \<Longrightarrow> n \<in> set ns" and "\<forall>n \<in> set ns. m n \<noteq> None"
  shows "encode (body_of (\<lambda>n. the (m n)) ns) = Inr b" and "\<forall>n \<in> set ns. ok n (the (m n))"
proof -
  obtain ps where v: "v = M ps" and keys: "\<forall>p \<in> set ps. \<exists>n. fst p = U n \<and> ok n (snd p)"
    and m: "m = map_of (map (\<lambda>p. (key_int (fst p), snd p)) (rev ps))"
    using assms(2) by (auto simp: typed_fields_def res_simps typed_steps_Inr)
  have small: "\<forall>p \<in> set ps. small_key (fst p)"
    using keys assms(3,4) by (fastforce simp: small_key_def field_keys_def)
  note asc = decode_M_asc [OF assms(1) [unfolded v] small]
  have "(\<lambda>p. key_int (fst p)) ` set ps = set ns"
  proof
    show "(\<lambda>p. key_int (fst p)) ` set ps \<subseteq> set ns" using keys assms(4) by (fastforce simp: key_int_def)
    have "n \<in> (\<lambda>p. key_int (fst p)) ` set ps" if "n \<in> set ns" for n
    proof -
      have "m n \<noteq> None" using that assms(5) by simp
      then obtain w where "m n = Some w" by auto
      then show ?thesis by (auto simp: m dest!: map_of_SomeD)
    qed
    then show "set ns \<subseteq> (\<lambda>p. key_int (fst p)) ` set ps" by blast
  qed
  then have fs: "map fst ps = map U ns" using asc_keys_exact [OF asc] assms(3) by (simp add: field_keys_def)
  have len: "length ps = length ns" using arg_cong [OF fs, of length] by simp
  define f where "f n = the (m n)" for n
  have d: "distinct (map (\<lambda>p. key_int (fst p)) ps)" using asc by (simp add: asc_keys_def strict_sorted_iff)
  have val: "m (key_int (fst p)) = Some (snd p)" if "p \<in> set ps" for p
    unfolding m using that d by (intro map_of_is_SomeI) (auto simp: comp_def rev_map [symmetric])
  have ps: "ps = map (\<lambda>n. (U n, f n)) ns"
  proof (rule nth_equalityI)
    fix i assume i: "i < length ps"
    have "fst (ps ! i) = U (ns ! i)" using arg_cong [OF fs, of "\<lambda>xs. xs ! i"] i len by simp
    then show "ps ! i = map (\<lambda>n. (U n, f n)) ns ! i"
      using val [OF nth_mem [OF i]] i len by (cases "ps ! i") (simp add: f_def key_int_def)
  qed (simp add: len)
  then show "encode (body_of (\<lambda>n. the (m n)) ns) = Inr b"
    using assms(1) v cbor_codec.enc_dec by (simp add: f_def del: encode.simps)
  show "\<forall>n \<in> set ns. ok n (the (m n))" using keys ps by (auto simp: f_def)
qed

end
