(* ===== verification/Wal.thy ===== *)
theory Wal
  imports Prelude
begin

text \<open>
  The write-ahead log shared by the consume ledger, the delivery tracker and the workflow gate: records
  framed by a four-byte big-endian length, replayed from the start when the file is opened. A locale
  states what such a component must provide (writing a record and replaying it have the same effect on
  the state) and gives crash recovery: whatever sequence of operations ran, reopening the file rebuilds
  the state they left.
\<close>

section \<open>Framing\<close>

definition frame :: "exn \<Rightarrow> bytes \<Rightarrow> bytes res" where
  "frame too_long rec = (if int (length rec) < 2 ^ 32 then Inr (be_bytes 4 (length rec) @ rec) else Inl too_long)"

function replay_log :: "exn \<Rightarrow> ('s \<Rightarrow> bytes \<Rightarrow> 's res) \<Rightarrow> 's \<Rightarrow> bytes \<Rightarrow> 's res" where
  "replay_log corrupt step s file =
     (let lb = take 4 file in
      if lb = [] then Inr s
      else if length lb \<noteq> 4 then Inl corrupt
      else
        let n = be_nat lb; rec = take n (drop 4 file) in
        if length rec \<noteq> n then Inl corrupt
        else rbind (step s rec) (\<lambda>s'. replay_log corrupt step s' (drop (4 + n) file)))"
  by pat_completeness auto
termination
  by (relation "measure (\<lambda>(_, _, _, file). length file)") auto

declare replay_log.simps [simp del]

lemma replay_Nil [simp]: "replay_log c step s [] = Inr s"
  by (simp add: replay_log.simps)

lemma replay_frame:
  assumes "frame e rec = Inr b"
  shows "replay_log c step s (b @ file) = rbind (step s rec) (\<lambda>s'. replay_log c step s' file)"
proof -
  have b: "b = be_bytes 4 (length rec) @ rec" and l: "length rec < 256 ^ 4"
    using assms by (auto simp: frame_def split: if_splits)
  have n: "be_nat (be_bytes 4 (length rec)) = length rec" using l by (rule be_nat_be_bytes)
  have "be_bytes 4 (length rec) \<noteq> []" by (metis length_be_bytes list.size(3) zero_neq_numeral)
  then show ?thesis
    unfolding b append_assoc by (subst replay_log.simps) (simp add: n Let_def)
qed

text \<open>What follows a well-formed log is replayed from the state the log left.\<close>

lemma replay_append:
  "replay_log c step s log = Inr s' \<Longrightarrow> replay_log c step s (log @ rest) = replay_log c step s' rest"
proof (induction "length log" arbitrary: log s rule: less_induct)
  case less
  show ?case
  proof (cases "log = []")
    case True
    then show ?thesis using less.prems by simp
  next
    case False
    let ?lb = "take 4 log" and ?n = "be_nat (take 4 log)"
    let ?rec = "take ?n (drop 4 log)"
    from False less.prems obtain t where len: "length ?lb = 4" "length ?rec = ?n" and st: "step s ?rec = Inr t"
      and r: "replay_log c step t (drop (4 + ?n) log) = Inr s'"
      by (subst (asm) replay_log.simps) (auto simp: Let_def rbind_eq_Inr if_Inl_eq_Inr)
    have l: "4 \<le> length log" "4 + ?n \<le> length log" using len by simp_all
    have "replay_log c step s (log @ rest) = replay_log c step t (drop (4 + ?n) log @ rest)"
      using l st len False by (subst replay_log.simps) (simp add: Let_def)
    also have "\<dots> = replay_log c step s' rest"
      using l r by (intro less.hyps) auto
    finally show ?thesis .
  qed
qed

text \<open>A torn write: a proper part of a record at the end of the file is refused, never half-applied.\<close>

lemma replay_torn:
  assumes "frame e rec = Inr b" and "k < length b" and "k > 0"
  shows "replay_log c step s (take k b) = Inl c"
proof -
  have b: "b = be_bytes 4 (length rec) @ rec" and l: "length rec < 256 ^ 4"
    using assms(1) by (auto simp: frame_def split: if_splits)
  have "0 < length (take 4 (take k b))" using assms(2,3) by simp
  then have ne: "take 4 (take k b) \<noteq> []" by (simp only: length_greater_0_conv not_False_eq_True simp_thms)
  show ?thesis
  proof (cases "k < 4")
    case True
    then have "length (take 4 (take k b)) \<noteq> 4" by simp
    with ne show ?thesis by (subst replay_log.simps) (simp add: Let_def)
  next
    case False
    then have m: "min 4 k = 4" by simp
    have t: "take 4 b = be_bytes 4 (length rec)" by (simp add: b)
    have "length (take (length rec) (drop 4 (take k b))) \<noteq> length rec"
      using assms(2) False by (simp add: b)
    with ne show ?thesis
      using be_nat_be_bytes [OF l] by (subst replay_log.simps) (auto simp: Let_def t m)
  qed
qed

section \<open>The contract of a logged component\<close>

text \<open>
  \<open>append s op\<close> is an operation on the in-memory state that writes one record, or none for an
  operation that only reads; \<open>replay s rec\<close> is the effect of a record found in the file. An operation
  that fails writes nothing and leaves the state as it was.
\<close>

locale wal =
  fixes append :: "'s \<Rightarrow> 'op \<Rightarrow> exn + ('s \<times> bytes option)"
    and replay :: "'s \<Rightarrow> bytes \<Rightarrow> exn + 's"
    and inv :: "'s \<Rightarrow> bool"
    and init :: 's
    and corrupt :: exn
    and too_long :: exn
  assumes init_inv: "inv init"
    and append_replay: "inv s \<Longrightarrow> append s op = Inr (s', Some rec) \<Longrightarrow> replay s rec = Inr s'"
    and append_none: "inv s \<Longrightarrow> append s op = Inr (s', None) \<Longrightarrow> s' = s"
    and append_inv: "inv s \<Longrightarrow> append s op = Inr (s', r) \<Longrightarrow> inv s'"
begin

text \<open>One operation on the running component: memory and file.\<close>

definition run1 :: "'s \<times> bytes \<Rightarrow> 'op \<Rightarrow> 's \<times> bytes" where
  "run1 sf op =
     (case append (fst sf) op of
        Inl _ \<Rightarrow> sf
      | Inr (s', None) \<Rightarrow> (s', snd sf)
      | Inr (s', Some rec) \<Rightarrow> (case frame too_long rec of Inl _ \<Rightarrow> sf | Inr b \<Rightarrow> (s', snd sf @ b)))"

definition run :: "'op list \<Rightarrow> 's \<times> bytes" where
  "run ops = foldl run1 (init, []) ops"

definition recovered :: "bytes \<Rightarrow> exn + 's" where
  "recovered file = replay_log corrupt replay init file"

text \<open>The file is a sequence of frames whose replay gives the state.\<close>

definition synced :: "'s \<times> bytes \<Rightarrow> bool" where
  "synced sf \<longleftrightarrow> inv (fst sf) \<and> (\<forall>rest. replay_log corrupt replay init (snd sf @ rest) = replay_log corrupt replay (fst sf) rest)"

lemma synced_init: "synced (init, [])"
  by (simp add: synced_def init_inv)

lemma synced_run1:
  assumes "synced sf" shows "synced (run1 sf op)"
proof (cases "append (fst sf) op")
  case (Inr x)
  obtain s' r where x: "x = (s', r)" by (cases x)
  note inv' = append_inv [of "fst sf" op s' r]
  show ?thesis
  proof (cases r)
    case None
    then show ?thesis using assms Inr x inv' append_none [of "fst sf" op s'] by (simp add: run1_def synced_def)
  next
    case (Some rec)
    show ?thesis
    proof (cases "frame too_long rec")
      case (Inr b)
      then show ?thesis
        using assms \<open>append (fst sf) op = Inr x\<close> x Some inv' append_replay [of "fst sf" op s' rec]
        by (simp add: run1_def synced_def replay_frame [OF Inr])
    qed (use assms Inr x Some in \<open>simp add: run1_def\<close>)
  qed
qed (use assms in \<open>simp add: run1_def\<close>)

lemma synced_run: "synced (run ops)"
  unfolding run_def by (induction ops rule: rev_induct) (auto simp: synced_init synced_run1)

lemma run_inv: "inv (fst (run ops))"
  using synced_run by (simp add: synced_def)

lemma recovery: "recovered (snd (run ops)) = Inr (fst (run ops))"
  using synced_run [of ops] by (simp add: recovered_def synced_def) (metis append_Nil2 replay_Nil)

text \<open>A crash in the middle of writing the next record.\<close>

lemma torn_write:
  assumes "append (fst (run ops)) op = Inr (s', Some rec)" and "frame too_long rec = Inr b" and "k < length b"
  shows "recovered (snd (run ops) @ take k b) = (if k = 0 then Inr (fst (run ops)) else Inl corrupt)"
  using synced_run [of ops] replay_torn [OF assms(2,3)] recovery [of ops]
  by (auto simp: recovered_def synced_def)

end

end
