(* ===== verification/Delivery.thy ===== *)
theory Delivery
  imports AuditChain Bodies Wal
begin

text \<open>
  Delivery (\<^verbatim>\<open>impl/python/naalp/delivery.py\<close>): the signed stage updates, the durable stage tracker over its
  write-ahead log, and the relay that keeps receipts only. The switchboard is in theory \<open>Switchboard\<close>. The
  file of a tracker is part of its state and its lock makes every call atomic towards other calls; the process may die
  inside a call, with any part of the record written. Errors the operating system's write raises are not modelled.
\<close>

section \<open>Stage updates\<close>

definition STAGE_PERSISTED_ORIGIN :: int where "STAGE_PERSISTED_ORIGIN = 0"
definition STAGE_ACCEPTED_RELAY :: int where "STAGE_ACCEPTED_RELAY = 1"
definition STAGE_PERSISTED_TARGET :: int where "STAGE_PERSISTED_TARGET = 2"
definition STAGE_PRESENTED :: int where "STAGE_PRESENTED = 3"

definition STAGE_NAMES :: "string list" where
  "STAGE_NAMES = [''persisted_origin'', ''accepted_relay'', ''persisted_target'', ''presented'']"

definition stage_name :: "int \<Rightarrow> string" where
  "stage_name stage = (if 0 \<le> stage \<and> stage < int (length STAGE_NAMES) then STAGE_NAMES ! nat stage else ''unknown'')"

definition delivery_content_id :: "prims \<Rightarrow> bytes \<Rightarrow> bytes" where
  "delivery_content_id P b = content_id_bytes (sha384 P) b"

record stage_update =
  du_obj :: bytes
  du_stage :: int
  du_at :: int

definition update_bytes :: "stage_update \<Rightarrow> bytes res" where
  "update_bytes u = encode (M [(U 1, B (du_obj u)), (U 2, U (du_stage u)), (U 3, U (du_at u))])"

definition sign_update :: "prims \<Rightarrow> stage_update \<Rightarrow> int \<Rightarrow> bytes \<Rightarrow> bytes res" where
  "sign_update P u alg seed = rbind (update_bytes u) (mldsa_sign P alg seed)"

definition verify_update :: "prims \<Rightarrow> stage_update \<Rightarrow> int \<Rightarrow> bytes \<Rightarrow> bytes \<Rightarrow> bool res" where
  "verify_update P u alg pubkey sig = rbind (update_bytes u) (\<lambda>m. mldsa_verify P alg pubkey m sig)"

definition update_field :: "int \<Rightarrow> cbor \<Rightarrow> bool" where
  "update_field n v \<longleftrightarrow> n = 1 \<and> is_B v \<or> n = 2 \<and> is_U v \<or> n = 3 \<and> is_U v"

definition parse_update :: "bytes \<Rightarrow> stage_update res" where
  "parse_update rec =
     rbind (case decode rec of Inl e \<Rightarrow> Inl (if e = NonCanonical then DeliveryError ''Malformed'' else e) | Inr v \<Rightarrow> Inr v) (\<lambda>v.
       rbind (typed_fields update_field (DeliveryError ''Malformed'') v) (\<lambda>m.
         case (m 1, m 2, m 3) of
           (Some (B ob), Some (U stage), Some (U at)) \<Rightarrow> Inr \<lparr>du_obj = ob, du_stage = stage, du_at = at\<rparr>
         | _ \<Rightarrow> Inl (DeliveryError ''Malformed'')))"

section \<open>The tracker\<close>

type_synonym stages = "bytes \<rightharpoonup> int"

record tracker =
  current :: stages
  t_file :: bytes

definition replay_update :: "stages \<Rightarrow> bytes \<Rightarrow> stages res" where
  "replay_update cur rec = rbind (parse_update rec) (\<lambda>u. Inr (cur(du_obj u \<mapsto> du_stage u)))"

definition open_tracker :: "bytes \<Rightarrow> tracker res" where
  "open_tracker file =
     rbind (replay_log (DeliveryError ''Malformed'') replay_update Map.empty file) (\<lambda>cur.
       Inr \<lparr>current = cur, t_file = file\<rparr>)"

text \<open>The decision on the memory, with the record it writes, if any.\<close>

definition advance_stages :: "stages \<Rightarrow> stage_update \<Rightarrow> (stages \<times> bytes option) res" where
  "advance_stages cur u =
     (case cur (du_obj u) of
        Some c \<Rightarrow>
          if du_stage u < c then Inl (DeliveryError ''StageOutOfOrder'')
          else if du_stage u = c then Inr (cur, None)
          else rbind (update_bytes u) (\<lambda>rec. Inr (cur(du_obj u \<mapsto> du_stage u), Some rec))
      | None \<Rightarrow> rbind (update_bytes u) (\<lambda>rec. Inr (cur(du_obj u \<mapsto> du_stage u), Some rec)))"

definition advance :: "tracker \<Rightarrow> bytes \<Rightarrow> int \<Rightarrow> int \<Rightarrow> (tracker \<times> stage_update) res" where
  "advance t ob stage at =
     (let u = \<lparr>du_obj = ob, du_stage = stage, du_at = at\<rparr> in
      rbind (advance_stages (current t) u) (\<lambda>(cur', rec).
        case rec of
          None \<Rightarrow> Inr (t, u)
        | Some r \<Rightarrow> rbind (frame StructError r) (\<lambda>b. Inr (\<lparr>current = cur', t_file = t_file t @ b\<rparr>, u))))"

definition tracker_stage :: "tracker \<Rightarrow> bytes \<Rightarrow> int \<times> bool" where
  "tracker_stage t ob = (case current t ob of Some s \<Rightarrow> (s, True) | None \<Rightarrow> (0, False))"

section \<open>The content-free relay\<close>

record relay =
  relay_auth :: ordering_authority
  relay_receipts :: "receipt list"
  relay_sigs :: "bytes list"

definition new_relay :: "int \<Rightarrow> bytes \<Rightarrow> relay" where
  "new_relay alg seed = \<lparr>relay_auth = new_authority alg seed, relay_receipts = [], relay_sigs = []\<rparr>"

definition route :: "prims \<Rightarrow> relay \<Rightarrow> bytes \<Rightarrow> int \<Rightarrow> (relay \<times> bytes) res" where
  "route P rl ob at =
     rbind (append_receipt P (relay_auth rl) (delivery_content_id P ob) at) (\<lambda>(a, r, sig).
       Inr (\<lparr>relay_auth = a, relay_receipts = relay_receipts rl @ [r], relay_sigs = relay_sigs rl @ [sig]\<rparr>, ob))"

definition audit_trail :: "relay \<Rightarrow> receipt list \<times> bytes list" where
  "audit_trail rl = (relay_receipts rl, relay_sigs rl)"

section \<open>Updates as bytes\<close>

lemma update_keys: "field_keys [1, 2, 3]"
  by (simp add: field_keys_def)

definition update_value :: "stage_update \<Rightarrow> int \<Rightarrow> cbor" where
  "update_value u n = (if n = 1 then B (du_obj u) else if n = 2 then U (du_stage u) else U (du_at u))"

lemma update_body: "update_bytes u = encode (body_of (update_value u) [1, 2, 3])"
  by (simp add: update_bytes_def update_value_def del: encode.simps)

lemma update_fieldE: "update_field n v \<Longrightarrow> n \<in> set [1, 2, 3]"
  by (auto simp: update_field_def)

lemma parse_update_bytes:
  assumes "update_bytes u = Inr b" shows "parse_update b = Inr u"
proof -
  have "decode b = Inr (body_of (update_value u) [1, 2, 3])"
    by (rule decode_body [OF _ update_keys]) (use assms in \<open>simp_all add: update_body update_value_def leaf_def del: encode.simps body_of_simps\<close>)
  moreover have "typed_fields update_field x (body_of (update_value u) [1, 2, 3])
      = Inr (\<lambda>n. if n \<in> set [1, 2, 3] then Some (update_value u n) else None)" for x
    by (rule typed_fields_body [OF update_keys]) (simp add: update_field_def update_value_def)
  ultimately show ?thesis by (simp add: parse_update_def update_value_def del: body_of_simps)
qed

lemma update_bytes_parse:
  assumes "parse_update b = Inr u" shows "update_bytes u = Inr b"
proof -
  obtain v m where d: "decode b = Inr v" and m: "typed_fields update_field (DeliveryError ''Malformed'') v = Inr m"
    and f: "m 1 = Some (B (du_obj u))" "m 2 = Some (U (du_stage u))" "m 3 = Some (U (du_at u))"
    using assms by (auto simp: parse_update_def res_simps case_option_eq_Inr split: sum.splits)
  have "encode (body_of (\<lambda>n. the (m n)) [1, 2, 3]) = Inr b"
    using typed_fields_sound(1) [OF d m update_keys update_fieldE] f by (simp del: encode.simps)
  then show ?thesis using f by (simp add: update_body update_value_def del: encode.simps)
qed

interpretation update_codec: byte_codec update_bytes parse_update "\<lambda>u. u" "\<lambda>_. True"
  by unfold_locales (blast intro: parse_update_bytes update_bytes_parse)+

section \<open>The tracker as a logged component\<close>

lemma advance_stages_Inr:
  "advance_stages cur u = Inr (cur', rec) \<longleftrightarrow>
     (cur (du_obj u) = Some (du_stage u) \<and> cur' = cur \<and> rec = None) \<or>
     ((\<forall>c. cur (du_obj u) = Some c \<longrightarrow> c < du_stage u) \<and>
       (\<exists>b. update_bytes u = Inr b \<and> rec = Some b) \<and> cur' = cur(du_obj u \<mapsto> du_stage u))"
  by (auto simp: advance_stages_def res_simps split: option.splits)

interpretation tracker_wal: wal advance_stages replay_update "\<lambda>_. True" Map.empty "DeliveryError ''Malformed''" StructError
  by unfold_locales (auto simp: advance_stages_Inr replay_update_def dest: parse_update_bytes)

lemma advance_Inr:
  "advance t ob stage at = Inr (t', u) \<longleftrightarrow>
     u = \<lparr>du_obj = ob, du_stage = stage, du_at = at\<rparr> \<and>
     (current t ob = Some stage \<and> t' = t \<or>
      (\<forall>c. current t ob = Some c \<longrightarrow> c < stage) \<and>
        (\<exists>rec b. update_bytes u = Inr rec \<and> frame StructError rec = Inr b \<and>
           t' = \<lparr>current = (current t)(ob \<mapsto> stage), t_file = t_file t @ b\<rparr>))"
  by (cases "current t ob") (auto simp: advance_def advance_stages_def Let_def rbind_eq_Inr if_Inl_eq_Inr)

definition tracker_ok :: "tracker \<Rightarrow> bool" where
  "tracker_ok t \<longleftrightarrow> tracker_wal.synced (current t, t_file t)"

lemma advance_ok:
  assumes "tracker_ok t" and "advance t ob stage at = Inr (t', u)" shows "tracker_ok t'"
proof -
  have "(current t', t_file t') = tracker_wal.run1 (current t, t_file t) u"
  proof (cases "current t ob = Some stage")
    case True
    then have "t' = t" "du_obj u = ob" "du_stage u = stage" using assms(2) by (auto simp: advance_Inr)
    moreover from this have "advance_stages (current t) u = Inr (current t, None)" using True by (simp add: advance_stages_Inr)
    ultimately show ?thesis by (simp add: tracker_wal.run1_def)
  next
    case False
    then obtain rec b where u: "du_obj u = ob" "du_stage u = stage" "\<forall>c. current t ob = Some c \<longrightarrow> c < stage"
      and w: "update_bytes u = Inr rec" "frame StructError rec = Inr b"
        "t' = \<lparr>current = (current t)(ob \<mapsto> stage), t_file = t_file t @ b\<rparr>"
      using assms(2) by (auto simp: advance_Inr)
    have "advance_stages (current t) u = Inr ((current t)(ob \<mapsto> stage), Some rec)"
      using u w(1) by (simp add: advance_stages_Inr)
    then show ?thesis using w by (simp add: tracker_wal.run1_def)
  qed
  then show ?thesis using tracker_wal.synced_run1 [of "(current t, t_file t)" u] assms(1) by (simp add: tracker_ok_def)
qed

lemma open_tracker_ok: "open_tracker file = Inr t \<Longrightarrow> tracker_ok t"
  by (auto simp: open_tracker_def rbind_eq_Inr tracker_ok_def tracker_wal.synced_def replay_append)

lemma reopen_tracker: "tracker_ok t \<Longrightarrow> open_tracker (t_file t) = Inr t"
proof -
  assume "tracker_ok t"
  then have "replay_log (DeliveryError ''Malformed'') replay_update Map.empty (t_file t @ []) = Inr (current t)"
    unfolding tracker_ok_def tracker_wal.synced_def by (simp del: append_Nil2)
  then show ?thesis by (simp add: open_tracker_def)
qed

text \<open>
  A history of calls with their outcomes. The process may die at any moment: between two calls, or inside a call, after
  any part of the record it was appending reached the disk and before the update was returned. Then the call has no
  outcome, and the tracker goes on from what reopening the file gives.
\<close>

type_synonym tracker_event = "(bytes \<times> int) \<times> stage_update res option"

inductive tracker_run :: "tracker \<Rightarrow> tracker_event list \<Rightarrow> tracker \<Rightarrow> bool" for t0 where
  start: "tracker_run t0 [] t0"
| accept: "tracker_run t0 tr t \<Longrightarrow> advance t ob stage at = Inr (t', u) \<Longrightarrow> tracker_run t0 (tr @ [((ob, stage), Some (Inr u))]) t'"
| refuse: "tracker_run t0 tr t \<Longrightarrow> advance t ob stage at = Inl e \<Longrightarrow> tracker_run t0 (tr @ [((ob, stage), Some (Inl e))]) t"
| crash: "tracker_run t0 tr t \<Longrightarrow> open_tracker (t_file t) = Inr t' \<Longrightarrow> tracker_run t0 tr t'"
| interrupt: "tracker_run t0 tr t \<Longrightarrow> advance t ob stage at = Inr (t', u) \<Longrightarrow> t_file t' = t_file t @ b \<Longrightarrow>
    open_tracker (t_file t @ take k b) = Inr t'' \<Longrightarrow> tracker_run t0 (tr @ [((ob, stage), None)]) t''"

text \<open>A partly written record is refused when the file is reopened; a whole one counts, acknowledged or not.\<close>

lemma torn_record_refused:
  assumes "tracker_ok t" and "advance t ob stage at = Inr (t', u)" and "t_file t' = t_file t @ b" and "0 < k" and "k < length b"
  shows "open_tracker (t_file t @ take k b) = Inl (DeliveryError ''Malformed'')"
proof -
  obtain rec where "frame StructError rec = Inr b" using assms(2-5) by (auto simp: advance_Inr)
  then have "replay_log (DeliveryError ''Malformed'') replay_update (current t) (take k b) = Inl (DeliveryError ''Malformed'')"
    using assms(4,5) by (intro replay_torn)
  then show ?thesis
    using assms(1) by (simp add: open_tracker_def tracker_ok_def tracker_wal.synced_def)
qed

lemma interrupted_reopen:
  assumes "tracker_ok t" and "advance t ob stage at = Inr (t', u)" and "t_file t' = t_file t @ b"
    and "open_tracker (t_file t @ take k b) = Inr t''"
  shows "t'' = t \<or> t'' = t'"
proof -
  consider "k = 0" | "0 < k" "k < length b" | "length b \<le> k" by linarith
  then show ?thesis
  proof cases
    case 1
    then show ?thesis using reopen_tracker [OF assms(1)] assms(4) by simp
  next
    case 2
    then show ?thesis using torn_record_refused [OF assms(1-3)] assms(4) by simp
  next
    case 3
    then show ?thesis using reopen_tracker [OF advance_ok [OF assms(1,2)]] assms(3,4) by simp
  qed
qed

lemma tracker_run_ok: "tracker_run t0 tr t \<Longrightarrow> tracker_ok t0 \<Longrightarrow> tracker_ok t"
  by (induction rule: tracker_run.induct) (auto intro: advance_ok dest: open_tracker_ok)

text \<open>The abstract tracker: the stages acknowledged for an object, and those of calls that died.\<close>

definition acknowledged :: "tracker_event list \<Rightarrow> bytes \<Rightarrow> int set" where
  "acknowledged tr ob = {stage. \<exists>u. ((ob, stage), Some (Inr u)) \<in> set tr}"

definition interrupted :: "tracker_event list \<Rightarrow> bytes \<Rightarrow> int set" where
  "interrupted tr ob = {stage. ((ob, stage), None) \<in> set tr}"

lemma acknowledged_simps [simp]:
  "acknowledged [] ob = {}"
  "acknowledged (tr @ [((ob', stage), Some (Inr u))]) ob = (if ob = ob' then insert stage (acknowledged tr ob) else acknowledged tr ob)"
  "acknowledged (tr @ [((ob', stage), Some (Inl e))]) ob = acknowledged tr ob"
  "acknowledged (tr @ [((ob', stage), None)]) ob = acknowledged tr ob"
  by (auto simp: acknowledged_def)

lemma interrupted_simps [simp]:
  "interrupted [] ob = {}"
  "interrupted (tr @ [((ob', stage), Some r)]) ob = interrupted tr ob"
  "interrupted (tr @ [((ob', stage), None)]) ob = (if ob = ob' then insert stage (interrupted tr ob) else interrupted tr ob)"
  by (auto simp: interrupted_def)

definition max_stage :: "int set \<Rightarrow> int option" where
  "max_stage S = (if S = {} then None else Some (Max S))"

lemma advance_max:
  assumes "advance t ob' stage at = Inr (t', u)" and "finite S" and "current t ob = max_stage S"
  shows "current t' ob = max_stage (if ob = ob' then insert stage S else S)"
proof (cases "ob = ob'")
  case True
  show ?thesis
  proof (cases "S = {}")
    case True
    then show ?thesis using assms(1,3) \<open>ob = ob'\<close> by (auto simp: advance_Inr max_stage_def)
  next
    case False
    then have c: "current t ob' = Some (Max S)" using assms(3) True by (simp add: max_stage_def)
    have "current t' ob' = Some stage" "Max S \<le> stage"
      using assms(1) c unfolding advance_Inr by (elim conjE disjE exE; simp)+
    then show ?thesis using False True assms(2) by (simp add: max_stage_def max.absorb1)
  qed
qed (use assms in \<open>auto simp: advance_Inr\<close>)

text \<open>The stages that are on the disk: all acknowledged ones, and some of those whose call died.\<close>

definition durable :: "tracker_event list \<Rightarrow> bytes \<Rightarrow> int set \<Rightarrow> bool" where
  "durable tr ob S \<longleftrightarrow> finite S \<and> acknowledged tr ob \<subseteq> S \<and> S \<subseteq> acknowledged tr ob \<union> interrupted tr ob"

lemma tracker_run_max:
  assumes "tracker_run t0 tr t" and "tracker_ok t0" and "current t0 = Map.empty"
  shows "\<exists>S. durable tr ob S \<and> current t ob = max_stage S"
  using assms
proof (induction rule: tracker_run.induct)
  case start
  then show ?case by (auto simp: max_stage_def durable_def)
next
  case (accept tr t ob' stage at t' u)
  then obtain S where S: "durable tr ob S" "current t ob = max_stage S" by blast
  then have "durable (tr @ [((ob', stage), Some (Inr u))]) ob (if ob = ob' then insert stage S else S)" by (auto simp: durable_def)
  moreover have "current t' ob = max_stage (if ob = ob' then insert stage S else S)"
    using advance_max [OF accept.hyps(2)] S by (simp add: durable_def)
  ultimately show ?case by blast
next
  case (crash tr t t')
  then show ?case using reopen_tracker [OF tracker_run_ok [OF crash.hyps(1) crash.prems(1)]] by simp
next
  case (interrupt tr t ob' stage at t' u b k t'')
  then obtain S where S: "durable tr ob S" "current t ob = max_stage S" by blast
  let ?tr = "tr @ [((ob', stage), None)]" and ?S = "if ob = ob' then insert stage S else S"
  have d: "durable ?tr ob S" "durable ?tr ob ?S" using S(1) by (auto simp: durable_def)
  have "current t' ob = max_stage ?S" using advance_max [OF interrupt.hyps(2)] S by (simp add: durable_def)
  moreover have "t'' = t \<or> t'' = t'"
    by (rule interrupted_reopen [OF tracker_run_ok [OF interrupt.hyps(1) interrupt.prems(1)] interrupt.hyps(2-4)])
  ultimately show ?case using S(2) d by metis
qed (auto simp: durable_def)

section \<open>The relay\<close>

fun route_all :: "prims \<Rightarrow> relay \<Rightarrow> (bytes \<times> int) list \<Rightarrow> (relay \<times> bytes list) res" where
  "route_all P rl [] = Inr (rl, [])"
| "route_all P rl ((ob, at) # rest) =
     rbind (route P rl ob at) (\<lambda>(rl', o1). rbind (route_all P rl' rest) (\<lambda>(rl'', os). Inr (rl'', o1 # os)))"

lemma route_all_receipts:
  assumes "route_all P rl xs = Inr (rl', os)"
  shows "os = map fst xs \<and> (\<exists>rs. append_receipts P (relay_auth rl) (map (\<lambda>(ob, at). (delivery_content_id P ob, at)) xs) = Inr (relay_auth rl', rs) \<and>
    relay_receipts rl' = relay_receipts rl @ map fst rs \<and> relay_sigs rl' = relay_sigs rl @ map snd rs)"
  using assms
proof (induction P rl xs arbitrary: os rule: route_all.induct)
  case (2 P rl ob at rest)
  obtain a r sig os' where a: "append_receipt P (relay_auth rl) (delivery_content_id P ob) at = Inr (a, r, sig)"
    and t: "route_all P \<lparr>relay_auth = a, relay_receipts = relay_receipts rl @ [r], relay_sigs = relay_sigs rl @ [sig]\<rparr> rest = Inr (rl', os')"
    and os: "os = ob # os'"
    using "2.prems" by (auto simp: route_def rbind_eq_Inr)
  have "route P rl ob at = Inr (\<lparr>relay_auth = a, relay_receipts = relay_receipts rl @ [r], relay_sigs = relay_sigs rl @ [sig]\<rparr>, ob)"
    using a by (simp add: route_def)
  from "2.IH" [OF this refl t] show ?case using a os by auto
qed simp

section \<open>Properties\<close>

text \<open>C20: The tracker refines the abstract one that keeps, per object, the greatest durable stage, across crashes at
  any moment. From an empty log, after any calls, refusals, crashes between calls and crashes inside a call (with any
  part of its record on the disk), there is a set of stages that holds every acknowledged stage, and beyond those only
  stages of calls that died before they returned, such that the stage the tracker holds is its maximum: no
  acknowledged stage is ever lost or passed below. Reopening the file gives exactly the tracker that was lost, a further
  call is refused with StageOutOfOrder precisely when a greater stage is durable, and if it dies with only a part of its
  record written, reopening refuses the file as malformed.\<close>

theorem tracker_refines_max:
  assumes "open_tracker [] = Inr t0" and "tracker_run t0 tr t"
  shows "(\<exists>S. acknowledged tr ob \<subseteq> S \<and> S \<subseteq> acknowledged tr ob \<union> interrupted tr ob \<and> current t ob = max_stage S \<and>
      (advance t ob stage at = Inl (DeliveryError ''StageOutOfOrder'') \<longleftrightarrow> (\<exists>s \<in> S. stage < s))) \<and>
    open_tracker (t_file t) = Inr t \<and>
    (\<forall>t' u b k. advance t ob stage at = Inr (t', u) \<and> t_file t' = t_file t @ b \<and> 0 < k \<and> k < length b \<longrightarrow>
       open_tracker (t_file t @ take k b) = Inl (DeliveryError ''Malformed''))"
proof -
  have c0: "tracker_ok t0" "current t0 = Map.empty"
    using open_tracker_ok [OF assms(1)] assms(1) by (auto simp: open_tracker_def)
  note ok = tracker_run_ok [OF assms(2) c0(1)]
  obtain S where S: "durable tr ob S" and max: "current t ob = max_stage S"
    using tracker_run_max [OF assms(2) c0] by blast
  have enc: "update_bytes u \<noteq> Inl (DeliveryError k)" for u k
    using encode_errors by (auto simp: update_bytes_def simp del: encode.simps)
  have "advance t ob stage at = Inl (DeliveryError ''StageOutOfOrder'') \<longleftrightarrow> (\<exists>c. current t ob = Some c \<and> stage < c)"
    using enc by (auto simp: advance_def advance_stages_def Let_def frame_def rbind_eq_Inl split: option.splits if_splits)
  also have "\<dots> \<longleftrightarrow> (\<exists>s \<in> S. stage < s)"
    unfolding max max_stage_def using S by (auto simp: Max_gr_iff durable_def)
  finally have "\<exists>S. acknowledged tr ob \<subseteq> S \<and> S \<subseteq> acknowledged tr ob \<union> interrupted tr ob \<and> current t ob = max_stage S \<and>
      (advance t ob stage at = Inl (DeliveryError ''StageOutOfOrder'') \<longleftrightarrow> (\<exists>s \<in> S. stage < s))"
    using S max by (intro exI [of _ S]) (simp add: durable_def)
  then show ?thesis using reopen_tracker [OF ok] torn_record_refused [OF ok] by blast
qed

theorem tracker_refines_max_witness:
  "\<exists>t0 tr t. open_tracker [] = Inr t0 \<and> tracker_run t0 tr t \<and> current t [1] = Some 2 \<and>
     advance t [1] 1 9 = Inl (DeliveryError ''StageOutOfOrder'') \<and> (([1], 1), None) \<in> set tr"
proof -
  let ?t0 = "\<lparr>current = Map.empty, t_file = []\<rparr>"
  have o: "open_tracker [] = Inr ?t0" by (simp add: open_tracker_def)
  have "is_ok (advance ?t0 [1] 1 8)" "is_ok (advance ?t0 [1] 2 8)" by code_simp+
  then obtain t1 u1 t u where a1: "advance ?t0 [1] 1 8 = Inr (t1, u1)" and a: "advance ?t0 [1] 2 8 = Inr (t, u)"
    by (auto simp: is_ok_iff)
  have "tracker_run ?t0 ([] @ [(([1], 1), None)]) ?t0"
    by (rule tracker_run.interrupt [OF tracker_run.start a1, of "t_file t1" 0]) (simp_all add: open_tracker_def)
  then have r: "tracker_run ?t0 (([] @ [(([1], 1), None)]) @ [(([1], 2), Some (Inr u))]) t"
    by (rule tracker_run.accept [OF _ a])
  let ?tr = "([] @ [(([1], 1), None)]) @ [(([1], 2), Some (Inr u))]"
  have sets: "acknowledged ?tr [1] = {2}" "interrupted ?tr [1] = {1}"
    by (simp_all only: acknowledged_simps interrupted_simps) simp_all
  obtain S where S: "{2} \<subseteq> S" "S \<subseteq> {2} \<union> {1}" "current t [1] = max_stage S"
      "advance t [1] 1 9 = Inl (DeliveryError ''StageOutOfOrder'') \<longleftrightarrow> (\<exists>s \<in> S. 1 < s)"
    using tracker_refines_max [OF o r, of "[1]" 1 9] unfolding sets by blast
  then have "S = {2} \<or> S = {1, 2}" by auto
  then have "max_stage S = Some 2" "\<exists>s \<in> S. 1 < s" by (auto simp: max_stage_def)
  then have "current t [1] = Some 2" "advance t [1] 1 9 = Inl (DeliveryError ''StageOutOfOrder'')"
    by (simp_all only: S(3,4))
  moreover have "(([1], 1), None) \<in> set ?tr" by simp
  ultimately show ?thesis using o r by (intro exI conjI)
qed

text \<open>The content-free relay forwards every object unchanged, and the trail it keeps, receipts over content ids only, is
  a chain that verifies under its key and names the routed objects in order.\<close>

theorem relay_trail_verifies:
  assumes "md_correct P" and "md_key_derive P alg seed = Inr (pk, sk)"
    and "route_all P (new_relay alg seed) xs = Inr (rl, os)" and "audit_trail rl = (receipts, sigs)"
  shows "os = map fst xs \<and> verify_chain P receipts sigs alg pk = Inr () \<and>
    map (\<lambda>r. (rc_obj r, rc_at r)) receipts = map (\<lambda>(ob, at). (delivery_content_id P ob, at)) xs"
proof -
  obtain rs where os: "os = map fst xs"
    and rs: "append_receipts P (new_authority alg seed) (map (\<lambda>(ob, at). (delivery_content_id P ob, at)) xs) = Inr (relay_auth rl, rs)"
    and t: "receipts = map fst rs" "sigs = map snd rs"
    using route_all_receipts [OF assms(3)] assms(4) by (auto simp: new_relay_def audit_trail_def)
  from append_receipts_verify [OF assms(1) _ rs, of pk sk] assms(2)
  have "verify_receipts P alg pk 0 (replicate RECEIPT_HEAD_SIZE 0) rs = Inr ()"
    and "map (\<lambda>(r, _). (rc_obj r, rc_at r)) rs = map (\<lambda>(ob, at). (delivery_content_id P ob, at)) xs"
    by (simp_all add: new_authority_def)
  then show ?thesis using os t by (simp add: verify_chain_def zip_map_fst_snd case_prod_unfold comp_def)
qed

theorem relay_trail_verifies_witness:
  "\<exists>rl os. route_all sample_prims (new_relay (- 49) [5]) [([1], 10), ([2], 11)] = Inr (rl, os) \<and> os = [[1], [2]] \<and>
     verify_chain sample_prims (relay_receipts rl) (relay_sigs rl) (- 49) [5] = Inr ()"
proof -
  have "is_ok (route_all sample_prims (new_relay (- 49) [5]) [([1], 10), ([2], 11)])"
    by code_simp
  then obtain rl os where r: "route_all sample_prims (new_relay (- 49) [5]) [([1], 10), ([2], 11)] = Inr (rl, os)"
    by (auto simp: is_ok_iff)
  have "audit_trail rl = (relay_receipts rl, relay_sigs rl)" by (simp add: audit_trail_def)
  from relay_trail_verifies [OF sample_prims_correct(1) sample_prims_sel(4) r this] r show ?thesis by auto
qed

end
