(* ===== verification/Switchboard.thy ===== *)
theory Switchboard
  imports Prelude
begin

text \<open>
  The switchboard of \<^verbatim>\<open>impl/python/naalp/delivery.py\<close>: two endpoints joined by two pump threads over four
  bounded queues. Each thread is a state machine over the queues; the steps of the pumps and of the callers
  interleave freely. A \<^verbatim>\<open>put\<close> on a full queue and a \<^verbatim>\<open>get\<close> on an empty one block, so they have no step. As in
  Python's \<^verbatim>\<open>queue.Queue\<close>, a capacity of zero or less means no bound.
\<close>

section \<open>One direction\<close>

datatype item = Obj bytes | SENTINEL

text \<open>The send queue, the object the pump has taken and not yet put, whether the pump runs, and the receive queue.\<close>

record lane =
  send_q :: "item list"
  held :: "bytes option"
  pumping :: bool
  recv_q :: "bytes list"

definition new_lane :: lane where
  "new_lane = \<lparr>send_q = [], held = None, pumping = True, recv_q = []\<rparr>"

definition has_room :: "int \<Rightarrow> 'a list \<Rightarrow> bool" where
  "has_room capacity q \<longleftrightarrow> capacity \<le> 0 \<or> int (length q) < capacity"

definition endpoint_send :: "int \<Rightarrow> lane \<Rightarrow> item \<Rightarrow> lane option" where
  "endpoint_send capacity l x = (if has_room capacity (send_q l) then Some (l\<lparr>send_q := send_q l @ [x]\<rparr>) else None)"

definition endpoint_recv :: "lane \<Rightarrow> (bytes \<times> lane) option" where
  "endpoint_recv l = (case recv_q l of [] \<Rightarrow> None | x # q \<Rightarrow> Some (x, l\<lparr>recv_q := q\<rparr>))"

text \<open>One step of the pump: take the next item, or put the one it holds.\<close>

definition pump :: "int \<Rightarrow> lane \<Rightarrow> lane option" where
  "pump capacity l =
     (if \<not> pumping l then None
      else (case held l of
          Some x \<Rightarrow> if has_room capacity (recv_q l) then Some (l\<lparr>held := None, recv_q := recv_q l @ [x]\<rparr>) else None
        | None \<Rightarrow> (case send_q l of
              [] \<Rightarrow> None
            | SENTINEL # q \<Rightarrow> Some (l\<lparr>send_q := q, pumping := False\<rparr>)
            | Obj x # q \<Rightarrow> Some (l\<lparr>send_q := q, held := Some x\<rparr>))))"

section \<open>The switchboard\<close>

datatype side = SideLeft | SideRight

record switchboard =
  capacity :: int
  lane_from :: "side \<Rightarrow> lane"

definition new_switchboard :: "int \<Rightarrow> switchboard" where
  "new_switchboard cap = \<lparr>capacity = cap, lane_from = (\<lambda>_. new_lane)\<rparr>"

fun other :: "side \<Rightarrow> side" where
  "other SideLeft = SideRight"
| "other SideRight = SideLeft"

datatype event = Sent side bytes | Received side bytes | Closing side | Pumped side

definition set_lane :: "switchboard \<Rightarrow> side \<Rightarrow> lane \<Rightarrow> switchboard" where
  "set_lane sb d l = sb\<lparr>lane_from := (lane_from sb)(d := l)\<rparr>"

text \<open>
  The steps of all threads. \<open>Sent d x\<close>: the endpoint on side \<open>d\<close> sends; \<open>Received d x\<close>: it receives what the
  other side sent; \<open>Closing d\<close>: \<^verbatim>\<open>close\<close> puts the sentinel into the send queue of side \<open>d\<close>; \<open>Pumped d\<close>: the
  pump that serves side \<open>d\<close>'s sends makes a step.
\<close>

inductive sb_step :: "switchboard \<Rightarrow> event \<Rightarrow> switchboard \<Rightarrow> bool" where
  send: "endpoint_send (capacity sb) (lane_from sb d) (Obj x) = Some l \<Longrightarrow> sb_step sb (Sent d x) (set_lane sb d l)"
| recv: "endpoint_recv (lane_from sb (other d)) = Some (x, l) \<Longrightarrow> sb_step sb (Received d x) (set_lane sb (other d) l)"
| close: "endpoint_send (capacity sb) (lane_from sb d) SENTINEL = Some l \<Longrightarrow> sb_step sb (Closing d) (set_lane sb d l)"
| pump: "pump (capacity sb) (lane_from sb d) = Some l \<Longrightarrow> sb_step sb (Pumped d) (set_lane sb d l)"

inductive sb_run :: "switchboard \<Rightarrow> event list \<Rightarrow> switchboard \<Rightarrow> bool" for sb0 where
  start: "sb_run sb0 [] sb0"
| step: "sb_run sb0 tr sb \<Longrightarrow> sb_step sb e sb' \<Longrightarrow> sb_run sb0 (tr @ [e]) sb'"

section \<open>What travels\<close>

fun sent_by :: "side \<Rightarrow> event \<Rightarrow> bytes list" where
  "sent_by d (Sent d' x) = (if d' = d then [x] else [])"
| "sent_by d _ = []"

fun received_by :: "side \<Rightarrow> event \<Rightarrow> bytes list" where
  "received_by d (Received d' x) = (if d' = d then [x] else [])"
| "received_by d _ = []"

definition sent :: "side \<Rightarrow> event list \<Rightarrow> bytes list" where
  "sent d tr = concat (map (sent_by d) tr)"

definition received :: "side \<Rightarrow> event list \<Rightarrow> bytes list" where
  "received d tr = concat (map (received_by d) tr)"

lemma trace_simps [simp]:
  "sent d [] = []" "received d [] = []"
  "sent d (tr @ [e]) = sent d tr @ sent_by d e" "received d (tr @ [e]) = received d tr @ received_by d e"
  by (simp_all add: sent_def received_def)

fun objects :: "item list \<Rightarrow> bytes list" where
  "objects [] = []"
| "objects (Obj x # q) = x # objects q"
| "objects (SENTINEL # q) = objects q"

lemma objects_append [simp]: "objects (p @ q) = objects p @ objects q"
  by (induction p rule: objects.induct) auto

definition in_transit :: "lane \<Rightarrow> bytes list" where
  "in_transit l = recv_q l @ (case held l of None \<Rightarrow> [] | Some x \<Rightarrow> [x]) @ objects (send_q l)"

lemma in_transit_send: "endpoint_send c l (Obj x) = Some l' \<Longrightarrow> in_transit l' = in_transit l @ [x]"
  by (auto simp: endpoint_send_def in_transit_def split: if_splits option.splits)

lemma in_transit_close: "endpoint_send c l SENTINEL = Some l' \<Longrightarrow> in_transit l' = in_transit l"
  by (auto simp: endpoint_send_def in_transit_def split: if_splits option.splits)

lemma in_transit_recv: "endpoint_recv l = Some (x, l') \<Longrightarrow> in_transit l = x # in_transit l'"
  by (auto simp: endpoint_recv_def in_transit_def split: list.splits)

lemma in_transit_pump: "pump c l = Some l' \<Longrightarrow> in_transit l' = in_transit l"
  by (auto simp: pump_def in_transit_def split: if_splits option.splits list.splits item.splits)

lemma other_simps [simp]: "other (other d) = d" "other d \<noteq> d" "d \<noteq> other d"
  by (cases d; simp)+

lemma sides: "d' = d \<or> d' = other d"
  by (cases d; cases d') simp_all

lemma step_conserves:
  assumes "sb_step sb e sb'" and "s = r @ in_transit (lane_from sb d)"
  shows "s @ sent_by d e = (r @ received_by (other d) e) @ in_transit (lane_from sb' d)"
  using assms
proof (cases rule: sb_step.cases)
  case (recv d' x l)
  then show ?thesis using assms(2) in_transit_recv [OF recv(3)] by (cases "d' = other d") (auto simp: set_lane_def)
qed (use assms(2) in \<open>auto simp: set_lane_def in_transit_send in_transit_close in_transit_pump\<close>)

text \<open>What bounds the queues, and what stops a pump.\<close>

definition lane_inv :: "int \<Rightarrow> lane \<Rightarrow> bool" where
  "lane_inv c l \<longleftrightarrow> (c > 0 \<longrightarrow> int (length (send_q l)) \<le> c \<and> int (length (recv_q l)) \<le> c) \<and> (\<not> pumping l \<longrightarrow> held l = None)"

lemma lane_inv_step:
  "lane_inv c l \<Longrightarrow> endpoint_send c l x = Some l' \<Longrightarrow> lane_inv c l'"
  "lane_inv c l \<Longrightarrow> endpoint_recv l = Some (y, l') \<Longrightarrow> lane_inv c l'"
  "lane_inv c l \<Longrightarrow> pump c l = Some l' \<Longrightarrow> lane_inv c l'"
  by (auto simp: lane_inv_def endpoint_send_def endpoint_recv_def pump_def has_room_def
      split: if_splits list.splits option.splits item.splits)

lemma step_inv:
  assumes "sb_step sb e sb'" and "\<forall>d. lane_inv (capacity sb) (lane_from sb d)"
  shows "capacity sb' = capacity sb \<and> (\<forall>d. lane_inv (capacity sb) (lane_from sb' d))"
proof -
  have "\<exists>d l. sb' = set_lane sb d l \<and> lane_inv (capacity sb) l"
    using assms(1) by (cases rule: sb_step.cases) (use assms(2) lane_inv_step in blast)+
  then show ?thesis using assms(2) by (auto simp: set_lane_def)
qed

lemma run_conserves:
  assumes "sb_run (new_switchboard c) tr sb"
  shows "capacity sb = c \<and> (\<forall>d. lane_inv c (lane_from sb d)) \<and>
    (\<forall>d. sent d tr = received (other d) tr @ in_transit (lane_from sb d))"
  using assms
proof (induction rule: sb_run.induct)
  case start
  then show ?case by (auto simp: new_switchboard_def new_lane_def lane_inv_def in_transit_def)
next
  case (step tr sb e sb')
  then show ?case using step_inv [OF step.hyps(2)] step_conserves [OF step.hyps(2)] by auto
qed

section \<open>Properties\<close>

text \<open>C36: Under every interleaving of both callers, both pumps and the closing thread, each direction is a reliable bounded FIFO: what
  one side received, followed by what is in transit, is exactly what the other side sent, in order, with
  nothing lost, duplicated or reordered; the queues never exceed their capacity.\<close>

theorem switchboard_fifo:
  assumes "sb_run (new_switchboard cap) tr sb"
  shows "sent d tr = received (other d) tr @ in_transit (lane_from sb d) \<and>
    (cap > 0 \<longrightarrow> int (length (in_transit (lane_from sb d))) \<le> 2 * cap + 1)"
proof -
  note c = run_conserves [OF assms]
  have "length (objects q) \<le> length q" for q by (induction q rule: objects.induct) auto
  from this [of "send_q (lane_from sb d)"] c show ?thesis
    by (auto simp: lane_inv_def in_transit_def split: option.splits)
      (smt (verit) of_nat_le_iff)+
qed

theorem switchboard_fifo_witness:
  "\<exists>tr sb. sb_run (new_switchboard 1) tr sb \<and> sent SideLeft tr = [[7]] \<and> received SideRight tr @ in_transit (lane_from sb SideLeft) = [[7]]"
proof -
  let ?l = "new_lane\<lparr>send_q := [Obj [7]]\<rparr>" and ?sb = "new_switchboard 1"
  have s: "sb_step ?sb (Sent SideLeft [7]) (set_lane ?sb SideLeft ?l)"
    by (rule sb_step.send) (simp add: new_switchboard_def endpoint_send_def new_lane_def has_room_def)
  have r: "sb_run ?sb ([] @ [Sent SideLeft [7]]) (set_lane ?sb SideLeft ?l)" by (rule sb_run.step [OF sb_run.start s])
  have "sent SideLeft ([] @ [Sent SideLeft [7]]) = [[7]]" by (simp only: trace_simps) simp
  with switchboard_fifo [OF r, of SideLeft] r show ?thesis by (auto intro!: exI)
qed

section \<open>What must arrive\<close>

text \<open>
  The steps that move the objects of one direction on (the pump of side \<open>d\<close> and the receives of the other side), the
  steps that add to it, and the part of a history before side \<open>d\<close> was closed: what is sent later stays behind the sentinel.
\<close>

definition drives :: "side \<Rightarrow> event \<Rightarrow> bool" where
  "drives d e \<longleftrightarrow> (case e of Pumped d' \<Rightarrow> d' = d | Received d' _ \<Rightarrow> d' = other d | _ \<Rightarrow> False)"

definition puts :: "side \<Rightarrow> event \<Rightarrow> bool" where
  "puts d e \<longleftrightarrow> (case e of Sent d' _ \<Rightarrow> d' = d | Closing d' \<Rightarrow> d' = d | _ \<Rightarrow> False)"

definition before_close :: "side \<Rightarrow> event list \<Rightarrow> event list" where
  "before_close d tr = takeWhile (\<lambda>e. e \<noteq> Closing d) tr"

text \<open>The objects the pump can still take, and how many steps a lane can make without a further put.\<close>

definition pending :: "lane \<Rightarrow> bytes list" where
  "pending l = (if pumping l then objects (takeWhile (\<lambda>i. i \<noteq> SENTINEL) (send_q l)) else [])"

definition in_flight :: "lane \<Rightarrow> bytes list" where
  "in_flight l = recv_q l @ (case held l of None \<Rightarrow> [] | Some x \<Rightarrow> [x]) @ pending l"

definition steps_due :: "lane \<Rightarrow> nat" where
  "steps_due l = 3 * length (send_q l) + (case held l of None \<Rightarrow> 0 | Some _ \<Rightarrow> 2) + length (recv_q l)"

definition closed :: "lane \<Rightarrow> bool" where
  "closed l \<longleftrightarrow> \<not> pumping l \<or> SENTINEL \<in> set (send_q l)"

lemma takeWhile_none: "z \<notin> set xs \<Longrightarrow> takeWhile (\<lambda>x. x \<noteq> z) xs = xs"
  by (induction xs) auto

lemma takeWhile_until:
  "takeWhile (\<lambda>x. x \<noteq> z) (xs @ ys) = (if z \<in> set xs then takeWhile (\<lambda>x. x \<noteq> z) xs else xs @ takeWhile (\<lambda>x. x \<noteq> z) ys)"
  by (induction xs) auto

lemma before_close_snoc:
  "before_close d (tr @ [e]) = (if Closing d \<in> set tr \<or> e = Closing d then before_close d tr else tr @ [e])"
  "Closing d \<notin> set tr \<Longrightarrow> before_close d tr = tr"
  by (simp_all add: before_close_def takeWhile_until takeWhile_none)

lemma lane_send:
  assumes "endpoint_send c l x = Some l'"
  shows "steps_due l' = steps_due l + 3" and "closed l' \<longleftrightarrow> closed l \<or> x = SENTINEL"
    and "in_flight l' = (if closed l then in_flight l else in_flight l @ objects [x])"
proof -
  have l': "l' = l\<lparr>send_q := send_q l @ [x]\<rparr>" using assms by (simp add: endpoint_send_def split: if_splits)
  show "steps_due l' = steps_due l + 3" by (simp add: l' steps_due_def)
  show "closed l' \<longleftrightarrow> closed l \<or> x = SENTINEL" by (auto simp: l' closed_def)
  have "pending l' = (if closed l then pending l else pending l @ objects [x])"
    by (cases x; cases "SENTINEL \<in> set (send_q l)")
      (simp_all add: l' pending_def closed_def takeWhile_until takeWhile_none)
  then show "in_flight l' = (if closed l then in_flight l else in_flight l @ objects [x])"
    by (simp add: l' in_flight_def)
qed

lemma lane_recv:
  assumes "endpoint_recv l = Some (x, l')"
  shows "steps_due l = Suc (steps_due l')" and "closed l' \<longleftrightarrow> closed l" and "in_flight l = x # in_flight l'"
  using assms by (auto simp: endpoint_recv_def steps_due_def closed_def in_flight_def pending_def split: list.splits)

lemma lane_pump:
  assumes "pump c l = Some l'"
  shows "steps_due l' < steps_due l" and "closed l' \<longleftrightarrow> closed l" and "in_flight l' = in_flight l"
  using assms by (auto simp: pump_def steps_due_def closed_def in_flight_def pending_def
      split: if_splits option.splits list.splits item.splits)

lemma lane_stuck:
  assumes "lane_inv c l" and "pump c l = None" and "endpoint_recv l = None"
  shows "in_flight l = []"
  using assms by (auto simp: lane_inv_def pump_def endpoint_recv_def in_flight_def pending_def has_room_def
      split: if_splits option.splits list.splits item.splits)

definition flow_inv :: "side \<Rightarrow> event list \<Rightarrow> lane \<Rightarrow> bool" where
  "flow_inv d tr l \<longleftrightarrow>
     sent d (before_close d tr) = received (other d) tr @ in_flight l \<and> (Closing d \<in> set tr \<longleftrightarrow> closed l) \<and>
     length (filter (drives d) tr) + steps_due l \<le> 3 * length (filter (puts d) tr)"

lemma flow_inv_step:
  assumes "sb_step sb e sb'" and "flow_inv d tr (lane_from sb d)"
  shows "flow_inv d (tr @ [e]) (lane_from sb' d)"
  using assms(1)
proof (cases rule: sb_step.cases)
  case (send d' x l)
  show ?thesis
  proof (cases "d' = d")
    case True
    then have "endpoint_send (capacity sb) (lane_from sb d) (Obj x) = Some l" using send(3) by simp
    note l = lane_send [OF this]
    show ?thesis using assms(2) l send True
      by (auto simp: flow_inv_def set_lane_def drives_def puts_def before_close_snoc)
  qed (use assms(2) send in \<open>auto simp: flow_inv_def set_lane_def drives_def puts_def before_close_snoc\<close>)
next
  case (close d' l)
  show ?thesis
  proof (cases "d' = d")
    case True
    then have "endpoint_send (capacity sb) (lane_from sb d) SENTINEL = Some l" using close(3) by simp
    note l = lane_send [OF this]
    show ?thesis using assms(2) l close True
      by (auto simp: flow_inv_def set_lane_def drives_def puts_def before_close_snoc)
  qed (use assms(2) close in \<open>auto simp: flow_inv_def set_lane_def drives_def puts_def before_close_snoc\<close>)
next
  case (recv d' x l)
  show ?thesis
  proof (cases "d' = other d")
    case True
    then have "endpoint_recv (lane_from sb d) = Some (x, l)" using recv(3) by simp
    note l = lane_recv [OF this]
    show ?thesis using assms(2) l recv True
      by (auto simp: flow_inv_def set_lane_def drives_def puts_def before_close_snoc)
  next
    case False
    then have "d \<noteq> other d'" by auto
    then show ?thesis using assms(2) recv False
      by (auto simp: flow_inv_def set_lane_def drives_def puts_def before_close_snoc)
  qed
next
  case (pump d' l)
  show ?thesis
  proof (cases "d' = d")
    case True
    then have "Switchboard.pump (capacity sb) (lane_from sb d) = Some l" using pump(3) by simp
    note l = lane_pump [OF this]
    show ?thesis using assms(2) l pump True
      by (auto simp: flow_inv_def set_lane_def drives_def puts_def before_close_snoc)
  qed (use assms(2) pump in \<open>auto simp: flow_inv_def set_lane_def drives_def puts_def before_close_snoc\<close>)
qed

lemma run_flow: "sb_run (new_switchboard c) tr sb \<Longrightarrow> flow_inv d tr (lane_from sb d)"
proof (induction rule: sb_run.induct)
  case start
  then show ?case
    by (simp add: flow_inv_def new_switchboard_def new_lane_def before_close_def in_flight_def pending_def closed_def steps_due_def)
qed (rule flow_inv_step)

text \<open>Where nothing drives the direction any more, all of it has arrived.\<close>

lemma stuck_delivered:
  assumes "sb_run (new_switchboard c) tr sb" and "\<forall>e sb'. sb_step sb e sb' \<longrightarrow> \<not> drives d e"
  shows "received (other d) tr = sent d (before_close d tr)"
proof -
  have "pump (capacity sb) (lane_from sb d) = None"
    using assms(2) sb_step.pump [of sb d] by (cases "pump (capacity sb) (lane_from sb d)") (auto simp: drives_def)
  moreover have "endpoint_recv (lane_from sb d) = None"
  proof (rule ccontr)
    assume "endpoint_recv (lane_from sb d) \<noteq> None"
    then obtain x l where "endpoint_recv (lane_from sb (other (other d))) = Some (x, l)" by auto
    then have "sb_step sb (Received (other d) x) (set_lane sb (other (other d)) l)" by (rule sb_step.recv)
    moreover have "drives d (Received (other d) x)" by (simp add: drives_def)
    ultimately show False using assms(2) by blast
  qed
  ultimately have "in_flight (lane_from sb d) = []"
    using lane_stuck run_conserves [OF assms(1)] by blast
  then show ?thesis using run_flow [OF assms(1), of d] by (simp add: flow_inv_def)
qed

lemma drives_nothing_sent:
  assumes "list_all (drives d) es"
  shows "sent d (before_close d (tr @ es)) = sent d (before_close d tr)" and "filter (puts d) es = []"
    and "filter (drives d) es = es"
  using assms
proof (induction es rule: rev_induct)
  case (snoc e es)
  { case 1 then show ?case using snoc.IH(1) by (cases e)
      (auto simp: drives_def before_close_snoc(1) before_close_snoc(2) append_assoc [symmetric] simp del: append_assoc) }
  { case 2 then show ?case using snoc.IH(2) by (cases e) (auto simp: drives_def puts_def) }
  { case 3 then show ?case using snoc.IH(3) by simp }
qed simp_all

lemma can_deliver:
  assumes "sb_run (new_switchboard c) tr sb"
  shows "\<exists>es sb'. list_all (drives d) es \<and> sb_run (new_switchboard c) (tr @ es) sb' \<and>
    received (other d) (tr @ es) = sent d (before_close d tr)"
  using assms
proof (induction "3 * length (filter (puts d) tr) - length (filter (drives d) tr)" arbitrary: tr sb rule: less_induct)
  case less
  show ?case
  proof (cases "\<forall>e sb'. sb_step sb e sb' \<longrightarrow> \<not> drives d e")
    case True
    then show ?thesis using stuck_delivered [OF less.prems] less.prems by (intro exI [of _ "[]"]) auto
  next
    case False
    then obtain e sb' where e: "sb_step sb e sb'" "drives d e" by blast
    note r = sb_run.step [OF less.prems e(1)]
    have le: "length (filter (drives d) (tr @ [e])) \<le> 3 * length (filter (puts d) (tr @ [e]))"
      using run_flow [OF r, of d] unfolding flow_inv_def by linarith
    have np: "filter (puts d) [e] = []" "sent d (before_close d (tr @ [e])) = sent d (before_close d tr)"
      using drives_nothing_sent(2) [of d "[e]"] drives_nothing_sent(1) [of d "[e]" tr] e(2) by simp_all
    have "3 * length (filter (puts d) (tr @ [e])) - length (filter (drives d) (tr @ [e]))
        < 3 * length (filter (puts d) tr) - length (filter (drives d) tr)"
      using le e(2) np(1) by simp
    from less.hyps [OF this r] obtain es sb'' where
      "list_all (drives d) es" "sb_run (new_switchboard c) ((tr @ [e]) @ es) sb''"
      "received (other d) ((tr @ [e]) @ es) = sent d (before_close d tr)" unfolding np(2) by blast
    then show ?thesis using e(2) by (intro exI [of _ "e # es"]) auto
  qed
qed

section \<open>Delivery\<close>

text \<open>C37: Every object sent before its side is closed arrives. In any run, whatever the interleaving, a direction makes at most
  three steps (take, put, receive) per put into it, so its pump and its receiver cannot go on for ever without a new put; a
  state in which neither can step is one where everything sent ahead of the sentinel has been received, in order; and from
  every reachable state such a state is reached by steps of that pump and that receiver alone. No full queue, and nothing
  the other direction does, can keep an object from arriving.\<close>

theorem switchboard_delivers:
  assumes "sb_run (new_switchboard cap) tr sb"
  shows "length (filter (drives d) tr) \<le> 3 * length (filter (puts d) tr) \<and>
    ((\<forall>e sb'. sb_step sb e sb' \<longrightarrow> \<not> drives d e) \<longrightarrow> received (other d) tr = sent d (before_close d tr)) \<and>
    (\<exists>es sb'. list_all (drives d) es \<and> sb_run (new_switchboard cap) (tr @ es) sb' \<and>
       received (other d) (tr @ es) = sent d (before_close d tr))"
proof (intro conjI impI)
  show "length (filter (drives d) tr) \<le> 3 * length (filter (puts d) tr)"
    using run_flow [OF assms, of d] unfolding flow_inv_def by linarith
qed (use stuck_delivered [OF assms] can_deliver [OF assms] in blast)+

theorem switchboard_delivers_witness:
  "\<exists>tr es sb'. sb_run (new_switchboard 1) (tr @ es) sb' \<and> sent SideLeft tr = [[7]] \<and> list_all (drives SideLeft) es \<and>
     received SideRight (tr @ es) = [[7]]"
proof -
  let ?l = "new_lane\<lparr>send_q := [Obj [7]]\<rparr>" and ?sb = "new_switchboard 1"
  have s: "sb_step ?sb (Sent SideLeft [7]) (set_lane ?sb SideLeft ?l)"
    by (rule sb_step.send) (simp add: new_switchboard_def endpoint_send_def new_lane_def has_room_def)
  have r: "sb_run ?sb ([] @ [Sent SideLeft [7]]) (set_lane ?sb SideLeft ?l)" by (rule sb_run.step [OF sb_run.start s])
  have t: "sent SideLeft ([] @ [Sent SideLeft [7]]) = [[7]]" "sent SideLeft (before_close SideLeft ([] @ [Sent SideLeft [7]])) = [[7]]"
    by (simp_all add: sent_def before_close_def)
  obtain es sb' where "list_all (drives SideLeft) es" "sb_run ?sb (([] @ [Sent SideLeft [7]]) @ es) sb'"
      "received (other SideLeft) (([] @ [Sent SideLeft [7]]) @ es) = [[7]]"
    using switchboard_delivers [OF r, of SideLeft] unfolding t by blast
  with t(1) show ?thesis by (metis other.simps(1))
qed

end
