(* ===== verification/Policy.thy ===== *)
theory Policy
  imports CborMaps
begin

text \<open>
  Effects and authorization (\<^verbatim>\<open>impl/python/naalp/policy.py\<close>): the closed effect set with its
  fail-closed normalisation, the grant check of an endpoint, and the optional safety label carried in
  an object's extension map.
\<close>

section \<open>Effects\<close>

definition READ_ONLY :: int where "READ_ONLY = 0"
definition IDEMPOTENT_WRITE :: int where "IDEMPOTENT_WRITE = 1"
definition NON_IDEMPOTENT_WRITE :: int where "NON_IDEMPOTENT_WRITE = 2"
definition DESTRUCTIVE :: int where "DESTRUCTIVE = 3"

lemmas effect_defs = READ_ONLY_def IDEMPOTENT_WRITE_def NON_IDEMPOTENT_WRITE_def DESTRUCTIVE_def

definition EFFECT_NAMES :: "string list" where
  "EFFECT_NAMES = [''read_only'', ''idempotent_write'', ''non_idempotent_write'', ''destructive'']"

definition normalize_effect :: "int \<Rightarrow> int" where
  "normalize_effect v = (if 0 \<le> v \<and> v \<le> 3 then v else DESTRUCTIVE)"

definition safety_label_name :: "int \<Rightarrow> string" where
  "safety_label_name e = EFFECT_NAMES ! nat (normalize_effect e)"

definition authorizes :: "int \<Rightarrow> int \<Rightarrow> bool" where
  "authorizes ceiling action \<longleftrightarrow> action \<le> ceiling"

definition safety_label_bytes :: "pystr \<Rightarrow> pystr \<Rightarrow> bytes res" where
  "safety_label_bytes risk scope = encode (M [(U 1, T risk), (U 2, T scope)])"

section \<open>Principals and grants\<close>

definition SOURCE_SIGNATURE :: int where "SOURCE_SIGNATURE = 0"
definition SOURCE_TRANSPORT_METADATA :: int where "SOURCE_TRANSPORT_METADATA = 1"
definition SOURCE_FOREIGN_HEADER :: int where "SOURCE_FOREIGN_HEADER = 2"
definition SOURCE_CLIENT_NAME :: int where "SOURCE_CLIENT_NAME = 3"

definition resolve_auth_principal :: "int \<Rightarrow> pystr \<Rightarrow> pystr res" where
  "resolve_auth_principal src presented =
     (if src \<noteq> SOURCE_SIGNATURE \<or> presented = [] then Inl (PolicyError ''UnauthenticatedPrincipal'')
      else Inr presented)"

record grant =
  principal :: pystr
  max_effect :: int

definition authorize_object :: "grant \<Rightarrow> int \<Rightarrow> pystr \<Rightarrow> int \<Rightarrow> unit res" where
  "authorize_object g src presented object_effect =
     rbind (resolve_auth_principal src presented) (\<lambda>who.
       if who \<noteq> principal g then Inl (PolicyError ''EffectNotAuthorized'')
       else if \<not> authorizes (max_effect g) (normalize_effect object_effect)
         then Inl (PolicyError ''EffectNotAuthorized'')
       else Inr ())"

section \<open>Safety labels\<close>

definition SAFETY_LABEL_EXT_KEY :: int where "SAFETY_LABEL_EXT_KEY = 1"

record safety_label =
  risk :: pystr
  scope :: pystr

definition label_to_value :: "safety_label \<Rightarrow> cbor" where
  "label_to_value l = M [(U 1, T (risk l)), (U 2, T (scope l))]"

definition label_encode :: "safety_label \<Rightarrow> bytes res" where
  "label_encode l = encode (label_to_value l)"

definition label_ext :: "safety_label \<Rightarrow> (cbor \<times> cbor) list" where
  "label_ext l = [(U SAFETY_LABEL_EXT_KEY, label_to_value l)]"

definition label_entry ::
    "pystr option \<times> pystr option \<Rightarrow> cbor \<times> cbor \<Rightarrow> (pystr option \<times> pystr option) res" where
  "label_entry s p =
     (case p of
        (U n, T t) \<Rightarrow>
          if n = 1 then Inr (Some t, snd s)
          else if n = 2 then Inr (fst s, Some t)
          else Inl (PolicyError ''MalformedSafetyLabel'')
      | _ \<Rightarrow> Inl (PolicyError ''MalformedSafetyLabel''))"

definition label_from_value :: "cbor \<Rightarrow> safety_label res" where
  "label_from_value v =
     (case v of
        M pairs \<Rightarrow>
          rbind (rfold label_entry (None, None) pairs) (\<lambda>s.
            case s of (Some r, Some c) \<Rightarrow> Inr \<lparr>risk = r, scope = c\<rparr>
            | _ \<Rightarrow> Inl (PolicyError ''MalformedSafetyLabel''))
      | _ \<Rightarrow> Inl (PolicyError ''MalformedSafetyLabel''))"

fun label_search :: "(cbor \<times> cbor) list \<Rightarrow> safety_label option res" where
  "label_search [] = Inr None"
| "label_search ((k, v) # ps) =
     (if k = U SAFETY_LABEL_EXT_KEY then rbind (label_from_value v) (\<lambda>l. Inr (Some l))
      else label_search ps)"

definition safety_label_from_ext :: "(cbor \<times> cbor) list option \<Rightarrow> safety_label option res" where
  "safety_label_from_ext ext = (case ext of None \<Rightarrow> Inr None | Some pairs \<Rightarrow> label_search pairs)"

section \<open>Authorization\<close>

lemma normalize_effect_range: "0 \<le> normalize_effect v" "normalize_effect v \<le> 3"
  by (auto simp: normalize_effect_def effect_defs)

lemma normalize_effect_idem [simp]: "normalize_effect (normalize_effect v) = normalize_effect v"
  by (simp add: normalize_effect_def effect_defs)

lemma authorize_object_iff:
  "authorize_object g src presented eff = Inr () \<longleftrightarrow>
     src = SOURCE_SIGNATURE \<and> presented \<noteq> [] \<and> presented = principal g \<and> normalize_effect eff \<le> max_effect g"
  by (auto simp: authorize_object_def resolve_auth_principal_def authorizes_def)

lemma authorize_object_errors:
  "authorize_object g src presented eff = Inl e \<longleftrightarrow>
     (e = PolicyError ''UnauthenticatedPrincipal'' \<and> (src \<noteq> SOURCE_SIGNATURE \<or> presented = [])) \<or>
     (e = PolicyError ''EffectNotAuthorized'' \<and> src = SOURCE_SIGNATURE \<and> presented \<noteq> [] \<and>
        (presented \<noteq> principal g \<or> max_effect g < normalize_effect eff))"
  by (auto simp: authorize_object_def resolve_auth_principal_def authorizes_def)

section \<open>Reading a safety label\<close>

lemma label_entry_Inr:
  "label_entry s p = Inr s' \<longleftrightarrow>
     (\<exists>t. p = (U 1, T t) \<and> s' = (Some t, snd s)) \<or> (\<exists>t. p = (U 2, T t) \<and> s' = (fst s, Some t))"
  by (cases p; cases "fst p"; cases "snd p") (auto simp: label_entry_def)

lemma label_entries:
  assumes "rfold label_entry s ps = Inr s'"
  shows "\<forall>p \<in> set ps. fst p = U 1 \<or> fst p = U 2"
    and "fst s' = (if (\<exists>p \<in> set ps. fst p = U 1) then fst s' else fst s)"
    and "snd s' = (if (\<exists>p \<in> set ps. fst p = U 2) then snd s' else snd s)"
  using assms by (induction ps arbitrary: s) (auto simp: res_simps label_entry_Inr split: if_splits)

text \<open>
  A label value in canonical form (as every decoded one is) reads as a label exactly when it is that
  label's own map.
\<close>

lemma label_from_value_canonical:
  assumes "canon v = v" and "encodable v"
  shows "label_from_value v = Inr l \<longleftrightarrow> v = label_to_value l"
proof
  assume "v = label_to_value l"
  then show "label_from_value v = Inr l"
    by (simp add: label_from_value_def label_to_value_def label_entry_def)
next
  assume "label_from_value v = Inr l"
  then obtain ps r c where v: "v = M ps" and f: "rfold label_entry (None, None) ps = Inr (Some r, Some c)"
    and l: "l = \<lparr>risk = r, scope = c\<rparr>"
    by (auto simp: label_from_value_def res_simps split: option.splits)
  note ps = label_entries [OF f]
  have keys: "\<forall>p \<in> set ps. small_key (fst p)" using ps(1) by (auto simp: small_key_def)
  have "asc_keys ps"
    using canon_M_sorted [of ps] assms small_keys_sorted [OF keys] keys by (simp add: v asc_keys_def)
  moreover have "(\<lambda>p. key_int (fst p)) ` set ps = set [1, 2]"
  proof -
    obtain p q where "p \<in> set ps" "fst p = U 1" "q \<in> set ps" "fst q = U 2"
      using ps(2,3) by (auto split: if_splits)
    then have "1 \<in> (\<lambda>p. key_int (fst p)) ` set ps" "2 \<in> (\<lambda>p. key_int (fst p)) ` set ps"
      by (auto simp: key_int_def intro: rev_image_eqI)
    then show ?thesis using ps(1) by (auto simp: key_int_def)
  qed
  ultimately have "map fst ps = map U [1, 2]" by (rule asc_keys_exact) simp
  then obtain x y where "ps = [(U 1, x), (U 2, y)]" by (auto simp: map_eq_Cons_conv)
  then show "v = label_to_value l"
    using f by (auto simp: v l label_to_value_def res_simps label_entry_Inr)
qed

lemma label_search_find:
  "label_search ps = (case find (\<lambda>p. fst p = U SAFETY_LABEL_EXT_KEY) ps of
      None \<Rightarrow> Inr None | Some p \<Rightarrow> rbind (label_from_value (snd p)) (\<lambda>l. Inr (Some l)))"
  by (induction ps rule: label_search.induct) auto

section \<open>Properties of policy\<close>

text \<open>An object is authorized exactly when the presenter's identity is signature-derived, is the
  grant's principal, and the fail-closed effect is within the granted ceiling; every other request is
  refused with the named error of the first check it fails.\<close>

theorem authorize_object_exact:
  "authorize_object g src presented eff =
     (if src \<noteq> SOURCE_SIGNATURE \<or> presented = [] then Inl (PolicyError ''UnauthenticatedPrincipal'')
      else if presented = principal g \<and> (if 0 \<le> eff \<and> eff \<le> 3 then eff else 3) \<le> max_effect g then Inr ()
      else Inl (PolicyError ''EffectNotAuthorized''))"
  by (auto simp: authorize_object_def resolve_auth_principal_def authorizes_def normalize_effect_def effect_defs)

text \<open>A safety label read back from an object's extensions is the label that was written, and for an
  extension map in canonical form a label is reported exactly when the entry under its key is that
  label's own two-field map: any other entry under the key is refused, never ignored.\<close>

theorem safety_label_roundtrip:
  assumes "canon (M ps) = M ps" and "encodable (M ps)"
  shows "safety_label_from_ext (Some (label_ext l)) = Inr (Some l) \<and>
    (safety_label_from_ext (Some ps) = Inr (Some l) \<longleftrightarrow> (U SAFETY_LABEL_EXT_KEY, label_to_value l) \<in> set ps) \<and>
    (safety_label_from_ext (Some ps) = Inr None \<longleftrightarrow> U SAFETY_LABEL_EXT_KEY \<notin> fst ` set ps)"
proof -
  note d = canon_M_distinct [OF assms]
  have v: "label_from_value (snd p) = Inr l \<longleftrightarrow> snd p = label_to_value l" if "p \<in> set ps" for p
    using that canon_M_parts [OF assms that] assms(2) by (intro label_from_value_canonical) (auto simp: encodable_M)
  have "safety_label_from_ext (Some ps) = Inr (Some l) \<longleftrightarrow>
      (\<exists>p. find (\<lambda>p. fst p = U SAFETY_LABEL_EXT_KEY) ps = Some p \<and> label_from_value (snd p) = Inr l)"
    by (auto simp: safety_label_from_ext_def label_search_find res_simps split: option.splits)
  then have "safety_label_from_ext (Some ps) = Inr (Some l) \<longleftrightarrow> (U SAFETY_LABEL_EXT_KEY, label_to_value l) \<in> set ps"
    using v by (auto simp: find_key_iff [OF d])
  moreover have "safety_label_from_ext (Some ps) = Inr None \<longleftrightarrow> U SAFETY_LABEL_EXT_KEY \<notin> fst ` set ps"
    by (auto simp: safety_label_from_ext_def label_search_find res_simps find_key_None [symmetric]
        simp del: image_iff split: option.splits)
  ultimately show ?thesis
    by (simp add: safety_label_from_ext_def label_ext_def label_from_value_def label_to_value_def label_entry_def)
qed

theorem safety_label_roundtrip_witness:
  "safety_label_from_ext (Some [(U 1, M [(U 1, T [104]), (U 2, T [98])]), (U 7, U 0)])
     = Inr (Some \<lparr>risk = [104], scope = [98]\<rparr>)"
proof -
  let ?ps = "[(U 1, M [(U 1, T [104]), (U 2, T [98])]), (U 7, U 0)]"
  have "canon (M ?ps) = M ?ps" "encodable (M ?ps)"
    by code_simp+
  from safety_label_roundtrip [OF this, of "\<lparr>risk = [104], scope = [98]\<rparr>"] show ?thesis
    by (simp add: SAFETY_LABEL_EXT_KEY_def label_to_value_def)
qed

end
