(* ===== verification/Streaming.thy ===== *)
theory Streaming
  imports Cose Policy "HOL-Library.Multiset"
begin

text \<open>
  Native streams (\<^verbatim>\<open>impl/python/naalp/streaming.py\<close>): the rolling commitment over the chunks, the three signed
  bodies, the checks of a commitment and of a checkpoint, and the per-connection guard of the stream
  state table. SHA-384 is incremental in the code; feeding it piece by piece and asking for the digest is
  the digest of the concatenation, which is how the model keeps it.
\<close>

section \<open>Chunks and their commitment\<close>

definition MAX_STREAM_CHUNKS :: int where "MAX_STREAM_CHUNKS = 1048576"
definition STREAM_CHANNEL :: int where "STREAM_CHANNEL = 0x000C"

record chunk =
  ch_offset :: int
  ch_data :: bytes

text \<open>The accumulator: the bytes fed so far.\<close>

definition digest_update :: "bytes \<Rightarrow> bytes \<Rightarrow> bytes" where
  "digest_update fed data = fed @ data"

definition digest_so_far :: "prims \<Rightarrow> bytes \<Rightarrow> bytes" where
  "digest_so_far P fed = sha384 P fed"

definition commit_digest :: "prims \<Rightarrow> chunk list \<Rightarrow> bytes" where
  "commit_digest P chunks = digest_so_far P (foldl (\<lambda>fed c. digest_update fed (ch_data c)) [] (sort_key ch_offset chunks))"

record stream_open =
  so_stream_id :: bytes
  so_effect :: int
  so_approval :: "bytes option"
  so_substream :: int

definition stream_open_bytes :: "stream_open \<Rightarrow> bytes res" where
  "stream_open_bytes s =
     encode (M ([(U 1, B (so_stream_id s)), (U 2, U (so_effect s)), (U 4, U (so_substream s))] @
       (case so_approval s of None \<Rightarrow> [] | Some a \<Rightarrow> [(U 3, B a)])))"

record stream_commit =
  sc_stream_id :: bytes
  sc_digest :: bytes

definition stream_commit_bytes :: "stream_commit \<Rightarrow> bytes res" where
  "stream_commit_bytes c = encode (M [(U 1, B (sc_stream_id c)), (U 2, B (sc_digest c))])"

record stream_checkpoint =
  cp_stream_id :: bytes
  cp_through_offset :: int
  cp_digest_so_far :: bytes

definition stream_checkpoint_bytes :: "stream_checkpoint \<Rightarrow> bytes res" where
  "stream_checkpoint_bytes c =
     encode (M [(U 1, B (cp_stream_id c)), (U 2, U (cp_through_offset c)), (U 3, B (cp_digest_so_far c))])"

section \<open>Checks\<close>

definition open_stream :: "stream_open \<Rightarrow> int \<Rightarrow> unit res" where
  "open_stream s granted_max =
     (if \<not> authorizes granted_max (normalize_effect (so_effect s)) then Inl (StreamError ''EffectNotAuthorized'') else Inr ())"

definition verify_commit :: "prims \<Rightarrow> stream_commit \<Rightarrow> chunk list \<Rightarrow> unit res" where
  "verify_commit P commit chunks =
     (if int (length chunks) > MAX_STREAM_CHUNKS then Inl (StreamError ''TooManyChunks'')
      else if sc_digest commit \<noteq> commit_digest P chunks then Inl (StreamError ''StreamDigestMismatch'')
      else Inr ())"

definition prefix_step :: "int \<Rightarrow> chunk \<Rightarrow> int res" where
  "prefix_step pos c =
     (if ch_offset c \<noteq> pos then Inl (StreamError ''StreamDigestMismatch'') else Inr (pos + int (length (ch_data c))))"

definition verify_checkpoint :: "prims \<Rightarrow> stream_checkpoint \<Rightarrow> chunk list \<Rightarrow> unit res" where
  "verify_checkpoint P cp prefix =
     (if int (length prefix) > MAX_STREAM_CHUNKS then Inl (StreamError ''TooManyChunks'')
      else rbind (rfold prefix_step 0 (sort_key ch_offset prefix)) (\<lambda>pos.
        if pos \<noteq> cp_through_offset cp then Inl (StreamError ''StreamDigestMismatch'')
        else if cp_digest_so_far cp \<noteq> commit_digest P prefix then Inl (StreamError ''StreamDigestMismatch'')
        else Inr ()))"

definition sign_open :: "prims \<Rightarrow> stream_open \<Rightarrow> int \<Rightarrow> bytes \<Rightarrow> bytes res" where
  "sign_open P s alg seed = rbind (stream_open_bytes s) (mldsa_sign P alg seed)"

definition sign_commit :: "prims \<Rightarrow> stream_commit \<Rightarrow> int \<Rightarrow> bytes \<Rightarrow> bytes res" where
  "sign_commit P c alg seed = rbind (stream_commit_bytes c) (mldsa_sign P alg seed)"

definition sign_checkpoint :: "prims \<Rightarrow> stream_checkpoint \<Rightarrow> int \<Rightarrow> bytes \<Rightarrow> bytes res" where
  "sign_checkpoint P c alg seed = rbind (stream_checkpoint_bytes c) (mldsa_sign P alg seed)"

definition verify_open_sig :: "prims \<Rightarrow> stream_open \<Rightarrow> int \<Rightarrow> bytes \<Rightarrow> bytes \<Rightarrow> bool res" where
  "verify_open_sig P s alg pubkey sig = rbind (stream_open_bytes s) (\<lambda>m. mldsa_verify P alg pubkey m sig)"

definition verify_commit_sig :: "prims \<Rightarrow> stream_commit \<Rightarrow> int \<Rightarrow> bytes \<Rightarrow> bytes \<Rightarrow> bool res" where
  "verify_commit_sig P c alg pubkey sig = rbind (stream_commit_bytes c) (\<lambda>m. mldsa_verify P alg pubkey m sig)"

definition verify_checkpoint_sig :: "prims \<Rightarrow> stream_checkpoint \<Rightarrow> int \<Rightarrow> bytes \<Rightarrow> bytes \<Rightarrow> bool res" where
  "verify_checkpoint_sig P c alg pubkey sig = rbind (stream_checkpoint_bytes c) (\<lambda>m. mldsa_verify P alg pubkey m sig)"

section \<open>The guard\<close>

definition STATE_IDLE :: int where "STATE_IDLE = 0"
definition STATE_OPEN :: int where "STATE_OPEN = 1"
definition STATE_COMMITTED :: int where "STATE_COMMITTED = 2"
definition STATE_ABANDONED :: int where "STATE_ABANDONED = 3"

lemmas state_defs = STATE_IDLE_def STATE_OPEN_def STATE_COMMITTED_def STATE_ABANDONED_def

definition state_name :: "int \<Rightarrow> string" where
  "state_name s = (if 0 \<le> s \<and> s \<le> 3 then [''idle'', ''open'', ''committed'', ''abandoned''] ! nat s else ''unknown'')"

type_synonym guard = "bytes \<rightharpoonup> int"

definition guard_state :: "guard \<Rightarrow> bytes \<Rightarrow> int" where
  "guard_state g sid = (case g sid of None \<Rightarrow> STATE_IDLE | Some s \<Rightarrow> s)"

definition guard_open :: "guard \<Rightarrow> stream_open \<Rightarrow> int \<Rightarrow> guard res" where
  "guard_open g s granted_max =
     (if guard_state g (so_stream_id s) \<noteq> STATE_IDLE then Inl (StreamError ''StreamStateError'')
      else rbind (open_stream s granted_max) (\<lambda>_. Inr (g(so_stream_id s \<mapsto> STATE_OPEN))))"

definition guard_chunk :: "guard \<Rightarrow> bytes \<Rightarrow> guard res" where
  "guard_chunk g sid = (if guard_state g sid \<noteq> STATE_OPEN then Inl (StreamError ''StreamStateError'') else Inr g)"

definition guard_checkpoint :: "guard \<Rightarrow> bytes \<Rightarrow> guard res" where
  "guard_checkpoint g sid = (if guard_state g sid \<noteq> STATE_OPEN then Inl (StreamError ''StreamStateError'') else Inr g)"

definition guard_commit :: "prims \<Rightarrow> guard \<Rightarrow> stream_commit \<Rightarrow> chunk list \<Rightarrow> guard res" where
  "guard_commit P g c chunks =
     (if guard_state g (sc_stream_id c) \<noteq> STATE_OPEN then Inl (StreamError ''StreamStateError'')
      else rbind (verify_commit P c chunks) (\<lambda>_. Inr (g(sc_stream_id c \<mapsto> STATE_COMMITTED))))"

definition guard_expire :: "guard \<Rightarrow> bytes \<Rightarrow> guard res" where
  "guard_expire g sid =
     (if guard_state g sid \<noteq> STATE_OPEN then Inl (StreamError ''StreamStateError'') else Inr (g(sid \<mapsto> STATE_ABANDONED)))"

section \<open>Commitments\<close>

text \<open>The bytes a set of chunks delivers.\<close>

definition delivered :: "chunk list \<Rightarrow> bytes" where
  "delivered chunks = concat (map ch_data (sort_key ch_offset chunks))"

lemma commit_digest_delivered: "commit_digest P chunks = sha384 P (delivered chunks)"
proof -
  have "foldl (\<lambda>fed c. digest_update fed (ch_data c)) fed cs = fed @ concat (map ch_data cs)" for fed and cs :: "chunk list"
    by (induction cs arbitrary: fed) (auto simp: digest_update_def)
  then show ?thesis by (simp add: commit_digest_def digest_so_far_def delivered_def)
qed

lemma delivered_perm:
  assumes "mset chunks = mset chunks'" and "distinct (map ch_offset chunks)"
  shows "delivered chunks = delivered chunks'"
proof -
  have s: "set chunks = set chunks'" and d: "distinct (map ch_offset chunks')"
    using assms mset_eq_setD mset_eq_imp_distinct_iff [of "map ch_offset chunks" "map ch_offset chunks'"] by (auto simp: mset_map)
  have m: "mset (map ch_offset (sort_key ch_offset xs)) = mset (map ch_offset xs)" for xs by (simp add: mset_map)
  have "sort_key ch_offset chunks = sort_key ch_offset chunks'"
    using assms(2) d s mset_eq_imp_distinct_iff [OF m, of chunks] mset_eq_imp_distinct_iff [OF m, of chunks']
    by (intro map_sorted_distinct_set_unique [of ch_offset]) (auto simp: distinct_map)
  then show ?thesis by (simp add: delivered_def)
qed

lemma prefix_steps:
  "rfold prefix_step pos cs = Inr pos' \<longleftrightarrow>
     pos' = pos + int (length (concat (map ch_data cs))) \<and>
     (\<forall>i < length cs. ch_offset (cs ! i) = pos + int (length (concat (map ch_data (take i cs)))))"
proof (induction cs arbitrary: pos)
  case (Cons c cs)
  have "(\<forall>i < length (c # cs). ch_offset ((c # cs) ! i) = pos + int (length (concat (map ch_data (take i (c # cs)))))) \<longleftrightarrow>
      ch_offset c = pos \<and> (\<forall>i < length cs. ch_offset (cs ! i) = pos + int (length (ch_data c)) + int (length (concat (map ch_data (take i cs)))))"
    by (auto simp: less_Suc_eq_0_disj all_conj_distrib nth_Cons take_Cons split: nat.splits)
  then show ?case using Cons.IH [of "pos + int (length (ch_data c))"] by (auto simp: prefix_step_def)
qed auto

text \<open>A prefix is gapless from offset 0: every chunk starts where the chunks before it end.\<close>

definition gapless :: "chunk list \<Rightarrow> bool" where
  "gapless cs \<longleftrightarrow> (\<forall>i < length cs. ch_offset (sort_key ch_offset cs ! i)
     = int (length (concat (map ch_data (take i (sort_key ch_offset cs))))))"

lemma verify_checkpoint_iff:
  "verify_checkpoint P cp prefix = Inr () \<longleftrightarrow>
     int (length prefix) \<le> MAX_STREAM_CHUNKS \<and> gapless prefix \<and>
     cp_through_offset cp = int (length (delivered prefix)) \<and> cp_digest_so_far cp = sha384 P (delivered prefix)"
  by (auto simp: verify_checkpoint_def res_simps prefix_steps gapless_def commit_digest_delivered delivered_def)

lemma verify_commit_iff:
  "verify_commit P c chunks = Inr () \<longleftrightarrow>
     int (length chunks) \<le> MAX_STREAM_CHUNKS \<and> sc_digest c = sha384 P (delivered chunks)"
  by (auto simp: verify_commit_def commit_digest_delivered)

section \<open>The state table\<close>

datatype stream_event =
    OpenEv stream_open int
  | ChunkEv bytes
  | CheckpointEv bytes
  | CommitEv stream_commit "chunk list"
  | ExpireEv bytes

fun event_stream :: "stream_event \<Rightarrow> bytes" where
  "event_stream (OpenEv s gm) = so_stream_id s"
| "event_stream (ChunkEv sid) = sid"
| "event_stream (CheckpointEv sid) = sid"
| "event_stream (CommitEv c chunks) = sc_stream_id c"
| "event_stream (ExpireEv sid) = sid"

fun guard_event :: "prims \<Rightarrow> guard \<Rightarrow> stream_event \<Rightarrow> guard res" where
  "guard_event P g (OpenEv s gm) = guard_open g s gm"
| "guard_event P g (ChunkEv sid) = guard_chunk g sid"
| "guard_event P g (CheckpointEv sid) = guard_checkpoint g sid"
| "guard_event P g (CommitEv c chunks) = guard_commit P g c chunks"
| "guard_event P g (ExpireEv sid) = guard_expire g sid"

text \<open>The abstract machine: the state table of one stream, over named states.\<close>

datatype lifecycle = Idle | Opened | Committed | Abandoned

fun stream_table :: "prims \<Rightarrow> lifecycle \<Rightarrow> stream_event \<Rightarrow> lifecycle res" where
  "stream_table P Idle (OpenEv s gm) =
     (if normalize_effect (so_effect s) \<le> gm then Inr Opened else Inl (StreamError ''EffectNotAuthorized''))"
| "stream_table P Opened (ChunkEv sid) = Inr Opened"
| "stream_table P Opened (CheckpointEv sid) = Inr Opened"
| "stream_table P Opened (CommitEv c chunks) =
     (if int (length chunks) > MAX_STREAM_CHUNKS then Inl (StreamError ''TooManyChunks'')
      else if sc_digest c = sha384 P (delivered chunks) then Inr Committed
      else Inl (StreamError ''StreamDigestMismatch''))"
| "stream_table P Opened (ExpireEv sid) = Inr Abandoned"
| "stream_table P _ _ = Inl (StreamError ''StreamStateError'')"

definition guard_inv :: "guard \<Rightarrow> bool" where
  "guard_inv g \<longleftrightarrow> (\<forall>sid s. g sid = Some s \<longrightarrow> s \<in> {STATE_OPEN, STATE_COMMITTED, STATE_ABANDONED})"

definition lifecycle_of :: "guard \<Rightarrow> bytes \<Rightarrow> lifecycle" where
  "lifecycle_of g sid =
     (if guard_state g sid = STATE_IDLE then Idle else if guard_state g sid = STATE_OPEN then Opened
      else if guard_state g sid = STATE_COMMITTED then Committed else Abandoned)"

lemmas guard_ops = guard_open_def guard_chunk_def guard_checkpoint_def guard_commit_def guard_expire_def

lemma state_neq [simp]:
  "STATE_IDLE \<noteq> STATE_OPEN" "STATE_OPEN \<noteq> STATE_IDLE" "STATE_COMMITTED \<noteq> STATE_IDLE" "STATE_COMMITTED \<noteq> STATE_OPEN"
  "STATE_ABANDONED \<noteq> STATE_IDLE" "STATE_ABANDONED \<noteq> STATE_OPEN"
  by (simp_all add: state_defs)

lemma guard_inv_upd:
  "guard_inv g \<Longrightarrow> s \<in> {STATE_OPEN, STATE_COMMITTED, STATE_ABANDONED} \<Longrightarrow> guard_inv (g(sid \<mapsto> s))"
  by (simp add: guard_inv_def)

lemma guard_event_inv: "guard_inv g \<Longrightarrow> guard_event P g ev = Inr g' \<Longrightarrow> guard_inv g'"
  by (cases ev) (auto simp: guard_ops res_simps intro!: guard_inv_upd split: if_splits)

lemma lifecycle_of_iff:
  assumes "guard_inv g"
  shows "lifecycle_of g sid = Idle \<longleftrightarrow> guard_state g sid = STATE_IDLE" "lifecycle_of g sid = Opened \<longleftrightarrow> guard_state g sid = STATE_OPEN"
    "lifecycle_of g sid = Committed \<longleftrightarrow> guard_state g sid = STATE_COMMITTED" "lifecycle_of g sid = Abandoned \<longleftrightarrow> guard_state g sid = STATE_ABANDONED"
  using assms by (auto simp: lifecycle_of_def guard_inv_def guard_state_def state_defs split: option.splits if_splits)

lemma lifecycle_of_upd [simp]:
  "lifecycle_of (g(sid \<mapsto> STATE_OPEN)) = (lifecycle_of g)(sid := Opened)"
  "lifecycle_of (g(sid \<mapsto> STATE_COMMITTED)) = (lifecycle_of g)(sid := Committed)"
  "lifecycle_of (g(sid \<mapsto> STATE_ABANDONED)) = (lifecycle_of g)(sid := Abandoned)"
  by (auto simp: fun_eq_iff lifecycle_of_def guard_state_def state_defs)

text \<open>One event of the guard is one event of the table on the stream it names, and leaves every other stream alone.\<close>

lemma guard_event_table:
  assumes "guard_inv g"
  shows "(case guard_event P g ev of Inl e \<Rightarrow> Inl e | Inr g' \<Rightarrow> Inr (lifecycle_of g')) =
    (case stream_table P (lifecycle_of g (event_stream ev)) ev of
       Inl e \<Rightarrow> Inl e | Inr st \<Rightarrow> Inr ((lifecycle_of g)(event_stream ev := st)))"
proof (cases "lifecycle_of g (event_stream ev)")
  case Idle
  then have "guard_state g (event_stream ev) = STATE_IDLE" using lifecycle_of_iff [OF assms] by simp
  with Idle show ?thesis by (cases ev) (simp_all add: guard_ops open_stream_def authorizes_def)
next
  case Opened
  then have "guard_state g (event_stream ev) = STATE_OPEN" using lifecycle_of_iff [OF assms] by simp
  with Opened show ?thesis using fun_upd_triv [of "lifecycle_of g" "event_stream ev"]
    by (cases ev) (simp_all add: guard_ops verify_commit_def commit_digest_delivered)
next
  case Committed
  then have "guard_state g (event_stream ev) = STATE_COMMITTED" using lifecycle_of_iff [OF assms] by simp
  with Committed show ?thesis by (cases ev) (simp_all add: guard_ops)
next
  case Abandoned
  then have "guard_state g (event_stream ev) = STATE_ABANDONED" using lifecycle_of_iff [OF assms] by simp
  with Abandoned show ?thesis by (cases ev) (simp_all add: guard_ops)
qed

section \<open>Histories\<close>

text \<open>The events of a connection, with their outcomes; a refused event changes nothing.\<close>

fun guard_log :: "prims \<Rightarrow> guard \<Rightarrow> stream_event list \<Rightarrow> guard \<times> unit res list" where
  "guard_log P g [] = (g, [])"
| "guard_log P g (ev # evs) =
     (case guard_event P g ev of
        Inl e \<Rightarrow> (let (g', outs) = guard_log P g evs in (g', Inl e # outs))
      | Inr g1 \<Rightarrow> (let (g', outs) = guard_log P g1 evs in (g', Inr () # outs)))"

lemma length_guard_log [simp]: "length (snd (guard_log P g evs)) = length evs"
  by (induction evs arbitrary: g) (simp_all add: Let_def split_beta split: sum.split)

text \<open>Rank of a state: it only ever grows.\<close>

definition rank :: "lifecycle \<Rightarrow> nat" where
  "rank st = (case st of Idle \<Rightarrow> 0 | Opened \<Rightarrow> 1 | _ \<Rightarrow> 2)"

definition ends_stream :: "stream_event \<Rightarrow> bool" where
  "ends_stream ev \<longleftrightarrow> (case ev of CommitEv _ _ \<Rightarrow> True | ExpireEv _ \<Rightarrow> True | _ \<Rightarrow> False)"

lemma stream_table_rank:
  "stream_table P st ev = Inr st' \<Longrightarrow> rank st \<le> rank st' \<and> rank st < 2 \<and>
     ((\<exists>s gm. ev = OpenEv s gm) \<longrightarrow> rank st = 0 \<and> rank st' = 1) \<and> (ends_stream ev \<longrightarrow> rank st' = 2)"
  by (cases st; cases ev) (auto simp: rank_def ends_stream_def split: if_splits)

lemma guard_event_rank:
  assumes "guard_inv g" and "guard_event P g ev = Inr g'"
  shows "rank (lifecycle_of g sid) \<le> rank (lifecycle_of g' sid)"
    and "rank (lifecycle_of g (event_stream ev)) < 2"
    and "ev = OpenEv s gm \<Longrightarrow> rank (lifecycle_of g (so_stream_id s)) = 0 \<and> rank (lifecycle_of g' (so_stream_id s)) = 1"
    and "ends_stream ev \<Longrightarrow> rank (lifecycle_of g' (event_stream ev)) = 2"
proof -
  obtain st where st: "stream_table P (lifecycle_of g (event_stream ev)) ev = Inr st"
    and g': "lifecycle_of g' = (lifecycle_of g)(event_stream ev := st)"
    using guard_event_table [OF assms(1), of P ev] assms(2) by (auto split: sum.splits)
  note r = stream_table_rank [OF st]
  show "rank (lifecycle_of g sid) \<le> rank (lifecycle_of g' sid)" using r by (simp add: g')
  show "rank (lifecycle_of g (event_stream ev)) < 2" using r by simp
  show "rank (lifecycle_of g (so_stream_id s)) = 0 \<and> rank (lifecycle_of g' (so_stream_id s)) = 1" if "ev = OpenEv s gm"
    using r that by (simp add: g')
  show "rank (lifecycle_of g' (event_stream ev)) = 2" if "ends_stream ev"
    using r that by (simp add: g')
qed

lemma guard_log_above:
  assumes "guard_inv g" and "j < length evs" and "snd (guard_log P g evs) ! j = Inr ()"
  shows "rank (lifecycle_of g (event_stream (evs ! j))) < 2"
    and "evs ! j = OpenEv s gm \<Longrightarrow> rank (lifecycle_of g (so_stream_id s)) = 0"
proof -
  have "rank (lifecycle_of g (event_stream (evs ! j))) < 2 \<and> (evs ! j = OpenEv s gm \<longrightarrow> rank (lifecycle_of g (so_stream_id s)) = 0)"
    using assms
  proof (induction evs arbitrary: g j)
    case (Cons ev evs)
    show ?case
    proof (cases "guard_event P g ev")
      case (Inl e)
      then obtain i where "j = Suc i" using Cons.prems(3) by (cases j) (auto simp: Let_def split_beta)
      then show ?thesis using Cons.IH [of g i] Cons.prems Inl by (simp add: Let_def split_beta)
    next
      case (Inr g1)
      note rk = guard_event_rank [OF Cons.prems(1) Inr]
      show ?thesis
      proof (cases j)
        case 0
        then show ?thesis using rk(2,3) by auto
      next
        case (Suc i)
        have "rank (lifecycle_of g1 (event_stream (evs ! i))) < 2 \<and> (evs ! i = OpenEv s gm \<longrightarrow> rank (lifecycle_of g1 (so_stream_id s)) = 0)"
          using Cons.IH [of g1 i] guard_event_inv [OF Cons.prems(1) Inr] Cons.prems Inr Suc by (simp add: Let_def split_beta)
        then show ?thesis using rk(1) [of "event_stream (evs ! i)"] rk(1) [of "so_stream_id s"] Suc by auto
      qed
    qed
  qed simp
  then show "rank (lifecycle_of g (event_stream (evs ! j))) < 2"
    "evs ! j = OpenEv s gm \<Longrightarrow> rank (lifecycle_of g (so_stream_id s)) = 0" by blast+
qed

lemma guard_log_once:
  assumes "guard_inv g" and "i < j" and "j < length evs" and "snd (guard_log P g evs) ! i = Inr ()" and "snd (guard_log P g evs) ! j = Inr ()"
  shows "\<not> (evs ! i = OpenEv s gm \<and> evs ! j = OpenEv s' gm' \<and> so_stream_id s = so_stream_id s')"
    and "\<not> (ends_stream (evs ! i) \<and> event_stream (evs ! j) = event_stream (evs ! i))"
proof -
  have "\<not> (evs ! i = OpenEv s gm \<and> evs ! j = OpenEv s' gm' \<and> so_stream_id s = so_stream_id s') \<and>
      \<not> (ends_stream (evs ! i) \<and> event_stream (evs ! j) = event_stream (evs ! i))"
    using assms
  proof (induction evs arbitrary: g i j)
    case (Cons ev evs)
    obtain j' where j: "j = Suc j'" using Cons.prems(2) by (cases j) auto
    show ?case
    proof (cases "guard_event P g ev")
      case (Inl e)
      then obtain i' where "i = Suc i'" using Cons.prems(4) by (cases i) (auto simp: Let_def split_beta)
      then show ?thesis using Cons.IH [of g i' j'] Cons.prems Inl j by (simp add: Let_def split_beta)
    next
      case (Inr g1)
      note inv = guard_event_inv [OF Cons.prems(1) Inr] and rk = guard_event_rank [OF Cons.prems(1) Inr]
      have j1: "j' < length evs" "snd (guard_log P g1 evs) ! j' = Inr ()"
        using Cons.prems Inr j by (simp_all add: Let_def split_beta)
      show ?thesis
      proof (cases i)
        case 0
        then show ?thesis using guard_log_above [OF inv j1] rk(3,4) j by fastforce
      next
        case (Suc i')
        then show ?thesis using Cons.IH [OF inv, of i' j'] Cons.prems Inr j by (simp add: Let_def split_beta)
      qed
    qed
  qed simp
  then show "\<not> (evs ! i = OpenEv s gm \<and> evs ! j = OpenEv s' gm' \<and> so_stream_id s = so_stream_id s')"
    "\<not> (ends_stream (evs ! i) \<and> event_stream (evs ! j) = event_stream (evs ! i))" by blast+
qed

section \<open>Properties\<close>

text \<open>The guard implements the stream state table: on every guard it can reach, an event is answered exactly as the table of the
  stream it names answers it, with the same error or the same new state; every other stream keeps its state,
  and a refused event changes nothing.\<close>

theorem guard_refines_table:
  assumes "guard_inv g"
  shows "(case guard_event P g ev of Inl e \<Rightarrow> Inl e | Inr g' \<Rightarrow> Inr (lifecycle_of g')) =
      (case stream_table P (lifecycle_of g (event_stream ev)) ev of
         Inl e \<Rightarrow> Inl e | Inr st \<Rightarrow> Inr ((lifecycle_of g)(event_stream ev := st))) \<and>
    (\<forall>g'. guard_event P g ev = Inr g' \<longrightarrow> guard_inv g')"
  using guard_event_table [OF assms] guard_event_inv [OF assms] by blast

lemma guard_inv_empty: "guard_inv Map.empty"
  by (simp add: guard_inv_def)

theorem guard_refines_table_witness:
  "guard_event sample_prims Map.empty (ChunkEv [1]) = Inl (StreamError ''StreamStateError'')"
  using guard_refines_table [OF guard_inv_empty, of sample_prims "ChunkEv [1]"]
  by (auto simp: lifecycle_of_def guard_state_def split: sum.splits)

text \<open>A stream id is used once per connection: over any history of events from a fresh guard, no id is opened twice, and once a
  stream was committed or abandoned every later event that names it is refused, so a replayed open never
  revives it.\<close>

theorem stream_ids_single_use:
  assumes "guard_log P Map.empty evs = (g, outs)" and "i < j" and "j < length evs" and "outs ! i = Inr ()" and "outs ! j = Inr ()"
  shows "\<not> (evs ! i = OpenEv s gm \<and> evs ! j = OpenEv s' gm' \<and> so_stream_id s = so_stream_id s') \<and>
    \<not> (ends_stream (evs ! i) \<and> event_stream (evs ! j) = event_stream (evs ! i))"
  using guard_log_once [OF guard_inv_empty assms(2,3), of P] assms(1,4,5) by auto

definition sample_stream :: stream_open where
  "sample_stream = \<lparr>so_stream_id = [1], so_effect = 0, so_approval = None, so_substream = 0\<rparr>"

theorem stream_ids_single_use_witness:
  "\<exists>g outs. guard_log sample_prims Map.empty [OpenEv sample_stream 1, ExpireEv [1]] = (g, outs) \<and> outs = [Inr (), Inr ()] \<and>
     ends_stream (ExpireEv [1])"
proof -
  obtain g outs where g: "guard_log sample_prims Map.empty [OpenEv sample_stream 1, ExpireEv [1]] = (g, outs)" by fastforce
  have "snd (guard_log sample_prims Map.empty [OpenEv sample_stream 1, ExpireEv [1]]) = [Inr (), Inr ()]"
    by code_simp
  then have o: "outs = [Inr (), Inr ()]" using g by simp
  have "\<not> (ends_stream (OpenEv sample_stream 1) \<and> event_stream (ExpireEv [1]) = event_stream (OpenEv sample_stream 1))"
    using stream_ids_single_use [OF g, of 0 1] o by simp
  then show ?thesis using g o by (simp add: ends_stream_def)
qed

text \<open>C39: The one signed digest commits the sender to the delivered bytes: a commitment is accepted exactly for chunk lists within the
  bound whose data, in offset order, have its digest; two accepted lists deliver the same bytes unless
  SHA-384 collides; and reordering the delivery of chunks at distinct offsets changes nothing.\<close>

theorem stream_commitment_binds:
  "(verify_commit P c chunks = Inr () \<longleftrightarrow>
      int (length chunks) \<le> 1048576 \<and> sc_digest c = sha384 P (concat (map ch_data (sort_key ch_offset chunks)))) \<and>
   (verify_commit P c chunks = Inr () \<and> verify_commit P c chunks' = Inr () \<and>
      inj_on (sha384 P) {delivered chunks, delivered chunks'} \<longrightarrow> delivered chunks = delivered chunks') \<and>
   (mset chunks = mset chunks' \<and> distinct (map ch_offset chunks) \<longrightarrow> verify_commit P c chunks = verify_commit P c chunks')"
proof (intro conjI impI)
  show "verify_commit P c chunks = Inr () \<longleftrightarrow>
      int (length chunks) \<le> 1048576 \<and> sc_digest c = sha384 P (concat (map ch_data (sort_key ch_offset chunks)))"
    by (simp add: verify_commit_iff MAX_STREAM_CHUNKS_def delivered_def)
next
  assume "verify_commit P c chunks = Inr () \<and> verify_commit P c chunks' = Inr () \<and> inj_on (sha384 P) {delivered chunks, delivered chunks'}"
  then show "delivered chunks = delivered chunks'" by (auto simp: verify_commit_iff inj_on_def)
next
  assume a: "mset chunks = mset chunks' \<and> distinct (map ch_offset chunks)"
  then have "length chunks = length chunks'" "delivered chunks = delivered chunks'"
    using mset_eq_length delivered_perm by blast+
  then show "verify_commit P c chunks = verify_commit P c chunks'" by (simp add: verify_commit_def commit_digest_delivered)
qed

theorem stream_commitment_binds_witness:
  "verify_commit sample_prims \<lparr>sc_stream_id = [1], sc_digest = [7, 8]\<rparr> [\<lparr>ch_offset = 1, ch_data = [8]\<rparr>, \<lparr>ch_offset = 0, ch_data = [7]\<rparr>]
   = verify_commit sample_prims \<lparr>sc_stream_id = [1], sc_digest = [7, 8]\<rparr> [\<lparr>ch_offset = 0, ch_data = [7]\<rparr>, \<lparr>ch_offset = 1, ch_data = [8]\<rparr>]"
  by (rule stream_commitment_binds [THEN conjunct2, THEN conjunct2, THEN mp]) simp

text \<open>A checkpoint confirms exactly a gap-free prefix: it is accepted if and only if the chunks are within the bound, start at
  offset 0 with each beginning where the one before ends, cover exactly the claimed number of octets, and
  have the claimed digest.\<close>

theorem checkpoint_exact:
  "verify_checkpoint P cp prefix = Inr () \<longleftrightarrow>
     int (length prefix) \<le> 1048576 \<and> gapless prefix \<and>
     cp_through_offset cp = int (length (delivered prefix)) \<and> cp_digest_so_far cp = sha384 P (delivered prefix)"
  by (simp add: verify_checkpoint_iff MAX_STREAM_CHUNKS_def)

text \<open>Chunks that share an offset are folded in the order given: there the input order does matter.\<close>

lemma equal_offsets_order_matters:
  "commit_digest sample_prims [\<lparr>ch_offset = 0, ch_data = [1]\<rparr>, \<lparr>ch_offset = 0, ch_data = [2]\<rparr>] \<noteq>
   commit_digest sample_prims [\<lparr>ch_offset = 0, ch_data = [2]\<rparr>, \<lparr>ch_offset = 0, ch_data = [1]\<rparr>]"
  by code_simp

end
