(* ===== verification/Identity.thy ===== *)
theory Identity
  imports Cose
begin

text \<open>
  Identity (\<^verbatim>\<open>impl/python/naalp/identity.py\<close>): the self-certifying signer id with its varint and
  base32 encodings, the co-signed rotation record, revocation, foreign links, and the durable identity
  thread resolved from a chain of rotations.
\<close>

unbundle bit_operations_syntax

section \<open>The signer id\<close>

definition MULTICODEC :: "int \<Rightarrow> nat option" where
  "MULTICODEC alg =
     (if alg = ALG_ED25519 then Some 0xED
      else if alg = ALG_MLDSA65 then Some 0x1211
      else if alg = ALG_MLDSA87 then Some 0x1212 else None)"

definition MH_SHA256 :: nat where "MH_SHA256 = 0x12"

function uvarint :: "nat \<Rightarrow> bytes" where
  "uvarint n =
     (let b = n AND 0x7F; n' = drop_bit 7 n in
      if n' \<noteq> 0 then of_nat (b OR 0x80) # uvarint n' else [of_nat b])"
  by pat_completeness auto
termination
  by (relation "measure id") (auto simp: drop_bit_eq_div)

declare uvarint.simps [simp del]

text \<open>
  \<^verbatim>\<open>base64.b32encode\<close> of the standard library: five-byte quanta as eight letters, the last quantum
  padded with zero bytes and its unused letters replaced by \<^verbatim>\<open>=\<close>.
\<close>

definition B32_ALPHABET :: string where
  "B32_ALPHABET = ''ABCDEFGHIJKLMNOPQRSTUVWXYZ234567''"

definition b32_digits :: "nat \<Rightarrow> nat list" where
  "b32_digits n = map (\<lambda>i. n div 32 ^ i mod 32) (rev [0..<8])"

definition b32_kept :: "nat \<Rightarrow> nat" where
  "b32_kept k = (if k = 1 then 2 else if k = 2 then 4 else if k = 3 then 5 else if k = 4 then 7 else 8)"

definition b32_quantum :: "bytes \<Rightarrow> string" where
  "b32_quantum chunk =
     (let k = length chunk;
          cs = map (\<lambda>d. B32_ALPHABET ! d) (b32_digits (be_nat (chunk @ replicate (5 - k) 0)))
      in take (b32_kept k) cs @ replicate (8 - b32_kept k) CHR ''='')"

fun b32encode :: "bytes \<Rightarrow> string" where
  "b32encode bs = (if bs = [] then [] else b32_quantum (take 5 bs) @ b32encode (drop 5 bs))"

declare b32encode.simps [simp del]

definition ascii_lower :: "char \<Rightarrow> char" where
  "ascii_lower c = (if 65 \<le> (of_char c :: nat) \<and> (of_char c :: nat) \<le> 90 then char_of ((of_char c :: nat) + 32) else c)"

definition rstrip_eq :: "string \<Rightarrow> string" where
  "rstrip_eq s = rev (dropWhile (\<lambda>c. c = CHR ''='') (rev s))"

definition multihash_text :: "bytes \<Rightarrow> pystr" where
  "multihash_text digest =
     (let mh = uvarint MH_SHA256 @ uvarint (length digest) @ digest in
      pystr (CHR ''b'' # rstrip_eq (map ascii_lower (b32encode mh))))"

definition signer_id :: "prims \<Rightarrow> int \<Rightarrow> bytes \<Rightarrow> pystr res" where
  "signer_id P alg pubkey =
     (case MULTICODEC alg of None \<Rightarrow> Inl UnknownAlg
      | Some mc \<Rightarrow> Inr (multihash_text (sha256 P (uvarint mc @ pubkey))))"

definition composite_signer_id :: "prims \<Rightarrow> int \<Rightarrow> bytes \<Rightarrow> bytes \<Rightarrow> pystr res" where
  "composite_signer_id P mldsa_alg mldsa_pub ed_pub =
     (if mldsa_alg \<noteq> ALG_MLDSA65 \<and> mldsa_alg \<noteq> ALG_MLDSA87 then Inl UnknownAlg
      else Inr (multihash_text (sha256 P
        (uvarint (the (MULTICODEC mldsa_alg)) @ mldsa_pub @ uvarint (the (MULTICODEC ALG_ED25519)) @ ed_pub))))"

definition check_signer :: "prims \<Rightarrow> pystr \<Rightarrow> int \<Rightarrow> bytes \<Rightarrow> unit res" where
  "check_signer P claimed alg pubkey =
     rbind (signer_id P alg pubkey) (\<lambda>i. if i \<noteq> claimed then Inl SignerMismatch else Inr ())"

definition require_nfc :: "prims \<Rightarrow> pystr \<Rightarrow> unit res" where
  "require_nfc P s = (if nfc P s \<noteq> s then Inl NonNFC else Inr ())"

section \<open>Rotation, revocation and foreign links\<close>

record rotation_record =
  rot_old :: pystr
  rot_new :: pystr
  rot_not_before :: int

definition rotation_bytes :: "rotation_record \<Rightarrow> bytes res" where
  "rotation_bytes r = encode (M [(U 1, T (rot_old r)), (U 2, T (rot_new r)), (U 3, U (rot_not_before r))])"

definition sign_rotation :: "prims \<Rightarrow> rotation_record \<Rightarrow> int \<Rightarrow> bytes \<Rightarrow> bytes \<Rightarrow> (bytes \<times> bytes) res" where
  "sign_rotation P r alg old_seed new_seed =
     rbind (rotation_bytes r) (\<lambda>m.
       rbind (mldsa_sign P alg old_seed m) (\<lambda>old_sig.
         rbind (mldsa_sign P alg new_seed m) (\<lambda>new_sig. Inr (old_sig, new_sig))))"

definition verify_rotation ::
    "prims \<Rightarrow> rotation_record \<Rightarrow> int \<Rightarrow> bytes \<Rightarrow> int \<Rightarrow> bytes \<Rightarrow> bytes \<Rightarrow> bytes \<Rightarrow> unit res" where
  "verify_rotation P r old_alg old_pub new_alg new_pub old_sig new_sig =
     (let ids = rbind (signer_id P old_alg old_pub) (\<lambda>oid.
                  if oid \<noteq> rot_old r then Inl RotationUnauthorized
                  else rbind (signer_id P new_alg new_pub) (\<lambda>nid.
                    if nid \<noteq> rot_new r then Inl RotationUnauthorized else Inr ()))
      in case ids of
           Inl e \<Rightarrow> Inl (if e = UnknownAlg then RotationUnauthorized else e)
         | Inr _ \<Rightarrow>
             rbind (rotation_bytes r) (\<lambda>m.
               rbind (cose_verify1_raw P old_alg old_pub m old_sig) (\<lambda>old_ok.
                 if \<not> old_ok then Inl RotationUnauthorized
                 else rbind (cose_verify1_raw P new_alg new_pub m new_sig) (\<lambda>new_ok.
                   if \<not> new_ok then Inl RotationUnauthorized else Inr ()))))"

record revocation_record =
  rev_key :: pystr
  rev_not_after :: int

definition revocation_bytes :: "revocation_record \<Rightarrow> bytes res" where
  "revocation_bytes r = encode (M [(U 1, T (rev_key r)), (U 2, U (rev_not_after r))])"

definition verify_revocation ::
    "prims \<Rightarrow> revocation_record \<Rightarrow> int \<Rightarrow> bytes \<Rightarrow> bytes \<Rightarrow> pystr list \<Rightarrow> unit res" where
  "verify_revocation P r alg pub sig recovery_ids =
     rbind (signer_id P alg pub) (\<lambda>id.
       if \<not> (id = rev_key r \<or> id \<in> set recovery_ids) then Inl SignerMismatch
       else rbind (revocation_bytes r) (\<lambda>m.
         rbind (cose_verify1_raw P alg pub m sig) (\<lambda>ok.
           if \<not> ok then Inl BadSignature else Inr ())))"

definition revoked_at :: "revocation_record \<Rightarrow> int \<Rightarrow> bool" where
  "revoked_at r pos_time \<longleftrightarrow> pos_time > rev_not_after r"

record foreign_link_record =
  fl_controls :: pystr
  fl_foreign_id :: pystr
  fl_not_after :: int

definition foreign_link_bytes :: "foreign_link_record \<Rightarrow> bytes res" where
  "foreign_link_bytes r =
     encode (M [(U 1, T (fl_controls r)), (U 2, T (fl_foreign_id r)), (U 3, U (fl_not_after r))])"

definition verify_foreign_link ::
    "prims \<Rightarrow> foreign_link_record \<Rightarrow> int \<Rightarrow> bytes \<Rightarrow> bytes \<Rightarrow> int \<Rightarrow> bool res" where
  "verify_foreign_link P r alg foreign_pub sig now =
     rbind (require_nfc P (fl_foreign_id r)) (\<lambda>_.
       if now > fl_not_after r then Inr False
       else rbind (foreign_link_bytes r) (\<lambda>m.
         rbind (cose_verify1_raw P alg foreign_pub m sig) (\<lambda>ok.
           if \<not> ok then Inr False else Inr True)))"

section \<open>The durable identity thread\<close>

record rotation_evidence =
  ev_record :: rotation_record
  ev_old_alg :: int
  ev_new_alg :: int
  ev_old_pub :: bytes
  ev_new_pub :: bytes
  ev_old_sig :: bytes
  ev_new_sig :: bytes

record thread =
  th_root :: pystr
  th_current :: pystr
  th_chain :: "pystr list"

definition attributable :: "thread \<Rightarrow> pystr \<Rightarrow> bool" where
  "attributable t signer \<longleftrightarrow> signer \<in> set (th_chain t)"

definition verify_evidence :: "prims \<Rightarrow> rotation_evidence \<Rightarrow> unit res" where
  "verify_evidence P e =
     verify_rotation P (ev_record e) (ev_old_alg e) (ev_old_pub e) (ev_new_alg e) (ev_new_pub e)
       (ev_old_sig e) (ev_new_sig e)"

definition thread_step :: "prims \<Rightarrow> pystr list \<times> pystr \<Rightarrow> rotation_evidence \<Rightarrow> (pystr list \<times> pystr) res" where
  "thread_step P s e =
     (let (chain, prev_new) = s in
      if rot_old (ev_record e) \<noteq> prev_new then Inl RotationUnauthorized
      else rbind (verify_evidence P e) (\<lambda>_.
        Inr (chain @ [rot_new (ev_record e)], rot_new (ev_record e))))"

definition resolve_thread :: "prims \<Rightarrow> rotation_evidence list \<Rightarrow> thread res" where
  "resolve_thread P evs =
     (case evs of [] \<Rightarrow> Inl RotationUnauthorized
      | e # _ \<Rightarrow>
        (let root = rot_old (ev_record e) in
         rbind (rfold (thread_step P) ([root], root) evs) (\<lambda>(chain, prev_new).
           Inr \<lparr>th_root = root, th_current = prev_new, th_chain = chain\<rparr>)))"

section \<open>Varints\<close>

lemma and_127: "(n :: nat) AND 127 = n mod 128"
  using take_bit_eq_mask [of 7 n] by (simp add: take_bit_eq_mod mask_eq_exp_minus_1)

lemma or_128: "a < 128 \<Longrightarrow> a OR 128 = a + (128 :: nat)"
proof -
  assume "a < 128"
  then have "take_bit 7 a = a" by (simp add: take_bit_nat_eq_self)
  then have "a AND push_bit 7 1 = 0"
    by (intro bit_eqI) (metis bit_0_eq bit_and_iff bit_push_bit_iff bit_take_bit_iff bot_apply bot_bool_def not_le)
  then show ?thesis
    using disjunctive_add_eq_or [of a "push_bit 7 1"] by (simp add: push_bit_eq_mult)
qed

lemma uvarint_rec:
  "uvarint n = (if n < 128 then [of_nat n] else of_nat (n mod 128 + 128) # uvarint (n div 128))"
  by (subst uvarint.simps) (simp add: Let_def and_127 or_128 drop_bit_eq_div div_eq_0_iff del: of_nat_add)

text \<open>A varint is self-delimiting.\<close>

lemma uvarint_prefix_free: "uvarint m @ xs = uvarint n @ ys \<longleftrightarrow> m = n \<and> xs = ys"
proof (induction m arbitrary: n rule: uvarint.induct)
  case (1 m)
  note IH = "1.IH" [OF refl refl, unfolded drop_bit_eq_div]
  have ne: "(of_nat a :: byte) \<noteq> of_nat (b mod 128 + 128)" if "a < 128" for a b
    using that by (subst of_nat_byte_eq_iff) auto
  have eq: "(of_nat (a mod 128 + 128) :: byte) = of_nat (b mod 128 + 128) \<longleftrightarrow> a mod 128 = b mod 128" for a b
    by (subst of_nat_byte_eq_iff) auto
  have dm: "m div 128 = n div 128 \<Longrightarrow> m mod 128 = n mod 128 \<Longrightarrow> m = n"
    by (metis div_mult_mod_eq)
  consider "m < 128" "n < 128" | "m < 128" "\<not> n < 128" | "\<not> m < 128" "n < 128" | "\<not> m < 128" "\<not> n < 128"
    by blast
  then show ?case
  proof cases
    case 1
    then show ?thesis by (auto simp: uvarint_rec [of m] uvarint_rec [of n] of_nat_byte_eq_iff)
  next
    case 2
    then show ?thesis using ne [of m n] by (auto simp: uvarint_rec [of m] uvarint_rec [of n] simp del: of_nat_add)
  next
    case 3
    then show ?thesis using ne [of n m] by (auto simp: uvarint_rec [of m] uvarint_rec [of n] simp del: of_nat_add)
  next
    case 4
    then have "m div 2 ^ 7 \<noteq> 0" by (simp add: div_eq_0_iff)
    from IH [OF this, of "n div 128"] 4 dm show ?thesis
      by (auto simp: uvarint_rec [of m] uvarint_rec [of n] eq simp del: of_nat_add)
  qed
qed

section \<open>Base32 text\<close>

lemma base32_digits_agree:
  assumes "lo \<le> hi" and "n div 32 ^ hi = m div 32 ^ hi"
    and "\<And>i. lo \<le> i \<Longrightarrow> i < hi \<Longrightarrow> n div 32 ^ i mod 32 = m div 32 ^ i mod (32 :: nat)"
  shows "n div 32 ^ lo = m div 32 ^ lo"
  using assms(1)
proof (induction rule: inc_induct)
  case base
  show ?case by (rule assms(2))
next
  case (step i)
  have "x div 32 ^ i = x div 32 ^ Suc i * 32 + x div 32 ^ i mod (32 :: nat)" for x
    by (metis div_mult2_eq div_mult_mod_eq mult.commute power_Suc)
  with step assms(3) show ?case by metis
qed

lemma be_nat_zeros: "be_nat (bs @ replicate k 0) = be_nat bs * 256 ^ k"
proof (induction k)
  case (Suc k)
  have "bs @ replicate (Suc k) 0 = (bs @ replicate k 0) @ [0]" by (simp add: replicate_append_same)
  then show ?case by (simp only: be_nat_snoc Suc) simp
qed simp

lemma b32_digits_nth: "j < 8 \<Longrightarrow> b32_digits n ! j = n div 32 ^ (7 - j) mod 32"
  by (simp add: b32_digits_def rev_nth)

lemma b32_digits_less: "d \<in> set (b32_digits n) \<Longrightarrow> d < 32"
  by (auto simp: b32_digits_def)

lemma length_b32_digits [simp]: "length (b32_digits n) = 8"
  by (simp add: b32_digits_def)

lemma be_nat_inject: "length bs = length cs \<Longrightarrow> be_nat bs = be_nat cs \<Longrightarrow> bs = cs"
  by (metis be_bytes_be_nat)

text \<open>The letters of a quantum that carry data determine its bytes.\<close>

lemma b32_digits_inject:
  assumes len: "length c = k" "length d = k" and k: "k \<in> {1, 2, 3, 4, 5}"
    and eq: "take (b32_kept k) (b32_digits (be_nat (c @ replicate (5 - k) 0)))
           = take (b32_kept k) (b32_digits (be_nat (d @ replicate (5 - k) 0)))"
  shows "c = d"
proof -
  let ?n = "\<lambda>c. be_nat (c @ replicate (5 - k) 0)"
  define lo where "lo = 8 - b32_kept k"
  have lo: "lo \<le> 8" "b32_kept k = 8 - lo" "32 ^ lo dvd (256 :: nat) ^ (5 - k)"
    using k by (auto simp: lo_def b32_kept_def)
  have small: "?n x < 32 ^ 8" if "length x = k" for x
    using be_nat_less [of "x @ replicate (5 - k) 0"] that k by auto
  have agree: "?n c div 32 ^ i mod 32 = ?n d div 32 ^ i mod 32" if i: "lo \<le> i" "i < 8" for i
  proof -
    have "7 - i < b32_kept k" "7 - (7 - i) = i" "7 - i < 8" using i lo by auto
    then show ?thesis
      using arg_cong [OF eq, of "\<lambda>xs. xs ! (7 - i)"] by (simp add: b32_digits_nth)
  qed
  have "?n c div 32 ^ lo = ?n d div 32 ^ lo"
    using base32_digits_agree [OF lo(1) _ agree] small len by simp
  moreover have "32 ^ lo dvd ?n x" for x
    using lo(3) by (simp add: be_nat_zeros)
  ultimately have "?n c = ?n d" by (metis dvd_div_mult_self)
  then show "c = d"
    using be_nat_inject [of c d] len by (simp add: be_nat_zeros)
qed

text \<open>The text form: lower-case letters, no padding.\<close>

definition b32_letter :: "nat \<Rightarrow> char" where
  "b32_letter d = ascii_lower (B32_ALPHABET ! d)"

definition b32_letters :: "bytes \<Rightarrow> string" where
  "b32_letters c = take (b32_kept (length c)) (map b32_letter (b32_digits (be_nat (c @ replicate (5 - length c) 0))))"

fun b32_text :: "bytes \<Rightarrow> string" where
  "b32_text bs = (if bs = [] then [] else b32_letters (take 5 bs) @ b32_text (drop 5 bs))"

declare b32_text.simps [simp del]

lemma b32_letters_table:
  "distinct (map b32_letter [0..<32])" "\<forall>d \<in> set [0..<32]. b32_letter d \<noteq> CHR ''=''"
  by code_simp+

lemma b32_letter_inj: "inj_on b32_letter {..<32}"
  using b32_letters_table(1) by (simp add: distinct_map atLeast_upt)

lemma b32_letters_no_pad: "x \<in> set (b32_letters c) \<Longrightarrow> x \<noteq> CHR ''=''"
  using b32_letters_table(2) b32_digits_less by (fastforce simp: b32_letters_def dest: in_set_takeD)

lemma length_b32_letters: "length (b32_letters c) = b32_kept (length c)"
  by (simp add: b32_letters_def b32_kept_def)

lemma b32_letters_inject:
  assumes "b32_letters c = b32_letters d" and "length c = length d" "c \<noteq> []" "length c \<le> 5"
  shows "c = d"
proof (rule b32_digits_inject [OF refl])
  let ?n = "\<lambda>c. b32_digits (be_nat (c @ replicate (5 - length c) 0))"
  have sub: "set (take k (?n c)) \<union> set (take k (?n d)) \<subseteq> {..<32}" for k
    using b32_digits_less by (fastforce dest: in_set_takeD)
  have "map b32_letter (take (b32_kept (length c)) (?n c)) = map b32_letter (take (b32_kept (length c)) (?n d))"
    using assms(1,2) by (simp add: b32_letters_def take_map)
  then show "take (b32_kept (length c)) (b32_digits (be_nat (c @ replicate (5 - length c) 0))) =
      take (b32_kept (length c)) (b32_digits (be_nat (d @ replicate (5 - length c) 0)))"
    using inj_on_map_eq_map [OF inj_on_subset [OF b32_letter_inj sub]] assms(2) by simp
  have "1 \<le> length c" using assms(3) by (cases c) auto
  then show "length c \<in> {1, 2, 3, 4, 5}" using assms(4) by auto
qed (simp add: assms)

lemma rstrip_eq_append:
  assumes "s = [] \<or> last s \<noteq> CHR ''=''"
  shows "rstrip_eq (s @ replicate n CHR ''='') = s"
proof -
  have "dropWhile (\<lambda>c. c = CHR ''='') (rev s) = rev s"
    using assms by (cases s rule: rev_cases) auto
  moreover have "dropWhile (\<lambda>c. c = CHR ''='') (replicate n CHR ''='' @ t) = dropWhile (\<lambda>c. c = CHR ''='') t" for t
    by (induction n) auto
  ultimately show ?thesis by (simp add: rstrip_eq_def)
qed

lemma b32_quantum_letters:
  "map ascii_lower (b32_quantum c) = b32_letters c @ replicate (8 - b32_kept (length c)) CHR ''=''"
proof -
  have "ascii_lower CHR ''='' = CHR ''=''"
    by code_simp
  then show ?thesis by (simp add: b32_quantum_def Let_def b32_letters_def take_map b32_letter_def comp_def)
qed

lemma b32_text_pad: "\<exists>n. map ascii_lower (b32encode bs) = b32_text bs @ replicate n CHR ''=''"
proof (induction bs rule: b32encode.induct)
  case (1 bs)
  show ?case
  proof (cases "length bs \<le> 5")
    case True
    then show ?thesis
      by (subst b32encode.simps, subst b32_text.simps)
        (auto simp: b32encode.simps [of "[]"] b32_text.simps [of "[]"] b32_quantum_letters)
  next
    case False
    then have "bs \<noteq> []" by auto
    with 1 obtain n where "map ascii_lower (b32encode (drop 5 bs)) = b32_text (drop 5 bs) @ replicate n CHR ''=''"
      by blast
    then show ?thesis
      using False by (subst b32encode.simps, subst b32_text.simps) (auto simp: b32_quantum_letters b32_kept_def)
  qed
qed

lemma b32_text_no_pad: "x \<in> set (b32_text bs) \<Longrightarrow> x \<noteq> CHR ''=''"
  by (induction bs rule: b32_text.induct) (subst (asm) (2) b32_text.simps, auto dest: b32_letters_no_pad split: if_splits)

lemma rstrip_b32: "rstrip_eq (map ascii_lower (b32encode bs)) = b32_text bs"
proof -
  obtain n where "map ascii_lower (b32encode bs) = b32_text bs @ replicate n CHR ''=''"
    using b32_text_pad by blast
  moreover have "b32_text bs = [] \<or> last (b32_text bs) \<noteq> CHR ''=''"
    using b32_text_no_pad [of "last (b32_text bs)" bs] by (metis last_in_set)
  ultimately show ?thesis using rstrip_eq_append by metis
qed

lemma b32_text_short: "bs \<noteq> [] \<Longrightarrow> length bs < 5 \<Longrightarrow> b32_text bs = b32_letters bs"
  by (subst b32_text.simps) (simp add: b32_text.simps [of "[]"])

lemma b32_text_long: "length bs \<ge> 5 \<Longrightarrow> b32_text bs = b32_letters (take 5 bs) @ b32_text (drop 5 bs)"
  by (subst b32_text.simps) auto

lemma b32_kept_inj: "b32_kept k = b32_kept l \<Longrightarrow> 1 \<le> k \<Longrightarrow> k \<le> 5 \<Longrightarrow> 1 \<le> l \<Longrightarrow> l \<le> 5 \<Longrightarrow> k = l"
  by (auto simp: b32_kept_def split: if_splits)

lemma b32_text_lengths:
  shows "bs \<noteq> [] \<Longrightarrow> b32_text bs \<noteq> []"
    and "length bs < 5 \<Longrightarrow> length (b32_text bs) < 8"
    and "length bs \<ge> 5 \<Longrightarrow> length (b32_text bs) \<ge> 8"
proof -
  show l: "length bs \<ge> 5 \<Longrightarrow> length (b32_text bs) \<ge> 8"
    by (simp add: b32_text_long length_b32_letters b32_kept_def)
  have s: "length (b32_text bs) = b32_kept (length bs)" if "bs \<noteq> []" "length bs < 5"
    using that by (simp add: b32_text_short length_b32_letters)
  then show "length bs < 5 \<Longrightarrow> length (b32_text bs) < 8"
    by (cases "bs = []") (auto simp: b32_text.simps [of "[]"] b32_kept_def numeral_eq_Suc less_Suc_eq)
  show "bs \<noteq> [] \<Longrightarrow> b32_text bs \<noteq> []"
    using l s by (cases "length bs < 5") (auto simp: b32_kept_def split: if_splits)
qed

lemma b32_text_inject: "b32_text bs = b32_text cs \<Longrightarrow> bs = cs"
proof (induction bs arbitrary: cs rule: b32_text.induct)
  case (1 bs)
  note same = b32_text_lengths(2,3) [of bs] b32_text_lengths(2,3) [of cs] "1.prems"
  consider "bs = []" | "bs \<noteq> []" "length bs < 5" | "length bs \<ge> 5" by linarith
  then show ?case
  proof cases
    case 1
    then show ?thesis using same b32_text_lengths(1) [of cs] by (auto simp: b32_text.simps [of "[]"])
  next
    case 2
    then have c: "cs \<noteq> []" "length cs < 5"
      using same b32_text_lengths(1) [of bs]
      by (auto simp: b32_text.simps [of "[]"], cases "length cs < 5", auto)
    have e: "b32_letters bs = b32_letters cs"
      using 2 c "1.prems" by (simp add: b32_text_short)
    have "b32_kept (length bs) = b32_kept (length cs)"
      using arg_cong [OF e, of length] by (simp only: length_b32_letters)
    moreover have "1 \<le> length bs" "1 \<le> length cs" using 2(1) c(1) by (simp_all add: Suc_le_eq)
    ultimately have "length bs = length cs" using 2(2) c(2) b32_kept_inj by simp
    then show ?thesis using b32_letters_inject [OF e] 2 by simp
  next
    case 3
    then have c: "length cs \<ge> 5" using same by (cases "length cs < 5") auto
    have "b32_letters (take 5 bs) = b32_letters (take 5 cs) \<and> b32_text (drop 5 bs) = b32_text (drop 5 cs)"
      using 3 c "1.prems" by (simp add: b32_text_long append_eq_same_length length_b32_letters)
    moreover have "bs \<noteq> []" using 3 by auto
    ultimately have "take 5 bs = take 5 cs" "drop 5 bs = drop 5 cs"
      using 3 c "1.IH" b32_letters_inject [of "take 5 bs" "take 5 cs"] by auto
    then show ?thesis by (metis append_take_drop_id)
  qed
qed

lemma pystr_inject [simp]: "pystr s = pystr t \<longleftrightarrow> s = t"
  by (auto simp: pystr_def inj_map_eq_map inj_def)

lemma multihash_text_inject: "multihash_text d = multihash_text e \<Longrightarrow> d = e"
  by (auto simp: multihash_text_def Let_def rstrip_b32 uvarint_prefix_free dest!: b32_text_inject)

section \<open>Signer ids\<close>

lemma MULTICODEC_inj: "MULTICODEC a = Some mc \<Longrightarrow> MULTICODEC b = Some mc \<Longrightarrow> a = b"
  by (auto simp: MULTICODEC_def split: if_splits)

lemma signer_id_InrE:
  assumes "signer_id P alg pk = Inr i"
  obtains mc where "MULTICODEC alg = Some mc" "i = multihash_text (sha256 P (uvarint mc @ pk))"
  using assms by (auto simp: signer_id_def split: option.splits)

lemma signer_id_ok: "is_ok (signer_id P alg pk) \<longleftrightarrow> alg \<in> {ALG_ED25519, ALG_MLDSA65, ALG_MLDSA87}"
  by (auto simp: signer_id_def MULTICODEC_def)

lemma signer_id_errors: "signer_id P alg pk = Inl e \<Longrightarrow> e = UnknownAlg"
  by (auto simp: signer_id_def split: option.splits)

lemma signer_id_inject:
  assumes "signer_id P a k = Inr i" and "signer_id P b l = Inr i"
    and "inj_on (sha256 P) {uvarint (the (MULTICODEC a)) @ k, uvarint (the (MULTICODEC b)) @ l}"
  shows "a = b \<and> k = l"
proof -
  obtain m n where m: "MULTICODEC a = Some m" and n: "MULTICODEC b = Some n"
    and "multihash_text (sha256 P (uvarint m @ k)) = multihash_text (sha256 P (uvarint n @ l))"
    using assms(1,2) by (auto elim!: signer_id_InrE)
  then have "uvarint m @ k = uvarint n @ l"
    using multihash_text_inject assms(3) m n by (fastforce simp: inj_on_def)
  then show ?thesis using m n MULTICODEC_inj by (auto simp: uvarint_prefix_free)
qed

lemma check_signer_iff: "check_signer P claimed alg pk = Inr () \<longleftrightarrow> signer_id P alg pk = Inr claimed"
  by (auto simp: check_signer_def res_simps)

lemma check_signer_errors: "check_signer P claimed alg pk = Inl e \<Longrightarrow> e = UnknownAlg \<or> e = SignerMismatch"
  by (auto simp: check_signer_def res_simps split: if_splits dest: signer_id_errors)

section \<open>Rotation\<close>

lemma verify_rotation_iff:
  "verify_rotation P r oa op na np os ns = Inr () \<longleftrightarrow>
     signer_id P oa op = Inr (rot_old r) \<and> signer_id P na np = Inr (rot_new r) \<and>
     (\<exists>m. rotation_bytes r = Inr m \<and> cose_verify1_raw P oa op m os = Inr True \<and>
        cose_verify1_raw P na np m ns = Inr True)"
  by (auto simp: verify_rotation_def Let_def res_simps split: sum.splits)

lemma sign_rotation_verifies:
  assumes "md_correct P" and "sign_rotation P r alg os ns = Inr (osig, nsig)"
    and "md_key_derive P alg os = Inr (op, osk)" and "md_key_derive P alg ns = Inr (np, nsk)"
    and "signer_id P alg op = Inr (rot_old r)" and "signer_id P alg np = Inr (rot_new r)"
  shows "verify_rotation P r alg op alg np osig nsig = Inr ()"
  using assms mldsa_sign_verify(1) [OF assms(1) _ assms(3)] mldsa_sign_verify(1) [OF assms(1) _ assms(4)]
  by (auto simp: verify_rotation_iff sign_rotation_def res_simps)

text \<open>The state after a prefix of the evidence, without the checks.\<close>

definition contiguous :: "rotation_record list \<Rightarrow> bool" where
  "contiguous rs \<longleftrightarrow> (\<forall>i. Suc i < length rs \<longrightarrow> rot_old (rs ! Suc i) = rot_new (rs ! i))"

lemma contiguous_Cons: "contiguous (r # s # rs) \<longleftrightarrow> rot_old s = rot_new r \<and> contiguous (s # rs)"
  by (auto simp: contiguous_def less_Suc_eq_0_disj nth_Cons split: nat.splits)

lemma contiguous_small [simp]: "contiguous []" "contiguous [r]"
  by (simp_all add: contiguous_def)

lemma thread_steps:
  "rfold (thread_step P) (chain, prev) (e # es) = Inr s \<longleftrightarrow>
     rot_old (ev_record e) = prev \<and> contiguous (map ev_record (e # es)) \<and>
     (\<forall>x \<in> set (e # es). verify_evidence P x = Inr ()) \<and>
     s = (chain @ map (\<lambda>x. rot_new (ev_record x)) (e # es), rot_new (ev_record (last (e # es))))"
proof (induction es arbitrary: e chain prev)
  case Nil
  then show ?case by (auto simp: thread_step_def res_simps)
next
  case (Cons f es)
  show ?case
    unfolding rfold.simps(2) [of _ _ e] rbind_eq_Inr
    by (subst (1) thread_step_def) (auto simp: Cons.IH res_simps contiguous_Cons simp del: rfold.simps)
qed

lemma resolve_thread_iff:
  "resolve_thread P evs = Inr t \<longleftrightarrow>
     evs \<noteq> [] \<and> contiguous (map ev_record evs) \<and> (\<forall>e \<in> set evs. verify_evidence P e = Inr ()) \<and>
     th_root t = rot_old (ev_record (hd evs)) \<and> th_current t = rot_new (ev_record (last evs)) \<and>
     th_chain t = th_root t # map (\<lambda>e. rot_new (ev_record e)) evs"
  by (cases evs; cases t) (auto simp: resolve_thread_def Let_def res_simps thread_steps simp del: rfold.simps)

section \<open>Revocation and foreign links\<close>

lemma verify_revocation_iff:
  "verify_revocation P r alg pub sig ids = Inr () \<longleftrightarrow>
     (\<exists>id m. signer_id P alg pub = Inr id \<and> (id = rev_key r \<or> id \<in> set ids) \<and>
        revocation_bytes r = Inr m \<and> cose_verify1_raw P alg pub m sig = Inr True)"
  by (auto simp: verify_revocation_def res_simps)

lemma verify_foreign_link_iff:
  "verify_foreign_link P r alg pub sig now = Inr True \<longleftrightarrow>
     nfc P (fl_foreign_id r) = fl_foreign_id r \<and> now \<le> fl_not_after r \<and>
     (\<exists>m. foreign_link_bytes r = Inr m \<and> cose_verify1_raw P alg pub m sig = Inr True)"
  by (auto simp: verify_foreign_link_def require_nfc_def res_simps split: if_splits)

section \<open>Sample ids\<close>

lemma b32_digits_eval:
  "b32_digits n = [n div 34359738368 mod 32, n div 1073741824 mod 32, n div 33554432 mod 32, n div 1048576 mod 32,
    n div 32768 mod 32, n div 1024 mod 32, n div 32 mod 32, n mod 32]"
  by (simp add: b32_digits_def upt_conv_Cons)

lemma b32_letter_eval:
  "map b32_letter [0..<32] = ''abcdefghijklmnopqrstuvwxyz234567''"
  by code_simp

lemma b32_letter_nth: "d < 32 \<Longrightarrow> b32_letter d = ''abcdefghijklmnopqrstuvwxyz234567'' ! d"
  using arg_cong [OF b32_letter_eval, of "\<lambda>s. s ! d"] by simp

lemmas signer_id_eval = signer_id_def MULTICODEC_def alg_defs multihash_text_def rstrip_b32 uvarint_rec MH_SHA256_def
  b32_text.simps b32_letters_def be_nat_def b32_kept_def

text \<open>The ids of the one-byte keys 7 and 8 under the sample primitives.\<close>

lemma sample_ids:
  "signer_id sample_prims (- 49) [7] = Inr (pystr ''bcibzcjah'')"
  "signer_id sample_prims (- 49) [8] = Inr (pystr ''bcibzcjai'')"
  by (simp add: signer_id_eval, simp add: b32_digits_eval b32_letter_nth)+

section \<open>Properties of identity\<close>

text \<open>The signer id certifies the key: two keys with the same id are the same key of the same
  algorithm, unless SHA-256 collides on their two tagged forms. The varint tag and the unpadded
  lower-case base32 text lose nothing.\<close>

theorem signer_id_certifies_key:
  assumes "signer_id P a k = Inr i" and "signer_id P b l = Inr i"
    and "inj_on (sha256 P) {uvarint (the (MULTICODEC a)) @ k, uvarint (the (MULTICODEC b)) @ l}"
  shows "a = b \<and> k = l"
  using assms by (rule signer_id_inject)

theorem signer_id_certifies_key_witness:
  "signer_id sample_prims (- 49) [7] = Inr (pystr ''bcibzcjah'') \<and>
   signer_id sample_prims (- 19) [7] \<noteq> Inr (pystr ''bcibzcjah'')"
proof -
  note i = sample_ids(1)
  have "- 49 = (- 19 :: int) \<and> [7] = [7 :: byte]" if "signer_id sample_prims (- 19) [7] = Inr (pystr ''bcibzcjah'')"
    using signer_id_certifies_key [OF i that] by (simp add: inj_on_def)
  with i show ?thesis by auto
qed

text \<open>A rotation chain resolves exactly when it is not empty, each record's old id is the previous
  record's new id, and every step is co-signed by both keys of the ids it names; the thread then has the
  first old id as root, the last new id as current, and attributes every id in between and no other.\<close>

theorem resolve_thread_exact:
  "resolve_thread P evs = Inr t \<longleftrightarrow>
     evs \<noteq> [] \<and> contiguous (map ev_record evs) \<and>
     list_all (\<lambda>e. signer_id P (ev_old_alg e) (ev_old_pub e) = Inr (rot_old (ev_record e)) \<and>
       signer_id P (ev_new_alg e) (ev_new_pub e) = Inr (rot_new (ev_record e)) \<and>
       (\<exists>m. rotation_bytes (ev_record e) = Inr m \<and>
          cose_verify1_raw P (ev_old_alg e) (ev_old_pub e) m (ev_old_sig e) = Inr True \<and>
          cose_verify1_raw P (ev_new_alg e) (ev_new_pub e) m (ev_new_sig e) = Inr True)) evs \<and>
     th_root t = rot_old (ev_record (hd evs)) \<and> th_current t = rot_new (ev_record (last evs)) \<and>
     {s. attributable t s} = insert (th_root t) ((\<lambda>e. rot_new (ev_record e)) ` set evs) \<and>
     th_chain t = th_root t # map (\<lambda>e. rot_new (ev_record e)) evs"
  unfolding resolve_thread_iff verify_evidence_def verify_rotation_iff list_all_iff
  by (auto simp: attributable_def)

text \<open>A rotation co-signed with the seeds of the two keys it names passes verification and resolves
  to a thread that attributes both the old and the new id.\<close>

theorem cosigned_rotation_resolves:
  assumes "md_correct P" and "sign_rotation P r alg os ns = Inr (osig, nsig)"
    and "md_key_derive P alg os = Inr (op, osk)" and "md_key_derive P alg ns = Inr (np, nsk)"
    and "signer_id P alg op = Inr (rot_old r)" and "signer_id P alg np = Inr (rot_new r)"
  shows "\<exists>t. resolve_thread P [\<lparr>ev_record = r, ev_old_alg = alg, ev_new_alg = alg, ev_old_pub = op,
      ev_new_pub = np, ev_old_sig = osig, ev_new_sig = nsig\<rparr>] = Inr t \<and>
    th_root t = rot_old r \<and> th_current t = rot_new r \<and> attributable t (rot_old r) \<and> attributable t (rot_new r)"
  using sign_rotation_verifies [OF assms]
  by (intro exI [of _ "\<lparr>th_root = rot_old r, th_current = rot_new r, th_chain = [rot_old r, rot_new r]\<rparr>"])
    (simp add: resolve_thread_iff verify_evidence_def attributable_def)

theorem cosigned_rotation_resolves_witness:
  "\<exists>t osig nsig. resolve_thread sample_prims [\<lparr>ev_record = \<lparr>rot_old = pystr ''bcibzcjah'',
      rot_new = pystr ''bcibzcjai'', rot_not_before = 9\<rparr>, ev_old_alg = - 49, ev_new_alg = - 49, ev_old_pub = [7],
      ev_new_pub = [8], ev_old_sig = osig, ev_new_sig = nsig\<rparr>] = Inr t \<and>
    th_root t = pystr ''bcibzcjah'' \<and> th_current t = pystr ''bcibzcjai''"
proof -
  let ?r = "\<lparr>rot_old = pystr ''bcibzcjah'', rot_new = pystr ''bcibzcjai'', rot_not_before = 9\<rparr>"
  have "is_ok (sign_rotation sample_prims ?r (- 49) [7] [8])"
    by code_simp
  then obtain osig nsig where s: "sign_rotation sample_prims ?r (- 49) [7] [8] = Inr (osig, nsig)"
    by (auto simp: is_ok_iff)
  have "signer_id sample_prims (- 49) [7] = Inr (rot_old ?r)" "signer_id sample_prims (- 49) [8] = Inr (rot_new ?r)"
    by (simp_all add: sample_ids)
  from cosigned_rotation_resolves [OF sample_prims_correct(1) s sample_prims_sel(4) sample_prims_sel(4) this] show ?thesis
    by (auto simp: rotation_record.simps)
qed

text \<open>A revocation is accepted exactly when the presented key is the revoked key or one of the
  deployer's recovery keys and its signature over the record verifies: with no recovery keys configured
  only the key itself can revoke itself. Objects at or before not_after stay valid.\<close>

theorem revocation_exact:
  "(verify_revocation P r alg pub sig ids = Inr () \<longleftrightarrow>
     (\<exists>i m. signer_id P alg pub = Inr i \<and> (i = rev_key r \<or> i \<in> set ids) \<and>
        revocation_bytes r = Inr m \<and> cose_verify1_raw P alg pub m sig = Inr True)) \<and>
   (revoked_at r t \<longleftrightarrow> \<not> t \<le> rev_not_after r)"
  by (auto simp: verify_revocation_iff revoked_at_def)

end
