(* ===== verification/Channels.thy ===== *)
theory Channels
  imports Dfs Wal Utf8
begin

text \<open>
  The channel registry (\<^verbatim>\<open>impl/python/naalp/channels.py\<close>): the twenty channels with their kinds, effects, states and
  transitions, the effect check, the check that coordinate frames form a tree, and the durable
  workflow gate. The gate's file is part of its state; its lock makes every call atomic; failures of the
  operating system's write are not modelled.
\<close>

section \<open>The registry\<close>

definition RO :: int where "RO = 0"
definition IW :: int where "IW = 1"
definition NIW :: int where "NIW = 2"
definition DE :: int where "DE = 3"

lemmas channel_effects = RO_def IW_def NIW_def DE_def

definition TABLE :: "(int \<times> string \<times> (int \<times> string \<times> int \<times> bool) list) list" where
  "TABLE = [
    (0x0, ''Control'', [(0, ''Hello'', RO, False), (1, ''Bye'', IW, False), (2, ''Ack'', RO, False), (3, ''Error'', RO, False)]),
    (0x1, ''Memory'', [(0, ''MemoryOffer'', IW, False), (1, ''MemoryAccept'', IW, False), (2, ''MemoryWrite'', NIW,
       False), (3, ''MemoryRead'', RO, False), (4, ''MemoryExpire'', DE, False), (5, ''MemoryRevoke'', DE, False)]),
    (0x2, ''Capability'', [(0, ''CapIssue'', NIW, False), (1, ''CapDelegate'', NIW, False), (2, ''CapRevoke'', DE,
       False), (3, ''CapLookup'', RO, False)]),
    (0x3, ''Identity'', [(0, ''Rotation'', NIW, False), (1, ''Revocation'', DE, False), (2, ''ForeignLink'', IW, False),
       (3, ''KeyAnnounce'', RO, False)]),
    (0x4, ''Governance'', [(0, ''PolicyPublish'', NIW, False), (1, ''Approval'', NIW, False), (2, ''ApprovalHeld'', RO,
       False), (3, ''Consume'', NIW, False), (4, ''GatewayDecision'', NIW, False), (5, ''DecisionRecord'', NIW, False), (6,
       ''EgressAttestation'', NIW, False), (7, ''HazardAuthorization'', NIW, False)]),
    (0x5, ''Immune'', [(0, ''AnomalyReport'', RO, False), (1, ''Quarantine'', DE, False), (2, ''QuarantineLift'', NIW, False)]),
    (0x6, ''Federation'', [(0, ''AuthorityAnnounce'', RO, False), (1, ''ScopeReceipt'', NIW, False)]),
    (0x7, ''Settlement'', [(0, ''SettleIntent'', NIW, False), (1, ''SettleReceipt'', NIW, False), (2, ''SettleReject'',
       IW, False), (3, ''PaymentImport'', NIW, False), (4, ''PaymentChargeBinding'', NIW, False)]),
    (0x8, ''Compliance'', [(0, ''ComplianceRecord'', NIW, False), (1, ''ComplianceQuery'', RO, False), (2,
       ''ComplianceReport'', RO, False)]),
    (0x9, ''Sensory'', [(0, ''Observation'', RO, False), (1, ''Subscribe'', IW, False), (2, ''Unsubscribe'', IW, False)]),
    (0xa, ''Telemetry'', [(0, ''Metric'', RO, False), (1, ''HealthReport'', RO, False)]),
    (0xb, ''Audit'', [(0, ''Receipt'', NIW, False), (1, ''AuditQuery'', RO, False), (2, ''ForkProof'', RO, False), (3,
       ''CheckpointRoot'', NIW, False), (4, ''WitnessCosign'', NIW, False), (5, ''InclusionProof'', RO, False)]),
    (0xc, ''Stream'', [(0, ''StreamOpen'', RO, True), (1, ''StreamCommit'', RO, False), (2, ''StreamCheckpoint'', RO, False)]),
    (0xd, ''Bridge'', [(0, ''Carriage'', RO, True)]),
    (0xe, ''Commerce'', [(0, ''Offer'', RO, False), (1, ''Order'', NIW, False), (2, ''Fulfil'', NIW, False), (3,
       ''Cancel'', DE, False)]),
    (0xf, ''Interaction'', [(0, ''Elicit'', RO, False), (1, ''Respond'', IW, False), (2, ''Confirm'', NIW, False), (3,
       ''UiEvent'', NIW, False)]),
    (0x10, ''Discovery'', [(0, ''DiscoveryRecord'', RO, False), (1, ''DiscoveryQuery'', RO, False)]),
    (0x11, ''Workflow'', [(0, ''TaskCreate'', NIW, False), (1, ''TaskInput'', NIW, False), (2, ''TaskCancel'', DE,
       False), (3, ''TaskResult'', NIW, False)]),
    (0x12, ''Knowledge'', [(0, ''Assert'', NIW, False), (1, ''Retract'', DE, False), (2, ''KnowledgeQuery'', RO, False)]),
    (0x13, ''Spatial'', [(0, ''FrameDefine'', IW, False), (1, ''Pose'', RO, False), (2, ''StateUpdate'', RO, False), (3,
       ''SnapshotQuery'', RO, False)])]"

definition STATE_MACHINE :: "(int \<times> string list \<times> (string \<times> string) list \<times> string list) list" where
  "STATE_MACHINE = [
    (0x0, [''open'', ''closing''], [(''open'', ''closing'')], [''UnknownKind'', ''ProfileMismatch'']),
    (0x1, [''offered'', ''accepted'', ''live'', ''expired'', ''revoked''], [(''offered'', ''accepted''), (''accepted'',
       ''live''), (''live'', ''expired''), (''live'', ''revoked'')], [''AccessDenied'', ''MemoryError'']),
    (0x2, [''issued'', ''delegated'', ''revoked'', ''expired''], [(''issued'', ''delegated''), (''delegated'',
       ''delegated''), (''issued'', ''revoked''), (''delegated'', ''revoked''), (''issued'', ''expired''), (''delegated'',
       ''expired'')], [''CapExceedsParent'', ''CapRevoked'']),
    (0x3, [''active'', ''rotated'', ''revoked''], [(''active'', ''rotated''), (''rotated'', ''rotated''), (''active'',
       ''revoked''), (''rotated'', ''revoked'')], [''RotationUnauthorized'', ''KeyRevoked'', ''SignerMismatch'']),
    (0x4, [''requested'', ''held'', ''approved'', ''consumed'', ''expired''], [(''requested'', ''held''), (''requested'',
       ''approved''), (''approved'', ''consumed''), (''held'', ''approved''), (''requested'', ''expired''), (''approved'',
       ''expired'')], [''ApprovalRequired'', ''ApprovalMismatch'', ''AlreadyConsumed'', ''EffectNotAuthorized'']),
    (0x5, [''normal'', ''quarantined'', ''lifted'', ''permanent''], [(''normal'', ''quarantined''), (''quarantined'',
       ''lifted''), (''quarantined'', ''permanent'')], [''AccessDenied'']),
    (0x6, [''announced'', ''ordering''], [(''announced'', ''ordering'')], [''AuthorityUnknown'', ''ScopeOverlapConflict'']),
    (0x7, [''intent'', ''receipt'', ''reject''], [(''intent'', ''receipt''), (''intent'', ''reject'')],
       [''ValueMismatch'', ''SettleExpired'']),
    (0x8, [''appended''], [], [''RecordUnsigned'', ''JurisdictionUnknown'']),
    (0x9, [''active'', ''cancelled''], [(''active'', ''cancelled'')], [''SubscriptionUnknown'']),
    (0xa, [''stateless''], [], [''MetricMalformed'']),
    (0xb, [''appended''], [], [''ChainBroken'', ''Equivocation'', ''ReceiptUnsigned'']),
    (0xc, [''open'', ''committed''], [(''open'', ''committed'')], [''StreamDigestMismatch'', ''FlowControlError'']),
    (0xd, [''carried''], [], [''EnvelopeMalformed'', ''ProtocolUnsupported'', ''MethodUnsupported'', ''NotDelivered'',
       ''EffectNotAuthorized'']),
    (0xe, [''offer'', ''order'', ''fulfil'', ''cancel''], [(''offer'', ''order''), (''order'', ''fulfil''), (''order'',
       ''cancel'')], [''OfferExpired'', ''ApprovalRequired'', ''OrderMismatch'']),
    (0xf, [''elicit'', ''respond'', ''confirm'', ''timeout''], [(''elicit'', ''respond''), (''elicit'', ''confirm''),
       (''elicit'', ''timeout'')], [''InteractionTimeout'', ''ElicitUnauthorized'']),
    (0x10, [''fresh'', ''stale''], [(''fresh'', ''stale'')], [''RecordExpired'', ''TrustAnchorUnknown'']),
    (0x11, [''created'', ''awaiting-input'', ''awaiting-approval'', ''running'', ''result'', ''cancelled''],
       [(''created'', ''awaiting-input''), (''created'', ''awaiting-approval''), (''awaiting-input'', ''running''),
       (''awaiting-approval'', ''running''), (''running'', ''result''), (''created'', ''cancelled''), (''awaiting-input'',
       ''cancelled''), (''awaiting-approval'', ''cancelled''), (''running'', ''cancelled'')], [''TaskStateError'',
       ''InputGateBypass'', ''ApprovalRequired'']),
    (0x12, [''asserted'', ''retracted''], [(''asserted'', ''retracted'')], [''FactUnsigned'', ''RetractUnknown'']),
    (0x13, [''defined'', ''observed''], [(''defined'', ''observed'')], [''FrameUnknown'', ''TransformCycle''])]"

definition channel_lookup :: "int \<Rightarrow> int \<Rightarrow> (string \<times> int \<times> bool) res" where
  "channel_lookup ch k =
     (case map_of TABLE ch of
        None \<Rightarrow> Inl UnknownKind
      | Some (_, kinds) \<Rightarrow> (case find (\<lambda>(code, _). code = k) kinds of None \<Rightarrow> Inl UnknownKind | Some (_, r) \<Rightarrow> Inr r))"

definition check_effect :: "int \<Rightarrow> int \<Rightarrow> int \<Rightarrow> unit res" where
  "check_effect ch k eff =
     rbind (channel_lookup ch k) (\<lambda>(_, declared, variable).
       if variable then (if eff > DE then Inl EffectDeclarationMismatch else Inr ())
       else if eff \<noteq> declared then Inl EffectDeclarationMismatch else Inr ())"

record kind_spec =
  ks_code :: int
  ks_name :: string
  ks_effect :: int
  ks_variable :: bool

record channel_spec =
  cs_id :: int
  cs_name :: string
  cs_kinds :: "kind_spec list"
  cs_states :: "string list"
  cs_transitions :: "(string \<times> string) list"
  cs_errors :: "string list"

definition build_channel_specs :: "(int \<times> channel_spec) list" where
  "build_channel_specs =
     List.map_filter (\<lambda>(cid, nm, kinds).
       case map_of STATE_MACHINE cid of
         None \<Rightarrow> None
       | Some (sts, trs, errs) \<Rightarrow>
           Some (cid, \<lparr>cs_id = cid, cs_name = nm,
             cs_kinds = map (\<lambda>(c, n, e, v). \<lparr>ks_code = c, ks_name = n, ks_effect = e, ks_variable = v\<rparr>) kinds,
             cs_states = sts, cs_transitions = trs, cs_errors = errs\<rparr>)) TABLE"

definition channel_of :: "int \<Rightarrow> channel_spec option" where
  "channel_of cid = map_of build_channel_specs cid"

definition all_channels :: "channel_spec list" where
  "all_channels = map snd (sort_key fst build_channel_specs)"

definition allowed_transition :: "int \<Rightarrow> string \<Rightarrow> string \<Rightarrow> bool" where
  "allowed_transition cid frm to =
     (case channel_of cid of None \<Rightarrow> False | Some c \<Rightarrow> list_ex (\<lambda>(a, b). a = frm \<and> b = to) (cs_transitions c))"

section \<open>Coordinate frames\<close>

text \<open>The parent dictionary in insertion order; an empty parent name is no parent.\<close>

type_synonym frames = "(pystr \<times> pystr) list"

definition frame_parent :: "frames \<Rightarrow> pystr \<Rightarrow> pystr list" where
  "frame_parent parent f = (case map_of parent f of None \<Rightarrow> [] | Some p \<Rightarrow> if p = [] then [] else [p])"

definition check_frame_tree :: "frames \<Rightarrow> unit res" where
  "check_frame_tree parent =
     rbind (rfold (search_step TransformCycle (2 * length parent) (frame_parent parent)) (\<lambda>_. White) (map fst parent))
       (\<lambda>_. Inr ())"

section \<open>The workflow gate\<close>

definition AWAITING_INPUT :: pystr where "AWAITING_INPUT = pystr ''awaiting-input''"
definition AWAITING_APPROVAL :: pystr where "AWAITING_APPROVAL = pystr ''awaiting-approval''"
definition INPUT_SUPPLIED :: pystr where "INPUT_SUPPLIED = pystr ''input-supplied''"
definition APPROVED :: pystr where "APPROVED = pystr ''approved''"
definition RUNNING :: pystr where "RUNNING = pystr ''running''"

type_synonym statuses = "pystr \<rightharpoonup> pystr"

record workflow_gate =
  wg_status :: statuses
  wg_file :: bytes

definition replay_status :: "statuses \<Rightarrow> bytes \<Rightarrow> statuses res" where
  "replay_status m rec =
     (if 0 \<notin> set rec then Inl WorkflowGateMalformed
      else rbind (utf8_decode (takeWhile (\<lambda>b. b \<noteq> 0) rec)) (\<lambda>task.
        rbind (utf8_decode (drop 1 (dropWhile (\<lambda>b. b \<noteq> 0) rec))) (\<lambda>status. Inr (m(task \<mapsto> status)))))"

definition open_workflow_gate :: "bytes \<Rightarrow> workflow_gate res" where
  "open_workflow_gate file =
     rbind (replay_log WorkflowGateMalformed replay_status Map.empty file) (\<lambda>m. Inr \<lparr>wg_status = m, wg_file = file\<rparr>)"

definition status_record :: "pystr \<Rightarrow> pystr \<Rightarrow> bytes res" where
  "status_record task status = rbind (utf8_encode task) (\<lambda>t. rbind (utf8_encode status) (\<lambda>s. Inr (t @ [0] @ s)))"

definition persist :: "workflow_gate \<Rightarrow> pystr \<Rightarrow> pystr \<Rightarrow> workflow_gate res" where
  "persist g task status =
     rbind (status_record task status) (\<lambda>rec.
       rbind (frame OverflowError rec) (\<lambda>framed.
         Inr \<lparr>wg_status = (wg_status g)(task \<mapsto> status), wg_file = wg_file g @ framed\<rparr>))"

definition create_task :: "workflow_gate \<Rightarrow> pystr \<Rightarrow> bool \<Rightarrow> workflow_gate res" where
  "create_task g task needs_approval =
     (if task \<in> dom (wg_status g) then Inl TaskStateError
      else persist g task (if needs_approval then AWAITING_APPROVAL else AWAITING_INPUT))"

definition supply_input :: "workflow_gate \<Rightarrow> pystr \<Rightarrow> workflow_gate res" where
  "supply_input g task =
     (if wg_status g task = Some AWAITING_INPUT then persist g task INPUT_SUPPLIED
      else if wg_status g task = Some AWAITING_APPROVAL then persist g task APPROVED
      else Inl TaskStateError)"

definition run_task :: "workflow_gate \<Rightarrow> pystr \<Rightarrow> workflow_gate res" where
  "run_task g task =
     (if wg_status g task = Some INPUT_SUPPLIED \<or> wg_status g task = Some APPROVED then persist g task RUNNING
      else if wg_status g task = Some AWAITING_INPUT \<or> wg_status g task = Some AWAITING_APPROVAL then Inl InputGateBypass
      else Inl TaskStateError)"

definition task_status :: "workflow_gate \<Rightarrow> pystr \<Rightarrow> pystr option" where
  "task_status g task = wg_status g task"

section \<open>The frame tree\<close>

lemma frame_parent_in: "p \<in> set (frame_parent parent f) \<Longrightarrow> (f, p) \<in> set parent"
  by (auto simp: frame_parent_def dest: map_of_SomeD [OF sym] split: option.splits if_splits)

lemma check_frame_tree_iff:
  "check_frame_tree parent = (if acyclic (edges (frame_parent parent)) then Inr () else Inl TransformCycle)"
  unfolding check_frame_tree_def
proof (rule search_iff [of "fst ` set parent \<union> snd ` set parent"])
  have "card (fst ` set parent \<union> snd ` set parent) \<le> card (fst ` set parent) + card (snd ` set parent)" by (rule card_Un_le)
  also have "\<dots> \<le> card (set parent) + card (set parent)" by (intro add_mono card_image_le) simp_all
  also have "\<dots> \<le> 2 * length parent" using card_length [of parent] by simp
  finally show "card (fst ` set parent \<union> snd ` set parent) \<le> 2 * length parent" .
  show "set (frame_parent parent i) \<subseteq> fst ` set parent \<union> snd ` set parent" for i
    using frame_parent_in [of _ parent i] by force
  show "x \<in> set (map fst parent)" if "frame_parent parent x \<noteq> []" for x
    using that frame_parent_in [of "hd (frame_parent parent x)" parent x] by force
qed auto

section \<open>The gate as a logged component\<close>

lemma utf8_char_nonzero: "utf8_encode_char c = Inr b \<Longrightarrow> c \<noteq> 0 \<Longrightarrow> 0 \<notin> set b"
proof -
  assume e: "utf8_encode_char c = Inr b" and c: "c \<noteq> 0"
  have nz: "utf8_byte n \<noteq> 0" if "0 < n" "n < 256" for n
    using that unat_utf8_byte [OF that(2)] by (metis less_numeral_extra(3) unat_0)
  show "0 \<notin> set b"
    using e c by (auto split: if_splits simp: nz [THEN not_sym])
qed

lemma utf8_encode_nonzero: "utf8_encode t = Inr b \<Longrightarrow> 0 \<notin> set t \<Longrightarrow> 0 \<notin> set b"
proof (induction t arbitrary: b)
  case (Cons c t)
  then show ?case using utf8_char_nonzero [of c] by (auto simp: rbind_eq_Inr simp del: utf8_encode_char.simps)
qed simp

lemma replay_status_record:
  assumes "status_record task status = Inr rec" and "0 \<notin> set task"
  shows "replay_status m rec = Inr (m(task \<mapsto> status))"
proof -
  obtain t s where e: "utf8_encode task = Inr t" "utf8_encode status = Inr s" "rec = t @ [0] @ s"
    using assms(1) by (auto simp: status_record_def rbind_eq_Inr)
  have z: "0 \<notin> set t" using utf8_encode_nonzero [OF e(1) assms(2)] .
  have "takeWhile (\<lambda>b. b \<noteq> 0) (t @ [0] @ s) = t" using z by (subst takeWhile_append2) auto
  moreover have "dropWhile (\<lambda>b. b \<noteq> 0) (t @ [0] @ s) = 0 # s" using z by (subst dropWhile_append2) auto
  ultimately show ?thesis using e utf8_decode_encode by (simp add: replay_status_def)
qed

datatype gate_op = CreateTask pystr bool | SupplyInput pystr | RunTask pystr

fun op_task :: "gate_op \<Rightarrow> pystr" where
  "op_task (CreateTask t _) = t"
| "op_task (SupplyInput t) = t"
| "op_task (RunTask t) = t"

fun gate_perform :: "workflow_gate \<Rightarrow> gate_op \<Rightarrow> workflow_gate res" where
  "gate_perform g (CreateTask t b) = create_task g t b"
| "gate_perform g (SupplyInput t) = supply_input g t"
| "gate_perform g (RunTask t) = run_task g t"

text \<open>The status an operation leads to.\<close>

fun next_status :: "statuses \<Rightarrow> gate_op \<Rightarrow> pystr res" where
  "next_status m (CreateTask t b) = (if t \<in> dom m then Inl TaskStateError else Inr (if b then AWAITING_APPROVAL else AWAITING_INPUT))"
| "next_status m (SupplyInput t) =
     (if m t = Some AWAITING_INPUT then Inr INPUT_SUPPLIED
      else if m t = Some AWAITING_APPROVAL then Inr APPROVED else Inl TaskStateError)"
| "next_status m (RunTask t) =
     (if m t = Some INPUT_SUPPLIED \<or> m t = Some APPROVED then Inr RUNNING
      else if m t = Some AWAITING_INPUT \<or> m t = Some AWAITING_APPROVAL then Inl InputGateBypass else Inl TaskStateError)"

lemma gate_perform_eq: "gate_perform g op = rbind (next_status (wg_status g) op) (persist g (op_task op))"
  by (cases op) (auto simp: create_task_def supply_input_def run_task_def)

text \<open>
  As a logged component, for task names without NUL: the record separates name and status by a NUL, so only
  these are read back as written.
\<close>

definition gate_append :: "statuses \<Rightarrow> gate_op \<Rightarrow> (statuses \<times> bytes option) res" where
  "gate_append m op =
     (if 0 \<in> set (op_task op) then Inl ValueError
      else rbind (next_status m op) (\<lambda>st.
        rbind (status_record (op_task op) st) (\<lambda>rec. Inr (m(op_task op \<mapsto> st), Some rec))))"

interpretation gate_wal: wal gate_append replay_status "\<lambda>_. True" Map.empty WorkflowGateMalformed OverflowError
  by unfold_locales (auto simp: gate_append_def res_simps intro: replay_status_record)

definition gate_ok :: "workflow_gate \<Rightarrow> bool" where
  "gate_ok g \<longleftrightarrow> gate_wal.synced (wg_status g, wg_file g)"

lemma gate_perform_ok:
  assumes "gate_ok g" and "gate_perform g op = Inr g'" and "0 \<notin> set (op_task op)"
  shows "gate_ok g'"
proof -
  have "(wg_status g', wg_file g') = gate_wal.run1 (wg_status g, wg_file g) op"
    using assms(2,3) by (auto simp: gate_perform_eq persist_def rbind_eq_Inr gate_wal.run1_def gate_append_def)
  then show ?thesis using gate_wal.synced_run1 [of "(wg_status g, wg_file g)" op] assms(1) by (simp add: gate_ok_def)
qed

lemma open_gate_ok: "open_workflow_gate file = Inr g \<Longrightarrow> gate_ok g"
  by (auto simp: open_workflow_gate_def rbind_eq_Inr gate_ok_def gate_wal.synced_def replay_append)

lemma reopen_gate: "gate_ok g \<Longrightarrow> open_workflow_gate (wg_file g) = Inr g"
proof -
  assume "gate_ok g"
  then have "replay_log WorkflowGateMalformed replay_status Map.empty (wg_file g @ []) = Inr (wg_status g)"
    unfolding gate_ok_def gate_wal.synced_def by (simp del: append_Nil2)
  then show ?thesis by (simp add: open_workflow_gate_def)
qed

section \<open>Histories of the gate\<close>

inductive gate_run :: "workflow_gate \<Rightarrow> (gate_op \<times> unit res) list \<Rightarrow> workflow_gate \<Rightarrow> bool" for g0 where
  start: "gate_run g0 [] g0"
| accept: "gate_run g0 tr g \<Longrightarrow> gate_perform g op = Inr g' \<Longrightarrow> gate_run g0 (tr @ [(op, Inr ())]) g'"
| refuse: "gate_run g0 tr g \<Longrightarrow> gate_perform g op = Inl e \<Longrightarrow> gate_run g0 (tr @ [(op, Inl e)]) g"
| crash: "gate_run g0 tr g \<Longrightarrow> open_workflow_gate (wg_file g) = Inr g' \<Longrightarrow> gate_run g0 tr g'"

definition task_created :: "(gate_op \<times> unit res) list \<Rightarrow> pystr \<Rightarrow> bool" where
  "task_created tr t \<longleftrightarrow> (\<exists>b. (CreateTask t b, Inr ()) \<in> set tr)"

text \<open>The task was created and, later, its input or approval was supplied.\<close>

definition passed_gate :: "(gate_op \<times> unit res) list \<Rightarrow> pystr \<Rightarrow> bool" where
  "passed_gate tr t \<longleftrightarrow> (\<exists>us ws. tr = us @ (SupplyInput t, Inr ()) # ws \<and> task_created us t)"

lemma task_created_mono: "task_created tr t \<Longrightarrow> task_created (tr @ ys) t"
  by (auto simp: task_created_def)

lemma passed_gate_mono: "passed_gate tr t \<Longrightarrow> passed_gate (tr @ ys) t"
  unfolding passed_gate_def by (metis append.assoc append_Cons)

lemma status_neq [simp]:
  "AWAITING_INPUT \<noteq> INPUT_SUPPLIED" "AWAITING_INPUT \<noteq> APPROVED" "AWAITING_INPUT \<noteq> RUNNING"
  "AWAITING_APPROVAL \<noteq> INPUT_SUPPLIED" "AWAITING_APPROVAL \<noteq> APPROVED" "AWAITING_APPROVAL \<noteq> RUNNING"
  "INPUT_SUPPLIED \<noteq> RUNNING" "APPROVED \<noteq> RUNNING"
  by code_simp+

lemmas status_neq' [simp] = status_neq [symmetric]

definition gate_inv :: "(gate_op \<times> unit res) list \<Rightarrow> statuses \<Rightarrow> bool" where
  "gate_inv tr m \<longleftrightarrow>
     (\<forall>t. (m t \<in> {Some AWAITING_INPUT, Some AWAITING_APPROVAL} \<longrightarrow> task_created tr t) \<and>
        (m t \<in> {Some INPUT_SUPPLIED, Some APPROVED, Some RUNNING} \<longrightarrow> passed_gate tr t)) \<and>
     (\<forall>us ws t. tr = us @ (RunTask t, Inr ()) # ws \<longrightarrow> passed_gate us t)"

lemma gate_perform_Inr:
  "gate_perform g op = Inr g' \<Longrightarrow> \<exists>st. next_status (wg_status g) op = Inr st \<and> wg_status g' = (wg_status g)(op_task op \<mapsto> st)"
  by (auto simp: gate_perform_eq persist_def rbind_eq_Inr)

lemma gate_inv_accept:
  assumes inv: "gate_inv tr m" and st: "next_status m op = Inr st"
  shows "gate_inv (tr @ [(op, Inr ())]) (m(op_task op \<mapsto> st))"
proof -
  let ?tr = "tr @ [(op, Inr ())]"
  have own: "(st \<in> {AWAITING_INPUT, AWAITING_APPROVAL} \<longrightarrow> task_created ?tr (op_task op)) \<and>
      (st \<in> {INPUT_SUPPLIED, APPROVED, RUNNING} \<longrightarrow> passed_gate ?tr (op_task op))"
  proof (cases op)
    case (CreateTask t b)
    then show ?thesis using st by (auto simp: task_created_def split: if_splits)
  next
    case (SupplyInput t)
    then have "m t \<in> {Some AWAITING_INPUT, Some AWAITING_APPROVAL}" "st \<in> {INPUT_SUPPLIED, APPROVED}"
      using st by (auto split: if_splits)
    moreover from this have "passed_gate ?tr t" using inv SupplyInput by (auto simp: gate_inv_def passed_gate_def)
    ultimately show ?thesis using SupplyInput by auto
  next
    case (RunTask t)
    then have "m t \<in> {Some INPUT_SUPPLIED, Some APPROVED}" "st = RUNNING" using st by (auto split: if_splits)
    then show ?thesis using inv RunTask by (auto simp: gate_inv_def intro: passed_gate_mono)
  qed
  have "passed_gate us t" if d: "?tr = us @ (RunTask t, Inr ()) # ws" for us ws t
  proof (cases ws rule: rev_cases)
    case Nil
    then have "us = tr" "op = RunTask t" using d by auto
    then have "m t \<in> {Some INPUT_SUPPLIED, Some APPROVED}" using st by (auto split: if_splits)
    then show ?thesis using inv \<open>us = tr\<close> by (auto simp: gate_inv_def)
  next
    case (snoc ws' x)
    then have "tr = us @ (RunTask t, Inr ()) # ws'" using d by auto
    then show ?thesis using inv by (auto simp: gate_inv_def)
  qed
  then show ?thesis
    using own inv unfolding gate_inv_def by (auto intro: task_created_mono passed_gate_mono)
qed

lemma gate_inv_refuse: "gate_inv tr m \<Longrightarrow> gate_inv (tr @ [(op, Inl e)]) m"
proof -
  assume inv: "gate_inv tr m"
  have "passed_gate us t" if d: "tr @ [(op, Inl e)] = us @ (RunTask t, Inr ()) # ws" for us ws t
  proof -
    obtain ws' where "tr = us @ (RunTask t, Inr ()) # ws'" using d by (cases ws rule: rev_cases) auto
    then show ?thesis using inv by (auto simp: gate_inv_def)
  qed
  then show ?thesis using inv unfolding gate_inv_def by (auto intro: task_created_mono passed_gate_mono)
qed

lemma gate_run_inv:
  assumes "gate_run g0 tr g" and "gate_ok g0" and "wg_status g0 = Map.empty" and "\<forall>(op, _) \<in> set tr. 0 \<notin> set (op_task op)"
  shows "gate_ok g \<and> gate_inv tr (wg_status g)"
  using assms
proof (induction rule: gate_run.induct)
  case start
  then show ?case by (simp add: gate_inv_def)
next
  case (accept tr g op g')
  then have IH: "gate_ok g" "gate_inv tr (wg_status g)" and z: "0 \<notin> set (op_task op)" by auto
  obtain st where "next_status (wg_status g) op = Inr st" "wg_status g' = (wg_status g)(op_task op \<mapsto> st)"
    using gate_perform_Inr [OF accept.hyps(2)] by blast
  then show ?case using gate_inv_accept [OF IH(2)] gate_perform_ok [OF IH(1) accept.hyps(2) z] by metis
next
  case (refuse tr g op e)
  then show ?case using gate_inv_refuse [of tr "wg_status g"] by auto
next
  case (crash tr g g')
  then show ?case using reopen_gate [of g] by auto
qed

section \<open>Properties\<close>

text \<open>C21: The workflow gate cannot be bypassed, not even by crashing. In every history of the gate, for task names without NUL and with
  crashes and reopenings anywhere, a task is set running only after it was created and then its input or
  approval was supplied; and reopening the file restores exactly the statuses that were acknowledged.\<close>

theorem workflow_gate_no_bypass:
  assumes "open_workflow_gate [] = Inr g0" and "gate_run g0 tr g" and "\<forall>(op, _) \<in> set tr. 0 \<notin> set (op_task op)"
  shows "open_workflow_gate (wg_file g) = Inr g \<and>
    (\<forall>us ws t. tr = us @ (RunTask t, Inr ()) # ws \<longrightarrow>
       (\<exists>vs xs b. us = vs @ (SupplyInput t, Inr ()) # xs \<and> (CreateTask t b, Inr ()) \<in> set vs))"
proof -
  have "gate_ok g0" "wg_status g0 = Map.empty" using open_gate_ok [OF assms(1)] assms(1) by (auto simp: open_workflow_gate_def)
  from gate_run_inv [OF assms(2) this assms(3)] show ?thesis
    using reopen_gate unfolding gate_inv_def passed_gate_def task_created_def by blast
qed

theorem workflow_gate_no_bypass_witness:
  "\<exists>g0 tr g. open_workflow_gate [] = Inr g0 \<and> gate_run g0 tr g \<and> length tr = 3 \<and> task_status g [97] = Some RUNNING \<and>
     open_workflow_gate (wg_file g) = Inr g"
proof -
  let ?g0 = "\<lparr>wg_status = Map.empty, wg_file = []\<rparr>"
  let ?ops = "[CreateTask [97] False, SupplyInput [97], RunTask [97]]"
  have o: "open_workflow_gate [] = Inr ?g0" by (simp add: open_workflow_gate_def)
  have "case create_task ?g0 [97] False of Inl _ \<Rightarrow> False | Inr g1 \<Rightarrow> (case supply_input g1 [97] of Inl _ \<Rightarrow> False
      | Inr g2 \<Rightarrow> (case run_task g2 [97] of Inl _ \<Rightarrow> False | Inr g3 \<Rightarrow> wg_status g3 [97] = Some RUNNING))"
    by code_simp
  then obtain g1 g2 g3 where g: "create_task ?g0 [97] False = Inr g1" "supply_input g1 [97] = Inr g2" "run_task g2 [97] = Inr g3"
    and st: "wg_status g3 [97] = Some RUNNING"
    by (auto split: sum.splits)
  have r1: "gate_run ?g0 ([] @ [(CreateTask [97] False, Inr ())]) g1"
    by (rule gate_run.accept [OF gate_run.start]) (simp add: g)
  have r2: "gate_run ?g0 (([] @ [(CreateTask [97] False, Inr ())]) @ [(SupplyInput [97], Inr ())]) g2"
    by (rule gate_run.accept [OF r1]) (simp add: g)
  have r3: "gate_run ?g0 ((([] @ [(CreateTask [97] False, Inr ())]) @ [(SupplyInput [97], Inr ())]) @ [(RunTask [97], Inr ())]) g3"
    by (rule gate_run.accept [OF r2]) (simp add: g)
  have "open_workflow_gate (wg_file g3) = Inr g3"
    by (rule workflow_gate_no_bypass [OF o r3, THEN conjunct1]) simp
  with o r3 st show ?thesis
    by (intro exI [of _ ?g0] exI [of _ g3] exI [of _ "(([] @ [(CreateTask [97] False, Inr ())]) @ [(SupplyInput [97], Inr ())]) @ [(RunTask [97], Inr ())]"])
      (simp add: task_status_def)
qed

text \<open>
  A task whose name holds a NUL is acknowledged, and lost by the next reopening, which finds the part before the
  NUL as another task instead: the two records are the same bytes.
\<close>

lemma utf8_encode_append: "utf8_encode (xs @ ys) = rbind (utf8_encode xs) (\<lambda>a. rbind (utf8_encode ys) (\<lambda>b. Inr (a @ b)))"
  by (induction xs) (simp add: rbind_def split: sum.split, simp add: rbind_assoc del: utf8_encode_char.simps)

lemma nul_record: "status_record (a @ 0 # b) st = status_record a (b @ 0 # st)"
  by (simp add: status_record_def utf8_encode_append rbind_assoc utf8_byte_def)

lemma nul_task_is_lost:
  "\<exists>g g'. create_task \<lparr>wg_status = Map.empty, wg_file = []\<rparr> [97, 0, 98] False = Inr g \<and>
     task_status g [97, 0, 98] = Some AWAITING_INPUT \<and> open_workflow_gate (wg_file g) = Inr g' \<and>
     task_status g' [97, 0, 98] = None \<and> task_status g' [97] \<noteq> None"
proof -
  have "is_ok (rbind (status_record [97, 0, 98] AWAITING_INPUT) (frame OverflowError))"
    by code_simp
  then obtain rec b where r: "status_record ([97] @ 0 # [98]) AWAITING_INPUT = Inr rec" "frame OverflowError rec = Inr b"
    by (auto simp: is_ok_iff rbind_eq_Inr)
  have "replay_status Map.empty rec = Inr [[97] \<mapsto> [98] @ 0 # AWAITING_INPUT]"
    using replay_status_record [OF r(1) [unfolded nul_record]] by simp
  then have "replay_log WorkflowGateMalformed replay_status Map.empty b = Inr [[97] \<mapsto> [98] @ 0 # AWAITING_INPUT]"
    using replay_frame [OF r(2), of WorkflowGateMalformed replay_status Map.empty "[]"] by simp
  then show ?thesis
    using r by (simp add: create_task_def persist_def open_workflow_gate_def task_status_def)
qed

text \<open>The coordinate-frame check accepts exactly the parent tables without a cycle, whatever frames they name, and always ends.\<close>

theorem frame_tree_exact:
  "check_frame_tree parent =
     (if acyclic {(f, p). map_of parent f = Some p \<and> p \<noteq> []} then Inr () else Inl TransformCycle)"
proof -
  have "p \<in> set (frame_parent parent f) \<longleftrightarrow> map_of parent f = Some p \<and> p \<noteq> []" for f p
    by (cases "map_of parent f") (auto simp: frame_parent_def)
  then have "edges (frame_parent parent) = {(f, p). map_of parent f = Some p \<and> p \<noteq> []}" by (simp add: edges_def)
  then show ?thesis by (simp add: check_frame_tree_iff)
qed

text \<open>The registry is well formed: twenty channels in order of their ids, 75 kinds in all, each channel's codes unique and its
  effects in the closed set, and every transition between two declared states of its channel.\<close>

theorem registry_well_formed:
  "map cs_id all_channels = map int [0..<20] \<and> sum_list (map (\<lambda>c. length (cs_kinds c)) all_channels) = 75 \<and>
   list_all (\<lambda>c. distinct (map ks_code (cs_kinds c)) \<and> list_all (\<lambda>k. 0 \<le> ks_effect k \<and> ks_effect k \<le> 3) (cs_kinds c) \<and>
     list_all (\<lambda>(a, b). a \<in> set (cs_states c) \<and> b \<in> set (cs_states c)) (cs_transitions c)) all_channels"
  by code_simp

end
