(* ===== verification/Rooms.thy ===== *)
theory Rooms
  imports AuditChain Identity Policy Envelope Channels Bodies
begin

text \<open>
  Rooms (\<^verbatim>\<open>impl/python/naalp/rooms.py\<close>, first part): the membership operation and its object, the room state
  machine with its receipt-chained log, and the signed path into it. The principal registry is in theory
  \<open>Registry\<close>.
\<close>

section \<open>Membership operations\<close>

definition CHANNEL_GOVERNANCE :: int where "CHANNEL_GOVERNANCE = 0x0004"
definition CHANNEL_IDENTITY :: int where "CHANNEL_IDENTITY = 0x0003"
definition ROOM_TIER :: int where "ROOM_TIER = 1"

definition OP_CREATE :: int where "OP_CREATE = 0"
definition OP_ADD_MEMBER :: int where "OP_ADD_MEMBER = 1"
definition OP_REMOVE_MEMBER :: int where "OP_REMOVE_MEMBER = 2"
definition OP_CHANGE_ROLE :: int where "OP_CHANGE_ROLE = 3"
definition OP_ADD_OWNER :: int where "OP_ADD_OWNER = 4"

definition ROLE_MEMBER :: int where "ROLE_MEMBER = 0"
definition ROLE_ADMIN :: int where "ROLE_ADMIN = 1"
definition ROLE_OWNER :: int where "ROLE_OWNER = 2"

definition KIND_ROOM_CREATE :: int where "KIND_ROOM_CREATE = 16"
definition KIND_ROOM_ADD_MEMBER :: int where "KIND_ROOM_ADD_MEMBER = 17"
definition KIND_ROOM_REMOVE_MEMBER :: int where "KIND_ROOM_REMOVE_MEMBER = 18"
definition KIND_ROOM_CHANGE_ROLE :: int where "KIND_ROOM_CHANGE_ROLE = 19"
definition KIND_ROOM_ADD_OWNER :: int where "KIND_ROOM_ADD_OWNER = 20"
definition KIND_PRINCIPAL_BIND :: int where "KIND_PRINCIPAL_BIND = 16"

lemmas room_codes = OP_CREATE_def OP_ADD_MEMBER_def OP_REMOVE_MEMBER_def OP_CHANGE_ROLE_def OP_ADD_OWNER_def
  ROLE_MEMBER_def ROLE_ADMIN_def ROLE_OWNER_def

record room_op =
  ro_room :: bytes
  ro_op :: int
  ro_epoch :: int
  ro_subject :: pystr
  ro_role :: int

definition room_op_map :: "room_op \<Rightarrow> cbor" where
  "room_op_map op = M [(U 1, B (ro_room op)), (U 2, U (ro_op op)), (U 3, U (ro_epoch op)), (U 4, T (ro_subject op)), (U 5, U (ro_role op))]"

definition room_op_bytes :: "room_op \<Rightarrow> bytes res" where
  "room_op_bytes op = encode (room_op_map op)"

definition room_op_content_id :: "prims \<Rightarrow> room_op \<Rightarrow> bytes res" where
  "room_op_content_id P op = rbind (room_op_bytes op) (\<lambda>b. Inr (content_id_bytes (sha384 P) b))"

definition kind_for_op :: "int \<Rightarrow> int \<times> int \<times> bool" where
  "kind_for_op op =
     (if op = OP_CREATE then (KIND_ROOM_CREATE, NON_IDEMPOTENT_WRITE, True)
      else if op = OP_ADD_MEMBER then (KIND_ROOM_ADD_MEMBER, NON_IDEMPOTENT_WRITE, True)
      else if op = OP_REMOVE_MEMBER then (KIND_ROOM_REMOVE_MEMBER, DESTRUCTIVE, True)
      else if op = OP_CHANGE_ROLE then (KIND_ROOM_CHANGE_ROLE, NON_IDEMPOTENT_WRITE, True)
      else if op = OP_ADD_OWNER then (KIND_ROOM_ADD_OWNER, NON_IDEMPOTENT_WRITE, True)
      else (0, 0, False))"

text \<open>The NFC rule as this module raises it.\<close>

definition room_nfc :: "prims \<Rightarrow> pystr \<Rightarrow> unit res" where
  "room_nfc P s = (case require_nfc P s of Inl e \<Rightarrow> Inl (if e = NonNFC then RoomsError ''NonNFC'' else e) | Inr u \<Rightarrow> Inr u)"

definition room_envelope_object :: "prims \<Rightarrow> room_op \<Rightarrow> bytes \<Rightarrow> int \<Rightarrow> int \<Rightarrow> bytes list \<Rightarrow> obj res" where
  "room_envelope_object P op sgnr at prof cs =
     (let (k, eff, ok) = kind_for_op (ro_op op) in
      if \<not> ok then Inl (RoomsError ''OpUnknown'')
      else rbind (room_nfc P (ro_subject op)) (\<lambda>_.
        Inr \<lparr>obj_id = None, kind = k, channel = CHANNEL_GOVERNANCE, tier = ROOM_TIER, signer = sgnr, created = at,
          effect = eff, causes = cs, profile = prof, body = room_op_map op, ext = None, cext = None, audience = [], suite = 0\<rparr>))"

definition room_op_field :: "int \<Rightarrow> cbor \<Rightarrow> bool" where
  "room_op_field n v \<longleftrightarrow> n = 1 \<and> is_B v \<or> n = 2 \<and> is_U v \<or> n = 3 \<and> is_U v \<or> n = 4 \<and> is_T v \<or> n = 5 \<and> is_U v"

definition room_op_from_body :: "cbor \<Rightarrow> room_op res" where
  "room_op_from_body v =
     rbind (typed_fields room_op_field (RoomsError ''RoomOpMismatch'') v) (\<lambda>m.
       case (m 1, m 2, m 3, m 4, m 5) of
         (Some (B r), Some (U o1), Some (U e), Some (T s), Some (U ro)) \<Rightarrow>
           Inr \<lparr>ro_room = r, ro_op = o1, ro_epoch = e, ro_subject = s, ro_role = ro\<rparr>
       | _ \<Rightarrow> Inl (RoomsError ''RoomOpMismatch''))"

section \<open>Kind validation\<close>

definition room_kind_validator :: "int \<Rightarrow> int \<Rightarrow> bool" where
  "room_kind_validator ch k =
     (if ch = CHANNEL_GOVERNANCE then KIND_ROOM_CREATE \<le> k \<and> k \<le> KIND_ROOM_ADD_OWNER
      else if ch = CHANNEL_IDENTITY then k = KIND_PRINCIPAL_BIND
      else False)"

definition baseline_kind_validator :: "int \<Rightarrow> int \<Rightarrow> bool" where
  "baseline_kind_validator ch k = (case channel_lookup ch k of Inl _ \<Rightarrow> False | Inr _ \<Rightarrow> True)"

definition room_composed_validator :: "int \<Rightarrow> int \<Rightarrow> bool" where
  "room_composed_validator ch k \<longleftrightarrow> baseline_kind_validator ch k \<or> room_kind_validator ch k"

section \<open>The room\<close>

text \<open>The owners dictionary has only the value True; the model keeps its keys, in insertion order.\<close>

record room =
  rm_id :: bytes
  rm_epoch :: int
  rm_members :: "pystr \<rightharpoonup> int"
  rm_owners :: "pystr list"
  rm_auth :: ordering_authority
  rm_receipts :: "receipt list"
  rm_sigs :: "bytes list"

definition role_of :: "room \<Rightarrow> pystr \<Rightarrow> int \<times> bool" where
  "role_of r s = (case rm_members r s of Some ro \<Rightarrow> (ro, True) | None \<Rightarrow> (0, False))"

definition is_owner :: "room \<Rightarrow> pystr \<Rightarrow> bool" where
  "is_owner r s \<longleftrightarrow> s \<in> set (rm_owners r)"

definition owner_count :: "room \<Rightarrow> nat" where
  "owner_count r = length (rm_owners r)"

definition owners_sorted :: "room \<Rightarrow> pystr list" where
  "owners_sorted r = sort (rm_owners r)"

definition room_log :: "room \<Rightarrow> receipt list \<times> bytes list" where
  "room_log r = (rm_receipts r, rm_sigs r)"

text \<open>The checks before anything changes.\<close>

definition check_op :: "prims \<Rightarrow> room \<Rightarrow> room_op \<Rightarrow> pystr \<Rightarrow> unit res" where
  "check_op P r op actor =
     (if ro_room op \<noteq> rm_id r \<or> ro_op op = OP_CREATE then Inl (RoomsError ''RoomOpMismatch'')
      else if ro_epoch op \<noteq> rm_epoch r then Inl (RoomsError ''StaleEpoch'')
      else if ro_subject op = [] then Inl (RoomsError ''RoomOpMismatch'')
      else rbind (room_nfc P (ro_subject op)) (\<lambda>_.
        if \<not> is_owner r actor then Inl (RoomsError ''Unauthorized'')
        else if ro_op op = OP_ADD_MEMBER then
          (if ro_role op \<noteq> ROLE_MEMBER \<and> ro_role op \<noteq> ROLE_ADMIN then Inl (RoomsError ''RoleInvalid'')
           else if ro_subject op \<in> dom (rm_members r) then Inl (RoomsError ''MemberExists'')
           else Inr ())
        else if ro_op op = OP_ADD_OWNER then
          (if ro_role op \<noteq> ROLE_OWNER then Inl (RoomsError ''RoleInvalid'')
           else if is_owner r (ro_subject op) then Inl (RoomsError ''OwnerExists'')
           else Inr ())
        else if ro_op op = OP_REMOVE_MEMBER then
          (if ro_subject op \<notin> dom (rm_members r) then Inl (RoomsError ''MemberUnknown'')
           else if is_owner r (ro_subject op) then Inl (RoomsError ''OwnerImmutable'')
           else Inr ())
        else if ro_op op = OP_CHANGE_ROLE then
          (if ro_subject op \<notin> dom (rm_members r) then Inl (RoomsError ''MemberUnknown'')
           else if ro_role op \<noteq> ROLE_MEMBER \<and> ro_role op \<noteq> ROLE_ADMIN then Inl (RoomsError ''RoleInvalid'')
           else if rm_members r (ro_subject op) = Some ROLE_OWNER then Inl (RoomsError ''OwnerImmutable'')
           else Inr ())
        else Inl (RoomsError ''OpUnknown'')))"

definition mutate :: "room \<Rightarrow> room_op \<Rightarrow> room" where
  "mutate r op =
     (if ro_op op = OP_ADD_MEMBER then r\<lparr>rm_members := (rm_members r)(ro_subject op \<mapsto> ro_role op)\<rparr>
      else if ro_op op = OP_ADD_OWNER then
        r\<lparr>rm_members := (rm_members r)(ro_subject op \<mapsto> ROLE_OWNER), rm_owners := List.insert (ro_subject op) (rm_owners r)\<rparr>
      else if ro_op op = OP_REMOVE_MEMBER then r\<lparr>rm_members := (rm_members r)(ro_subject op := None)\<rparr>
      else if ro_op op = OP_CHANGE_ROLE then r\<lparr>rm_members := (rm_members r)(ro_subject op \<mapsto> ro_role op)\<rparr>
      else r)"

definition apply_op :: "prims \<Rightarrow> room \<Rightarrow> room_op \<Rightarrow> pystr \<Rightarrow> int \<Rightarrow> (room \<times> receipt \<times> int) res" where
  "apply_op P r op actor at =
     rbind (check_op P r op actor) (\<lambda>_.
       rbind (room_op_content_id P op) (\<lambda>cid.
         rbind (append_receipt P (rm_auth r) cid at) (\<lambda>(auth, rec, sig).
           let r1 = mutate r op in
           Inr (r1\<lparr>rm_auth := auth, rm_receipts := rm_receipts r @ [rec], rm_sigs := rm_sigs r @ [sig], rm_epoch := rm_epoch r + 1\<rparr>,
             rec, rc_seq rec))))"

definition apply_signed :: "prims \<Rightarrow> room \<Rightarrow> int \<Rightarrow> int \<Rightarrow> bytes \<Rightarrow> bytes \<Rightarrow> int \<Rightarrow> (room \<times> receipt \<times> int) res" where
  "apply_signed P r prof alg pubkey signed_obj at =
     rbind (verify P prof alg pubkey (Some room_composed_validator) signed_obj []) (\<lambda>ob.
       if channel ob \<noteq> CHANNEL_GOVERNANCE \<or> tier ob \<noteq> ROOM_TIER then Inl (RoomsError ''RoomOpMismatch'')
       else rbind (signer_id P alg pubkey) (\<lambda>actor.
         rbind (utf8_encode actor) (\<lambda>actor_bytes.
           if signer ob \<noteq> actor_bytes then Inl SignerMismatch
           else rbind (room_op_from_body (body ob)) (\<lambda>op.
             let (want_kind, want_eff, ok) = kind_for_op (ro_op op) in
             if \<not> ok \<or> kind ob \<noteq> want_kind \<or> effect ob \<noteq> want_eff then Inl (RoomsError ''RoomOpMismatch'')
             else apply_op P r op actor at))))"

definition create_room :: "prims \<Rightarrow> room_op \<Rightarrow> pystr \<Rightarrow> ordering_authority \<Rightarrow> int \<Rightarrow> (room \<times> receipt \<times> int) res" where
  "create_room P op actor auth at =
     (if ro_op op \<noteq> OP_CREATE then Inl (RoomsError ''RoomOpMismatch'')
      else if ro_epoch op \<noteq> 0 then Inl (RoomsError ''StaleEpoch'')
      else if ro_subject op = [] then Inl (RoomsError ''RoomOpMismatch'')
      else rbind (room_nfc P (ro_subject op)) (\<lambda>_.
        if actor \<noteq> ro_subject op then Inl (RoomsError ''Unauthorized'')
        else rbind (room_op_content_id P op) (\<lambda>cid.
          rbind (append_receipt P auth cid at) (\<lambda>(auth', rec, sig).
            Inr (\<lparr>rm_id = ro_room op, rm_epoch = 1, rm_members = [ro_subject op \<mapsto> ROLE_OWNER], rm_owners = [ro_subject op],
                rm_auth = auth', rm_receipts = [rec], rm_sigs = [sig]\<rparr>, rec, rc_seq rec)))))"

section \<open>The checks, the change and the invariant\<close>

definition admissible :: "room \<Rightarrow> room_op \<Rightarrow> bool" where
  "admissible r op \<longleftrightarrow>
     ro_op op = OP_ADD_MEMBER \<and> ro_role op \<in> {ROLE_MEMBER, ROLE_ADMIN} \<and> rm_members r (ro_subject op) = None \<or>
     ro_op op = OP_ADD_OWNER \<and> ro_role op = ROLE_OWNER \<and> \<not> is_owner r (ro_subject op) \<or>
     ro_op op = OP_REMOVE_MEMBER \<and> rm_members r (ro_subject op) \<noteq> None \<and> \<not> is_owner r (ro_subject op) \<or>
     ro_op op = OP_CHANGE_ROLE \<and> ro_role op \<in> {ROLE_MEMBER, ROLE_ADMIN} \<and>
       rm_members r (ro_subject op) \<notin> {None, Some ROLE_OWNER}"

lemma room_nfc_Inr: "room_nfc P s = Inr u \<longleftrightarrow> nfc P s = s"
  by (auto simp: room_nfc_def require_nfc_def)

lemma check_op_Inr:
  "check_op P r op actor = Inr () \<longleftrightarrow>
     ro_room op = rm_id r \<and> ro_epoch op = rm_epoch r \<and> ro_subject op \<noteq> [] \<and> nfc P (ro_subject op) = ro_subject op \<and>
     is_owner r actor \<and> admissible r op"
  by (auto simp: check_op_def admissible_def rbind_eq_Inr room_nfc_Inr room_codes dom_def)

lemma apply_op_Inr:
  "apply_op P r op actor at = Inr (r', rec, cur) \<longleftrightarrow>
     check_op P r op actor = Inr () \<and> cur = rc_seq rec \<and>
     (\<exists>cid auth sig. room_op_content_id P op = Inr cid \<and> append_receipt P (rm_auth r) cid at = Inr (auth, rec, sig) \<and>
        r' = (mutate r op)\<lparr>rm_auth := auth, rm_receipts := rm_receipts r @ [rec], rm_sigs := rm_sigs r @ [sig], rm_epoch := rm_epoch r + 1\<rparr>)"
  by (auto simp: apply_op_def rbind_eq_Inr Let_def)

lemma mutate_sel [simp]:
  "rm_id (mutate r op) = rm_id r" "rm_epoch (mutate r op) = rm_epoch r" "rm_auth (mutate r op) = rm_auth r"
  "rm_receipts (mutate r op) = rm_receipts r" "rm_sigs (mutate r op) = rm_sigs r"
  by (simp_all add: mutate_def)

text \<open>The owners are the members with the owner role, and there is one.\<close>

definition membership_ok :: "room \<Rightarrow> bool" where
  "membership_ok r \<longleftrightarrow> rm_owners r \<noteq> [] \<and> distinct (rm_owners r) \<and> finite (dom (rm_members r)) \<and>
     ran (rm_members r) \<subseteq> {ROLE_MEMBER, ROLE_ADMIN, ROLE_OWNER} \<and>
     (\<forall>s. s \<in> set (rm_owners r) \<longleftrightarrow> rm_members r s = Some ROLE_OWNER)"

lemma mutate_ok:
  assumes "membership_ok r" and "admissible r op"
  shows "membership_ok (mutate r op)" and "set (rm_owners r) \<subseteq> set (rm_owners (mutate r op))"
  using assms
  by (auto simp: membership_ok_def admissible_def mutate_def is_owner_def ran_def room_codes split: if_splits)

section \<open>Runs of a room\<close>

text \<open>The operations a room accepts from a given state on; refused operations leave the room as it is.\<close>

inductive room_steps :: "prims \<Rightarrow> room \<Rightarrow> room_op list \<Rightarrow> room \<Rightarrow> bool" for P :: prims and r0 :: room where
  start: "room_steps P r0 [] r0"
| accept: "room_steps P r0 ops r \<Longrightarrow> apply_op P r op actor at = Inr (r', rec, cur) \<Longrightarrow> room_steps P r0 (ops @ [op]) r'"

inductive room_run :: "prims \<Rightarrow> int \<Rightarrow> bytes \<Rightarrow> room_op list \<Rightarrow> room \<Rightarrow> bool" for P :: prims and alg :: int and seed :: bytes where
  created: "create_room P op actor (new_authority alg seed) at = Inr (r, rec, cur) \<Longrightarrow> room_run P alg seed [op] r"
| changed: "room_run P alg seed ops r \<Longrightarrow> apply_op P r op actor at = Inr (r', rec, cur) \<Longrightarrow> room_run P alg seed (ops @ [op]) r'"

lemma create_room_Inr:
  "create_room P op actor auth at = Inr (r, rec, cur) \<longleftrightarrow>
     ro_op op = OP_CREATE \<and> ro_epoch op = 0 \<and> ro_subject op \<noteq> [] \<and> nfc P (ro_subject op) = ro_subject op \<and>
     actor = ro_subject op \<and> cur = rc_seq rec \<and>
     (\<exists>cid auth' sig. room_op_content_id P op = Inr cid \<and> append_receipt P auth cid at = Inr (auth', rec, sig) \<and>
        r = \<lparr>rm_id = ro_room op, rm_epoch = 1, rm_members = [ro_subject op \<mapsto> ROLE_OWNER], rm_owners = [ro_subject op],
          rm_auth = auth', rm_receipts = [rec], rm_sigs = [sig]\<rparr>)"
  by (auto simp: create_room_def rbind_eq_Inr room_nfc_Inr)

lemma steps_epoch: "room_steps P r0 ops r \<Longrightarrow> rm_epoch r = rm_epoch r0 + int (length ops) \<and> rm_id r = rm_id r0"
  by (induction rule: room_steps.induct) (auto simp: apply_op_Inr)

lemma steps_owners: "room_steps P r0 ops r \<Longrightarrow> membership_ok r0 \<Longrightarrow> membership_ok r \<and> set (rm_owners r0) \<subseteq> set (rm_owners r)"
proof (induction rule: room_steps.induct)
  case (accept ops r op actor at r' rec cur)
  then have ok: "membership_ok r" "admissible r op" by (auto simp: apply_op_Inr check_op_Inr)
  have m: "rm_members r' = rm_members (mutate r op)" "rm_owners r' = rm_owners (mutate r op)"
    using accept.hyps(2) by (auto simp: apply_op_Inr)
  then have "membership_ok r' = membership_ok (mutate r op)" by (simp add: membership_ok_def)
  then show ?case using mutate_ok [OF ok] accept.IH accept.prems m(2) by auto
qed simp

lemma run_split: "room_run P alg seed ops r \<Longrightarrow>
  \<exists>op rest actor at r0 rec cur. ops = op # rest \<and> create_room P op actor (new_authority alg seed) at = Inr (r0, rec, cur) \<and>
    room_steps P r0 rest r"
proof (induction rule: room_run.induct)
  case (created op actor at r rec cur)
  then show ?case by (intro exI conjI) (rule refl, assumption, rule room_steps.start)
next
  case (changed ops r op actor at r' rec cur)
  then obtain op0 rest actor0 at0 r0 rec0 cur0 where ops: "ops = op0 # rest"
    and c: "create_room P op0 actor0 (new_authority alg seed) at0 = Inr (r0, rec0, cur0)" and s: "room_steps P r0 rest r"
    by blast
  show ?case using c room_steps.accept [OF s changed.hyps(2)] by (intro exI conjI) (simp add: ops)
qed

lemma created_ok: "create_room P op actor auth at = Inr (r, rec, cur) \<Longrightarrow> membership_ok r \<and> rm_epoch r = 1"
  by (auto simp: create_room_Inr membership_ok_def split: if_splits)

lemma run_epochs:
  "room_run P alg seed ops r \<Longrightarrow> rm_epoch r = int (length ops) \<and> map ro_epoch ops = map int [0..<length ops] \<and>
     (\<forall>op \<in> set ops. ro_room op = rm_id r)"
  by (induction rule: room_run.induct) (auto simp: create_room_Inr apply_op_Inr check_op_Inr)

text \<open>The log is what the authority issued for the content ids of the accepted operations, in order.\<close>

lemma run_log:
  "room_run P alg seed ops r \<Longrightarrow> length (rm_receipts r) = length (rm_sigs r) \<and>
     (\<exists>xs. append_receipts P (new_authority alg seed) xs = Inr (rm_auth r, zip (rm_receipts r) (rm_sigs r)) \<and>
        map (\<lambda>x. Inr (fst x)) xs = map (room_op_content_id P) ops)"
proof (induction rule: room_run.induct)
  case (created op actor at r rec cur)
  then obtain cid auth sig where "room_op_content_id P op = Inr cid" "append_receipt P (new_authority alg seed) cid at = Inr (auth, rec, sig)"
    "rm_auth r = auth" "rm_receipts r = [rec]" "rm_sigs r = [sig]" by (auto simp: create_room_Inr)
  then show ?case by (intro conjI exI [of _ "[(cid, at)]"]) simp_all
next
  case (changed ops r op actor at r' rec cur)
  then obtain cid auth sig xs where "room_op_content_id P op = Inr cid" "append_receipt P (rm_auth r) cid at = Inr (auth, rec, sig)"
    "rm_auth r' = auth" "rm_receipts r' = rm_receipts r @ [rec]" "rm_sigs r' = rm_sigs r @ [sig]"
    "append_receipts P (new_authority alg seed) xs = Inr (rm_auth r, zip (rm_receipts r) (rm_sigs r))"
    "map (\<lambda>x. Inr (fst x)) xs = map (room_op_content_id P) ops" "length (rm_receipts r) = length (rm_sigs r)"
    by (auto simp: apply_op_Inr)
  then show ?case by (intro conjI exI [of _ "xs @ [(cid, at)]"]) (simp_all add: append_receipts_snoc)
qed

text \<open>The roster that a sequence of accepted operations describes, without a room.\<close>

definition roster_step :: "room_op \<Rightarrow> (pystr \<rightharpoonup> int) \<Rightarrow> (pystr \<rightharpoonup> int)" where
  "roster_step op m =
     m(ro_subject op := if ro_op op = OP_REMOVE_MEMBER then None
       else Some (if ro_op op \<in> {OP_CREATE, OP_ADD_OWNER} then ROLE_OWNER else ro_role op))"

definition roster :: "room_op list \<Rightarrow> (pystr \<rightharpoonup> int)" where
  "roster ops = fold roster_step ops Map.empty"

lemma mutate_roster: "admissible r op \<Longrightarrow> rm_members (mutate r op) = roster_step op (rm_members r)"
  by (auto simp: admissible_def mutate_def roster_step_def room_codes)

lemma run_roster: "room_run P alg seed ops r \<Longrightarrow> rm_members r = roster ops"
proof (induction rule: room_run.induct)
  case created
  then show ?case by (auto simp: create_room_Inr roster_def roster_step_def room_codes)
next
  case (changed ops r op actor at r' rec cur)
  then have "admissible r op" "rm_members r' = rm_members (mutate r op)" by (auto simp: apply_op_Inr check_op_Inr)
  then show ?case using mutate_roster changed.IH by (simp add: roster_def)
qed

lemma run_ok: "room_run P alg seed ops r \<Longrightarrow> membership_ok r"
  using run_split created_ok steps_owners by metis

lemma room_op_asc: "asc_keys [(U 1, v1), (U 2, v2), (U 3, v3), (U 4, v4), (U 5, v5)]"
  by (simp add: asc_keys_def small_key_def key_int_def)

lemma canon_room_op [simp]: "canon (room_op_map op) = room_op_map op"
  unfolding room_op_map_def by (rule canon_asc; simp add: room_op_asc)

lemma room_op_bytes_inject:
  assumes "room_op_bytes a = Inr m" and "room_op_bytes b = Inr m"
  shows "a = b"
proof -
  have "room_op_map a = room_op_map b"
    by (rule encode_canonical_inject [where b = m]) (use assms in \<open>simp_all add: room_op_bytes_def room_op_map_def [THEN arg_cong [of _ _ nesting]]\<close>)
  then show ?thesis by (cases a; cases b) (simp add: room_op_map_def)
qed

lemma content_ids_inject:
  assumes "map (room_op_content_id P) xs = map Inr is" and "map (room_op_content_id P) ys = map Inr is"
    and "inj_on (sha384 P) {m. \<exists>op \<in> set xs \<union> set ys. room_op_bytes op = Inr m}"
  shows "xs = ys"
proof (rule nth_equalityI)
  show len: "length xs = length ys" using assms(1,2) by (metis length_map)
  fix i assume i: "i < length xs"
  have l: "length is = length xs" using assms(1) by (metis length_map)
  have "room_op_content_id P (xs ! i) = Inr (is ! i)" "room_op_content_id P (ys ! i) = Inr (is ! i)"
    using arg_cong [OF assms(1), of "\<lambda>l. l ! i"] arg_cong [OF assms(2), of "\<lambda>l. l ! i"] i len l by simp_all
  then obtain m n where m: "room_op_bytes (xs ! i) = Inr m" and n: "room_op_bytes (ys ! i) = Inr n" and "sha384 P m = sha384 P n"
    by (auto simp: room_op_content_id_def rbind_eq_Inr content_id_bytes_def) (metis list.inject)
  moreover have "xs ! i \<in> set xs \<union> set ys" "ys ! i \<in> set xs \<union> set ys" using i len by simp_all
  ultimately have "m = n" using inj_onD [OF assms(3)] by blast
  then show "xs ! i = ys ! i" using room_op_bytes_inject m n by blast
qed

lemma run_object_ids:
  assumes "room_run P alg seed ops r"
  shows "map (room_op_content_id P) ops = map Inr (map rc_obj (rm_receipts r))"
proof -
  from run_log [OF assms] obtain xs where l: "length (rm_receipts r) = length (rm_sigs r)"
    and a: "append_receipts P (new_authority alg seed) xs = Inr (rm_auth r, zip (rm_receipts r) (rm_sigs r))"
    and x: "map (\<lambda>x. Inr (fst x)) xs = map (room_op_content_id P) ops" by blast
  have "map rc_obj (rm_receipts r) = map fst xs" using append_receipts_obj [OF a] l by (simp flip: map_map)
  then show ?thesis using x by (simp add: comp_def)
qed

section \<open>The signed path\<close>

lemma room_op_body: "room_op_map op = body_of (\<lambda>n. [B (ro_room op), U (ro_op op), U (ro_epoch op), T (ro_subject op), U (ro_role op)] ! nat (n - 1)) [1, 2, 3, 4, 5]"
  by (simp add: room_op_map_def)

lemma room_op_from_map: "room_op_from_body (room_op_map op) = Inr op"
proof -
  have "field_keys [1, 2, 3, 4, 5]" by (simp add: field_keys_def)
  then show ?thesis
    unfolding room_op_from_body_def room_op_body
    by (subst typed_fields_body) (simp_all add: room_op_field_def)
qed

lemma kind_for_op_ok:
  assumes "kind_for_op n = (k, e, True)"
  shows "room_composed_validator CHANNEL_GOVERNANCE k" and "\<not> is_rotation_object CHANNEL_GOVERNANCE k" and "0 \<le> e \<and> e \<le> 3"
  using assms
  by (auto simp: kind_for_op_def room_composed_validator_def room_kind_validator_def is_rotation_object_def effect_defs
      CHANNEL_GOVERNANCE_def KIND_ROOM_CREATE_def KIND_ROOM_ADD_MEMBER_def KIND_ROOM_REMOVE_MEMBER_def
      KIND_ROOM_CHANGE_ROLE_def KIND_ROOM_ADD_OWNER_def split: if_splits)

lemma room_object_acceptable:
  assumes "room_envelope_object P op sgnr at prof cs = Inr ob" and "1 \<le> prof" and "prof \<le> 3" and "length cs \<le> MAX_CAUSES"
  shows "acceptable (Some room_composed_validator) [] ob" and "suite ob = 0"
proof -
  obtain k e where k: "kind_for_op (ro_op op) = (k, e, True)"
    and ob: "ob = \<lparr>obj_id = None, kind = k, channel = CHANNEL_GOVERNANCE, tier = ROOM_TIER, signer = sgnr, created = at,
          effect = e, causes = cs, profile = prof, body = room_op_map op, ext = None, cext = None, audience = [], suite = 0\<rparr>"
    using assms(1) by (auto simp: room_envelope_object_def rbind_eq_Inr split: prod.splits if_splits)
  show "suite ob = 0" by (simp add: ob)
  have "nesting (room_op_map op) \<le> 2" unfolding room_op_map_def nesting_M_le by simp
  then show "acceptable (Some room_composed_validator) [] ob"
    using kind_for_op_ok [OF k] assms by (intro acceptable_plain) (simp_all add: ob CHANNEL_GOVERNANCE_def)
qed

lemma apply_signed_object:
  assumes "verify P vp alg pk (Some room_composed_validator) bs [] = Inr ob" and "room_envelope_object P op sgnr since prof cs = Inr ob'"
    and "ob = canon_obj (ob'\<lparr>obj_id := i\<rparr>)" and "signer_id P alg pk = Inr actor" and "utf8_encode actor = Inr sgnr"
  shows "apply_signed P r vp alg pk bs at = apply_op P r op actor at"
  using assms
  by (auto simp: apply_signed_def room_envelope_object_def rbind_eq_Inr room_op_from_map canon_obj_def split: prod.splits if_splits)

section \<open>A sample room\<close>

definition sample_create :: room_op where
  "sample_create = \<lparr>ro_room = [1], ro_op = OP_CREATE, ro_epoch = 0, ro_subject = [97], ro_role = ROLE_OWNER\<rparr>"

definition sample_add :: room_op where
  "sample_add = \<lparr>ro_room = [1], ro_op = OP_ADD_MEMBER, ro_epoch = 1, ro_subject = [98], ro_role = ROLE_ADMIN\<rparr>"

lemma sample_room_evaluates:
  "is_ok (rbind (create_room sample_prims sample_create [97] (new_authority (- 49) [5]) 7) (\<lambda>(r, _). apply_op sample_prims r sample_add [97] 8))"
  by code_simp

lemma sample_room:
  obtains r r' where "room_run sample_prims (- 49) [5] [sample_create] r" and "room_steps sample_prims r [sample_add] r'"
    and "room_run sample_prims (- 49) [5] [sample_create, sample_add] r'"
proof -
  obtain r rec cur r' rec' cur' where c: "create_room sample_prims sample_create [97] (new_authority (- 49) [5]) 7 = Inr (r, rec, cur)"
    and a: "apply_op sample_prims r sample_add [97] 8 = Inr (r', rec', cur')"
    using sample_room_evaluates by (auto simp: is_ok_iff rbind_eq_Inr)
  note run = room_run.created [OF c]
  show thesis
    by (rule that [OF run]) (use room_steps.accept [OF room_steps.start a] room_run.changed [OF run a] in simp_all)
qed

section \<open>Properties of rooms\<close>

text \<open>C5: A room never becomes ownerless and an owner is never lost. In every state a created room can reach, the owner
  list is non-empty and without repetition, the owners are exactly the members with the owner role, every role is one of
  the three, and every owner of an earlier state is an owner still.\<close>

theorem room_owner_invariant:
  assumes "room_run P alg seed ops r" and "room_steps P r later r'"
  shows "owner_count r' \<ge> 1 \<and> distinct (rm_owners r') \<and> (\<forall>s. is_owner r' s \<longleftrightarrow> role_of r' s = (ROLE_OWNER, True)) \<and>
    (\<forall>s. fst (role_of r' s) \<in> {ROLE_MEMBER, ROLE_ADMIN, ROLE_OWNER}) \<and> (\<forall>s. is_owner r s \<longrightarrow> is_owner r' s)"
proof -
  have ok: "membership_ok r'" and sub: "set (rm_owners r) \<subseteq> set (rm_owners r')"
    using steps_owners [OF assms(2) run_ok [OF assms(1)]] by simp_all
  have "fst (role_of r' s) \<in> {ROLE_MEMBER, ROLE_ADMIN, ROLE_OWNER}" for s
  proof (cases "rm_members r' s")
    case (Some ro)
    then show ?thesis using ok ranI [of "rm_members r'" s ro] by (auto simp: membership_ok_def role_of_def)
  qed (simp add: role_of_def room_codes)
  moreover have "is_owner r' s \<longleftrightarrow> role_of r' s = (ROLE_OWNER, True)" for s
    using ok by (simp add: membership_ok_def is_owner_def role_of_def split: option.split)
  moreover have "owner_count r' \<ge> 1" "distinct (rm_owners r')"
    using ok by (simp_all add: membership_ok_def owner_count_def Suc_le_eq)
  ultimately show ?thesis using sub by (simp add: is_owner_def subset_iff)
qed

theorem room_owner_invariant_witness:
  "\<exists>r r'. room_run sample_prims (- 49) [5] [sample_create] r \<and> room_steps sample_prims r [sample_add] r' \<and> owner_count r' \<ge> 1"
proof -
  obtain r r' where r: "room_run sample_prims (- 49) [5] [sample_create] r" "room_steps sample_prims r [sample_add] r'"
    by (rule sample_room)
  with room_owner_invariant [OF r] show ?thesis by blast
qed

text \<open>C34: Membership changes are serialised by the epoch. The accepted operations of a room carry the epochs 0, 1, 2, ... in
  order, so the room's epoch is their number; an operation built against an epoch that an accepted operation has used is
  refused in every later state, with the error StaleEpoch when it is a change for this room.\<close>

theorem room_epochs_serialise:
  assumes "room_run P alg seed ops r"
  shows "rm_epoch r = int (length ops) \<and> map ro_epoch ops = map int [0..<length ops] \<and>
    (\<forall>op old actor at. old \<in> set ops \<and> ro_epoch op = ro_epoch old \<longrightarrow>
       apply_op P r op actor at =
         Inl (RoomsError (if ro_room op = rm_id r \<and> ro_op op \<noteq> OP_CREATE then ''StaleEpoch'' else ''RoomOpMismatch'')))"
proof -
  note e = run_epochs [OF assms]
  have "ro_epoch old \<noteq> rm_epoch r" if "old \<in> set ops" for old
  proof -
    have "ro_epoch old \<in> set (map ro_epoch ops)" using that by simp
    then show ?thesis using e by auto
  qed
  then have "check_op P r op actor =
      Inl (RoomsError (if ro_room op = rm_id r \<and> ro_op op \<noteq> OP_CREATE then ''StaleEpoch'' else ''RoomOpMismatch''))"
    if "old \<in> set ops" "ro_epoch op = ro_epoch old" for op old actor
    using that by (simp add: check_op_def)
  then have stale: "apply_op P r op actor at =
      Inl (RoomsError (if ro_room op = rm_id r \<and> ro_op op \<noteq> OP_CREATE then ''StaleEpoch'' else ''RoomOpMismatch''))"
    if "old \<in> set ops" "ro_epoch op = ro_epoch old" for op old actor at
    using that by (simp only: apply_op_def rbind_simps)
  show ?thesis using e by (intro conjI allI impI) (blast, blast, elim conjE, rule stale)
qed

theorem room_epochs_serialise_witness:
  "\<exists>r. room_run sample_prims (- 49) [5] [sample_create, sample_add] r \<and> rm_epoch r = 2 \<and>
     apply_op sample_prims r (sample_add\<lparr>ro_subject := [99]\<rparr>) [97] 9 = Inl (RoomsError ''StaleEpoch'')"
proof -
  obtain r where r: "room_run sample_prims (- 49) [5] [sample_create, sample_add] r" by (rule sample_room)
  have "rm_epoch r = 2" "rm_id r = [1]" using run_epochs [OF r] by (simp_all add: sample_create_def)
  moreover have "apply_op sample_prims r (sample_add\<lparr>ro_subject := [99]\<rparr>) [97] 9 =
      Inl (RoomsError (if ro_room (sample_add\<lparr>ro_subject := [99]\<rparr>) = rm_id r \<and> ro_op (sample_add\<lparr>ro_subject := [99]\<rparr>) \<noteq> OP_CREATE
        then ''StaleEpoch'' else ''RoomOpMismatch''))"
    using conjunct2 [OF conjunct2 [OF room_epochs_serialise [OF r]], rule_format, of sample_add] by simp
  ultimately show ?thesis using r by (auto simp: sample_add_def room_codes)
qed

text \<open>The room log is a verifiable record of the membership: it verifies offline under the ordering authority's key,
  with one receipt per accepted operation, in order, over that operation's content id, and the members are the roster
  those operations describe.\<close>

theorem room_log_verifies:
  assumes "md_correct P" and "md_key_derive P alg seed = Inr (pk, sk)" and "room_run P alg seed ops r"
  shows "verify_chain P (fst (room_log r)) (snd (room_log r)) alg pk = Inr () \<and>
    map (\<lambda>rec. Inr (rc_obj rec)) (fst (room_log r)) = map (room_op_content_id P) ops \<and> rm_members r = roster ops"
proof -
  from run_log [OF assms(3)] obtain xs where l: "length (rm_receipts r) = length (rm_sigs r)"
    and a: "append_receipts P (new_authority alg seed) xs = Inr (rm_auth r, zip (rm_receipts r) (rm_sigs r))" by blast
  have "verify_chain P (rm_receipts r) (rm_sigs r) alg pk = Inr ()"
    using append_receipts_verify [OF assms(1) _ a] assms(2) l by (simp add: verify_chain_def new_authority_def)
  then show ?thesis using run_object_ids [OF assms(3)] run_roster [OF assms(3)] by (simp add: room_log_def comp_def)
qed

theorem room_log_verifies_witness:
  "\<exists>r. room_run sample_prims (- 49) [5] [sample_create, sample_add] r \<and>
     verify_chain sample_prims (fst (room_log r)) (snd (room_log r)) (- 49) [5] = Inr () \<and> rm_members r [98] = Some ROLE_ADMIN"
proof -
  obtain r where r: "room_run sample_prims (- 49) [5] [sample_create, sample_add] r" by (rule sample_room)
  from room_log_verifies [OF sample_prims_correct(1) sample_prims_sel(4) r] r show ?thesis
    by (auto simp: roster_def roster_step_def sample_create_def sample_add_def room_codes)
qed

text \<open>The log determines the membership: two rooms whose logs order the same object ids, whoever ordered them, have
  accepted the same operations and have the same members, owners and epoch, unless SHA-384 collides on the operation
  bodies.\<close>

theorem room_log_determines_members:
  assumes "room_run P alg seed ops r" and "room_run P alg' seed' ops' r'"
    and "map rc_obj (rm_receipts r) = map rc_obj (rm_receipts r')"
    and "inj_on (sha384 P) {m. \<exists>op \<in> set ops \<union> set ops'. room_op_bytes op = Inr m}"
  shows "ops = ops' \<and> rm_members r = rm_members r' \<and> owners_sorted r = owners_sorted r' \<and> rm_epoch r = rm_epoch r'"
proof -
  have ops: "ops = ops'"
    using content_ids_inject [OF run_object_ids [OF assms(1)]] run_object_ids [OF assms(2)] assms(3,4) by simp
  then have mem: "rm_members r = rm_members r'" using run_roster assms(1,2) by metis
  then have "set (rm_owners r) = set (rm_owners r')" "distinct (rm_owners r)" "distinct (rm_owners r')"
    using run_ok [OF assms(1)] run_ok [OF assms(2)] by (auto simp: membership_ok_def)
  then have "owners_sorted r = owners_sorted r'"
    by (simp add: owners_sorted_def sorted_distinct_set_unique)
  then show ?thesis using ops mem run_epochs [OF assms(1)] run_epochs [OF assms(2)] by simp
qed

theorem room_log_determines_members_witness:
  "\<exists>r. room_run sample_prims (- 49) [5] [sample_create, sample_add] r \<and> owners_sorted r = owners_sorted r"
proof -
  obtain r where r: "room_run sample_prims (- 49) [5] [sample_create, sample_add] r" by (rule sample_room)
  with room_log_determines_members [OF r r refl] show ?thesis by (auto simp: inj_on_def)
qed

text \<open>The signed path is the state machine with the authenticated actor: a membership object built by the SDK and signed
  by a key is verified and applied exactly as the operation it carries, by the signer id that derives from that key.\<close>

theorem signed_op_applies:
  assumes "md_correct P" and "md_key_derive P alg seed = Inr (pk, sk)" and "signer_id P alg pk = Inr actor" and "utf8_encode actor = Inr sgnr"
    and "room_envelope_object P op sgnr since prof cs = Inr ob" and "sign P ob alg seed = Inr (o1, bs)"
    and "length bs \<le> MAX_OBJECT_SIZE" and "length cs \<le> MAX_CAUSES" and "1 \<le> prof" and "prof \<le> 3"
    and "profile_min_level vp \<le> fst (alg_level alg)"
  shows "apply_signed P r vp alg pk bs at = apply_op P r op actor at"
proof -
  note acc = room_object_acceptable [OF assms(5,9,10,8)]
  obtain i where "o1 = ob\<lparr>obj_id := i\<rparr>" using assms(6) by (auto simp: sign_def rbind_eq_Inr elim: assign_id_Inr)
  with sign_verify [OF assms(1,6,2,7) acc assms(11), where va = alg]
  show ?thesis using apply_signed_object [OF _ assms(5) _ assms(3,4)] by blast
qed

definition sample_actor :: bytes where
  "sample_actor = map (of_nat \<circ> of_char) ''bcibzcjah''"

theorem signed_op_applies_witness:
  "\<exists>ob o1 bs. room_envelope_object sample_prims sample_add sample_actor 3 1 [] = Inr ob \<and>
     sign sample_prims ob (- 49) [7] = Inr (o1, bs) \<and>
     (\<forall>r. apply_signed sample_prims r 1 (- 49) [7] bs 8 = apply_op sample_prims r sample_add (pystr ''bcibzcjah'') 8)"
proof -
  have "case rbind (room_envelope_object sample_prims sample_add sample_actor 3 1 []) (\<lambda>ob. sign sample_prims ob (- 49) [7]) of
      Inl _ \<Rightarrow> False | Inr (o1, bs) \<Rightarrow> length bs \<le> 300"
    by code_simp
  then obtain ob o1 bs where ob: "room_envelope_object sample_prims sample_add sample_actor 3 1 [] = Inr ob"
    "sign sample_prims ob (- 49) [7] = Inr (o1, bs)" and len: "length bs \<le> MAX_OBJECT_SIZE"
    by (auto simp: MAX_OBJECT_SIZE_def rbind_def split: sum.splits)
  have enc: "utf8_encode (pystr ''bcibzcjah'') = Inr sample_actor" by code_simp
  have "apply_signed sample_prims r 1 (- 49) [7] bs 8 = apply_op sample_prims r sample_add (pystr ''bcibzcjah'') 8" for r
    by (rule signed_op_applies [OF sample_prims_correct(1) sample_prims_sel(4) sample_ids(1) enc ob len _ _ _ sample_level(1)])
      (simp_all add: MAX_CAUSES_def)
  with ob show ?thesis by blast
qed

end
