(* ===== verification/Registry.thy ===== *)
theory Registry
  imports Rooms
begin

text \<open>
  The principal registry (\<^verbatim>\<open>impl/python/naalp/rooms.py\<close>, second part): the chain of bindings from a semantic principal
  id to its current handle, and the rule that a handle changes only by a co-signed rotation.
\<close>

section \<open>Bindings\<close>

record binding =
  bd_principal :: pystr
  bd_handle :: pystr
  bd_epoch :: int
  bd_prev :: bytes

definition binding_map :: "binding \<Rightarrow> cbor" where
  "binding_map b = M [(U 1, T (bd_principal b)), (U 2, T (bd_handle b)), (U 3, U (bd_epoch b)), (U 4, B (bd_prev b))]"

definition binding_bytes :: "binding \<Rightarrow> bytes res" where
  "binding_bytes b = encode (binding_map b)"

definition binding_head :: "prims \<Rightarrow> binding \<Rightarrow> bytes res" where
  "binding_head P b = rbind (binding_bytes b) (\<lambda>m. Inr (sha384 P m))"

definition genesis_head :: bytes where
  "genesis_head = replicate RECEIPT_HEAD_SIZE 0"

section \<open>The registry\<close>

record registry =
  rg_chain :: "pystr \<rightharpoonup> binding list"
  rg_head :: "pystr \<rightharpoonup> bytes"
  rg_current :: "pystr \<rightharpoonup> pystr"
  rg_epoch :: "pystr \<rightharpoonup> int"

definition new_registry :: registry where
  "new_registry = \<lparr>rg_chain = Map.empty, rg_head = Map.empty, rg_current = Map.empty, rg_epoch = Map.empty\<rparr>"

text \<open>
  The chain is assigned before the head is computed, which can raise; the model returns the registry as it is left
  in either case, with the result.
\<close>

definition set_binding :: "prims \<Rightarrow> registry \<Rightarrow> binding list \<Rightarrow> binding \<Rightarrow> registry \<times> binding res" where
  "set_binding P reg bs b =
     (let p = bd_principal b; reg1 = reg\<lparr>rg_chain := (rg_chain reg)(p \<mapsto> bs @ [b])\<rparr> in
      case binding_head P b of
        Inl e \<Rightarrow> (reg1, Inl e)
      | Inr h \<Rightarrow> (reg1\<lparr>rg_head := (rg_head reg)(p \<mapsto> h), rg_current := (rg_current reg)(p \<mapsto> bd_handle b),
          rg_epoch := (rg_epoch reg)(p \<mapsto> bd_epoch b)\<rparr>, Inr b))"

definition check_bind :: "prims \<Rightarrow> registry \<Rightarrow> pystr \<Rightarrow> pystr \<Rightarrow> unit res" where
  "check_bind P reg pid handle =
     (if pid = [] \<or> handle = [] then Inl (RoomsError ''RoomOpMismatch'')
      else rbind (room_nfc P pid) (\<lambda>_. rbind (room_nfc P handle) (\<lambda>_.
        if pid \<in> dom (rg_current reg) then Inl (RoomsError ''PrincipalExists'') else Inr ())))"

definition bind_principal :: "prims \<Rightarrow> registry \<Rightarrow> pystr \<Rightarrow> pystr \<Rightarrow> registry \<times> binding res" where
  "bind_principal P reg pid handle =
     (case check_bind P reg pid handle of
        Inl e \<Rightarrow> (reg, Inl e)
      | Inr _ \<Rightarrow> set_binding P reg [] \<lparr>bd_principal = pid, bd_handle = handle, bd_epoch = 0, bd_prev = genesis_head\<rparr>)"

definition dict_get :: "('k \<rightharpoonup> 'v) \<Rightarrow> 'k \<Rightarrow> 'v res" where
  "dict_get m k = (case m k of None \<Rightarrow> Inl KeyError | Some v \<Rightarrow> Inr v)"

text \<open>The checks of a rebind, and the epoch, head and chain it continues.\<close>

definition check_rebind ::
    "prims \<Rightarrow> registry \<Rightarrow> pystr \<Rightarrow> pystr \<Rightarrow> rotation_evidence \<Rightarrow> (int \<times> bytes \<times> binding list) res" where
  "check_rebind P reg pid new_handle ev =
     (case rg_current reg pid of
        None \<Rightarrow> Inl (RoomsError ''PrincipalUnknown'')
      | Some cur \<Rightarrow>
          if new_handle = [] then Inl (RoomsError ''RoomOpMismatch'')
          else rbind (room_nfc P new_handle) (\<lambda>_.
            if rot_old (ev_record ev) \<noteq> cur \<or> rot_new (ev_record ev) \<noteq> new_handle then Inl (RoomsError ''RebindUnauthorized'')
            else (case verify_rotation P (ev_record ev) (ev_old_alg ev) (ev_old_pub ev) (ev_new_alg ev) (ev_new_pub ev)
                     (ev_old_sig ev) (ev_new_sig ev) of
                Inl e \<Rightarrow> Inl (if e = RotationUnauthorized then RoomsError ''RebindUnauthorized'' else e)
              | Inr _ \<Rightarrow>
                  rbind (dict_get (rg_epoch reg) pid) (\<lambda>ep.
                    rbind (dict_get (rg_head reg) pid) (\<lambda>h.
                      rbind (dict_get (rg_chain reg) pid) (\<lambda>bs. Inr (ep + 1, h, bs)))))))"

definition rebind :: "prims \<Rightarrow> registry \<Rightarrow> pystr \<Rightarrow> pystr \<Rightarrow> rotation_evidence \<Rightarrow> registry \<times> binding res" where
  "rebind P reg pid new_handle ev =
     (case check_rebind P reg pid new_handle ev of
        Inl e \<Rightarrow> (reg, Inl e)
      | Inr (ep, h, bs) \<Rightarrow>
          set_binding P reg bs \<lparr>bd_principal = pid, bd_handle = new_handle, bd_epoch = ep, bd_prev = h\<rparr>)"

definition resolve_principal :: "registry \<Rightarrow> pystr \<Rightarrow> pystr res" where
  "resolve_principal reg pid =
     (case rg_current reg pid of None \<Rightarrow> Inl (RoomsError ''PrincipalUnknown'') | Some h \<Rightarrow> Inr h)"

definition binding_chain :: "registry \<Rightarrow> pystr \<Rightarrow> binding list option" where
  "binding_chain reg pid = rg_chain reg pid"

section \<open>Bindings form hash chains\<close>

lemma binding_asc: "asc_keys [(U 1, v1), (U 2, v2), (U 3, v3), (U 4, v4)]"
  by (simp add: asc_keys_def small_key_def key_int_def)

lemma canon_binding [simp]: "canon (binding_map b) = binding_map b"
  unfolding binding_map_def by (rule canon_asc; simp add: binding_asc)

lemma binding_bytes_inject:
  assumes "binding_bytes a = Inr m" and "binding_bytes b = Inr m"
  shows "a = b"
proof -
  have "binding_map a = binding_map b"
    by (rule encode_canonical_inject [where b = m]) (use assms in \<open>simp_all add: binding_bytes_def binding_map_def [THEN arg_cong [of _ _ nesting]]\<close>)
  then show ?thesis by (cases a; cases b) (simp add: binding_map_def)
qed

interpretation bindings: hash_chain "sha384 P" binding_bytes bd_prev for P :: prims
  by unfold_locales (rule binding_bytes_inject)

lemma binding_encodable:
  "encodable (binding_map b) \<longleftrightarrow>
     encodable (T (bd_principal b)) \<and> encodable (T (bd_handle b)) \<and> encodable (U (bd_epoch b)) \<and> encodable (B (bd_prev b))"
  unfolding binding_map_def by (subst encodable_asc) (simp_all add: binding_asc)

section \<open>Runs of a registry\<close>

definition chain_ok :: "prims \<Rightarrow> pystr \<Rightarrow> binding list \<Rightarrow> bytes \<Rightarrow> bool" where
  "chain_ok P p bs h \<longleftrightarrow> bs \<noteq> [] \<and> bindings.chained P genesis_head bs h \<and> map bd_epoch bs = map int [0..<length bs] \<and>
     (\<forall>b \<in> set bs. bd_principal b = p) \<and>
     (\<exists>evs. (\<forall>e \<in> set evs. verify_evidence P e = Inr ()) \<and>
        map (\<lambda>e. rot_old (ev_record e)) evs = map bd_handle (butlast bs) \<and>
        map (\<lambda>e. rot_new (ev_record e)) evs = map bd_handle (tl bs))"

lemma chain_ok_first:
  assumes "binding_bytes b = Inr m" and "bd_epoch b = 0" and "bd_prev b = genesis_head"
  shows "chain_ok P (bd_principal b) [b] (sha384 P m)"
  using assms by (simp add: chain_ok_def)

lemma chain_ok_snoc:
  assumes "chain_ok P p bs h" and "binding_bytes b = Inr m" and "bd_principal b = p" and "bd_epoch b = int (length bs)"
    and "bd_prev b = h" and "verify_evidence P ev = Inr ()" and "rot_old (ev_record ev) = bd_handle (last bs)"
    and "rot_new (ev_record ev) = bd_handle b"
  shows "chain_ok P p (bs @ [b]) (sha384 P m)"
proof -
  obtain evs where evs: "\<forall>e \<in> set evs. verify_evidence P e = Inr ()"
      "map (\<lambda>e. rot_old (ev_record e)) evs = map bd_handle (butlast bs)"
      "map (\<lambda>e. rot_new (ev_record e)) evs = map bd_handle (tl bs)" and bs: "bs \<noteq> []"
    using assms(1) by (auto simp: chain_ok_def)
  have "map bd_handle bs = map bd_handle (butlast bs) @ [bd_handle (last bs)]"
    using bs by (metis append_butlast_last_id map_append list.simps(8,9))
  then have "\<exists>evs. (\<forall>e \<in> set evs. verify_evidence P e = Inr ()) \<and>
        map (\<lambda>e. rot_old (ev_record e)) evs = map bd_handle (butlast (bs @ [b])) \<and>
        map (\<lambda>e. rot_new (ev_record e)) evs = map bd_handle (tl (bs @ [b]))"
    using evs assms(6-8) bs by (intro exI [of _ "evs @ [ev]"]) (auto simp: tl_append split: list.split)
  then show ?thesis using assms(1-5) by (simp add: chain_ok_def bindings.chained_snoc)
qed

lemma chain_ok_thread:
  assumes "chain_ok P p bs h" and "length bs \<ge> 2"
  shows "\<exists>evs t. resolve_thread P evs = Inr t \<and> th_root t = bd_handle (hd bs) \<and> th_current t = bd_handle (last bs) \<and>
    th_chain t = map bd_handle bs"
proof -
  obtain evs where ok: "\<forall>e \<in> set evs. verify_evidence P e = Inr ()"
      and old: "map (\<lambda>e. rot_old (ev_record e)) evs = map bd_handle (butlast bs)"
      and new: "map (\<lambda>e. rot_new (ev_record e)) evs = map bd_handle (tl bs)"
    using assms(1) by (auto simp: chain_ok_def)
  have len: "length evs = length bs - 1" using old by (metis length_butlast length_map)
  then have ne: "evs \<noteq> []" "bs \<noteq> []" using assms(2) by auto
  have o: "rot_old (ev_record (evs ! i)) = bd_handle (bs ! i)" and n: "rot_new (ev_record (evs ! i)) = bd_handle (bs ! Suc i)"
    if "i < length evs" for i
    using arg_cong [OF old, of "\<lambda>l. l ! i"] arg_cong [OF new, of "\<lambda>l. l ! i"] that len by (simp_all add: nth_butlast nth_tl)
  have "contiguous (map ev_record evs)" using o n by (simp add: contiguous_def)
  moreover have "rot_old (ev_record (hd evs)) = bd_handle (hd bs)" using o [of 0] ne by (simp add: hd_conv_nth)
  moreover have "rot_new (ev_record (last evs)) = bd_handle (last bs)"
    using n [of "length evs - 1"] ne len assms(2) by (simp add: last_conv_nth Suc_diff_Suc numeral_2_eq_2)
  moreover have "bd_handle (hd bs) # map (\<lambda>e. rot_new (ev_record e)) evs = map bd_handle bs"
    using new ne by (cases bs) simp_all
  ultimately show ?thesis
    using ok ne by (intro exI [of _ evs] exI [of _ "\<lparr>th_root = bd_handle (hd bs), th_current = bd_handle (last bs), th_chain = map bd_handle bs\<rparr>"])
      (simp add: resolve_thread_iff)
qed

inductive registry_run :: "prims \<Rightarrow> nat \<Rightarrow> registry \<Rightarrow> bool" for P :: prims where
  empty: "registry_run P 0 new_registry"
| bound: "registry_run P n reg \<Longrightarrow> bind_principal P reg p h = (reg', out) \<Longrightarrow> registry_run P (Suc n) reg'"
| rebound: "registry_run P n reg \<Longrightarrow> rebind P reg p h ev = (reg', out) \<Longrightarrow> registry_run P (Suc n) reg'"

definition registry_ok :: "prims \<Rightarrow> nat \<Rightarrow> registry \<Rightarrow> bool" where
  "registry_ok P n reg \<longleftrightarrow>
     (\<forall>p h. rg_current reg p = Some h \<longrightarrow> (\<exists>bs hd. rg_chain reg p = Some bs \<and> rg_head reg p = Some hd \<and>
        rg_epoch reg p = Some (int (length bs) - 1) \<and> chain_ok P p bs hd \<and> bd_handle (last bs) = h \<and> length bs \<le> n))"

lemma registry_okE:
  assumes "registry_ok P n reg" and "rg_current reg p = Some h"
  obtains bs hh where "rg_chain reg p = Some bs" "rg_head reg p = Some hh" "rg_epoch reg p = Some (int (length bs) - 1)"
    "chain_ok P p bs hh" "bd_handle (last bs) = h" "length bs \<le> n"
  using assms unfolding registry_ok_def by blast

lemma check_rebind_Inr:
  "check_rebind P reg p h ev = Inr (ep, hh, bs) \<longleftrightarrow>
     rg_current reg p = Some (rot_old (ev_record ev)) \<and> rot_new (ev_record ev) = h \<and> h \<noteq> [] \<and> nfc P h = h \<and>
     verify_evidence P ev = Inr () \<and> rg_epoch reg p = Some (ep - 1) \<and> rg_head reg p = Some hh \<and> rg_chain reg p = Some bs"
  by (auto simp: check_rebind_def verify_evidence_def rbind_eq_Inr room_nfc_Inr dict_get_def split: option.splits sum.splits)

lemma set_binding_Inr:
  assumes "binding_bytes b = Inr m"
  shows "set_binding P reg bs b =
    (\<lparr>rg_chain = (rg_chain reg)(bd_principal b \<mapsto> bs @ [b]), rg_head = (rg_head reg)(bd_principal b \<mapsto> sha384 P m),
      rg_current = (rg_current reg)(bd_principal b \<mapsto> bd_handle b), rg_epoch = (rg_epoch reg)(bd_principal b \<mapsto> bd_epoch b)\<rparr>, Inr b)"
  using assms by (cases reg) (simp add: set_binding_def Let_def binding_head_def)

lemma set_binding_registry_ok:
  assumes "registry_ok P n reg" and "binding_bytes b = Inr m" and "chain_ok P (bd_principal b) (bs @ [b]) (sha384 P m)"
    and "bd_epoch b = int (length bs)" and "length bs \<le> n"
  shows "registry_ok P (Suc n) (fst (set_binding P reg bs b))"
  using assms unfolding registry_ok_def set_binding_Inr [OF assms(2)]
  by (auto simp: le_Suc_eq) blast

lemma registry_ok_chain:
  assumes "registry_ok P n reg" and "rg_current reg p = None"
  shows "registry_ok P (Suc n) (reg\<lparr>rg_chain := (rg_chain reg)(p := c)\<rparr>)"
  using assms unfolding registry_ok_def by (auto simp: le_Suc_eq) blast

lemma registry_ok_mono: "registry_ok P n reg \<Longrightarrow> registry_ok P (Suc n) reg"
  unfolding registry_ok_def by (meson le_SucI)

lemma chained_encodable:
  assumes "chain_ok P p bs h" and "\<And>m. length (sha384 P m) = RECEIPT_HEAD_SIZE"
  shows "encodable (T p)" and "encodable (B h)"
proof -
  obtain b where b: "b \<in> set bs" "bd_principal b = p" "\<exists>m. binding_bytes b = Inr m"
    using assms(1) by (cases bs) (auto simp: chain_ok_def)
  then show "encodable (T p)" using binding_encodable by (auto simp: binding_bytes_def encodable_iff)
  have "length h = RECEIPT_HEAD_SIZE"
    using assms by (cases bs rule: rev_cases) (auto simp: chain_ok_def bindings.chained_snoc)
  then show "encodable (B h)" by (simp add: enc_simps RECEIPT_HEAD_SIZE_def)
qed

lemma rotation_encodes_new:
  assumes "verify_evidence P ev = Inr ()"
  shows "encodable (T (rot_new (ev_record ev)))"
proof -
  have "\<exists>m. rotation_bytes (ev_record ev) = Inr m" using assms by (auto simp: verify_evidence_def verify_rotation_iff)
  then show ?thesis by (auto simp: rotation_bytes_def encode_M_iff simp del: encode.simps)
qed

lemma rebind_accepts:
  assumes "registry_ok P n reg" and "\<And>m. length (sha384 P m) = RECEIPT_HEAD_SIZE" and "n < 2 ^ 64"
    and "check_rebind P reg p h ev = Inr (ep, hh, bs)"
  obtains m where "binding_bytes \<lparr>bd_principal = p, bd_handle = h, bd_epoch = ep, bd_prev = hh\<rparr> = Inr m"
    and "registry_ok P (Suc n) (fst (rebind P reg p h ev))"
proof -
  let ?b = "\<lparr>bd_principal = p, bd_handle = h, bd_epoch = ep, bd_prev = hh\<rparr>"
  note c = assms(4) [unfolded check_rebind_Inr]
  from c have cur: "rg_current reg p = Some (rot_old (ev_record ev))" by simp
  obtain bs' hh' where r: "rg_chain reg p = Some bs'" "rg_head reg p = Some hh'" "rg_epoch reg p = Some (int (length bs') - 1)"
    and ch': "chain_ok P p bs' hh'" and last': "bd_handle (last bs') = rot_old (ev_record ev)" and len': "length bs' \<le> n"
    using registry_okE [OF assms(1) cur] .
  have ep: "ep = int (length bs)" and ch: "chain_ok P p bs hh" and last: "bd_handle (last bs) = rot_old (ev_record ev)" and len: "length bs \<le> n"
    using r ch' last' len' c by simp_all
  have "encodable (binding_map ?b)"
    using chained_encodable [OF ch assms(2)] rotation_encodes_new [of P ev] c ep len assms(3)
    by (simp add: binding_encodable encodable_U)
  then obtain m where m: "binding_bytes ?b = Inr m" by (auto simp: binding_bytes_def encodable_iff)
  have "chain_ok P p (bs @ [?b]) (sha384 P m)"
    by (rule chain_ok_snoc [OF ch m, where ev = ev]) (use c ep last in auto)
  then have "registry_ok P (Suc n) (fst (set_binding P reg bs ?b))"
    using set_binding_registry_ok [OF assms(1) m] ep len by simp
  then show thesis using that m assms(4) by (simp add: rebind_def)
qed

lemma bind_accepts:
  assumes "registry_ok P n reg" and "bind_principal P reg p h = (reg', out)"
  shows "registry_ok P (Suc n) reg'"
proof (cases "check_bind P reg p h")
  case (Inl e)
  then show ?thesis using assms registry_ok_mono by (simp add: bind_principal_def)
next
  case (Inr u)
  let ?b = "\<lparr>bd_principal = p, bd_handle = h, bd_epoch = 0, bd_prev = genesis_head\<rparr>"
  have reg': "reg' = fst (set_binding P reg [] ?b)" using assms(2) Inr by (simp add: bind_principal_def)
  have none: "rg_current reg p = None" using Inr by (auto simp: check_bind_def rbind_eq_Inr dom_def split: if_splits)
  show ?thesis
  proof (cases "binding_bytes ?b")
    case (Inl e)
    then show ?thesis using registry_ok_chain [OF assms(1) none] by (simp add: reg' set_binding_def binding_head_def Let_def)
  next
    case (Inr m)
    show ?thesis
      unfolding reg' using chain_ok_first [OF Inr, of P] by (intro set_binding_registry_ok [OF assms(1) Inr]) simp_all
  qed
qed

lemma run_registry_ok:
  assumes "\<And>m. length (sha384 P m) = RECEIPT_HEAD_SIZE"
  shows "registry_run P n reg \<Longrightarrow> n < 2 ^ 64 \<Longrightarrow> registry_ok P n reg"
proof (induction rule: registry_run.induct)
  case empty
  then show ?case by (simp add: registry_ok_def new_registry_def)
next
  case (bound n reg p h reg' out)
  then show ?case using bind_accepts by simp
next
  case (rebound n reg p h ev reg' out)
  then have ok: "registry_ok P n reg" and n: "n < 2 ^ 64" by simp_all
  show ?case
  proof (cases "check_rebind P reg p h ev")
    case (Inl e)
    then show ?thesis using rebound registry_ok_mono [OF ok] by (simp add: rebind_def)
  next
    case (Inr x)
    obtain ep hh bs where x: "x = (ep, hh, bs)" by (cases x)
    show ?thesis using rebind_accepts [OF ok assms n Inr [unfolded x]] rebound(2) by (metis fst_conv)
  qed
qed

section \<open>Properties of the registry\<close>

text \<open>C26: The handle a principal resolves to is the end of a hash chain of bindings of that principal, from the genesis head
  and with epochs 0, 1, 2, ..., whose handles after the first are a chain of co-signed rotations: together they resolve to
  one identity thread, rooted at the first handle, whose current id is the resolved handle. This holds after any sequence
  of accepted and refused bind and rebind calls (fewer than 2 to the 64, the epochs the encoding has room for).\<close>

theorem resolved_handle_is_rotated:
  assumes "\<And>m. length (sha384 P m) = RECEIPT_HEAD_SIZE" and "registry_run P n reg" and "n < 2 ^ 64"
    and "resolve_principal reg p = Inr h"
  shows "\<exists>bs hh. binding_chain reg p = Some bs \<and> bs \<noteq> [] \<and> bd_handle (last bs) = h \<and>
    bindings.chained P genesis_head bs hh \<and> map bd_epoch bs = map int [0..<length bs] \<and> (\<forall>b \<in> set bs. bd_principal b = p) \<and>
    (length bs \<ge> 2 \<longrightarrow> (\<exists>evs t. resolve_thread P evs = Inr t \<and> th_root t = bd_handle (hd bs) \<and> th_current t = h \<and>
       th_chain t = map bd_handle bs))"
proof -
  have ok: "registry_ok P n reg" using run_registry_ok assms(1-3) by blast
  have "rg_current reg p = Some h" using assms(4) by (simp add: resolve_principal_def split: option.splits)
  with ok obtain bs hh where bs: "rg_chain reg p = Some bs" "chain_ok P p bs hh" "bd_handle (last bs) = h" by (rule registry_okE)
  show ?thesis
    using bs chain_ok_thread [OF bs(2)] by (intro exI [of _ bs] exI [of _ hh]) (auto simp: binding_chain_def chain_ok_def)
qed

definition sample_hash :: prims where
  "sample_hash = sample_prims\<lparr>sha384 := \<lambda>_. replicate RECEIPT_HEAD_SIZE 0\<rparr>"

theorem resolved_handle_is_rotated_witness:
  "\<exists>reg bs. registry_run sample_hash 1 reg \<and> resolve_principal reg [112] = Inr [97] \<and> binding_chain reg [112] = Some bs \<and> bd_handle (last bs) = [97]"
proof -
  let ?r = "bind_principal sample_hash new_registry [112] [97]"
  have run: "registry_run sample_hash 1 (fst ?r)"
    using registry_run.bound [OF registry_run.empty prod.collapse [symmetric]] by simp
  have res: "resolve_principal (fst ?r) [112] = Inr [97]" by code_simp
  have "length (sha384 sample_hash m) = RECEIPT_HEAD_SIZE" for m by (simp add: sample_hash_def)
  from resolved_handle_is_rotated [OF this run _ res] run res show ?thesis by auto
qed

text \<open>A rebind is accepted exactly when the new handle is a non-empty NFC string and a rotation from the current handle
  to it verifies under both keys; it then moves this principal to the new handle and no other principal, and a refused
  rebind leaves the registry as it was.\<close>

theorem rebind_exact:
  assumes "\<And>m. length (sha384 P m) = RECEIPT_HEAD_SIZE" and "registry_run P n reg" and "n < 2 ^ 64"
    and "rebind P reg p h ev = (reg', out)"
  shows "(is_ok out \<longleftrightarrow> resolve_principal reg p = Inr (rot_old (ev_record ev)) \<and> rot_new (ev_record ev) = h \<and> h \<noteq> [] \<and>
      nfc P h = h \<and> verify_evidence P ev = Inr ()) \<and>
    (if is_ok out then resolve_principal reg' p = Inr h \<and> (\<forall>q. q \<noteq> p \<longrightarrow> resolve_principal reg' q = resolve_principal reg q)
      else reg' = reg)"
proof -
  have ok: "registry_ok P n reg" using run_registry_ok assms(1-3) by blast
  have cur: "resolve_principal reg p = Inr c \<longleftrightarrow> rg_current reg p = Some c" for c
    by (simp add: resolve_principal_def split: option.split)
  have acc: "is_ok (check_rebind P reg p h ev) \<longleftrightarrow> rg_current reg p = Some (rot_old (ev_record ev)) \<and> rot_new (ev_record ev) = h \<and>
      h \<noteq> [] \<and> nfc P h = h \<and> verify_evidence P ev = Inr ()"
    (is "_ \<longleftrightarrow> ?c")
  proof
    assume ?c
    then obtain bs hh where "rg_chain reg p = Some bs" "rg_head reg p = Some hh" "rg_epoch reg p = Some (int (length bs) - 1)"
      using registry_okE [OF ok] by metis
    with \<open>?c\<close> have "check_rebind P reg p h ev = Inr (int (length bs), hh, bs)" unfolding check_rebind_Inr by simp
    then show "is_ok (check_rebind P reg p h ev)" by simp
  qed (auto simp: is_ok_iff check_rebind_Inr)
  show ?thesis
  proof (cases "check_rebind P reg p h ev")
    case (Inl e)
    then have "reg' = reg" "out = Inl e" using assms(4) by (simp_all add: rebind_def)
    moreover have "\<not> is_ok (check_rebind P reg p h ev)" by (simp add: Inl)
    ultimately show ?thesis using acc cur by simp
  next
    case (Inr x)
    obtain ep hh bs where x: "x = (ep, hh, bs)" by (cases x)
    obtain m where m: "binding_bytes \<lparr>bd_principal = p, bd_handle = h, bd_epoch = ep, bd_prev = hh\<rparr> = Inr m"
      by (rule rebind_accepts [OF ok assms(1,3) Inr [unfolded x]])
    have "reg' = fst (rebind P reg p h ev)" "out = snd (rebind P reg p h ev)" using assms(4) by simp_all
    then show ?thesis
      using acc cur by (simp add: Inr x rebind_def set_binding_Inr [OF m] resolve_principal_def)
  qed
qed

definition sample_rotation :: rotation_record where
  "sample_rotation = \<lparr>rot_old = pystr ''bcibzcjah'', rot_new = pystr ''bcibzcjai'', rot_not_before = 9\<rparr>"

theorem rebind_exact_witness:
  "\<exists>reg ev out reg'. registry_run sample_hash 1 reg \<and> rebind sample_hash reg [112] (pystr ''bcibzcjai'') ev = (reg', out) \<and>
     is_ok out \<and> resolve_principal reg' [112] = Inr (pystr ''bcibzcjai'')"
proof -
  let ?reg = "fst (bind_principal sample_hash new_registry [112] (pystr ''bcibzcjah''))"
  have run: "registry_run sample_hash 1 ?reg"
    using registry_run.bound [OF registry_run.empty prod.collapse [symmetric]] by simp
  have res: "resolve_principal ?reg [112] = Inr (rot_old sample_rotation)" by code_simp
  have "is_ok (sign_rotation sample_hash sample_rotation (- 49) [7] [8])" by code_simp
  then obtain osig nsig where s: "sign_rotation sample_hash sample_rotation (- 49) [7] [8] = Inr (osig, nsig)"
    by (auto simp: is_ok_iff)
  let ?ev = "\<lparr>ev_record = sample_rotation, ev_old_alg = - 49, ev_new_alg = - 49, ev_old_pub = [7], ev_new_pub = [8],
    ev_old_sig = osig, ev_new_sig = nsig\<rparr>"
  have md: "md_correct sample_hash" "md_key_derive sample_hash (- 49) x = Inr (x, x)" for x
    using sample_prims_correct(1) by (simp_all add: sample_hash_def md_correct_def sample_prims_def)
  have sel: "signer_id sample_hash = signer_id sample_prims"
    by (simp add: fun_eq_iff signer_id_def sample_hash_def sample_prims_def cong: option.case_cong)
  have ids: "signer_id sample_hash (- 49) [7] = Inr (rot_old sample_rotation)" "signer_id sample_hash (- 49) [8] = Inr (rot_new sample_rotation)"
    using sample_ids sel by (simp_all add: sample_rotation_def)
  have ev: "verify_evidence sample_hash ?ev = Inr ()"
    using sign_rotation_verifies [OF md(1) s md(2) md(2) ids] by (simp add: verify_evidence_def)
  have len: "length (sha384 sample_hash m) = RECEIPT_HEAD_SIZE" for m by (simp add: sample_hash_def)
  obtain reg' out where r: "rebind sample_hash ?reg [112] (pystr ''bcibzcjai'') ?ev = (reg', out)" by fastforce
  have "nfc sample_hash x = x" for x by (simp add: sample_hash_def sample_prims_def)
  then have "is_ok out \<and> resolve_principal reg' [112] = Inr (pystr ''bcibzcjai'')"
    using rebind_exact [OF len run _ r] res ev by (auto simp: sample_rotation_def pystr_def)
  with run r show ?thesis by blast
qed

text \<open>A bind that fails to encode leaves a chain for a principal that is not bound.\<close>

lemma failed_bind_leaves_chain:
  "case bind_principal sample_prims new_registry [0xD800] [97] of (reg, out) \<Rightarrow>
     out = Inl UnicodeEncodeError \<and> resolve_principal reg [0xD800] = Inl (RoomsError ''PrincipalUnknown'') \<and>
     binding_chain reg [0xD800] \<noteq> None"
  by (simp add: bind_principal_def check_bind_def room_nfc_def require_nfc_def set_binding_def binding_head_def binding_bytes_def
      binding_map_def resolve_principal_def binding_chain_def sample_prims_def new_registry_def Let_def head_def)

end
