(* ===== verification/Records.thy ===== *)
theory Records
  imports Bodies
begin

text \<open>
  The body builders of the spine records (\<^verbatim>\<open>impl/python/naalp/records.py\<close>) and the transport bindings
  (\<^verbatim>\<open>transport.py\<close>), whose confidentiality rule \<^verbatim>\<open>records.transport_emit\<close> restates.
\<close>

section \<open>Body builders\<close>

definition approval_body :: "bytes \<Rightarrow> pystr \<Rightarrow> int \<Rightarrow> bytes \<Rightarrow> int \<Rightarrow> bytes res" where
  "approval_body approves approver grant nonce not_after =
     encode (M [(U 1, B approves), (U 2, T approver), (U 3, U grant), (U 4, B nonce), (U 5, U not_after)])"

definition approval_id :: "prims \<Rightarrow> bytes \<Rightarrow> pystr \<Rightarrow> int \<Rightarrow> bytes \<Rightarrow> int \<Rightarrow> bytes res" where
  "approval_id P approves approver grant nonce not_after =
     rbind (approval_body approves approver grant nonce not_after) (\<lambda>b. Inr (content_id_bytes (sha384 P) b))"

definition ledger_entry :: "int \<Rightarrow> bytes \<Rightarrow> bytes \<Rightarrow> pystr \<Rightarrow> bytes res" where
  "ledger_entry seq prev aid by_whom =
     encode (M [(U 1, U seq), (U 2, B prev), (U 3, B aid), (U 4, T by_whom)])"

definition receipt_body :: "bytes \<Rightarrow> bytes \<Rightarrow> int \<Rightarrow> int \<Rightarrow> bytes res" where
  "receipt_body prev obj seq at = encode (M [(U 1, B prev), (U 2, B obj), (U 3, U seq), (U 4, U at)])"

definition receipt_head :: "prims \<Rightarrow> bytes \<Rightarrow> bytes" where
  "receipt_head P body = sha384 P body"

definition delivery_update :: "bytes \<Rightarrow> int \<Rightarrow> int \<Rightarrow> bytes res" where
  "delivery_update obj stage at = encode (M [(U 1, B obj), (U 2, U stage), (U 3, U at)])"

definition stream_digest :: "prims \<Rightarrow> (int \<times> bytes) list \<Rightarrow> bytes" where
  "stream_digest P chunks = sha384 P (concat (map snd (sort_key fst chunks)))"

definition stream_open_body :: "bytes \<Rightarrow> int \<Rightarrow> bytes \<Rightarrow> int \<Rightarrow> bytes res" where
  "stream_open_body stream_id eff approval substream =
     encode (M ([(U 1, B stream_id), (U 2, U eff), (U 4, U substream)] @
       (if approval \<noteq> [] then [(U 3, B approval)] else [])))"

definition stream_commit_body :: "bytes \<Rightarrow> bytes \<Rightarrow> bytes res" where
  "stream_commit_body stream_id digest = encode (M [(U 1, B stream_id), (U 2, B digest)])"

definition stream_checkpoint_body :: "bytes \<Rightarrow> int \<Rightarrow> bytes \<Rightarrow> bytes res" where
  "stream_checkpoint_body stream_id through_offset digest_so_far =
     encode (M [(U 1, B stream_id), (U 2, U through_offset), (U 3, B digest_so_far)])"

definition CLASS_OPAQUE :: int where "CLASS_OPAQUE = 5"

definition carriage_body :: "int \<Rightarrow> int \<Rightarrow> int \<Rightarrow> bytes \<Rightarrow> pystr \<Rightarrow> bytes \<Rightarrow> bytes res" where
  "carriage_body protocol_id cls content_type correlation method foreign =
     (if cls > CLASS_OPAQUE then Inl MappingError
      else encode (M [(U 1, U protocol_id), (U 2, U cls), (U 3, U content_type), (U 4, B correlation),
        (U 5, T method), (U 6, B foreign)]))"

definition TRANSPORTS :: "(string \<times> bool \<times> bool) list" where
  "TRANSPORTS =
     [(''npamp'', True, True), (''quic'', True, True), (''websocket+wss'', True, False),
      (''websocket+ws'', False, False), (''https'', True, False), (''http'', False, False)]"

definition transport_emit :: "string \<Rightarrow> bool \<Rightarrow> bool \<Rightarrow> string res" where
  "transport_emit name sensitive require_peer_auth =
     (case map_of TRANSPORTS name of
        None \<Rightarrow> Inl UnknownTransport
      | Some (confidential, peer_authenticated) \<Rightarrow>
          if sensitive \<and> \<not> confidential then Inr ''ConfidentialTransportRequired''
          else if require_peer_auth \<and> \<not> peer_authenticated then Inr ''PeerUnauthenticated''
          else Inr ''ok'')"

section \<open>Transport bindings\<close>

definition MEDIA_TYPE :: string where "MEDIA_TYPE = ''application/vnd.bubblefish.naalp+cbor''"

record transport =
  t_name :: string
  t_confidential :: bool
  t_peer_authenticated :: bool

definition ALL_TRANSPORTS :: "transport list" where
  "ALL_TRANSPORTS =
     [\<lparr>t_name = ''npamp'', t_confidential = True, t_peer_authenticated = True\<rparr>,
      \<lparr>t_name = ''quic'', t_confidential = True, t_peer_authenticated = True\<rparr>,
      \<lparr>t_name = ''websocket+wss'', t_confidential = True, t_peer_authenticated = False\<rparr>,
      \<lparr>t_name = ''websocket+ws'', t_confidential = False, t_peer_authenticated = False\<rparr>,
      \<lparr>t_name = ''https'', t_confidential = True, t_peer_authenticated = False\<rparr>,
      \<lparr>t_name = ''http'', t_confidential = False, t_peer_authenticated = False\<rparr>]"

definition by_name :: "string \<Rightarrow> transport option" where
  "by_name name = find (\<lambda>t. t_name t = name) ALL_TRANSPORTS"

record message_unit =
  mu_transport :: string
  mu_media_type :: string
  mu_payload :: bytes

definition unit_object :: "message_unit \<Rightarrow> bytes res" where
  "unit_object u = (if mu_media_type u \<noteq> MEDIA_TYPE then Inl (TransportError ''Malformed'') else Inr (mu_payload u))"

definition frame_unit :: "transport \<Rightarrow> bytes \<Rightarrow> message_unit" where
  "frame_unit t obj = \<lparr>mu_transport = t_name t, mu_media_type = MEDIA_TYPE, mu_payload = obj\<rparr>"

definition emit :: "transport \<Rightarrow> bytes \<Rightarrow> bool \<Rightarrow> bool \<Rightarrow> message_unit res" where
  "emit t obj sensitive require_peer_auth =
     (if sensitive \<and> \<not> t_confidential t then Inl (TransportError ''ConfidentialTransportRequired'')
      else if require_peer_auth \<and> \<not> t_peer_authenticated t then Inl (TransportError ''PeerUnauthenticated'')
      else Inr (frame_unit t obj))"

text \<open>The label of a binding's outcome, as \<^verbatim>\<open>records.transport_emit\<close> reports it.\<close>

definition emit_label :: "message_unit res \<Rightarrow> string" where
  "emit_label r = (case r of Inr _ \<Rightarrow> ''ok'' | Inl (TransportError k) \<Rightarrow> k | Inl _ \<Rightarrow> ''other'')"

section \<open>Properties of the transport bindings\<close>

text \<open>The two statements of the confidentiality boundary agree: for every name, the record module's rule
  gives the label of the binding's own decision, and both know exactly the same transports. An emitted
  unit carries the object bytes unchanged, and a sensitive object is emitted only on a confidential
  transport.\<close>

theorem transport_rules_agree:
  "transport_emit name sensitive auth =
     (case by_name name of None \<Rightarrow> Inl UnknownTransport | Some t \<Rightarrow> Inr (emit_label (emit t obj sensitive auth))) \<and>
   (case by_name name of None \<Rightarrow> True | Some t \<Rightarrow>
      (case emit t obj sensitive auth of
         Inl e \<Rightarrow> e \<in> {TransportError ''ConfidentialTransportRequired'', TransportError ''PeerUnauthenticated''}
       | Inr u \<Rightarrow> unit_object u = Inr obj \<and> t_name t = name \<and> (sensitive \<le> t_confidential t) \<and> (auth \<le> t_peer_authenticated t)))"
  by (simp add: transport_emit_def TRANSPORTS_def by_name_def ALL_TRANSPORTS_def emit_def emit_label_def frame_unit_def
      unit_object_def)

end
