(* ===== verification/Approval.thy ===== *)
theory Approval
  imports Records Policy Envelope
begin

text \<open>
  Approvals (\<^verbatim>\<open>impl/python/naalp/approval.py\<close>, first part): the approval record and its checks, the held
  result, the coarse refusal that a party sees, and the ledger-signed consume receipts with the detector
  of double spends. The consume ledger itself is in theory \<open>Ledger\<close>.
\<close>

section \<open>The approval record\<close>

record approval_record =
  approves :: bytes
  approver :: pystr
  grant_effect :: int
  nonce :: bytes
  not_after :: int
  ap_audience :: pystr

definition approval_bytes :: "approval_record \<Rightarrow> bytes res" where
  "approval_bytes a =
     encode (M ([(U 1, B (approves a)), (U 2, T (approver a)), (U 3, U (grant_effect a)), (U 4, B (nonce a)),
         (U 5, U (not_after a))] @ (if ap_audience a \<noteq> [] then [(U 6, T (ap_audience a))] else [])))"

definition approval_record_id :: "prims \<Rightarrow> approval_record \<Rightarrow> bytes res" where
  "approval_record_id P a = rbind (approval_bytes a) (\<lambda>b. Inr (content_id_bytes (sha384 P) b))"

definition sign_approval :: "prims \<Rightarrow> approval_record \<Rightarrow> int \<Rightarrow> bytes \<Rightarrow> bytes res" where
  "sign_approval P a alg seed = rbind (approval_bytes a) (mldsa_sign P alg seed)"

definition verify_approval ::
    "prims \<Rightarrow> approval_record \<Rightarrow> int \<Rightarrow> bytes \<Rightarrow> bytes \<Rightarrow> bytes \<Rightarrow> int \<Rightarrow> unit res" where
  "verify_approval P a alg pubkey sig args_content_id pos_time =
     rbind (approval_bytes a) (\<lambda>m.
       rbind (cose_verify1_raw P alg pubkey m sig) (\<lambda>ok.
         if \<not> ok then Inl (ApprovalError ''BadSignature'')
         else if approves a \<noteq> args_content_id then Inl (ApprovalError ''ApprovalMismatch'')
         else if pos_time > not_after a then Inl (ApprovalError ''ApprovalExpired'')
         else Inr ()))"

definition verify_audience :: "approval_record \<Rightarrow> pystr \<Rightarrow> unit res" where
  "verify_audience a use_context =
     (if ap_audience a \<noteq> [] \<and> ap_audience a \<noteq> use_context then Inl (ApprovalError ''AudienceMismatch'') else Inr ())"

section \<open>Held results and refusals\<close>

record held_result =
  held_approves :: bytes
  held_reason :: pystr

definition held_bytes :: "held_result \<Rightarrow> bytes res" where
  "held_bytes h = encode (M [(U 1, B (held_approves h)), (U 2, T (held_reason h))])"

definition sign_held :: "prims \<Rightarrow> held_result \<Rightarrow> int \<Rightarrow> bytes \<Rightarrow> bytes res" where
  "sign_held P h alg seed = rbind (held_bytes h) (mldsa_sign P alg seed)"

definition REFUSAL_DENIED :: int where "REFUSAL_DENIED = 0"
definition REFUSAL_HELD :: int where "REFUSAL_HELD = 1"
definition REFUSAL_UNVERIFIABLE :: int where "REFUSAL_UNVERIFIABLE = 2"

definition is_known_refusal_outcome :: "int \<Rightarrow> bool" where
  "is_known_refusal_outcome code \<longleftrightarrow> code \<in> {REFUSAL_DENIED, REFUSAL_HELD, REFUSAL_UNVERIFIABLE}"

record refusal =
  outcome :: int
  record_id :: bytes

definition refusal_bytes :: "refusal \<Rightarrow> bytes res" where
  "refusal_bytes r = encode (M [(U 1, U (outcome r)), (U 2, B (record_id r))])"

definition refusal_from_record :: "prims \<Rightarrow> int \<Rightarrow> bytes \<Rightarrow> refusal" where
  "refusal_from_record P oc full_record = \<lparr>outcome = oc, record_id = content_id_bytes (sha384 P) full_record\<rparr>"

definition refusal_field :: "int \<Rightarrow> cbor \<Rightarrow> bool" where
  "refusal_field n v \<longleftrightarrow> n = 1 \<and> is_U v \<or> n = 2 \<and> is_B v"

definition parse_refusal :: "bytes \<Rightarrow> refusal res" where
  "parse_refusal b =
     (case decode b of
        Inl e \<Rightarrow> Inl (if is_value_error e then ApprovalError ''RefusalDetailLeak'' else e)
      | Inr v \<Rightarrow>
          rbind (typed_fields refusal_field (ApprovalError ''RefusalDetailLeak'') v) (\<lambda>m.
            case (m 1, m 2) of
              (Some (U oc), Some (B rid)) \<Rightarrow>
                if rid = [] then Inl (ApprovalError ''RefusalDetailLeak'')
                else if \<not> is_known_refusal_outcome oc then Inl (ApprovalError ''UnknownRefusalOutcome'')
                else Inr \<lparr>outcome = oc, record_id = rid\<rparr>
            | _ \<Rightarrow> Inl (ApprovalError ''RefusalDetailLeak'')))"

section \<open>Consume receipts and fork evidence\<close>

record consume_receipt =
  cr_ledger :: bytes
  cr_approval_id :: bytes
  cr_position :: int

definition consume_receipt_bytes :: "consume_receipt \<Rightarrow> bytes res" where
  "consume_receipt_bytes r = encode (M [(U 1, B (cr_ledger r)), (U 2, B (cr_approval_id r)), (U 3, U (cr_position r))])"

definition sign_consume_receipt :: "prims \<Rightarrow> consume_receipt \<Rightarrow> int \<Rightarrow> bytes \<Rightarrow> bytes res" where
  "sign_consume_receipt P r alg seed = rbind (consume_receipt_bytes r) (mldsa_sign P alg seed)"

definition verify_consume_receipt :: "prims \<Rightarrow> consume_receipt \<Rightarrow> int \<Rightarrow> bytes \<Rightarrow> bytes \<Rightarrow> unit res" where
  "verify_consume_receipt P r alg pubkey sig =
     (if cr_ledger r = [] then Inl (ApprovalError ''ConsumeReceiptUnsigned'')
      else rbind (consume_receipt_bytes r) (\<lambda>m.
        rbind (cose_verify1_raw P alg pubkey m sig) (\<lambda>ok.
          if \<not> ok then Inl (ApprovalError ''ConsumeReceiptUnsigned'') else Inr ())))"

definition verify_fresh_independent ::
    "prims \<Rightarrow> approval_record \<Rightarrow> int \<Rightarrow> bytes \<Rightarrow> bytes \<Rightarrow> bytes \<Rightarrow> int \<Rightarrow>
     consume_receipt \<Rightarrow> int \<Rightarrow> bytes \<Rightarrow> bytes \<Rightarrow> bytes \<Rightarrow> unit res" where
  "verify_fresh_independent P a approver_alg approver_pk a_sig args_content_id pos_time r ledger_alg ledger_pk r_sig party_id =
     rbind (verify_approval P a approver_alg approver_pk a_sig args_content_id pos_time) (\<lambda>_.
       rbind (verify_consume_receipt P r ledger_alg ledger_pk r_sig) (\<lambda>_.
         if cr_ledger r = party_id then Inl (ApprovalError ''FreshnessSelfAsserted'') else Inr ()))"

record fork_evidence =
  fe_approval_id :: bytes
  fe_a :: consume_receipt
  fe_sig_a :: bytes
  fe_b :: consume_receipt
  fe_sig_b :: bytes

type_synonym resolver = "bytes \<Rightarrow> (int \<times> bytes) option"

definition verify_fork :: "prims \<Rightarrow> resolver \<Rightarrow> fork_evidence \<Rightarrow> unit res" where
  "verify_fork P resolve f =
     (if fe_approval_id f = [] then Inl (ApprovalError ''ConsumeForkInvalid'')
      else if cr_approval_id (fe_a f) \<noteq> fe_approval_id f \<or> cr_approval_id (fe_b f) \<noteq> fe_approval_id f
        then Inl (ApprovalError ''ConsumeForkInvalid'')
      else rbind (consume_receipt_bytes (fe_a f)) (\<lambda>ma.
        rbind (consume_receipt_bytes (fe_b f)) (\<lambda>mb.
          if ma = mb then Inl (ApprovalError ''ConsumeForkInvalid'')
          else if cr_ledger (fe_a f) = [] then Inl (ApprovalError ''ConsumeReceiptUnsigned'')
          else (case resolve (cr_ledger (fe_a f)) of
              None \<Rightarrow> Inl (ApprovalError ''ConsumeReceiptUnsigned'')
            | Some (alg_a, pk_a) \<Rightarrow>
                if cr_ledger (fe_b f) = [] then Inl (ApprovalError ''ConsumeReceiptUnsigned'')
                else (case resolve (cr_ledger (fe_b f)) of
                    None \<Rightarrow> Inl (ApprovalError ''ConsumeReceiptUnsigned'')
                  | Some (alg_b, pk_b) \<Rightarrow>
                      rbind (cose_verify1_raw P alg_a pk_a ma (fe_sig_a f)) (\<lambda>oka.
                        if \<not> oka then Inl (ApprovalError ''ConsumeReceiptUnsigned'')
                        else rbind (cose_verify1_raw P alg_b pk_b mb (fe_sig_b f)) (\<lambda>okb.
                          if \<not> okb then Inl (ApprovalError ''ConsumeReceiptUnsigned'') else Inr ())))))))"

text \<open>The set of receipts an observer has seen, keyed by approval id.\<close>

type_synonym receipt_set = "bytes \<rightharpoonup> consume_receipt \<times> bytes"

definition observe ::
    "prims \<Rightarrow> resolver \<Rightarrow> receipt_set \<Rightarrow> consume_receipt \<Rightarrow> bytes \<Rightarrow> (receipt_set \<times> fork_evidence option) res" where
  "observe P resolve seen r sig =
     (case (if cr_ledger r \<noteq> [] then resolve (cr_ledger r) else None) of
        None \<Rightarrow> Inl (ApprovalError ''ConsumeReceiptUnsigned'')
      | Some (alg, pk) \<Rightarrow>
          rbind (consume_receipt_bytes r) (\<lambda>m.
            rbind (cose_verify1_raw P alg pk m sig) (\<lambda>ok.
              if \<not> ok then Inl (ApprovalError ''ConsumeReceiptUnsigned'')
              else (case seen (cr_approval_id r) of
                  Some (prev_r, prev_sig) \<Rightarrow>
                    rbind (consume_receipt_bytes prev_r) (\<lambda>pm.
                      if pm = m then Inr (seen, None)
                      else Inr (seen, Some \<lparr>fe_approval_id = cr_approval_id r, fe_a = prev_r, fe_sig_a = prev_sig,
                        fe_b = r, fe_sig_b = sig\<rparr>))
                | None \<Rightarrow> Inr (seen(cr_approval_id r \<mapsto> (r, sig)), None)))))"

section \<open>Approvals\<close>

lemma approval_asc:
  "asc_keys ([(U 1, B a), (U 2, T b), (U 3, U c), (U 4, B d), (U 5, U e)] @ (if f \<noteq> [] then [(U 6, T f)] else []))"
  by (simp add: asc_keys_def small_key_def key_int_def)

text \<open>The signed bytes determine the approval: no two approvals share them.\<close>

lemma approval_bytes_inject:
  assumes "approval_bytes a = Inr m" and "approval_bytes b = Inr m"
  shows "a = b"
proof -
  let ?v = "\<lambda>a. M ([(U 1, B (approves a)), (U 2, T (approver a)), (U 3, U (grant_effect a)), (U 4, B (nonce a)),
         (U 5, U (not_after a))] @ (if ap_audience a \<noteq> [] then [(U 6, T (ap_audience a))] else []))"
  have "?v a = ?v b"
  proof (rule encode_canonical_inject)
    show "encode (?v a) = Inr m" "encode (?v b) = Inr m" using assms by (simp_all only: approval_bytes_def)
    show "canon (?v a) = ?v a" "canon (?v b) = ?v b" by (rule canon_asc [OF approval_asc]; auto)+
  qed simp_all
  then show ?thesis by (cases a; cases b) (auto split: if_splits)
qed

lemma verify_approval_Inr:
  "verify_approval P a alg pk sig cid t = Inr () \<longleftrightarrow>
     (\<exists>m. approval_bytes a = Inr m \<and> cose_verify1_raw P alg pk m sig = Inr True) \<and> approves a = cid \<and> t \<le> not_after a"
  by (auto simp: verify_approval_def res_simps)

lemma sign_approval_verifies:
  assumes "md_correct P" and "sign_approval P a alg seed = Inr sig" and "md_key_derive P alg seed = Inr (pk, sk)"
    and "t \<le> not_after a"
  shows "verify_approval P a alg pk sig (approves a) t = Inr ()"
  using assms mldsa_sign_verify(1) [OF assms(1) _ assms(3)]
  by (auto simp: verify_approval_Inr sign_approval_def rbind_eq_Inr)

section \<open>Refusals\<close>

lemma refusal_keys: "field_keys [1, 2]"
  by (simp add: field_keys_def)

lemma refusal_body: "refusal_bytes r = encode (body_of (\<lambda>n. if n = 1 then U (outcome r) else B (record_id r)) [1, 2])"
  by (simp add: refusal_bytes_def del: encode.simps)

lemma parse_refusal_iff:
  "parse_refusal b = Inr r \<longleftrightarrow>
     refusal_bytes r = Inr b \<and> is_known_refusal_outcome (outcome r) \<and> record_id r \<noteq> []"
proof
  assume "parse_refusal b = Inr r"
  then obtain v m oc rid where d: "decode b = Inr v"
    and m: "typed_fields refusal_field (ApprovalError ''RefusalDetailLeak'') v = Inr m"
    and f: "m 1 = Some (U oc)" "m 2 = Some (B rid)" "rid \<noteq> []" "is_known_refusal_outcome oc"
    and r: "r = \<lparr>outcome = oc, record_id = rid\<rparr>"
    by (auto simp: parse_refusal_def res_simps split: sum.splits option.splits cbor.splits if_splits)
  have "encode (body_of (\<lambda>n. the (m n)) [1, 2]) = Inr b"
    using typed_fields_sound(1) [OF d m refusal_keys] f by (auto simp: refusal_field_def simp del: encode.simps)
  then show "refusal_bytes r = Inr b \<and> is_known_refusal_outcome (outcome r) \<and> record_id r \<noteq> []"
    using f by (simp add: refusal_body r del: encode.simps)
next
  assume a: "refusal_bytes r = Inr b \<and> is_known_refusal_outcome (outcome r) \<and> record_id r \<noteq> []"
  let ?f = "\<lambda>n :: int. if n = 1 then U (outcome r) else B (record_id r)"
  have "decode b = Inr (body_of ?f [1, 2])"
    by (rule decode_body [OF _ refusal_keys]) (use a in \<open>simp_all add: refusal_body leaf_def del: encode.simps body_of_simps\<close>)
  moreover have "typed_fields refusal_field e (body_of ?f [1, 2]) = Inr (\<lambda>n. if n \<in> set [1, 2] then Some (?f n) else None)" for e
    by (rule typed_fields_body [OF refusal_keys]) (simp add: refusal_field_def)
  ultimately show "parse_refusal b = Inr r"
    using a by (simp add: parse_refusal_def del: body_of_simps)
qed

section \<open>Receipts\<close>

lemma consume_receipt_bytes_inject:
  assumes "consume_receipt_bytes a = Inr m" and "consume_receipt_bytes b = Inr m"
  shows "a = b"
proof -
  let ?v = "\<lambda>r. M [(U 1, B (cr_ledger r)), (U 2, B (cr_approval_id r)), (U 3, U (cr_position r))]"
  have "?v a = ?v b"
  proof (rule encode_canonical_inject)
    show "encode (?v a) = Inr m" "encode (?v b) = Inr m" using assms by (simp_all only: consume_receipt_bytes_def)
    show "canon (?v a) = ?v a" "canon (?v b) = ?v b"
      by (rule canon_asc; auto simp: asc_keys_def small_key_def key_int_def)+
  qed simp_all
  then show ?thesis by (cases a; cases b) simp
qed

text \<open>A receipt that is evidence for its observer: named, resolvable, and signed by the ledger it names.\<close>

definition evidenced :: "prims \<Rightarrow> resolver \<Rightarrow> consume_receipt \<Rightarrow> bytes \<Rightarrow> bool" where
  "evidenced P resolve r sig \<longleftrightarrow> cr_ledger r \<noteq> [] \<and>
     (\<exists>alg pk m. resolve (cr_ledger r) = Some (alg, pk) \<and> consume_receipt_bytes r = Inr m \<and>
        cose_verify1_raw P alg pk m sig = Inr True)"

lemma verify_fork_iff:
  "verify_fork P resolve f = Inr () \<longleftrightarrow>
     fe_approval_id f \<noteq> [] \<and> cr_approval_id (fe_a f) = fe_approval_id f \<and> cr_approval_id (fe_b f) = fe_approval_id f \<and>
     fe_a f \<noteq> fe_b f \<and> evidenced P resolve (fe_a f) (fe_sig_a f) \<and> evidenced P resolve (fe_b f) (fe_sig_b f)"
  using consume_receipt_bytes_inject [of "fe_a f" _ "fe_b f"]
  by (auto simp: verify_fork_def evidenced_def res_simps case_option_eq_Inr case_prod_eq_Inr)

definition seen_inv :: "prims \<Rightarrow> resolver \<Rightarrow> receipt_set \<Rightarrow> bool" where
  "seen_inv P resolve seen \<longleftrightarrow>
     (\<forall>i r sig. seen i = Some (r, sig) \<longrightarrow> cr_approval_id r = i \<and> evidenced P resolve r sig)"

lemma observe_Inr:
  "observe P resolve seen r sig = Inr (seen', ev) \<longleftrightarrow>
     evidenced P resolve r sig \<and>
     (case seen (cr_approval_id r) of
        None \<Rightarrow> seen' = seen(cr_approval_id r \<mapsto> (r, sig)) \<and> ev = None
      | Some (r0, sig0) \<Rightarrow> seen' = seen \<and> is_ok (consume_receipt_bytes r0) \<and>
          ev = (if r0 = r then None else Some \<lparr>fe_approval_id = cr_approval_id r, fe_a = r0, fe_sig_a = sig0, fe_b = r, fe_sig_b = sig\<rparr>))"
proof (cases "evidenced P resolve r sig")
  case True
  then obtain alg pk m where m: "cr_ledger r \<noteq> []" "resolve (cr_ledger r) = Some (alg, pk)"
      "consume_receipt_bytes r = Inr m" "cose_verify1_raw P alg pk m sig = Inr True"
    by (auto simp: evidenced_def)
  show ?thesis
  proof (cases "seen (cr_approval_id r)")
    case None
    with True m show ?thesis by (auto simp: observe_def)
  next
    case (Some p)
    obtain r0 sig0 where p: "p = (r0, sig0)" by (cases p)
    show ?thesis
    proof (cases "consume_receipt_bytes r0")
      case (Inr pm)
      then have "pm = m \<longleftrightarrow> r0 = r" using consume_receipt_bytes_inject m(3) by auto
      with True m Some p Inr show ?thesis by (auto simp: observe_def)
    qed (use True m Some p in \<open>auto simp: observe_def\<close>)
  qed
next
  case False
  then show ?thesis
    by (auto simp: observe_def evidenced_def rbind_eq_Inr if_Inl_eq_Inr case_option_eq_Inr case_prod_eq_Inr split: if_splits)
qed

lemma observe_inv:
  assumes "seen_inv P resolve seen" and "observe P resolve seen r sig = Inr (seen', ev)"
  shows "seen_inv P resolve seen'"
  using assms by (auto simp: observe_Inr seen_inv_def split: option.splits if_splits)

section \<open>Properties of approvals\<close>

text \<open>The refusal a party sees carries exactly a known coarse outcome and the id of the full record:
  a byte string is accepted precisely when it is the encoding of such a pair, so no accepted refusal has
  room for any further detail, and every refusal built from a record is accepted.\<close>

theorem refusal_carries_no_detail:
  "(parse_refusal b = Inr r \<longleftrightarrow>
      encode (M [(U 1, U (outcome r)), (U 2, B (record_id r))]) = Inr b \<and> outcome r \<in> {0, 1, 2} \<and> record_id r \<noteq> []) \<and>
   (is_known_refusal_outcome oc \<longrightarrow> refusal_bytes (refusal_from_record P oc rec) = Inr b' \<longrightarrow>
      parse_refusal b' = Inr (refusal_from_record P oc rec))"
  by (auto simp: parse_refusal_iff is_known_refusal_outcome_def REFUSAL_DENIED_def REFUSAL_HELD_def
      REFUSAL_UNVERIFIABLE_def refusal_from_record_def content_id_bytes_def refusal_bytes_def simp del: encode.simps)

theorem refusal_carries_no_detail_witness:
  "parse_refusal [0xA2, 1, 1, 2, 0x44, 0x20, 0x30, 7, 8] = Inr (refusal_from_record sample_prims 1 [7, 8])"
proof -
  have "is_known_refusal_outcome 1"
    by code_simp
  moreover have "refusal_bytes (refusal_from_record sample_prims 1 [7, 8]) = Inr [0xA2, 1, 1, 2, 0x44, 0x20, 0x30, 7, 8]"
    by code_simp
  ultimately show ?thesis using refusal_carries_no_detail by blast
qed

text \<open>Every double spend the observer reports is provable: starting from receipts that are all evidence,
  observing another one either refuses it, or keeps that invariant; and a reported fork passes the fork
  verification, which in turn holds exactly for two different receipts for one named approval, both
  signed by the ledgers they name. A second, different receipt for a seen approval is always reported.\<close>

theorem observed_forks_are_provable:
  assumes "seen_inv P resolve seen" and "observe P resolve seen r sig = Inr (seen', ev)" and "cr_approval_id r \<noteq> []"
  shows "seen_inv P resolve seen' \<and>
    (case ev of
       Some f \<Rightarrow> verify_fork P resolve f = Inr () \<and> fe_a f \<noteq> fe_b f \<and> fe_b f = r \<and> seen' = seen
     | None \<Rightarrow> map_option fst (seen' (cr_approval_id r)) = Some r)"
  using assms(2,3) assms(1) [unfolded seen_inv_def] observe_inv [OF assms(1,2)]
  by (auto simp: observe_Inr verify_fork_iff split: option.splits if_splits)

definition sample_receipt :: "int \<Rightarrow> consume_receipt" where
  "sample_receipt n = \<lparr>cr_ledger = [3], cr_approval_id = [4], cr_position = n\<rparr>"

definition sample_resolve :: resolver where
  "sample_resolve i = (if i = [3] then Some (- 49, [9]) else None)"

theorem observed_forks_are_provable_witness:
  "\<exists>seen' f. observe sample_prims sample_resolve [[4] \<mapsto> (sample_receipt 0, [9, 0xA3, 1, 0x41, 3, 2, 0x41, 4, 3, 0])]
      (sample_receipt 1) [9, 0xA3, 1, 0x41, 3, 2, 0x41, 4, 3, 1] = Inr (seen', Some f) \<and>
     verify_fork sample_prims sample_resolve f = Inr ()"
proof -
  let ?s0 = "[9, 0xA3, 1, 0x41, 3, 2, 0x41, 4, 3, 0] :: bytes" and ?s1 = "[9, 0xA3, 1, 0x41, 3, 2, 0x41, 4, 3, 1] :: bytes"
  have b: "consume_receipt_bytes (sample_receipt 0) = Inr [0xA3, 1, 0x41, 3, 2, 0x41, 4, 3, 0]"
    "consume_receipt_bytes (sample_receipt 1) = Inr [0xA3, 1, 0x41, 3, 2, 0x41, 4, 3, 1]"
    by code_simp+
  have e: "evidenced sample_prims sample_resolve (sample_receipt 0) ?s0"
    "evidenced sample_prims sample_resolve (sample_receipt 1) ?s1"
    using b by (simp_all add: evidenced_def sample_receipt_def sample_resolve_def cose_verify1_raw_def mldsa_verify_def
        mldsa_def alg_defs)
  then have inv: "seen_inv sample_prims sample_resolve [[4] \<mapsto> (sample_receipt 0, ?s0)]"
    by (simp add: seen_inv_def sample_receipt_def)
  let ?f = "\<lparr>fe_approval_id = [4], fe_a = sample_receipt 0, fe_sig_a = ?s0, fe_b = sample_receipt 1, fe_sig_b = ?s1\<rparr>"
  have o: "observe sample_prims sample_resolve [[4] \<mapsto> (sample_receipt 0, ?s0)] (sample_receipt 1) ?s1
      = Inr ([[4] \<mapsto> (sample_receipt 0, ?s0)], Some ?f)"
    using e b by (simp add: observe_Inr sample_receipt_def)
  from observed_forks_are_provable [OF inv o] o show ?thesis by (auto simp: sample_receipt_def)
qed

end
