(* ===== verification/Ledger.thy ===== *)
theory Ledger
  imports Approval Wal Chain
begin

text \<open>
  The single-use consume ledger (\<^verbatim>\<open>impl/python/naalp/approval.py\<close>, second part): its hash-chained entries,
  the write-ahead log they are persisted in, the three consuming operations and the choke point
  \<^verbatim>\<open>consume_approval\<close>. The file is part of the state; the lock makes every operation atomic, so any
  interleaving of callers is a sequence of operations. Failures of the operating system's write are not
  modelled.
\<close>

section \<open>Entries\<close>

definition HEAD_SIZE :: nat where "HEAD_SIZE = 48"

record entry =
  e_seq :: int
  e_prev :: bytes
  e_approval_id :: bytes
  e_by :: pystr

definition entry_bytes :: "entry \<Rightarrow> bytes res" where
  "entry_bytes e = ledger_entry (e_seq e) (e_prev e) (e_approval_id e) (e_by e)"

definition chain_next :: "prims \<Rightarrow> bytes \<Rightarrow> bytes" where
  "chain_next P b = sha384 P b"

definition entry_head :: "prims \<Rightarrow> entry \<Rightarrow> bytes res" where
  "entry_head P e = rbind (entry_bytes e) (\<lambda>b. Inr (chain_next P b))"

definition entry_field :: "int \<Rightarrow> cbor \<Rightarrow> bool" where
  "entry_field n v \<longleftrightarrow> n = 1 \<and> is_U v \<or> n = 2 \<and> is_B v \<or> n = 3 \<and> is_B v \<or> n = 4 \<and> is_T v"

definition parse_entry :: "bytes \<Rightarrow> entry res" where
  "parse_entry rec =
     rbind (decode rec) (\<lambda>v.
       rbind (typed_fields entry_field (ApprovalError ''LedgerCorrupt'') v) (\<lambda>m.
         case (m 1, m 2, m 3, m 4) of
           (Some (U s), Some (B p), Some (B a), Some (T w)) \<Rightarrow>
             Inr \<lparr>e_seq = s, e_prev = p, e_approval_id = a, e_by = w\<rparr>
         | _ \<Rightarrow> Inl (ApprovalError ''LedgerCorrupt'')))"

section \<open>The ledger\<close>

record ledger_mem =
  consumed :: "(bytes \<times> int) list"
  head_now :: bytes
  next_seq :: int

record ledger =
  mem :: ledger_mem
  l_file :: bytes
  authority :: pystr
  receipt_ledger_id :: bytes
  receipt_key :: "(int \<times> bytes) option"

definition empty_mem :: ledger_mem where
  "empty_mem = \<lparr>consumed = [], head_now = replicate HEAD_SIZE 0, next_seq = 0\<rparr>"

definition replay_entry :: "prims \<Rightarrow> ledger_mem \<Rightarrow> bytes \<Rightarrow> ledger_mem res" where
  "replay_entry P s rec =
     rbind (parse_entry rec) (\<lambda>e.
       if e_seq e \<noteq> next_seq s \<or> e_prev e \<noteq> head_now s then Inl (ApprovalError ''LedgerCorrupt'')
       else Inr \<lparr>consumed = AList.update (e_approval_id e) (e_seq e) (consumed s),
         head_now = chain_next P rec, next_seq = next_seq s + 1\<rparr>)"

definition replay_ledger :: "prims \<Rightarrow> bytes \<Rightarrow> ledger_mem res" where
  "replay_ledger P file = replay_log (ApprovalError ''LedgerCorrupt'') (replay_entry P) empty_mem file"

definition open_ledger :: "prims \<Rightarrow> bytes \<Rightarrow> pystr \<Rightarrow> ledger res" where
  "open_ledger P file auth =
     rbind (replay_ledger P file) (\<lambda>s.
       Inr \<lparr>mem = s, l_file = file, authority = auth, receipt_ledger_id = [], receipt_key = None\<rparr>)"

definition open_ledger_signed :: "prims \<Rightarrow> bytes \<Rightarrow> bytes \<Rightarrow> int \<Rightarrow> bytes option \<Rightarrow> ledger res" where
  "open_ledger_signed P file ledger_id alg seed =
     (case seed of
        None \<Rightarrow> Inl (ApprovalError ''LedgerUnsigned'')
      | Some sd \<Rightarrow>
          if ledger_id = [] then Inl (ApprovalError ''LedgerUnsigned'')
          else rbind (replay_ledger P file) (\<lambda>s.
            Inr \<lparr>mem = s, l_file = file, authority = [], receipt_ledger_id = ledger_id, receipt_key = Some (alg, sd)\<rparr>))"

definition make_entry :: "ledger_mem \<Rightarrow> bytes \<Rightarrow> pystr \<Rightarrow> entry" where
  "make_entry s aid by_whom = \<lparr>e_seq = next_seq s, e_prev = head_now s, e_approval_id = aid, e_by = by_whom\<rparr>"

text \<open>The compare-and-set on the memory, with the record it writes.\<close>

definition append_entry :: "prims \<Rightarrow> ledger_mem \<Rightarrow> bytes \<Rightarrow> pystr \<Rightarrow> (ledger_mem \<times> bytes) res" where
  "append_entry P s aid by_whom =
     (if aid \<in> fst ` set (consumed s) then Inl (ApprovalError ''AlreadyConsumed'')
      else rbind (entry_bytes (make_entry s aid by_whom)) (\<lambda>rec.
        Inr (\<lparr>consumed = AList.update aid (next_seq s) (consumed s), head_now = chain_next P rec,
          next_seq = next_seq s + 1\<rparr>, rec)))"

definition consume :: "prims \<Rightarrow> ledger \<Rightarrow> bytes \<Rightarrow> pystr \<Rightarrow> (ledger \<times> entry) res" where
  "consume P led aid by_whom =
     rbind (append_entry P (mem led) aid by_whom) (\<lambda>(s', rec).
       rbind (frame OverflowError rec) (\<lambda>framed.
         Inr (led\<lparr>mem := s', l_file := l_file led @ framed\<rparr>, make_entry (mem led) aid by_whom)))"

definition consume_object :: "prims \<Rightarrow> ledger \<Rightarrow> obj \<Rightarrow> bytes \<Rightarrow> pystr \<Rightarrow> (ledger \<times> entry) res" where
  "consume_object P led ob aid by_whom =
     (if authority led = [] then Inl (ApprovalError ''LedgerUnsigned'')
      else rbind (check_audience ob (authority led) True) (\<lambda>_. consume P led aid by_whom))"

definition consume_with_receipt ::
    "prims \<Rightarrow> ledger \<Rightarrow> bytes \<Rightarrow> pystr \<Rightarrow> (ledger \<times> entry \<times> consume_receipt \<times> bytes) res" where
  "consume_with_receipt P led aid by_whom =
     (case receipt_key led of
        None \<Rightarrow> Inl (ApprovalError ''LedgerUnsigned'')
      | Some (alg, seed) \<Rightarrow>
          if receipt_ledger_id led = [] then Inl (ApprovalError ''LedgerUnsigned'')
          else if aid \<in> fst ` set (consumed (mem led)) then Inl (ApprovalError ''AlreadyConsumed'')
          else
            let e = make_entry (mem led) aid by_whom;
                receipt = \<lparr>cr_ledger = receipt_ledger_id led, cr_approval_id = aid, cr_position = e_seq e\<rparr> in
            rbind (sign_consume_receipt P receipt alg seed) (\<lambda>sig.
              rbind (consume P led aid by_whom) (\<lambda>(led', e'). Inr (led', e', receipt, sig))))"

definition is_consumed :: "ledger \<Rightarrow> bytes \<Rightarrow> bool" where
  "is_consumed led aid \<longleftrightarrow> aid \<in> fst ` set (consumed (mem led))"

definition ledger_head :: "ledger \<Rightarrow> bytes" where
  "ledger_head led = head_now (mem led)"

definition ledger_len :: "ledger \<Rightarrow> nat" where
  "ledger_len led = length (consumed (mem led))"

definition consume_approval ::
    "prims \<Rightarrow> approval_record \<Rightarrow> int \<Rightarrow> bytes \<Rightarrow> bytes \<Rightarrow> bytes \<Rightarrow> int \<Rightarrow> int \<Rightarrow> ledger \<Rightarrow> pystr \<Rightarrow> (ledger \<times> entry) res" where
  "consume_approval P a alg pubkey sig args_content_id pos_time required_effect led by_whom =
     rbind (verify_approval P a alg pubkey sig args_content_id pos_time) (\<lambda>_.
       if grant_effect a > DESTRUCTIVE then Inl (ApprovalError ''ApprovalRequired'')
       else if \<not> authorizes (grant_effect a) required_effect then Inl (ApprovalError ''ApprovalRequired'')
       else rbind (approval_record_id P a) (\<lambda>aid. consume P led aid by_whom))"

section \<open>Entries as bytes\<close>

lemma entry_keys: "field_keys [1, 2, 3, 4]"
  by (simp add: field_keys_def)

definition entry_value :: "entry \<Rightarrow> int \<Rightarrow> cbor" where
  "entry_value e n = (if n = 1 then U (e_seq e) else if n = 2 then B (e_prev e) else if n = 3 then B (e_approval_id e) else T (e_by e))"

lemma entry_body: "entry_bytes e = encode (body_of (entry_value e) [1, 2, 3, 4])"
  by (simp add: entry_bytes_def ledger_entry_def entry_value_def del: encode.simps)

lemma entry_fieldE: "entry_field n v \<Longrightarrow> n \<in> set [1, 2, 3, 4]"
  by (auto simp: entry_field_def)

lemma parse_entry_bytes:
  assumes "entry_bytes e = Inr b" shows "parse_entry b = Inr e"
proof -
  have "decode b = Inr (body_of (entry_value e) [1, 2, 3, 4])"
    by (rule decode_body [OF _ entry_keys]) (use assms in \<open>simp_all add: entry_body entry_value_def leaf_def del: encode.simps body_of_simps\<close>)
  moreover have "typed_fields entry_field x (body_of (entry_value e) [1, 2, 3, 4])
      = Inr (\<lambda>n. if n \<in> set [1, 2, 3, 4] then Some (entry_value e n) else None)" for x
    by (rule typed_fields_body [OF entry_keys]) (simp add: entry_field_def entry_value_def)
  ultimately show ?thesis by (simp add: parse_entry_def entry_value_def del: body_of_simps)
qed

lemma entry_bytes_parse:
  assumes "parse_entry b = Inr e" shows "entry_bytes e = Inr b"
proof -
  obtain v m where d: "decode b = Inr v" and m: "typed_fields entry_field (ApprovalError ''LedgerCorrupt'') v = Inr m"
    and f: "m 1 = Some (U (e_seq e))" "m 2 = Some (B (e_prev e))" "m 3 = Some (B (e_approval_id e))" "m 4 = Some (T (e_by e))"
    using assms by (auto simp: parse_entry_def res_simps case_option_eq_Inr)
  have "encode (body_of (\<lambda>n. the (m n)) [1, 2, 3, 4]) = Inr b"
    using typed_fields_sound(1) [OF d m entry_keys entry_fieldE] f by (simp del: encode.simps)
  then show ?thesis using f by (simp add: entry_body entry_value_def del: encode.simps)
qed

interpretation entry_codec: byte_codec entry_bytes parse_entry "\<lambda>e. e" "\<lambda>_. True"
  by unfold_locales (blast intro: parse_entry_bytes entry_bytes_parse)+

interpretation ledger_chain: hash_chain "sha384 P" entry_bytes e_prev for P :: prims
  by unfold_locales (use entry_codec.enc_inject in blast)

section \<open>The log\<close>

text \<open>The memory of a ledger: one consumed id per sequence number.\<close>

definition mem_inv :: "ledger_mem \<Rightarrow> bool" where
  "mem_inv s \<longleftrightarrow> distinct (map fst (consumed s)) \<and> next_seq s = int (length (consumed s))"

lemma update_new: "k \<notin> fst ` set d \<Longrightarrow> AList.update k v d = d @ [(k, v)]"
  by (induction d) auto

lemma append_entry_Inr:
  "append_entry P s aid w = Inr (s', rec) \<longleftrightarrow>
     aid \<notin> fst ` set (consumed s) \<and> entry_bytes (make_entry s aid w) = Inr rec \<and>
     s' = \<lparr>consumed = consumed s @ [(aid, next_seq s)], head_now = chain_next P rec, next_seq = next_seq s + 1\<rparr>"
  by (auto simp: append_entry_def res_simps update_new)

lemma append_entry_inv: "mem_inv s \<Longrightarrow> append_entry P s aid w = Inr (s', rec) \<Longrightarrow> mem_inv s'"
  by (auto simp: append_entry_Inr mem_inv_def)

lemma replay_appended: "append_entry P s aid w = Inr (s', rec) \<Longrightarrow> replay_entry P s rec = Inr s'"
  by (auto simp: append_entry_Inr replay_entry_def make_entry_def update_new dest!: parse_entry_bytes)

definition ledger_append :: "prims \<Rightarrow> ledger_mem \<Rightarrow> bytes \<times> pystr \<Rightarrow> (ledger_mem \<times> bytes option) res" where
  "ledger_append P s op = rbind (append_entry P s (fst op) (snd op)) (\<lambda>(s', rec). Inr (s', Some rec))"

interpretation ledger_wal: wal "ledger_append P" "replay_entry P" mem_inv empty_mem
    "ApprovalError ''LedgerCorrupt''" OverflowError for P :: prims
proof unfold_locales
  show "mem_inv empty_mem" by (simp add: mem_inv_def empty_mem_def)
next
  fix s op s' rec
  assume "ledger_append P s op = Inr (s', Some rec)"
  then show "replay_entry P s rec = Inr s'" by (auto simp: ledger_append_def rbind_eq_Inr intro: replay_appended)
next
  fix s op s'
  assume "ledger_append P s op = Inr (s', None)"
  then show "s' = s" by (auto simp: ledger_append_def rbind_eq_Inr)
next
  fix s op s' r
  assume "mem_inv s" "ledger_append P s op = Inr (s', r)"
  then show "mem_inv s'" by (auto simp: ledger_append_def rbind_eq_Inr intro: append_entry_inv)
qed

section \<open>The ledger as a state machine\<close>

datatype ledger_op =
    Consume bytes pystr
  | ConsumeObject obj bytes pystr
  | ConsumeWithReceipt bytes pystr

fun op_id :: "ledger_op \<Rightarrow> bytes" where
  "op_id (Consume aid w) = aid"
| "op_id (ConsumeObject ob aid w) = aid"
| "op_id (ConsumeWithReceipt aid w) = aid"

fun perform :: "prims \<Rightarrow> ledger \<Rightarrow> ledger_op \<Rightarrow> (ledger \<times> entry) res" where
  "perform P led (Consume aid w) = consume P led aid w"
| "perform P led (ConsumeObject ob aid w) = consume_object P led ob aid w"
| "perform P led (ConsumeWithReceipt aid w) =
     rbind (consume_with_receipt P led aid w) (\<lambda>(led', e, r, sig). Inr (led', e))"

text \<open>
  A crash drops the process: the ledger is reopened on its file, as the same kind of ledger it was.
\<close>

definition reopen :: "prims \<Rightarrow> ledger \<Rightarrow> ledger res" where
  "reopen P led =
     (case receipt_key led of
        None \<Rightarrow> open_ledger P (l_file led) (authority led)
      | Some (alg, seed) \<Rightarrow> open_ledger_signed P (l_file led) (receipt_ledger_id led) alg (Some seed))"

text \<open>
  \<open>ledger_run P led tr led'\<close>: a history of operations with their outcomes, from \<open>led\<close> to \<open>led'\<close>, with
  crashes and reopenings anywhere.
\<close>

inductive ledger_run :: "prims \<Rightarrow> ledger \<Rightarrow> (ledger_op \<times> entry res) list \<Rightarrow> ledger \<Rightarrow> bool" for P led where
  start: "ledger_run P led [] led"
| accept: "ledger_run P led tr l \<Longrightarrow> perform P l op = Inr (l', e) \<Longrightarrow> ledger_run P led (tr @ [(op, Inr e)]) l'"
| refuse: "ledger_run P led tr l \<Longrightarrow> perform P l op = Inl x \<Longrightarrow> ledger_run P led (tr @ [(op, Inl x)]) l"
| crash: "ledger_run P led tr l \<Longrightarrow> reopen P l = Inr l' \<Longrightarrow> ledger_run P led tr l'"

definition winners :: "(ledger_op \<times> entry res) list \<Rightarrow> (ledger_op \<times> entry) list" where
  "winners tr = List.map_filter (\<lambda>(op, r). case r of Inl _ \<Rightarrow> None | Inr e \<Rightarrow> Some (op, e)) tr"

lemma winners_simps [simp]:
  "winners [] = []" "winners ((op, Inr e) # tr) = (op, e) # winners tr" "winners ((op, Inl x) # tr) = winners tr"
  "winners (tr @ [(op, Inr e)]) = winners tr @ [(op, e)]" "winners (tr @ [(op, Inl x)]) = winners tr"
  by (simp_all add: winners_def map_filter_def)

lemma consume_Inr:
  "consume P led aid w = Inr (led', e) \<longleftrightarrow>
     (\<exists>s' rec b. append_entry P (mem led) aid w = Inr (s', rec) \<and> frame OverflowError rec = Inr b \<and>
        led' = led\<lparr>mem := s', l_file := l_file led @ b\<rparr> \<and> e = make_entry (mem led) aid w)"
  by (auto simp: consume_def rbind_eq_Inr)

lemma perform_Inr:
  assumes "perform P led op = Inr (led', e)"
  shows "\<exists>w. consume P led (op_id op) w = Inr (led', e)"
  using assms
  by (cases op) (auto simp: consume_object_def consume_with_receipt_def rbind_eq_Inr Let_def split: option.splits if_splits)

text \<open>A ledger whose file replays to its memory, with one of the two identities an opened ledger has.\<close>

definition ledger_ok :: "prims \<Rightarrow> ledger \<Rightarrow> bool" where
  "ledger_ok P led \<longleftrightarrow> replay_ledger P (l_file led) = Inr (mem led) \<and>
     (case receipt_key led of None \<Rightarrow> receipt_ledger_id led = [] | Some _ \<Rightarrow> receipt_ledger_id led \<noteq> [] \<and> authority led = [])"

lemma opened_ok:
  "open_ledger P file auth = Inr led \<Longrightarrow> ledger_ok P led"
  "open_ledger_signed P file i alg seed = Inr led \<Longrightarrow> ledger_ok P led"
  by (auto simp: open_ledger_def open_ledger_signed_def ledger_ok_def rbind_eq_Inr split: option.splits if_splits)

lemma reopen_ok: "ledger_ok P led \<Longrightarrow> reopen P led = Inr led"
  by (cases led) (auto simp: ledger_ok_def reopen_def open_ledger_def open_ledger_signed_def split: option.splits)

lemma consume_ok:
  assumes "ledger_ok P led" and "consume P led aid w = Inr (led', e)"
  shows "ledger_ok P led'"
proof -
  obtain s' rec b where a: "append_entry P (mem led) aid w = Inr (s', rec)" and b: "frame OverflowError rec = Inr b"
    and led': "led' = led\<lparr>mem := s', l_file := l_file led @ b\<rparr>"
    using assms(2) by (auto simp: consume_Inr)
  have "replay_ledger P (l_file led @ b) = replay_log (ApprovalError ''LedgerCorrupt'') (replay_entry P) (mem led) b"
    using assms(1) by (simp add: replay_ledger_def ledger_ok_def replay_append)
  also have "\<dots> = Inr s'"
    using replay_frame [OF b, of _ "replay_entry P" "mem led" "[]"] replay_appended [OF a] by simp
  finally show ?thesis using assms(1) by (simp add: led' ledger_ok_def split: option.splits)
qed

text \<open>What a run leaves behind.\<close>

definition run_inv :: "prims \<Rightarrow> ledger \<Rightarrow> (ledger_op \<times> entry res) list \<Rightarrow> ledger \<Rightarrow> bool" where
  "run_inv P led tr l \<longleftrightarrow> ledger_ok P l \<and>
     map fst (consumed (mem l)) = map fst (consumed (mem led)) @ map (op_id \<circ> fst) (winners tr) \<and>
     distinct (map (op_id \<circ> fst) (winners tr)) \<and>
     (\<forall>w \<in> set (winners tr). op_id (fst w) \<notin> fst ` set (consumed (mem led))) \<and>
     next_seq (mem l) = next_seq (mem led) + int (length (winners tr)) \<and>
     map (e_seq \<circ> snd) (winners tr) = map (\<lambda>i. next_seq (mem led) + int i) [0..<length (winners tr)] \<and>
     ledger_chain.chained P (head_now (mem led)) (map snd (winners tr)) (head_now (mem l))"

lemma run_inv_accept:
  assumes inv: "run_inv P led tr l" and p: "perform P l op = Inr (l', e)"
  shows "run_inv P led (tr @ [(op, Inr e)]) l'"
proof -
  obtain w where c: "consume P l (op_id op) w = Inr (l', e)" using perform_Inr [OF p] by blast
  then obtain rec b where r: "entry_bytes e = Inr rec" and e: "e = make_entry (mem l) (op_id op) w"
    and new: "op_id op \<notin> fst ` set (consumed (mem l))"
    and l': "l' = l\<lparr>mem := \<lparr>consumed = consumed (mem l) @ [(op_id op, next_seq (mem l))], head_now = chain_next P rec,
      next_seq = next_seq (mem l) + 1\<rparr>, l_file := l_file l @ b\<rparr>"
    by (auto simp: consume_Inr append_entry_Inr)
  have "ledger_ok P l'" using consume_ok [OF _ c] inv by (simp add: run_inv_def)
  moreover have "op_id op \<notin> set (map fst (consumed (mem led))) \<union> set (map (op_id \<circ> fst) (winners tr))"
    using new inv by (simp add: run_inv_def flip: set_map set_append)
  moreover have "e_prev e = head_now (mem l)" "e_seq e = next_seq (mem l)" by (simp_all add: e make_entry_def)
  ultimately show ?thesis
    using inv r by (auto simp: run_inv_def l' ledger_chain.chained_snoc chain_next_def)
qed

lemma run_reaches:
  assumes "ledger_run P led tr l" and "ledger_ok P led"
  shows "run_inv P led tr l"
  using assms
proof induction
  case start
  then show ?case by (simp add: run_inv_def)
next
  case (accept tr l op l' e)
  then show ?case by (blast intro: run_inv_accept)
next
  case (refuse tr l op x)
  then show ?case by (simp add: run_inv_def)
next
  case (crash tr l l')
  then show ?case using reopen_ok [of P l] by (simp add: run_inv_def)
qed

lemma perform_consumed:
  assumes "is_consumed led (op_id op)"
  shows "\<exists>x. perform P led op = Inl x"
proof (cases "perform P led op")
  case (Inr y)
  obtain l' e where "y = (l', e)" by (cases y)
  then obtain w where "consume P led (op_id op) w = Inr (l', e)" using perform_Inr Inr by blast
  then show ?thesis using assms by (auto simp: consume_Inr append_entry_Inr is_consumed_def)
qed blast

lemma run_inv_consumed:
  "run_inv P led tr l \<Longrightarrow> is_consumed l aid \<longleftrightarrow> is_consumed led aid \<or> aid \<in> (op_id \<circ> fst) ` set (winners tr)"
proof -
  assume "run_inv P led tr l"
  then have "map fst (consumed (mem l)) = map fst (consumed (mem led)) @ map (op_id \<circ> fst) (winners tr)"
    by (simp only: run_inv_def)
  from arg_cong [OF this, of set] show ?thesis by (simp only: is_consumed_def set_append set_map Un_iff)
qed

text \<open>What every gate over the ledger rests on: an id appended once is never appended again.\<close>

lemma consumed_once:
  assumes "open_ledger P file auth = Inr led" and "consume P led aid w = Inr (led', e)" and "ledger_run P led' tr l"
  shows "e_approval_id e = aid" and "\<not> is_consumed led aid" and "consume P l aid w' \<noteq> Inr y"
    and "is_consumed led' aid"
proof -
  have new: "e_approval_id e = aid" "\<not> is_consumed led aid" "is_consumed led' aid"
    using assms(2) by (auto simp: consume_Inr append_entry_Inr is_consumed_def make_entry_def)
  then show "e_approval_id e = aid" "\<not> is_consumed led aid" "is_consumed led' aid" by auto
  have "ledger_ok P led'" using consume_ok [OF opened_ok(1) [OF assms(1)] assms(2)] .
  then have "is_consumed l aid" using run_inv_consumed [OF run_reaches [OF assms(3)]] new by blast
  then show "consume P l aid w' \<noteq> Inr y" by (cases y) (auto simp: consume_Inr append_entry_Inr is_consumed_def)
qed

lemma consume_approval_Inr:
  "consume_approval P a alg pk sig cid t eff led w = Inr (led', e) \<longleftrightarrow>
     verify_approval P a alg pk sig cid t = Inr () \<and> grant_effect a \<le> 3 \<and> eff \<le> grant_effect a \<and>
     (\<exists>aid. approval_record_id P a = Inr aid \<and> consume P led aid w = Inr (led', e))"
  by (auto simp: consume_approval_def rbind_eq_Inr authorizes_def effect_defs split: if_splits)

section \<open>Properties of the ledger\<close>

text \<open>C1: Single use. Open a ledger on any log that replays, and let any sequence of consuming operations run
  on it, from any callers, with crashes and reopenings anywhere. Then no approval id wins twice; none that
  the log already held wins again; the ids consumed at the end are those of the log and the winners, no
  others; reopening the file gives the very same ledger; and every further attempt on a consumed id
  fails.\<close>

theorem ledger_single_use:
  assumes "open_ledger P file auth = Inr led \<or> open_ledger_signed P file lid alg seed = Inr led"
    and "ledger_run P led tr l"
  shows "distinct (map (op_id \<circ> fst) (winners tr)) \<and>
    list_all (\<lambda>w. \<not> is_consumed led (op_id (fst w))) (winners tr) \<and>
    (\<forall>aid. is_consumed l aid \<longleftrightarrow> is_consumed led aid \<or> aid \<in> (op_id \<circ> fst) ` set (winners tr)) \<and>
    reopen P l = Inr l \<and>
    (\<forall>op. is_consumed l (op_id op) \<longrightarrow> (\<exists>x. perform P l op = Inl x))"
proof -
  have ok: "ledger_ok P led" using assms(1) opened_ok by blast
  have inv: "run_inv P led tr l" using run_reaches [OF assms(2) ok] .
  then have "reopen P l = Inr l" "distinct (map (op_id \<circ> fst) (winners tr))"
    "list_all (\<lambda>w. \<not> is_consumed led (op_id (fst w))) (winners tr)"
    by (auto simp: run_inv_def reopen_ok list_all_iff is_consumed_def)
  then show ?thesis using run_inv_consumed [OF inv] perform_consumed by blast
qed

definition sample_ledger :: ledger where
  "sample_ledger = \<lparr>mem = empty_mem, l_file = [], authority = [97], receipt_ledger_id = [], receipt_key = None\<rparr>"

lemma sample_ledger_opens: "open_ledger P [] [97] = Inr sample_ledger"
  by (simp add: open_ledger_def replay_ledger_def sample_ledger_def)

theorem ledger_single_use_witness:
  "\<exists>tr l. ledger_run sample_prims sample_ledger tr l \<and> length tr = 2 \<and> length (winners tr) = 1 \<and>
     distinct (map (op_id \<circ> fst) (winners tr)) \<and> reopen sample_prims l = Inr l"
proof -
  let ?op = "Consume [1] [98]"
  have "is_ok (perform sample_prims sample_ledger ?op)"
    by code_simp
  then obtain l e where p: "perform sample_prims sample_ledger ?op = Inr (l, e)" by (auto simp: is_ok_iff)
  note r1 = ledger_run.accept [OF ledger_run.start p]
  have "is_consumed l [1]"
    using run_inv_consumed [OF run_reaches [OF r1 opened_ok(1) [OF sample_ledger_opens]]] by simp
  then obtain x where x: "perform sample_prims l ?op = Inl x" using perform_consumed [of l ?op] by auto
  note r2 = ledger_run.refuse [OF r1 x]
  from ledger_single_use [OF disjI1 [OF sample_ledger_opens] r2] r2 show ?thesis
    by (intro exI conjI) auto
qed

text \<open>The ledger's positions go forward and its history is tamper-evident. The entries won in a run carry
  consecutive sequence numbers and link head to head; and two histories of fresh ledgers that end in
  the same head are the same entry for entry, unless SHA-384 collides on their bodies or yields the
  all-zero genesis.\<close>

theorem ledger_history_determined:
  assumes "ledger_run P sample_ledger tr l" and "ledger_run P sample_ledger tr' l'"
    and "ledger_head l = ledger_head l'"
    and "inj_on (sha384 P) (ledger_chain.bodies (map snd (winners tr)) \<union> ledger_chain.bodies (map snd (winners tr')))"
    and "replicate HEAD_SIZE 0 \<notin> sha384 P `
      (ledger_chain.bodies (map snd (winners tr)) \<union> ledger_chain.bodies (map snd (winners tr')))"
  shows "map snd (winners tr) = map snd (winners tr') \<and>
    map (e_seq \<circ> snd) (winners tr) = map int [0..<length (winners tr)]"
proof -
  note ok = opened_ok(1) [OF sample_ledger_opens]
  have inv: "run_inv P sample_ledger tr l" "run_inv P sample_ledger tr' l'"
    using run_reaches [OF assms(1) ok] run_reaches [OF assms(2) ok] .
  have g: "head_now (mem sample_ledger) = replicate HEAD_SIZE 0" "next_seq (mem sample_ledger) = 0"
    by (simp_all add: sample_ledger_def empty_mem_def)
  have "map snd (winners tr) = map snd (winners tr')"
  proof (rule ledger_chain.chain_determined_genesis)
    show "ledger_chain.chained P (replicate HEAD_SIZE 0) (map snd (winners tr)) (ledger_head l)"
      "ledger_chain.chained P (replicate HEAD_SIZE 0) (map snd (winners tr')) (ledger_head l)"
      using inv assms(3) by (simp_all add: run_inv_def g ledger_head_def)
  qed (use assms(4,5) in simp_all)
  then show ?thesis using inv by (simp add: run_inv_def g)
qed

theorem ledger_history_determined_witness:
  "\<exists>tr l tr' l'. ledger_run sample_prims sample_ledger tr l \<and> ledger_run sample_prims sample_ledger tr' l' \<and>
     length tr = 1 \<and> length tr' = 2 \<and> map snd (winners tr) = map snd (winners tr')"
proof -
  let ?op = "Consume [1] [98]"
  have "is_ok (perform sample_prims sample_ledger ?op)"
    by code_simp
  then obtain l e where p: "perform sample_prims sample_ledger ?op = Inr (l, e)" by (auto simp: is_ok_iff)
  have q: "perform sample_prims sample_ledger (ConsumeObject sample_obj [1] [98]) = Inr (l, e)"
    using p by (simp add: consume_object_def sample_ledger_def check_audience_def sample_obj_def)
  note r1 = ledger_run.accept [OF ledger_run.start p]
  note r2 = ledger_run.accept [OF ledger_run.start q]
  have "is_consumed l [1]"
    using run_inv_consumed [OF run_reaches [OF r1 opened_ok(1) [OF sample_ledger_opens]]] by simp
  then obtain x where x: "perform sample_prims l ?op = Inl x" using perform_consumed [of l ?op] by auto
  note r3 = ledger_run.refuse [OF r2 x]
  have "entry_bytes e = Inr m \<Longrightarrow> m \<noteq> replicate HEAD_SIZE 0" for m
  proof
    assume m: "entry_bytes e = Inr m" "m = replicate HEAD_SIZE 0"
    have "entry_bytes (make_entry empty_mem [1] [98]) \<noteq> Inr (replicate HEAD_SIZE 0)"
      by code_simp
    then show False using m p by (auto simp: consume_Inr sample_ledger_def)
  qed
  then have "map snd (winners ([] @ [(?op, Inr e)])) =
      map snd (winners (([] @ [(ConsumeObject sample_obj [1] [98], Inr e)]) @ [(?op, Inl x)]))"
    by (intro ledger_history_determined [OF r1 r3, THEN conjunct1])
      (auto simp: inj_on_def ledger_chain.bodies_def)
  with r1 r3 show ?thesis
    by (intro exI [of _ "[] @ [(?op, Inr e)]"] exI [of _ l]
        exI [of _ "([] @ [(ConsumeObject sample_obj [1] [98], Inr e)]) @ [(?op, Inl x)]"] conjI) simp_all
qed

text \<open>Persist before acknowledge. If the process dies while the next record is being written, reopening
  finds either the old state (nothing written), the new state (all written), or refuses with
  LedgerCorrupt: a record is never half-applied and no consumed approval is forgotten.\<close>

theorem ledger_torn_write:
  assumes "open_ledger P file auth = Inr led" and "append_entry P (mem led) aid w = Inr (s', rec)"
    and "frame OverflowError rec = Inr b"
  shows "replay_ledger P (file @ take k b) =
    (if k = 0 then Inr (mem led) else if k < length b then Inl (ApprovalError ''LedgerCorrupt'') else Inr s')"
proof -
  have f: "replay_ledger P file = Inr (mem led)"
    using assms(1) by (auto simp: open_ledger_def rbind_eq_Inr)
  have "replay_ledger P (file @ take k b) =
      replay_log (ApprovalError ''LedgerCorrupt'') (replay_entry P) (mem led) (take k b)"
    using f by (simp add: replay_ledger_def replay_append)
  moreover have "replay_log (ApprovalError ''LedgerCorrupt'') (replay_entry P) (mem led) b = Inr s'"
    using replay_frame [OF assms(3), of _ "replay_entry P" "mem led" "[]"] replay_appended [OF assms(2)] by simp
  ultimately show ?thesis
    using replay_torn [OF assms(3)] by auto
qed

theorem ledger_torn_write_witness:
  "\<exists>s' rec b. append_entry sample_prims (mem sample_ledger) [1] [98] = Inr (s', rec) \<and> frame OverflowError rec = Inr b \<and>
     replay_ledger sample_prims (take 5 b) = Inl (ApprovalError ''LedgerCorrupt'')"
proof -
  have "case append_entry sample_prims (mem sample_ledger) [1] [98] of Inl _ \<Rightarrow> False
      | Inr (s', rec) \<Rightarrow> (case frame OverflowError rec of Inl _ \<Rightarrow> False | Inr b \<Rightarrow> 5 < length b)"
    by code_simp
  then obtain s' rec where a1: "append_entry sample_prims (mem sample_ledger) [1] [98] = Inr (s', rec)"
    and "case frame OverflowError rec of Inl _ \<Rightarrow> False | Inr b \<Rightarrow> 5 < length b"
    by (cases "append_entry sample_prims (mem sample_ledger) [1] [98]") auto
  then obtain b where a: "append_entry sample_prims (mem sample_ledger) [1] [98] = Inr (s', rec)"
    "frame OverflowError rec = Inr b" "5 < length b"
    by (cases "frame OverflowError rec") auto
  have "replay_ledger sample_prims ([] @ take 5 b) = Inl (ApprovalError ''LedgerCorrupt'')"
    using ledger_torn_write [OF sample_ledger_opens a(1,2), of 5] a(3) by simp
  with a show ?thesis by auto
qed

text \<open>The choke point spends an approval exactly when every condition holds: the approver's signature over
  the approval verifies, the approval binds these arguments, it has not expired, its grant is a known
  effect that covers the action, and its id was not spent; it then appends one entry for that id. After it
  succeeds, no later call for the same approval succeeds on that ledger, whatever ran in between.\<close>

theorem approval_spent_once:
  assumes "open_ledger P file auth = Inr led"
    and "consume_approval P a alg pk sig cid t eff led w = Inr (led', e)"
    and "ledger_run P led' tr l"
  shows "(\<exists>m. approval_bytes a = Inr m \<and> cose_verify1_raw P alg pk m sig = Inr True \<and>
      e_approval_id e = content_id_bytes (sha384 P) m) \<and>
    approves a = cid \<and> t \<le> not_after a \<and> grant_effect a \<le> 3 \<and> eff \<le> grant_effect a \<and>
    \<not> is_consumed led (e_approval_id e) \<and>
    (\<forall>alg' pk' sig' cid' t' eff' w' y. consume_approval P a alg' pk' sig' cid' t' eff' l w' \<noteq> Inr y)"
proof -
  obtain m aid where m: "approval_bytes a = Inr m" "cose_verify1_raw P alg pk m sig = Inr True"
    and aid: "approval_record_id P a = Inr aid" "aid = content_id_bytes (sha384 P) m"
    and c: "consume P led aid w = Inr (led', e)"
    and rest: "approves a = cid" "t \<le> not_after a" "grant_effect a \<le> 3" "eff \<le> grant_effect a"
    using assms(2) by (auto simp: consume_approval_Inr verify_approval_Inr approval_record_id_def rbind_eq_Inr)
  note new = consumed_once [OF assms(1) c assms(3)]
  have no: "consume_approval P a alg' pk' sig' cid' t' eff' l w' \<noteq> Inr y" for alg' pk' sig' cid' t' eff' w' y
    using aid new(3) by (cases y) (simp add: consume_approval_Inr)
  show ?thesis
    by (intro conjI exI [of _ m] allI no) (use m aid(2) rest new(1,2) in simp_all)
qed

definition sample_approval :: approval_record where
  "sample_approval = \<lparr>approves = [1], approver = [97], grant_effect = 2, nonce = [3], not_after = 9, ap_audience = []\<rparr>"

theorem approval_spent_once_witness:
  "\<exists>sig led' e. consume_approval sample_prims sample_approval (- 49) [5] sig [1] 8 1 sample_ledger [98] = Inr (led', e) \<and>
     (\<forall>w y. consume_approval sample_prims sample_approval (- 49) [5] sig [1] 8 1 led' w \<noteq> Inr y)"
proof -
  have "case sign_approval sample_prims sample_approval (- 49) [5] of Inl _ \<Rightarrow> False | Inr sig \<Rightarrow>
      is_ok (consume_approval sample_prims sample_approval (- 49) [5] sig [1] 8 1 sample_ledger [98])"
    by code_simp
  then obtain sig led' e
    where c: "consume_approval sample_prims sample_approval (- 49) [5] sig [1] 8 1 sample_ledger [98] = Inr (led', e)"
    by (auto simp: is_ok_iff split: sum.splits)
  from approval_spent_once [OF sample_ledger_opens c ledger_run.start] c show ?thesis by blast
qed

text \<open>A refused request leaves no trace and the order of refusals is fixed: whatever the ledger holds, a
  request with a bad signature, other arguments, an expired approval or an insufficient grant is refused
  with that error before the ledger is consulted, so an expired and spent approval is ApprovalExpired.\<close>

theorem consume_approval_precedence:
  assumes "approval_bytes a = Inr m" and "cose_verify1_raw P alg pk m sig = Inr ok" and "approval_record_id P a = Inr aid"
  shows "consume_approval P a alg pk sig cid t eff led w =
    (if \<not> ok then Inl (ApprovalError ''BadSignature'')
     else if approves a \<noteq> cid then Inl (ApprovalError ''ApprovalMismatch'')
     else if t > not_after a then Inl (ApprovalError ''ApprovalExpired'')
     else if grant_effect a > 3 \<or> eff > grant_effect a then Inl (ApprovalError ''ApprovalRequired'')
     else if is_consumed led aid then Inl (ApprovalError ''AlreadyConsumed'')
     else consume P led aid w)"
  using assms by (auto simp: consume_approval_def verify_approval_def authorizes_def effect_defs consume_def
      append_entry_def is_consumed_def)

theorem consume_approval_precedence_witness:
  "\<exists>m. approval_bytes sample_approval = Inr m \<and>
     consume_approval sample_prims sample_approval (- 49) [5] ([5] @ m) [1] 10 1 sample_ledger [98]
       = Inl (ApprovalError ''ApprovalExpired'')"
proof -
  have "is_ok (approval_bytes sample_approval)"
    by code_simp
  then obtain m where m: "approval_bytes sample_approval = Inr m" by (auto simp: is_ok_iff)
  have "cose_verify1_raw sample_prims (- 49) [5] m ([5] @ m) = Inr True"
    by (simp add: cose_verify1_raw_def mldsa_verify_def mldsa_def alg_defs)
  moreover have "approval_record_id sample_prims sample_approval = Inr (content_id_bytes (sha384 sample_prims) m)"
    using m by (simp add: approval_record_id_def)
  ultimately have "consume_approval sample_prims sample_approval (- 49) [5] ([5] @ m) [1] 10 1 sample_ledger [98]
       = Inl (ApprovalError ''ApprovalExpired'')"
    using consume_approval_precedence [OF m, of sample_prims "- 49" "[5]" "[5] @ m"] by (simp add: sample_approval_def)
  with m show ?thesis by blast
qed

text \<open>The receipt minted with a winning consume is genuine: it names the ledger, the approval and the
  position of the entry just appended, and verifies under the ledger's key.\<close>

theorem minted_receipt_verifies:
  assumes "md_correct P" and "consume_with_receipt P led aid w = Inr (led', e, r, sig)"
    and "receipt_key led = Some (alg, seed)" and "md_key_derive P alg seed = Inr (pk, sk)"
  shows "verify_consume_receipt P r alg pk sig = Inr () \<and> cr_ledger r = receipt_ledger_id led \<and>
    cr_approval_id r = aid \<and> cr_position r = e_seq e \<and> e_approval_id e = aid \<and> is_consumed led' aid \<and>
    consume P led aid w = Inr (led', e)"
  using assms mldsa_sign_verify(1) [OF assms(1) _ assms(4)]
  by (auto simp: consume_with_receipt_def rbind_eq_Inr Let_def sign_consume_receipt_def verify_consume_receipt_def
      consume_Inr append_entry_Inr make_entry_def is_consumed_def split: if_splits)

theorem minted_receipt_verifies_witness:
  "\<exists>led' e r sig. consume_with_receipt sample_prims
       (sample_ledger\<lparr>authority := [], receipt_ledger_id := [3], receipt_key := Some (- 49, [5])\<rparr>) [1] [98] = Inr (led', e, r, sig) \<and>
     verify_consume_receipt sample_prims r (- 49) [5] sig = Inr ()"
proof -
  let ?l = "sample_ledger\<lparr>authority := [], receipt_ledger_id := [3], receipt_key := Some (- 49, [5])\<rparr>"
  have "is_ok (consume_with_receipt sample_prims ?l [1] [98])"
    by code_simp
  then obtain led' e r sig where c: "consume_with_receipt sample_prims ?l [1] [98] = Inr (led', e, r, sig)"
    by (auto simp: is_ok_iff)
  from minted_receipt_verifies [OF sample_prims_correct(1) c _ sample_prims_sel(4)] c show ?thesis by auto
qed

end
