(* ===== verification/Delegation.thy ===== *)
theory Delegation
  imports Rooms Ledger
begin

text \<open>
  Multi-hop delegation (\<^verbatim>\<open>impl/python/naalp/delegation.py\<close>): the grant object, its verification, the walk from the leaf
  grant to a trusted root, and the two-gate authorisation of a destructive action, which spends an approval in the
  consume ledger. The kind validator for the baseline kinds is the one of theory \<open>Rooms\<close>.
\<close>

section \<open>The grant object\<close>

definition CHANNEL_CAPABILITY :: int where "CHANNEL_CAPABILITY = 0x0002"
definition KIND_DELEGATION_GRANT :: int where "KIND_DELEGATION_GRANT = 4"
definition GRANT_TIER :: int where "GRANT_TIER = 1"
definition GRANT_EFFECT :: int where "GRANT_EFFECT = NON_IDEMPOTENT_WRITE"

record delegation_grant =
  g_subject :: pystr
  g_effect_cap :: int
  g_max_depth :: int
  g_not_before :: int
  g_not_after :: int
  g_scope :: pystr

definition grant_map :: "delegation_grant \<Rightarrow> cbor" where
  "grant_map g = M ([(U 1, T (g_subject g)), (U 2, U (g_effect_cap g)), (U 3, U (g_max_depth g)), (U 4, U (g_not_before g)),
     (U 5, U (g_not_after g))] @ (if g_scope g \<noteq> [] then [(U 6, T (g_scope g))] else []))"

definition grant_bytes :: "delegation_grant \<Rightarrow> bytes res" where
  "grant_bytes g = encode (grant_map g)"

definition grant_content_id :: "prims \<Rightarrow> delegation_grant \<Rightarrow> bytes res" where
  "grant_content_id P g = rbind (grant_bytes g) (\<lambda>b. Inr (content_id_bytes (sha384 P) b))"

definition grant_nfc :: "prims \<Rightarrow> pystr \<Rightarrow> unit res" where
  "grant_nfc P s = (case require_nfc P s of Inl e \<Rightarrow> Inl (if e = NonNFC then DelegationError ''NonNFC'' else e) | Inr u \<Rightarrow> Inr u)"

definition grant_envelope_object :: "prims \<Rightarrow> delegation_grant \<Rightarrow> bytes \<Rightarrow> int \<Rightarrow> int \<Rightarrow> bytes list \<Rightarrow> obj res" where
  "grant_envelope_object P g issuer at prof cs =
     rbind (grant_nfc P (g_subject g)) (\<lambda>_.
       rbind (if g_scope g \<noteq> [] then grant_nfc P (g_scope g) else Inr ()) (\<lambda>_.
         if g_effect_cap g > DESTRUCTIVE then Inl (DelegationError ''GrantMalformed'')
         else Inr \<lparr>obj_id = None, kind = KIND_DELEGATION_GRANT, channel = CHANNEL_CAPABILITY, tier = GRANT_TIER, signer = issuer,
           created = at, effect = GRANT_EFFECT, causes = cs, profile = prof, body = grant_map g, ext = None, cext = None,
           audience = [], suite = 0\<rparr>))"

definition sign_grant :: "prims \<Rightarrow> obj \<Rightarrow> int \<Rightarrow> bytes \<Rightarrow> (obj \<times> bytes) res" where
  "sign_grant P ob alg seed = sign P ob alg seed"

definition grant_field :: "int \<Rightarrow> cbor \<Rightarrow> bool" where
  "grant_field n v =
     (if n = 1 \<or> n = 6 then is_T v
      else if n = 2 then (case v of U c \<Rightarrow> c \<le> DESTRUCTIVE | _ \<Rightarrow> False)
      else (n = 3 \<or> n = 4 \<or> n = 5) \<and> is_U v)"

definition grant_from_body :: "cbor \<Rightarrow> delegation_grant res" where
  "grant_from_body v =
     rbind (typed_fields grant_field (DelegationError ''ChainBroken'') v) (\<lambda>m.
       case (m 1, m 2, m 3, m 4, m 5) of
         (Some (T s), Some (U c), Some (U d), Some (U nb), Some (U na)) \<Rightarrow>
           Inr \<lparr>g_subject = s, g_effect_cap = c, g_max_depth = d, g_not_before = nb, g_not_after = na,
             g_scope = (case m 6 of Some (T sc) \<Rightarrow> sc | _ \<Rightarrow> [])\<rparr>
       | _ \<Rightarrow> Inl (DelegationError ''ChainBroken''))"

definition delegation_kind_validator :: "int \<Rightarrow> int \<Rightarrow> bool" where
  "delegation_kind_validator ch k \<longleftrightarrow> ch = CHANNEL_CAPABILITY \<and> k = KIND_DELEGATION_GRANT"

definition delegation_composed_validator :: "int \<Rightarrow> int \<Rightarrow> bool" where
  "delegation_composed_validator ch k \<longleftrightarrow> baseline_kind_validator ch k \<or> delegation_kind_validator ch k"

section \<open>Verified grants\<close>

record resolved =
  rs_content_id :: bytes
  rs_issuer :: pystr
  rs_grant :: delegation_grant
  rs_causes :: "bytes list"

definition verify_grant_object :: "prims \<Rightarrow> int \<Rightarrow> int \<Rightarrow> bytes \<Rightarrow> bytes \<Rightarrow> resolved res" where
  "verify_grant_object P prof alg pubkey signed_obj =
     rbind (verify P prof alg pubkey (Some delegation_composed_validator) signed_obj []) (\<lambda>ob.
       if channel ob \<noteq> CHANNEL_CAPABILITY \<or> kind ob \<noteq> KIND_DELEGATION_GRANT \<or> tier ob \<noteq> GRANT_TIER
         then Inl (DelegationError ''ChainBroken'')
       else if effect ob \<noteq> GRANT_EFFECT then Inl (DelegationError ''ChainBroken'')
       else rbind (signer_id P alg pubkey) (\<lambda>issuer.
         rbind (utf8_encode issuer) (\<lambda>issuer_bytes.
           if signer ob \<noteq> issuer_bytes then Inl (DelegationError ''SignerMismatch'')
           else rbind (grant_from_body (body ob)) (\<lambda>g.
             case obj_id ob of
               None \<Rightarrow> Inl TypeError
             | Some i \<Rightarrow> Inr \<lparr>rs_content_id = i, rs_issuer = issuer, rs_grant = g, rs_causes = causes ob\<rparr>))))"

text \<open>A grant set is a dictionary from content ids to verified grants.\<close>

type_synonym grant_set = "(bytes \<times> resolved) list"

definition new_grant_set :: "resolved list \<Rightarrow> grant_set" where
  "new_grant_set gs = foldl (\<lambda>s g. AList.update (rs_content_id g) g s) [] gs"

definition grant_revoked_at :: "(bytes \<rightharpoonup> int) \<Rightarrow> bytes \<Rightarrow> int \<Rightarrow> bool" where
  "grant_revoked_at revocations cid now = (case revocations cid of None \<Rightarrow> False | Some p \<Rightarrow> p \<le> now)"

record delegated_action =
  ac_signer :: pystr
  ac_effect :: int
  ac_scope :: pystr
  ac_causes :: "bytes list"

definition scope_contained :: "pystr \<Rightarrow> pystr \<Rightarrow> bool" where
  "scope_contained child parent =
     (if parent = [] then True
      else if child = [] then False
      else if child = parent then True
      else take (length parent + 1) child = parent @ pystr ''/'')"

fun matching_loop :: "grant_set \<Rightarrow> pystr \<Rightarrow> bytes list \<Rightarrow> bytes list \<Rightarrow> resolved list" where
  "matching_loop grants subject seen [] = []"
| "matching_loop grants subject seen (c # cs) =
     (if c \<in> set seen then matching_loop grants subject seen cs
      else (case map_of grants c of
          None \<Rightarrow> matching_loop grants subject seen cs
        | Some r \<Rightarrow>
            if g_subject (rs_grant r) = subject then r # matching_loop grants subject (c # seen) cs
            else matching_loop grants subject seen cs))"

definition matching_causes :: "bytes list \<Rightarrow> pystr \<Rightarrow> grant_set \<Rightarrow> resolved list" where
  "matching_causes cs subject grants = matching_loop grants subject [] cs"

section \<open>The chain walk\<close>

text \<open>The checks on one grant of the walk, before its parent is resolved.\<close>

definition check_hop :: "(bytes \<rightharpoonup> int) \<Rightarrow> int \<Rightarrow> resolved \<Rightarrow> int \<Rightarrow> pystr \<Rightarrow> int \<Rightarrow> unit res" where
  "check_hop revoked now g child_effect child_scope pos =
     (if now < g_not_before (rs_grant g) then Inl (DelegationError ''GrantNotYetValid'')
      else if now > g_not_after (rs_grant g) then Inl (DelegationError ''GrantExpired'')
      else if grant_revoked_at revoked (rs_content_id g) now then Inl (DelegationError ''GrantRevoked'')
      else if \<not> authorizes (g_effect_cap (rs_grant g)) child_effect then Inl (DelegationError ''CapExceedsParent'')
      else if \<not> scope_contained child_scope (g_scope (rs_grant g)) then Inl (DelegationError ''CapExceedsParent'')
      else if pos > g_max_depth (rs_grant g) then Inl (DelegationError ''DelegationDepthExceeded'')
      else Inr ())"

text \<open>The declared depth of a parent is larger than the child's, so the walk meets every grant at most once.\<close>

definition deeper :: "grant_set \<Rightarrow> resolved \<Rightarrow> resolved set" where
  "deeper grants g = {r \<in> snd ` set grants. g_max_depth (rs_grant g) < g_max_depth (rs_grant r)}"

lemma matching_loop_grants: "set (matching_loop grants s seen cs) \<subseteq> snd ` set grants"
  by (induction grants s seen cs rule: matching_loop.induct) (auto split: option.splits dest: map_of_SomeD intro: rev_image_eqI)

lemma deeper_decreases:
  assumes "matching_causes cs s grants = [p]" and "g_max_depth (rs_grant g) < g_max_depth (rs_grant p)"
  shows "card (deeper grants p) < card (deeper grants g)"
proof (rule psubset_card_mono)
  have "p \<in> snd ` set grants" using matching_loop_grants [of grants s "[]" cs] assms(1) by (simp add: matching_causes_def)
  then show "deeper grants p \<subset> deeper grants g" using assms(2) by (auto simp: deeper_def)
qed (simp add: deeper_def)

function walk ::
    "grant_set \<Rightarrow> pystr list \<Rightarrow> (bytes \<rightharpoonup> int) \<Rightarrow> int \<Rightarrow> resolved \<Rightarrow> int \<Rightarrow> pystr \<Rightarrow> int \<Rightarrow> bytes list \<Rightarrow> unit res" where
  "walk grants anchors revoked now g child_effect child_scope pos visited =
     (if rs_content_id g \<in> set visited then Inl (DelegationError ''ChainBroken'')
      else rbind (check_hop revoked now g child_effect child_scope pos) (\<lambda>_.
        case matching_causes (rs_causes g) (rs_issuer g) grants of
          [] \<Rightarrow> if rs_issuer g \<in> set anchors then Inr () else Inl (DelegationError ''UntrustedChainRoot'')
        | [p] \<Rightarrow>
            if g_max_depth (rs_grant p) = 0 \<or> g_max_depth (rs_grant g) \<ge> g_max_depth (rs_grant p)
              then Inl (DelegationError ''DelegationDepthExceeded'')
            else walk grants anchors revoked now p (g_effect_cap (rs_grant g)) (g_scope (rs_grant g)) (pos + 1)
              (rs_content_id g # visited)
        | _ \<Rightarrow> Inl (DelegationError ''ChainBroken'')))"
  by pat_completeness auto
termination
  by (relation "measure (\<lambda>(grants, anchors, revoked, now, g, _). card (deeper grants g))") (auto intro: deeper_decreases)

declare walk.simps [simp del]

definition verify_delegation :: "delegated_action \<Rightarrow> grant_set \<Rightarrow> pystr list \<Rightarrow> (bytes \<rightharpoonup> int) \<Rightarrow> int \<Rightarrow> unit res" where
  "verify_delegation action grants anchors revoked now =
     (case matching_causes (ac_causes action) (ac_signer action) grants of
        [] \<Rightarrow> Inl (DelegationError ''EffectNotAuthorized'')
      | [g] \<Rightarrow> walk grants anchors revoked now g (ac_effect action) (ac_scope action) 0 []
      | _ \<Rightarrow> Inl (DelegationError ''ChainBroken''))"

definition authorize_destructive ::
    "prims \<Rightarrow> delegated_action \<Rightarrow> grant_set \<Rightarrow> pystr list \<Rightarrow> (bytes \<rightharpoonup> int) \<Rightarrow> int \<Rightarrow> approval_record \<Rightarrow> int \<Rightarrow> bytes \<Rightarrow> bytes \<Rightarrow>
     bytes \<Rightarrow> ledger \<Rightarrow> ledger res" where
  "authorize_destructive P action grants anchors revoked now appr alg pubkey sig args_content_id led =
     rbind (verify_delegation action grants anchors revoked now) (\<lambda>_.
       case verify_approval P appr alg pubkey sig args_content_id now of
         Inl (ApprovalError k) \<Rightarrow> Inl (DelegationError ''ApprovalRequired'')
       | Inl e \<Rightarrow> Inl e
       | Inr _ \<Rightarrow>
           if \<not> authorizes (grant_effect appr) (ac_effect action) then Inl (DelegationError ''ApprovalRequired'')
           else (case rbind (approval_record_id P appr) (\<lambda>aid. consume P led aid (ac_signer action)) of
               Inl (ApprovalError k) \<Rightarrow> Inl (DelegationError k)
             | Inl e \<Rightarrow> Inl e
             | Inr (led', _) \<Rightarrow> Inr led'))"

section \<open>What the walk decides\<close>

text \<open>The grants among the causes that name a subject, by content id.\<close>

definition matches :: "grant_set \<Rightarrow> bytes list \<Rightarrow> pystr \<Rightarrow> bytes set" where
  "matches grants cs s = {c \<in> set cs. \<exists>r. map_of grants c = Some r \<and> g_subject (rs_grant r) = s}"

lemma matches_simps [simp]:
  "matches grants [] s = {}"
  "matches grants (c # cs) s =
     (if \<exists>r. map_of grants c = Some r \<and> g_subject (rs_grant r) = s then insert c (matches grants cs s) else matches grants cs s)"
  by (auto simp: matches_def)

lemma matching_loop_ids:
  "\<exists>cs'. distinct cs' \<and> set cs' = matches grants cs s - set seen \<and>
     map (map_of grants) cs' = map Some (matching_loop grants s seen cs)"
proof (induction cs arbitrary: seen)
  case (Cons c cs)
  show ?case
  proof (cases "c \<notin> set seen \<and> (\<exists>r. map_of grants c = Some r \<and> g_subject (rs_grant r) = s)")
    case True
    then obtain r where r: "map_of grants c = Some r" "g_subject (rs_grant r) = s" by blast
    obtain cs' where cs': "distinct cs'" "set cs' = matches grants cs s - set (c # seen)"
      "map (map_of grants) cs' = map Some (matching_loop grants s (c # seen) cs)" using Cons.IH [of "c # seen"] by blast
    then show ?thesis using True r by (intro exI [of _ "c # cs'"]) auto
  next
    case False
    have l: "matching_loop grants s seen (c # cs) = matching_loop grants s seen cs"
      using False by (auto split: option.split)
    have "matches grants (c # cs) s - set seen = matches grants cs s - set seen" using False by auto
    then show ?thesis unfolding l using Cons.IH [of seen] by simp
  qed
qed simp

lemma matching_none: "matching_causes cs s grants = [] \<longleftrightarrow> matches grants cs s = {}"
  using matching_loop_ids [of grants cs s "[]"] by (auto simp: matching_causes_def)

text \<open>\<open>sole grants cs s g\<close>: exactly one content id in the causes names a grant to \<open>s\<close>, and that grant is \<open>g\<close>.\<close>

definition sole :: "grant_set \<Rightarrow> bytes list \<Rightarrow> pystr \<Rightarrow> resolved \<Rightarrow> bool" where
  "sole grants cs s g \<longleftrightarrow> (\<exists>c. matches grants cs s = {c} \<and> map_of grants c = Some g)"

lemma matching_sole: "matching_causes cs s grants = [g] \<longleftrightarrow> sole grants cs s g"
proof -
  obtain cs' where cs': "distinct cs'" "set cs' = matches grants cs s" "map (map_of grants) cs' = map Some (matching_causes cs s grants)"
    using matching_loop_ids [of grants cs s "[]"] by (auto simp: matching_causes_def)
  show ?thesis
  proof
    assume "matching_causes cs s grants = [g]"
    then obtain c where "cs' = [c]" "map_of grants c = Some g" using cs'(3) by auto
    then show "sole grants cs s g" using cs'(2) by (auto simp: sole_def)
  next
    assume "sole grants cs s g"
    then obtain c where c: "set cs' = {c}" "map_of grants c = Some g" using cs'(2) by (auto simp: sole_def)
    then have "cs' = [c]" using cs'(1) by (cases cs') (auto simp: subset_singleton_iff)
    then show "matching_causes cs s grants = [g]" using cs'(3) c(2) by auto
  qed
qed

definition hop_ok :: "(bytes \<rightharpoonup> int) \<Rightarrow> int \<Rightarrow> resolved \<Rightarrow> int \<Rightarrow> pystr \<Rightarrow> int \<Rightarrow> bool" where
  "hop_ok revoked now g eff sc pos \<longleftrightarrow>
     g_not_before (rs_grant g) \<le> now \<and> now \<le> g_not_after (rs_grant g) \<and> \<not> grant_revoked_at revoked (rs_content_id g) now \<and>
     eff \<le> g_effect_cap (rs_grant g) \<and> scope_contained sc (g_scope (rs_grant g)) \<and> pos \<le> g_max_depth (rs_grant g)"

lemma check_hop_Inr: "check_hop revoked now g eff sc pos = Inr u \<longleftrightarrow> hop_ok revoked now g eff sc pos"
  by (auto simp: check_hop_def hop_ok_def authorizes_def)

text \<open>A chain of grants from one that authorises the given effect and scope to a trusted root.\<close>

inductive delegation_chain :: "grant_set \<Rightarrow> pystr list \<Rightarrow> (bytes \<rightharpoonup> int) \<Rightarrow> int \<Rightarrow> int \<Rightarrow> pystr \<Rightarrow> int \<Rightarrow> resolved list \<Rightarrow> bool"
  for grants anchors revoked now where
  root: "hop_ok revoked now g eff sc pos \<Longrightarrow> matches grants (rs_causes g) (rs_issuer g) = {} \<Longrightarrow> rs_issuer g \<in> set anchors \<Longrightarrow>
    delegation_chain grants anchors revoked now eff sc pos [g]"
| hop: "hop_ok revoked now g eff sc pos \<Longrightarrow> sole grants (rs_causes g) (rs_issuer g) p \<Longrightarrow>
    g_max_depth (rs_grant p) \<noteq> 0 \<Longrightarrow> g_max_depth (rs_grant g) < g_max_depth (rs_grant p) \<Longrightarrow>
    delegation_chain grants anchors revoked now (g_effect_cap (rs_grant g)) (g_scope (rs_grant g)) (pos + 1) (p # gs) \<Longrightarrow>
    delegation_chain grants anchors revoked now eff sc pos (g # p # gs)"

inductive_simps delegation_chain_single: "delegation_chain grants anchors revoked now eff sc pos [g]"
inductive_simps delegation_chain_Cons: "delegation_chain grants anchors revoked now eff sc pos (g # p # gs)"

lemma ex_list_cases: "(\<exists>xs. Q xs) \<longleftrightarrow> Q [] \<or> (\<exists>x xs. Q (x # xs))"
  by (metis list.exhaust)

lemma walk_iff:
  "walk grants anchors revoked now g eff sc pos visited = Inr () \<longleftrightarrow>
     (\<exists>gs. delegation_chain grants anchors revoked now eff sc pos (g # gs) \<and> distinct (map rs_content_id (g # gs)) \<and>
        set (map rs_content_id (g # gs)) \<inter> set visited = {})"
proof (induction grants anchors revoked now g eff sc pos visited rule: walk.induct)
  case (1 grants anchors revoked now g eff sc pos visited)
  note IH = this
  let ?m = "matching_causes (rs_causes g) (rs_issuer g) grants"
  note chain = delegation_chain_single delegation_chain_Cons matching_none [symmetric] matching_sole [symmetric]
  consider "?m = []" | p where "?m = [p]" | p q ms where "?m = p # q # ms" by (cases ?m; cases "tl ?m") auto
  then show ?case
  proof cases
    case 1
    show ?thesis
      unfolding ex_list_cases [of "\<lambda>gs. delegation_chain grants anchors revoked now eff sc pos (g # gs) \<and> _ gs"] chain 1
      by (subst walk.simps) (auto simp: 1 rbind_eq_Inr check_hop_Inr)
  next
    case (2 p)
    have "walk grants anchors revoked now g eff sc pos visited = Inr () \<longleftrightarrow>
        rs_content_id g \<notin> set visited \<and> hop_ok revoked now g eff sc pos \<and> g_max_depth (rs_grant p) \<noteq> 0 \<and>
        g_max_depth (rs_grant g) < g_max_depth (rs_grant p) \<and>
        walk grants anchors revoked now p (g_effect_cap (rs_grant g)) (g_scope (rs_grant g)) (pos + 1) (rs_content_id g # visited) = Inr ()"
      by (subst walk.simps) (auto simp: 2 rbind_eq_Inr check_hop_Inr)
    moreover have "walk grants anchors revoked now p (g_effect_cap (rs_grant g)) (g_scope (rs_grant g)) (pos + 1) (rs_content_id g # visited) = Inr () \<longleftrightarrow>
        (\<exists>gs. delegation_chain grants anchors revoked now (g_effect_cap (rs_grant g)) (g_scope (rs_grant g)) (pos + 1) (p # gs) \<and>
          distinct (map rs_content_id (p # gs)) \<and> set (map rs_content_id (p # gs)) \<inter> set (rs_content_id g # visited) = {})"
      if "rs_content_id g \<notin> set visited" "hop_ok revoked now g eff sc pos" "g_max_depth (rs_grant p) \<noteq> 0" "g_max_depth (rs_grant g) < g_max_depth (rs_grant p)"
      using IH [OF that(1) iffD2 [OF check_hop_Inr that(2)] 2 refl] that by (simp add: not_le)
    ultimately show ?thesis
      unfolding ex_list_cases [of "\<lambda>gs. delegation_chain grants anchors revoked now eff sc pos (g # gs) \<and> _ gs"] chain 2
      by auto
  next
    case (3 p q ms)
    show ?thesis
      unfolding ex_list_cases [of "\<lambda>gs. delegation_chain grants anchors revoked now eff sc pos (g # gs) \<and> _ gs"] chain 3
      by (subst walk.simps) (auto simp: 3 rbind_eq_Inr)
  qed
qed

section \<open>Attenuation\<close>

lemma scope_contained_iff:
  "scope_contained child parent \<longleftrightarrow> parent = [] \<or> child = parent \<or> take (length parent + 1) child = parent @ pystr ''/''"
  by (auto simp: scope_contained_def pystr_def)

lemma scope_contained_trans:
  assumes "scope_contained a b" and "scope_contained b c"
  shows "scope_contained a c"
proof (cases "c = [] \<or> a = b \<or> b = c")
  case False
  then have bc: "take (length c + 1) b = c @ pystr ''/''" using assms(2) by (simp add: scope_contained_iff)
  have b: "length c + 1 \<le> length b" using arg_cong [OF bc, of length] by (simp add: pystr_def min_def split: if_splits)
  then have "b \<noteq> []" by auto
  then have ab: "take (length b + 1) a = b @ pystr ''/''" using assms(1) False by (simp add: scope_contained_iff)
  have "take (length c + 1) a = take (length c + 1) (take (length b + 1) a)" using b by (simp add: min_def)
  also have "\<dots> = c @ pystr ''/''" using ab bc b by simp
  finally show ?thesis by (simp add: scope_contained_iff)
qed (use assms in \<open>auto simp: scope_contained_iff\<close>)

lemma chain_attenuates:
  "delegation_chain grants anchors revoked now eff sc pos gs \<Longrightarrow> gs \<noteq> [] \<and>
     (\<forall>g \<in> set gs. eff \<le> g_effect_cap (rs_grant g) \<and> scope_contained sc (g_scope (rs_grant g)) \<and>
        g_not_before (rs_grant g) \<le> now \<and> now \<le> g_not_after (rs_grant g) \<and> \<not> grant_revoked_at revoked (rs_content_id g) now) \<and>
     rs_issuer (last gs) \<in> set anchors \<and> pos + int (length gs) - 1 \<le> g_max_depth (rs_grant (last gs))"
proof (induction rule: delegation_chain.induct)
  case (hop g eff sc pos p gs)
  then show ?case using scope_contained_trans [of sc "g_scope (rs_grant g)"] by (fastforce simp: hop_ok_def)
qed (auto simp: hop_ok_def)

lemma sole_grant:
  assumes "sole grants cs s g"
  shows "g \<in> snd ` set grants" and "g_subject (rs_grant g) = s" and "\<exists>c \<in> set cs. map_of grants c = Some g"
proof -
  obtain c where c: "matches grants cs s = {c}" "map_of grants c = Some g" using assms by (auto simp: sole_def)
  then have m: "c \<in> matches grants cs s" by simp
  then show "g_subject (rs_grant g) = s" using c(2) by (simp add: matches_def)
  show "g \<in> snd ` set grants" using map_of_SomeD [OF c(2)] by force
  show "\<exists>c \<in> set cs. map_of grants c = Some g" using m c(2) by (auto simp: matches_def)
qed

text \<open>The parent of a grant on the chain: named by one of its causes and granted to its issuer.\<close>

lemma chain_links:
  "delegation_chain grants anchors revoked now eff sc pos gs \<Longrightarrow> set (tl gs) \<subseteq> snd ` set grants \<and>
     (\<forall>i. Suc i < length gs \<longrightarrow> g_subject (rs_grant (gs ! Suc i)) = rs_issuer (gs ! i) \<and>
        (\<exists>c \<in> set (rs_causes (gs ! i)). map_of grants c = Some (gs ! Suc i)))"
proof (induction rule: delegation_chain.induct)
  case (hop g eff sc pos p gs)
  have "g_subject (rs_grant ((g # p # gs) ! Suc i)) = rs_issuer ((g # p # gs) ! i) \<and>
      (\<exists>c \<in> set (rs_causes ((g # p # gs) ! i)). map_of grants c = Some ((g # p # gs) ! Suc i))"
    if "Suc i < length (g # p # gs)" for i
    using that hop.IH sole_grant(2,3) [OF hop.hyps(2)] by (cases i) auto
  then show ?case using hop.IH sole_grant(1) [OF hop.hyps(2)] by simp
qed simp

text \<open>Along the chain the authority only grows towards the root: cap, scope and remaining depth.\<close>

definition attenuates :: "resolved \<Rightarrow> resolved \<Rightarrow> bool" where
  "attenuates child parent \<longleftrightarrow> g_effect_cap (rs_grant child) \<le> g_effect_cap (rs_grant parent) \<and>
     scope_contained (g_scope (rs_grant child)) (g_scope (rs_grant parent)) \<and>
     g_max_depth (rs_grant child) < g_max_depth (rs_grant parent)"

lemma chain_sorted:
  "delegation_chain grants anchors revoked now eff sc pos gs \<Longrightarrow> sorted_wrt attenuates gs"
proof (induction rule: delegation_chain.induct)
  case (hop g eff sc pos p gs)
  have "attenuates g r" if "r \<in> set (p # gs)" for r
    using that chain_attenuates [OF hop.hyps(5)] hop.hyps(4) hop.IH by (auto simp: attenuates_def)
  then show ?case using hop.IH by simp
qed simp

lemma chain_depth:
  "delegation_chain grants anchors revoked now eff sc pos gs \<Longrightarrow>
     i < length gs \<Longrightarrow> pos + int i \<le> g_max_depth (rs_grant (gs ! i))"
proof (induction arbitrary: i rule: delegation_chain.induct)
  case (hop g eff sc pos p gs)
  show ?case
  proof (cases i)
    case (Suc j)
    then show ?thesis using hop.IH [of j] hop.prems by simp
  qed (use hop.hyps(1) in \<open>simp add: hop_ok_def\<close>)
qed (simp add: hop_ok_def)

lemma verify_delegation_iff:
  "verify_delegation action grants anchors revoked now = Inr () \<longleftrightarrow>
     (\<exists>g gs. sole grants (ac_causes action) (ac_signer action) g \<and>
        delegation_chain grants anchors revoked now (ac_effect action) (ac_scope action) 0 (g # gs) \<and> distinct (map rs_content_id (g # gs)))"
proof -
  have "verify_delegation action grants anchors revoked now = Inr () \<longleftrightarrow>
      (\<exists>g. matching_causes (ac_causes action) (ac_signer action) grants = [g] \<and>
        walk grants anchors revoked now g (ac_effect action) (ac_scope action) 0 [] = Inr ())"
    by (auto simp: verify_delegation_def split: list.splits)
  then show ?thesis by (simp add: matching_sole walk_iff)
qed

section \<open>The signed grant\<close>

lemma grant_from_map:
  assumes "g_effect_cap g \<le> DESTRUCTIVE"
  shows "grant_from_body (grant_map g) = Inr g"
proof -
  let ?f = "\<lambda>n. [T (g_subject g), U (g_effect_cap g), U (g_max_depth g), U (g_not_before g), U (g_not_after g), T (g_scope g)] ! nat (n - 1)"
  let ?ns = "[1, 2, 3, 4, 5] @ (if g_scope g \<noteq> [] then [6] else [])"
  have k: "field_keys ?ns" "\<forall>n \<in> set ?ns. grant_field n (?f n)" using assms by (auto simp: field_keys_def grant_field_def)
  note r = typed_fields_body [of ?ns grant_field ?f "DelegationError ''ChainBroken''", OF k]
  have "grant_map g = body_of ?f ?ns" by (simp add: grant_map_def)
  then show ?thesis using r by (cases g) (auto simp: grant_from_body_def simp del: body_of_simps split: if_splits)
qed

lemma canon_grant [simp]: "canon (grant_map g) = grant_map g"
  unfolding grant_map_def by (rule canon_asc) (auto simp: asc_keys_def small_key_def key_int_def)

lemma grant_object_acceptable:
  assumes "grant_envelope_object P g issuer at prof cs = Inr ob" and "1 \<le> prof" and "prof \<le> 3" and "length cs \<le> MAX_CAUSES"
  shows "acceptable (Some delegation_composed_validator) [] ob" and "suite ob = 0"
proof -
  have ob: "ob = \<lparr>obj_id = None, kind = KIND_DELEGATION_GRANT, channel = CHANNEL_CAPABILITY, tier = GRANT_TIER, signer = issuer,
      created = at, effect = GRANT_EFFECT, causes = cs, profile = prof, body = grant_map g, ext = None, cext = None, audience = [], suite = 0\<rparr>"
    using assms(1) by (simp add: grant_envelope_object_def rbind_eq_Inr split: if_splits)
  show "suite ob = 0" by (simp add: ob)
  have "nesting (grant_map g) \<le> 2" unfolding grant_map_def nesting_M_le by auto
  then show "acceptable (Some delegation_composed_validator) [] ob"
    using assms(2-4)
    by (intro acceptable_plain) (simp_all add: ob delegation_composed_validator_def delegation_kind_validator_def CHANNEL_CAPABILITY_def
        KIND_DELEGATION_GRANT_def is_rotation_object_def GRANT_EFFECT_def effect_defs)
qed

lemma verify_grant_signed:
  assumes "md_correct P" and "md_key_derive P alg seed = Inr (pk, sk)" and "signer_id P alg pk = Inr issuer" and "utf8_encode issuer = Inr sgnr"
    and "grant_envelope_object P g sgnr at prof cs = Inr ob" and "sign_grant P ob alg seed = Inr (o1, bs)"
    and "length bs \<le> MAX_OBJECT_SIZE" and "length cs \<le> MAX_CAUSES" and "1 \<le> prof" and "prof \<le> 3"
    and "profile_min_level vp \<le> fst (alg_level alg)"
  shows "\<exists>i. obj_id o1 = Some i \<and> object_content_id P ob = Inr i \<and>
    verify_grant_object P vp alg pk bs = Inr \<lparr>rs_content_id = i, rs_issuer = issuer, rs_grant = g, rs_causes = cs\<rparr>"
proof -
  have ob: "ob = \<lparr>obj_id = None, kind = KIND_DELEGATION_GRANT, channel = CHANNEL_CAPABILITY, tier = GRANT_TIER, signer = sgnr,
      created = at, effect = GRANT_EFFECT, causes = cs, profile = prof, body = grant_map g, ext = None, cext = None, audience = [], suite = 0\<rparr>"
    and cap: "g_effect_cap g \<le> DESTRUCTIVE"
    using assms(5) by (simp_all add: grant_envelope_object_def rbind_eq_Inr split: if_splits)
  note acc = grant_object_acceptable [OF assms(5,9,10,8)]
  have s: "sign P ob alg seed = Inr (o1, bs)" using assms(6) by (simp add: sign_grant_def)
  then obtain i where i: "o1 = ob\<lparr>obj_id := Some i\<rparr>" "object_content_id P ob = Inr i"
    by (auto simp: sign_def assign_id_def rbind_eq_Inr Let_def)
  note v = sign_verify [OF assms(1) s assms(2,7) acc assms(11), where va = alg]
  show ?thesis
    using i v assms(3,4) grant_from_map [OF cap] by (simp add: verify_grant_object_def ob canon_obj_def)
qed

section \<open>A sample chain\<close>

definition sample_root :: resolved where
  "sample_root = \<lparr>rs_content_id = [1], rs_issuer = [65], rs_grant = \<lparr>g_subject = [98], g_effect_cap = 3, g_max_depth = 1,
     g_not_before = 0, g_not_after = 9, g_scope = pystr ''a''\<rparr>, rs_causes = []\<rparr>"

definition sample_leaf :: resolved where
  "sample_leaf = \<lparr>rs_content_id = [2], rs_issuer = [98], rs_grant = \<lparr>g_subject = [99], g_effect_cap = 3, g_max_depth = 0,
     g_not_before = 0, g_not_after = 9, g_scope = pystr ''a/b''\<rparr>, rs_causes = [[1], [7], [1]]\<rparr>"

definition sample_action :: delegated_action where
  "sample_action = \<lparr>ac_signer = [99], ac_effect = 2, ac_scope = pystr ''a/b/c'', ac_causes = [[2]]\<rparr>"

lemma sample_delegation:
  "verify_delegation sample_action (new_grant_set [sample_root, sample_leaf]) [[65]] (Map.empty) 8 = Inr ()"
  by code_simp

section \<open>Properties of delegation\<close>

text \<open>C11: The chain verifier decides exactly this: one grant among the action's causes names the acting agent, and from it a
  chain of grants leads to a root. Every grant on it is inside its validity window, not revoked, covers the effect and
  the scope below it and the depth beneath it; its parent is the one grant among its causes that names its issuer and
  declares a larger depth; the root has no such parent and its issuer is a trust anchor; no content id repeats.\<close>

theorem verify_delegation_exact:
  "verify_delegation action grants anchors revoked now = Inr () \<longleftrightarrow>
     (\<exists>g gs. sole grants (ac_causes action) (ac_signer action) g \<and>
        delegation_chain grants anchors revoked now (ac_effect action) (ac_scope action) 0 (g # gs) \<and> distinct (map rs_content_id (g # gs)))"
  by (rule verify_delegation_iff)

text \<open>C3: Delegated authority never widens along a chain and reaches a trust anchor. When the verifier accepts, there is a
  chain of grants of the set, from one the action's causes name and that is granted to the actor, to one issued by an
  anchor, each naming the next among its causes and issued by the next one's subject. Along it every grant is covered
  by every grant above it: its effect cap is no larger, its scope lies inside, its declared depth is smaller, so a
  delegate never passes on more than it was given. The action's effect and scope lie inside the first grant and so
  inside all of them; each grant is valid and unrevoked at the action's position and allows the hops beneath it.\<close>

theorem delegation_attenuates:
  assumes "verify_delegation action grants anchors revoked now = Inr ()"
  shows "\<exists>gs. gs \<noteq> [] \<and> distinct gs \<and> set gs \<subseteq> snd ` set grants \<and> length gs \<le> length grants \<and>
    (\<exists>c \<in> set (ac_causes action). map_of grants c = Some (hd gs)) \<and>
    g_subject (rs_grant (hd gs)) = ac_signer action \<and> rs_issuer (last gs) \<in> set anchors \<and>
    (\<forall>i. Suc i < length gs \<longrightarrow> g_subject (rs_grant (gs ! Suc i)) = rs_issuer (gs ! i) \<and>
       (\<exists>c \<in> set (rs_causes (gs ! i)). map_of grants c = Some (gs ! Suc i))) \<and>
    sorted_wrt (\<lambda>child parent. g_effect_cap (rs_grant child) \<le> g_effect_cap (rs_grant parent) \<and>
       scope_contained (g_scope (rs_grant child)) (g_scope (rs_grant parent)) \<and>
       g_max_depth (rs_grant child) < g_max_depth (rs_grant parent)) gs \<and>
    (\<forall>g \<in> set gs. ac_effect action \<le> g_effect_cap (rs_grant g) \<and> scope_contained (ac_scope action) (g_scope (rs_grant g)) \<and>
       g_not_before (rs_grant g) \<le> now \<and> now \<le> g_not_after (rs_grant g) \<and> \<not> grant_revoked_at revoked (rs_content_id g) now) \<and>
    (\<forall>i < length gs. int i \<le> g_max_depth (rs_grant (gs ! i)))"
proof -
  obtain g gs where s: "sole grants (ac_causes action) (ac_signer action) g"
    and c: "delegation_chain grants anchors revoked now (ac_effect action) (ac_scope action) 0 (g # gs)"
    and d: "distinct (map rs_content_id (g # gs))"
    using assms verify_delegation_iff by blast
  have sub: "set (g # gs) \<subseteq> snd ` set grants" using chain_links [OF c] sole_grant(1) [OF s] by simp
  have dg: "distinct (g # gs)" using d unfolding distinct_map by blast
  have "length (g # gs) = card (set (g # gs))" using distinct_card [OF dg] by simp
  also have "\<dots> \<le> length grants" using card_mono [OF _ sub] card_image_le [of "set grants" snd] card_length [of grants] by simp
  finally have len: "length (g # gs) \<le> length grants" .
  have "\<forall>i < length (g # gs). int i \<le> g_max_depth (rs_grant ((g # gs) ! i))" using chain_depth [OF c] by force
  then show ?thesis
    using len chain_attenuates [OF c] chain_links [OF c] chain_sorted [OF c, unfolded attenuates_def] sole_grant(2,3) [OF s] sub dg
    by (intro exI [of _ "g # gs"] conjI) simp_all
qed

theorem delegation_attenuates_witness:
  "\<exists>gs :: resolved list. gs \<noteq> [] \<and> distinct gs \<and> length gs \<le> length (new_grant_set [sample_root, sample_leaf]) \<and>
     g_subject (rs_grant (hd gs)) = ac_signer sample_action \<and> rs_issuer (last gs) \<in> set [[65]] \<and>
     sorted_wrt (\<lambda>child parent. g_effect_cap (rs_grant child) \<le> g_effect_cap (rs_grant parent) \<and>
       scope_contained (g_scope (rs_grant child)) (g_scope (rs_grant parent)) \<and>
       g_max_depth (rs_grant child) < g_max_depth (rs_grant parent)) gs"
  using delegation_attenuates [OF sample_delegation] by (elim exE conjE) (intro exI conjI)

text \<open>A grant survives signing and verification: the object the SDK builds for a grant and signs with a key verifies, under
  that key, to the very same grant with its parents, its issuer is the id that derives from the key, and it is indexed by
  the content id of the signed object, the id a child names in its causes.\<close>

theorem signed_grant_resolves:
  assumes "md_correct P" and "md_key_derive P alg seed = Inr (pk, sk)" and "signer_id P alg pk = Inr issuer" and "utf8_encode issuer = Inr sgnr"
    and "grant_envelope_object P g sgnr at prof cs = Inr ob" and "sign_grant P ob alg seed = Inr (o1, bs)"
    and "length bs \<le> MAX_OBJECT_SIZE" and "length cs \<le> MAX_CAUSES" and "1 \<le> prof" and "prof \<le> 3"
    and "profile_min_level vp \<le> fst (alg_level alg)"
  shows "\<exists>i. obj_id o1 = Some i \<and> object_content_id P ob = Inr i \<and>
    verify_grant_object P vp alg pk bs = Inr \<lparr>rs_content_id = i, rs_issuer = issuer, rs_grant = g, rs_causes = cs\<rparr>"
  using assms by (rule verify_grant_signed)

theorem signed_grant_resolves_witness:
  "\<exists>ob o1 bs i. grant_envelope_object sample_prims (rs_grant sample_leaf) sample_actor 3 1 [[1]] = Inr ob \<and>
     sign_grant sample_prims ob (- 49) [7] = Inr (o1, bs) \<and>
     verify_grant_object sample_prims 1 (- 49) [7] bs =
       Inr \<lparr>rs_content_id = i, rs_issuer = pystr ''bcibzcjah'', rs_grant = rs_grant sample_leaf, rs_causes = [[1]]\<rparr>"
proof -
  have "case rbind (grant_envelope_object sample_prims (rs_grant sample_leaf) sample_actor 3 1 [[1]]) (\<lambda>ob. sign_grant sample_prims ob (- 49) [7]) of
      Inl _ \<Rightarrow> False | Inr (o1, bs) \<Rightarrow> length bs \<le> 300"
    by code_simp
  then obtain ob o1 bs where ob: "grant_envelope_object sample_prims (rs_grant sample_leaf) sample_actor 3 1 [[1]] = Inr ob"
    "sign_grant sample_prims ob (- 49) [7] = Inr (o1, bs)" and len: "length bs \<le> MAX_OBJECT_SIZE"
    by (auto simp: MAX_OBJECT_SIZE_def rbind_def split: sum.splits)
  have enc: "utf8_encode (pystr ''bcibzcjah'') = Inr sample_actor" by code_simp
  from signed_grant_resolves [OF sample_prims_correct(1) sample_prims_sel(4) sample_ids(1) enc ob len _ _ _ sample_level(1)]
  obtain i where "verify_grant_object sample_prims 1 (- 49) [7] bs =
       Inr \<lparr>rs_content_id = i, rs_issuer = pystr ''bcibzcjah'', rs_grant = rs_grant sample_leaf, rs_causes = [[1]]\<rparr>"
    by (auto simp: MAX_CAUSES_def)
  with ob show ?thesis by blast
qed

text \<open>C12: A destructive action passes both gates or changes nothing. It is authorised exactly when its delegation chain
  verifies, an approval for these arguments verifies and covers its effect, and the ledger accepts the approval's first
  use, in the actor's name; the approval is then spent, and no action passes with it again, whatever the ledger did in
  between.\<close>

theorem destructive_needs_both_gates:
  assumes "open_ledger P file auth = Inr led"
    and "authorize_destructive P action grants anchors revoked now appr alg pk sig cid led = Inr led'"
    and "ledger_run P led' tr l"
  shows "verify_delegation action grants anchors revoked now = Inr () \<and>
    (\<exists>m. approval_bytes appr = Inr m \<and> cose_verify1_raw P alg pk m sig = Inr True \<and>
       \<not> is_consumed led (content_id_bytes (sha384 P) m) \<and> is_consumed led' (content_id_bytes (sha384 P) m)) \<and>
    approves appr = cid \<and> now \<le> not_after appr \<and> ac_effect action \<le> grant_effect appr \<and>
    (\<forall>action' grants' anchors' revoked' now' alg' pk' sig' cid' y.
       authorize_destructive P action' grants' anchors' revoked' now' appr alg' pk' sig' cid' l \<noteq> Inr y)"
proof -
  obtain aid e where v: "verify_delegation action grants anchors revoked now = Inr ()"
      "verify_approval P appr alg pk sig cid now = Inr ()" "ac_effect action \<le> grant_effect appr"
    and aid: "approval_record_id P appr = Inr aid" and c: "consume P led aid (ac_signer action) = Inr (led', e)"
    using assms(2) by (auto simp: authorize_destructive_def rbind_eq_Inr authorizes_def split: sum.splits exn.splits if_splits)
  obtain m where m: "approval_bytes appr = Inr m" "aid = content_id_bytes (sha384 P) m"
    using aid by (auto simp: approval_record_id_def rbind_eq_Inr)
  note new = consumed_once [OF assms(1) c assms(3)]
  have "authorize_destructive P action' grants' anchors' revoked' now' appr alg' pk' sig' cid' l \<noteq> Inr y"
    for action' grants' anchors' revoked' now' alg' pk' sig' cid' y
    using new(3) aid by (auto simp: authorize_destructive_def rbind_eq_Inr split: sum.splits exn.splits if_splits)
  then show ?thesis using v m new(2,4) by (auto simp: verify_approval_Inr)
qed

theorem destructive_needs_both_gates_witness:
  "\<exists>sig led'. authorize_destructive sample_prims sample_action (new_grant_set [sample_root, sample_leaf]) [[65]] Map.empty 8
       sample_approval (- 49) [5] sig [1] sample_ledger = Inr led' \<and>
     (\<forall>y. authorize_destructive sample_prims sample_action (new_grant_set [sample_root, sample_leaf]) [[65]] Map.empty 8
       sample_approval (- 49) [5] sig [1] led' \<noteq> Inr y)"
proof -
  have "case sign_approval sample_prims sample_approval (- 49) [5] of Inl _ \<Rightarrow> False | Inr sig \<Rightarrow>
      is_ok (authorize_destructive sample_prims sample_action (new_grant_set [sample_root, sample_leaf]) [[65]] Map.empty 8
        sample_approval (- 49) [5] sig [1] sample_ledger)"
    by code_simp
  then obtain sig led' where c: "authorize_destructive sample_prims sample_action (new_grant_set [sample_root, sample_leaf]) [[65]]
      Map.empty 8 sample_approval (- 49) [5] sig [1] sample_ledger = Inr led'"
    by (auto simp: is_ok_iff split: sum.splits)
  from destructive_needs_both_gates [OF sample_ledger_opens c ledger_run.start] c show ?thesis
    by (intro exI [of _ sig] exI [of _ led'] conjI allI) simp_all
qed

end
