(* ===== verification/Signed.thy ===== *)
theory Signed
  imports Cose Bodies Chain
begin

text \<open>
  The signed bodies of the extension modules (\<^verbatim>\<open>naming.py\<close>, \<^verbatim>\<open>negotiation.py\<close>, \<^verbatim>\<open>payment.py\<close>,
  \<^verbatim>\<open>continuation.py\<close>, \<^verbatim>\<open>description.py\<close>): each module has its own copies of the same helpers, which read a field
  of a decoded map by its key, sign a body under the bare \<^verbatim>\<open>{1: alg}\<close> header, and verify such an object. They
  stand here once, with the module's exception as an argument. Two interfaces carry the clients' proofs:
  a body whose parser inverts it (\<open>signed_body\<close>), and a hash chain with sequence numbers and a detector of
  omissions (\<open>gap_detector\<close>).
\<close>

section \<open>Reading a field\<close>

definition map_field :: "(cbor \<times> cbor) list \<Rightarrow> int \<Rightarrow> cbor option" where
  "map_field m k = map_option snd (find (\<lambda>p. fst p = U k) m)"

definition bstr_field :: "(cbor \<times> cbor) list \<Rightarrow> int \<Rightarrow> bytes option" where
  "bstr_field m k = (case map_field m k of Some (B b) \<Rightarrow> Some b | _ \<Rightarrow> None)"

definition tstr_field :: "(cbor \<times> cbor) list \<Rightarrow> int \<Rightarrow> pystr option" where
  "tstr_field m k = (case map_field m k of Some (T t) \<Rightarrow> Some t | _ \<Rightarrow> None)"

definition uint_field :: "(cbor \<times> cbor) list \<Rightarrow> int \<Rightarrow> int option" where
  "uint_field m k = (case map_field m k of Some (U n) \<Rightarrow> Some n | _ \<Rightarrow> None)"

lemmas map_read_defs = map_field_def bstr_field_def tstr_field_def uint_field_def

text \<open>An array whose items must all be byte strings, and one whose items are read by \<open>f\<close>.\<close>

fun read_items :: "(cbor \<Rightarrow> 'a res) \<Rightarrow> cbor list \<Rightarrow> 'a list res" where
  "read_items f [] = Inr []"
| "read_items f (i # is) = rbind (f i) (\<lambda>x. rbind (read_items f is) (\<lambda>xs. Inr (x # xs)))"

definition read_bstr :: "exn \<Rightarrow> cbor \<Rightarrow> bytes res" where
  "read_bstr e v = (case v of B b \<Rightarrow> Inr b | _ \<Rightarrow> Inl e)"

lemma read_items_map: "(\<And>x. x \<in> set xs \<Longrightarrow> f (g x) = Inr x) \<Longrightarrow> read_items f (map g xs) = Inr xs"
  by (induction xs) auto

lemma read_bstrs_map [simp]: "read_items (read_bstr e) (map B bs) = Inr bs"
  by (rule read_items_map) (simp add: read_bstr_def)

text \<open>Strict decoding to a map; \<^verbatim>\<open>except cbor.NonCanonical\<close> turns only that error into the module's own.\<close>

definition decode_map :: "exn \<Rightarrow> bytes \<Rightarrow> (cbor \<times> cbor) list res" where
  "decode_map e b =
     (case decode b of
        Inl x \<Rightarrow> Inl (if x = NonCanonical then e else x)
      | Inr (M ps) \<Rightarrow> Inr ps
      | Inr _ \<Rightarrow> Inl e)"

lemma decode_map_Inr [res_simps]: "decode_map e b = Inr ps \<longleftrightarrow> decode b = Inr (M ps)"
  by (auto simp: decode_map_def split: sum.splits cbor.splits)

section \<open>Signing and verifying a body\<close>

text \<open>\<^verbatim>\<open>cose.cose_sign1(alg, seed, _protected_header(alg), body)\<close>; the header is \<open>leg_protected\<close>.\<close>

definition sign_body :: "prims \<Rightarrow> int \<Rightarrow> bytes \<Rightarrow> bytes res \<Rightarrow> bytes res" where
  "sign_body P alg seed body =
     rbind (leg_protected alg) (\<lambda>prot. rbind body (\<lambda>payload. cose_sign1 P alg seed prot payload))"

fun find_header_alg :: "exn \<Rightarrow> (cbor \<times> cbor) list \<Rightarrow> int res" where
  "find_header_alg e [] = Inl e"
| "find_header_alg e ((k, val) # ps) =
     (case (k, val) of
        (U n, N alg) \<Rightarrow> if n = 1 then Inr alg else find_header_alg e ps
      | (U n, U alg) \<Rightarrow> if n = 1 then Inr alg else find_header_alg e ps
      | _ \<Rightarrow> find_header_alg e ps)"

definition header_alg :: "exn \<Rightarrow> bytes \<Rightarrow> int res" where
  "header_alg e prot = rbind (decode prot) (\<lambda>v. case v of M ps \<Rightarrow> find_header_alg e ps | _ \<Rightarrow> Inl e)"

text \<open>The checks of \<^verbatim>\<open>_verify_sign1\<close> in its order; \<open>E\<close> is the module's exception and \<open>bad\<close> its malformed-header kind.\<close>

definition check_sign1 :: "(string \<Rightarrow> exn) \<Rightarrow> string \<Rightarrow> prims \<Rightarrow> bytes \<times> bytes \<times> bytes \<Rightarrow> int \<Rightarrow> int \<Rightarrow> bytes \<Rightarrow> bytes res" where
  "check_sign1 E bad P parts profile alg pubkey =
     (case parts of (prot, payload, sig) \<Rightarrow>
       rbind (header_alg (E bad) prot) (\<lambda>halg.
         if \<not> snd (alg_level halg) then Inl (E ''UnknownAlg'')
         else if fst (alg_level halg) < profile_min_level profile then Inl (E ''ProfileDowngrade'')
         else if halg \<noteq> alg then Inl (E ''KeyAlgMismatch'')
         else rbind (to_be_signed_raw prot payload) (\<lambda>tbs.
           rbind (cose_verify1_raw P halg pubkey tbs sig) (\<lambda>ok.
             if \<not> ok then Inl (E ''BadSignature'') else Inr payload))))"

definition verify_sign1 :: "(string \<Rightarrow> exn) \<Rightarrow> string \<Rightarrow> prims \<Rightarrow> bytes \<Rightarrow> int \<Rightarrow> int \<Rightarrow> bytes \<Rightarrow> bytes res" where
  "verify_sign1 E bad P obj profile alg pubkey =
     rbind (parse_sign1_raw obj) (\<lambda>parts. check_sign1 E bad P parts profile alg pubkey)"

text \<open>\<^verbatim>\<open>_verify_body\<close>: the signature alone, under the verifier's own algorithm.\<close>

definition verify_body :: "exn \<Rightarrow> prims \<Rightarrow> bytes \<Rightarrow> int \<Rightarrow> bytes \<Rightarrow> bytes res" where
  "verify_body e P obj alg pubkey =
     rbind (parse_sign1_raw obj) (\<lambda>(prot, payload, sig).
       rbind (to_be_signed_raw prot payload) (\<lambda>tbs.
         rbind (cose_verify1_raw P alg pubkey tbs sig) (\<lambda>ok. if \<not> ok then Inl e else Inr payload)))"

section \<open>Decoding a written body\<close>

lemma decode_fields:
  assumes "encode (M ps) = Inr b" and "asc_keys ps"
    and "\<forall>p \<in> set ps. canon (snd p) = snd p \<and> nesting (snd p) \<le> 64"
  shows "decode b = Inr (M ps)"
proof (rule decode_asc [OF assms(1,2)])
  have "nesting (M ps) \<le> 65"
    unfolding nesting_M_le using assms(2,3) by (auto simp: asc_keys_def small_key_nesting)
  then show "nesting (M ps) \<le> UNBOUNDED_DEPTH" by simp
qed (use assms(3) in blast)

lemma asc_keys_Cons [simp]:
  "asc_keys ((U n, v) # ps) \<longleftrightarrow> 0 \<le> n \<and> n < 24 \<and> (\<forall>p \<in> set ps. n < key_int (fst p)) \<and> asc_keys ps"
  by (auto simp: asc_keys_def small_key_def key_int_def)

lemma asc_keys_Nil [simp]: "asc_keys []"
  by (simp add: asc_keys_def)

lemma key_int_U [simp]: "key_int (U n) = n"
  by (simp add: key_int_def)

lemma nesting_bstrs: "nesting (A (map B bs)) \<le> 2"
  by (subst nesting_A_le) auto

lemma canon_bstrs [simp]: "canon (A (map B bs)) = A (map B bs)"
  by simp

lemma array_facts:
  assumes "\<And>x. x \<in> set xs \<Longrightarrow> canon (g x) = g x" and "\<And>x. x \<in> set xs \<Longrightarrow> nesting (g x) \<le> k"
  shows "canon (A (map g xs)) = A (map g xs)" and "nesting (A (map g xs)) \<le> Suc k"
  using assms(1) by (simp add: comp_def) (subst nesting_A_le, use assms(2) in auto)

lemma map_facts:
  assumes "asc_keys ps" and "\<And>p. p \<in> set ps \<Longrightarrow> canon (snd p) = snd p" and "\<And>p. p \<in> set ps \<Longrightarrow> nesting (snd p) \<le> k" and "1 \<le> k"
  shows "canon (M ps) = M ps" and "nesting (M ps) \<le> Suc k"
proof -
  show "canon (M ps) = M ps" using assms(1,2) by (intro canon_asc) auto
  show "nesting (M ps) \<le> Suc k"
    unfolding nesting_M_le using assms(1,3,4) by (auto simp: asc_keys_def small_key_nesting)
qed

text \<open>
  The strict readers: a loop over a canonical map that admits only the keys 1 to \<open>n\<close> sees them in
  ascending order, each at most once.
\<close>

lemma rfold_all: "rfold f s xs = Inr t \<Longrightarrow> (\<And>s x t. f s x = Inr t \<Longrightarrow> Q x) \<Longrightarrow> \<forall>x \<in> set xs. Q x"
  by (induction xs arbitrary: s) (auto simp: rbind_eq_Inr)

definition keys_from :: "int \<Rightarrow> int \<Rightarrow> (cbor \<times> cbor) list \<Rightarrow> bool" where
  "keys_from a n ps \<longleftrightarrow> asc_keys ps \<and> (\<forall>p \<in> set ps. \<exists>k. a \<le> k \<and> k \<le> n \<and> fst p = U k)"

lemma keys_from_canonical:
  assumes "canon (M ps) = M ps" and "encodable (M ps)" and "\<forall>p \<in> set ps. \<exists>k. a \<le> k \<and> k \<le> n \<and> fst p = U k" and "0 \<le> a" and "n < 24"
  shows "keys_from a n ps"
proof -
  have "\<forall>p \<in> set ps. small_key (fst p)" using assms(3-5) by (auto simp: small_key_def)
  then show ?thesis
    using canon_M_sorted [OF assms(1,2)] small_keys_sorted [of ps] assms(3) by (auto simp: keys_from_def asc_keys_def)
qed

lemma keys_from_rfold:
  assumes "encodable (M ps)" and "canon (M ps) = M ps" and "rfold f s ps = Inr t"
    and "\<And>s p t. f s p = Inr t \<Longrightarrow> \<exists>k. 1 \<le> k \<and> k \<le> n \<and> fst p = U k" and "n < 24"
  shows "keys_from 1 n ps"
  using keys_from_canonical [OF assms(2,1) rfold_all [OF assms(3,4)]] assms(5) by simp

lemma keys_from_cases:
  assumes "keys_from a n ps"
  obtains v qs where "ps = (U a, v) # qs" and "keys_from (a + 1) n qs" | "keys_from (a + 1) n ps"
proof (cases ps)
  case Nil
  then show ?thesis using that(2) by (simp add: keys_from_def)
next
  case (Cons p qs)
  obtain k v where p: "p = (U k, v)" "a \<le> k" "k \<le> n" using assms Cons by (cases p) (auto simp: keys_from_def)
  have up: "\<exists>l. k < l \<and> l \<le> n \<and> fst q = U l" if "q \<in> set qs" for q
    using assms Cons p that by (fastforce simp: keys_from_def asc_keys_Cons)
  show ?thesis
  proof (cases "k = a")
    case True
    then show ?thesis using that(1) [of v qs] assms Cons p up by (force simp: keys_from_def)
  next
    case False
    then have "keys_from (a + 1) n ps" using assms Cons p up by (force simp: keys_from_def)
    then show ?thesis by (rule that(2))
  qed
qed

lemma keys_from_empty: "keys_from a n ps \<Longrightarrow> n < a \<Longrightarrow> ps = []"
  by (cases ps) (auto simp: keys_from_def)

lemma keys_from_last: "keys_from n n ps \<Longrightarrow> ps = [] \<or> (\<exists>v. ps = [(U n, v)])"
  by (erule keys_from_cases; drule keys_from_empty) simp_all

lemma keys_from_two:
  assumes "keys_from a n ps" and "n = a + 1"
  shows "ps = [] \<or> (\<exists>v. ps = [(U a, v)]) \<or> (\<exists>w. ps = [(U n, w)]) \<or> (\<exists>v w. ps = [(U a, v), (U n, w)])"
  using assms(1) by (rule keys_from_cases) (use assms(2) in \<open>auto dest: keys_from_last\<close>)

lemma keys_from_three:
  assumes "keys_from a n ps" and "n = a + 2"
  shows "ps = [] \<or> (\<exists>u. ps = [(U a, u)]) \<or> (\<exists>v. ps = [(U (a + 1), v)]) \<or> (\<exists>w. ps = [(U n, w)]) \<or>
    (\<exists>u v. ps = [(U a, u), (U (a + 1), v)]) \<or> (\<exists>u w. ps = [(U a, u), (U n, w)]) \<or> (\<exists>v w. ps = [(U (a + 1), v), (U n, w)]) \<or>
    (\<exists>u v w. ps = [(U a, u), (U (a + 1), v), (U n, w)])"
  using assms(1) by (rule keys_from_cases) (use assms(2) in \<open>auto dest: keys_from_two\<close>)

text \<open>An optional field of a body: its pair, or nothing.\<close>

definition opt_field :: "int \<Rightarrow> cbor option \<Rightarrow> (cbor \<times> cbor) list" where
  "opt_field k h = (case h of None \<Rightarrow> [] | Some v \<Rightarrow> [(U k, v)])"

lemma opt_field_simps [simp]: "opt_field k None = []" "opt_field k (Some v) = [(U k, v)]"
  by (simp_all add: opt_field_def)

lemma set_opt_field: "p \<in> set (opt_field k h) \<longleftrightarrow> (\<exists>v. h = Some v \<and> p = (U k, v))"
  by (cases h) auto

lemma keys_from_split:
  assumes "keys_from a n ps"
  obtains h qs where "ps = opt_field a h @ qs" and "keys_from (a + 1) n qs"
  using assms by (rule keys_from_cases) (use that [of "Some _"] that [of None] in auto)

lemma encode_fields_inject:
  assumes "encode (M ps) = Inr b" and "encode (M qs) = Inr b" and "asc_keys ps" and "asc_keys qs"
    and "\<forall>p \<in> set ps \<union> set qs. canon (snd p) = snd p \<and> nesting (snd p) \<le> 64"
  shows "ps = qs"
  using decode_fields [OF assms(1,3)] decode_fields [OF assms(2,4)] assms(5) by simp

text \<open>The values read from a decoded map can be written again, so a record parsed from a body has a body.\<close>

lemma map_field_in: "map_field ps k = Some v \<Longrightarrow> (U k, v) \<in> set ps"
  by (auto simp: map_field_def find_Some_iff) (metis fst_conv nth_mem)

lemma decoded_map:
  assumes "decode b = Inr (M ps)"
  shows "encodable (M ps)" and "canon (M ps) = M ps"
  using assms cbor_codec.dec_iff [of b "M ps"] by (auto simp: encodable_iff simp del: encode.simps canon.simps)

lemma decoded_field:
  assumes "decode b = Inr (M ps)" and "map_field ps k = Some v"
  shows "encodable v" and "canon v = v"
  using decoded_map [OF assms(1)] map_field_in [OF assms(2)] canon_M_parts(2) [of ps "(U k, v)"]
  by (auto simp: encodable_M)

lemma decoded_leaf_fields:
  assumes "decode b = Inr (M ps)"
  shows "bstr_field ps k = Some x \<Longrightarrow> encodable (B x)" and "tstr_field ps k = Some t \<Longrightarrow> encodable (T t)"
    and "uint_field ps k = Some n \<Longrightarrow> encodable (U n)"
  using decoded_field(1) [OF assms]
  by (auto simp: bstr_field_def tstr_field_def uint_field_def split: option.splits cbor.splits)

section \<open>Interface of a signed body\<close>

lemma header_alg_leg:
  assumes "leg_protected alg = Inr prot"
  shows "header_alg e prot = Inr alg"
proof -
  have "decode prot = Inr (M [(U 1, N alg)])"
    by (rule decode_fields [OF assms [unfolded leg_protected_def]]) auto
  then show ?thesis by (simp add: header_alg_def)
qed

lemma sign_body_parts:
  assumes "md_correct P" and "sign_body P alg seed body = Inr obj" and "md_key_derive P alg seed = Inr (pk, sk)"
  obtains prot payload tbs sig where "leg_protected alg = Inr prot" and "body = Inr payload"
    and "parse_sign1_raw obj = Inr (prot, payload, sig)" and "to_be_signed_raw prot payload = Inr tbs"
    and "cose_verify1_raw P alg pk tbs sig = Inr True" and "alg = ALG_MLDSA65 \<or> alg = ALG_MLDSA87"
proof -
  obtain prot payload tbs sig where *: "leg_protected alg = Inr prot" "body = Inr payload"
    "to_be_signed_raw prot payload = Inr tbs" "mldsa_sign P alg seed tbs = Inr sig"
    "assemble_sign1_raw prot payload sig = Inr obj"
    using assms(2) by (auto simp: sign_body_def cose_sign1_def rbind_eq_Inr)
  with mldsa_sign_verify [OF assms(1) *(4) assms(3)] parse_assemble_sign1 [OF *(5)] that show thesis by blast
qed

lemma signed_verify_sign1:
  assumes "md_correct P" and "sign_body P alg seed body = Inr obj" and "md_key_derive P alg seed = Inr (pk, sk)"
    and "profile_min_level profile \<le> fst (alg_level alg)"
  shows "verify_sign1 E bad P obj profile alg pk = body"
  using assms
  by (auto elim!: sign_body_parts simp: verify_sign1_def check_sign1_def header_alg_leg alg_level_def)

lemma signed_verify_body:
  assumes "md_correct P" and "sign_body P alg seed body = Inr obj" and "md_key_derive P alg seed = Inr (pk, sk)"
  shows "verify_body e P obj alg pk = body"
  using assms by (auto elim!: sign_body_parts simp: verify_body_def)

lemma sign_body_Inr: "sign_body P alg seed body = Inr obj \<Longrightarrow> \<exists>m. body = Inr m"
  by (auto simp: sign_body_def rbind_eq_Inr)

text \<open>
  A verified object: its signature is valid for the verifier's key over exactly the payload returned, its
  header names the verifier's algorithm, and that algorithm meets the profile's floor.
\<close>

lemma check_sign1_iff:
  "check_sign1 E bad P (prot, payload', sig) profile alg pk = Inr payload \<longleftrightarrow>
     payload' = payload \<and> header_alg (E bad) prot = Inr alg \<and> snd (alg_level alg) \<and>
     profile_min_level profile \<le> fst (alg_level alg) \<and>
     (\<exists>tbs. to_be_signed_raw prot payload = Inr tbs \<and> cose_verify1_raw P alg pk tbs sig = Inr True)"
  by (auto simp: check_sign1_def res_simps not_less)

lemma verify_sign1_iff:
  "verify_sign1 E bad P obj profile alg pk = Inr payload \<longleftrightarrow>
     (\<exists>prot sig tbs. parse_sign1_raw obj = Inr (prot, payload, sig) \<and> header_alg (E bad) prot = Inr alg \<and>
        snd (alg_level alg) \<and> profile_min_level profile \<le> fst (alg_level alg) \<and>
        to_be_signed_raw prot payload = Inr tbs \<and> cose_verify1_raw P alg pk tbs sig = Inr True)"
  by (auto simp: verify_sign1_def rbind_eq_Inr check_sign1_iff)

locale signed_body =
  fixes body :: "'a \<Rightarrow> exn + bytes"
    and parse :: "bytes \<Rightarrow> exn + 'a"
    and wf :: "'a \<Rightarrow> bool"
  assumes parse_body: "wf a \<Longrightarrow> body a = Inr m \<Longrightarrow> parse m = Inr a"
begin

lemma body_inject: "wf a \<Longrightarrow> wf b \<Longrightarrow> body a = Inr m \<Longrightarrow> body b = Inr m \<Longrightarrow> a = b"
  using parse_body by (metis Inr_inject)

lemma sign1_roundtrip:
  assumes "md_correct P" and "sign_body P alg seed (body a) = Inr obj" and "md_key_derive P alg seed = Inr (pk, sk)"
    and "profile_min_level profile \<le> fst (alg_level alg)" and "wf a"
  shows "rbind (verify_sign1 E bad P obj profile alg pk) parse = Inr a"
  using signed_verify_sign1 [OF assms(1-4)] sign_body_Inr [OF assms(2)] parse_body [OF assms(5)] by auto

lemma body_roundtrip:
  assumes "md_correct P" and "sign_body P alg seed (body a) = Inr obj" and "md_key_derive P alg seed = Inr (pk, sk)"
    and "wf a"
  shows "rbind (verify_body e P obj alg pk) parse = Inr a"
  using signed_verify_body [OF assms(1-3)] sign_body_Inr [OF assms(2)] parse_body [OF assms(4)] by auto

text \<open>The content id names the record, unless the digest collides on the two bodies.\<close>

lemma id_names:
  assumes "wf a" and "wf b" and "body a = Inr m" and "body b = Inr n" and "inj_on h {m, n}"
    and "content_id_bytes h m = content_id_bytes h n"
  shows "a = b"
proof -
  have "h m = h n" using assms(6) by (simp add: content_id_bytes_def)
  then have "m = n" using inj_onD [OF assms(5)] by blast
  then show ?thesis using body_inject [OF assms(1,2)] assms(3,4) by blast
qed

end

section \<open>One owner throughout a chain\<close>

text \<open>The chains of the SDK belong to one name or one session: the first entry sets it, the others must agree.\<close>

definition agree_on :: "('a \<Rightarrow> 'b) \<Rightarrow> 'b option \<Rightarrow> 'a list \<Rightarrow> bool" where
  "agree_on f k xs \<longleftrightarrow> (\<exists>n. (k = None \<or> k = Some n) \<and> (\<forall>x \<in> set xs. f x = n))"

lemma agree_on_Cons: "agree_on f k (x # xs) \<longleftrightarrow> (k = None \<or> k = Some (f x)) \<and> agree_on f (Some (f x)) xs"
  by (auto simp: agree_on_def)

lemma agree_on_Nil [simp]: "agree_on f k []"
  by (cases k) (auto simp: agree_on_def)

lemma agree_on_None: "agree_on f None xs \<longleftrightarrow> (\<forall>a \<in> set xs. \<forall>b \<in> set xs. f a = f b)"
proof -
  have "(\<exists>n. \<forall>x \<in> set xs. f x = n) \<longleftrightarrow> (\<forall>a \<in> set xs. \<forall>b \<in> set xs. f a = f b)" by metis
  then show ?thesis by (simp add: agree_on_def)
qed

section \<open>Interface of a gap detector\<close>

text \<open>
  A chain with sequence numbers, and a scan that stops at the first entry whose number is not its index
  or that does not follow the head before it.
\<close>

locale gap_detector = hash_chain +
  fixes seq :: "'a \<Rightarrow> int"
    and scan :: "int \<Rightarrow> bytes \<Rightarrow> 'a list \<Rightarrow> exn + (int \<times> bool)"
  assumes scan_Nil: "scan i h [] = Inr (0, False)"
    and scan_Cons: "scan i h (e # es) =
      (if seq e \<noteq> i \<or> prev e \<noteq> h then Inr (i, True) else rbind (body e) (\<lambda>m. scan (i + 1) (H m) es))"
begin

definition numbered :: "int \<Rightarrow> 'a list \<Rightarrow> bool" where
  "numbered i es \<longleftrightarrow> map seq es = map (\<lambda>k. i + int k) [0..<length es]"

lemma numbered_Nil [simp]: "numbered i []"
  by (simp add: numbered_def)

lemma numbered_Cons [simp]: "numbered i (e # es) \<longleftrightarrow> seq e = i \<and> numbered (i + 1) es"
proof -
  have "map (\<lambda>k. i + int k) [0..<length (e # es)] = i # map (\<lambda>k. (i + 1) + int k) [0..<length es]"
    by (simp add: map_upt_Suc del: upt_Suc)
  then show ?thesis unfolding numbered_def by auto
qed

lemma numbered_append: "numbered i (es @ fs) \<longleftrightarrow> numbered i es \<and> numbered (i + int (length es)) fs"
  by (induction es arbitrary: i) (simp_all add: add.assoc add.commute)

lemma scan_clean: "scan i h es = Inr (p, False) \<longleftrightarrow> p = 0 \<and> numbered i es \<and> (\<exists>k. chained h es k)"
proof (induction es arbitrary: i h)
  case (Cons e es)
  show ?case unfolding scan_Cons by (cases "body e") (auto simp: Cons.IH)
qed (auto simp: scan_Nil intro: exI [of "chained h []" h for h])

lemma scan_broken:
  "scan i h es = Inr (p, True) \<longleftrightarrow>
     (\<exists>es1 e es2 k. es = es1 @ e # es2 \<and> p = i + int (length es1) \<and> numbered i es1 \<and> chained h es1 k \<and>
        (seq e \<noteq> p \<or> prev e \<noteq> k))"
proof (induction es arbitrary: i h)
  case (Cons e es)
  show ?case (is "?l \<longleftrightarrow> ?r")
  proof (cases "seq e \<noteq> i \<or> prev e \<noteq> h")
    case True
    then have "?l \<longleftrightarrow> p = i" by (auto simp: scan_Cons)
    also have "\<dots> \<longleftrightarrow> ?r" using True by (auto simp: Cons_eq_append_conv intro!: exI [of _ "[]"])
    finally show ?thesis .
  next
    case False
    have "?l \<longleftrightarrow> (\<exists>m. body e = Inr m \<and> scan (i + 1) (H m) es = Inr (p, True))"
      using False by (simp add: scan_Cons rbind_eq_Inr)
    also have "\<dots> \<longleftrightarrow> ?r" (is "?m \<longleftrightarrow> _")
    proof
      assume ?m
      then obtain m es1 e' es2 k where "body e = Inr m" "es = es1 @ e' # es2" "p = i + 1 + int (length es1)"
        "numbered (i + 1) es1" "chained (H m) es1 k" "seq e' \<noteq> p \<or> prev e' \<noteq> k"
        unfolding Cons.IH by blast
      then show ?r using False by (intro exI [of _ "e # es1"] exI [of _ e'] exI [of _ es2] exI [of _ k]) simp
    next
      assume ?r
      then obtain es1 e' es2 k where r: "e # es = es1 @ e' # es2" "p = i + int (length es1)" "numbered i es1"
        "chained h es1 k" "seq e' \<noteq> p \<or> prev e' \<noteq> k" by blast
      then obtain t where t: "es1 = e # t" "es = t @ e' # es2" using False by (cases es1) auto
      then obtain m where "body e = Inr m" "chained (H m) t k" using r by auto
      then show ?m unfolding Cons.IH using r t by force
    qed
    finally show ?thesis .
  qed
qed (simp add: scan_Nil)

text \<open>Leaving out an entry that is not the last is reported at the position it had.\<close>

lemma scan_omission:
  assumes "numbered i (es @ e # f # fs)" and "chained h (es @ e # f # fs) k"
  shows "scan i h (es @ f # fs) = Inr (i + int (length es), True)"
proof -
  obtain k' where "chained h es k'" using assms(2) by (auto simp: chained_append)
  moreover have "numbered i es" "seq f \<noteq> i + int (length es)" using assms(1) by (auto simp: numbered_append)
  ultimately show ?thesis unfolding scan_broken by blast
qed

end

end
