(* ===== verification/Naming.thy ===== *)
theory Naming
  imports Signed
begin

text \<open>
  Name bindings (\<^verbatim>\<open>impl/python/naalp/naming.py\<close>, first part): a name's succession of signers as a signed
  hash chain, the registrar that appends to it, the offline walks and checks, and the evidence of a hole or
  of a fork. The A2A task-state profile of the same module is in theory \<open>TaskState\<close>.
\<close>

section \<open>Bindings\<close>

definition NAME_HEAD_SIZE :: nat where "NAME_HEAD_SIZE = 48"

definition name_genesis :: bytes where "name_genesis = replicate NAME_HEAD_SIZE 0"

record name_binding =
  nb_name :: pystr
  nb_signer :: bytes
  nb_seq :: int
  nb_prev :: bytes

definition name_binding_bytes :: "name_binding \<Rightarrow> bytes res" where
  "name_binding_bytes nb =
     encode (M [(U 1, T (nb_name nb)), (U 2, B (nb_signer nb)), (U 3, U (nb_seq nb)), (U 4, B (nb_prev nb))])"

definition name_binding_head :: "prims \<Rightarrow> name_binding \<Rightarrow> bytes res" where
  "name_binding_head P nb = rbind (name_binding_bytes nb) (\<lambda>b. Inr (sha384 P b))"

definition name_binding_id :: "prims \<Rightarrow> name_binding \<Rightarrow> bytes res" where
  "name_binding_id P nb = rbind (name_binding_bytes nb) (\<lambda>b. Inr (content_id_bytes (sha384 P) b))"

definition parse_name_binding :: "bytes \<Rightarrow> name_binding res" where
  "parse_name_binding b =
     rbind (decode_map (NamingError ''NameMalformed'') b) (\<lambda>m.
       case (tstr_field m 1, bstr_field m 2, uint_field m 3, bstr_field m 4) of
         (Some name, Some signer, Some seq, Some prev) \<Rightarrow>
           Inr \<lparr>nb_name = name, nb_signer = signer, nb_seq = seq, nb_prev = prev\<rparr>
       | _ \<Rightarrow> Inl (NamingError ''NameMalformed''))"

definition naming_verify_sign1 :: "prims \<Rightarrow> bytes \<Rightarrow> int \<Rightarrow> int \<Rightarrow> bytes \<Rightarrow> bytes res" where
  "naming_verify_sign1 = verify_sign1 NamingError ''Malformed''"

definition sign_binding :: "prims \<Rightarrow> name_binding \<Rightarrow> int \<Rightarrow> bytes \<Rightarrow> bytes res" where
  "sign_binding P nb alg seed = sign_body P alg seed (name_binding_bytes nb)"

definition verify_binding :: "prims \<Rightarrow> bytes \<Rightarrow> int \<Rightarrow> int \<Rightarrow> bytes \<Rightarrow> name_binding res" where
  "verify_binding P obj profile alg pubkey = rbind (naming_verify_sign1 P obj profile alg pubkey) parse_name_binding"

section \<open>The registrar\<close>

record registrar =
  rg_name :: pystr
  rg_alg :: int
  rg_seed :: bytes
  rg_head :: bytes
  rg_seq :: int

definition new_registrar :: "pystr \<Rightarrow> int \<Rightarrow> bytes \<Rightarrow> registrar" where
  "new_registrar name alg seed = \<lparr>rg_name = name, rg_alg = alg, rg_seed = seed, rg_head = name_genesis, rg_seq = 0\<rparr>"

definition registrar_append :: "prims \<Rightarrow> registrar \<Rightarrow> bytes \<Rightarrow> (registrar \<times> name_binding \<times> bytes) res" where
  "registrar_append P r subject =
     (let nb = \<lparr>nb_name = rg_name r, nb_signer = subject, nb_seq = rg_seq r, nb_prev = rg_head r\<rparr> in
      rbind (sign_binding P nb (rg_alg r) (rg_seed r)) (\<lambda>obj.
        rbind (name_binding_head P nb) (\<lambda>h. Inr (r\<lparr>rg_head := h, rg_seq := rg_seq r + 1\<rparr>, nb, obj))))"

section \<open>Walking and checking a chain\<close>

record name_event =
  ne_seq :: int
  ne_signer :: bytes
  ne_head :: bytes

text \<open>The loops carry the index, the name once it is known, and the head so far.\<close>

definition name_step :: "int \<Rightarrow> pystr option \<Rightarrow> bytes \<Rightarrow> name_binding \<Rightarrow> unit res" where
  "name_step i name h nb =
     (if name \<noteq> None \<and> name \<noteq> Some (nb_name nb) then Inl (NamingError ''NameChainBroken'')
      else if nb_seq nb \<noteq> i \<or> nb_prev nb \<noteq> h then Inl (NamingError ''NameChainBroken'')
      else Inr ())"

fun walk_from :: "prims \<Rightarrow> int \<Rightarrow> pystr option \<Rightarrow> bytes \<Rightarrow> name_binding list \<Rightarrow> name_event list res" where
  "walk_from P i name h [] = Inr []"
| "walk_from P i name h (nb # nbs) =
     rbind (name_step i name h nb) (\<lambda>_.
       rbind (name_binding_head P nb) (\<lambda>h'.
         rbind (walk_from P (i + 1) (Some (nb_name nb)) h' nbs) (\<lambda>evs.
           Inr (\<lparr>ne_seq = nb_seq nb, ne_signer = nb_signer nb, ne_head = h'\<rparr> # evs))))"

definition walk_history :: "prims \<Rightarrow> name_binding list \<Rightarrow> name_event list res" where
  "walk_history P bindings = walk_from P 0 None name_genesis bindings"

fun verify_names_from ::
  "prims \<Rightarrow> int \<Rightarrow> int \<Rightarrow> bytes \<Rightarrow> int \<Rightarrow> pystr option \<Rightarrow> bytes \<Rightarrow> bytes list \<Rightarrow> name_binding list res" where
  "verify_names_from P profile alg pk i name h [] = Inr []"
| "verify_names_from P profile alg pk i name h (obj # objs) =
     rbind (verify_binding P obj profile alg pk) (\<lambda>nb.
       rbind (name_step i name h nb) (\<lambda>_.
         rbind (name_binding_head P nb) (\<lambda>h'.
           rbind (verify_names_from P profile alg pk (i + 1) (Some (nb_name nb)) h' objs) (\<lambda>out. Inr (nb # out)))))"

definition verify_name_chain :: "prims \<Rightarrow> bytes list \<Rightarrow> int \<Rightarrow> int \<Rightarrow> bytes \<Rightarrow> name_binding list res" where
  "verify_name_chain P objs profile alg pubkey = verify_names_from P profile alg pubkey 0 None name_genesis objs"

fun hole_from :: "prims \<Rightarrow> int \<Rightarrow> bytes \<Rightarrow> name_binding list \<Rightarrow> (int \<times> bool) res" where
  "hole_from P i h [] = Inr (0, False)"
| "hole_from P i h (nb # nbs) =
     (if nb_seq nb \<noteq> i \<or> nb_prev nb \<noteq> h then Inr (i, True)
      else rbind (name_binding_head P nb) (\<lambda>h'. hole_from P (i + 1) h' nbs))"

definition detect_hole :: "prims \<Rightarrow> name_binding list \<Rightarrow> (int \<times> bool) res" where
  "detect_hole P bindings = hole_from P 0 name_genesis bindings"

section \<open>Forks\<close>

definition detect_name_fork :: "name_binding \<Rightarrow> name_binding \<Rightarrow> (int \<times> bool) res" where
  "detect_name_fork a b =
     (if nb_name a \<noteq> nb_name b \<or> nb_seq a \<noteq> nb_seq b then Inr (0, False)
      else rbind (name_binding_bytes a) (\<lambda>ma. rbind (name_binding_bytes b) (\<lambda>mb.
        if ma = mb then Inr (0, False) else Inr (nb_seq a, True))))"

record name_fork_proof =
  nf_signer :: bytes
  nf_signed_a :: bytes
  nf_signed_b :: bytes

definition verify_name_fork_proof :: "prims \<Rightarrow> name_fork_proof \<Rightarrow> int \<Rightarrow> int \<Rightarrow> bytes \<Rightarrow> int res" where
  "verify_name_fork_proof P f profile alg pubkey =
     (if length (nf_signer f) = 0 then Inl (NamingError ''NameForkProofInvalid'')
      else rbind (verify_binding P (nf_signed_a f) profile alg pubkey) (\<lambda>a.
        rbind (verify_binding P (nf_signed_b f) profile alg pubkey) (\<lambda>b.
          rbind (detect_name_fork a b) (\<lambda>(pos, fork).
            if \<not> fork then Inl (NamingError ''NameForkProofInvalid'') else Inr pos))))"

section \<open>Bodies\<close>

lemma parse_name_binding_bytes:
  assumes "name_binding_bytes nb = Inr m"
  shows "parse_name_binding m = Inr nb"
proof -
  have "decode m = Inr (M [(U 1, T (nb_name nb)), (U 2, B (nb_signer nb)), (U 3, U (nb_seq nb)), (U 4, B (nb_prev nb))])"
    by (rule decode_fields [OF assms [unfolded name_binding_bytes_def]]) auto
  then show ?thesis by (simp add: parse_name_binding_def decode_map_def map_read_defs)
qed

interpretation name_body: signed_body name_binding_bytes parse_name_binding "\<lambda>_. True"
  by unfold_locales (rule parse_name_binding_bytes)

interpretation name_chain: gap_detector "sha384 P" name_binding_bytes nb_prev nb_seq "hole_from P" for P :: prims
  by unfold_locales (use name_body.body_inject in \<open>auto simp: name_binding_head_def rbind_assoc\<close>)

lemma binding_roundtrip:
  assumes "md_correct P" and "sign_binding P nb alg seed = Inr obj" and "md_key_derive P alg seed = Inr (pk, sk)"
    and "profile_min_level profile \<le> fst (alg_level alg)"
  shows "verify_binding P obj profile alg pk = Inr nb"
  unfolding verify_binding_def naming_verify_sign1_def
  by (rule name_body.sign1_roundtrip [OF assms(1) assms(2) [unfolded sign_binding_def] assms(3,4)]) simp

section \<open>Chains\<close>

text \<open>What both walks require: one name, the indices as sequence numbers, and unbroken links.\<close>

definition name_chain_ok :: "prims \<Rightarrow> name_binding list \<Rightarrow> bool" where
  "name_chain_ok P nbs \<longleftrightarrow>
     (\<forall>a \<in> set nbs. \<forall>b \<in> set nbs. nb_name a = nb_name b) \<and> map nb_seq nbs = map int [0..<length nbs] \<and>
     (\<exists>h. name_chain.chained P name_genesis nbs h)"

lemma name_step_Inr [res_simps]:
  "name_step i name h nb = Inr u \<longleftrightarrow> (name = None \<or> name = Some (nb_name nb)) \<and> nb_seq nb = i \<and> nb_prev nb = h"
  by (auto simp: name_step_def)

lemma name_chain_ok_from:
  "name_chain_ok P nbs \<longleftrightarrow>
     agree_on nb_name None nbs \<and> gap_detector.numbered nb_seq 0 nbs \<and> (\<exists>h. name_chain.chained P name_genesis nbs h)"
  by (simp add: name_chain_ok_def agree_on_None name_chain.numbered_def)

text \<open>The events a walk reports.\<close>

definition history_of :: "prims \<Rightarrow> name_binding list \<Rightarrow> name_event list" where
  "history_of P nbs =
     map (\<lambda>nb. \<lparr>ne_seq = nb_seq nb, ne_signer = nb_signer nb, ne_head = sha384 P (projr (name_binding_bytes nb))\<rparr>) nbs"

lemma walk_from_iff:
  "walk_from P i name h nbs = Inr evs \<longleftrightarrow>
     agree_on nb_name name nbs \<and> gap_detector.numbered nb_seq i nbs \<and> (\<exists>k. name_chain.chained P h nbs k) \<and> evs = history_of P nbs"
proof (induction nbs arbitrary: i name h evs)
  case (Cons nb nbs)
  show ?case
    by (cases "name_binding_bytes nb")
      (auto simp: rbind_eq_Inr name_step_Inr name_binding_head_def agree_on_Cons Cons.IH history_of_def)
qed (auto simp: agree_on_def history_of_def)

lemma verify_names_from_iff:
  "verify_names_from P profile alg pk i name h objs = Inr nbs \<longleftrightarrow>
     list_all2 (\<lambda>obj nb. verify_binding P obj profile alg pk = Inr nb) objs nbs \<and>
     agree_on nb_name name nbs \<and> gap_detector.numbered nb_seq i nbs \<and> (\<exists>k. name_chain.chained P h nbs k)"
proof (induction objs arbitrary: i name h nbs)
  case (Cons obj objs)
  show ?case
    by (cases nbs)
      (force simp: rbind_eq_Inr name_step_Inr name_binding_head_def agree_on_Cons Cons.IH)+
qed (auto simp: agree_on_def)

lemma parsed_binding_writable: "parse_name_binding b = Inr nb \<Longrightarrow> \<exists>m. name_binding_bytes nb = Inr m"
  unfolding name_binding_bytes_def encodable_iff [symmetric]
  by (auto simp: parse_name_binding_def rbind_eq_Inr decode_map_Inr case_option_eq_Inr encodable_asc decoded_leaf_fields)

lemma verified_binding_writable:
  assumes "verify_binding P obj profile alg pk = Inr nb"
  obtains m where "name_binding_bytes nb = Inr m"
  using assms parsed_binding_writable by (auto simp: verify_binding_def rbind_eq_Inr)

lemma detect_name_fork_iff:
  assumes "name_binding_bytes a = Inr ma" and "name_binding_bytes b = Inr mb"
  shows "detect_name_fork a b =
    Inr (if nb_name a = nb_name b \<and> nb_seq a = nb_seq b \<and> a \<noteq> b then (nb_seq a, True) else (0, False))"
  using assms name_body.body_inject by (auto simp: detect_name_fork_def)

lemma name_fork_proof_iff:
  "verify_name_fork_proof P f profile alg pk = Inr pos \<longleftrightarrow>
     nf_signer f \<noteq> [] \<and>
     (\<exists>a b. verify_binding P (nf_signed_a f) profile alg pk = Inr a \<and> verify_binding P (nf_signed_b f) profile alg pk = Inr b \<and>
        nb_name a = nb_name b \<and> nb_seq a = pos \<and> nb_seq b = pos \<and> a \<noteq> b)"
proof -
  have fork: "detect_name_fork a b = Inr (q, True) \<longleftrightarrow> nb_name a = nb_name b \<and> nb_seq a = q \<and> nb_seq b = q \<and> a \<noteq> b"
    if "verify_binding P (nf_signed_a f) profile alg pk = Inr a" "verify_binding P (nf_signed_b f) profile alg pk = Inr b" for a b q
    using that by (auto elim!: verified_binding_writable simp: detect_name_fork_iff split: if_splits)
  show ?thesis
  proof (cases "verify_binding P (nf_signed_a f) profile alg pk"; cases "verify_binding P (nf_signed_b f) profile alg pk")
    fix a b
    assume "verify_binding P (nf_signed_a f) profile alg pk = Inr a" "verify_binding P (nf_signed_b f) profile alg pk = Inr b"
    then show ?thesis using fork [of a b pos] by (auto simp: verify_name_fork_proof_def rbind_eq_Inr)
  qed (simp_all add: verify_name_fork_proof_def)
qed

text \<open>A registrar over a list of subjects.\<close>

fun registrar_appends :: "prims \<Rightarrow> registrar \<Rightarrow> bytes list \<Rightarrow> (registrar \<times> (name_binding \<times> bytes) list) res" where
  "registrar_appends P r [] = Inr (r, [])"
| "registrar_appends P r (s # ss) =
     rbind (registrar_append P r s) (\<lambda>(r', nb, obj).
       rbind (registrar_appends P r' ss) (\<lambda>(r'', log). Inr (r'', (nb, obj) # log)))"

lemma registrar_append_Inr:
  "registrar_append P r s = Inr (r', nb, obj) \<longleftrightarrow>
     nb = \<lparr>nb_name = rg_name r, nb_signer = s, nb_seq = rg_seq r, nb_prev = rg_head r\<rparr> \<and>
     sign_binding P nb (rg_alg r) (rg_seed r) = Inr obj \<and>
     (\<exists>m. name_binding_bytes nb = Inr m \<and> r' = r\<lparr>rg_head := sha384 P m, rg_seq := rg_seq r + 1\<rparr>)"
  by (auto simp: registrar_append_def Let_def rbind_eq_Inr name_binding_head_def)

lemma registrar_log:
  assumes "registrar_appends P r ss = Inr (r', log)"
  shows "map (nb_signer \<circ> fst) log = ss" and "\<forall>(nb, obj) \<in> set log. nb_name nb = rg_name r \<and> sign_binding P nb (rg_alg r) (rg_seed r) = Inr obj"
    and "gap_detector.numbered nb_seq (rg_seq r) (map fst log)" and "name_chain.chained P (rg_head r) (map fst log) (rg_head r')"
  using assms
proof (induction P r ss arbitrary: log rule: registrar_appends.induct)
  case (2 P r s ss)
  {
    case 1
    then show ?case using 2(1) by (auto simp: rbind_eq_Inr registrar_append_Inr)
  next
    case 2
    then show ?case using "2.IH"(2) by (fastforce simp: rbind_eq_Inr registrar_append_Inr)
  next
    case 3
    then show ?case using "2.IH"(3) by (fastforce simp: rbind_eq_Inr registrar_append_Inr)
  next
    case 4
    then show ?case using "2.IH"(4) by (fastforce simp: rbind_eq_Inr registrar_append_Inr)
  }
qed auto

section \<open>Properties of name bindings\<close>

text \<open>A chain of signed bindings is accepted exactly when every object verifies under the authority's key to
  its binding and the bindings form one chain: one name throughout, the sequence numbers are the positions, and each
  link is the head of the binding before it, starting from the zero head. The unsigned walk requires exactly
  the same of the bindings and reports for each position the signer and the head reached there.\<close>

theorem name_chain_exact:
  "(verify_name_chain P objs profile alg pk = Inr nbs \<longleftrightarrow>
      list_all2 (\<lambda>obj nb. verify_binding P obj profile alg pk = Inr nb) objs nbs \<and> name_chain_ok P nbs) \<and>
   (walk_history P nbs = Inr evs \<longleftrightarrow> name_chain_ok P nbs \<and> evs = history_of P nbs)"
  unfolding verify_name_chain_def walk_history_def verify_names_from_iff walk_from_iff name_chain_ok_from by blast

lemma registrar_log_facts:
  assumes "md_correct P" and "md_key_derive P alg seed = Inr (pk, sk)" and "profile_min_level profile \<le> fst (alg_level alg)"
    and "registrar_appends P (new_registrar name alg seed) subjects = Inr (r, log)"
  shows "verify_name_chain P (map snd log) profile alg pk = Inr (map fst log)"
    and "map (nb_signer \<circ> fst) log = subjects"
    and "\<forall>f. nf_signed_a f \<in> snd ` set log \<longrightarrow> nf_signed_b f \<in> snd ` set log \<longrightarrow>
      verify_name_fork_proof P f profile alg pk = Inl (NamingError ''NameForkProofInvalid'')"
proof -
  note log = registrar_log [OF assms(4)]
  have v: "verify_binding P obj profile alg pk = Inr nb" if "(nb, obj) \<in> set log" for nb obj
    using log(2) that binding_roundtrip [OF assms(1) _ assms(2,3)] by (auto simp: new_registrar_def)
  have "list_all2 (\<lambda>obj nb. verify_binding P obj profile alg pk = Inr nb) (map snd log) (map fst log)"
    unfolding list_all2_map1 list_all2_map2 by (auto simp: list_all2_same intro: v)
  moreover have "agree_on nb_name None (map fst log)" 
    unfolding agree_on_def using log(2) by (intro exI [of _ "rg_name (new_registrar name alg seed)"]) auto
  ultimately show "verify_name_chain P (map snd log) profile alg pk = Inr (map fst log)"
    unfolding verify_name_chain_def verify_names_from_iff using log(3,4) by (auto simp: new_registrar_def)
  show "map (nb_signer \<circ> fst) log = subjects" by (rule log(1))
  have "distinct (map nb_seq (map fst log))"
    using log(3) by (simp add: name_chain.numbered_def distinct_map inj_on_def)
  then have same: "a = b" if "a \<in> set log" "b \<in> set log" "nb_seq (fst a) = nb_seq (fst b)" for a b
    using that by (auto simp: distinct_map inj_on_def)
  show "\<forall>f. nf_signed_a f \<in> snd ` set log \<longrightarrow> nf_signed_b f \<in> snd ` set log \<longrightarrow>
      verify_name_fork_proof P f profile alg pk = Inl (NamingError ''NameForkProofInvalid'')"
  proof (intro allI impI)
    fix f :: name_fork_proof
    assume "nf_signed_a f \<in> snd ` set log" "nf_signed_b f \<in> snd ` set log"
    then obtain a b where ab: "(a, nf_signed_a f) \<in> set log" "(b, nf_signed_b f) \<in> set log" by auto
    obtain ma mb where "name_binding_bytes a = Inr ma" "name_binding_bytes b = Inr mb"
      using v [OF ab(1)] v [OF ab(2)] by (auto elim!: verified_binding_writable)
    then have "detect_name_fork a b = Inr (0, False)" using same [OF ab] by (auto simp: detect_name_fork_iff)
    then show "verify_name_fork_proof P f profile alg pk = Inl (NamingError ''NameForkProofInvalid'')"
      using v [OF ab(1)] v [OF ab(2)] by (simp add: verify_name_fork_proof_def)
  qed
qed

text \<open>A registrar's log, whatever the succession of subjects: the objects verify, in order, to the bindings it
  returned, which name exactly those subjects, and no two of the objects it signed can be put into a
  fork proof that is accepted against it.\<close>

theorem registrar_chain_verifies:
  assumes "md_correct P" and "md_key_derive P alg seed = Inr (pk, sk)" and "profile_min_level profile \<le> fst (alg_level alg)"
    and "registrar_appends P (new_registrar name alg seed) subjects = Inr (r, log)"
  shows "verify_name_chain P (map snd log) profile alg pk = Inr (map fst log) \<and>
    map (nb_signer \<circ> fst) log = subjects \<and>
    (\<forall>f. nf_signed_a f \<in> snd ` set log \<longrightarrow> nf_signed_b f \<in> snd ` set log \<longrightarrow>
      verify_name_fork_proof P f profile alg pk = Inl (NamingError ''NameForkProofInvalid''))"
  using registrar_log_facts [OF assms] by blast

definition sample_registrar :: registrar where
  "sample_registrar = new_registrar (pystr ''a'') ALG_MLDSA65 [7]"

theorem registrar_chain_verifies_witness:
  "\<exists>r log. registrar_appends sample_prims sample_registrar [[1], [2]] = Inr (r, log) \<and>
     verify_name_chain sample_prims (map snd log) PROFILE_PUBLIC ALG_MLDSA65 [7] = Inr (map fst log)"
proof -
  have "is_ok (registrar_appends sample_prims sample_registrar [[1], [2]])" by code_simp
  then obtain r log where log: "registrar_appends sample_prims sample_registrar [[1], [2]] = Inr (r, log)"
    by (auto simp: is_ok_iff)
  have "verify_name_chain sample_prims (map snd log) PROFILE_PUBLIC ALG_MLDSA65 [7] = Inr (map fst log)"
    by (rule registrar_chain_verifies [OF _ _ _ log [unfolded sample_registrar_def], THEN conjunct1])
      (simp_all add: profile_min_level_def alg_level_def alg_defs profile_defs)
  with log show ?thesis by blast
qed

text \<open>C32: The hole detector is exact. It reports nothing exactly for a list whose sequence numbers are its positions
  and whose links are unbroken; it reports a position exactly when everything before it is in order and the binding
  there has another number or does not follow the head before it. So leaving any binding but the last out of a good chain is
  reported at the position of the omission.\<close>

theorem hole_detection_exact:
  "(detect_hole P nbs = Inr (p, False) \<longleftrightarrow>
      p = 0 \<and> map nb_seq nbs = map int [0..<length nbs] \<and> (\<exists>h. name_chain.chained P name_genesis nbs h)) \<and>
   (detect_hole P nbs = Inr (p, True) \<longleftrightarrow>
      (\<exists>xs nb ys h. nbs = xs @ nb # ys \<and> p = int (length xs) \<and> map nb_seq xs = map int [0..<length xs] \<and>
         name_chain.chained P name_genesis xs h \<and> (nb_seq nb \<noteq> p \<or> nb_prev nb \<noteq> h))) \<and>
   (\<forall>xs omitted y ys. name_chain_ok P (xs @ omitted # y # ys) \<longrightarrow> detect_hole P (xs @ y # ys) = Inr (int (length xs), True))"
  unfolding detect_hole_def name_chain_ok_from
  using name_chain.scan_clean [of P 0 name_genesis nbs p] name_chain.scan_broken [of P 0 name_genesis nbs p]
    name_chain.scan_omission [where i = 0 and h = name_genesis and P = P]
  by (auto simp: name_chain.numbered_def simp del: hole_from.simps name_chain.chained.simps)

definition sample_chain :: "name_binding list" where
  "sample_chain = map fst (snd (projr (registrar_appends sample_prims sample_registrar [[1], [2], [3]])))"

theorem hole_detection_exact_witness:
  "detect_hole sample_prims [sample_chain ! 0, sample_chain ! 2] = Inr (1, True)"
proof -
  have "is_ok (walk_history sample_prims sample_chain)" by code_simp
  then have ok: "name_chain_ok sample_prims sample_chain" using walk_from_iff name_chain_ok_from by (auto simp: is_ok_iff walk_history_def)
  have "length sample_chain = 3" by code_simp
  then have l: "sample_chain = [sample_chain ! 0] @ sample_chain ! 1 # sample_chain ! 2 # []"
    by (auto simp: list_eq_iff_nth_eq less_Suc_eq numeral_3_eq_3 numeral_2_eq_2)
  show ?thesis using hole_detection_exact [of sample_prims "[]" 0] ok unfolding l [symmetric] by (metis l append_Cons append_Nil length_Cons list.size(3) of_nat_1 One_nat_def)
qed

text \<open>A fork proof is accepted exactly when it names an accused and its two objects verify under that one key to
  two different bindings of the same name at the same position, which is the position reported.\<close>

theorem name_fork_proof_exact:
  "verify_name_fork_proof P f profile alg pk = Inr pos \<longleftrightarrow>
     nf_signer f \<noteq> [] \<and>
     (\<exists>a b. verify_binding P (nf_signed_a f) profile alg pk = Inr a \<and> verify_binding P (nf_signed_b f) profile alg pk = Inr b \<and>
        nb_name a = nb_name b \<and> nb_seq a = pos \<and> nb_seq b = pos \<and> a \<noteq> b)"
  by (rule name_fork_proof_iff)

end
