(* ===== verification/TaskState.thy ===== *)
theory TaskState
  imports Naming "HOL-Library.Product_Lexorder"
begin

text \<open>
  The signed A2A task-state profile (\<^verbatim>\<open>impl/python/naalp/naming.py\<close>, second part): the imported state
  vocabulary with its table of legal edges, the signed hash-chained transitions of one task, and the offline walk
  that accepts a chain only as a legal path from the start state under one agent card.
\<close>

section \<open>States and edges\<close>

definition STATE_SUBMITTED :: int where "STATE_SUBMITTED = 0"
definition STATE_WORKING :: int where "STATE_WORKING = 1"
definition STATE_INPUT_REQUIRED :: int where "STATE_INPUT_REQUIRED = 2"
definition STATE_AUTH_REQUIRED :: int where "STATE_AUTH_REQUIRED = 3"
definition STATE_COMPLETED :: int where "STATE_COMPLETED = 4"
definition STATE_CANCELED :: int where "STATE_CANCELED = 5"
definition STATE_FAILED :: int where "STATE_FAILED = 6"
definition STATE_REJECTED :: int where "STATE_REJECTED = 7"

definition START_STATE :: int where "START_STATE = STATE_SUBMITTED"

lemmas task_state_defs = STATE_SUBMITTED_def STATE_WORKING_def STATE_INPUT_REQUIRED_def STATE_AUTH_REQUIRED_def
  STATE_COMPLETED_def STATE_CANCELED_def STATE_FAILED_def STATE_REJECTED_def START_STATE_def

definition STATE_NAMES :: "(int \<times> string) list" where
  "STATE_NAMES =
     [(STATE_SUBMITTED, ''submitted''), (STATE_WORKING, ''working''), (STATE_INPUT_REQUIRED, ''input-required''),
      (STATE_AUTH_REQUIRED, ''auth-required''), (STATE_COMPLETED, ''completed''), (STATE_CANCELED, ''canceled''),
      (STATE_FAILED, ''failed''), (STATE_REJECTED, ''rejected'')]"

definition TERMINAL :: "int list" where
  "TERMINAL = [STATE_COMPLETED, STATE_CANCELED, STATE_FAILED, STATE_REJECTED]"

definition INTERRUPTED :: "int list" where
  "INTERRUPTED = [STATE_INPUT_REQUIRED, STATE_AUTH_REQUIRED]"

definition task_state_name :: "int \<Rightarrow> string" where
  "task_state_name s = (case map_of STATE_NAMES s of Some n \<Rightarrow> n | None \<Rightarrow> ''unknown'')"

definition is_state :: "int \<Rightarrow> bool" where
  "is_state s \<longleftrightarrow> s \<in> set (map fst STATE_NAMES)"

definition is_terminal :: "int \<Rightarrow> bool" where
  "is_terminal s \<longleftrightarrow> s \<in> set TERMINAL"

definition is_interrupted :: "int \<Rightarrow> bool" where
  "is_interrupted s \<longleftrightarrow> s \<in> set INTERRUPTED"

definition LEGAL_EDGES :: "(int \<times> int) list" where
  "LEGAL_EDGES =
     (let active = [STATE_SUBMITTED, STATE_WORKING] in
      (STATE_SUBMITTED, STATE_WORKING) # List.product active INTERRUPTED @ List.product active TERMINAL @
      map (\<lambda>s. (s, STATE_WORKING)) INTERRUPTED @ List.product INTERRUPTED TERMINAL)"

definition legal_edge :: "int \<Rightarrow> int \<Rightarrow> bool" where
  "legal_edge frm to \<longleftrightarrow> (if \<not> is_state frm \<or> \<not> is_state to then False else (frm, to) \<in> set LEGAL_EDGES)"

definition legal_edges :: "(int \<times> int) list" where
  "legal_edges = sort (remdups LEGAL_EDGES)"

definition verify_transition :: "int \<Rightarrow> int \<Rightarrow> unit res" where
  "verify_transition frm to = (if \<not> legal_edge frm to then Inl (NamingError ''IllegalTransition'') else Inr ())"

section \<open>Transitions\<close>

record transition =
  tr_task :: bytes
  tr_card :: bytes
  tr_frm :: int
  tr_to :: int
  tr_seq :: int
  tr_prev :: bytes

definition transition_bytes :: "transition \<Rightarrow> bytes res" where
  "transition_bytes t =
     encode (M [(U 1, B (tr_task t)), (U 2, B (tr_card t)), (U 3, U (tr_frm t)), (U 4, U (tr_to t)),
       (U 5, U (tr_seq t)), (U 6, B (tr_prev t))])"

definition transition_head :: "prims \<Rightarrow> transition \<Rightarrow> bytes res" where
  "transition_head P t = rbind (transition_bytes t) (\<lambda>b. Inr (sha384 P b))"

definition transition_id :: "prims \<Rightarrow> transition \<Rightarrow> bytes res" where
  "transition_id P t = rbind (transition_bytes t) (\<lambda>b. Inr (content_id_bytes (sha384 P) b))"

definition parse_transition :: "bytes \<Rightarrow> transition res" where
  "parse_transition b =
     rbind (decode_map (NamingError ''NameMalformed'') b) (\<lambda>m.
       case (bstr_field m 1, bstr_field m 2, uint_field m 3, uint_field m 4, uint_field m 5, bstr_field m 6) of
         (Some task, Some crd, Some frm, Some to, Some seq, Some prev) \<Rightarrow>
           Inr \<lparr>tr_task = task, tr_card = crd, tr_frm = frm, tr_to = to, tr_seq = seq, tr_prev = prev\<rparr>
       | _ \<Rightarrow> Inl (NamingError ''NameMalformed''))"

definition sign_transition :: "prims \<Rightarrow> transition \<Rightarrow> int \<Rightarrow> bytes \<Rightarrow> bytes res" where
  "sign_transition P t alg seed = sign_body P alg seed (transition_bytes t)"

definition verify_transition_object :: "prims \<Rightarrow> bytes \<Rightarrow> int \<Rightarrow> int \<Rightarrow> bytes \<Rightarrow> transition res" where
  "verify_transition_object P obj profile alg pubkey =
     rbind (naming_verify_sign1 P obj profile alg pubkey) (\<lambda>payload.
       rbind (parse_transition payload) (\<lambda>t.
         rbind (verify_transition (tr_frm t) (tr_to t)) (\<lambda>_. Inr t)))"

text \<open>The walk, from index \<open>i\<close>, head \<open>h\<close> and the target of the transition before.\<close>

fun verify_task_from ::
  "prims \<Rightarrow> bytes \<Rightarrow> int \<Rightarrow> int \<Rightarrow> bytes \<Rightarrow> int \<Rightarrow> bytes \<Rightarrow> int option \<Rightarrow> bytes list \<Rightarrow> transition list res" where
  "verify_task_from P crd profile alg pk i h prev_to [] = Inr []"
| "verify_task_from P crd profile alg pk i h prev_to (obj # objs) =
     rbind (naming_verify_sign1 P obj profile alg pk) (\<lambda>payload.
       rbind (parse_transition payload) (\<lambda>t.
         if tr_seq t \<noteq> i \<or> tr_prev t \<noteq> h then Inl (NamingError ''TaskChainBroken'')
         else if tr_card t \<noteq> crd then Inl (NamingError ''ForeignCard'')
         else if (if i = 0 then tr_frm t \<noteq> START_STATE else Some (tr_frm t) \<noteq> prev_to)
           then Inl (NamingError ''IllegalTransition'')
         else rbind (verify_transition (tr_frm t) (tr_to t)) (\<lambda>_.
           rbind (transition_head P t) (\<lambda>h'.
             rbind (verify_task_from P crd profile alg pk (i + 1) h' (Some (tr_to t)) objs) (\<lambda>out. Inr (t # out))))))"

definition verify_task_chain :: "prims \<Rightarrow> bytes list \<Rightarrow> bytes \<Rightarrow> int \<Rightarrow> int \<Rightarrow> bytes \<Rightarrow> transition list res" where
  "verify_task_chain P objs crd profile alg pubkey = verify_task_from P crd profile alg pubkey 0 name_genesis None objs"

fun task_gap_from :: "prims \<Rightarrow> int \<Rightarrow> bytes \<Rightarrow> transition list \<Rightarrow> (int \<times> bool) res" where
  "task_gap_from P i h [] = Inr (0, False)"
| "task_gap_from P i h (t # ts) =
     (if tr_seq t \<noteq> i \<or> tr_prev t \<noteq> h then Inr (i, True)
      else rbind (transition_head P t) (\<lambda>h'. task_gap_from P (i + 1) h' ts))"

definition detect_task_gap :: "prims \<Rightarrow> transition list \<Rightarrow> (int \<times> bool) res" where
  "detect_task_gap P transitions = task_gap_from P 0 name_genesis transitions"

section \<open>The table\<close>

lemma legal_edge_cases:
  "legal_edge frm to \<longleftrightarrow>
     frm \<in> {0, 1} \<and> to \<in> {2, 3, 4, 5, 6, 7} \<or> frm \<in> {2, 3} \<and> to \<in> {1, 4, 5, 6, 7} \<or> frm = 0 \<and> to = 1"
  unfolding legal_edge_def is_state_def STATE_NAMES_def LEGAL_EDGES_def Let_def TERMINAL_def INTERRUPTED_def task_state_defs
  by (simp; presburger)

lemma terminal_iff: "is_terminal s \<longleftrightarrow> s \<in> {4, 5, 6, 7}" and interrupted_iff: "is_interrupted s \<longleftrightarrow> s \<in> {2, 3}"
  and state_iff: "is_state s \<longleftrightarrow> s \<in> {0, 1, 2, 3, 4, 5, 6, 7}"
  by (simp_all add: is_terminal_def TERMINAL_def is_interrupted_def INTERRUPTED_def is_state_def STATE_NAMES_def task_state_defs)

lemma verify_transition_Inr [res_simps]: "verify_transition frm to = Inr u \<longleftrightarrow> legal_edge frm to"
  by (simp add: verify_transition_def)

section \<open>Runs of a task\<close>

text \<open>The specification: a run follows legal edges, each leaving the state the one before it reached.\<close>

inductive task_run :: "int \<Rightarrow> (int \<times> int) list \<Rightarrow> int \<Rightarrow> bool" where
  idle: "task_run s [] s"
| edge: "legal_edge s t \<Longrightarrow> task_run t es u \<Longrightarrow> task_run s ((s, t) # es) u"

inductive_simps task_run_Nil [simp]: "task_run s [] u"
inductive_simps task_run_Cons [simp]: "task_run s (e # es) u"

lemma task_run_append: "task_run s (es @ fs) u \<longleftrightarrow> (\<exists>t. task_run s es t \<and> task_run t fs u)"
  by (induction es arbitrary: s) auto

lemma task_run_states: "task_run s es u \<Longrightarrow> is_state s \<Longrightarrow> is_state u"
  by (induction rule: task_run.induct) (auto simp: legal_edge_def split: if_splits)

lemma task_run_terminal: "task_run s es u \<Longrightarrow> is_terminal s \<Longrightarrow> es = []"
  by (cases rule: task_run.cases) (auto simp: legal_edge_cases terminal_iff)

lemma task_run_reached: "task_run s (es @ (a, b) # fs) u \<Longrightarrow> is_terminal b \<Longrightarrow> fs = [] \<and> u = b"
  using task_run_terminal by (fastforce simp: task_run_append)

lemma parse_transition_bytes:
  assumes "transition_bytes t = Inr m"
  shows "parse_transition m = Inr t"
proof -
  have "decode m = Inr (M [(U 1, B (tr_task t)), (U 2, B (tr_card t)), (U 3, U (tr_frm t)), (U 4, U (tr_to t)),
       (U 5, U (tr_seq t)), (U 6, B (tr_prev t))])"
    by (rule decode_fields [OF assms [unfolded transition_bytes_def]]) auto
  then show ?thesis by (simp add: parse_transition_def decode_map_def map_read_defs)
qed

interpretation transition_body: signed_body transition_bytes parse_transition "\<lambda>_. True"
  by unfold_locales (rule parse_transition_bytes)

interpretation task_chain: gap_detector "sha384 P" transition_bytes tr_prev tr_seq "task_gap_from P" for P :: prims
  by unfold_locales (use transition_body.body_inject in \<open>auto simp: transition_head_def rbind_assoc\<close>)

definition task_edges :: "transition list \<Rightarrow> (int \<times> int) list" where
  "task_edges ts = map (\<lambda>t. (tr_frm t, tr_to t)) ts"

lemma task_edges_simps [simp]: "task_edges [] = []" "task_edges (t # ts) = (tr_frm t, tr_to t) # task_edges ts"
  by (simp_all add: task_edges_def)

lemma verify_transition_object_Inr:
  "verify_transition_object P obj profile alg pk = Inr t \<longleftrightarrow>
     (\<exists>payload. naming_verify_sign1 P obj profile alg pk = Inr payload \<and> parse_transition payload = Inr t) \<and>
     legal_edge (tr_frm t) (tr_to t)"
  by (auto simp: verify_transition_object_def res_simps)

lemma verify_task_step:
  "verify_task_from P crd profile alg pk i h prev_to (obj # objs) = Inr (t # ts) \<longleftrightarrow>
     (\<exists>payload. naming_verify_sign1 P obj profile alg pk = Inr payload \<and> parse_transition payload = Inr t) \<and>
     tr_seq t = i \<and> tr_prev t = h \<and> tr_card t = crd \<and>
     \<not> (if i = 0 then tr_frm t \<noteq> START_STATE else Some (tr_frm t) \<noteq> prev_to) \<and> legal_edge (tr_frm t) (tr_to t) \<and>
     (\<exists>m. transition_bytes t = Inr m \<and> verify_task_from P crd profile alg pk (i + 1) (sha384 P m) (Some (tr_to t)) objs = Inr ts)"
  unfolding verify_task_from.simps rbind_eq_Inr if_Inl_eq_Inr Inr_inject list.inject verify_transition_Inr transition_head_def
  by blast

lemma verify_task_from_iff:
  "0 \<le> i \<Longrightarrow> (i = 0 \<longleftrightarrow> prev_to = None) \<Longrightarrow>
   verify_task_from P crd profile alg pk i h prev_to objs = Inr ts \<longleftrightarrow>
     list_all2 (\<lambda>obj t. verify_transition_object P obj profile alg pk = Inr t) objs ts \<and>
     gap_detector.numbered tr_seq i ts \<and> (\<exists>k. task_chain.chained P h ts k) \<and> (\<forall>t \<in> set ts. tr_card t = crd) \<and>
     (\<exists>u. task_run (case prev_to of None \<Rightarrow> START_STATE | Some s \<Rightarrow> s) (task_edges ts) u)"
proof (induction objs arbitrary: i h prev_to ts)
  case (Cons obj objs)
  show ?case
  proof (cases ts)
    case (Cons t ts')
    have IH: "verify_task_from P crd profile alg pk (i + 1) h' (Some (tr_to t)) objs = Inr ts' \<longleftrightarrow>
       list_all2 (\<lambda>obj t. verify_transition_object P obj profile alg pk = Inr t) objs ts' \<and>
       gap_detector.numbered tr_seq (i + 1) ts' \<and> (\<exists>k. task_chain.chained P h' ts' k) \<and> (\<forall>t \<in> set ts'. tr_card t = crd) \<and>
       (\<exists>u. task_run (tr_to t) (task_edges ts') u)" for h'
      using Cons.IH [of "i + 1" "Some (tr_to t)" h' ts'] Cons.prems by simp
    have start: "(if i = 0 then tr_frm t \<noteq> START_STATE else Some (tr_frm t) \<noteq> prev_to) \<longleftrightarrow>
        tr_frm t \<noteq> (case prev_to of None \<Rightarrow> START_STATE | Some s \<Rightarrow> s)" for t
      using Cons.prems by (cases prev_to) auto
    show ?thesis
      unfolding \<open>ts = t # ts'\<close> verify_task_step start IH verify_transition_object_Inr list_all2_Cons task_chain.numbered_Cons
        task_chain.chained.simps task_edges_simps task_run_Cons prod.inject list.set ball_simps insert_iff
      by (cases "transition_bytes t"; simp) (rule iffI; elim conjE; intro conjI; simp)
  qed (auto simp: res_simps)
qed auto

lemma verify_task_chain_iff:
  "verify_task_chain P objs crd profile alg pk = Inr ts \<longleftrightarrow>
     list_all2 (\<lambda>obj t. verify_transition_object P obj profile alg pk = Inr t) objs ts \<and>
     map tr_seq ts = map int [0..<length ts] \<and> (\<exists>h. task_chain.chained P name_genesis ts h) \<and>
     (\<forall>t \<in> set ts. tr_card t = crd) \<and> (\<exists>u. task_run START_STATE (task_edges ts) u)"
  unfolding verify_task_chain_def using verify_task_from_iff [of 0 None]
  by (simp add: task_chain.numbered_def)

lemma transition_roundtrip:
  assumes "md_correct P" and "sign_transition P t alg seed = Inr obj" and "md_key_derive P alg seed = Inr (pk, sk)"
    and "profile_min_level profile \<le> fst (alg_level alg)" and "legal_edge (tr_frm t) (tr_to t)"
  shows "verify_transition_object P obj profile alg pk = Inr t"
  using transition_body.sign1_roundtrip [OF assms(1) assms(2) [unfolded sign_transition_def] assms(3,4)] assms(5)
  by (simp add: verify_transition_object_Inr naming_verify_sign1_def rbind_eq_Inr)

section \<open>Properties of the task-state profile\<close>

text \<open>The table is the imported vocabulary's category rules: an edge is legal exactly between two different
  defined states, leaving no terminal state, never returning to the start state and never from one interrupted state
  to the other. The sorted copy lists each legal edge once.\<close>

theorem task_table_exact:
  "(legal_edge frm to \<longleftrightarrow>
      is_state frm \<and> is_state to \<and> frm \<noteq> to \<and> \<not> is_terminal frm \<and> to \<noteq> START_STATE \<and>
      \<not> (is_interrupted frm \<and> is_interrupted to)) \<and>
   set legal_edges = {(a, b). legal_edge a b} \<and> distinct legal_edges \<and> sorted legal_edges"
proof -
  have "(a, b) \<in> set LEGAL_EDGES \<longleftrightarrow> legal_edge a b" for a b
    unfolding legal_edge_cases LEGAL_EDGES_def Let_def TERMINAL_def INTERRUPTED_def task_state_defs by (simp; presburger)
  then have "set legal_edges = {(a, b). legal_edge a b}" by (auto simp: legal_edges_def)
  moreover have "legal_edge frm to \<longleftrightarrow> is_state frm \<and> is_state to \<and> frm \<noteq> to \<and> \<not> is_terminal frm \<and> to \<noteq> START_STATE \<and>
      \<not> (is_interrupted frm \<and> is_interrupted to)"
    unfolding legal_edge_cases terminal_iff interrupted_iff state_iff task_state_defs by (simp; presburger)
  ultimately show ?thesis by (simp add: legal_edges_def)
qed

text \<open>C30: A task's chain is accepted exactly when every object verifies to its transition, the transitions are numbered
  by position and linked from the zero head, every one binds the expected card, and their edges are one legal
  run from the start state.\<close>

theorem task_chain_exact:
  "verify_task_chain P objs crd profile alg pk = Inr ts \<longleftrightarrow>
     list_all2 (\<lambda>obj t. verify_transition_object P obj profile alg pk = Inr t) objs ts \<and>
     map tr_seq ts = map int [0..<length ts] \<and> (\<exists>h. task_chain.chained P name_genesis ts h) \<and>
     (\<forall>t \<in> set ts. tr_card t = crd) \<and> (\<exists>u. task_run START_STATE (task_edges ts) u)"
  by (rule verify_task_chain_iff)

definition sample_transitions :: "transition list" where
  "sample_transitions =
     (let t = \<lparr>tr_task = [1], tr_card = [9], tr_frm = 0, tr_to = 1, tr_seq = 0, tr_prev = name_genesis\<rparr> in
      [t, \<lparr>tr_task = [2], tr_card = [9], tr_frm = 1, tr_to = 4, tr_seq = 1, tr_prev = projr (transition_bytes t)\<rparr>])"

definition sample_transition_objects :: "bytes list" where
  "sample_transition_objects = map (\<lambda>t. projr (sign_transition sample_prims t ALG_MLDSA65 [7])) sample_transitions"

lemma sample_task_chain:
  "verify_task_chain sample_prims sample_transition_objects [9] PROFILE_PUBLIC ALG_MLDSA65 [7] = Inr sample_transitions"
proof -
  have ok: "list_all (\<lambda>t. is_ok (sign_transition sample_prims t ALG_MLDSA65 [7]) \<and> legal_edge (tr_frm t) (tr_to t)) sample_transitions"
    by code_simp
  have v: "verify_transition_object sample_prims (projr (sign_transition sample_prims t ALG_MLDSA65 [7])) PROFILE_PUBLIC ALG_MLDSA65 [7] = Inr t"
    if t: "t \<in> set sample_transitions" for t
  proof -
    obtain obj where "sign_transition sample_prims t ALG_MLDSA65 [7] = Inr obj" "legal_edge (tr_frm t) (tr_to t)"
      using ok t by (auto simp: list_all_iff is_ok_iff)
    with transition_roundtrip [OF _ this(1), of "[7]" "[7]" PROFILE_PUBLIC] show ?thesis
      by (simp add: profile_min_level_def alg_level_def alg_defs profile_defs)
  qed
  have "list_all2 (\<lambda>obj t. verify_transition_object sample_prims obj PROFILE_PUBLIC ALG_MLDSA65 [7] = Inr t)
      sample_transition_objects sample_transitions"
    unfolding sample_transition_objects_def list_all2_map1 by (auto simp: list_all2_same v)
  moreover have "detect_task_gap sample_prims sample_transitions = Inr (0, False)" by code_simp
  then have "gap_detector.numbered tr_seq 0 sample_transitions" "\<exists>h. task_chain.chained sample_prims name_genesis sample_transitions h"
    unfolding detect_task_gap_def task_chain.scan_clean by blast+
  moreover have "\<forall>t \<in> set sample_transitions. tr_card t = [9]" by (simp add: sample_transitions_def Let_def)
  moreover have "task_edges sample_transitions = [(0, 1), (1, 4)]" by (simp add: sample_transitions_def Let_def)
  then have "\<exists>u. task_run START_STATE (task_edges sample_transitions) u" by (auto simp: legal_edge_cases task_state_defs)
  ultimately show ?thesis unfolding verify_task_chain_iff task_chain.numbered_def by simp
qed

theorem task_chain_exact_witness:
  "map tr_seq sample_transitions = [0, 1] \<and> (\<exists>u. task_run START_STATE (task_edges sample_transitions) u)"
proof -
  have "length sample_transitions = 2" by (simp add: sample_transitions_def Let_def)
  then show ?thesis
    using task_chain_exact [of sample_prims sample_transition_objects "[9]" PROFILE_PUBLIC ALG_MLDSA65 "[7]" sample_transitions]
      sample_task_chain by (simp add: upt_rec)
qed

text \<open>Nothing follows a terminal state: in an accepted chain a transition into one is the last.\<close>

theorem terminal_state_ends_chain:
  assumes "verify_task_chain P objs crd profile alg pk = Inr (ts @ t # us)" and "is_terminal (tr_to t)"
  shows "us = []"
proof -
  obtain u where "task_run START_STATE (task_edges (ts @ t # us)) u" using assms(1) verify_task_chain_iff by blast
  then have "task_edges us = []" using task_run_reached [of START_STATE "task_edges ts"] assms(2) by (auto simp: task_edges_def)
  then show ?thesis by (simp add: task_edges_def)
qed

theorem terminal_state_ends_chain_witness:
  "\<forall>t us. sample_transitions = [sample_transitions ! 0] @ t # us \<longrightarrow> us = []"
  using terminal_state_ends_chain [of sample_prims sample_transition_objects "[9]" PROFILE_PUBLIC ALG_MLDSA65 "[7]" "[sample_transitions ! 0]"]
    sample_task_chain by (auto simp: sample_transitions_def Let_def terminal_iff)

text \<open>The walk compares the cards but not the task ids: this accepted chain moves from task 1 to task 2.\<close>

theorem task_ids_are_not_compared:
  "verify_task_chain sample_prims sample_transition_objects [9] PROFILE_PUBLIC ALG_MLDSA65 [7] = Inr sample_transitions \<and>
   map tr_task sample_transitions = [[1], [2]]"
  using sample_task_chain by (simp add: sample_transitions_def Let_def)

end
