(* ===== verification/Negotiation.thy ===== *)
theory Negotiation
  imports Signed Policy
begin

text \<open>
  Governed negotiation (\<^verbatim>\<open>impl/python/naalp/negotiation.py\<close>): signed offers, counters and accepts linked by
  the content ids of their causes, the walk that decides whether an accept descends from its offer, the
  advisory risk labels with the critical-extension rule, and checkable trust references.
\<close>

section \<open>Messages\<close>

definition ROLE_OFFER :: int where "ROLE_OFFER = 0"
definition ROLE_COUNTER :: int where "ROLE_COUNTER = 1"
definition ROLE_ACCEPT :: int where "ROLE_ACCEPT = 2"

definition ROLE_NAMES :: "(int \<times> string) list" where
  "ROLE_NAMES = [(ROLE_OFFER, ''offer''), (ROLE_COUNTER, ''counter''), (ROLE_ACCEPT, ''accept'')]"

definition known_role :: "int \<Rightarrow> bool" where
  "known_role r \<longleftrightarrow> r \<in> set (map fst ROLE_NAMES)"

definition role_name :: "int \<Rightarrow> string" where
  "role_name r = (case map_of ROLE_NAMES r of Some n \<Rightarrow> n | None \<Rightarrow> ''unknown'')"

definition PROFILE_BASELINE :: int where "PROFILE_BASELINE = 0"
definition PROFILE_STREAMING :: int where "PROFILE_STREAMING = 1"
definition PROFILE_BATCH :: int where "PROFILE_BATCH = 2"

definition PROFILE_NAMES :: "(int \<times> string) list" where
  "PROFILE_NAMES = [(PROFILE_BASELINE, ''baseline''), (PROFILE_STREAMING, ''streaming''), (PROFILE_BATCH, ''batch'')]"

definition is_registered_profile :: "int \<Rightarrow> bool" where
  "is_registered_profile p \<longleftrightarrow> p \<in> set (map fst PROFILE_NAMES)"

definition profile_name :: "int \<Rightarrow> string" where
  "profile_name p = (case map_of PROFILE_NAMES p of Some n \<Rightarrow> n | None \<Rightarrow> ''unknown'')"

lemmas role_defs = ROLE_OFFER_def ROLE_COUNTER_def ROLE_ACCEPT_def ROLE_NAMES_def known_role_def
lemmas capability_defs = PROFILE_BASELINE_def PROFILE_STREAMING_def PROFILE_BATCH_def PROFILE_NAMES_def is_registered_profile_def

record message =
  ms_negotiation :: bytes
  ms_role :: int
  ms_profile :: int
  ms_causes :: "bytes list"

definition message_bytes :: "message \<Rightarrow> bytes res" where
  "message_bytes m =
     encode (M [(U 1, B (ms_negotiation m)), (U 2, U (ms_role m)), (U 3, U (ms_profile m)), (U 4, A (map B (ms_causes m)))])"

definition message_id :: "prims \<Rightarrow> message \<Rightarrow> bytes res" where
  "message_id P m = rbind (message_bytes m) (\<lambda>b. Inr (content_id_bytes (sha384 P) b))"

definition new_offer :: "bytes \<Rightarrow> int \<Rightarrow> message" where
  "new_offer negotiation profile = \<lparr>ms_negotiation = negotiation, ms_role = ROLE_OFFER, ms_profile = profile, ms_causes = []\<rparr>"

definition new_counter :: "bytes \<Rightarrow> int \<Rightarrow> bytes \<Rightarrow> message" where
  "new_counter negotiation profile predecessor_id =
     \<lparr>ms_negotiation = negotiation, ms_role = ROLE_COUNTER, ms_profile = profile, ms_causes = [predecessor_id]\<rparr>"

definition new_accept :: "bytes \<Rightarrow> int \<Rightarrow> bytes \<Rightarrow> message" where
  "new_accept negotiation profile predecessor_id =
     \<lparr>ms_negotiation = negotiation, ms_role = ROLE_ACCEPT, ms_profile = profile, ms_causes = [predecessor_id]\<rparr>"

definition parse_message :: "bytes \<Rightarrow> message res" where
  "parse_message b =
     rbind (decode_map (NegotiationError ''NegMalformed'') b) (\<lambda>m.
       case (bstr_field m 1, uint_field m 2, uint_field m 3, map_field m 4) of
         (Some neg, Some role, Some prof, Some (A items)) \<Rightarrow>
           rbind (read_items (read_bstr (NegotiationError ''NegMalformed'')) items) (\<lambda>causes.
             Inr \<lparr>ms_negotiation = neg, ms_role = role, ms_profile = prof, ms_causes = causes\<rparr>)
       | _ \<Rightarrow> Inl (NegotiationError ''NegMalformed''))"

definition neg_verify_body :: "prims \<Rightarrow> bytes \<Rightarrow> int \<Rightarrow> bytes \<Rightarrow> bytes res" where
  "neg_verify_body = verify_body (NegotiationError ''BadSignature'')"

definition sign_message :: "prims \<Rightarrow> message \<Rightarrow> int \<Rightarrow> bytes \<Rightarrow> bytes res" where
  "sign_message P m alg seed = sign_body P alg seed (message_bytes m)"

definition verify_message :: "prims \<Rightarrow> bytes \<Rightarrow> int \<Rightarrow> int \<Rightarrow> bytes \<Rightarrow> message res" where
  "verify_message P obj profile alg pubkey =
     rbind (neg_verify_body P obj alg pubkey) (\<lambda>b.
       rbind (parse_message b) (\<lambda>msg.
         if \<not> known_role (ms_role msg) then Inl (NegotiationError ''UnknownRole'')
         else if \<not> is_registered_profile (ms_profile msg) then Inl (NegotiationError ''UnknownProfile'')
         else Inr msg))"

section \<open>Descent\<close>

text \<open>The index is a dictionary; as items with the last written first, so that \<^const>\<open>map_of\<close> reads it.\<close>

type_synonym message_index = "(bytes \<times> message) list"

fun index_from :: "prims \<Rightarrow> message_index \<Rightarrow> message list \<Rightarrow> message_index res" where
  "index_from P acc [] = Inr acc"
| "index_from P acc (m # ms) = rbind (message_id P m) (\<lambda>i. index_from P ((i, m) # acc) ms)"

definition index_by_id :: "prims \<Rightarrow> message list \<Rightarrow> message_index res" where
  "index_by_id P msgs = index_from P [] msgs"

text \<open>The walk; the head of \<open>stack\<close> is the end of the Python list, where it pops and extends.\<close>

function descend_loop :: "bytes \<Rightarrow> message_index \<Rightarrow> bytes set \<Rightarrow> bytes list \<Rightarrow> bool" where
  "descend_loop target by_id seen [] = False"
| "descend_loop target by_id seen (cid # stack) =
     (if cid = target then True
      else if cid \<in> seen then descend_loop target by_id seen stack
      else (case map_of by_id cid of
          None \<Rightarrow> descend_loop target by_id (insert cid seen) stack
        | Some pred \<Rightarrow> descend_loop target by_id (insert cid seen) (rev (ms_causes pred) @ stack)))"
  by pat_completeness auto
termination
proof (relation "measures [\<lambda>(target, by_id, seen, stack). card (fst ` set by_id - seen), \<lambda>(target, by_id, seen, stack). length stack]")
  fix target :: bytes and by_id :: message_index and seen cid stack pred
  assume "cid \<notin> seen" "map_of by_id cid = Some pred"
  then have "cid \<in> fst ` set by_id - seen" by (force dest: map_of_SomeD)
  moreover have "fst ` set by_id - insert cid seen = (fst ` set by_id - seen) - {cid}" by auto
  ultimately have "card (fst ` set by_id - insert cid seen) < card (fst ` set by_id - seen)"
    by (simp only:) (intro card_Diff1_less; simp)
  then show "((target, by_id, insert cid seen, rev (ms_causes pred) @ stack), target, by_id, seen, cid # stack)
      \<in> measures [\<lambda>(target, by_id, seen, stack). card (fst ` set by_id - seen), \<lambda>(target, by_id, seen, stack). length stack]"
    by simp
next
  fix target :: bytes and by_id :: message_index and seen cid stack
  have "card (fst ` set by_id - insert cid seen) \<le> card (fst ` set by_id - seen)" by (rule card_mono) auto
  then show "((target, by_id, insert cid seen, stack), target, by_id, seen, cid # stack)
      \<in> measures [\<lambda>(target, by_id, seen, stack). card (fst ` set by_id - seen), \<lambda>(target, by_id, seen, stack). length stack]"
    by auto
qed auto

definition descends :: "message \<Rightarrow> bytes \<Rightarrow> message_index \<Rightarrow> bool" where
  "descends from_msg target_id by_id = descend_loop target_id by_id {} (rev (ms_causes from_msg))"

definition descends_msg :: "prims \<Rightarrow> message \<Rightarrow> message \<Rightarrow> message_index \<Rightarrow> bool res" where
  "descends_msg P accept offer by_id = rbind (message_id P offer) (\<lambda>i. Inr (descends accept i by_id))"

definition verify_accept :: "prims \<Rightarrow> message \<Rightarrow> message \<Rightarrow> message_index \<Rightarrow> int res" where
  "verify_accept P accept offer by_id =
     (if ms_role offer \<noteq> ROLE_OFFER then Inl (NegotiationError ''NotOffer'')
      else if \<not> is_registered_profile (ms_profile offer) then Inl (NegotiationError ''UnknownProfile'')
      else if ms_role accept \<noteq> ROLE_ACCEPT then Inl (NegotiationError ''NotAccept'')
      else if \<not> is_registered_profile (ms_profile accept) then Inl (NegotiationError ''UnknownProfile'')
      else rbind (descends_msg P accept offer by_id) (\<lambda>ok.
        if \<not> ok then Inl (NegotiationError ''NotDescended'') else Inr (ms_profile accept)))"

section \<open>Risk labels\<close>

definition CLASS_INFORMING :: int where "CLASS_INFORMING = 0"
definition CLASS_GATING :: int where "CLASS_GATING = 1"

definition risk_class_name :: "int \<Rightarrow> string" where
  "risk_class_name c =
     (case map_of [(CLASS_INFORMING, ''informing''), (CLASS_GATING, ''gating'')] c of Some n \<Rightarrow> n | None \<Rightarrow> [])"

definition RISK_SENSITIVE :: int where "RISK_SENSITIVE = 1"
definition RISK_EGRESS :: int where "RISK_EGRESS = 2"
definition RISK_REVERSIBLE :: int where "RISK_REVERSIBLE = 3"
definition EXTENSIBLE_RANGE_START :: int where "EXTENSIBLE_RANGE_START = 0x1000"

definition RISK_VOCAB :: "(int \<times> int) list" where
  "RISK_VOCAB = [(RISK_SENSITIVE, CLASS_GATING), (RISK_EGRESS, CLASS_GATING), (RISK_REVERSIBLE, CLASS_INFORMING)]"

definition risk_class_of :: "int \<Rightarrow> int \<times> bool" where
  "risk_class_of code = (case map_of RISK_VOCAB code of Some c \<Rightarrow> (c, True) | None \<Rightarrow> (CLASS_INFORMING, False))"

definition is_registered_risk :: "int \<Rightarrow> bool" where
  "is_registered_risk code \<longleftrightarrow> code \<in> set (map fst RISK_VOCAB)"

definition in_extensible_range :: "int \<Rightarrow> bool" where
  "in_extensible_range code \<longleftrightarrow> code \<ge> EXTENSIBLE_RANGE_START"

record risk_label =
  rl_code :: int
  rl_critical :: int

definition is_critical :: "risk_label \<Rightarrow> bool" where
  "is_critical l \<longleftrightarrow> rl_critical l = 1"

definition risk_label_map :: "risk_label \<Rightarrow> cbor" where
  "risk_label_map l = M [(U 1, U (rl_code l)), (U 2, U (rl_critical l))]"

definition risk_label_from_value :: "cbor \<Rightarrow> risk_label res" where
  "risk_label_from_value v =
     (case v of
        M ps \<Rightarrow>
          (case (uint_field ps 1, uint_field ps 2) of
             (Some code, Some crit) \<Rightarrow>
               if crit > 1 then Inl (NegotiationError ''MalformedCriticalFlag'')
               else Inr \<lparr>rl_code = code, rl_critical = crit\<rparr>
           | _ \<Rightarrow> Inl (NegotiationError ''NegMalformed''))
      | _ \<Rightarrow> Inl (NegotiationError ''NegMalformed''))"

fun validate_labels :: "risk_label list \<Rightarrow> risk_label list res" where
  "validate_labels [] = Inr []"
| "validate_labels (l # ls) =
     (if rl_critical l > 1 then Inl (NegotiationError ''MalformedCriticalFlag'')
      else if is_registered_risk (rl_code l) then rbind (validate_labels ls) (\<lambda>rec. Inr (l # rec))
      else if is_critical l then Inl (NegotiationError ''UnknownCriticalRisk'')
      else validate_labels ls)"

record labeled_object =
  lo_effect :: int
  lo_labels :: "risk_label list"

definition labeled_object_bytes :: "labeled_object \<Rightarrow> bytes res" where
  "labeled_object_bytes ob = encode (M [(U 1, U (lo_effect ob)), (U 2, A (map risk_label_map (lo_labels ob)))])"

definition labeled_effect_class :: "labeled_object \<Rightarrow> int" where
  "labeled_effect_class ob = normalize_effect (lo_effect ob)"

definition parse_labeled_object :: "bytes \<Rightarrow> labeled_object res" where
  "parse_labeled_object b =
     rbind (decode_map (NegotiationError ''NegMalformed'') b) (\<lambda>m.
       case (uint_field m 1, map_field m 2) of
         (Some eff, Some (A items)) \<Rightarrow>
           rbind (read_items risk_label_from_value items) (\<lambda>labels. Inr \<lparr>lo_effect = eff, lo_labels = labels\<rparr>)
       | _ \<Rightarrow> Inl (NegotiationError ''NegMalformed''))"

definition sign_labeled_object :: "prims \<Rightarrow> labeled_object \<Rightarrow> int \<Rightarrow> bytes \<Rightarrow> bytes res" where
  "sign_labeled_object P ob alg seed = sign_body P alg seed (labeled_object_bytes ob)"

definition verify_labeled_object :: "prims \<Rightarrow> bytes \<Rightarrow> int \<Rightarrow> int \<Rightarrow> bytes \<Rightarrow> (labeled_object \<times> risk_label list) res" where
  "verify_labeled_object P obj profile alg pubkey =
     rbind (neg_verify_body P obj alg pubkey) (\<lambda>payload.
       rbind (parse_labeled_object payload) (\<lambda>ob.
         rbind (validate_labels (lo_labels ob)) (\<lambda>recognized. Inr (ob, recognized))))"

section \<open>Trust references\<close>

record trust_ref =
  tf_registry :: bytes
  tf_reference :: bytes
  tf_subject :: bytes

definition trust_ref_bytes :: "trust_ref \<Rightarrow> bytes res" where
  "trust_ref_bytes r = encode (M [(U 1, B (tf_registry r)), (U 2, B (tf_reference r)), (U 3, B (tf_subject r))])"

definition binds_record :: "prims \<Rightarrow> trust_ref \<Rightarrow> bytes \<Rightarrow> bool" where
  "binds_record P r rec \<longleftrightarrow> tf_reference r = content_id_bytes (sha384 P) rec"

definition parse_trust_ref :: "bytes \<Rightarrow> trust_ref res" where
  "parse_trust_ref b =
     rbind (decode_map (NegotiationError ''NegMalformed'') b) (\<lambda>m.
       case (bstr_field m 1, bstr_field m 2, bstr_field m 3) of
         (Some reg, Some ref, Some subj) \<Rightarrow> Inr \<lparr>tf_registry = reg, tf_reference = ref, tf_subject = subj\<rparr>
       | _ \<Rightarrow> Inl (NegotiationError ''NegMalformed''))"

definition sign_trust_ref :: "prims \<Rightarrow> trust_ref \<Rightarrow> int \<Rightarrow> bytes \<Rightarrow> bytes res" where
  "sign_trust_ref P r alg seed = sign_body P alg seed (trust_ref_bytes r)"

definition verify_trust_ref :: "prims \<Rightarrow> bytes \<Rightarrow> int \<Rightarrow> int \<Rightarrow> bytes \<Rightarrow> bytes \<Rightarrow> trust_ref res" where
  "verify_trust_ref P obj profile alg pubkey external_record =
     rbind (neg_verify_body P obj alg pubkey) (\<lambda>payload.
       rbind (parse_trust_ref payload) (\<lambda>r.
         if \<not> binds_record P r external_record then Inl (NegotiationError ''ReferenceMismatch'') else Inr r))"

section \<open>Bodies\<close>

lemma parse_message_bytes:
  assumes "message_bytes m = Inr b"
  shows "parse_message b = Inr m"
proof -
  have "decode b = Inr (M [(U 1, B (ms_negotiation m)), (U 2, U (ms_role m)), (U 3, U (ms_profile m)), (U 4, A (map B (ms_causes m)))])"
    using nesting_bstrs [of "ms_causes m"] by (intro decode_fields [OF assms [unfolded message_bytes_def]]) auto
  then show ?thesis by (simp add: parse_message_def decode_map_def map_read_defs)
qed

interpretation message_body: signed_body message_bytes parse_message "\<lambda>_. True"
  by unfold_locales (rule parse_message_bytes)

definition labels_wf :: "labeled_object \<Rightarrow> bool" where
  "labels_wf ob \<longleftrightarrow> (\<forall>l \<in> set (lo_labels ob). rl_critical l \<le> 1)"

lemma risk_label_map_facts: "canon (risk_label_map l) = risk_label_map l" "nesting (risk_label_map l) \<le> 2"
  unfolding risk_label_map_def by (rule canon_asc; simp) simp

lemma read_risk_label: "rl_critical l \<le> 1 \<Longrightarrow> risk_label_from_value (risk_label_map l) = Inr l"
  by (simp add: risk_label_from_value_def risk_label_map_def map_read_defs)

lemma parse_labeled_object_bytes:
  assumes "labels_wf ob" and "labeled_object_bytes ob = Inr b"
  shows "parse_labeled_object b = Inr ob"
proof -
  let ?ls = "map risk_label_map (lo_labels ob)"
  have "canon (A ?ls) = A ?ls" by (rule array_facts(1)) (rule risk_label_map_facts)+
  moreover have "nesting (A ?ls) \<le> Suc 2" by (rule array_facts(2)) (rule risk_label_map_facts)+
  ultimately have "decode b = Inr (M [(U 1, U (lo_effect ob)), (U 2, A ?ls)])"
    by (intro decode_fields [OF assms(2) [unfolded labeled_object_bytes_def]]) (auto simp del: canon.simps(1) nesting.simps(1))
  moreover have "read_items risk_label_from_value ?ls = Inr (lo_labels ob)"
    using assms(1) by (intro read_items_map) (simp add: labels_wf_def read_risk_label)
  ultimately show ?thesis by (simp add: parse_labeled_object_def decode_map_def map_read_defs)
qed

interpretation labeled_body: signed_body labeled_object_bytes parse_labeled_object labels_wf
  by unfold_locales (rule parse_labeled_object_bytes)

lemma parse_trust_ref_bytes:
  assumes "trust_ref_bytes r = Inr b"
  shows "parse_trust_ref b = Inr r"
proof -
  have "decode b = Inr (M [(U 1, B (tf_registry r)), (U 2, B (tf_reference r)), (U 3, B (tf_subject r))])"
    by (rule decode_fields [OF assms [unfolded trust_ref_bytes_def]]) auto
  then show ?thesis by (simp add: parse_trust_ref_def decode_map_def map_read_defs)
qed

interpretation trust_body: signed_body trust_ref_bytes parse_trust_ref "\<lambda>_. True"
  by unfold_locales (rule parse_trust_ref_bytes)

section \<open>The walk is reachability\<close>

text \<open>The specification: a message leads to an id when it names it, or names a known message that leads to it.\<close>

inductive leads_to :: "message_index \<Rightarrow> message \<Rightarrow> bytes \<Rightarrow> bool" for by_id where
  named: "t \<in> set (ms_causes m) \<Longrightarrow> leads_to by_id m t"
| through: "c \<in> set (ms_causes m) \<Longrightarrow> map_of by_id c = Some m' \<Longrightarrow> leads_to by_id m' t \<Longrightarrow> leads_to by_id m t"

definition cause_edges :: "message_index \<Rightarrow> (bytes \<times> bytes) set" where
  "cause_edges by_id = {(c, d). \<exists>m. map_of by_id c = Some m \<and> d \<in> set (ms_causes m)}"

lemma leads_to_iff: "leads_to by_id m t \<longleftrightarrow> (\<exists>c \<in> set (ms_causes m). (c, t) \<in> (cause_edges by_id)\<^sup>*)"
proof
  show "leads_to by_id m t \<Longrightarrow> \<exists>c \<in> set (ms_causes m). (c, t) \<in> (cause_edges by_id)\<^sup>*"
    by (induction rule: leads_to.induct)
      (auto simp: cause_edges_def intro: converse_rtrancl_into_rtrancl)
next
  assume "\<exists>c \<in> set (ms_causes m). (c, t) \<in> (cause_edges by_id)\<^sup>*"
  then obtain c where c: "c \<in> set (ms_causes m)" "(c, t) \<in> (cause_edges by_id)\<^sup>*" by blast
  from c(2,1) show "leads_to by_id m t"
    by (induction arbitrary: m rule: converse_rtrancl_induct)
      (auto simp: cause_edges_def intro: named through)
qed

lemma seen_escape:
  assumes "(s, t) \<in> R\<^sup>*" and "s \<in> S" and "t \<notin> S" and "\<And>x y. x \<in> S \<Longrightarrow> (x, y) \<in> R \<Longrightarrow> y \<in> S \<union> W"
  shows "\<exists>c \<in> W. (c, t) \<in> R\<^sup>*"
  using assms(1,2)
proof (induction rule: converse_rtrancl_induct)
  case (step y z)
  then show ?case using assms(4) [of y z] by blast
qed (use assms(3) in blast)

lemma descend_loop_iff:
  "target \<notin> seen \<Longrightarrow> (\<And>x y. x \<in> seen \<Longrightarrow> (x, y) \<in> cause_edges by_id \<Longrightarrow> y \<in> seen \<union> set stack) \<Longrightarrow>
   descend_loop target by_id seen stack \<longleftrightarrow> (\<exists>c \<in> set stack. (c, target) \<in> (cause_edges by_id)\<^sup>*)"
proof (induction target by_id seen stack rule: descend_loop.induct)
  case (2 target by_id seen cid stack)
  let ?R = "cause_edges by_id"
  show ?case
  proof (cases "cid = target")
    case ne: False
    show ?thesis
    proof (cases "cid \<in> seen")
      case True
      have inv: "y \<in> seen \<union> set stack" if "x \<in> seen" "(x, y) \<in> ?R" for x y using "2.prems"(2) [OF that] True by auto
      have "descend_loop target by_id seen stack \<longleftrightarrow> (\<exists>c \<in> set stack. (c, target) \<in> ?R\<^sup>*)"
        by (rule "2.IH"(1) [OF ne True "2.prems"(1)]) (rule inv)
      moreover have "\<exists>c \<in> set stack. (c, target) \<in> ?R\<^sup>*" if "(cid, target) \<in> ?R\<^sup>*"
        by (rule seen_escape [OF that True "2.prems"(1) inv])
      ultimately show ?thesis using ne True by auto
    next
      case new: False
      have t: "target \<notin> insert cid seen" using "2.prems"(1) ne by simp
      have first: "(cid, target) \<in> ?R\<^sup>* \<longleftrightarrow> (\<exists>y. (cid, y) \<in> ?R \<and> (y, target) \<in> ?R\<^sup>*)"
        using ne by (metis converse_rtranclE converse_rtrancl_into_rtrancl)
      show ?thesis
      proof (cases "map_of by_id cid")
        case None
        then have none: "(cid, y) \<notin> ?R" for y by (simp add: cause_edges_def)
        have "y \<in> insert cid seen \<union> set stack" if "x \<in> insert cid seen" "(x, y) \<in> ?R" for x y
          using that none "2.prems"(2) [of x y] by auto
        then have "descend_loop target by_id (insert cid seen) stack \<longleftrightarrow> (\<exists>c \<in> set stack. (c, target) \<in> ?R\<^sup>*)"
          by (rule "2.IH"(2) [OF ne new None t])
        then show ?thesis using ne new None first none by simp
      next
        case (Some pred)
        then have succ: "(cid, y) \<in> ?R \<longleftrightarrow> y \<in> set (ms_causes pred)" for y by (simp add: cause_edges_def)
        have "y \<in> insert cid seen \<union> set (rev (ms_causes pred) @ stack)" if "x \<in> insert cid seen" "(x, y) \<in> ?R" for x y
          using that succ "2.prems"(2) [of x y] by auto
        then have "descend_loop target by_id (insert cid seen) (rev (ms_causes pred) @ stack) \<longleftrightarrow>
            (\<exists>c \<in> set (rev (ms_causes pred) @ stack). (c, target) \<in> ?R\<^sup>*)"
          by (rule "2.IH"(3) [OF ne new Some t])
        then show ?thesis using ne new Some first succ by auto
      qed
    qed
  qed simp
qed simp

lemma descends_iff: "descends m t by_id \<longleftrightarrow> leads_to by_id m t"
  unfolding descends_def leads_to_iff by (subst descend_loop_iff) auto

lemma index_from_items:
  "index_from P acc msgs = Inr by_id \<Longrightarrow> (c, m) \<in> set by_id \<Longrightarrow> (c, m) \<in> set acc \<or> m \<in> set msgs \<and> message_id P m = Inr c"
  by (induction P acc msgs rule: index_from.induct) (fastforce simp: rbind_eq_Inr)+

section \<open>Properties of negotiation\<close>

text \<open>C31: An accept is agreed exactly when the offer is an offer and the accept an accept, each with a registered profile,
  the offer can be written, and the accept leads to the offer's content id through the causes of known messages; the
  result is the accept's profile. The walk always ends. Every message the walk passes through has the id it was
  looked up by, so an unresolvable pointer never makes a descent.\<close>

theorem verify_accept_exact:
  "(verify_accept P accept offer by_id = Inr p \<longleftrightarrow>
      ms_role offer = ROLE_OFFER \<and> ms_role accept = ROLE_ACCEPT \<and> is_registered_profile (ms_profile offer) \<and>
      is_registered_profile (ms_profile accept) \<and> p = ms_profile accept \<and>
      (\<exists>i. message_id P offer = Inr i \<and> leads_to by_id accept i)) \<and>
   (index_by_id P msgs = Inr by_id \<longrightarrow> map_of by_id c = Some m \<longrightarrow> message_id P m = Inr c \<and> m \<in> set msgs)"
  using index_from_items [of P "[]" msgs by_id c m]
  by (auto simp: verify_accept_def descends_msg_def descends_iff res_simps index_by_id_def dest: map_of_SomeD)

definition sample_offer :: message where "sample_offer = new_offer [1] 0"

theorem verify_accept_exact_witness:
  "\<exists>by_id i. index_by_id sample_prims [sample_offer] = Inr by_id \<and> message_id sample_prims sample_offer = Inr i \<and>
     verify_accept sample_prims (new_accept [1] 1 i) sample_offer by_id = Inr 1"
proof -
  have "is_ok (index_by_id sample_prims [sample_offer])" by code_simp
  then obtain by_id where b: "index_by_id sample_prims [sample_offer] = Inr by_id" by (auto simp: is_ok_iff)
  then obtain i where i: "message_id sample_prims sample_offer = Inr i" by (auto simp: index_by_id_def rbind_eq_Inr)
  have "leads_to by_id (new_accept [1] 1 i) i" by (rule named) (simp add: new_accept_def)
  then have "verify_accept sample_prims (new_accept [1] 1 i) sample_offer by_id = Inr 1"
    using i unfolding conjunct1 [OF verify_accept_exact]
    by (simp add: sample_offer_def new_offer_def new_accept_def capability_defs)
  with b i show ?thesis by blast
qed

text \<open>The critical-extension rule: a set of labels is accepted exactly when every critical flag is in range and
  every label carried critical is registered, and the result is the registered labels in their order. A refusal is the
  error of the first offending label.\<close>

theorem validate_labels_exact:
  "(validate_labels ls = Inr rs \<longleftrightarrow>
      (\<forall>l \<in> set ls. rl_critical l \<le> 1 \<and> (is_critical l \<le> is_registered_risk (rl_code l))) \<and>
      rs = filter (\<lambda>l. is_registered_risk (rl_code l)) ls) \<and>
   (validate_labels ls = Inl e \<longleftrightarrow>
      (\<exists>l. find (\<lambda>l. rl_critical l > 1 \<or> is_critical l \<and> \<not> is_registered_risk (rl_code l)) ls = Some l \<and>
         e = NegotiationError (if rl_critical l > 1 then ''MalformedCriticalFlag'' else ''UnknownCriticalRisk'')))"
proof (induction ls arbitrary: rs)
  case (Cons l ls)
  show ?case
    using Cons.IH by (cases "rl_critical l > 1"; cases "is_registered_risk (rl_code l)"; cases "is_critical l") (auto simp: rbind_eq_Inr rbind_eq_Inl)
qed auto

text \<open>Signed negotiation objects verify to themselves. A message with a known role and a registered profile comes
  back as it was signed; a labelled object comes back with its effect class untouched by the labels, which
  are split by the critical-extension rule alone; a trust reference comes back exactly for a record it binds,
  and it binds no second record unless the digest collides.\<close>

theorem negotiation_objects_verify:
  assumes "md_correct P" and "md_key_derive P alg seed = Inr (pk, sk)"
  shows "sign_message P m alg seed = Inr obj \<Longrightarrow> known_role (ms_role m) \<Longrightarrow> is_registered_profile (ms_profile m) \<Longrightarrow>
      verify_message P obj profile alg pk = Inr m"
    and "sign_labeled_object P lo alg seed = Inr obj \<Longrightarrow> labels_wf lo \<Longrightarrow>
      verify_labeled_object P obj profile alg pk = rbind (validate_labels (lo_labels lo)) (\<lambda>rec. Inr (lo, rec)) \<and>
      (\<forall>ls. labeled_effect_class (lo\<lparr>lo_labels := ls\<rparr>) = labeled_effect_class lo)"
    and "sign_trust_ref P r alg seed = Inr obj \<Longrightarrow>
      verify_trust_ref P obj profile alg pk rec = (if binds_record P r rec then Inr r else Inl (NegotiationError ''ReferenceMismatch'')) \<and>
      (binds_record P r rec \<longrightarrow> binds_record P r rec' \<longrightarrow> inj_on (sha384 P) {rec, rec'} \<longrightarrow> rec = rec')"
proof -
  assume "sign_message P m alg seed = Inr obj" "known_role (ms_role m)" "is_registered_profile (ms_profile m)"
  moreover from this have "rbind (neg_verify_body P obj alg pk) parse_message = Inr m"
    using message_body.body_roundtrip [OF assms(1) _ assms(2), of m obj] by (simp add: sign_message_def neg_verify_body_def)
  ultimately show "verify_message P obj profile alg pk = Inr m"
    by (auto simp: verify_message_def rbind_eq_Inr)
next
  assume "sign_labeled_object P lo alg seed = Inr obj" "labels_wf lo"
  then have "rbind (neg_verify_body P obj alg pk) parse_labeled_object = Inr lo"
    using labeled_body.body_roundtrip [OF assms(1) _ assms(2), of lo obj]
    by (simp add: sign_labeled_object_def neg_verify_body_def)
  then show "verify_labeled_object P obj profile alg pk = rbind (validate_labels (lo_labels lo)) (\<lambda>rec. Inr (lo, rec)) \<and>
      (\<forall>ls. labeled_effect_class (lo\<lparr>lo_labels := ls\<rparr>) = labeled_effect_class lo)"
    by (auto simp: verify_labeled_object_def labeled_effect_class_def rbind_eq_Inr)
next
  assume "sign_trust_ref P r alg seed = Inr obj"
  then obtain payload where "neg_verify_body P obj alg pk = Inr payload" "parse_trust_ref payload = Inr r"
    using trust_body.body_roundtrip [OF assms(1) _ assms(2), of r obj] by (auto simp: sign_trust_ref_def neg_verify_body_def rbind_eq_Inr)
  then have "verify_trust_ref P obj profile alg pk rec = (if binds_record P r rec then Inr r else Inl (NegotiationError ''ReferenceMismatch''))"
    by (simp add: verify_trust_ref_def)
  moreover have "rec = rec'" if "binds_record P r rec" "binds_record P r rec'" "inj_on (sha384 P) {rec, rec'}"
    using inj_onD [OF that(3), of rec rec'] that(1,2) by (simp add: binds_record_def content_id_bytes_def)
  ultimately show "verify_trust_ref P obj profile alg pk rec = (if binds_record P r rec then Inr r else Inl (NegotiationError ''ReferenceMismatch'')) \<and>
      (binds_record P r rec \<longrightarrow> binds_record P r rec' \<longrightarrow> inj_on (sha384 P) {rec, rec'} \<longrightarrow> rec = rec')"
    by blast
qed

theorem negotiation_objects_verify_witness:
  "\<exists>obj. sign_message sample_prims sample_offer ALG_MLDSA65 [7] = Inr obj \<and>
     verify_message sample_prims obj PROFILE_PUBLIC ALG_MLDSA65 [7] = Inr sample_offer"
proof -
  have "is_ok (sign_message sample_prims sample_offer ALG_MLDSA65 [7])" by code_simp
  then obtain obj where obj: "sign_message sample_prims sample_offer ALG_MLDSA65 [7] = Inr obj" by (auto simp: is_ok_iff)
  have "verify_message sample_prims obj PROFILE_PUBLIC ALG_MLDSA65 [7] = Inr sample_offer"
    by (rule negotiation_objects_verify(1) [OF _ _ obj])
      (simp_all add: sample_offer_def new_offer_def role_defs capability_defs)
  with obj show ?thesis by blast
qed

text \<open>Neither check compares the negotiation ids: an accept of one negotiation can be agreed against an offer of another.\<close>

lemma negotiation_ids_are_not_compared:
  "verify_accept P (accept\<lparr>ms_negotiation := n\<rparr>) offer by_id = verify_accept P accept offer by_id"
  by (cases "message_id P offer") (simp_all add: verify_accept_def descends_msg_def descends_def)

end
