(* ===== verification/Payment.thy ===== *)
theory Payment
  imports Signed Ledger
begin

text \<open>
  Imported payments (\<^verbatim>\<open>impl/python/naalp/payment.py\<close>): the signed import that carries a foreign payment payload
  octet for octet, the charge binding that an approval names by content id, and the gate that spends
  such an approval once through the consume ledger.
\<close>

section \<open>Imports and charge bindings\<close>

definition CHARGE_EFFECT :: int where "CHARGE_EFFECT = NON_IDEMPOTENT_WRITE"

definition FORMAT_AP2_MANDATE :: int where "FORMAT_AP2_MANDATE = 1"
definition FORMAT_ACP_TOKEN :: int where "FORMAT_ACP_TOKEN = 2"
definition FORMAT_X402 :: int where "FORMAT_X402 = 3"

definition FORMAT_NAMES :: "(int \<times> string) list" where
  "FORMAT_NAMES =
     [(FORMAT_AP2_MANDATE, ''ap2-mandate''), (FORMAT_ACP_TOKEN, ''acp-delegated-token''), (FORMAT_X402, ''x402-payload'')]"

definition is_registered_format :: "int \<Rightarrow> bool" where
  "is_registered_format code \<longleftrightarrow> code \<in> set (map fst FORMAT_NAMES)"

definition format_name :: "int \<Rightarrow> string" where
  "format_name code = (case map_of FORMAT_NAMES code of Some n \<Rightarrow> n | None \<Rightarrow> ''unknown'')"

lemmas format_defs = FORMAT_AP2_MANDATE_def FORMAT_ACP_TOKEN_def FORMAT_X402_def FORMAT_NAMES_def is_registered_format_def

record payment_import =
  pi_format :: int
  pi_amount :: int
  pi_currency :: pystr
  pi_payee :: bytes
  pi_not_after :: int
  pi_foreign :: bytes

record charge_binding =
  cb_format :: int
  cb_amount :: int
  cb_currency :: pystr
  cb_payee :: bytes
  cb_not_after :: int
  cb_foreign_id :: bytes

definition payment_import_bytes :: "payment_import \<Rightarrow> bytes res" where
  "payment_import_bytes p =
     encode (M [(U 1, U (pi_format p)), (U 2, U (pi_amount p)), (U 3, T (pi_currency p)), (U 4, B (pi_payee p)),
       (U 5, U (pi_not_after p)), (U 6, B (pi_foreign p))])"

definition foreign_id :: "prims \<Rightarrow> payment_import \<Rightarrow> bytes" where
  "foreign_id P p = content_id_bytes (sha384 P) (pi_foreign p)"

definition charge_binding_of :: "prims \<Rightarrow> payment_import \<Rightarrow> charge_binding" where
  "charge_binding_of P p =
     \<lparr>cb_format = pi_format p, cb_amount = pi_amount p, cb_currency = pi_currency p, cb_payee = pi_payee p,
      cb_not_after = pi_not_after p, cb_foreign_id = foreign_id P p\<rparr>"

definition charge_binding_bytes :: "charge_binding \<Rightarrow> bytes res" where
  "charge_binding_bytes c =
     encode (M [(U 1, U (cb_format c)), (U 2, U (cb_amount c)), (U 3, T (cb_currency c)), (U 4, B (cb_payee c)),
       (U 5, U (cb_not_after c)), (U 6, B (cb_foreign_id c))])"

definition charge_content_id :: "prims \<Rightarrow> charge_binding \<Rightarrow> bytes res" where
  "charge_content_id P c = rbind (charge_binding_bytes c) (\<lambda>b. Inr (content_id_bytes (sha384 P) b))"

definition parse_payment_import :: "bytes \<Rightarrow> payment_import res" where
  "parse_payment_import b =
     rbind (decode_map (PayError ''PayMalformed'') b) (\<lambda>m.
       case (uint_field m 1, uint_field m 2, tstr_field m 3, bstr_field m 4, uint_field m 5, bstr_field m 6) of
         (Some fmt, Some amt, Some cur, Some payee, Some na, Some foreign) \<Rightarrow>
           Inr \<lparr>pi_format = fmt, pi_amount = amt, pi_currency = cur, pi_payee = payee, pi_not_after = na, pi_foreign = foreign\<rparr>
       | _ \<Rightarrow> Inl (PayError ''PayMalformed''))"

definition sign_payment_import :: "prims \<Rightarrow> payment_import \<Rightarrow> int \<Rightarrow> bytes \<Rightarrow> bytes res" where
  "sign_payment_import P p alg seed = sign_body P alg seed (payment_import_bytes p)"

definition verify_payment_import :: "prims \<Rightarrow> bytes \<Rightarrow> int \<Rightarrow> int \<Rightarrow> bytes \<Rightarrow> payment_import res" where
  "verify_payment_import P ob prof alg pubkey =
     rbind (case parse_sign1_raw ob of
         Inl e \<Rightarrow> Inl (if is_value_error e then PayError ''PayMalformed'' else e)
       | Inr parts \<Rightarrow> Inr parts) (\<lambda>parts.
       rbind (check_sign1 PayError ''PayMalformed'' P parts prof alg pubkey) (\<lambda>payload.
         rbind (parse_payment_import payload) (\<lambda>p.
           if \<not> is_registered_format (pi_format p) then Inl (PayError ''UnknownPaymentFormat'') else Inr p)))"

section \<open>The charge gate\<close>

definition authorize_charge ::
  "prims \<Rightarrow> payment_import \<Rightarrow> approval_record \<Rightarrow> int \<Rightarrow> bytes \<Rightarrow> bytes \<Rightarrow> pystr \<Rightarrow> int \<Rightarrow> ledger \<Rightarrow> (ledger \<times> entry) res" where
  "authorize_charge P p appr alg approver_pk appr_sig by_whom now led =
     (if \<not> is_registered_format (pi_format p) then Inl (PayError ''UnknownPaymentFormat'')
      else rbind (charge_content_id P (charge_binding_of P p)) (\<lambda>charge_cid.
        rbind (verify_approval P appr alg approver_pk appr_sig charge_cid now) (\<lambda>_.
          if \<not> authorizes (grant_effect appr) CHARGE_EFFECT then Inl (PayError ''ApprovalRequired'')
          else rbind (approval_record_id P appr) (\<lambda>aid. consume P led aid by_whom))))"

section \<open>Bodies\<close>

lemma parse_payment_import_bytes:
  assumes "payment_import_bytes p = Inr m"
  shows "parse_payment_import m = Inr p"
proof -
  have "decode m = Inr (M [(U 1, U (pi_format p)), (U 2, U (pi_amount p)), (U 3, T (pi_currency p)), (U 4, B (pi_payee p)),
       (U 5, U (pi_not_after p)), (U 6, B (pi_foreign p))])"
    by (rule decode_fields [OF assms [unfolded payment_import_bytes_def]]) auto
  then show ?thesis by (simp add: parse_payment_import_def decode_map_def map_read_defs)
qed

interpretation payment_body: signed_body payment_import_bytes parse_payment_import "\<lambda>_. True"
  by unfold_locales (rule parse_payment_import_bytes)

lemma charge_binding_inject:
  assumes "charge_binding_bytes a = Inr m" and "charge_binding_bytes b = Inr m"
  shows "a = b"
proof -
  have "[(U 1, U (cb_format a)), (U 2, U (cb_amount a)), (U 3, T (cb_currency a)), (U 4, B (cb_payee a)),
       (U 5, U (cb_not_after a)), (U 6, B (cb_foreign_id a))] =
      [(U 1, U (cb_format b)), (U 2, U (cb_amount b)), (U 3, T (cb_currency b)), (U 4, B (cb_payee b)),
       (U 5, U (cb_not_after b)), (U 6, B (cb_foreign_id b))]"
    by (rule encode_fields_inject [OF assms [unfolded charge_binding_bytes_def]]) auto
  then show ?thesis by (cases a; cases b) simp
qed

lemma charge_terms_bound:
  assumes "charge_content_id P (charge_binding_of P p) = Inr c" and "charge_content_id P (charge_binding_of P q) = Inr c"
    and "\<And>m n. charge_binding_bytes (charge_binding_of P p) = Inr m \<Longrightarrow> charge_binding_bytes (charge_binding_of P q) = Inr n \<Longrightarrow>
      inj_on (sha384 P) {m, n}"
    and "inj_on (sha384 P) {pi_foreign p, pi_foreign q}"
  shows "p = q"
proof -
  obtain m n where m: "charge_binding_bytes (charge_binding_of P p) = Inr m" "charge_binding_bytes (charge_binding_of P q) = Inr n"
    and "content_id_bytes (sha384 P) m = content_id_bytes (sha384 P) n"
    using assms(1,2) by (auto simp: charge_content_id_def rbind_eq_Inr)
  then have "sha384 P m = sha384 P n" by (simp add: content_id_bytes_def)
  then have "m = n" using inj_onD [OF assms(3) [OF m]] by blast
  then have eq: "charge_binding_of P p = charge_binding_of P q" using charge_binding_inject m by blast
  then have "sha384 P (pi_foreign p) = sha384 P (pi_foreign q)"
    by (simp add: charge_binding_of_def foreign_id_def content_id_bytes_def)
  then have "pi_foreign p = pi_foreign q" using inj_onD [OF assms(4)] by blast
  with eq show ?thesis by (cases p; cases q) (simp add: charge_binding_of_def)
qed

lemma authorize_charge_Inr:
  "authorize_charge P p a alg pk sig w now led = Inr (led', e) \<longleftrightarrow>
     is_registered_format (pi_format p) \<and>
     (\<exists>cid. charge_content_id P (charge_binding_of P p) = Inr cid \<and> verify_approval P a alg pk sig cid now = Inr ()) \<and>
     2 \<le> grant_effect a \<and> (\<exists>aid. approval_record_id P a = Inr aid \<and> consume P led aid w = Inr (led', e))"
  by (auto simp: authorize_charge_def res_simps authorizes_def CHARGE_EFFECT_def effect_defs)

section \<open>Properties of payments\<close>

lemma charge_facts:
  assumes "open_ledger P file auth = Inr led" and "authorize_charge P p a alg pk sig w now led = Inr (led', e)"
    and "ledger_run P led' tr l"
  shows "is_registered_format (pi_format p) \<and> 2 \<le> grant_effect a \<and> now \<le> not_after a \<and>
      (\<exists>m. approval_bytes a = Inr m \<and> cose_verify1_raw P alg pk m sig = Inr True \<and> e_approval_id e = content_id_bytes (sha384 P) m) \<and>
      charge_content_id P (charge_binding_of P p) = Inr (approves a) \<and> \<not> is_consumed led (e_approval_id e)"
    and "authorize_charge P q a alg' pk' sig' w' now' l \<noteq> Inr y"
    and "authorize_charge P q a alg' pk' sig' w' now' led2 = Inr y \<Longrightarrow>
      (\<And>m n. charge_binding_bytes (charge_binding_of P p) = Inr m \<Longrightarrow> charge_binding_bytes (charge_binding_of P q) = Inr n \<Longrightarrow>
        inj_on (sha384 P) {m, n}) \<Longrightarrow>
      inj_on (sha384 P) {pi_foreign p, pi_foreign q} \<Longrightarrow> q = p"
proof -
  obtain cid aid where fmt: "is_registered_format (pi_format p)" "2 \<le> grant_effect a"
    and cid: "charge_content_id P (charge_binding_of P p) = Inr cid" and v: "verify_approval P a alg pk sig cid now = Inr ()"
    and aid: "approval_record_id P a = Inr aid" and c: "consume P led aid w = Inr (led', e)"
    using assms(2) by (auto simp: authorize_charge_Inr)
  note new = consumed_once [OF assms(1) c assms(3)]
  show "is_registered_format (pi_format p) \<and> 2 \<le> grant_effect a \<and> now \<le> not_after a \<and>
      (\<exists>m. approval_bytes a = Inr m \<and> cose_verify1_raw P alg pk m sig = Inr True \<and> e_approval_id e = content_id_bytes (sha384 P) m) \<and>
      charge_content_id P (charge_binding_of P p) = Inr (approves a) \<and> \<not> is_consumed led (e_approval_id e)"
    using fmt v aid cid new(1,2) by (auto simp: verify_approval_Inr approval_record_id_def rbind_eq_Inr)
  show "authorize_charge P q a alg' pk' sig' w' now' l \<noteq> Inr y"
    using aid new(3) by (cases y) (simp add: authorize_charge_Inr)
next
  assume y: "authorize_charge P q a alg' pk' sig' w' now' led2 = Inr y"
    and inj: "\<And>m n. charge_binding_bytes (charge_binding_of P p) = Inr m \<Longrightarrow> charge_binding_bytes (charge_binding_of P q) = Inr n \<Longrightarrow>
        inj_on (sha384 P) {m, n}" "inj_on (sha384 P) {pi_foreign p, pi_foreign q}"
  have "charge_content_id P (charge_binding_of P p) = Inr (approves a)"
    using assms(2) by (auto simp: authorize_charge_Inr verify_approval_Inr)
  moreover have "charge_content_id P (charge_binding_of P q) = Inr (approves a)"
    using y by (cases y) (auto simp: authorize_charge_Inr verify_approval_Inr)
  ultimately show "q = p" using charge_terms_bound [OF _ _ inj] by blast
qed

text \<open>C7: A charge goes through exactly when the format is registered, the approval is signed by the approver's key, binds
  the content id of this exact charge, is not past its time, grants at least a non-idempotent write, and its
  id is appended to the ledger. Then no later charge with that approval succeeds on the ledger, whatever ran
  in between and whatever the import; and any import the same approval would authorize, on any ledger, is the same import
  in every term and in its foreign payload, unless the digest collides.\<close>

theorem charge_authorized_once:
  assumes "open_ledger P file auth = Inr led" and "authorize_charge P p a alg pk sig w now led = Inr (led', e)"
    and "ledger_run P led' tr l"
  shows "is_registered_format (pi_format p) \<and> 2 \<le> grant_effect a \<and> now \<le> not_after a \<and>
      (\<exists>m. approval_bytes a = Inr m \<and> cose_verify1_raw P alg pk m sig = Inr True \<and> e_approval_id e = content_id_bytes (sha384 P) m) \<and>
      charge_content_id P (charge_binding_of P p) = Inr (approves a) \<and> \<not> is_consumed led (e_approval_id e) \<and>
      (\<forall>q alg' pk' sig' w' now' y. authorize_charge P q a alg' pk' sig' w' now' l \<noteq> Inr y) \<and>
      (\<forall>q alg' pk' sig' w' now' led2 y. authorize_charge P q a alg' pk' sig' w' now' led2 = Inr y \<longrightarrow>
        (\<forall>m n. charge_binding_bytes (charge_binding_of P p) = Inr m \<longrightarrow> charge_binding_bytes (charge_binding_of P q) = Inr n \<longrightarrow>
          inj_on (sha384 P) {m, n}) \<longrightarrow>
        inj_on (sha384 P) {pi_foreign p, pi_foreign q} \<longrightarrow> q = p)"
  using charge_facts(1) [OF assms] charge_facts(2) [OF assms] charge_facts(3) [OF assms] by blast

definition sample_payment :: payment_import where
  "sample_payment = \<lparr>pi_format = 3, pi_amount = 100, pi_currency = [85], pi_payee = [4], pi_not_after = 50, pi_foreign = [1, 2, 3]\<rparr>"

definition sample_charge_approval :: "int \<Rightarrow> approval_record" where
  "sample_charge_approval g =
     \<lparr>approves = projr (charge_content_id sample_prims (charge_binding_of sample_prims sample_payment)),
      approver = [97], grant_effect = g, nonce = [3], not_after = 9, ap_audience = []\<rparr>"

theorem charge_authorized_once_witness:
  "\<exists>sig led' e. authorize_charge sample_prims sample_payment (sample_charge_approval 2) (- 49) [5] sig [98] 8 sample_ledger = Inr (led', e) \<and>
     (\<forall>q y. authorize_charge sample_prims q (sample_charge_approval 2) (- 49) [5] sig [98] 8 led' \<noteq> Inr y)"
proof -
  have "case sign_approval sample_prims (sample_charge_approval 2) (- 49) [5] of Inl _ \<Rightarrow> False | Inr sig \<Rightarrow>
      is_ok (authorize_charge sample_prims sample_payment (sample_charge_approval 2) (- 49) [5] sig [98] 8 sample_ledger)"
    by code_simp
  then obtain sig led' e
    where c: "authorize_charge sample_prims sample_payment (sample_charge_approval 2) (- 49) [5] sig [98] 8 sample_ledger = Inr (led', e)"
    by (auto simp: is_ok_iff split: sum.splits)
  from charge_authorized_once [OF sample_ledger_opens c ledger_run.start]
  have "\<forall>q y. authorize_charge sample_prims q (sample_charge_approval 2) (- 49) [5] sig [98] 8 led' \<noteq> Inr y" by simp
  with c show ?thesis by (intro exI conjI)
qed

text \<open>A signed import of a registered format verifies to itself, so its foreign payload comes back octet for octet; and
  whatever verifies is of a registered format, meets the profile's floor and was parsed from the signed payload.\<close>

theorem payment_import_roundtrip:
  assumes "md_correct P" and "sign_payment_import P p alg seed = Inr ob" and "md_key_derive P alg seed = Inr (pk, sk)"
    and "profile_min_level prof \<le> fst (alg_level alg)" and "is_registered_format (pi_format p)"
  shows "verify_payment_import P ob prof alg pk = Inr p"
    and "verify_payment_import P ob' prof' alg' pk' = Inr q \<Longrightarrow>
      is_registered_format (pi_format q) \<and> profile_min_level prof' \<le> fst (alg_level alg') \<and>
      (\<exists>prot payload sig tbs. parse_sign1_raw ob' = Inr (prot, payload, sig) \<and> to_be_signed_raw prot payload = Inr tbs \<and>
         cose_verify1_raw P alg' pk' tbs sig = Inr True \<and> parse_payment_import payload = Inr q)"
proof -
  have "rbind (verify_sign1 PayError ''PayMalformed'' P ob prof alg pk) parse_payment_import = Inr p"
    by (rule payment_body.sign1_roundtrip [OF assms(1) assms(2) [unfolded sign_payment_import_def] assms(3,4)]) simp
  then show "verify_payment_import P ob prof alg pk = Inr p"
    using assms(5) by (auto simp: verify_payment_import_def verify_sign1_def rbind_eq_Inr)
  assume "verify_payment_import P ob' prof' alg' pk' = Inr q"
  then obtain prot payload0 sig payload where "parse_sign1_raw ob' = Inr (prot, payload0, sig)"
    "check_sign1 PayError ''PayMalformed'' P (prot, payload0, sig) prof' alg' pk' = Inr payload"
    "parse_payment_import payload = Inr q" "is_registered_format (pi_format q)"
    by (auto simp: verify_payment_import_def res_simps split: sum.splits)
  then show "is_registered_format (pi_format q) \<and> profile_min_level prof' \<le> fst (alg_level alg') \<and>
      (\<exists>prot payload sig tbs. parse_sign1_raw ob' = Inr (prot, payload, sig) \<and> to_be_signed_raw prot payload = Inr tbs \<and>
         cose_verify1_raw P alg' pk' tbs sig = Inr True \<and> parse_payment_import payload = Inr q)"
    unfolding check_sign1_iff by blast
qed

theorem payment_import_roundtrip_witness:
  "\<exists>ob. sign_payment_import sample_prims sample_payment ALG_MLDSA65 [7] = Inr ob \<and>
     verify_payment_import sample_prims ob PROFILE_PUBLIC ALG_MLDSA65 [7] = Inr sample_payment"
proof -
  have "is_ok (sign_payment_import sample_prims sample_payment ALG_MLDSA65 [7])" by code_simp
  then obtain ob where ob: "sign_payment_import sample_prims sample_payment ALG_MLDSA65 [7] = Inr ob" by (auto simp: is_ok_iff)
  have "verify_payment_import sample_prims ob PROFILE_PUBLIC ALG_MLDSA65 [7] = Inr sample_payment"
    by (rule payment_import_roundtrip(1) [OF _ ob])
      (simp_all add: profile_min_level_def alg_level_def alg_defs profile_defs sample_payment_def format_defs)
  with ob show ?thesis by blast
qed

text \<open>
  The spine's choke point refuses an approval whose grant is outside the effect lattice; the charge gate has no
  such check, so the approval below is spent by a charge although the choke point refuses it.
\<close>

theorem charge_accepts_unknown_grant:
  "\<exists>sig. is_ok (authorize_charge sample_prims sample_payment (sample_charge_approval 7) (- 49) [5] sig [98] 8 sample_ledger) \<and>
     (\<forall>cid. \<not> is_ok (consume_approval sample_prims (sample_charge_approval 7) (- 49) [5] sig cid 8 CHARGE_EFFECT sample_ledger [98]))"
proof -
  have "case sign_approval sample_prims (sample_charge_approval 7) (- 49) [5] of Inl _ \<Rightarrow> False | Inr sig \<Rightarrow>
      is_ok (authorize_charge sample_prims sample_payment (sample_charge_approval 7) (- 49) [5] sig [98] 8 sample_ledger)"
    by code_simp
  then obtain sig where "is_ok (authorize_charge sample_prims sample_payment (sample_charge_approval 7) (- 49) [5] sig [98] 8 sample_ledger)"
    by (auto split: sum.splits)
  moreover have "\<not> is_ok (consume_approval sample_prims (sample_charge_approval 7) (- 49) [5] sig cid 8 CHARGE_EFFECT sample_ledger [98])" for cid
    by (auto simp: is_ok_iff consume_approval_Inr sample_charge_approval_def)
  ultimately show ?thesis by blast
qed

end
