(* ===== verification/Carriage.thy ===== *)
theory Carriage
  imports Signed Records Envelope
begin

text \<open>
  Foreign carriage by class (\<^verbatim>\<open>impl/python/naalp/carriage.py\<close>): the body that carries a foreign message octet for
  octet, its reader, the class and protocol-id registries, delivery reports and the authority of a carriage object.
\<close>

section \<open>Carriage bodies\<close>

definition CLASS_NAMES :: "string list" where
  "CLASS_NAMES = [''JSONRPC'', ''HTTP'', ''MSG'', ''STREAM'', ''DOC'', ''OPAQUE'']"

definition carriage_class_name :: "int \<Rightarrow> string" where
  "carriage_class_name c = (if 0 \<le> c \<and> c < int (length CLASS_NAMES) then CLASS_NAMES ! nat c else ''unknown'')"

record carriage =
  cg_protocol_id :: int
  cg_klass :: int
  cg_content_type :: int
  cg_correlation :: bytes
  cg_method :: pystr
  cg_foreign :: bytes

definition carriage_value :: "carriage \<Rightarrow> cbor" where
  "carriage_value c =
     M [(U 1, U (cg_protocol_id c)), (U 2, U (cg_klass c)), (U 3, U (cg_content_type c)), (U 4, B (cg_correlation c)),
       (U 5, T (cg_method c)), (U 6, B (cg_foreign c))]"

definition carriage_bytes :: "carriage \<Rightarrow> bytes res" where
  "carriage_bytes c = encode (carriage_value c)"

definition validate_class :: "int \<Rightarrow> unit res" where
  "validate_class klass = (if klass > CLASS_OPAQUE \<or> klass < 0 then Inl (CarriageError ''MappingError'') else Inr ())"

definition carry :: "int \<Rightarrow> int \<Rightarrow> int \<Rightarrow> bytes \<Rightarrow> pystr \<Rightarrow> bytes \<Rightarrow> carriage res" where
  "carry protocol_id klass content_type correlation method foreign =
     rbind (validate_class klass) (\<lambda>_.
       Inr \<lparr>cg_protocol_id = protocol_id, cg_klass = klass, cg_content_type = content_type, cg_correlation = correlation,
         cg_method = method, cg_foreign = foreign\<rparr>)"

text \<open>The reading loop: the fields so far and whether the foreign field was seen.\<close>

definition carriage_step :: "carriage \<times> bool \<Rightarrow> cbor \<times> cbor \<Rightarrow> (carriage \<times> bool) res" where
  "carriage_step st p =
     (case st of (c, have_foreign) \<Rightarrow>
       (case fst p of
          U k \<Rightarrow>
            if k = 1 then (case snd p of U n \<Rightarrow> Inr (c\<lparr>cg_protocol_id := n\<rparr>, have_foreign) | _ \<Rightarrow> Inl (CarriageError ''Malformed''))
            else if k = 2 then (case snd p of U n \<Rightarrow> Inr (c\<lparr>cg_klass := n\<rparr>, have_foreign) | _ \<Rightarrow> Inl (CarriageError ''Malformed''))
            else if k = 3 then (case snd p of U n \<Rightarrow> Inr (c\<lparr>cg_content_type := n\<rparr>, have_foreign) | _ \<Rightarrow> Inl (CarriageError ''Malformed''))
            else if k = 4 then (case snd p of B b \<Rightarrow> Inr (c\<lparr>cg_correlation := b\<rparr>, have_foreign) | _ \<Rightarrow> Inl (CarriageError ''Malformed''))
            else if k = 5 then (case snd p of T t \<Rightarrow> Inr (c\<lparr>cg_method := t\<rparr>, have_foreign) | _ \<Rightarrow> Inl (CarriageError ''Malformed''))
            else if k = 6 then (case snd p of B b \<Rightarrow> Inr (c\<lparr>cg_foreign := b\<rparr>, True) | _ \<Rightarrow> Inl (CarriageError ''Malformed''))
            else Inl (CarriageError ''Malformed'')
        | _ \<Rightarrow> Inl (CarriageError ''Malformed'')))"

definition empty_carriage :: carriage where
  "empty_carriage = \<lparr>cg_protocol_id = 0, cg_klass = 0, cg_content_type = 0, cg_correlation = [], cg_method = [], cg_foreign = []\<rparr>"

definition carriage_from_value :: "cbor \<Rightarrow> carriage res" where
  "carriage_from_value v =
     (case v of
        M ps \<Rightarrow> rbind (rfold carriage_step (empty_carriage, False) ps) (\<lambda>(c, have_foreign).
          if \<not> have_foreign then Inl (CarriageError ''Malformed'')
          else rbind (validate_class (cg_klass c)) (\<lambda>_. Inr c))
      | _ \<Rightarrow> Inl (CarriageError ''Malformed''))"

section \<open>Registries, reports and authority\<close>

definition protocol_range :: "int \<Rightarrow> string" where
  "protocol_range i =
     (if i = 0x00 then ''reserved'' else if i \<le> 0x0F then ''standards'' else if i \<le> 0x7F then ''experimental''
      else if i \<le> 0xFF then ''private'' else ''invalid'')"

record delivery_report =
  delivered :: bool

definition report :: "bool \<Rightarrow> delivery_report res" where
  "report delivered_below =
     (if \<not> delivered_below then Inl (CarriageError ''NotDelivered'') else Inr \<lparr>delivered = True\<rparr>)"

definition carriage_authority :: "obj \<Rightarrow> bytes" where
  "carriage_authority ob = signer ob"

section \<open>The reader inverts the writer\<close>

definition has_key :: "int \<Rightarrow> (cbor \<times> cbor) list \<Rightarrow> bool" where
  "has_key k ps \<longleftrightarrow> U k \<in> fst ` set ps"

lemma carriage_step_Inr:
  assumes "carriage_step (c, h) p = Inr (c', h')"
  shows "\<exists>k v. p = (U k, v) \<and> k \<in> {1..6} \<and> (h' \<longleftrightarrow> h \<or> k = 6) \<and> (k = 6 \<longrightarrow> v = B (cg_foreign c')) \<and> (k \<noteq> 6 \<longrightarrow> cg_foreign c' = cg_foreign c)"
  using assms by (cases p) (auto simp: carriage_step_def split: cbor.splits if_splits)

lemma carriage_fold:
  "rfold carriage_step (c, h) ps = Inr (c', h') \<Longrightarrow>
     (\<forall>p \<in> set ps. \<exists>k \<in> {1..6}. fst p = U k) \<and> (h' \<longleftrightarrow> h \<or> has_key 6 ps) \<and>
     (if has_key 6 ps then (U 6, B (cg_foreign c')) \<in> set ps else cg_foreign c' = cg_foreign c)"
proof (induction ps arbitrary: c h)
  case (Cons p ps)
  obtain d g where s: "carriage_step (c, h) p = Inr (d, g)" and t: "rfold carriage_step (d, g) ps = Inr (c', h')"
    using Cons.prems by (auto simp: rbind_eq_Inr)
  show ?case using Cons.IH [OF t] carriage_step_Inr [OF s] by (auto simp: has_key_def split: if_splits)
qed (auto simp: has_key_def)

lemma carriage_from_value_written:
  "validate_class (cg_klass c) = Inr u \<Longrightarrow> carriage_from_value (carriage_value c) = Inr c"
  by (cases c) (simp add: carriage_from_value_def carriage_value_def carriage_step_def empty_carriage_def)

lemma decode_carriage: "carriage_bytes c = Inr b \<Longrightarrow> decode b = Inr (carriage_value c)"
  unfolding carriage_bytes_def carriage_value_def by (erule decode_fields) auto

interpretation carriage_codec: signed_body carriage_bytes "\<lambda>b. rbind (decode b) carriage_from_value"
  "\<lambda>c. validate_class (cg_klass c) = Inr ()"
  by unfold_locales (simp add: decode_carriage carriage_from_value_written)

section \<open>Properties of carriage\<close>

text \<open>Carriage is octet for octet. Whatever is wrapped has a defined class, its written body decodes and reads
  back to the same fields and the same foreign bytes, and the record module's builder writes exactly the
  same body. Whatever the reader accepts has only the six known keys, a defined class, and as its foreign
  message the bytes of field 6.\<close>

theorem carriage_roundtrip:
  "(case carry pid klass ct corr method foreign of
      Inl e \<Rightarrow> (klass < 0 \<or> klass > 5) \<and> e = CarriageError ''MappingError'' \<and>
        (klass > 5 \<longrightarrow> carriage_body pid klass ct corr method foreign = Inl MappingError)
    | Inr c \<Rightarrow> 0 \<le> klass \<and> klass \<le> 5 \<and> cg_foreign c = foreign \<and>
        carriage_body pid klass ct corr method foreign = carriage_bytes c \<and> carriage_from_value (carriage_value c) = Inr c \<and>
        (\<forall>b. carriage_bytes c = Inr b \<longrightarrow> rbind (decode b) carriage_from_value = Inr c)) \<and>
   (carriage_from_value v = Inr d \<longrightarrow>
      (\<exists>ps. v = M ps \<and> (\<forall>p \<in> set ps. \<exists>k \<in> {1..6}. fst p = U k) \<and> (U 6, B (cg_foreign d)) \<in> set ps) \<and>
      0 \<le> cg_klass d \<and> cg_klass d \<le> 5)"
proof -
  have "carriage_from_value v = Inr d \<longrightarrow>
      (\<exists>ps. v = M ps \<and> (\<forall>p \<in> set ps. \<exists>k \<in> {1..6}. fst p = U k) \<and> (U 6, B (cg_foreign d)) \<in> set ps) \<and>
      0 \<le> cg_klass d \<and> cg_klass d \<le> 5"
  proof
    assume "carriage_from_value v = Inr d"
    then obtain ps where ps: "v = M ps" "rfold carriage_step (empty_carriage, False) ps = Inr (d, True)"
      and cls: "validate_class (cg_klass d) = Inr ()"
      by (auto simp: carriage_from_value_def res_simps)
    have "0 \<le> cg_klass d \<and> cg_klass d \<le> 5" using cls by (auto simp: validate_class_def CLASS_OPAQUE_def split: if_splits)
    then show "(\<exists>ps. v = M ps \<and> (\<forall>p \<in> set ps. \<exists>k \<in> {1..6}. fst p = U k) \<and> (U 6, B (cg_foreign d)) \<in> set ps) \<and>
        0 \<le> cg_klass d \<and> cg_klass d \<le> 5"
      using ps carriage_fold [OF ps(2)] by auto
  qed
  moreover have "case carry pid klass ct corr method foreign of
      Inl e \<Rightarrow> (klass < 0 \<or> klass > 5) \<and> e = CarriageError ''MappingError'' \<and>
        (klass > 5 \<longrightarrow> carriage_body pid klass ct corr method foreign = Inl MappingError)
    | Inr c \<Rightarrow> 0 \<le> klass \<and> klass \<le> 5 \<and> cg_foreign c = foreign \<and>
        carriage_body pid klass ct corr method foreign = carriage_bytes c \<and> carriage_from_value (carriage_value c) = Inr c \<and>
        (\<forall>b. carriage_bytes c = Inr b \<longrightarrow> rbind (decode b) carriage_from_value = Inr c)"
  proof (cases "0 \<le> klass \<and> klass \<le> 5")
    case True
    let ?c = "\<lparr>cg_protocol_id = pid, cg_klass = klass, cg_content_type = ct, cg_correlation = corr, cg_method = method, cg_foreign = foreign\<rparr>"
    have v: "validate_class klass = Inr ()" using True by (simp add: validate_class_def CLASS_OPAQUE_def)
    then have "carriage_from_value (carriage_value ?c) = Inr ?c" by (intro carriage_from_value_written) simp
    moreover have "carriage_body pid klass ct corr method foreign = carriage_bytes ?c"
      using True by (simp add: carriage_body_def carriage_bytes_def carriage_value_def CLASS_OPAQUE_def del: encode.simps)
    moreover have "rbind (decode b) carriage_from_value = Inr ?c" if "carriage_bytes ?c = Inr b" for b
      using carriage_codec.parse_body [of ?c b] v that by simp
    ultimately show ?thesis using True v by (simp add: carry_def)
  next
    case False
    then show ?thesis by (auto simp: carry_def validate_class_def CLASS_OPAQUE_def carriage_body_def)
  qed
  ultimately show ?thesis by blast
qed

theorem carriage_roundtrip_witness:
  "carriage_from_value (carriage_value \<lparr>cg_protocol_id = 0x10, cg_klass = 5, cg_content_type = 0, cg_correlation = [1],
       cg_method = [109], cg_foreign = [0xFF, 0]\<rparr>) =
     Inr \<lparr>cg_protocol_id = 0x10, cg_klass = 5, cg_content_type = 0, cg_correlation = [1], cg_method = [109], cg_foreign = [0xFF, 0]\<rparr>"
  using carriage_roundtrip [of 5 "0x10" 0 "[1]" "[109]" "[0xFF, 0]"] by (simp add: carry_def validate_class_def CLASS_OPAQUE_def)

text \<open>The range function has no lower bound: a negative protocol id is reported as a standards id.\<close>

lemma protocol_range_exact:
  "protocol_range i \<noteq> ''invalid'' \<longleftrightarrow> i \<le> 255" "i < 0 \<Longrightarrow> protocol_range i = ''standards''"
  by (auto simp: protocol_range_def)

end
