(* ===== verification/Continuation.thy ===== *)
theory Continuation
  imports Signed Policy
begin

text \<open>
  Flow continuation (\<^verbatim>\<open>impl/python/naalp/continuation.py\<close>): one signed opening that fixes a flow's effect ceiling,
  unsigned links chained to it by digests, checkpoints that detect a gap, and one signed commit that binds the
  whole sequence.
\<close>

section \<open>Opening a flow\<close>

definition MAX_U64 :: int where "MAX_U64 = 2 ^ 64 - 1"

definition in_lattice :: "int \<Rightarrow> bool" where
  "in_lattice v \<longleftrightarrow> 0 \<le> v \<and> v \<le> DESTRUCTIVE"

definition cont_decode_map :: "bytes \<Rightarrow> (cbor \<times> cbor) list res" where
  "cont_decode_map b = rbind (decode b) (\<lambda>v. case v of M ps \<Rightarrow> Inr ps | _ \<Rightarrow> Inl (ContError ''ContMalformed''))"

record flow_open =
  fo_flow_id :: bytes
  fo_effect_ceiling :: int
  fo_approvals :: "bytes list"

definition flow_open_bytes :: "flow_open \<Rightarrow> bytes res" where
  "flow_open_bytes f =
     encode (M [(U 1, B (fo_flow_id f)), (U 2, U (fo_effect_ceiling f)), (U 3, A (map B (fo_approvals f)))])"

definition flow_open_head :: "prims \<Rightarrow> flow_open \<Rightarrow> bytes res" where
  "flow_open_head P f = rbind (flow_open_bytes f) (\<lambda>b. Inr (sha384 P b))"

definition flow_open_id :: "prims \<Rightarrow> flow_open \<Rightarrow> bytes res" where
  "flow_open_id P f = rbind (flow_open_bytes f) (\<lambda>b. Inr (content_id_bytes (sha384 P) b))"

definition parse_flow_open :: "bytes \<Rightarrow> flow_open res" where
  "parse_flow_open b =
     rbind (cont_decode_map b) (\<lambda>m.
       case (bstr_field m 1, uint_field m 2, map_field m 3) of
         (Some fid, Some ceil, Some (A items)) \<Rightarrow>
           if \<not> in_lattice ceil then Inl (ContError ''RangeError'')
           else rbind (read_items (read_bstr (ContError ''ContMalformed'')) items) (\<lambda>apps.
             Inr \<lparr>fo_flow_id = fid, fo_effect_ceiling = ceil, fo_approvals = apps\<rparr>)
       | _ \<Rightarrow> Inl (ContError ''ContMalformed''))"

section \<open>Links\<close>

record continuation =
  cn_flow_open_id :: bytes
  cn_seq :: int
  cn_effect :: int
  cn_payload_id :: bytes
  cn_prev :: bytes

definition continuation_bytes :: "continuation \<Rightarrow> bytes res" where
  "continuation_bytes c =
     encode (M [(U 1, B (cn_flow_open_id c)), (U 2, U (cn_seq c)), (U 3, U (cn_effect c)), (U 4, B (cn_payload_id c)),
       (U 5, B (cn_prev c))])"

definition continuation_head :: "prims \<Rightarrow> continuation \<Rightarrow> bytes res" where
  "continuation_head P c = rbind (continuation_bytes c) (\<lambda>b. Inr (sha384 P b))"

definition parse_continuation :: "bytes \<Rightarrow> continuation res" where
  "parse_continuation b =
     rbind (cont_decode_map b) (\<lambda>m.
       case (bstr_field m 1, uint_field m 2, uint_field m 3, bstr_field m 4, bstr_field m 5) of
         (Some fid, Some seq, Some eff, Some pid, Some prev) \<Rightarrow>
           if \<not> in_lattice eff then Inl (ContError ''RangeError'')
           else Inr \<lparr>cn_flow_open_id = fid, cn_seq = seq, cn_effect = eff, cn_payload_id = pid, cn_prev = prev\<rparr>
       | _ \<Rightarrow> Inl (ContError ''ContMalformed''))"

definition verify_continuation :: "continuation \<Rightarrow> bytes \<Rightarrow> bytes \<Rightarrow> int \<Rightarrow> int \<Rightarrow> unit res" where
  "verify_continuation c fid prev_head expected_seq ceil =
     (if \<not> in_lattice ceil then Inl (ContError ''RangeError'')
      else if \<not> in_lattice (cn_effect c) then Inl (ContError ''RangeError'')
      else if cn_flow_open_id c \<noteq> fid then Inl (ContError ''WrongFlow'')
      else if cn_seq c \<noteq> expected_seq then Inl (ContError ''SeqGap'')
      else if \<not> authorizes ceil (cn_effect c) then Inl (ContError ''AboveCeiling'')
      else if cn_prev c \<noteq> prev_head then Inl (ContError ''ChainBroken'')
      else Inr ())"

fun verify_links :: "prims \<Rightarrow> bytes \<Rightarrow> int \<Rightarrow> int \<Rightarrow> bytes \<Rightarrow> continuation list \<Rightarrow> bytes res" where
  "verify_links P fid ceil i prev [] = Inr prev"
| "verify_links P fid ceil i prev (c # cs) =
     rbind (verify_continuation c fid prev i ceil) (\<lambda>_.
       rbind (continuation_head P c) (\<lambda>h. verify_links P fid ceil (i + 1) h cs))"

definition verify_flow_chain :: "prims \<Rightarrow> flow_open \<Rightarrow> continuation list \<Rightarrow> bytes res" where
  "verify_flow_chain P f conts =
     (if \<not> in_lattice (fo_effect_ceiling f) then Inl (ContError ''RangeError'')
      else rbind (flow_open_id P f) (\<lambda>fid. rbind (flow_open_head P f) (\<lambda>prev.
        verify_links P fid (fo_effect_ceiling f) 0 prev conts)))"

section \<open>Checkpoints\<close>

record checkpoint =
  cp_flow_open_id :: bytes
  cp_through_seq :: int
  cp_head :: bytes

definition checkpoint_bytes :: "checkpoint \<Rightarrow> bytes res" where
  "checkpoint_bytes c = encode (M [(U 1, B (cp_flow_open_id c)), (U 2, U (cp_through_seq c)), (U 3, B (cp_head c))])"

definition parse_checkpoint :: "bytes \<Rightarrow> checkpoint res" where
  "parse_checkpoint b =
     rbind (cont_decode_map b) (\<lambda>m.
       case (bstr_field m 1, uint_field m 2, bstr_field m 3) of
         (Some fid, Some through, Some h) \<Rightarrow> Inr \<lparr>cp_flow_open_id = fid, cp_through_seq = through, cp_head = h\<rparr>
       | _ \<Rightarrow> Inl (ContError ''ContMalformed''))"

definition gap_on_cont_error :: "'a res \<Rightarrow> 'a res" where
  "gap_on_cont_error r = (case r of Inl (ContError _) \<Rightarrow> Inl (ContError ''GapDetected'') | _ \<Rightarrow> r)"

definition verify_flow_checkpoint :: "prims \<Rightarrow> checkpoint \<Rightarrow> flow_open \<Rightarrow> continuation list \<Rightarrow> unit res" where
  "verify_flow_checkpoint P cp f prefix =
     rbind (flow_open_id P f) (\<lambda>fid.
       if cp_flow_open_id cp \<noteq> fid then Inl (ContError ''WrongFlow'')
       else if cp_through_seq cp = MAX_U64 then Inl (ContError ''GapDetected'')
       else if int (length prefix) \<noteq> cp_through_seq cp + 1 then Inl (ContError ''GapDetected'')
       else rbind (gap_on_cont_error (verify_flow_chain P f prefix)) (\<lambda>h.
         if cp_head cp \<noteq> h then Inl (ContError ''GapDetected'') else Inr ()))"

section \<open>Commits\<close>

record flow_commit =
  fc_flow_open_id :: bytes
  fc_final_head :: bytes

definition flow_commit_bytes :: "flow_commit \<Rightarrow> bytes res" where
  "flow_commit_bytes c = encode (M [(U 1, B (fc_flow_open_id c)), (U 2, B (fc_final_head c))])"

definition sign_flow_open :: "prims \<Rightarrow> flow_open \<Rightarrow> int \<Rightarrow> bytes \<Rightarrow> bytes res" where
  "sign_flow_open P f alg seed = sign_body P alg seed (flow_open_bytes f)"

definition sign_flow_commit :: "prims \<Rightarrow> flow_commit \<Rightarrow> int \<Rightarrow> bytes \<Rightarrow> bytes res" where
  "sign_flow_commit P c alg seed = sign_body P alg seed (flow_commit_bytes c)"

definition verify_flow_open :: "prims \<Rightarrow> bytes \<Rightarrow> int \<Rightarrow> int \<Rightarrow> bytes \<Rightarrow> flow_open res" where
  "verify_flow_open P obj profile alg pubkey =
     rbind (verify_body (ContError ''BadSignature'') P obj alg pubkey) parse_flow_open"

definition parse_flow_commit :: "bytes \<Rightarrow> flow_commit res" where
  "parse_flow_commit payload =
     rbind (cont_decode_map payload) (\<lambda>m.
       case (bstr_field m 1, bstr_field m 2) of
         (Some fid, Some fh) \<Rightarrow> Inr \<lparr>fc_flow_open_id = fid, fc_final_head = fh\<rparr>
       | _ \<Rightarrow> Inl (ContError ''ContMalformed''))"

definition verify_flow_commit :: "prims \<Rightarrow> bytes \<Rightarrow> int \<Rightarrow> int \<Rightarrow> bytes \<Rightarrow> flow_open \<Rightarrow> continuation list \<Rightarrow> flow_commit res" where
  "verify_flow_commit P obj profile alg pubkey f conts =
     rbind (verify_body (ContError ''BadSignature'') P obj alg pubkey) (\<lambda>payload.
       rbind (parse_flow_commit payload) (\<lambda>fc.
         rbind (flow_open_id P f) (\<lambda>fid.
           if fc_flow_open_id fc \<noteq> fid then Inl (ContError ''WrongFlow'')
           else rbind (verify_flow_chain P f conts) (\<lambda>final.
             if fc_final_head fc \<noteq> final then Inl (ContError ''CommitMismatch'') else Inr fc))))"

section \<open>Bodies\<close>

lemma cont_decode_map_Inr [res_simps]: "cont_decode_map b = Inr ps \<longleftrightarrow> decode b = Inr (M ps)"
  by (auto simp: cont_decode_map_def res_simps)

lemma decode_flow_open:
  "flow_open_bytes f = Inr b \<Longrightarrow>
     decode b = Inr (M [(U 1, B (fo_flow_id f)), (U 2, U (fo_effect_ceiling f)), (U 3, A (map B (fo_approvals f)))])"
  unfolding flow_open_bytes_def by (erule decode_fields) (use nesting_bstrs [of "fo_approvals f"] in auto)

lemma decode_continuation:
  "continuation_bytes c = Inr b \<Longrightarrow>
     decode b = Inr (M [(U 1, B (cn_flow_open_id c)), (U 2, U (cn_seq c)), (U 3, U (cn_effect c)), (U 4, B (cn_payload_id c)),
       (U 5, B (cn_prev c))])"
  unfolding continuation_bytes_def by (erule decode_fields) auto

interpretation flow_open_body: signed_body flow_open_bytes parse_flow_open "\<lambda>f. in_lattice (fo_effect_ceiling f)"
  by unfold_locales (simp add: parse_flow_open_def cont_decode_map_def decode_flow_open map_read_defs)

interpretation continuation_body: signed_body continuation_bytes parse_continuation "\<lambda>c. in_lattice (cn_effect c)"
  by unfold_locales (simp add: parse_continuation_def cont_decode_map_def decode_continuation map_read_defs)

lemma flow_open_inject: "flow_open_bytes f = Inr m \<Longrightarrow> flow_open_bytes g = Inr m \<Longrightarrow> f = g"
  by (drule decode_flow_open, drule decode_flow_open) (cases f; cases g; auto simp: inj_map_eq_map inj_def)

lemma continuation_inject: "continuation_bytes a = Inr m \<Longrightarrow> continuation_bytes b = Inr m \<Longrightarrow> a = b"
  by (drule decode_continuation, drule decode_continuation) (cases a; cases b; simp)

lemma bodies_differ: "flow_open_bytes f = Inr m \<Longrightarrow> continuation_bytes c \<noteq> Inr m"
  by (auto dest!: decode_flow_open decode_continuation)

interpretation link_chain: hash_chain "sha384 P" continuation_bytes cn_prev for P :: prims
  by unfold_locales (rule continuation_inject)

lemma decode_commit:
  "flow_commit_bytes c = Inr b \<Longrightarrow> decode b = Inr (M [(U 1, B (fc_flow_open_id c)), (U 2, B (fc_final_head c))])"
  unfolding flow_commit_bytes_def by (erule decode_fields) auto

interpretation commit_body: signed_body flow_commit_bytes parse_flow_commit "\<lambda>_. True"
  by unfold_locales (simp add: parse_flow_commit_def cont_decode_map_def decode_commit map_read_defs)

lemma decode_checkpoint:
  "checkpoint_bytes c = Inr b \<Longrightarrow> decode b = Inr (M [(U 1, B (cp_flow_open_id c)), (U 2, U (cp_through_seq c)), (U 3, B (cp_head c))])"
  unfolding checkpoint_bytes_def by (erule decode_fields) auto

interpretation checkpoint_body: signed_body checkpoint_bytes parse_checkpoint "\<lambda>_. True"
  by unfold_locales (simp add: parse_checkpoint_def cont_decode_map_def decode_checkpoint map_read_defs)

section \<open>Chains\<close>

text \<open>A link within the flow's authority, and the sequence numbers of a chain.\<close>

definition within_flow :: "bytes \<Rightarrow> int \<Rightarrow> continuation \<Rightarrow> bool" where
  "within_flow fid ceil c \<longleftrightarrow> cn_flow_open_id c = fid \<and> 0 \<le> cn_effect c \<and> cn_effect c \<le> ceil"

lemma verify_continuation_Inr:
  "in_lattice ceil \<Longrightarrow>
   verify_continuation c fid prev i ceil = Inr u \<longleftrightarrow> within_flow fid ceil c \<and> cn_seq c = i \<and> cn_prev c = prev"
  by (auto simp: verify_continuation_def within_flow_def in_lattice_def authorizes_def)

lemma verify_links_iff:
  assumes "in_lattice ceil"
  shows "verify_links P fid ceil i prev cs = Inr h \<longleftrightarrow>
    (\<forall>c \<in> set cs. within_flow fid ceil c) \<and> map cn_seq cs = map (\<lambda>k. i + int k) [0..<length cs] \<and> link_chain.chained P prev cs h"
proof (induction cs arbitrary: i prev)
  case (Cons c cs)
  have up: "map (\<lambda>k. i + int k) [0..<length (c # cs)] = i # map (\<lambda>k. (i + 1) + int k) [0..<length cs]"
    by (simp add: map_upt_Suc del: upt_Suc)
  show ?case unfolding up
    by (auto simp: rbind_eq_Inr verify_continuation_Inr [OF assms] continuation_head_def Cons.IH)
qed auto

lemma verify_flow_chain_iff:
  "verify_flow_chain P f cs = Inr h \<longleftrightarrow>
     in_lattice (fo_effect_ceiling f) \<and>
     (\<exists>m. flow_open_bytes f = Inr m \<and> (\<forall>c \<in> set cs. within_flow (content_id_bytes (sha384 P) m) (fo_effect_ceiling f) c) \<and>
        map cn_seq cs = map int [0..<length cs] \<and> link_chain.chained P (sha384 P m) cs h)"
  by (auto simp: verify_flow_chain_def rbind_eq_Inr flow_open_id_def flow_open_head_def verify_links_iff)

lemma verify_links_error:
  assumes "verify_links P fid ceil i prev cs = Inl e" and "\<forall>c \<in> set cs. \<exists>m. continuation_bytes c = Inr m"
  shows "\<exists>k. e = ContError k"
  using assms
proof (induction cs arbitrary: i prev)
  case (Cons c cs)
  then show ?case
    by (auto simp: rbind_eq_Inl continuation_head_def rbind_eq_Inr verify_continuation_def split: if_splits)
qed simp

text \<open>The final head determines the links, unless a digest collides.\<close>

lemma flow_determined:
  assumes "verify_flow_chain P f cs = Inr h" and "verify_flow_chain P f ds = Inr h" and "flow_open_bytes f = Inr m"
    and "inj_on (sha384 P) (insert m (link_chain.bodies cs \<union> link_chain.bodies ds))"
  shows "cs = ds"
proof (rule link_chain.chain_determined_genesis)
  show "link_chain.chained P (sha384 P m) cs h" "link_chain.chained P (sha384 P m) ds h"
    using assms(1-3) by (auto simp: verify_flow_chain_iff)
  show "inj_on (sha384 P) (link_chain.bodies cs \<union> link_chain.bodies ds)"
    by (rule inj_on_subset [OF assms(4)]) auto
  have "m \<notin> link_chain.bodies cs \<union> link_chain.bodies ds"
    using bodies_differ [OF assms(3)] by (auto simp: link_chain.bodies_def)
  then show "sha384 P m \<notin> sha384 P ` (link_chain.bodies cs \<union> link_chain.bodies ds)"
    using assms(4) by (auto dest: inj_onD)
qed

lemma verify_flow_commit_Inr:
  "verify_flow_commit P obj profile alg pk f cs = Inr fc \<longleftrightarrow>
     (\<exists>payload. verify_body (ContError ''BadSignature'') P obj alg pk = Inr payload \<and> parse_flow_commit payload = Inr fc) \<and>
     flow_open_id P f = Inr (fc_flow_open_id fc) \<and> verify_flow_chain P f cs = Inr (fc_final_head fc)"
  by (auto simp: verify_flow_commit_def res_simps)

section \<open>Properties of flow continuation\<close>

lemma flow_commit_facts:
  assumes "verify_flow_commit P obj profile alg pk f cs = Inr fc" and "flow_open_bytes f = Inr m"
  shows "in_lattice (fo_effect_ceiling f) \<and> fc_flow_open_id fc = content_id_bytes (sha384 P) m \<and>
      (\<forall>c \<in> set cs. cn_flow_open_id c = fc_flow_open_id fc \<and> 0 \<le> cn_effect c \<and> cn_effect c \<le> fo_effect_ceiling f) \<and>
      map cn_seq cs = map int [0..<length cs] \<and> link_chain.chained P (sha384 P m) cs (fc_final_head fc)"
    and "verify_flow_commit P obj profile' alg pk f ds = Inr fd \<Longrightarrow>
      inj_on (sha384 P) (insert m (link_chain.bodies cs \<union> link_chain.bodies ds)) \<Longrightarrow> ds = cs"
    and "verify_flow_chain P g ds = Inr h \<Longrightarrow> set ds \<inter> set cs \<noteq> {} \<Longrightarrow> flow_open_bytes g = Inr n \<Longrightarrow>
      inj_on (sha384 P) {m, n} \<Longrightarrow> g = f"
proof -
  have v: "verify_flow_chain P f cs = Inr (fc_final_head fc)" and i: "fc_flow_open_id fc = content_id_bytes (sha384 P) m"
    using assms by (auto simp: verify_flow_commit_Inr flow_open_id_def)
  have w: "\<forall>c \<in> set cs. within_flow (content_id_bytes (sha384 P) m) (fo_effect_ceiling f) c"
    using v assms(2) by (auto simp: verify_flow_chain_iff)
  show "in_lattice (fo_effect_ceiling f) \<and> fc_flow_open_id fc = content_id_bytes (sha384 P) m \<and>
      (\<forall>c \<in> set cs. cn_flow_open_id c = fc_flow_open_id fc \<and> 0 \<le> cn_effect c \<and> cn_effect c \<le> fo_effect_ceiling f) \<and>
      map cn_seq cs = map int [0..<length cs] \<and> link_chain.chained P (sha384 P m) cs (fc_final_head fc)"
    using v w assms(2) by (simp add: verify_flow_chain_iff i within_flow_def)
  show "ds = cs" if "verify_flow_commit P obj profile' alg pk f ds = Inr fd"
    "inj_on (sha384 P) (insert m (link_chain.bodies cs \<union> link_chain.bodies ds))"
  proof -
    have "fd = fc" using that(1) assms(1) by (auto simp: verify_flow_commit_Inr)
    then show "ds = cs" using flow_determined [OF v _ assms(2) that(2)] that(1) by (simp add: verify_flow_commit_Inr)
  qed
  show "g = f" if g: "verify_flow_chain P g ds = Inr h" "set ds \<inter> set cs \<noteq> {}" "flow_open_bytes g = Inr n" "inj_on (sha384 P) {m, n}"
  proof -
    obtain c where c: "c \<in> set ds" "c \<in> set cs" using g(2) by blast
    have "cn_flow_open_id c = content_id_bytes (sha384 P) n"
      using g(1,3) c(1) by (auto simp: verify_flow_chain_iff within_flow_def)
    moreover have "cn_flow_open_id c = content_id_bytes (sha384 P) m" using w c(2) by (simp add: within_flow_def)
    ultimately have "sha384 P m = sha384 P n" by (simp add: content_id_bytes_def)
    then have "m = n" using inj_onD [OF g(4)] by blast
    then show "g = f" using flow_open_inject assms(2) g(3) by blast
  qed
qed

text \<open>C9: A committed flow. If a commit verifies over a sequence of links, the opening can be written, every link names it,
  stays within its ceiling, carries its position as its number and follows the head before it. No other sequence
  verifies against the same commit and opening, whatever its length, and no link of the sequence is valid under a
  different opening, unless the digest collides.\<close>

theorem flow_commit_binds_sequence:
  assumes "verify_flow_commit P obj profile alg pk f cs = Inr fc" and "flow_open_bytes f = Inr m"
  shows "in_lattice (fo_effect_ceiling f) \<and> fc_flow_open_id fc = content_id_bytes (sha384 P) m \<and>
      (\<forall>c \<in> set cs. cn_flow_open_id c = fc_flow_open_id fc \<and> 0 \<le> cn_effect c \<and> cn_effect c \<le> fo_effect_ceiling f) \<and>
      map cn_seq cs = map int [0..<length cs] \<and> link_chain.chained P (sha384 P m) cs (fc_final_head fc) \<and>
      (\<forall>ds profile' fd. verify_flow_commit P obj profile' alg pk f ds = Inr fd \<longrightarrow>
        inj_on (sha384 P) (insert m (link_chain.bodies cs \<union> link_chain.bodies ds)) \<longrightarrow> ds = cs) \<and>
      (\<forall>g ds h n. verify_flow_chain P g ds = Inr h \<longrightarrow> set ds \<inter> set cs \<noteq> {} \<longrightarrow> flow_open_bytes g = Inr n \<longrightarrow>
        inj_on (sha384 P) {m, n} \<longrightarrow> g = f)"
  using flow_commit_facts(1) [OF assms] flow_commit_facts(2) [OF assms] flow_commit_facts(3) [OF assms] by blast

lemma verify_flow_checkpoint_Inr:
  "verify_flow_checkpoint P cp f cs = Inr () \<longleftrightarrow>
      flow_open_id P f = Inr (cp_flow_open_id cp) \<and> cp_through_seq cp \<noteq> MAX_U64 \<and>
      int (length cs) = cp_through_seq cp + 1 \<and> verify_flow_chain P f cs = Inr (cp_head cp)"
  by (auto simp: verify_flow_checkpoint_def res_simps gap_on_cont_error_def split: sum.splits exn.splits)

text \<open>Over an opening and links that can be written, the chain fails with an error of its own only.\<close>

lemma verify_flow_chain_error:
  assumes "verify_flow_chain P f cs = Inl e" and "flow_open_bytes f = Inr m" and "\<forall>c \<in> set cs. is_ok (continuation_bytes c)"
  shows "\<exists>k. e = ContError k"
  using assms verify_links_error [of P "content_id_bytes (sha384 P) m" "fo_effect_ceiling f" 0 "sha384 P m" cs e]
  by (auto simp: verify_flow_chain_def flow_open_id_def flow_open_head_def is_ok_iff split: if_splits)

lemma verify_flow_checkpoint_refused:
  assumes "flow_open_bytes f = Inr m" and "\<forall>c \<in> set cs. is_ok (continuation_bytes c)"
    and "cp_flow_open_id cp = content_id_bytes (sha384 P) m" and "verify_flow_checkpoint P cp f cs \<noteq> Inr ()"
  shows "verify_flow_checkpoint P cp f cs = Inl (ContError ''GapDetected'')"
proof (cases "verify_flow_chain P f cs")
  case (Inl e)
  then obtain k where "e = ContError k" using verify_flow_chain_error assms(1,2) by blast
  then show ?thesis using assms(1,3) Inl by (simp add: verify_flow_checkpoint_def gap_on_cont_error_def flow_open_id_def)
next
  case (Inr h)
  then show ?thesis
    using assms(1,3,4) by (auto simp: verify_flow_checkpoint_def gap_on_cont_error_def flow_open_id_def split: if_splits)
qed

text \<open>C40: What a checkpoint says of a sequence of links, in full, for an opening and links that can be written. A checkpoint of
  another flow is refused as WrongFlow. Otherwise the sequence is confirmed when the checkpoint's number is not the top of the
  64-bit counter, there is one link more than that number, the ceiling is a class, every link names the flow and stays within its
  ceiling, the links are numbered from zero without a hole, and each follows the digest before it from the opening to the
  checkpoint's head. In every other case, at the top of the counter whatever the links are included, the answer is GapDetected and no
  other error. And one checkpoint confirms one sequence only, unless the digest collides.\<close>

theorem flow_checkpoint_exact:
  assumes "flow_open_bytes f = Inr m" and "\<forall>c \<in> set cs. is_ok (continuation_bytes c)"
  shows "verify_flow_checkpoint P cp f cs =
      (if cp_flow_open_id cp \<noteq> content_id_bytes (sha384 P) m then Inl (ContError ''WrongFlow'')
       else if cp_through_seq cp \<noteq> 2 ^ 64 - 1 \<and> int (length cs) = cp_through_seq cp + 1 \<and> in_lattice (fo_effect_ceiling f) \<and>
         (\<forall>c \<in> set cs. cn_flow_open_id c = cp_flow_open_id cp \<and> 0 \<le> cn_effect c \<and> cn_effect c \<le> fo_effect_ceiling f) \<and>
         map cn_seq cs = map int [0..<length cs] \<and> link_chain.chained P (sha384 P m) cs (cp_head cp)
       then Inr () else Inl (ContError ''GapDetected'')) \<and>
    (\<forall>ds. verify_flow_checkpoint P cp f cs = Inr () \<longrightarrow> verify_flow_checkpoint P cp f ds = Inr () \<longrightarrow>
       inj_on (sha384 P) (insert m (link_chain.bodies cs \<union> link_chain.bodies ds)) \<longrightarrow> ds = cs)"
proof (intro conjI allI impI)
  have i: "flow_open_id P f = Inr (content_id_bytes (sha384 P) m)" using assms(1) by (simp add: flow_open_id_def)
  have ok: "verify_flow_checkpoint P cp f cs = Inr () \<longleftrightarrow> cp_flow_open_id cp = content_id_bytes (sha384 P) m \<and>
      cp_through_seq cp \<noteq> 2 ^ 64 - 1 \<and> int (length cs) = cp_through_seq cp + 1 \<and> in_lattice (fo_effect_ceiling f) \<and>
      (\<forall>c \<in> set cs. cn_flow_open_id c = cp_flow_open_id cp \<and> 0 \<le> cn_effect c \<and> cn_effect c \<le> fo_effect_ceiling f) \<and>
      map cn_seq cs = map int [0..<length cs] \<and> link_chain.chained P (sha384 P m) cs (cp_head cp)"
    unfolding verify_flow_checkpoint_Inr i verify_flow_chain_iff within_flow_def MAX_U64_def using assms(1) by auto
  have wrong: "verify_flow_checkpoint P cp f cs = Inl (ContError ''WrongFlow'')" if "cp_flow_open_id cp \<noteq> content_id_bytes (sha384 P) m"
    using that i by (simp add: verify_flow_checkpoint_def)
  show "verify_flow_checkpoint P cp f cs =
      (if cp_flow_open_id cp \<noteq> content_id_bytes (sha384 P) m then Inl (ContError ''WrongFlow'')
       else if cp_through_seq cp \<noteq> 2 ^ 64 - 1 \<and> int (length cs) = cp_through_seq cp + 1 \<and> in_lattice (fo_effect_ceiling f) \<and>
         (\<forall>c \<in> set cs. cn_flow_open_id c = cp_flow_open_id cp \<and> 0 \<le> cn_effect c \<and> cn_effect c \<le> fo_effect_ceiling f) \<and>
         map cn_seq cs = map int [0..<length cs] \<and> link_chain.chained P (sha384 P m) cs (cp_head cp)
       then Inr () else Inl (ContError ''GapDetected''))"
    using wrong ok verify_flow_checkpoint_refused [OF assms] by (simp only: split: if_split) blast
next
  fix ds
  assume "verify_flow_checkpoint P cp f cs = Inr ()" "verify_flow_checkpoint P cp f ds = Inr ()"
    and inj: "inj_on (sha384 P) (insert m (link_chain.bodies cs \<union> link_chain.bodies ds))"
  then have "verify_flow_chain P f cs = Inr (cp_head cp)" "verify_flow_chain P f ds = Inr (cp_head cp)"
    by (simp_all add: verify_flow_checkpoint_Inr)
  then show "ds = cs" using flow_determined [OF _ _ assms(1) inj] by blast
qed

lemma commit_roundtrip:
  assumes "md_correct P" and "md_key_derive P alg seed = Inr (pk, sk)"
    and "verify_flow_chain P f cs = Inr (fc_final_head fc)" and "flow_open_id P f = Inr (fc_flow_open_id fc)"
    and "sign_flow_commit P fc alg seed = Inr obj"
  shows "verify_flow_commit P obj profile alg pk f cs = Inr fc"
  using commit_body.body_roundtrip [OF assms(1) assms(5) [unfolded sign_flow_commit_def] assms(2), of "ContError ''BadSignature''"] assms(3,4)
  by (simp add: verify_flow_commit_Inr rbind_eq_Inr)

definition sample_flow :: flow_open where
  "sample_flow = \<lparr>fo_flow_id = [1], fo_effect_ceiling = 2, fo_approvals = [[9]]\<rparr>"

definition sample_link :: "int \<Rightarrow> bytes \<Rightarrow> continuation" where
  "sample_link i prev =
     \<lparr>cn_flow_open_id = projr (flow_open_id sample_prims sample_flow), cn_seq = i, cn_effect = 1, cn_payload_id = [5], cn_prev = prev\<rparr>"

definition sample_links :: "continuation list" where
  "sample_links =
     (let c = sample_link 0 (projr (flow_open_head sample_prims sample_flow)) in
      [c, sample_link 1 (projr (continuation_head sample_prims c))])"

definition sample_commit :: flow_commit where
  "sample_commit =
     \<lparr>fc_flow_open_id = projr (flow_open_id sample_prims sample_flow), fc_final_head = projr (verify_flow_chain sample_prims sample_flow sample_links)\<rparr>"

lemma sample_flow_facts:
  "verify_flow_chain sample_prims sample_flow sample_links = Inr (fc_final_head sample_commit)"
  "flow_open_id sample_prims sample_flow = Inr (fc_flow_open_id sample_commit)"
  "inj_on (sha384 sample_prims) S"
proof -
  have "is_ok (verify_flow_chain sample_prims sample_flow sample_links)" "is_ok (flow_open_id sample_prims sample_flow)" by code_simp+
  then show "verify_flow_chain sample_prims sample_flow sample_links = Inr (fc_final_head sample_commit)"
    "flow_open_id sample_prims sample_flow = Inr (fc_flow_open_id sample_commit)"
    by (auto simp: sample_commit_def is_ok_iff)
qed (simp add: inj_on_def)

theorem flow_commit_binds_sequence_witness:
  "\<exists>obj. sign_flow_commit sample_prims sample_commit ALG_MLDSA65 [7] = Inr obj \<and>
     (\<forall>ds fd. verify_flow_commit sample_prims obj PROFILE_PUBLIC ALG_MLDSA65 [7] sample_flow ds = Inr fd \<longrightarrow> ds = sample_links)"
proof -
  have "is_ok (sign_flow_commit sample_prims sample_commit ALG_MLDSA65 [7])" by code_simp
  then obtain obj where obj: "sign_flow_commit sample_prims sample_commit ALG_MLDSA65 [7] = Inr obj" by (auto simp: is_ok_iff)
  have v: "verify_flow_commit sample_prims obj PROFILE_PUBLIC ALG_MLDSA65 [7] sample_flow sample_links = Inr sample_commit"
    by (rule commit_roundtrip [OF _ _ sample_flow_facts(1,2) obj]) simp_all
  obtain m where m: "flow_open_bytes sample_flow = Inr m" using sample_flow_facts(2) by (auto simp: flow_open_id_def rbind_eq_Inr)
  have "\<forall>ds profile' fd. verify_flow_commit sample_prims obj profile' ALG_MLDSA65 [7] sample_flow ds = Inr fd \<longrightarrow>
      inj_on (sha384 sample_prims) (insert m (link_chain.bodies sample_links \<union> link_chain.bodies ds)) \<longrightarrow> ds = sample_links"
    using flow_commit_binds_sequence [OF v m] by (elim conjE)
  then have "ds = sample_links" if "verify_flow_commit sample_prims obj PROFILE_PUBLIC ALG_MLDSA65 [7] sample_flow ds = Inr fd" for ds fd
    using that sample_flow_facts(3) by (elim allE impE)
  with obj show ?thesis by (intro exI conjI allI impI)
qed

theorem flow_checkpoint_exact_witness:
  "{ds. verify_flow_checkpoint sample_prims
        \<lparr>cp_flow_open_id = fc_flow_open_id sample_commit, cp_through_seq = 1, cp_head = fc_final_head sample_commit\<rparr> sample_flow ds = Inr ()} =
     {sample_links} \<and>
   verify_flow_checkpoint sample_prims \<lparr>cp_flow_open_id = fc_flow_open_id sample_commit, cp_through_seq = 1, cp_head = fc_final_head sample_commit\<rparr>
     sample_flow (drop 1 sample_links) = Inl (ContError ''GapDetected'') \<and>
   verify_flow_checkpoint sample_prims \<lparr>cp_flow_open_id = fc_flow_open_id sample_commit, cp_through_seq = MAX_U64, cp_head = fc_final_head sample_commit\<rparr>
     sample_flow sample_links = Inl (ContError ''GapDetected'')"
proof -
  let ?cp = "\<lambda>n. \<lparr>cp_flow_open_id = fc_flow_open_id sample_commit, cp_through_seq = n, cp_head = fc_final_head sample_commit\<rparr>"
  obtain m where m: "flow_open_bytes sample_flow = Inr m" "fc_flow_open_id sample_commit = content_id_bytes (sha384 sample_prims) m"
    using sample_flow_facts(2) by (auto simp: flow_open_id_def rbind_eq_Inr)
  have ok: "\<forall>c \<in> set sample_links. is_ok (continuation_bytes c)" "\<forall>c \<in> set (drop 1 sample_links). is_ok (continuation_bytes c)"
    unfolding list_all_iff [symmetric] by code_simp+
  have l: "length sample_links = 2" by (simp add: sample_links_def Let_def)
  have v: "verify_flow_checkpoint sample_prims (?cp 1) sample_flow sample_links = Inr ()"
    using sample_flow_facts l by (simp add: verify_flow_checkpoint_Inr MAX_U64_def)
  note exact = flow_checkpoint_exact [OF m(1) ok(1), of sample_prims] flow_checkpoint_exact [OF m(1) ok(2), of sample_prims]
  have "{ds. verify_flow_checkpoint sample_prims (?cp 1) sample_flow ds = Inr ()} = {sample_links}"
    using conjunct2 [OF exact(1) [of "?cp 1"]] v sample_flow_facts(3) by blast
  moreover have "verify_flow_checkpoint sample_prims (?cp 1) sample_flow (drop 1 sample_links) = Inl (ContError ''GapDetected'')"
    by (subst conjunct1 [OF exact(2)]) (simp add: m(2) l)
  moreover have "verify_flow_checkpoint sample_prims (?cp MAX_U64) sample_flow sample_links = Inl (ContError ''GapDetected'')"
    by (subst conjunct1 [OF exact(1)]) (simp add: m(2) MAX_U64_def)
  ultimately show ?thesis by blast
qed

text \<open>The opening carries its own authority: signed, it verifies to the same flow, ceiling and approvals; and no opening or
  link with an effect outside the lattice is ever parsed.\<close>

theorem flow_open_roundtrip:
  assumes "md_correct P" and "md_key_derive P alg seed = Inr (pk, sk)" and "sign_flow_open P f alg seed = Inr obj"
    and "in_lattice (fo_effect_ceiling f)"
  shows "verify_flow_open P obj profile alg pk = Inr f"
    and "parse_flow_open b = Inr g \<Longrightarrow> in_lattice (fo_effect_ceiling g)"
    and "parse_continuation b = Inr c \<Longrightarrow> in_lattice (cn_effect c)"
proof -
  show "verify_flow_open P obj profile alg pk = Inr f"
    using flow_open_body.body_roundtrip [OF assms(1) assms(3) [unfolded sign_flow_open_def] assms(2,4)] by (simp add: verify_flow_open_def)
  show "in_lattice (fo_effect_ceiling g)" if "parse_flow_open b = Inr g"
    using that by (auto simp: parse_flow_open_def case_option_eq_Inr res_simps)
  show "in_lattice (cn_effect c)" if "parse_continuation b = Inr c"
    using that by (auto simp: parse_continuation_def case_option_eq_Inr res_simps)
qed

theorem flow_open_roundtrip_witness:
  "\<exists>obj. sign_flow_open sample_prims sample_flow ALG_MLDSA65 [7] = Inr obj \<and>
     verify_flow_open sample_prims obj PROFILE_PUBLIC ALG_MLDSA65 [7] = Inr sample_flow"
proof -
  have "is_ok (sign_flow_open sample_prims sample_flow ALG_MLDSA65 [7])" by code_simp
  then obtain obj where obj: "sign_flow_open sample_prims sample_flow ALG_MLDSA65 [7] = Inr obj" by (auto simp: is_ok_iff)
  have "verify_flow_open sample_prims obj PROFILE_PUBLIC ALG_MLDSA65 [7] = Inr sample_flow"
    by (rule flow_open_roundtrip(1) [OF _ _ obj]) (simp_all add: sample_flow_def in_lattice_def effect_defs)
  with obj show ?thesis by blast
qed

end
