(* ===== verification/Description.thy ===== *)
theory Description
  imports Signed Policy Identity
begin

text \<open>
  Signed descriptions and directories (\<^verbatim>\<open>impl/python/naalp/description.py\<close>): a service's operation table, versioned
  directories with the detection of forks, and the import of a foreign description, whose only authority
  is the key that signed it.
\<close>

section \<open>Operations\<close>

definition FORMAT_A2A_CARD :: int where "FORMAT_A2A_CARD = 1"
definition FORMAT_ANP_DESCRIPTION :: int where "FORMAT_ANP_DESCRIPTION = 2"
definition FORMAT_AGNTCY_BADGE :: int where "FORMAT_AGNTCY_BADGE = 3"

definition is_known_format :: "int \<Rightarrow> bool" where
  "is_known_format fmt \<longleftrightarrow> fmt \<in> set [FORMAT_A2A_CARD, FORMAT_ANP_DESCRIPTION, FORMAT_AGNTCY_BADGE]"

record operation =
  op_name :: pystr
  op_effect :: int
  op_requires_approval :: int

definition operation_map :: "operation \<Rightarrow> cbor" where
  "operation_map op = M [(U 1, T (op_name op)), (U 2, U (op_effect op)), (U 3, U (op_requires_approval op))]"

definition op_effect_class :: "operation \<Rightarrow> int" where
  "op_effect_class op = normalize_effect (op_effect op)"

definition requires_approval_flag :: "operation \<Rightarrow> bool" where
  "requires_approval_flag op \<longleftrightarrow> op_requires_approval op = 1"

type_synonym op_fields = "pystr option \<times> int option \<times> int option"

definition operation_step :: "op_fields \<Rightarrow> cbor \<times> cbor \<Rightarrow> op_fields res" where
  "operation_step st p =
     (case st of (name, eff, req) \<Rightarrow>
       (case fst p of
          U k \<Rightarrow> Inr
            (case snd p of
               T t \<Rightarrow> if k = 1 then (Some t, eff, req) else (name, eff, req)
             | U n \<Rightarrow> if k = 2 then (name, Some n, req) else if k = 3 then (name, eff, Some n) else (name, eff, req)
             | _ \<Rightarrow> (name, eff, req))
        | _ \<Rightarrow> Inl (DescriptionError ''DescMalformed'')))"

definition operation_from_value :: "cbor \<Rightarrow> operation res" where
  "operation_from_value v =
     (case v of
        M ps \<Rightarrow> rbind (rfold operation_step (None, None, None) ps) (\<lambda>st.
          case st of
            (Some name, Some eff, Some req) \<Rightarrow>
              if req > 1 then Inl (DescriptionError ''MalformedApprovalFlag'')
              else Inr \<lparr>op_name = name, op_effect = eff, op_requires_approval = req\<rparr>
          | _ \<Rightarrow> Inl (DescriptionError ''DescMalformed''))
      | _ \<Rightarrow> Inl (DescriptionError ''DescMalformed''))"

definition operations_from_value :: "cbor \<Rightarrow> operation list res" where
  "operations_from_value v =
     (case v of A items \<Rightarrow> read_items operation_from_value items | _ \<Rightarrow> Inl (DescriptionError ''DescMalformed''))"

definition operations_value :: "operation list \<Rightarrow> cbor" where
  "operations_value ops = A (map operation_map ops)"

definition find_operation :: "operation list \<Rightarrow> pystr \<Rightarrow> operation option" where
  "find_operation ops name = find (\<lambda>op. op_name op = name) ops"

section \<open>Descriptions\<close>

record description =
  ds_service :: bytes
  ds_operations :: "operation list"

definition description_bytes :: "description \<Rightarrow> bytes res" where
  "description_bytes d = encode (M [(U 1, B (ds_service d)), (U 2, operations_value (ds_operations d))])"

definition description_id :: "prims \<Rightarrow> description \<Rightarrow> bytes res" where
  "description_id P d = rbind (description_bytes d) (\<lambda>b. Inr (content_id_bytes (sha384 P) b))"

definition parse_description :: "bytes \<Rightarrow> description res" where
  "parse_description b =
     rbind (decode_map (DescriptionError ''DescMalformed'') b) (\<lambda>m.
       case (bstr_field m 1, map_field m 2) of
         (Some svc, Some ops_v) \<Rightarrow>
           rbind (operations_from_value ops_v) (\<lambda>ops. Inr \<lparr>ds_service = svc, ds_operations = ops\<rparr>)
       | _ \<Rightarrow> Inl (DescriptionError ''DescMalformed''))"

definition desc_verify_sign1 :: "prims \<Rightarrow> bytes \<Rightarrow> int \<Rightarrow> int \<Rightarrow> bytes \<Rightarrow> bytes res" where
  "desc_verify_sign1 = verify_sign1 DescriptionError ''DescMalformed''"

definition sign_description :: "prims \<Rightarrow> description \<Rightarrow> int \<Rightarrow> bytes \<Rightarrow> bytes res" where
  "sign_description P d alg seed = sign_body P alg seed (description_bytes d)"

definition verify_description :: "prims \<Rightarrow> bytes \<Rightarrow> int \<Rightarrow> int \<Rightarrow> bytes \<Rightarrow> description res" where
  "verify_description P ob prof alg pubkey = rbind (desc_verify_sign1 P ob prof alg pubkey) parse_description"

section \<open>Directories\<close>

record directory =
  dr_directory :: bytes
  dr_version :: int
  dr_members :: "bytes list"

definition directory_bytes :: "directory \<Rightarrow> bytes res" where
  "directory_bytes d =
     encode (M [(U 1, B (dr_directory d)), (U 2, U (dr_version d)), (U 3, A (map B (dr_members d)))])"

definition parse_directory :: "bytes \<Rightarrow> directory res" where
  "parse_directory b =
     rbind (decode_map (DescriptionError ''DescMalformed'') b) (\<lambda>m.
       case (bstr_field m 1, uint_field m 2, map_field m 3) of
         (Some did, Some ver, Some (A items)) \<Rightarrow>
           rbind (read_items (read_bstr (DescriptionError ''DescMalformed'')) items) (\<lambda>members.
             Inr \<lparr>dr_directory = did, dr_version = ver, dr_members = members\<rparr>)
       | _ \<Rightarrow> Inl (DescriptionError ''DescMalformed''))"

definition sign_directory :: "prims \<Rightarrow> directory \<Rightarrow> int \<Rightarrow> bytes \<Rightarrow> bytes res" where
  "sign_directory P d alg seed = sign_body P alg seed (directory_bytes d)"

definition verify_directory :: "prims \<Rightarrow> bytes \<Rightarrow> int \<Rightarrow> int \<Rightarrow> bytes \<Rightarrow> directory res" where
  "verify_directory P ob prof alg pubkey = rbind (desc_verify_sign1 P ob prof alg pubkey) parse_directory"

definition first_member_difference :: "bytes list \<Rightarrow> bytes list \<Rightarrow> nat \<times> bool" where
  "first_member_difference a b =
     (let n = min (length a) (length b) in
      case find (\<lambda>i. a ! i \<noteq> b ! i) [0..<n] of
        Some i \<Rightarrow> (i, True)
      | None \<Rightarrow> if length a \<noteq> length b then (n, True) else (0, False))"

definition detect_directory_fork :: "directory \<Rightarrow> directory \<Rightarrow> nat \<times> bool" where
  "detect_directory_fork a b =
     (if dr_directory a \<noteq> dr_directory b \<or> dr_version a \<noteq> dr_version b then (0, False)
      else first_member_difference (dr_members a) (dr_members b))"

record directory_fork_proof =
  df_signer :: bytes
  df_signed_a :: bytes
  df_signed_b :: bytes

definition verify_directory_fork_proof :: "prims \<Rightarrow> directory_fork_proof \<Rightarrow> int \<Rightarrow> int \<Rightarrow> bytes \<Rightarrow> nat res" where
  "verify_directory_fork_proof P f prof alg pubkey =
     (if length (df_signer f) = 0 then Inl (DescriptionError ''DirForkProofInvalid'')
      else rbind (verify_directory P (df_signed_a f) prof alg pubkey) (\<lambda>a.
        rbind (verify_directory P (df_signed_b f) prof alg pubkey) (\<lambda>b.
          let (pos, fork) = detect_directory_fork a b in
          if \<not> fork then Inl (DescriptionError ''DirForkProofInvalid'') else Inr pos)))"

section \<open>Imports\<close>

record import_body =
  im_importer :: bytes
  im_format :: int
  im_foreign :: bytes
  im_operations :: "operation list"

definition import_bytes :: "import_body \<Rightarrow> bytes res" where
  "import_bytes i =
     encode (M [(U 1, B (im_importer i)), (U 2, U (im_format i)), (U 3, B (im_foreign i)), (U 4, operations_value (im_operations i))])"

definition import_foreign_id :: "prims \<Rightarrow> import_body \<Rightarrow> bytes" where
  "import_foreign_id P i = content_id_bytes (sha384 P) (im_foreign i)"

definition parse_import :: "bytes \<Rightarrow> import_body res" where
  "parse_import b =
     rbind (decode_map (DescriptionError ''DescMalformed'') b) (\<lambda>m.
       case (bstr_field m 1, uint_field m 2, bstr_field m 3, map_field m 4) of
         (Some imp, Some fmt, Some foreign, Some ops_v) \<Rightarrow>
           if \<not> is_known_format fmt then Inl (DescriptionError ''UnknownDescriptionFormat'')
           else rbind (operations_from_value ops_v) (\<lambda>ops.
             Inr \<lparr>im_importer = imp, im_format = fmt, im_foreign = foreign, im_operations = ops\<rparr>)
       | _ \<Rightarrow> Inl (DescriptionError ''DescMalformed''))"

definition sign_import :: "prims \<Rightarrow> import_body \<Rightarrow> int \<Rightarrow> bytes \<Rightarrow> bytes res" where
  "sign_import P i alg seed = sign_body P alg seed (import_bytes i)"

record resolved_import =
  ri_authority_id :: pystr
  ri_format :: int
  ri_foreign_id :: bytes
  ri_operations :: "operation list"

text \<open>
  \<^verbatim>\<open>bytes.decode("utf-8", "replace")\<close> of the standard library: an ill-formed sequence becomes one replacement
  character for its longest prefix that could begin a well-formed one, of at least one byte.
\<close>

definition second_ok :: "nat \<Rightarrow> byte \<Rightarrow> bool" where
  "second_ok x0 b1 \<longleftrightarrow> utf8_cont b1 \<and> (x0 = 0xE0 \<longrightarrow> 0xA0 \<le> unat b1) \<and> (x0 = 0xED \<longrightarrow> unat b1 < 0xA0) \<and>
     (x0 = 0xF0 \<longrightarrow> 0x90 \<le> unat b1) \<and> (x0 = 0xF4 \<longrightarrow> unat b1 < 0x90)"

definition ill_formed_length :: "bytes \<Rightarrow> nat" where
  "ill_formed_length bs =
     (case bs of
        b0 # b1 # r \<Rightarrow>
          if 0xE0 \<le> unat b0 \<and> unat b0 < 0xF0 then (if second_ok (unat b0) b1 then 2 else 1)
          else if 0xF0 \<le> unat b0 \<and> unat b0 < 0xF5 then
            (if \<not> second_ok (unat b0) b1 then 1 else (case r of b2 # _ \<Rightarrow> if utf8_cont b2 then 3 else 2 | [] \<Rightarrow> 2))
          else 1
      | _ \<Rightarrow> 1)"

function utf8_decode_replace :: "bytes \<Rightarrow> pystr" where
  "utf8_decode_replace bs =
     (if bs = [] then []
      else case utf8_decode_char bs of
          Inr (c, rest) \<Rightarrow> c # utf8_decode_replace rest
        | Inl _ \<Rightarrow> 0xFFFD # utf8_decode_replace (drop (ill_formed_length bs) bs))"
  by pat_completeness auto
termination
proof (relation "measure length")
  fix bs :: bytes assume "bs \<noteq> []"
  moreover have "0 < ill_formed_length bs" by (auto simp: ill_formed_length_def split: list.splits)
  ultimately show "(drop (ill_formed_length bs) bs, bs) \<in> measure length" by simp
qed (auto dest: utf8_decode_char_shorter)

declare utf8_decode_replace.simps [simp del]

definition verify_import :: "prims \<Rightarrow> bytes \<Rightarrow> int \<Rightarrow> int \<Rightarrow> bytes \<Rightarrow> resolved_import res" where
  "verify_import P ob prof alg pubkey =
     rbind (desc_verify_sign1 P ob prof alg pubkey) (\<lambda>payload.
       rbind (parse_import payload) (\<lambda>i.
         rbind (signer_id P alg pubkey) (\<lambda>key_id.
           if utf8_decode_replace (im_importer i) \<noteq> key_id then Inl (DescriptionError ''ImporterMismatch'')
           else Inr \<lparr>ri_authority_id = key_id, ri_format = im_format i, ri_foreign_id = import_foreign_id P i,
             ri_operations = im_operations i\<rparr>)))"

section \<open>Bodies\<close>

lemma operation_map_facts: "canon (operation_map op) = operation_map op" "nesting (operation_map op) \<le> 2"
  unfolding operation_map_def by (rule canon_asc; simp) simp

lemma operations_value_facts:
  "canon (operations_value ops) = operations_value ops" "nesting (operations_value ops) \<le> 3"
proof -
  show "canon (operations_value ops) = operations_value ops"
    unfolding operations_value_def by (rule array_facts(1)) (rule operation_map_facts)+
  have "nesting (operations_value ops) \<le> Suc 2"
    unfolding operations_value_def by (rule array_facts(2)) (rule operation_map_facts)+
  then show "nesting (operations_value ops) \<le> 3" by simp
qed

definition flags_ok :: "operation list \<Rightarrow> bool" where
  "flags_ok ops \<longleftrightarrow> (\<forall>op \<in> set ops. op_requires_approval op \<le> 1)"

lemma read_operation: "op_requires_approval op \<le> 1 \<Longrightarrow> operation_from_value (operation_map op) = Inr op"
  by (cases op) (simp add: operation_from_value_def operation_map_def operation_step_def)

lemma read_operations: "flags_ok ops \<Longrightarrow> operations_from_value (operations_value ops) = Inr ops"
  by (simp add: operations_from_value_def operations_value_def flags_ok_def read_items_map read_operation)

lemma operation_flag: "operation_from_value v = Inr op \<Longrightarrow> op_requires_approval op \<le> 1"
  by (auto simp: operation_from_value_def case_prod_eq_Inr case_option_eq_Inr res_simps)

lemma read_items_all: "read_items f vs = Inr xs \<Longrightarrow> (\<And>v x. f v = Inr x \<Longrightarrow> Q x) \<Longrightarrow> \<forall>x \<in> set xs. Q x"
  by (induction vs arbitrary: xs) (auto simp: rbind_eq_Inr)

lemma operations_flags: "operations_from_value v = Inr ops \<Longrightarrow> flags_ok ops"
  using read_items_all [of operation_from_value _ ops "\<lambda>op. op_requires_approval op \<le> 1"] operation_flag
  by (auto simp: operations_from_value_def flags_ok_def res_simps)

lemma decode_description:
  "description_bytes d = Inr b \<Longrightarrow> decode b = Inr (M [(U 1, B (ds_service d)), (U 2, operations_value (ds_operations d))])"
  unfolding description_bytes_def
  by (erule decode_fields) (use operations_value_facts [of "ds_operations d"] in \<open>auto simp: le_trans\<close>)

interpretation description_body: signed_body description_bytes parse_description "\<lambda>d. flags_ok (ds_operations d)"
  by unfold_locales (simp add: parse_description_def decode_map_def decode_description map_read_defs read_operations)

lemma decode_directory:
  "directory_bytes d = Inr b \<Longrightarrow>
     decode b = Inr (M [(U 1, B (dr_directory d)), (U 2, U (dr_version d)), (U 3, A (map B (dr_members d)))])"
  unfolding directory_bytes_def by (erule decode_fields) (use nesting_bstrs [of "dr_members d"] in auto)

interpretation directory_body: signed_body directory_bytes parse_directory "\<lambda>_. True"
  by unfold_locales (simp add: parse_directory_def decode_map_def decode_directory map_read_defs)

lemma decode_import:
  "import_bytes i = Inr b \<Longrightarrow>
     decode b = Inr (M [(U 1, B (im_importer i)), (U 2, U (im_format i)), (U 3, B (im_foreign i)), (U 4, operations_value (im_operations i))])"
  unfolding import_bytes_def
  by (erule decode_fields) (use operations_value_facts [of "im_operations i"] in \<open>auto simp: le_trans\<close>)

interpretation import_codec: signed_body import_bytes parse_import "\<lambda>i. is_known_format (im_format i) \<and> flags_ok (im_operations i)"
  by unfold_locales (simp add: parse_import_def decode_map_def decode_import map_read_defs read_operations)

section \<open>The replacing decoder\<close>

lemma replace_decodes: "utf8_decode bs = Inr s \<Longrightarrow> utf8_decode_replace bs = s"
proof (induction bs arbitrary: s rule: utf8_decode.induct)
  case (1 bs)
  show ?case
    using 1 by (auto simp: utf8_decode.simps [of bs] utf8_decode_replace.simps [of bs] rbind_eq_Inr split: if_splits)
qed

lemma replace_clean: "0xFFFD \<notin> set (utf8_decode_replace bs) \<Longrightarrow> utf8_decode bs = Inr (utf8_decode_replace bs)"
proof (induction bs rule: utf8_decode_replace.induct)
  case (1 bs)
  show ?case
  proof (cases "bs = []")
    case False
    show ?thesis
    proof (cases "utf8_decode_char bs")
      case (Inl e)
      then show ?thesis using 1(3) False by (simp add: utf8_decode_replace.simps [of bs])
    next
      case (Inr p)
      obtain c rest where p: "p = (c, rest)" by (cases p)
      have "0xFFFD \<notin> set (utf8_decode_replace rest)" using 1(3) False Inr p by (simp add: utf8_decode_replace.simps [of bs])
      then have "utf8_decode rest = Inr (utf8_decode_replace rest)" using 1(2) [OF False Inr p [symmetric]] by simp
      then show ?thesis using False Inr p by (simp add: utf8_decode.simps [of bs] utf8_decode_replace.simps [of bs])
    qed
  qed (simp add: utf8_decode_replace.simps)
qed

lemma signer_id_chars: "signer_id P alg pk = Inr i \<Longrightarrow> c \<in> set i \<Longrightarrow> c < 256"
  by (auto simp: signer_id_def multihash_text_def Let_def pystr_def split: option.splits)

lemma importer_match:
  assumes "signer_id P alg pk = Inr i"
  shows "utf8_decode_replace b = i \<longleftrightarrow> utf8_encode i = Inr b"
proof
  assume "utf8_decode_replace b = i"
  moreover have "0xFFFD \<notin> set i" using signer_id_chars [OF assms] by force
  ultimately show "utf8_encode i = Inr b" using replace_clean [of b] utf8_decode_iff by simp
next
  assume "utf8_encode i = Inr b"
  then show "utf8_decode_replace b = i" by (intro replace_decodes) (simp add: utf8_decode_iff)
qed

section \<open>Forks\<close>

lemma find_upt_Some:
  "find Q [0..<n] = Some i \<longleftrightarrow> i < n \<and> Q i \<and> (\<forall>j < i. \<not> Q j)"
  by (auto simp: find_Some_iff)

lemma find_upt_None: "find Q [0..<n] = None \<longleftrightarrow> (\<forall>j < n. \<not> Q j)"
  by (auto simp: find_None_iff)

lemma first_difference_iff:
  "first_member_difference a b = (p, True) \<longleftrightarrow>
     a \<noteq> b \<and> p \<le> length a \<and> p \<le> length b \<and> take p a = take p b \<and> (p < length a \<longrightarrow> p < length b \<longrightarrow> a ! p \<noteq> b ! p)"
proof -
  have pre: "(\<forall>j < k. a ! j = b ! j) \<longleftrightarrow> take k a = take k b" if "k \<le> length a" "k \<le> length b" for k
    using that by (auto simp: list_eq_iff_nth_eq)
  show "first_member_difference a b = (p, True) \<longleftrightarrow>
     a \<noteq> b \<and> p \<le> length a \<and> p \<le> length b \<and> take p a = take p b \<and> (p < length a \<longrightarrow> p < length b \<longrightarrow> a ! p \<noteq> b ! p)"
  proof (cases "find (\<lambda>i. a ! i \<noteq> b ! i) [0..<min (length a) (length b)]")
    case (Some i)
    then have i: "i < length a" "i < length b" "a ! i \<noteq> b ! i" "\<forall>j < i. a ! j = b ! j" by (auto simp: find_upt_Some)
    have "p = i" if "p \<le> length a" "p \<le> length b" "\<forall>j < p. a ! j = b ! j" "p < length a \<longrightarrow> p < length b \<longrightarrow> a ! p \<noteq> b ! p"
      using that i by (metis linorder_neqE_nat order.strict_trans)
    then show ?thesis
      using i pre [of p] pre [of i] Some by (auto simp: first_member_difference_def Let_def)
  next
    case None
    then have n: "\<forall>j < min (length a) (length b). a ! j = b ! j" by (simp add: find_upt_None)
    have eq: "a = b \<longleftrightarrow> length a = length b" using n nth_equalityI [of a b] by auto
    have "p = min (length a) (length b)" if "p \<le> length a" "p \<le> length b" "p < length a \<longrightarrow> p < length b \<longrightarrow> a ! p \<noteq> b ! p"
      using that n by (cases "p < min (length a) (length b)") auto
    then show ?thesis
      using n None eq pre [of "min (length a) (length b)"] by (auto simp: first_member_difference_def Let_def)
  qed
qed

section \<open>Properties of descriptions\<close>

text \<open>A directory fork proof is accepted exactly when it names an accused and its two objects verify under that one
  key to two versions with the same id and number but different members; the position reported is the
  first at which the member lists differ, or the length of the shorter one.\<close>

theorem directory_fork_exact:
  "verify_directory_fork_proof P f prof alg pk = Inr pos \<longleftrightarrow>
     df_signer f \<noteq> [] \<and>
     (\<exists>a b. verify_directory P (df_signed_a f) prof alg pk = Inr a \<and> verify_directory P (df_signed_b f) prof alg pk = Inr b \<and>
        dr_directory a = dr_directory b \<and> dr_version a = dr_version b \<and> dr_members a \<noteq> dr_members b \<and>
        pos \<le> length (dr_members a) \<and> pos \<le> length (dr_members b) \<and> take pos (dr_members a) = take pos (dr_members b) \<and>
        (pos < length (dr_members a) \<longrightarrow> pos < length (dr_members b) \<longrightarrow> dr_members a ! pos \<noteq> dr_members b ! pos))"
proof -
  have fork: "(let (q, fork) = detect_directory_fork a b in if \<not> fork then Inl (DescriptionError ''DirForkProofInvalid'') else Inr q) = Inr pos
      \<longleftrightarrow> dr_directory a = dr_directory b \<and> dr_version a = dr_version b \<and> first_member_difference (dr_members a) (dr_members b) = (pos, True)" for a b
    by (auto simp: detect_directory_fork_def Let_def split: prod.splits)
  show ?thesis
    unfolding verify_directory_fork_proof_def if_Inl_eq_Inr rbind_eq_Inr fork first_difference_iff by auto
qed

lemma verify_import_Inr:
  "verify_import P ob prof alg pk = Inr r \<longleftrightarrow>
     (\<exists>payload i. desc_verify_sign1 P ob prof alg pk = Inr payload \<and> parse_import payload = Inr i \<and>
        signer_id P alg pk = Inr (ri_authority_id r) \<and> utf8_encode (ri_authority_id r) = Inr (im_importer i) \<and>
        ri_format r = im_format i \<and> ri_foreign_id r = import_foreign_id P i \<and> ri_operations r = im_operations i)"
  by (cases r) (auto simp: verify_import_def rbind_eq_Inr importer_match if_Inl_eq_Inr cong: conj_cong)

lemma parse_import_typed: "parse_import b = Inr i \<Longrightarrow> is_known_format (im_format i) \<and> flags_ok (im_operations i)"
  by (auto simp: parse_import_def case_option_eq_Inr res_simps dest: operations_flags)

lemma parse_description_typed: "parse_description b = Inr d \<Longrightarrow> flags_ok (ds_operations d)"
  by (auto simp: parse_description_def case_option_eq_Inr res_simps dest: operations_flags)

text \<open>The importer is the only authority. An accepted import is signed under the verifier's key with its header's algorithm
  and the profile's floor; the authority returned is that key's own signer id, written exactly as the importer
  field; the format is one of the three known ones and every approval flag is 0 or 1. So the authority and
  the verdict never come from the foreign bytes, and any importer field but the key's own id is refused.\<close>

theorem import_authority_is_signer:
  "(verify_import P ob prof alg pk = Inr r \<longleftrightarrow>
      (\<exists>payload i. desc_verify_sign1 P ob prof alg pk = Inr payload \<and> parse_import payload = Inr i \<and>
         is_known_format (im_format i) \<and> flags_ok (im_operations i) \<and>
         signer_id P alg pk = Inr (ri_authority_id r) \<and> utf8_encode (ri_authority_id r) = Inr (im_importer i) \<and>
         ri_format r = im_format i \<and> ri_foreign_id r = import_foreign_id P i \<and> ri_operations r = im_operations i)) \<and>
   (desc_verify_sign1 P ob prof alg pk = Inr pl \<longrightarrow> parse_import pl = Inr j \<longrightarrow> signer_id P alg pk = Inr k \<longrightarrow>
      utf8_encode k \<noteq> Inr (im_importer j) \<longrightarrow> verify_import P ob prof alg pk = Inl (DescriptionError ''ImporterMismatch''))"
proof -
  have "verify_import P ob prof alg pk = Inl (DescriptionError ''ImporterMismatch'')"
    if "desc_verify_sign1 P ob prof alg pk = Inr pl" "parse_import pl = Inr j" "signer_id P alg pk = Inr k" "utf8_encode k \<noteq> Inr (im_importer j)"
    using that importer_match [OF that(3)] by (simp add: verify_import_def)
  then show ?thesis unfolding verify_import_Inr using parse_import_typed by blast
qed

definition sample_operation :: operation where
  "sample_operation = \<lparr>op_name = [112], op_effect = 9, op_requires_approval = 1\<rparr>"

definition sample_import :: import_body where
  "sample_import = \<lparr>im_importer = [1], im_format = 2, im_foreign = [5, 6], im_operations = [sample_operation]\<rparr>"

lemma import_roundtrip:
  assumes "md_correct P" and "sign_import P i alg seed = Inr ob" and "md_key_derive P alg seed = Inr (pk, sk)"
    and "profile_min_level prof \<le> fst (alg_level alg)" and "is_known_format (im_format i)" and "flags_ok (im_operations i)"
  shows "\<exists>payload. desc_verify_sign1 P ob prof alg pk = Inr payload \<and> parse_import payload = Inr i"
  using import_codec.sign1_roundtrip [OF assms(1) assms(2) [unfolded sign_import_def] assms(3,4), of DescriptionError "''DescMalformed''"] assms(5,6)
  by (auto simp: desc_verify_sign1_def rbind_eq_Inr)

theorem import_authority_is_signer_witness:
  "\<exists>ob. sign_import sample_prims sample_import ALG_MLDSA65 [7] = Inr ob \<and>
     verify_import sample_prims ob PROFILE_PUBLIC ALG_MLDSA65 [7] = Inl (DescriptionError ''ImporterMismatch'')"
proof -
  have "is_ok (sign_import sample_prims sample_import ALG_MLDSA65 [7])" by code_simp
  then obtain ob where ob: "sign_import sample_prims sample_import ALG_MLDSA65 [7] = Inr ob" by (auto simp: is_ok_iff)
  obtain pl where pl: "desc_verify_sign1 sample_prims ob PROFILE_PUBLIC ALG_MLDSA65 [7] = Inr pl" "parse_import pl = Inr sample_import"
    using import_roundtrip [OF _ ob, of "[7]" "[7]" PROFILE_PUBLIC]
    by (auto simp: profile_min_level_def alg_level_def alg_defs profile_defs sample_import_def sample_operation_def
        is_known_format_def FORMAT_A2A_CARD_def FORMAT_ANP_DESCRIPTION_def FORMAT_AGNTCY_BADGE_def flags_ok_def)
  have s: "signer_id sample_prims ALG_MLDSA65 [7] = Inr (pystr ''bcibzcjah'')" using sample_ids by (simp add: ALG_MLDSA65_def)
  have "utf8_encode (pystr ''bcibzcjah'') \<noteq> Inr (im_importer sample_import)"
    by (subst utf8_encode_ascii) (auto simp: pystr_def sample_import_def)
  then show ?thesis
    using import_authority_is_signer pl s ob by blast
qed

section \<open>What is read is well typed\<close>

text \<open>An operation as it can be read from a verified object: a flag that is 0 or 1 and a natural effect below 2 to the 64.\<close>

definition typed_operation :: "operation \<Rightarrow> bool" where
  "typed_operation op \<longleftrightarrow> op_requires_approval op \<in> {0, 1} \<and> 0 \<le> op_effect op \<and> op_effect op < 2 ^ 64"

lemma operation_typed:
  assumes "operation_from_value v = Inr op" and "encodable v"
  shows "typed_operation op"
proof -
  let ?I = "\<lambda>st :: op_fields. (\<forall>n. fst (snd st) = Some n \<longrightarrow> 0 \<le> n \<and> n < 2 ^ 64) \<and> (\<forall>n. snd (snd st) = Some n \<longrightarrow> 0 \<le> n)"
  obtain ps name where v: "v = M ps" and r: "rfold operation_step (None, None, None) ps = Inr (Some name, Some (op_effect op), Some (op_requires_approval op))"
    using assms(1) by (auto simp: operation_from_value_def case_prod_eq_Inr case_option_eq_Inr res_simps split: cbor.split_asm)
  have step: "?I t" if a: "p \<in> set ps" "?I s" "operation_step s p = Inr t" for s p t
  proof -
    obtain name eff req where s: "s = (name, eff, req)" by (cases s)
    obtain k x where p: "p = (U k, x)"
      using a(3) by (cases p; cases "fst p") (simp_all add: operation_step_def s)
    have e: "encodable x" using a(1) assms(2) v p by (force simp: encodable_M)
    have "t = (if is_T x \<and> k = 1 then (case x of T y \<Rightarrow> Some y | _ \<Rightarrow> name) else name,
        if is_U x \<and> k = 2 then (case x of U n \<Rightarrow> Some n | _ \<Rightarrow> eff) else eff,
        if is_U x \<and> k = 3 then (case x of U n \<Rightarrow> Some n | _ \<Rightarrow> req) else req)"
      using a(3) by (cases x) (simp_all add: operation_step_def s p split: if_split_asm)
    then show ?thesis using a(2) e by (cases x) (simp_all add: s encodable_U)
  qed
  have "?I (Some name, Some (op_effect op), Some (op_requires_approval op))"
    by (rule rfold_invariant [OF r, where I = ?I]) (simp, rule step)
  then show ?thesis using operation_flag [OF assms(1)] by (auto simp: typed_operation_def)
qed

lemma operations_typed:
  assumes "operations_from_value v = Inr ops" and "encodable v"
  shows "list_all typed_operation ops"
proof -
  obtain items where v: "v = A items" and r: "read_items operation_from_value items = Inr ops"
    using assms(1) by (auto simp: operations_from_value_def split: cbor.split_asm)
  have "\<forall>x \<in> set items. encodable x" using assms(2) v by (simp add: encodable_A)
  then show ?thesis using r
    by (induction items arbitrary: ops) (auto simp: rbind_eq_Inr operation_typed)
qed

lemma parsed_operations_typed:
  "parse_description b = Inr d \<Longrightarrow> list_all typed_operation (ds_operations d)"
  "parse_import b = Inr i \<Longrightarrow> list_all typed_operation (im_operations i)"
  by (auto simp: parse_description_def parse_import_def case_prod_eq_Inr case_option_eq_Inr res_simps
      intro: operations_typed dest: decoded_field(1) split: option.split_asm)

text \<open>Reading what was written: an approval flag beyond 1 is refused by name, and otherwise the operations come back.\<close>

definition flags_01 :: "operation list \<Rightarrow> bool" where
  "flags_01 ops \<longleftrightarrow> list_all (\<lambda>op. op_requires_approval op \<in> {0, 1}) ops"

lemma written_operations:
  assumes "encodable (operations_value ops)"
  shows "operations_from_value (operations_value ops) = (if flags_01 ops then Inr ops else Inl (DescriptionError ''MalformedApprovalFlag''))"
proof -
  have one: "operation_from_value (operation_map op) = (if op_requires_approval op \<in> {0, 1} then Inr op else Inl (DescriptionError ''MalformedApprovalFlag''))"
    if "encodable (operation_map op)" for op
    using that by (cases op) (auto simp: operation_from_value_def operation_map_def operation_step_def encodable_M encodable_U)
  have "\<forall>op \<in> set ops. encodable (operation_map op)" using assms by (simp add: operations_value_def encodable_A)
  then have "read_items operation_from_value (map operation_map ops) = (if flags_01 ops then Inr ops else Inl (DescriptionError ''MalformedApprovalFlag''))"
    by (induction ops) (simp_all add: one flags_01_def)
  then show ?thesis by (simp add: operations_from_value_def operations_value_def)
qed

lemma parse_description_written:
  assumes "description_bytes d = Inr m"
  shows "parse_description m = (if flags_01 (ds_operations d) then Inr d else Inl (DescriptionError ''MalformedApprovalFlag''))"
proof -
  have "encodable (operations_value (ds_operations d))"
    using decoded_map(1) [OF decode_description [OF assms]] by (simp add: encodable_M)
  then show ?thesis
    by (simp add: parse_description_def decode_map_def decode_description [OF assms] map_read_defs written_operations)
qed

lemma parse_import_written:
  assumes "import_bytes i = Inr m"
  shows "parse_import m = (if im_format i \<notin> {1, 2, 3} then Inl (DescriptionError ''UnknownDescriptionFormat'')
    else if flags_01 (im_operations i) then Inr i else Inl (DescriptionError ''MalformedApprovalFlag''))"
proof -
  have "encodable (operations_value (im_operations i))"
    using decoded_map(1) [OF decode_import [OF assms]] by (simp add: encodable_M)
  then show ?thesis
    by (simp add: parse_import_def decode_map_def decode_import [OF assms] map_read_defs written_operations is_known_format_def
        FORMAT_A2A_CARD_def FORMAT_ANP_DESCRIPTION_def FORMAT_AGNTCY_BADGE_def)
qed

lemma signed_payload:
  assumes "md_correct P" and "md_key_derive P alg seed = Inr (pk, sk)" and "profile_min_level prof \<le> fst (alg_level alg)"
    and "sign_body P alg seed bd = Inr ob"
  obtains m where "bd = Inr m" and "desc_verify_sign1 P ob prof alg pk = Inr m"
  using signed_verify_sign1 [OF assms(1,4,2,3)] sign_body_Inr [OF assms(4)] that by (auto simp: desc_verify_sign1_def)

lemma verify_directory_signed:
  assumes "md_correct P" and "md_key_derive P alg seed = Inr (pk, sk)" and "profile_min_level prof \<le> fst (alg_level alg)"
    and "sign_directory P dir alg seed = Inr ob"
  shows "verify_directory P ob prof alg pk = Inr dir"
  using directory_body.sign1_roundtrip [OF assms(1) assms(4) [unfolded sign_directory_def] assms(2,3)]
  by (simp add: verify_directory_def desc_verify_sign1_def)

lemma verify_description_signed:
  assumes "md_correct P" and "md_key_derive P alg seed = Inr (pk, sk)" and "profile_min_level prof \<le> fst (alg_level alg)"
    and "sign_description P d alg seed = Inr ob"
  shows "verify_description P ob prof alg pk =
    (if flags_01 (ds_operations d) then Inr d else Inl (DescriptionError ''MalformedApprovalFlag''))"
  by (rule signed_payload [OF assms(1-3) assms(4) [unfolded sign_description_def]])
    (simp add: verify_description_def parse_description_written)

lemma verify_import_signed:
  assumes "md_correct P" and "md_key_derive P alg seed = Inr (pk, sk)" and "profile_min_level prof \<le> fst (alg_level alg)"
    and "sign_import P i alg seed = Inr ob" and "signer_id P alg pk = Inr key"
  shows "verify_import P ob prof alg pk =
    (if im_format i \<notin> {1, 2, 3} then Inl (DescriptionError ''UnknownDescriptionFormat'')
     else if \<not> flags_01 (im_operations i) then Inl (DescriptionError ''MalformedApprovalFlag'')
     else if utf8_encode key \<noteq> Inr (im_importer i) then Inl (DescriptionError ''ImporterMismatch'')
     else Inr \<lparr>ri_authority_id = key, ri_format = im_format i,
       ri_foreign_id = content_id_bytes (sha384 P) (im_foreign i), ri_operations = im_operations i\<rparr>)"
  by (rule signed_payload [OF assms(1-3) assms(4) [unfolded sign_import_def]])
    (simp add: verify_import_def parse_import_written assms(5) importer_match [OF assms(5)] import_foreign_id_def)

text \<open>C33: Signed descriptions, directories and imports verify to themselves, whichever host serves the bytes, and what
  verification returns is well typed. Under the signer's key a signed directory verifies to itself; a signed description does
  so exactly when every approval flag it was given is 0 or 1, and is refused with MalformedApprovalFlag otherwise; a signed
  import resolves to its own operations and format, the id of its foreign bytes and the signer's id as authority exactly when
  its format is known, its flags are 0 or 1 and its importer field is the signer's id, and each failure has its own name, in
  this order. And whoever signed it, every operation of a verified description or import has a flag of 0 or 1 and a natural
  effect.\<close>

theorem descriptions_verify:
  assumes "md_correct P" and "md_key_derive P alg seed = Inr (pk, sk)" and "profile_min_level prof \<le> fst (alg_level alg)"
    and "signer_id P alg pk = Inr key"
  shows "(sign_description P d alg seed = Inr ob \<longrightarrow> verify_description P ob prof alg pk =
      (if list_all (\<lambda>op. op_requires_approval op \<in> {0, 1}) (ds_operations d) then Inr d
       else Inl (DescriptionError ''MalformedApprovalFlag''))) \<and>
    (sign_directory P dir alg seed = Inr ob \<longrightarrow> verify_directory P ob prof alg pk = Inr dir) \<and>
    (sign_import P i alg seed = Inr ob \<longrightarrow> verify_import P ob prof alg pk =
      (if im_format i \<notin> {1, 2, 3} then Inl (DescriptionError ''UnknownDescriptionFormat'')
       else if \<not> list_all (\<lambda>op. op_requires_approval op \<in> {0, 1}) (im_operations i) then Inl (DescriptionError ''MalformedApprovalFlag'')
       else if utf8_encode key \<noteq> Inr (im_importer i) then Inl (DescriptionError ''ImporterMismatch'')
       else Inr \<lparr>ri_authority_id = key, ri_format = im_format i,
         ri_foreign_id = content_id_bytes (sha384 P) (im_foreign i), ri_operations = im_operations i\<rparr>)) \<and>
    (verify_description P ob prof alg pk = Inr d' \<longrightarrow>
      (\<forall>op \<in> set (ds_operations d'). op_requires_approval op \<in> {0, 1} \<and> 0 \<le> op_effect op \<and> op_effect op < 2 ^ 64)) \<and>
    (verify_import P ob prof alg pk = Inr r \<longrightarrow>
      ri_format r \<in> {1, 2, 3} \<and>
      (\<forall>op \<in> set (ri_operations r). op_requires_approval op \<in> {0, 1} \<and> 0 \<le> op_effect op \<and> op_effect op < 2 ^ 64))"
proof (intro conjI impI)
  show "verify_description P ob prof alg pk =
      (if list_all (\<lambda>op. op_requires_approval op \<in> {0, 1}) (ds_operations d) then Inr d
       else Inl (DescriptionError ''MalformedApprovalFlag''))" if "sign_description P d alg seed = Inr ob"
    using verify_description_signed [OF assms(1-3) that] by (simp add: flags_01_def)
  show "verify_directory P ob prof alg pk = Inr dir" if "sign_directory P dir alg seed = Inr ob"
    by (rule verify_directory_signed [OF assms(1-3) that])
  show "verify_import P ob prof alg pk =
      (if im_format i \<notin> {1, 2, 3} then Inl (DescriptionError ''UnknownDescriptionFormat'')
       else if \<not> list_all (\<lambda>op. op_requires_approval op \<in> {0, 1}) (im_operations i) then Inl (DescriptionError ''MalformedApprovalFlag'')
       else if utf8_encode key \<noteq> Inr (im_importer i) then Inl (DescriptionError ''ImporterMismatch'')
       else Inr \<lparr>ri_authority_id = key, ri_format = im_format i,
         ri_foreign_id = content_id_bytes (sha384 P) (im_foreign i), ri_operations = im_operations i\<rparr>)"
    if "sign_import P i alg seed = Inr ob"
    using verify_import_signed [OF assms(1-3) that assms(4)] by (simp add: flags_01_def)
  show "\<forall>op \<in> set (ds_operations d'). op_requires_approval op \<in> {0, 1} \<and> 0 \<le> op_effect op \<and> op_effect op < 2 ^ 64"
    if "verify_description P ob prof alg pk = Inr d'"
    using that parsed_operations_typed(1) by (force simp: verify_description_def rbind_eq_Inr list_all_iff typed_operation_def)
  assume "verify_import P ob prof alg pk = Inr r"
  then obtain m j where p: "parse_import m = Inr j" "ri_format r = im_format j" "ri_operations r = im_operations j"
    by (auto simp: verify_import_Inr)
  show "ri_format r \<in> {1, 2, 3}"
    using parse_import_typed [OF p(1)] p(2)
    by (simp add: is_known_format_def FORMAT_A2A_CARD_def FORMAT_ANP_DESCRIPTION_def FORMAT_AGNTCY_BADGE_def)
  show "\<forall>op \<in> set (ri_operations r). op_requires_approval op \<in> {0, 1} \<and> 0 \<le> op_effect op \<and> op_effect op < 2 ^ 64"
    using parsed_operations_typed(2) [OF p(1)] p(3) by (simp add: list_all_iff typed_operation_def)
qed

definition sample_own_import :: import_body where
  "sample_own_import = sample_import\<lparr>im_importer := map of_nat (pystr ''bcibzcjah'')\<rparr>"

theorem descriptions_verify_witness:
  "\<exists>ob ob'. sign_description sample_prims \<lparr>ds_service = [1], ds_operations = [sample_operation]\<rparr> ALG_MLDSA65 [7] = Inr ob \<and>
     verify_description sample_prims ob PROFILE_PUBLIC ALG_MLDSA65 [7] = Inr \<lparr>ds_service = [1], ds_operations = [sample_operation]\<rparr> \<and>
     sign_import sample_prims sample_own_import ALG_MLDSA65 [7] = Inr ob' \<and>
     verify_import sample_prims ob' PROFILE_PUBLIC ALG_MLDSA65 [7] = Inr \<lparr>ri_authority_id = pystr ''bcibzcjah'', ri_format = 2,
       ri_foreign_id = content_id_bytes (sha384 sample_prims) [5, 6], ri_operations = [sample_operation]\<rparr>"
proof -
  let ?d = "\<lparr>ds_service = [1], ds_operations = [sample_operation]\<rparr>"
  have "is_ok (sign_description sample_prims ?d ALG_MLDSA65 [7])" "is_ok (sign_import sample_prims sample_own_import ALG_MLDSA65 [7])"
    by code_simp+
  then obtain ob ob' where ob: "sign_description sample_prims ?d ALG_MLDSA65 [7] = Inr ob"
    "sign_import sample_prims sample_own_import ALG_MLDSA65 [7] = Inr ob'"
    by (auto simp: is_ok_iff)
  have s: "signer_id sample_prims ALG_MLDSA65 [7] = Inr (pystr ''bcibzcjah'')" using sample_ids by (simp add: ALG_MLDSA65_def)
  have l: "profile_min_level PROFILE_PUBLIC \<le> fst (alg_level ALG_MLDSA65)"
    by (simp add: profile_min_level_def alg_level_def alg_defs profile_defs)
  have e: "utf8_encode (pystr ''bcibzcjah'') = Inr (map of_nat (pystr ''bcibzcjah''))" by code_simp
  note dv = descriptions_verify [OF sample_prims_correct(1) sample_prims_sel(4) l s]
  have "verify_description sample_prims ob PROFILE_PUBLIC ALG_MLDSA65 [7] = Inr ?d"
    using dv [of ?d ob] ob(1) by (simp add: sample_operation_def)
  moreover have "verify_import sample_prims ob' PROFILE_PUBLIC ALG_MLDSA65 [7] = Inr \<lparr>ri_authority_id = pystr ''bcibzcjah'', ri_format = 2,
       ri_foreign_id = content_id_bytes (sha384 sample_prims) [5, 6], ri_operations = [sample_operation]\<rparr>"
    using dv [of _ ob' _ sample_own_import] ob(2) e by (simp add: sample_own_import_def sample_import_def sample_operation_def)
  ultimately show ?thesis using ob by blast
qed

definition sample_directory :: "bytes list \<Rightarrow> directory" where
  "sample_directory ms = \<lparr>dr_directory = [1], dr_version = 4, dr_members = ms\<rparr>"

theorem directory_fork_exact_witness:
  "\<exists>x y. sign_directory sample_prims (sample_directory [[5], [6]]) ALG_MLDSA65 [7] = Inr x \<and>
     sign_directory sample_prims (sample_directory [[5], [8]]) ALG_MLDSA65 [7] = Inr y \<and>
     verify_directory_fork_proof sample_prims \<lparr>df_signer = [3], df_signed_a = x, df_signed_b = y\<rparr> PROFILE_PUBLIC ALG_MLDSA65 [7] = Inr 1"
proof -
  have "is_ok (sign_directory sample_prims (sample_directory [[5], [6]]) ALG_MLDSA65 [7])"
    "is_ok (sign_directory sample_prims (sample_directory [[5], [8]]) ALG_MLDSA65 [7])" by code_simp+
  then obtain x y where s: "sign_directory sample_prims (sample_directory [[5], [6]]) ALG_MLDSA65 [7] = Inr x"
    "sign_directory sample_prims (sample_directory [[5], [8]]) ALG_MLDSA65 [7] = Inr y" by (auto simp: is_ok_iff)
  have v: "verify_directory sample_prims ob PROFILE_PUBLIC ALG_MLDSA65 [7] = Inr d"
    if "sign_directory sample_prims d ALG_MLDSA65 [7] = Inr ob" for d ob
    by (rule verify_directory_signed [OF _ _ _ that]) (simp_all add: profile_min_level_def alg_level_def alg_defs profile_defs)
  have "verify_directory_fork_proof sample_prims \<lparr>df_signer = [3], df_signed_a = x, df_signed_b = y\<rparr> PROFILE_PUBLIC ALG_MLDSA65 [7] = Inr 1"
    unfolding directory_fork_exact using v [OF s(1)] v [OF s(2)] by (simp add: sample_directory_def)
  with s show ?thesis by blast
qed

end
