(* ===== verification/Hazard.thy ===== *)
theory Hazard
  imports Signed Identity
begin

text \<open>
  Physical-hazard authorization (\<^verbatim>\<open>impl/python/naalp/hazard.py\<close>): the closed hazard classes with their fail-closed
  decoding, the physical envelope of a claim or an authorization with its strict readers, and the coverage
  check, whose meaning in terms of regions, speeds and times is shown at the end.
\<close>

section \<open>Classes\<close>

definition HAZARD_NONE :: int where "HAZARD_NONE = 0"
definition TOOL_ACTUATION :: int where "TOOL_ACTUATION = 1"
definition THERMAL :: int where "THERMAL = 2"
definition ENERGY_RELEASE :: int where "ENERGY_RELEASE = 3"
definition MOTION_IN_SHARED_SPACE :: int where "MOTION_IN_SHARED_SPACE = 4"

definition HAZARD_CLASS_NAMES :: "(int \<times> string) list" where
  "HAZARD_CLASS_NAMES =
     [(HAZARD_NONE, ''none''), (TOOL_ACTUATION, ''tool_actuation''), (THERMAL, ''thermal''),
      (ENERGY_RELEASE, ''energy_release''), (MOTION_IN_SHARED_SPACE, ''motion_in_shared_space'')]"

definition from_code :: "int option \<Rightarrow> int" where
  "from_code code =
     (case code of
        Some c \<Rightarrow> if HAZARD_NONE \<le> c \<and> c \<le> MOTION_IN_SHARED_SPACE then c else MOTION_IN_SHARED_SPACE
      | None \<Rightarrow> MOTION_IN_SHARED_SPACE)"

definition hazard_class_name :: "int \<Rightarrow> string res" where
  "hazard_class_name c = (case map_of HAZARD_CLASS_NAMES c of Some n \<Rightarrow> Inr n | None \<Rightarrow> Inl KeyError)"

lemmas hazard_class_defs = HAZARD_NONE_def MOTION_IN_SHARED_SPACE_def

section \<open>Regions\<close>

definition int_value :: "int \<Rightarrow> cbor" where
  "int_value v = (if v \<ge> 0 then U v else N v)"

definition int_from_value :: "cbor \<Rightarrow> int res" where
  "int_from_value v = (case v of U n \<Rightarrow> Inr n | N n \<Rightarrow> Inr n | _ \<Rightarrow> Inl HazardMalformed)"

record spatial_bounds =
  sb_frame :: pystr
  sb_axes :: "(int \<times> int) list"

definition is_well_formed :: "prims \<Rightarrow> spatial_bounds \<Rightarrow> bool" where
  "is_well_formed P sb \<longleftrightarrow>
     (if sb_axes sb = [] then False
      else if \<exists>(mn, mx) \<in> set (sb_axes sb). mn > mx then False
      else if sb_frame sb = [] then False
      else is_ok (require_nfc P (sb_frame sb)))"

definition axis_value :: "int \<times> int \<Rightarrow> cbor" where
  "axis_value ax = (case ax of (mn, mx) \<Rightarrow> A [int_value mn, int_value mx])"

definition spatial_value :: "spatial_bounds \<Rightarrow> cbor" where
  "spatial_value sb = M [(U 1, T (sb_frame sb)), (U 2, A (map axis_value (sb_axes sb)))]"

definition axis_from_value :: "cbor \<Rightarrow> (int \<times> int) res" where
  "axis_from_value it =
     (case it of
        A [a, b] \<Rightarrow> rbind (int_from_value a) (\<lambda>mn. rbind (int_from_value b) (\<lambda>mx.
          if mn > mx then Inl HazardMalformed else Inr (mn, mx)))
      | _ \<Rightarrow> Inl HazardMalformed)"

definition spatial_step :: "pystr option \<times> (int \<times> int) list option \<Rightarrow> cbor \<times> cbor \<Rightarrow> (pystr option \<times> (int \<times> int) list option) res" where
  "spatial_step st p =
     (case st of (frame, axes) \<Rightarrow>
       (case fst p of
          U k \<Rightarrow>
            if k = 1 then (case snd p of T t \<Rightarrow> Inr (Some t, axes) | _ \<Rightarrow> Inl HazardMalformed)
            else if k = 2 then
              (case snd p of
                 A items \<Rightarrow> if items = [] then Inl HazardMalformed
                   else rbind (read_items axis_from_value items) (\<lambda>out. Inr (frame, Some out))
               | _ \<Rightarrow> Inl HazardMalformed)
            else Inl HazardMalformed
        | _ \<Rightarrow> Inl HazardMalformed))"

definition spatial_from_value :: "prims \<Rightarrow> cbor \<Rightarrow> spatial_bounds res" where
  "spatial_from_value P v =
     (case v of
        M ps \<Rightarrow> rbind (rfold spatial_step (None, None) ps) (\<lambda>st.
          case st of
            (Some frame, Some axes) \<Rightarrow>
              (let sb = \<lparr>sb_frame = frame, sb_axes = axes\<rparr> in
               if \<not> is_well_formed P sb then Inl HazardMalformed else Inr sb)
          | _ \<Rightarrow> Inl HazardMalformed)
      | _ \<Rightarrow> Inl HazardMalformed)"

definition spatial_contained :: "spatial_bounds \<Rightarrow> spatial_bounds \<Rightarrow> bool" where
  "spatial_contained claim grt \<longleftrightarrow>
     (if sb_frame claim \<noteq> sb_frame grt then False
      else if length (sb_axes claim) \<noteq> length (sb_axes grt) then False
      else list_all (\<lambda>((cmin, cmax), (gmin, gmax)). cmin \<ge> gmin \<and> cmax \<le> gmax) (zip (sb_axes claim) (sb_axes grt)))"

section \<open>Windows and envelopes\<close>

record hazard_window =
  hw_not_before :: int
  hw_not_after :: int

definition window_value :: "hazard_window \<Rightarrow> cbor" where
  "window_value w = M [(U 1, U (hw_not_before w)), (U 2, U (hw_not_after w))]"

definition window_step :: "int option \<times> int option \<Rightarrow> cbor \<times> cbor \<Rightarrow> (int option \<times> int option) res" where
  "window_step st p =
     (case st of (nb, na) \<Rightarrow>
       (case p of
          (U k, U n) \<Rightarrow> if k = 1 then Inr (Some n, na) else if k = 2 then Inr (nb, Some n) else Inl HazardMalformed
        | _ \<Rightarrow> Inl HazardMalformed))"

definition window_from_value :: "cbor \<Rightarrow> hazard_window res" where
  "window_from_value v =
     (case v of
        M ps \<Rightarrow> rbind (rfold window_step (None, None) ps) (\<lambda>st.
          case st of
            (Some nb, Some na) \<Rightarrow> Inr \<lparr>hw_not_before = nb, hw_not_after = na\<rparr>
          | _ \<Rightarrow> Inl HazardMalformed)
      | _ \<Rightarrow> Inl HazardMalformed)"

record hazard_envelope =
  he_spatial :: spatial_bounds
  he_speed_bound_mm_s :: int
  he_window :: hazard_window

definition envelope_value :: "hazard_envelope \<Rightarrow> cbor" where
  "envelope_value e =
     M [(U 1, spatial_value (he_spatial e)), (U 2, U (he_speed_bound_mm_s e)), (U 3, window_value (he_window e))]"

definition envelope_content_id :: "prims \<Rightarrow> hazard_envelope \<Rightarrow> bytes res" where
  "envelope_content_id P e = content_id (sha384 P) (envelope_value e)"

type_synonym envelope_fields = "spatial_bounds option \<times> int option \<times> hazard_window option"

definition envelope_step :: "prims \<Rightarrow> envelope_fields \<Rightarrow> cbor \<times> cbor \<Rightarrow> envelope_fields res" where
  "envelope_step P st p =
     (case st of (sp, speed, win) \<Rightarrow>
       (case fst p of
          U k \<Rightarrow>
            if k = 1 then rbind (spatial_from_value P (snd p)) (\<lambda>s. Inr (Some s, speed, win))
            else if k = 2 then (case snd p of U n \<Rightarrow> Inr (sp, Some n, win) | _ \<Rightarrow> Inl HazardMalformed)
            else if k = 3 then rbind (window_from_value (snd p)) (\<lambda>w. Inr (sp, speed, Some w))
            else Inl HazardMalformed
        | _ \<Rightarrow> Inl HazardMalformed))"

definition envelope_from_value :: "prims \<Rightarrow> cbor \<Rightarrow> hazard_envelope res" where
  "envelope_from_value P v =
     (case v of
        M ps \<Rightarrow> rbind (rfold (envelope_step P) (None, None, None) ps) (\<lambda>st.
          case st of
            (Some sp, Some speed, Some win) \<Rightarrow> Inr \<lparr>he_spatial = sp, he_speed_bound_mm_s = speed, he_window = win\<rparr>
          | _ \<Rightarrow> Inl HazardMalformed)
      | _ \<Rightarrow> Inl HazardMalformed)"

definition envelope_contained :: "hazard_envelope \<Rightarrow> hazard_envelope \<Rightarrow> bool" where
  "envelope_contained claim grt \<longleftrightarrow>
     spatial_contained (he_spatial claim) (he_spatial grt) \<and> he_speed_bound_mm_s claim \<le> he_speed_bound_mm_s grt \<and>
     hw_not_before (he_window grt) \<le> hw_not_before (he_window claim) \<and>
     hw_not_after (he_window claim) \<le> hw_not_after (he_window grt)"

section \<open>Claims and authorizations\<close>

record hazard_claim =
  hc_hazard_class :: int
  hc_envelope :: hazard_envelope

record hazard_authorization =
  ha_hazard_class :: int
  ha_envelope :: hazard_envelope

definition hazard_body_value :: "int \<Rightarrow> hazard_envelope \<Rightarrow> cbor" where
  "hazard_body_value c e = M [(U 1, U c), (U 2, envelope_value e)]"

definition hazard_body_step :: "prims \<Rightarrow> int option \<times> hazard_envelope option \<Rightarrow> cbor \<times> cbor \<Rightarrow> (int option \<times> hazard_envelope option) res" where
  "hazard_body_step P st p =
     (case st of (cls, env) \<Rightarrow>
       (case fst p of
          U k \<Rightarrow>
            if k = 1 then
              (case snd p of U n \<Rightarrow> if HAZARD_NONE \<le> n \<and> n \<le> MOTION_IN_SHARED_SPACE then Inr (Some n, env) else Inl HazardMalformed
               | _ \<Rightarrow> Inl HazardMalformed)
            else if k = 2 then rbind (envelope_from_value P (snd p)) (\<lambda>e. Inr (cls, Some e))
            else Inl HazardMalformed
        | _ \<Rightarrow> Inl HazardMalformed))"

definition hazard_body_from_value :: "prims \<Rightarrow> cbor \<Rightarrow> (int \<times> hazard_envelope) res" where
  "hazard_body_from_value P v =
     (case v of
        M ps \<Rightarrow> rbind (rfold (hazard_body_step P) (None, None) ps) (\<lambda>st.
          case st of
            (Some c, Some e) \<Rightarrow> Inr (from_code (Some c), e)
          | _ \<Rightarrow> Inl HazardMalformed)
      | _ \<Rightarrow> Inl HazardMalformed)"

definition claim_value :: "hazard_claim \<Rightarrow> cbor" where
  "claim_value c = hazard_body_value (hc_hazard_class c) (hc_envelope c)"

definition claim_bytes :: "hazard_claim \<Rightarrow> bytes res" where
  "claim_bytes c = encode (claim_value c)"

definition claim_from_value :: "prims \<Rightarrow> cbor \<Rightarrow> hazard_claim res" where
  "claim_from_value P v =
     rbind (hazard_body_from_value P v) (\<lambda>(c, e). Inr \<lparr>hc_hazard_class = c, hc_envelope = e\<rparr>)"

definition authorization_value :: "hazard_authorization \<Rightarrow> cbor" where
  "authorization_value a = hazard_body_value (ha_hazard_class a) (ha_envelope a)"

definition authorization_bytes :: "hazard_authorization \<Rightarrow> bytes res" where
  "authorization_bytes a = encode (authorization_value a)"

definition authorization_from_value :: "prims \<Rightarrow> cbor \<Rightarrow> hazard_authorization res" where
  "authorization_from_value P v =
     rbind (hazard_body_from_value P v) (\<lambda>(c, e). Inr \<lparr>ha_hazard_class = c, ha_envelope = e\<rparr>)"

definition hazard_authorized :: "hazard_claim \<Rightarrow> hazard_authorization \<Rightarrow> unit res" where
  "hazard_authorized claim grt =
     (if hc_hazard_class claim \<noteq> ha_hazard_class grt then Inl HazardNotCovered
      else if \<not> envelope_contained (hc_envelope claim) (ha_envelope grt) then Inl HazardNotCovered
      else Inr ())"

definition hazard_authorized_optional :: "hazard_claim option \<Rightarrow> hazard_authorization \<Rightarrow> unit res" where
  "hazard_authorized_optional claim grt =
     (case claim of None \<Rightarrow> Inl HazardUnknown | Some c \<Rightarrow> hazard_authorized c grt)"

section \<open>The readers invert the writers\<close>

lemma int_value_facts: "canon (int_value n) = int_value n" "nesting (int_value n) = 1" "int_from_value (int_value n) = Inr n"
  by (simp_all add: int_value_def int_from_value_def)

lemma axis_facts: "canon (axis_value ax) = axis_value ax" "nesting (axis_value ax) \<le> 2"
  by (auto simp: axis_value_def int_value_facts split: prod.splits)

lemma spatial_facts: "canon (spatial_value sb) = spatial_value sb" "nesting (spatial_value sb) \<le> 4"
proof -
  have a: "canon (A (map axis_value (sb_axes sb))) = A (map axis_value (sb_axes sb))"
    by (rule array_facts(1)) (rule axis_facts)+
  have b: "nesting (A (map axis_value (sb_axes sb))) \<le> Suc 2"
    by (rule array_facts(2)) (rule axis_facts)+
  show "canon (spatial_value sb) = spatial_value sb"
    unfolding spatial_value_def by (rule map_facts(1) [where k = 3]) (use a b in \<open>auto simp del: canon.simps(1) nesting.simps(1)\<close>)
  have "nesting (spatial_value sb) \<le> Suc 3"
    unfolding spatial_value_def by (rule map_facts(2)) (use a b in \<open>auto simp del: canon.simps(1) nesting.simps(1)\<close>)
  then show "nesting (spatial_value sb) \<le> 4" by simp
qed

lemma window_facts: "canon (window_value w) = window_value w" "nesting (window_value w) \<le> 2"
  unfolding window_value_def by (rule map_facts(1) [where k = 1]; auto) simp

lemma envelope_facts: "canon (envelope_value e) = envelope_value e" "nesting (envelope_value e) \<le> 5"
proof -
  note f = spatial_facts [of "he_spatial e"] window_facts [of "he_window e"]
  show "canon (envelope_value e) = envelope_value e"
    unfolding envelope_value_def by (rule map_facts(1) [where k = 4]) (use f in auto)
  have "nesting (envelope_value e) \<le> Suc 4"
    unfolding envelope_value_def by (rule map_facts(2)) (use f in auto)
  then show "nesting (envelope_value e) \<le> 5" by simp
qed

lemma hazard_body_facts: "canon (hazard_body_value c e) = hazard_body_value c e" "nesting (hazard_body_value c e) \<le> 6"
proof -
  note f = envelope_facts [of e]
  show "canon (hazard_body_value c e) = hazard_body_value c e"
    unfolding hazard_body_value_def by (rule map_facts(1) [where k = 5]) (use f in auto)
  have "nesting (hazard_body_value c e) \<le> Suc 5"
    unfolding hazard_body_value_def by (rule map_facts(2)) (use f in auto)
  then show "nesting (hazard_body_value c e) \<le> 6" by simp
qed

lemma well_formed_axes: "is_well_formed P sb \<Longrightarrow> ax \<in> set (sb_axes sb) \<Longrightarrow> fst ax \<le> snd ax"
  and well_formed_nonempty: "is_well_formed P sb \<Longrightarrow> sb_axes sb \<noteq> []"
  by (auto simp: is_well_formed_def not_less split: if_splits)

lemma read_axis: "fst ax \<le> snd ax \<Longrightarrow> axis_from_value (axis_value ax) = Inr ax"
  by (auto simp: axis_from_value_def axis_value_def int_value_facts split: prod.splits)

lemma read_spatial: "is_well_formed P sb \<Longrightarrow> spatial_from_value P (spatial_value sb) = Inr sb"
proof -
  assume w: "is_well_formed P sb"
  have "read_items axis_from_value (map axis_value (sb_axes sb)) = Inr (sb_axes sb)"
    using well_formed_axes [OF w] by (intro read_items_map read_axis)
  then show ?thesis
    using w well_formed_nonempty [OF w] by (cases sb) (simp add: spatial_from_value_def spatial_value_def spatial_step_def)
qed

lemma read_window: "window_from_value (window_value w) = Inr w"
  by (simp add: window_from_value_def window_value_def window_step_def)

definition envelope_wf :: "prims \<Rightarrow> hazard_envelope \<Rightarrow> bool" where
  "envelope_wf P e \<longleftrightarrow> is_well_formed P (he_spatial e)"

lemma read_envelope: "envelope_wf P e \<Longrightarrow> envelope_from_value P (envelope_value e) = Inr e"
  by (simp add: envelope_wf_def envelope_from_value_def envelope_value_def envelope_step_def read_spatial read_window)

lemma read_hazard_body:
  "0 \<le> c \<Longrightarrow> c \<le> 4 \<Longrightarrow> envelope_wf P e \<Longrightarrow> hazard_body_from_value P (hazard_body_value c e) = Inr (c, e)"
  by (simp add: hazard_body_from_value_def hazard_body_value_def hazard_body_step_def read_envelope from_code_def hazard_class_defs)

section \<open>The readers accept nothing else\<close>

lemma int_from_value_exact: "encodable v \<Longrightarrow> int_from_value v = Inr n \<Longrightarrow> v = int_value n"
  by (auto simp: int_from_value_def int_value_def encodable_U encodable_N split: cbor.splits)

lemma axis_from_value_exact: "encodable v \<Longrightarrow> axis_from_value v = Inr ax \<Longrightarrow> v = axis_value ax \<and> fst ax \<le> snd ax"
  by (auto simp: axis_from_value_def axis_value_def res_simps encodable_A not_less int_from_value_exact)

lemma read_axes_exact:
  "list_all encodable vs \<Longrightarrow> read_items axis_from_value vs = Inr axs \<Longrightarrow> vs = map axis_value axs"
  by (induction vs arbitrary: axs) (auto simp: rbind_eq_Inr dest: axis_from_value_exact)

lemma step_keys:
  "spatial_step st p = Inr st' \<Longrightarrow> \<exists>k. 1 \<le> k \<and> k \<le> 2 \<and> fst p = U k"
  "window_step wt p = Inr wt' \<Longrightarrow> \<exists>k. 1 \<le> k \<and> k \<le> 2 \<and> fst p = U k"
  "envelope_step P et p = Inr et' \<Longrightarrow> \<exists>k. 1 \<le> k \<and> k \<le> 3 \<and> fst p = U k"
  "hazard_body_step P ht p = Inr ht' \<Longrightarrow> \<exists>k. 1 \<le> k \<and> k \<le> 2 \<and> fst p = U k"
  by (auto simp: spatial_step_def window_step_def envelope_step_def hazard_body_step_def split: prod.splits cbor.splits if_splits)

lemma spatial_from_value_exact:
  assumes "encodable v" and "canon v = v" and "spatial_from_value P v = Inr sb"
  shows "v = spatial_value sb" and "is_well_formed P sb"
proof -
  obtain ps where v: "v = M ps" and f: "rfold spatial_step (None, None) ps = Inr (Some (sb_frame sb), Some (sb_axes sb))"
    and w: "is_well_formed P sb"
    using assms(3) by (cases sb) (auto simp: spatial_from_value_def case_prod_eq_Inr case_option_eq_Inr res_simps Let_def)
  show "is_well_formed P sb" by (rule w)
  have "keys_from 1 2 ps"
    by (rule keys_from_rfold [OF assms(1,2) [unfolded v] f]) (erule step_keys(1), simp)
  then have "\<exists>a b. ps = [(U 1, a), (U 2, b)]"
    using f by (auto dest!: keys_from_two simp: spatial_step_def rbind_eq_Inr split: cbor.splits if_splits)
  then obtain a b where ps: "ps = [(U 1, a), (U 2, b)]" by blast
  then obtain items where "a = T (sb_frame sb)" "b = A items" "read_items axis_from_value items = Inr (sb_axes sb)"
    using f by (auto simp: spatial_step_def res_simps)
  moreover have "list_all encodable items" if "b = A items" for items
    using assms(1) that by (simp add: v ps encodable_M encodable_A list_all_iff)
  ultimately show "v = spatial_value sb" using read_axes_exact by (auto simp: v ps spatial_value_def)
qed

lemma window_from_value_exact:
  assumes "encodable v" and "canon v = v" and "window_from_value v = Inr w"
  shows "v = window_value w"
proof -
  obtain ps where v: "v = M ps" and f: "rfold window_step (None, None) ps = Inr (Some (hw_not_before w), Some (hw_not_after w))"
    using assms(3) by (auto simp: window_from_value_def case_prod_eq_Inr case_option_eq_Inr res_simps)
  have "keys_from 1 2 ps"
    by (rule keys_from_rfold [OF assms(1,2) [unfolded v] f]) (erule step_keys(2), simp)
  then show ?thesis
    using f by (auto dest!: keys_from_two simp: v window_value_def window_step_def split: cbor.splits)
qed

lemma envelope_from_value_exact:
  assumes "encodable v" and "canon v = v" and "envelope_from_value P v = Inr e"
  shows "v = envelope_value e" and "envelope_wf P e"
proof -
  obtain ps where v: "v = M ps"
    and f: "rfold (envelope_step P) (None, None, None) ps = Inr (Some (he_spatial e), Some (he_speed_bound_mm_s e), Some (he_window e))"
    using assms(3) by (auto simp: envelope_from_value_def case_prod_eq_Inr case_option_eq_Inr res_simps)
  have "keys_from 1 3 ps"
    by (rule keys_from_rfold [OF assms(1,2) [unfolded v] f]) (erule step_keys(3), simp)
  then have "\<exists>a b c. ps = [(U 1, a), (U 2, b), (U 3, c)]"
    using f by (auto dest!: keys_from_three simp: envelope_step_def res_simps)
  then obtain a b c where ps: "ps = [(U 1, a), (U 2, b), (U 3, c)]" by blast
  then have r: "spatial_from_value P a = Inr (he_spatial e)" "b = U (he_speed_bound_mm_s e)" "window_from_value c = Inr (he_window e)"
    using f by (auto simp: envelope_step_def res_simps)
  have p: "encodable a" "canon a = a" "encodable c" "canon c = c"
    using assms(1) canon_M_parts(2) [OF assms(2,1) [unfolded v], of "(U 1, a)"]
      canon_M_parts(2) [OF assms(2,1) [unfolded v], of "(U 3, c)"] by (simp_all add: v ps encodable_M)
  show "v = envelope_value e" "envelope_wf P e"
    using spatial_from_value_exact [OF p(1,2) r(1)] window_from_value_exact [OF p(3,4) r(3)] r(2)
    by (simp_all add: v ps envelope_value_def envelope_wf_def)
qed

lemma hazard_body_from_value_exact:
  assumes "encodable v" and "canon v = v" and "hazard_body_from_value P v = Inr (c, e)"
  shows "v = hazard_body_value c e" and "envelope_wf P e" and "0 \<le> c \<and> c \<le> 4"
proof -
  obtain ps d where v: "v = M ps" and f: "rfold (hazard_body_step P) (None, None) ps = Inr (Some d, Some e)" and c: "c = from_code (Some d)"
    using assms(3) by (auto simp: hazard_body_from_value_def case_prod_eq_Inr case_option_eq_Inr res_simps)
  have "keys_from 1 2 ps"
    by (rule keys_from_rfold [OF assms(1,2) [unfolded v] f]) (erule step_keys(4), simp)
  then have "\<exists>a b. ps = [(U 1, a), (U 2, b)]"
    using f by (auto dest!: keys_from_two simp: hazard_body_step_def rbind_eq_Inr split: cbor.splits if_splits)
  then obtain a b where ps: "ps = [(U 1, a), (U 2, b)]" by blast
  then have r: "a = U d" "0 \<le> d" "d \<le> 4" "envelope_from_value P b = Inr e"
    using f by (auto simp: hazard_body_step_def res_simps hazard_class_defs split: if_splits)
  have p: "encodable b" "canon b = b"
    using assms(1) canon_M_parts(2) [OF assms(2,1) [unfolded v], of "(U 2, b)"] by (simp_all add: v ps encodable_M)
  have "c = d" using c r by (simp add: from_code_def hazard_class_defs)
  then show "v = hazard_body_value c e" "envelope_wf P e" "0 \<le> c \<and> c \<le> 4"
    using envelope_from_value_exact [OF p r(4)] r by (simp_all add: v ps hazard_body_value_def)
qed

definition hazard_wf :: "prims \<Rightarrow> int \<Rightarrow> hazard_envelope \<Rightarrow> bool" where
  "hazard_wf P c e \<longleftrightarrow> 0 \<le> c \<and> c \<le> 4 \<and> is_well_formed P (he_spatial e)"

lemma decode_hazard_body:
  "encode (hazard_body_value c e) = Inr b \<Longrightarrow> decode b = Inr (hazard_body_value c e)"
  using hazard_body_facts [of c e] by (intro decode_canonical) (auto intro: order_trans)

lemma hazard_body_codec:
  "rbind (decode b) (hazard_body_from_value P) = Inr (c, e) \<longleftrightarrow> encode (hazard_body_value c e) = Inr b \<and> hazard_wf P c e"
proof
  assume "rbind (decode b) (hazard_body_from_value P) = Inr (c, e)"
  then obtain v where v: "decode b = Inr v" "hazard_body_from_value P v = Inr (c, e)" by (auto simp: rbind_eq_Inr)
  then have "encodable v" "canon v = v" "encode v = Inr b"
    using cbor_codec.dec_iff [of b v] by (auto simp: encodable_iff)
  then show "encode (hazard_body_value c e) = Inr b \<and> hazard_wf P c e"
    using hazard_body_from_value_exact [OF _ _ v(2)] by (simp add: hazard_wf_def envelope_wf_def)
next
  assume "encode (hazard_body_value c e) = Inr b \<and> hazard_wf P c e"
  then show "rbind (decode b) (hazard_body_from_value P) = Inr (c, e)"
    using decode_hazard_body [of c e b] by (simp add: hazard_wf_def envelope_wf_def read_hazard_body)
qed

lemma claim_codec:
  "rbind (decode b) (claim_from_value P) = Inr c \<longleftrightarrow> claim_bytes c = Inr b \<and> hazard_wf P (hc_hazard_class c) (hc_envelope c)"
proof -
  have "rbind (decode b) (claim_from_value P) = Inr c \<longleftrightarrow>
      rbind (decode b) (hazard_body_from_value P) = Inr (hc_hazard_class c, hc_envelope c)"
    by (cases c) (auto simp: claim_from_value_def rbind_eq_Inr)
  then show ?thesis by (simp add: hazard_body_codec claim_bytes_def claim_value_def)
qed

lemma authorization_codec:
  "rbind (decode b) (authorization_from_value P) = Inr a \<longleftrightarrow>
     authorization_bytes a = Inr b \<and> hazard_wf P (ha_hazard_class a) (ha_envelope a)"
proof -
  have "rbind (decode b) (authorization_from_value P) = Inr a \<longleftrightarrow>
      rbind (decode b) (hazard_body_from_value P) = Inr (ha_hazard_class a, ha_envelope a)"
    by (cases a) (auto simp: authorization_from_value_def rbind_eq_Inr)
  then show ?thesis by (simp add: hazard_body_codec authorization_bytes_def authorization_value_def)
qed

interpretation claim_bytes_codec: byte_codec claim_bytes "\<lambda>b. rbind (decode b) (claim_from_value P)" "\<lambda>c. c"
  "\<lambda>c. hazard_wf P (hc_hazard_class c) (hc_envelope c)" for P :: prims
  by unfold_locales (simp_all add: claim_codec)

interpretation authorization_bytes_codec: byte_codec authorization_bytes "\<lambda>b. rbind (decode b) (authorization_from_value P)" "\<lambda>a. a"
  "\<lambda>a. hazard_wf P (ha_hazard_class a) (ha_envelope a)" for P :: prims
  by unfold_locales (simp_all add: authorization_codec)

section \<open>What the check means\<close>

text \<open>The positions a region admits in its frame, and the moments of a window.\<close>

definition region :: "spatial_bounds \<Rightarrow> int list set" where
  "region sb = {xs. list_all2 (\<lambda>x (mn, mx). mn \<le> x \<and> x \<le> mx) xs (sb_axes sb)}"

definition moments :: "hazard_window \<Rightarrow> int set" where
  "moments w = {hw_not_before w..hw_not_after w}"

lemma box_subset:
  fixes as bs :: "(int \<times> int) list"
  assumes "\<forall>ax \<in> set as. fst ax \<le> snd ax"
  shows "{xs. list_all2 (\<lambda>x (mn, mx). mn \<le> x \<and> x \<le> mx) xs as} \<subseteq> {xs. list_all2 (\<lambda>x (mn, mx). mn \<le> x \<and> x \<le> mx) xs bs} \<longleftrightarrow>
    list_all2 (\<lambda>a b. fst b \<le> fst a \<and> snd a \<le> snd b) as bs"
proof
  let ?in = "\<lambda>xs as. list_all2 (\<lambda>x (mn, mx). mn \<le> x \<and> x \<le> mx) xs as"
  assume sub: "{xs. ?in xs as} \<subseteq> {xs. ?in xs bs}"
  have "?in (map fst as) as" "?in (map snd as) as"
    using assms by (auto simp: list_all2_map1 list_all2_same split: prod.splits)
  then have "?in (map fst as) bs" "?in (map snd as) bs" using sub by auto
  then show "list_all2 (\<lambda>a b. fst b \<le> fst a \<and> snd a \<le> snd b) as bs"
    by (auto simp: list_all2_map1 list_all2_conv_all_nth split_beta)
next
  assume le: "list_all2 (\<lambda>a b. fst b \<le> fst a \<and> snd a \<le> snd b) as bs"
  show "{xs. list_all2 (\<lambda>x (mn, mx). mn \<le> x \<and> x \<le> mx) xs as} \<subseteq> {xs. list_all2 (\<lambda>x (mn, mx). mn \<le> x \<and> x \<le> mx) xs bs}"
  proof clarify
    fix xs assume "list_all2 (\<lambda>x (mn, mx). mn \<le> x \<and> x \<le> mx) xs as"
    then show "list_all2 (\<lambda>x (mn, mx). mn \<le> x \<and> x \<le> mx) xs bs"
      using le by (rule list_all2_trans [rotated 1]) auto
  qed
qed

lemma spatial_contained_iff:
  assumes "is_well_formed P c"
  shows "spatial_contained c g \<longleftrightarrow> sb_frame c = sb_frame g \<and> region c \<subseteq> region g"
proof -
  have "spatial_contained c g \<longleftrightarrow> sb_frame c = sb_frame g \<and> list_all2 (\<lambda>a b. fst b \<le> fst a \<and> snd a \<le> snd b) (sb_axes c) (sb_axes g)"
    by (auto simp: spatial_contained_def list_all2_iff list_all_iff split_beta)
  then show ?thesis using box_subset [of "sb_axes c" "sb_axes g"] well_formed_axes [OF assms] by (simp add: region_def)
qed

section \<open>Properties of hazard authorization\<close>

lemma hazard_coverage:
  assumes "is_well_formed P (he_spatial (hc_envelope c))" and "moments (he_window (hc_envelope c)) \<noteq> {}"
  shows "hazard_authorized c g =
      (if hc_hazard_class c = ha_hazard_class g \<and>
          sb_frame (he_spatial (hc_envelope c)) = sb_frame (he_spatial (ha_envelope g)) \<and>
          region (he_spatial (hc_envelope c)) \<subseteq> region (he_spatial (ha_envelope g)) \<and>
          he_speed_bound_mm_s (hc_envelope c) \<le> he_speed_bound_mm_s (ha_envelope g) \<and>
          moments (he_window (hc_envelope c)) \<subseteq> moments (he_window (ha_envelope g))
       then Inr () else Inl HazardNotCovered)"
    and "hazard_authorized_optional (Some c) g = hazard_authorized c g"
    and "hazard_authorized_optional None g = Inl HazardUnknown"
proof -
  have "moments (he_window (hc_envelope c)) \<subseteq> moments (he_window (ha_envelope g)) \<longleftrightarrow>
      hw_not_before (he_window (ha_envelope g)) \<le> hw_not_before (he_window (hc_envelope c)) \<and>
      hw_not_after (he_window (hc_envelope c)) \<le> hw_not_after (he_window (ha_envelope g))"
    using assms(2) by (auto simp: moments_def)
  then show "hazard_authorized c g =
      (if hc_hazard_class c = ha_hazard_class g \<and>
          sb_frame (he_spatial (hc_envelope c)) = sb_frame (he_spatial (ha_envelope g)) \<and>
          region (he_spatial (hc_envelope c)) \<subseteq> region (he_spatial (ha_envelope g)) \<and>
          he_speed_bound_mm_s (hc_envelope c) \<le> he_speed_bound_mm_s (ha_envelope g) \<and>
          moments (he_window (hc_envelope c)) \<subseteq> moments (he_window (ha_envelope g))
       then Inr () else Inl HazardNotCovered)"
    using spatial_contained_iff [OF assms(1)] by (auto simp: hazard_authorized_def envelope_contained_def)
qed (simp_all add: hazard_authorized_optional_def)

text \<open>C10: Coverage means containment. A well-formed claim with a non-empty window is authorized exactly when the classes are
  equal, the frames are the same, every position the claim admits is admitted by the grant, its speed bound
  is no higher and every moment of its window lies in the grant's; in every other case it is refused as not covered, and an
  absent claim is refused as unknown.\<close>

theorem hazard_authorized_exact:
  assumes "is_well_formed P (he_spatial (hc_envelope c))" and "moments (he_window (hc_envelope c)) \<noteq> {}"
  shows "hazard_authorized c g =
      (if hc_hazard_class c = ha_hazard_class g \<and>
          sb_frame (he_spatial (hc_envelope c)) = sb_frame (he_spatial (ha_envelope g)) \<and>
          region (he_spatial (hc_envelope c)) \<subseteq> region (he_spatial (ha_envelope g)) \<and>
          he_speed_bound_mm_s (hc_envelope c) \<le> he_speed_bound_mm_s (ha_envelope g) \<and>
          moments (he_window (hc_envelope c)) \<subseteq> moments (he_window (ha_envelope g))
       then Inr () else Inl HazardNotCovered) \<and>
    hazard_authorized_optional (Some c) g = hazard_authorized c g \<and>
    hazard_authorized_optional None g = Inl HazardUnknown"
  using hazard_coverage(1) [OF assms] by (simp add: hazard_authorized_optional_def)

definition sample_hazard_envelope :: "int \<Rightarrow> hazard_envelope" where
  "sample_hazard_envelope mx =
     \<lparr>he_spatial = \<lparr>sb_frame = [119], sb_axes = [(- 5, mx)]\<rparr>, he_speed_bound_mm_s = 10, he_window = \<lparr>hw_not_before = 1, hw_not_after = 9\<rparr>\<rparr>"

theorem hazard_authorized_exact_witness:
  "hazard_authorized \<lparr>hc_hazard_class = 2, hc_envelope = sample_hazard_envelope 5\<rparr> \<lparr>ha_hazard_class = 2, ha_envelope = sample_hazard_envelope 6\<rparr> = Inr () \<and>
   region (he_spatial (sample_hazard_envelope 5)) \<subseteq> region (he_spatial (sample_hazard_envelope 6))"
proof -
  have a: "hazard_authorized \<lparr>hc_hazard_class = 2, hc_envelope = sample_hazard_envelope 5\<rparr> \<lparr>ha_hazard_class = 2, ha_envelope = sample_hazard_envelope 6\<rparr> = Inr ()"
    by code_simp
  have w: "is_well_formed sample_prims (he_spatial (hc_envelope \<lparr>hc_hazard_class = 2, hc_envelope = sample_hazard_envelope 5\<rparr>))"
    "moments (he_window (hc_envelope \<lparr>hc_hazard_class = 2, hc_envelope = sample_hazard_envelope 5\<rparr>)) \<noteq> {}"
    by (simp_all add: sample_hazard_envelope_def is_well_formed_def require_nfc_def moments_def)
  from hazard_authorized_exact [OF w, of "\<lparr>ha_hazard_class = 2, ha_envelope = sample_hazard_envelope 6\<rparr>"] a
  show ?thesis by (auto split: if_splits)
qed

text \<open>The wire form is exact. A byte string reads as a claim exactly when it is that claim's encoding and the claim is
  well formed: a class of the closed set, a non-empty region with ordered axes and a normalised, non-empty frame; the
  same holds of authorizations. A raw class code in the set is kept, and an absent or unknown one
  becomes the highest class.\<close>

theorem hazard_wire_exact:
  "(rbind (decode b) (claim_from_value P) = Inr c \<longleftrightarrow>
      claim_bytes c = Inr b \<and> 0 \<le> hc_hazard_class c \<and> hc_hazard_class c \<le> 4 \<and> is_well_formed P (he_spatial (hc_envelope c))) \<and>
   (rbind (decode b) (authorization_from_value P) = Inr a \<longleftrightarrow>
      authorization_bytes a = Inr b \<and> 0 \<le> ha_hazard_class a \<and> ha_hazard_class a \<le> 4 \<and> is_well_formed P (he_spatial (ha_envelope a))) \<and>
   from_code code \<in> {0..4} \<and> (from_code code = (case code of Some k \<Rightarrow> if k \<in> {0..4} then k else 4 | None \<Rightarrow> 4))"
  by (simp add: claim_codec authorization_codec hazard_wf_def from_code_def hazard_class_defs split: option.split)

end
