(* ===== verification/Agui.thy ===== *)
theory Agui
  imports Signed Approval
begin

text \<open>
  Consent shown in a user interface (\<^verbatim>\<open>impl/python/naalp/agui.py\<close>): the signed, receipt-chained events that say
  what was shown to a user, the walks over them with the detector of omissions, and the gate that lets an
  action run only when it is the one approved in the chain and in the human's approval.
\<close>

section \<open>Events\<close>

definition UI_HEAD_SIZE :: nat where "UI_HEAD_SIZE = 48"

definition KIND_SHOWN :: int where "KIND_SHOWN = 0"
definition KIND_ARGS_SHOWN :: int where "KIND_ARGS_SHOWN = 1"
definition KIND_APPROVED :: int where "KIND_APPROVED = 2"
definition KIND_REJECTED :: int where "KIND_REJECTED = 3"

definition KIND_NAMES :: "(int \<times> string) list" where
  "KIND_NAMES =
     [(KIND_SHOWN, ''shown''), (KIND_ARGS_SHOWN, ''args-shown''), (KIND_APPROVED, ''approved''), (KIND_REJECTED, ''rejected'')]"

lemmas ui_kind_defs = KIND_SHOWN_def KIND_ARGS_SHOWN_def KIND_APPROVED_def KIND_REJECTED_def KIND_NAMES_def

definition is_known_kind :: "int \<Rightarrow> bool" where
  "is_known_kind code \<longleftrightarrow> code \<in> set (map fst KIND_NAMES)"

definition kind_name :: "int \<Rightarrow> string" where
  "kind_name code = (case map_of KIND_NAMES code of Some n \<Rightarrow> n | None \<Rightarrow> ''unknown'')"

definition ui_genesis :: bytes where "ui_genesis = replicate UI_HEAD_SIZE 0"

record ui_event =
  ue_session :: bytes
  ue_kind :: int
  ue_action :: bytes
  ue_seq :: int
  ue_prev :: bytes

definition ui_event_bytes :: "ui_event \<Rightarrow> bytes res" where
  "ui_event_bytes e =
     encode (M [(U 1, B (ue_session e)), (U 2, U (ue_kind e)), (U 3, B (ue_action e)), (U 4, U (ue_seq e)), (U 5, B (ue_prev e))])"

definition ui_event_head :: "prims \<Rightarrow> ui_event \<Rightarrow> bytes res" where
  "ui_event_head P e = rbind (ui_event_bytes e) (\<lambda>b. Inr (sha384 P b))"

definition ui_event_id :: "prims \<Rightarrow> ui_event \<Rightarrow> bytes res" where
  "ui_event_id P e = rbind (ui_event_bytes e) (\<lambda>b. Inr (content_id_bytes (sha384 P) b))"

definition ui_event_field :: "int \<Rightarrow> cbor \<Rightarrow> bool" where
  "ui_event_field n v \<longleftrightarrow> n = 1 \<and> is_B v \<or> n = 2 \<and> is_U v \<or> n = 3 \<and> is_B v \<or> n = 4 \<and> is_U v \<or> n = 5 \<and> is_B v"

definition parse_ui_event :: "bytes \<Rightarrow> ui_event res" where
  "parse_ui_event b =
     rbind (case decode b of Inl e \<Rightarrow> Inl (if e = NonCanonical then AguiError ''UIMalformed'' else e) | Inr v \<Rightarrow> Inr v) (\<lambda>v.
       rbind (typed_fields ui_event_field (AguiError ''UIMalformed'') v) (\<lambda>m.
         case (m 1, m 2, m 3, m 4, m 5) of
           (Some (B sess), Some (U knd), Some (B action), Some (U seq), Some (B prev)) \<Rightarrow>
             Inr \<lparr>ue_session = sess, ue_kind = knd, ue_action = action, ue_seq = seq, ue_prev = prev\<rparr>
         | _ \<Rightarrow> Inl (AguiError ''UIMalformed'')))"

definition agui_verify_sign1 :: "prims \<Rightarrow> bytes \<Rightarrow> int \<Rightarrow> int \<Rightarrow> bytes \<Rightarrow> bytes res" where
  "agui_verify_sign1 = verify_sign1 AguiError ''UIMalformed''"

definition sign_ui_event :: "prims \<Rightarrow> ui_event \<Rightarrow> int \<Rightarrow> bytes \<Rightarrow> bytes res" where
  "sign_ui_event P e alg seed = sign_body P alg seed (ui_event_bytes e)"

definition verify_ui_event :: "prims \<Rightarrow> bytes \<Rightarrow> int \<Rightarrow> int \<Rightarrow> bytes \<Rightarrow> ui_event res" where
  "verify_ui_event P obj prof alg pubkey =
     rbind (agui_verify_sign1 P obj prof alg pubkey) (\<lambda>payload.
       rbind (parse_ui_event payload) (\<lambda>e.
         if \<not> is_known_kind (ue_kind e) then Inl (AguiError ''UnknownUIEventKind'') else Inr e))"

section \<open>The shown chain\<close>

record shown_event =
  se_seq :: int
  se_kind :: int
  se_action :: bytes
  se_head :: bytes

text \<open>The loops carry the index, the session once it is known, and the head so far.\<close>

fun walk_shown_from :: "prims \<Rightarrow> int \<Rightarrow> bytes option \<Rightarrow> bytes \<Rightarrow> ui_event list \<Rightarrow> shown_event list res" where
  "walk_shown_from P i session h [] = Inr []"
| "walk_shown_from P i session h (e # es) =
     (if session \<noteq> None \<and> session \<noteq> Some (ue_session e) then Inl (AguiError ''UIChainBroken'')
      else if \<not> is_known_kind (ue_kind e) then Inl (AguiError ''UnknownUIEventKind'')
      else if ue_seq e \<noteq> i \<or> ue_prev e \<noteq> h then Inl (AguiError ''UIChainBroken'')
      else rbind (ui_event_head P e) (\<lambda>h'.
        rbind (walk_shown_from P (i + 1) (Some (ue_session e)) h' es) (\<lambda>out.
          Inr (\<lparr>se_seq = ue_seq e, se_kind = ue_kind e, se_action = ue_action e, se_head = h'\<rparr> # out))))"

definition walk_shown :: "prims \<Rightarrow> ui_event list \<Rightarrow> shown_event list res" where
  "walk_shown P events = walk_shown_from P 0 None ui_genesis events"

fun verify_shown_from ::
  "prims \<Rightarrow> int \<Rightarrow> int \<Rightarrow> bytes \<Rightarrow> int \<Rightarrow> bytes option \<Rightarrow> bytes \<Rightarrow> bytes list \<Rightarrow> ui_event list res" where
  "verify_shown_from P prof alg pk i session h [] = Inr []"
| "verify_shown_from P prof alg pk i session h (obj # objs) =
     rbind (verify_ui_event P obj prof alg pk) (\<lambda>e.
       if session \<noteq> None \<and> session \<noteq> Some (ue_session e) then Inl (AguiError ''UIChainBroken'')
       else if ue_seq e \<noteq> i \<or> ue_prev e \<noteq> h then Inl (AguiError ''UIChainBroken'')
       else rbind (ui_event_head P e) (\<lambda>h'.
         rbind (verify_shown_from P prof alg pk (i + 1) (Some (ue_session e)) h' objs) (\<lambda>out. Inr (e # out))))"

definition verify_shown_chain :: "prims \<Rightarrow> bytes list \<Rightarrow> int \<Rightarrow> int \<Rightarrow> bytes \<Rightarrow> ui_event list res" where
  "verify_shown_chain P objs prof alg pubkey = verify_shown_from P prof alg pubkey 0 None ui_genesis objs"

fun ui_hole_from :: "prims \<Rightarrow> int \<Rightarrow> bytes \<Rightarrow> ui_event list \<Rightarrow> (int \<times> bool) res" where
  "ui_hole_from P i h [] = Inr (0, False)"
| "ui_hole_from P i h (e # es) =
     (if ue_seq e \<noteq> i \<or> ue_prev e \<noteq> h then Inr (i, True)
      else rbind (ui_event_head P e) (\<lambda>h'. ui_hole_from P (i + 1) h' es))"

definition detect_ui_hole :: "prims \<Rightarrow> ui_event list \<Rightarrow> (int \<times> bool) res" where
  "detect_ui_hole P events = ui_hole_from P 0 ui_genesis events"

section \<open>The consent gate\<close>

definition approved_action_cid :: "shown_event list \<Rightarrow> bytes option" where
  "approved_action_cid shown = map_option se_action (find (\<lambda>ev. se_kind ev = KIND_APPROVED) shown)"

definition verify_consent ::
  "prims \<Rightarrow> ui_event list \<Rightarrow> bytes \<Rightarrow> approval_record \<Rightarrow> int \<Rightarrow> bytes \<Rightarrow> bytes \<Rightarrow> int \<Rightarrow> unit res" where
  "verify_consent P chain action_bytes appr approver_alg approver_pk appr_sig now =
     rbind (walk_shown P chain) (\<lambda>shown.
       case approved_action_cid shown of
         None \<Rightarrow> Inl (AguiError ''UINoConsent'')
       | Some shown_cid \<Rightarrow>
           rbind (verify_approval P appr approver_alg approver_pk appr_sig shown_cid now) (\<lambda>_.
             if content_id_bytes (sha384 P) action_bytes \<noteq> shown_cid then Inl (AguiError ''ActionSubstituted'') else Inr ()))"

section \<open>Events as bytes\<close>

lemma known_kind_iff: "is_known_kind k \<longleftrightarrow> k \<in> {0, 1, 2, 3}"
  by (auto simp: is_known_kind_def ui_kind_defs)

lemma ui_event_keys: "field_keys [1, 2, 3, 4, 5]"
  by (simp add: field_keys_def)

definition ui_event_value :: "ui_event \<Rightarrow> int \<Rightarrow> cbor" where
  "ui_event_value e n =
     (if n = 1 then B (ue_session e) else if n = 2 then U (ue_kind e) else if n = 3 then B (ue_action e)
      else if n = 4 then U (ue_seq e) else B (ue_prev e))"

lemma ui_event_body: "ui_event_bytes e = encode (body_of (ui_event_value e) [1, 2, 3, 4, 5])"
  by (simp add: ui_event_bytes_def ui_event_value_def del: encode.simps)

lemma ui_event_fieldE: "ui_event_field n v \<Longrightarrow> n \<in> set [1, 2, 3, 4, 5]"
  by (auto simp: ui_event_field_def)

lemma parse_ui_event_bytes:
  assumes "ui_event_bytes e = Inr b" shows "parse_ui_event b = Inr e"
proof -
  have "decode b = Inr (body_of (ui_event_value e) [1, 2, 3, 4, 5])"
    by (rule decode_body [OF _ ui_event_keys])
      (use assms in \<open>simp_all add: ui_event_body ui_event_value_def leaf_def del: encode.simps body_of_simps\<close>)
  moreover have "typed_fields ui_event_field x (body_of (ui_event_value e) [1, 2, 3, 4, 5])
      = Inr (\<lambda>n. if n \<in> set [1, 2, 3, 4, 5] then Some (ui_event_value e n) else None)" for x
    by (rule typed_fields_body [OF ui_event_keys]) (simp add: ui_event_field_def ui_event_value_def)
  ultimately show ?thesis by (simp add: parse_ui_event_def ui_event_value_def del: body_of_simps)
qed

lemma ui_event_bytes_parse:
  assumes "parse_ui_event b = Inr e" shows "ui_event_bytes e = Inr b"
proof -
  obtain v m where d: "decode b = Inr v" and m: "typed_fields ui_event_field (AguiError ''UIMalformed'') v = Inr m"
    and f: "m 1 = Some (B (ue_session e))" "m 2 = Some (U (ue_kind e))" "m 3 = Some (B (ue_action e))"
      "m 4 = Some (U (ue_seq e))" "m 5 = Some (B (ue_prev e))"
    using assms by (auto simp: parse_ui_event_def res_simps case_option_eq_Inr split: sum.splits)
  have "encode (body_of (\<lambda>n. the (m n)) [1, 2, 3, 4, 5]) = Inr b"
    using typed_fields_sound(1) [OF d m ui_event_keys ui_event_fieldE] f by (simp del: encode.simps)
  then show ?thesis using f by (simp add: ui_event_body ui_event_value_def del: encode.simps)
qed

interpretation ui_body: signed_body ui_event_bytes parse_ui_event "\<lambda>_. True"
  by unfold_locales (rule parse_ui_event_bytes)

interpretation ui_codec: byte_codec ui_event_bytes parse_ui_event "\<lambda>e. e" "\<lambda>_. True"
  by unfold_locales (blast intro: parse_ui_event_bytes ui_event_bytes_parse)+

interpretation ui_chain: gap_detector "sha384 P" ui_event_bytes ue_prev ue_seq "ui_hole_from P" for P :: prims
  by unfold_locales (use ui_body.body_inject in \<open>auto simp: ui_event_head_def rbind_assoc\<close>)

lemma ui_event_roundtrip:
  assumes "md_correct P" and "sign_ui_event P e alg seed = Inr obj" and "md_key_derive P alg seed = Inr (pk, sk)"
    and "profile_min_level prof \<le> fst (alg_level alg)"
  shows "verify_ui_event P obj prof alg pk = (if is_known_kind (ue_kind e) then Inr e else Inl (AguiError ''UnknownUIEventKind''))"
proof -
  have "rbind (agui_verify_sign1 P obj prof alg pk) parse_ui_event = Inr e"
    unfolding agui_verify_sign1_def
    by (rule ui_body.sign1_roundtrip [OF assms(1) assms(2) [unfolded sign_ui_event_def] assms(3,4)]) simp
  then show ?thesis by (auto simp: verify_ui_event_def rbind_eq_Inr)
qed

section \<open>Chains\<close>

text \<open>What the walks require: one session, known kinds, the indices as sequence numbers and unbroken links.\<close>

definition shown_chain_ok :: "prims \<Rightarrow> ui_event list \<Rightarrow> bool" where
  "shown_chain_ok P es \<longleftrightarrow>
     (\<forall>a \<in> set es. \<forall>b \<in> set es. ue_session a = ue_session b) \<and> (\<forall>e \<in> set es. ue_kind e \<in> {0, 1, 2, 3}) \<and>
     map ue_seq es = map int [0..<length es] \<and> (\<exists>h. ui_chain.chained P ui_genesis es h)"

definition shown_of :: "prims \<Rightarrow> ui_event \<Rightarrow> shown_event" where
  "shown_of P e = \<lparr>se_seq = ue_seq e, se_kind = ue_kind e, se_action = ue_action e, se_head = sha384 P (projr (ui_event_bytes e))\<rparr>"

lemma shown_chain_ok_from:
  "shown_chain_ok P es \<longleftrightarrow> agree_on ue_session None es \<and> (\<forall>e \<in> set es. is_known_kind (ue_kind e)) \<and>
     gap_detector.numbered ue_seq 0 es \<and> (\<exists>h. ui_chain.chained P ui_genesis es h)"
  by (simp add: shown_chain_ok_def agree_on_None ui_chain.numbered_def known_kind_iff)

lemma walk_shown_from_iff:
  "walk_shown_from P i session h es = Inr out \<longleftrightarrow>
     agree_on ue_session session es \<and> (\<forall>e \<in> set es. is_known_kind (ue_kind e)) \<and> gap_detector.numbered ue_seq i es \<and>
     (\<exists>k. ui_chain.chained P h es k) \<and> out = map (shown_of P) es"
proof (induction es arbitrary: i session h out)
  case (Cons e es)
  show ?case
    by (cases "ui_event_bytes e")
      (auto simp: rbind_eq_Inr if_Inl_eq_Inr ui_event_head_def agree_on_Cons Cons.IH shown_of_def)
qed auto

lemma walk_shown_iff: "walk_shown P es = Inr out \<longleftrightarrow> shown_chain_ok P es \<and> out = map (shown_of P) es"
  unfolding walk_shown_def walk_shown_from_iff shown_chain_ok_from by blast

lemma verify_ui_event_known: "verify_ui_event P obj prof alg pk = Inr e \<Longrightarrow> is_known_kind (ue_kind e)"
  by (auto simp: verify_ui_event_def res_simps)

lemma verify_shown_from_iff:
  "verify_shown_from P prof alg pk i session h objs = Inr es \<longleftrightarrow>
     list_all2 (\<lambda>obj e. verify_ui_event P obj prof alg pk = Inr e) objs es \<and> agree_on ue_session session es \<and>
     gap_detector.numbered ue_seq i es \<and> (\<exists>k. ui_chain.chained P h es k)"
proof (induction objs arbitrary: i session h es)
  case (Cons obj objs)
  show ?case
    by (cases es) (force simp: rbind_eq_Inr if_Inl_eq_Inr ui_event_head_def agree_on_Cons Cons.IH)+
qed auto

lemma find_split: "find Q xs = Some x \<longleftrightarrow> (\<exists>pre post. xs = pre @ x # post \<and> Q x \<and> (\<forall>y \<in> set pre. \<not> Q y))"
proof
  assume "find Q xs = Some x"
  then obtain post where "dropWhile (Not \<circ> Q) xs = x # post" by (auto simp: find_dropWhile split: list.splits)
  then have "xs = takeWhile (Not \<circ> Q) xs @ x # post" "Q x" by (simp_all add: dropWhile_eq_Cons_conv)
  then show "\<exists>pre post. xs = pre @ x # post \<and> Q x \<and> (\<forall>y \<in> set pre. \<not> Q y)"
    using set_takeWhileD [of _ "Not \<circ> Q" xs] by (intro exI [of _ "takeWhile (Not \<circ> Q) xs"] exI [of _ post]) auto
qed (auto simp: find_dropWhile)

lemma approved_action_Some:
  "approved_action_cid (map (shown_of P) es) = Some c \<longleftrightarrow>
     (\<exists>pre e post. es = pre @ e # post \<and> ue_kind e = 2 \<and> (\<forall>x \<in> set pre. ue_kind x \<noteq> 2) \<and> c = ue_action e)"
proof -
  have "approved_action_cid (map (shown_of P) es) = map_option ue_action (find (\<lambda>e. ue_kind e = 2) es)"
    by (induction es) (simp_all add: approved_action_cid_def shown_of_def KIND_APPROVED_def)
  then show ?thesis by (auto simp: find_split)
qed

lemma verify_consent_Inr:
  "verify_consent P chain act a alg pk sig now = Inr () \<longleftrightarrow>
     shown_chain_ok P chain \<and>
     (\<exists>pre e post. chain = pre @ e # post \<and> ue_kind e = 2 \<and> (\<forall>x \<in> set pre. ue_kind x \<noteq> 2) \<and>
        ue_action e = content_id_bytes (sha384 P) act \<and> approves a = ue_action e) \<and>
     (\<exists>m. approval_bytes a = Inr m \<and> cose_verify1_raw P alg pk m sig = Inr True) \<and> now \<le> not_after a"
proof -
  have "verify_consent P chain act a alg pk sig now = Inr () \<longleftrightarrow>
      shown_chain_ok P chain \<and> (\<exists>c. approved_action_cid (map (shown_of P) chain) = Some c \<and>
        verify_approval P a alg pk sig c now = Inr () \<and> content_id_bytes (sha384 P) act = c)"
    by (auto simp: verify_consent_def rbind_eq_Inr walk_shown_iff case_option_eq_Inr if_Inl_eq_Inr)
  also have "\<dots> \<longleftrightarrow> shown_chain_ok P chain \<and>
      (\<exists>pre e post. chain = pre @ e # post \<and> ue_kind e = 2 \<and> (\<forall>x \<in> set pre. ue_kind x \<noteq> 2) \<and>
        verify_approval P a alg pk sig (ue_action e) now = Inr () \<and> content_id_bytes (sha384 P) act = ue_action e)"
    unfolding approved_action_Some by blast
  finally show ?thesis unfolding verify_approval_Inr by fastforce
qed

section \<open>Properties of shown consent\<close>

text \<open>C19: The gate lets an action run exactly when the events form one unbroken chain of one session, the
  first approved event names the content id of exactly this action, and the human's approval is signed, is not
  past its time and binds the same id. Any other action that passes with the same chain is the
  same octets, unless the digest collides; and an approval passes with no chain whose first approved event names
  another action.\<close>

theorem consent_exact:
  "(verify_consent P chain act a alg pk sig now = Inr () \<longleftrightarrow>
     shown_chain_ok P chain \<and>
     (\<exists>pre e post. chain = pre @ e # post \<and> ue_kind e = 2 \<and> (\<forall>x \<in> set pre. ue_kind x \<noteq> 2) \<and>
        ue_action e = content_id_bytes (sha384 P) act \<and> approves a = ue_action e) \<and>
     (\<exists>m. approval_bytes a = Inr m \<and> cose_verify1_raw P alg pk m sig = Inr True) \<and> now \<le> not_after a) \<and>
   (verify_consent P chain act a alg pk sig now = Inr () \<longrightarrow> verify_consent P chain' act' a' alg' pk' sig' now' = Inr () \<longrightarrow>
     chain' = chain \<or> a' = a \<longrightarrow> inj_on (sha384 P) {act, act'} \<longrightarrow> act' = act)"
proof -
  have "act' = act" if v: "verify_consent P chain act a alg pk sig now = Inr ()" "verify_consent P chain' act' a' alg' pk' sig' now' = Inr ()"
      "chain' = chain \<or> a' = a" and inj: "inj_on (sha384 P) {act, act'}"
  proof -
    obtain pre e post pre' e' post' where c: "chain = pre @ e # post" "ue_kind e = 2" "\<forall>x \<in> set pre. ue_kind x \<noteq> 2"
      "ue_action e = content_id_bytes (sha384 P) act" "approves a = ue_action e"
      and c': "chain' = pre' @ e' # post'" "ue_kind e' = 2" "\<forall>x \<in> set pre'. ue_kind x \<noteq> 2"
      "ue_action e' = content_id_bytes (sha384 P) act'" "approves a' = ue_action e'"
      using v(1,2) unfolding verify_consent_Inr by blast
    have "ue_action e = ue_action e'"
    proof (cases "a' = a")
      case False
      then have "approved_action_cid (map (shown_of P) chain) = Some (ue_action e)"
        "approved_action_cid (map (shown_of P) chain) = Some (ue_action e')"
        unfolding approved_action_Some using c c' v(3) by blast+
      then show ?thesis by simp
    qed (use c c' in simp)
    then have "sha384 P act = sha384 P act'" using c(4) c'(4) by (simp add: content_id_bytes_def)
    then show ?thesis using inj_onD [OF inj] by blast
  qed
  then show ?thesis unfolding verify_consent_Inr by blast
qed

definition sample_events :: "ui_event list" where
  "sample_events =
     (let e = \<lparr>ue_session = [1], ue_kind = 2, ue_action = content_id_bytes id [4], ue_seq = 0, ue_prev = ui_genesis\<rparr> in
      [e, \<lparr>ue_session = [1], ue_kind = 3, ue_action = content_id_bytes id [4], ue_seq = 1, ue_prev = projr (ui_event_bytes e)\<rparr>])"

definition sample_consent :: approval_record where
  "sample_consent =
     \<lparr>approves = content_id_bytes id [4], approver = [97], grant_effect = 2, nonce = [3], not_after = 9, ap_audience = []\<rparr>"

lemma sample_consent_passes:
  "\<exists>sig. verify_consent sample_prims sample_events [4] sample_consent (- 49) [5] sig 8 = Inr ()"
proof -
  have "case sign_approval sample_prims sample_consent (- 49) [5] of Inl _ \<Rightarrow> False | Inr sig \<Rightarrow>
      is_ok (verify_consent sample_prims sample_events [4] sample_consent (- 49) [5] sig 8)" by code_simp
  then show ?thesis by (auto simp: is_ok_iff split: sum.splits)
qed

theorem consent_exact_witness:
  "\<exists>sig. verify_consent sample_prims sample_events [4] sample_consent (- 49) [5] sig 8 = Inr () \<and>
     (\<forall>act. verify_consent sample_prims sample_events act sample_consent (- 49) [5] sig 8 = Inr () \<longrightarrow> act = [4])"
proof -
  obtain sig where v: "verify_consent sample_prims sample_events [4] sample_consent (- 49) [5] sig 8 = Inr ()"
    using sample_consent_passes by blast
  then have "act = [4]" if "verify_consent sample_prims sample_events act sample_consent (- 49) [5] sig 8 = Inr ()" for act
    using consent_exact [of sample_prims sample_events "[4]" sample_consent "- 49" "[5]" sig 8 sample_events act sample_consent "- 49" "[5]" sig 8] that
    by (simp add: inj_on_def)
  with v show ?thesis by blast
qed

text \<open>The gate reads neither whether the approved action was ever shown nor what follows the approval:
  in this chain the only other event rejects the action, none shows it, and the action still runs.\<close>

theorem consent_ignores_rejection:
  "\<exists>sig. verify_consent sample_prims sample_events [4] sample_consent (- 49) [5] sig 8 = Inr () \<and>
     map (kind_name \<circ> ue_kind) sample_events = [''approved'', ''rejected''] \<and>
     (\<forall>e \<in> set sample_events. ue_action e = approves sample_consent)"
  using sample_consent_passes by (simp add: sample_events_def sample_consent_def kind_name_def ui_kind_defs Let_def)

text \<open>A chain of signed events is accepted exactly when every object verifies to its event and the events form one
  chain; the unsigned walk requires the same of the events; and leaving out any event but the last is
  reported at its position.\<close>

theorem shown_chain_exact:
  "(verify_shown_chain P objs prof alg pk = Inr es \<longleftrightarrow>
      list_all2 (\<lambda>obj e. verify_ui_event P obj prof alg pk = Inr e) objs es \<and> shown_chain_ok P es) \<and>
   (walk_shown P es = Inr out \<longleftrightarrow> shown_chain_ok P es \<and> out = map (shown_of P) es) \<and>
   (\<forall>xs omitted y ys. shown_chain_ok P (xs @ omitted # y # ys) \<longrightarrow> detect_ui_hole P (xs @ y # ys) = Inr (int (length xs), True))"
proof -
  have "is_known_kind (ue_kind e)"
    if "list_all2 (\<lambda>obj e. verify_ui_event P obj prof alg pk = Inr e) objs es" "e \<in> set es" for e
    using that verify_ui_event_known by (auto simp: list_all2_conv_all_nth in_set_conv_nth)
  then have "verify_shown_chain P objs prof alg pk = Inr es \<longleftrightarrow>
      list_all2 (\<lambda>obj e. verify_ui_event P obj prof alg pk = Inr e) objs es \<and> shown_chain_ok P es"
    unfolding verify_shown_chain_def verify_shown_from_iff shown_chain_ok_from by blast
  moreover have "detect_ui_hole P (xs @ y # ys) = Inr (int (length xs), True)"
    if "shown_chain_ok P (xs @ omitted # y # ys)" for xs omitted y ys
    using that ui_chain.scan_omission [of 0 xs omitted y ys P ui_genesis] by (auto simp: shown_chain_ok_from detect_ui_hole_def)
  ultimately show ?thesis using walk_shown_iff by blast
qed

theorem shown_chain_exact_witness:
  "\<exists>out. walk_shown sample_prims sample_events = Inr out \<and> detect_ui_hole sample_prims (tl sample_events) = Inr (0, True)"
proof -
  have "is_ok (walk_shown sample_prims sample_events)" by code_simp
  then obtain out where w: "walk_shown sample_prims sample_events = Inr out" by (auto simp: is_ok_iff)
  obtain e f where es: "sample_events = [] @ e # f # []" by (simp add: sample_events_def Let_def)
  have "shown_chain_ok sample_prims sample_events \<and> out = map (shown_of sample_prims) sample_events" using w shown_chain_exact by blast
  then have "shown_chain_ok sample_prims ([] @ e # f # [])" unfolding es by (rule conjunct1)
  then have "detect_ui_hole sample_prims ([] @ f # []) = Inr (int (length ([] :: ui_event list)), True)"
    by (rule shown_chain_exact [THEN conjunct2, THEN conjunct2, rule_format])
  then have "detect_ui_hole sample_prims (tl sample_events) = Inr (0, True)" unfolding es by simp
  with w show ?thesis by blast
qed

end
