(* ===== verification/Mcp.thy ===== *)
theory Mcp
  imports Signed Rooms Ledger
begin

text \<open>
  Governed MCP tool calls (\<^verbatim>\<open>impl/python/naalp/mcp.py\<close>): the signer's transcription of a tool's annotations, the
  published table from annotations to effects, the wrapper object that carries a call, its verification with the
  more severe effect enforced, and the gate that spends one approval on exactly one call.
\<close>

section \<open>Annotations\<close>

definition CHANNEL_BRIDGE :: int where "CHANNEL_BRIDGE = 0x000D"
definition KIND_MCP_TOOL_CALL :: int where "KIND_MCP_TOOL_CALL = 1"
definition MCP_TIER :: int where "MCP_TIER = 1"

definition KEY_READ_ONLY :: int where "KEY_READ_ONLY = 1"
definition KEY_DESTRUCTIVE :: int where "KEY_DESTRUCTIVE = 2"
definition KEY_IDEMPOTENT :: int where "KEY_IDEMPOTENT = 3"
definition KEY_OPEN_WORLD :: int where "KEY_OPEN_WORLD = 4"

definition DEFAULT_READ_ONLY :: bool where "DEFAULT_READ_ONLY = False"
definition DEFAULT_DESTRUCTIVE :: bool where "DEFAULT_DESTRUCTIVE = True"
definition DEFAULT_IDEMPOTENT :: bool where "DEFAULT_IDEMPOTENT = False"

lemmas mcp_key_defs = KEY_READ_ONLY_def KEY_DESTRUCTIVE_def KEY_IDEMPOTENT_def KEY_OPEN_WORLD_def
lemmas mcp_default_defs = DEFAULT_READ_ONLY_def DEFAULT_DESTRUCTIVE_def DEFAULT_IDEMPOTENT_def
lemmas mcp_object_defs = CHANNEL_BRIDGE_def KIND_MCP_TOOL_CALL_def MCP_TIER_def

record annotations =
  an_read_only :: "bool option"
  an_destructive :: "bool option"
  an_idempotent :: "bool option"
  an_open_world :: "bool option"

definition no_annotations :: annotations where
  "no_annotations = \<lparr>an_read_only = None, an_destructive = None, an_idempotent = None, an_open_world = None\<rparr>"

definition hint_pair :: "int \<Rightarrow> bool option \<Rightarrow> (cbor \<times> cbor) list" where
  "hint_pair k h = opt_field k (map_option (\<lambda>b. U (if b then 1 else 0)) h)"

definition annotations_value :: "annotations \<Rightarrow> cbor" where
  "annotations_value a =
     M (hint_pair KEY_READ_ONLY (an_read_only a) @ hint_pair KEY_DESTRUCTIVE (an_destructive a) @
        hint_pair KEY_IDEMPOTENT (an_idempotent a) @ hint_pair KEY_OPEN_WORLD (an_open_world a))"

definition annotations_encode :: "annotations \<Rightarrow> bytes res" where
  "annotations_encode a = encode (annotations_value a)"

definition annotation_step :: "annotations \<times> int set \<Rightarrow> cbor \<times> cbor \<Rightarrow> (annotations \<times> int set) res" where
  "annotation_step st p =
     (case st of (a, seen) \<Rightarrow>
       (case fst p of
          U k \<Rightarrow>
            (case snd p of
               U n \<Rightarrow>
                 if n > 1 then Inl (McpError ''MalformedAnnotation'')
                 else if k \<in> seen then Inl (McpError ''MalformedAnnotation'')
                 else if k = KEY_READ_ONLY then Inr (a\<lparr>an_read_only := Some (n = 1)\<rparr>, insert k seen)
                 else if k = KEY_DESTRUCTIVE then Inr (a\<lparr>an_destructive := Some (n = 1)\<rparr>, insert k seen)
                 else if k = KEY_IDEMPOTENT then Inr (a\<lparr>an_idempotent := Some (n = 1)\<rparr>, insert k seen)
                 else if k = KEY_OPEN_WORLD then Inr (a\<lparr>an_open_world := Some (n = 1)\<rparr>, insert k seen)
                 else Inl (McpError ''MalformedAnnotation'')
             | _ \<Rightarrow> Inl (McpError ''MalformedAnnotation''))
        | _ \<Rightarrow> Inl (McpError ''MalformedAnnotation'')))"

definition annotations_from_value :: "cbor \<Rightarrow> annotations res" where
  "annotations_from_value v =
     (case v of
        M ps \<Rightarrow> rbind (rfold annotation_step (no_annotations, {}) ps) (\<lambda>(a, _). Inr a)
      | _ \<Rightarrow> Inl (McpError ''MalformedAnnotation''))"

definition hint :: "bool \<Rightarrow> bool option \<Rightarrow> bool" where
  "hint d h = (case h of None \<Rightarrow> d | Some b \<Rightarrow> b)"

definition map_annotations_to_effect :: "annotations \<Rightarrow> int" where
  "map_annotations_to_effect a =
     (let ro = hint DEFAULT_READ_ONLY (an_read_only a);
          de = hint DEFAULT_DESTRUCTIVE (an_destructive a);
          idem = hint DEFAULT_IDEMPOTENT (an_idempotent a) in
      if ro then READ_ONLY else if de then DESTRUCTIVE else if idem then IDEMPOTENT_WRITE else NON_IDEMPOTENT_WRITE)"

definition resolve_enforced_effect :: "int \<Rightarrow> int \<Rightarrow> (int \<times> bool) res" where
  "resolve_enforced_effect mapped declared =
     (if declared > DESTRUCTIVE then Inl (McpError ''EffectOutsideLattice'')
      else if declared < mapped then Inl (McpError ''EffectUnderDeclared'')
      else Inr (declared, declared \<noteq> mapped))"

section \<open>Tool calls\<close>

record tool_call =
  tc_tool :: bytes
  tc_args :: bytes
  tc_annotations :: annotations

definition tool_call_map :: "tool_call \<Rightarrow> cbor" where
  "tool_call_map tc = M [(U 1, B (tc_tool tc)), (U 2, B (tc_args tc)), (U 3, annotations_value (tc_annotations tc))]"

definition tool_call_bytes :: "tool_call \<Rightarrow> bytes res" where
  "tool_call_bytes tc = encode (tool_call_map tc)"

definition tool_call_content_id :: "prims \<Rightarrow> tool_call \<Rightarrow> bytes res" where
  "tool_call_content_id P tc = rbind (tool_call_bytes tc) (\<lambda>b. Inr (content_id_bytes (sha384 P) b))"

record call_binding =
  cl_tool_id :: bytes
  cl_args_id :: bytes

definition call_binding_bytes :: "call_binding \<Rightarrow> bytes res" where
  "call_binding_bytes c = encode (M [(U 1, B (cl_tool_id c)), (U 2, B (cl_args_id c))])"

definition call_binding_content_id :: "prims \<Rightarrow> call_binding \<Rightarrow> bytes res" where
  "call_binding_content_id P c = rbind (call_binding_bytes c) (\<lambda>b. Inr (content_id_bytes (sha384 P) b))"

definition new_call_binding :: "prims \<Rightarrow> bytes \<Rightarrow> bytes \<Rightarrow> call_binding" where
  "new_call_binding P tool args =
     \<lparr>cl_tool_id = content_id_bytes (sha384 P) tool, cl_args_id = content_id_bytes (sha384 P) args\<rparr>"

definition call_binding_of :: "prims \<Rightarrow> tool_call \<Rightarrow> call_binding" where
  "call_binding_of P tc = new_call_binding P (tc_tool tc) (tc_args tc)"

definition tool_call_envelope :: "tool_call \<Rightarrow> bytes \<Rightarrow> int \<Rightarrow> int \<Rightarrow> int \<Rightarrow> bytes list \<Rightarrow> obj res" where
  "tool_call_envelope tc sgnr at prof declared cs =
     (if declared > DESTRUCTIVE then Inl (McpError ''EffectOutsideLattice'')
      else Inr \<lparr>obj_id = None, kind = KIND_MCP_TOOL_CALL, channel = CHANNEL_BRIDGE, tier = MCP_TIER, signer = sgnr,
        created = at, effect = declared, causes = cs, profile = prof, body = tool_call_map tc, ext = None, cext = None,
        audience = [], suite = 0\<rparr>)"

definition sign_tool_call :: "prims \<Rightarrow> obj \<Rightarrow> int \<Rightarrow> bytes \<Rightarrow> (obj \<times> bytes) res" where
  "sign_tool_call P ob alg seed = sign P ob alg seed"

definition tool_call_step ::
  "bytes option \<times> bytes option \<times> annotations option \<Rightarrow> cbor \<times> cbor \<Rightarrow> (bytes option \<times> bytes option \<times> annotations option) res" where
  "tool_call_step st p =
     (case st of (tool, args, ann) \<Rightarrow>
       (case fst p of
          U k \<Rightarrow>
            if k = 1 then (case snd p of B b \<Rightarrow> Inr (Some b, args, ann) | _ \<Rightarrow> Inl (McpError ''ToolCallMalformed''))
            else if k = 2 then (case snd p of B b \<Rightarrow> Inr (tool, Some b, ann) | _ \<Rightarrow> Inl (McpError ''ToolCallMalformed''))
            else if k = 3 then rbind (annotations_from_value (snd p)) (\<lambda>a. Inr (tool, args, Some a))
            else Inl (McpError ''ToolCallMalformed'')
        | _ \<Rightarrow> Inl (McpError ''ToolCallMalformed'')))"

definition tool_call_from_body :: "cbor \<Rightarrow> tool_call res" where
  "tool_call_from_body v =
     (case v of
        M ps \<Rightarrow> rbind (rfold tool_call_step (None, None, None) ps) (\<lambda>st.
          case st of
            (Some tool, Some args, Some ann) \<Rightarrow> Inr \<lparr>tc_tool = tool, tc_args = args, tc_annotations = ann\<rparr>
          | _ \<Rightarrow> Inl (McpError ''ToolCallMalformed''))
      | _ \<Rightarrow> Inl (McpError ''ToolCallMalformed''))"

section \<open>Verification and the approval gate\<close>

definition mcp_kind_validator :: "int \<Rightarrow> int \<Rightarrow> bool" where
  "mcp_kind_validator ch k \<longleftrightarrow> ch = CHANNEL_BRIDGE \<and> k = KIND_MCP_TOOL_CALL"

definition mcp_composed_validator :: "int \<Rightarrow> int \<Rightarrow> bool" where
  "mcp_composed_validator ch k \<longleftrightarrow> baseline_kind_validator ch k \<or> mcp_kind_validator ch k"

record resolved_call =
  rc_content_id :: "bytes option"
  rc_signer :: bytes
  rc_tool_call :: tool_call
  rc_annotation_mapped :: int
  rc_declared :: int
  rc_enforced :: int
  rc_mismatch :: bool

definition verify_tool_call :: "prims \<Rightarrow> int \<Rightarrow> int \<Rightarrow> bytes \<Rightarrow> bytes \<Rightarrow> resolved_call res" where
  "verify_tool_call P prof alg pubkey signed_obj =
     rbind (verify P prof alg pubkey (Some mcp_composed_validator) signed_obj []) (\<lambda>ob.
       if channel ob \<noteq> CHANNEL_BRIDGE \<or> kind ob \<noteq> KIND_MCP_TOOL_CALL \<or> tier ob \<noteq> MCP_TIER
       then Inl (McpError ''ToolCallMalformed'')
       else rbind (tool_call_from_body (body ob)) (\<lambda>tc.
         let mapped = map_annotations_to_effect (tc_annotations tc); declared = effect ob in
         rbind (resolve_enforced_effect mapped declared) (\<lambda>(enforced, mismatch).
           Inr \<lparr>rc_content_id = obj_id ob, rc_signer = signer ob, rc_tool_call = tc, rc_annotation_mapped = mapped,
             rc_declared = declared, rc_enforced = enforced, rc_mismatch = mismatch\<rparr>)))"

definition held_on_mismatch :: "unit res \<Rightarrow> unit res" where
  "held_on_mismatch r =
     (case r of
        Inl (ApprovalError k) \<Rightarrow> if k = ''ApprovalMismatch'' then Inl (McpError ''ApprovalRequired'') else Inl (ApprovalError k)
      | _ \<Rightarrow> r)"

definition authorize_call ::
  "prims \<Rightarrow> resolved_call \<Rightarrow> approval_record \<Rightarrow> int \<Rightarrow> bytes \<Rightarrow> bytes \<Rightarrow> pystr \<Rightarrow> int \<Rightarrow> ledger \<Rightarrow> (ledger \<times> entry) res" where
  "authorize_call P r appr approver_alg approver_pk appr_sig by_whom now led =
     rbind (call_binding_content_id P (call_binding_of P (rc_tool_call r))) (\<lambda>call_cid.
       rbind (held_on_mismatch (verify_approval P appr approver_alg approver_pk appr_sig call_cid now)) (\<lambda>_.
         if \<not> authorizes (grant_effect appr) (rc_enforced r) then Inl (McpError ''ApprovalRequired'')
         else rbind (approval_record_id P appr) (\<lambda>aid. consume P led aid by_whom)))"

section \<open>Reading and writing\<close>

lemma hint_pair_simps [simp]: "hint_pair k None = []" "hint_pair k (Some b) = [(U k, U (if b then 1 else 0))]"
  by (simp_all add: hint_pair_def)

lemma annotations_asc:
  "asc_keys (hint_pair KEY_READ_ONLY a @ hint_pair KEY_DESTRUCTIVE b @ hint_pair KEY_IDEMPOTENT c @ hint_pair KEY_OPEN_WORLD d)"
  by (cases a; cases b; cases c; cases d) (simp_all add: mcp_key_defs)

lemma set_hint_pair: "p \<in> set (hint_pair k h) \<Longrightarrow> canon (snd p) = snd p \<and> nesting (snd p) \<le> 1"
  by (cases h) auto

lemma annotations_facts: "canon (annotations_value a) = annotations_value a" "nesting (annotations_value a) \<le> 2"
proof -
  show "canon (annotations_value a) = annotations_value a"
    unfolding annotations_value_def by (rule map_facts(1) [OF annotations_asc, where k = 1]) (auto dest: set_hint_pair)
  have "nesting (annotations_value a) \<le> Suc 1"
    unfolding annotations_value_def by (rule map_facts(2) [OF annotations_asc]) (auto dest: set_hint_pair)
  then show "nesting (annotations_value a) \<le> 2" by simp
qed

lemma read_annotations: "annotations_from_value (annotations_value a) = Inr a"
proof -
  obtain r d i w where a: "a = \<lparr>an_read_only = r, an_destructive = d, an_idempotent = i, an_open_world = w\<rparr>" by (cases a)
  show ?thesis
    unfolding a annotations_from_value_def annotations_value_def no_annotations_def
    by (cases r; cases d; cases i; cases w) (simp_all add: annotation_step_def mcp_key_defs)
qed

lemma read_tool_call: "tool_call_from_body (tool_call_map tc) = Inr tc"
  by (cases tc) (simp add: tool_call_from_body_def tool_call_map_def tool_call_step_def read_annotations)

lemma tool_call_facts: "canon (tool_call_map tc) = tool_call_map tc" "nesting (tool_call_map tc) \<le> 3"
proof -
  note f = annotations_facts [of "tc_annotations tc"]
  show "canon (tool_call_map tc) = tool_call_map tc"
    unfolding tool_call_map_def by (rule map_facts(1) [where k = 2]) (use f in auto)
  have "nesting (tool_call_map tc) \<le> Suc 2"
    unfolding tool_call_map_def by (rule map_facts(2)) (use f in auto)
  then show "nesting (tool_call_map tc) \<le> 3" by simp
qed

lemma mcp_step_keys:
  "annotation_step st p = Inr st' \<Longrightarrow> \<exists>k. 1 \<le> k \<and> k \<le> 4 \<and> fst p = U k"
  "tool_call_step tt p = Inr tt' \<Longrightarrow> \<exists>k. 1 \<le> k \<and> k \<le> 3 \<and> fst p = U k"
  by (auto simp: annotation_step_def tool_call_step_def mcp_key_defs split: prod.splits cbor.splits if_splits)

text \<open>A step that reads one hint.\<close>

definition hint_of :: "cbor option \<Rightarrow> bool option" where
  "hint_of h = map_option (\<lambda>v. v = U 1) h"

lemma hint_of_simps [simp]: "hint_of None = None" "hint_of (Some v) = Some (v = U 1)"
  by (simp_all add: hint_of_def)

lemma hint_step:
  assumes "annotation_step (a, seen) (U k, v) = Inr st" and "encodable v"
  shows "v = U (if v = U 1 then 1 else 0)"
  using assms by (auto simp: annotation_step_def encodable_U split: cbor.splits if_splits)

lemma hint_pair_of: "(\<And>v. h = Some v \<Longrightarrow> v = U (if v = U 1 then 1 else 0)) \<Longrightarrow> hint_pair k (hint_of h) = opt_field k h"
  by (cases h) auto

lemma annotations_exact:
  assumes "encodable v" and "canon v = v" and "annotations_from_value v = Inr a"
  shows "v = annotations_value a"
proof -
  obtain ps seen where v: "v = M ps" and f: "rfold annotation_step (no_annotations, {}) ps = Inr (a, seen)"
    using assms(3) by (auto simp: annotations_from_value_def rbind_eq_Inr split: cbor.splits)
  have "keys_from 1 4 ps"
    by (rule keys_from_rfold [OF assms(1,2) [unfolded v] f]) (erule mcp_step_keys(1), simp)
  then obtain r p1 where p1: "ps = opt_field 1 r @ p1" "keys_from 2 4 p1" by (rule keys_from_split) simp
  obtain d p2 where p2: "p1 = opt_field 2 d @ p2" "keys_from 3 4 p2" using p1(2) by (rule keys_from_split) simp
  obtain i p3 where p3: "p2 = opt_field 3 i @ p3" "keys_from 4 4 p3" using p2(2) by (rule keys_from_split) simp
  obtain w qs where p4: "p3 = opt_field 4 w @ qs" "keys_from 5 4 qs" using p3(2) by (rule keys_from_split) simp
  have ps: "ps = opt_field 1 r @ opt_field 2 d @ opt_field 3 i @ opt_field 4 w @ qs" by (simp add: p1 p2 p3 p4)
  have qs: "qs = []" using p4(2) by (rule keys_from_empty) simp
  have enc: "encodable x" if "h = Some x" "h \<in> {r, d, i, w}" for h x
    using assms(1) that by (auto simp: v ps encodable_M)
  have bit: "x = U (if x = U 1 then 1 else 0)" if "h = Some x" "h \<in> {r, d, i, w}" for h x
  proof -
    have "\<exists>k. (U k, x) \<in> set ps" using that by (auto simp: ps)
    moreover have "\<forall>p \<in> set ps. \<exists>st st'. annotation_step st p = Inr st'" by (rule rfold_all [OF f]) blast
    ultimately obtain k st st' where "annotation_step st (U k, x) = Inr st'" by blast
    then show ?thesis using hint_step [of "fst st" "snd st" k x st'] enc [OF that] by simp
  qed
  have "a = \<lparr>an_read_only = hint_of r, an_destructive = hint_of d, an_idempotent = hint_of i, an_open_world = hint_of w\<rparr>"
    using f unfolding ps qs
    by (cases r; cases d; cases i; cases w)
      (auto simp: annotation_step_def mcp_key_defs no_annotations_def res_simps split: cbor.splits if_splits)
  then show ?thesis
    using bit by (simp add: v ps qs annotations_value_def mcp_key_defs hint_pair_of)
qed

lemma tool_call_exact:
  assumes "encodable v" and "canon v = v"
  shows "tool_call_from_body v = Inr tc \<longleftrightarrow> v = tool_call_map tc"
proof
  assume r: "tool_call_from_body v = Inr tc"
  obtain ps where v: "v = M ps"
    and f: "rfold tool_call_step (None, None, None) ps = Inr (Some (tc_tool tc), Some (tc_args tc), Some (tc_annotations tc))"
    using r by (auto simp: tool_call_from_body_def case_prod_eq_Inr case_option_eq_Inr res_simps)
  have "keys_from 1 3 ps"
    by (rule keys_from_rfold [OF assms [unfolded v] f]) (erule mcp_step_keys(2), simp)
  then have "\<exists>x y z. ps = [(U 1, x), (U 2, y), (U 3, z)]"
    using f by (auto dest!: keys_from_three simp: tool_call_step_def res_simps)
  then obtain x y z where ps: "ps = [(U 1, x), (U 2, y), (U 3, z)]" by blast
  then have "x = B (tc_tool tc)" "y = B (tc_args tc)" and z: "annotations_from_value z = Inr (tc_annotations tc)"
    using f by (auto simp: tool_call_step_def res_simps)
  moreover have "encodable z" "canon z = z"
    using assms(1) canon_M_parts(2) [OF assms(2,1) [unfolded v], of "(U 3, z)"] by (simp_all add: v ps encodable_M)
  ultimately show "v = tool_call_map tc" using annotations_exact [OF _ _ z] by (simp add: v ps tool_call_map_def)
qed (simp add: read_tool_call)

lemma call_terms_bound:
  assumes "call_binding_content_id P (call_binding_of P tc) = Inr c" and "call_binding_content_id P (call_binding_of P td) = Inr c"
    and "\<And>m n. call_binding_bytes (call_binding_of P tc) = Inr m \<Longrightarrow> call_binding_bytes (call_binding_of P td) = Inr n \<Longrightarrow>
      inj_on (sha384 P) {m, n}"
    and "inj_on (sha384 P) {tc_tool tc, tc_tool td}" and "inj_on (sha384 P) {tc_args tc, tc_args td}"
  shows "tc_tool tc = tc_tool td" and "tc_args tc = tc_args td"
proof -
  let ?ps = "\<lambda>t. [(U 1, B (content_id_bytes (sha384 P) (tc_tool t))), (U 2, B (content_id_bytes (sha384 P) (tc_args t)))]"
  obtain m n where m: "call_binding_bytes (call_binding_of P tc) = Inr m" "call_binding_bytes (call_binding_of P td) = Inr n"
    and "content_id_bytes (sha384 P) m = content_id_bytes (sha384 P) n"
    using assms(1,2) by (auto simp: call_binding_content_id_def rbind_eq_Inr)
  then have "sha384 P m = sha384 P n" by (simp add: content_id_bytes_def)
  then have "m = n" using inj_onD [OF assms(3) [OF m]] by blast
  moreover have "encode (M (?ps tc)) = Inr m" "encode (M (?ps td)) = Inr n"
    using m by (simp_all only: call_binding_bytes_def call_binding_of_def new_call_binding_def call_binding.simps)
  ultimately have "?ps tc = ?ps td" by (intro encode_fields_inject) auto
  then have "sha384 P (tc_tool tc) = sha384 P (tc_tool td)" "sha384 P (tc_args tc) = sha384 P (tc_args td)"
    by (simp_all add: content_id_bytes_def)
  then show "tc_tool tc = tc_tool td" "tc_args tc = tc_args td" using inj_onD [OF assms(4)] inj_onD [OF assms(5)] by blast+
qed

lemma held_on_mismatch_Inr: "held_on_mismatch r = Inr u \<longleftrightarrow> r = Inr u"
  by (auto simp: held_on_mismatch_def split: sum.split exn.split)

lemma authorize_call_Inr:
  "authorize_call P r a alg pk sig w now led = Inr (led', e) \<longleftrightarrow>
     (\<exists>cid. call_binding_content_id P (call_binding_of P (rc_tool_call r)) = Inr cid \<and> verify_approval P a alg pk sig cid now = Inr ()) \<and>
     rc_enforced r \<le> grant_effect a \<and> (\<exists>aid. approval_record_id P a = Inr aid \<and> consume P led aid w = Inr (led', e))"
  by (auto simp: authorize_call_def rbind_eq_Inr if_Inl_eq_Inr authorizes_def held_on_mismatch_Inr)

lemma tool_call_envelope_Inr:
  "tool_call_envelope tc sgnr at prof declared cs = Inr ob \<longleftrightarrow> declared \<le> 3 \<and>
     ob = \<lparr>obj_id = None, kind = 1, channel = 13, tier = 1, signer = sgnr, created = at, effect = declared, causes = cs,
       profile = prof, body = tool_call_map tc, ext = None, cext = None, audience = [], suite = 0\<rparr>"
  by (auto simp: tool_call_envelope_def mcp_object_defs effect_defs)

lemma mapped_range: "map_annotations_to_effect a \<in> {0..3}"
  by (simp add: map_annotations_to_effect_def effect_defs Let_def)

lemma resolve_Inr:
  "resolve_enforced_effect m d = Inr (e, x) \<longleftrightarrow> d \<le> 3 \<and> m \<le> d \<and> e = d \<and> (x \<longleftrightarrow> m \<noteq> d)"
  by (auto simp: resolve_enforced_effect_def effect_defs)

lemma tool_call_object_acceptable:
  assumes "tool_call_envelope tc sgnr at prof declared cs = Inr ob" and "1 \<le> prof" and "prof \<le> 3" and "length cs \<le> MAX_CAUSES"
  shows "acceptable (Some mcp_composed_validator) [] ob" and "suite ob = 0"
  using assms(2-4) tool_call_facts(2) [of tc] assms(1) [unfolded tool_call_envelope_Inr]
  by (auto intro!: acceptable_plain simp: mcp_composed_validator_def mcp_kind_validator_def mcp_object_defs is_rotation_object_def)

text \<open>The body of a verified object is a value in canonical form.\<close>

lemma fields_in: "rfold field_step m ps = Inr f \<Longrightarrow> f n = Some v \<Longrightarrow> m n = Some v \<or> (U n, v) \<in> set ps"
proof (induction ps arbitrary: m)
  case (Cons p ps)
  then show ?case by (cases p) (fastforce simp: rbind_eq_Inr field_step_Inr split: if_splits)
qed simp

lemma verified_body_canonical:
  assumes "verify P vp va pk validator bs known = Inr ob"
  shows "encodable (body ob)" and "canon (body ob) = body ob"
proof -
  obtain payload where "check_body P payload = Inr ob" using assms by (auto simp: verify_iff)
  then obtain ps where e: "encode (M ps) = Inr payload" and c: "canon (M ps) = M ps" and m: "object_from_map ps = Inr ob"
    by (rule check_body_Inr)
  obtain f where "rfold field_step Map.empty ps = Inr f" "f FIELD_BODY = Some (body ob)"
    using m by (auto simp: object_from_map_def object_from_fields_def rbind_eq_Inr if_Inl_eq_Inr need_def split: option.splits)
  then have b: "(U FIELD_BODY, body ob) \<in> set ps" using fields_in by fastforce
  have "encodable (M ps)" using e encodeD by blast
  then show "encodable (body ob)" "canon (body ob) = body ob"
    using b canon_M_parts(2) [OF c] by (auto simp: encodable_M)
qed

section \<open>Properties of governed tool calls\<close>

text \<open>A wrapper verifies exactly when the envelope does, it is a first-tier call on the bridge channel, its body is the
  encoding of the call returned, and the declared effect is no lower than the one its own annotations map to. The
  effect enforced is then the more severe of the two, and the mismatch flag says whether they differ.\<close>

theorem verify_tool_call_exact:
  "verify_tool_call P prof alg pk bs = Inr r \<longleftrightarrow>
     (\<exists>ob. verify P prof alg pk (Some mcp_composed_validator) bs [] = Inr ob \<and> channel ob = 13 \<and> kind ob = 1 \<and> tier ob = 1 \<and>
        body ob = tool_call_map (rc_tool_call r) \<and> rc_content_id r = obj_id ob \<and> rc_signer r = signer ob \<and>
        rc_annotation_mapped r = map_annotations_to_effect (tc_annotations (rc_tool_call r)) \<and> rc_declared r = effect ob \<and>
        rc_annotation_mapped r \<le> rc_declared r \<and> rc_enforced r = max (rc_annotation_mapped r) (rc_declared r) \<and>
        rc_enforced r \<in> {0..3} \<and> (rc_mismatch r \<longleftrightarrow> rc_annotation_mapped r \<noteq> rc_declared r))"
proof -
  have "(if channel ob \<noteq> CHANNEL_BRIDGE \<or> kind ob \<noteq> KIND_MCP_TOOL_CALL \<or> tier ob \<noteq> MCP_TIER then Inl (McpError ''ToolCallMalformed'')
      else rbind (tool_call_from_body (body ob)) (\<lambda>tc.
         let mapped = map_annotations_to_effect (tc_annotations tc); declared = effect ob in
         rbind (resolve_enforced_effect mapped declared) (\<lambda>(enforced, mismatch).
           Inr \<lparr>rc_content_id = obj_id ob, rc_signer = signer ob, rc_tool_call = tc, rc_annotation_mapped = mapped,
             rc_declared = declared, rc_enforced = enforced, rc_mismatch = mismatch\<rparr>))) = Inr r \<longleftrightarrow>
      channel ob = 13 \<and> kind ob = 1 \<and> tier ob = 1 \<and> body ob = tool_call_map (rc_tool_call r) \<and> rc_content_id r = obj_id ob \<and>
      rc_signer r = signer ob \<and> rc_annotation_mapped r = map_annotations_to_effect (tc_annotations (rc_tool_call r)) \<and>
      rc_declared r = effect ob \<and> rc_annotation_mapped r \<le> rc_declared r \<and> rc_enforced r = max (rc_annotation_mapped r) (rc_declared r) \<and>
      rc_enforced r \<in> {0..3} \<and> (rc_mismatch r \<longleftrightarrow> rc_annotation_mapped r \<noteq> rc_declared r)"
    (is "?l \<longleftrightarrow> ?r") if v: "verify P prof alg pk (Some mcp_composed_validator) bs [] = Inr ob" for ob
  proof -
    have "effect ob \<le> 3" using v by (auto simp: verify_iff check_ranges_Inr)
    then show ?thesis
      using mapped_range [of "tc_annotations (rc_tool_call r)"]
      by (cases r) (auto simp: if_Inl_eq_Inr rbind_eq_Inr Let_def mcp_object_defs resolve_Inr case_prod_eq_Inr
          tool_call_exact [OF verified_body_canonical [OF v]])
  qed
  then show ?thesis unfolding verify_tool_call_def rbind_eq_Inr by blast
qed

text \<open>A signed call verifies to itself when its declaration covers its annotations, and is refused as under-declared
  otherwise.\<close>

theorem tool_call_roundtrip:
  assumes "md_correct P" and "md_key_derive P alg seed = Inr (pk, sk)" and "profile_min_level vp \<le> fst (alg_level alg)"
    and "tool_call_envelope tc sgnr at prof declared cs = Inr ob" and "sign_tool_call P ob alg seed = Inr (o1, bs)"
    and "length bs \<le> MAX_OBJECT_SIZE" and "length cs \<le> MAX_CAUSES" and "1 \<le> prof" and "prof \<le> 3"
  shows "verify_tool_call P vp alg pk bs =
      (if declared < map_annotations_to_effect (tc_annotations tc) then Inl (McpError ''EffectUnderDeclared'')
       else Inr \<lparr>rc_content_id = obj_id o1, rc_signer = sgnr, rc_tool_call = tc,
         rc_annotation_mapped = map_annotations_to_effect (tc_annotations tc), rc_declared = declared, rc_enforced = declared,
         rc_mismatch = (declared \<noteq> map_annotations_to_effect (tc_annotations tc))\<rparr>)"
proof -
  note acc = tool_call_object_acceptable [OF assms(4,8,9,7)]
  have s: "sign P ob alg seed = Inr (o1, bs)" using assms(5) by (simp add: sign_tool_call_def)
  then obtain i where o1: "o1 = ob\<lparr>obj_id := Some i\<rparr>" by (auto simp: sign_def assign_id_def rbind_eq_Inr Let_def)
  have ob: "declared \<le> 3" "ob = \<lparr>obj_id = None, kind = 1, channel = 13, tier = 1, signer = sgnr, created = at, effect = declared,
      causes = cs, profile = prof, body = tool_call_map tc, ext = None, cext = None, audience = [], suite = 0\<rparr>"
    using assms(4) by (simp_all add: tool_call_envelope_Inr)
  have "canon_obj o1 = o1" by (simp add: canon_obj_def o1 ob(2) tool_call_facts)
  then have "verify P vp alg pk (Some mcp_composed_validator) bs [] = Inr o1"
    using sign_verify [OF assms(1) s assms(2,6) acc assms(3), where va = alg] by simp
  then show ?thesis
    using ob(1) by (simp add: verify_tool_call_def o1 ob(2) mcp_object_defs read_tool_call resolve_enforced_effect_def effect_defs Let_def)
qed

definition sample_tool_call :: tool_call where
  "sample_tool_call = \<lparr>tc_tool = [1], tc_args = [2], tc_annotations = no_annotations\<lparr>an_destructive := Some False\<rparr>\<rparr>"

theorem tool_call_roundtrip_witness:
  "\<exists>ob o1 bs. tool_call_envelope sample_tool_call [9] 5 1 1 [] = Inr ob \<and> sign_tool_call sample_prims ob (- 49) [5] = Inr (o1, bs) \<and>
     verify_tool_call sample_prims 1 (- 49) [5] bs = Inl (McpError ''EffectUnderDeclared'')"
proof -
  have "case tool_call_envelope sample_tool_call [9] 5 1 1 [] of Inl _ \<Rightarrow> False | Inr ob \<Rightarrow>
      (case sign_tool_call sample_prims ob (- 49) [5] of Inl _ \<Rightarrow> False | Inr (o1, bs) \<Rightarrow> length bs \<le> 1000)" by code_simp
  then obtain ob o1 bs where s: "tool_call_envelope sample_tool_call [9] 5 1 1 [] = Inr ob"
    "sign_tool_call sample_prims ob (- 49) [5] = Inr (o1, bs)" and l: "length bs \<le> 1000"
    by (auto split: sum.splits)
  have "length bs \<le> MAX_OBJECT_SIZE" using l by (simp add: MAX_OBJECT_SIZE_def)
  from tool_call_roundtrip [OF sample_prims_correct(1) sample_prims_sel(4) sample_level(1) s this]
  have "verify_tool_call sample_prims 1 (- 49) [5] bs = Inl (McpError ''EffectUnderDeclared'')"
    by (simp add: MAX_CAUSES_def sample_tool_call_def no_annotations_def map_annotations_to_effect_def hint_def mcp_default_defs effect_defs)
  with s show ?thesis by blast
qed

text \<open>The mapping fails closed: erasing any hint never lowers the effect, a tool with no hint is destructive, the
  read-only class needs an explicit hint, and the open-world hint makes no difference.\<close>

theorem mapping_fails_closed:
  "map_annotations_to_effect a \<le> map_annotations_to_effect (a\<lparr>an_read_only := None\<rparr>) \<and>
   map_annotations_to_effect a \<le> map_annotations_to_effect (a\<lparr>an_destructive := None\<rparr>) \<and>
   map_annotations_to_effect a \<le> map_annotations_to_effect (a\<lparr>an_idempotent := None\<rparr>) \<and>
   map_annotations_to_effect (a\<lparr>an_open_world := h\<rparr>) = map_annotations_to_effect a \<and>
   map_annotations_to_effect (no_annotations\<lparr>an_open_world := h\<rparr>) = DESTRUCTIVE \<and>
   (map_annotations_to_effect a = READ_ONLY \<longleftrightarrow> an_read_only a = Some True) \<and>
   annotations_from_value (annotations_value a) = Inr a"
  by (simp add: read_annotations map_annotations_to_effect_def no_annotations_def hint_def mcp_default_defs effect_defs Let_def split: option.split)

text \<open>C18: When a call is authorized, the approval is signed by the approver's key, binds the content id of this very
  tool and these very arguments, is not past its time, grants at least the enforced effect, was not spent before, and the
  entry appended to the ledger carries its id. After that the same approval authorizes no call on that ledger, whatever ran in between; and any
  call it would authorize, on any ledger, has the same tool bytes and the same arguments, unless the digest collides.\<close>

theorem call_authorized_once:
  assumes "open_ledger P file auth = Inr led" and "authorize_call P r a alg pk sig w now led = Inr (led', e)"
    and "ledger_run P led' tr l"
  shows "rc_enforced r \<le> grant_effect a \<and> now \<le> not_after a \<and>
      (\<exists>m. approval_bytes a = Inr m \<and> cose_verify1_raw P alg pk m sig = Inr True \<and> e_approval_id e = content_id_bytes (sha384 P) m) \<and>
      call_binding_content_id P (call_binding_of P (rc_tool_call r)) = Inr (approves a) \<and> \<not> is_consumed led (e_approval_id e) \<and>
      (\<forall>q alg' pk' sig' w' now' y. authorize_call P q a alg' pk' sig' w' now' l \<noteq> Inr y) \<and>
      (\<forall>q alg' pk' sig' w' now' led2 y. authorize_call P q a alg' pk' sig' w' now' led2 = Inr y \<longrightarrow>
        (\<forall>m n. call_binding_bytes (call_binding_of P (rc_tool_call r)) = Inr m \<longrightarrow>
          call_binding_bytes (call_binding_of P (rc_tool_call q)) = Inr n \<longrightarrow> inj_on (sha384 P) {m, n}) \<longrightarrow>
        inj_on (sha384 P) {tc_tool (rc_tool_call r), tc_tool (rc_tool_call q)} \<longrightarrow>
        inj_on (sha384 P) {tc_args (rc_tool_call r), tc_args (rc_tool_call q)} \<longrightarrow>
        tc_tool (rc_tool_call q) = tc_tool (rc_tool_call r) \<and> tc_args (rc_tool_call q) = tc_args (rc_tool_call r))"
proof -
  obtain aid where v: "rc_enforced r \<le> grant_effect a" "approval_record_id P a = Inr aid" "consume P led aid w = Inr (led', e)"
    and b: "call_binding_content_id P (call_binding_of P (rc_tool_call r)) = Inr (approves a)"
    and s: "\<exists>m. approval_bytes a = Inr m \<and> cose_verify1_raw P alg pk m sig = Inr True" "now \<le> not_after a"
    using assms(2) by (auto simp: authorize_call_Inr verify_approval_Inr)
  note new = consumed_once [OF assms(1) v(3) assms(3)]
  have m: "\<exists>m. approval_bytes a = Inr m \<and> cose_verify1_raw P alg pk m sig = Inr True \<and> e_approval_id e = content_id_bytes (sha384 P) m"
    using v(2) s(1) new(1) by (auto simp: approval_record_id_def rbind_eq_Inr)
  have once: "authorize_call P q a alg' pk' sig' w' now' l \<noteq> Inr y" for q alg' pk' sig' w' now' y
    using v(2) new(3) by (cases y) (simp add: authorize_call_Inr)
  have bound: "tc_tool (rc_tool_call q) = tc_tool (rc_tool_call r) \<and> tc_args (rc_tool_call q) = tc_args (rc_tool_call r)"
    if "authorize_call P q a alg' pk' sig' w' now' led2 = Inr y"
      and inj: "\<forall>m n. call_binding_bytes (call_binding_of P (rc_tool_call r)) = Inr m \<longrightarrow>
          call_binding_bytes (call_binding_of P (rc_tool_call q)) = Inr n \<longrightarrow> inj_on (sha384 P) {m, n}"
        "inj_on (sha384 P) {tc_tool (rc_tool_call r), tc_tool (rc_tool_call q)}"
        "inj_on (sha384 P) {tc_args (rc_tool_call r), tc_args (rc_tool_call q)}" for q alg' pk' sig' w' now' led2 y
  proof -
    have "call_binding_content_id P (call_binding_of P (rc_tool_call q)) = Inr (approves a)"
      using that(1) by (cases y) (auto simp: authorize_call_Inr verify_approval_Inr)
    from call_terms_bound [OF b this _ inj(2,3)] inj(1) show ?thesis by simp
  qed
  show ?thesis
    using v(1) s(2) m b new(2) unfolding new(1) by (intro conjI allI impI)
      (assumption | rule once | rule bound [THEN conjunct1] | rule bound [THEN conjunct2])+
qed

definition sample_call :: resolved_call where
  "sample_call =
     \<lparr>rc_content_id = None, rc_signer = [9], rc_tool_call = sample_tool_call, rc_annotation_mapped = 2, rc_declared = 2,
      rc_enforced = 2, rc_mismatch = False\<rparr>"

definition sample_call_approval :: approval_record where
  "sample_call_approval =
     \<lparr>approves = projr (call_binding_content_id sample_prims (call_binding_of sample_prims sample_tool_call)),
      approver = [97], grant_effect = 2, nonce = [3], not_after = 9, ap_audience = []\<rparr>"

theorem call_authorized_once_witness:
  "\<exists>sig led' e. authorize_call sample_prims sample_call sample_call_approval (- 49) [5] sig [98] 8 sample_ledger = Inr (led', e) \<and>
     (\<forall>q y. authorize_call sample_prims q sample_call_approval (- 49) [5] sig [98] 8 led' \<noteq> Inr y)"
proof -
  have "case sign_approval sample_prims sample_call_approval (- 49) [5] of Inl _ \<Rightarrow> False | Inr sig \<Rightarrow>
      is_ok (authorize_call sample_prims sample_call sample_call_approval (- 49) [5] sig [98] 8 sample_ledger)"
    by code_simp
  then obtain sig led' e
    where c: "authorize_call sample_prims sample_call sample_call_approval (- 49) [5] sig [98] 8 sample_ledger = Inr (led', e)"
    by (auto simp: is_ok_iff split: sum.splits)
  from call_authorized_once [OF sample_ledger_opens c ledger_run.start]
  have "\<forall>q y. authorize_call sample_prims q sample_call_approval (- 49) [5] sig [98] 8 led' \<noteq> Inr y" by simp
  with c show ?thesis by (intro exI conjI)
qed

end
