(* ===== verification/ErrorRegistry.thy ===== *)
theory ErrorRegistry
  imports Signed
begin

text \<open>
  The error object and the registry of error codes (\<^verbatim>\<open>impl/python/naalp/naalperror.py\<close>): the ordered table of names, whose
  positions are the codes, and the body that carries one rejection with its code and name. A registered
  code must come with its registered name; a code outside the registry is accepted as it is.
\<close>

section \<open>The registry\<close>

definition STANDARDS_MAX :: int where "STANDARDS_MAX = 0x7FFF"

definition NAMES :: "string list" where
  "NAMES =
    [''NonCanonical'', ''DepthExceeded'', ''Malformed'', ''ContentIdMismatch'', ''HeaderBodyMismatch'',
     ''UnsupportedVersion'', ''UnknownCriticalExt'', ''UnknownKind'', ''RangeError'', ''NonNFC'', ''WrongAudience'',
     ''TooLarge'', ''TooManyCauses'', ''TooManyExtensions'', ''TooManyChunks'', ''UnknownAlg'', ''KeyAlgMismatch'',
     ''ProfileDowngrade'', ''HybridIncomplete'', ''SuiteMismatch'', ''CompositeRefused'', ''BadSignature'',
     ''SignerMismatch'', ''RotationUnauthorized'', ''KeyRevoked'', ''EffectNotAuthorized'', ''UnauthenticatedPrincipal'',
     ''MalformedSafetyLabel'', ''ApprovalRequired'', ''ApprovalMismatch'', ''ApprovalExpired'', ''AlreadyConsumed'',
     ''ConsumeFork'', ''ConsumeForkInvalid'', ''ConsumeReceiptUnsigned'', ''LedgerCorrupt'', ''LedgerUnsigned'',
     ''AudienceMismatch'', ''FreshnessSelfAsserted'', ''UnknownRefusalOutcome'', ''RefusalDetailLeak'', ''ChainBroken'',
     ''Equivocation'', ''CausalViolation'', ''ReceiptUnsigned'', ''ForkProofInvalid'', ''StageOutOfOrder'',
     ''StreamDigestMismatch'', ''StreamStateError'', ''ConfidentialTransportRequired'', ''PeerUnauthenticated'',
     ''NotDelivered'', ''MappingError'', ''EffectDeclarationMismatch'', ''StateTransitionError'', ''CapExceedsParent'',
     ''TransformCycle'', ''InputGateBypass'', ''TaskStateError'', ''ScopeOverlapConflict'', ''ReconcileMismatch'',
     ''WrongFlow'', ''SeqGap'', ''AboveCeiling'', ''GapDetected'', ''CommitMismatch'', ''ContMalformed'',
     ''GrantExpired'', ''GrantNotYetValid'', ''GrantRevoked'', ''UntrustedChainRoot'', ''DelegationDepthExceeded'',
     ''GrantMalformed'', ''NameMalformed'', ''NameChainBroken'', ''NameForkProofInvalid'', ''IllegalTransition'',
     ''TaskChainBroken'', ''ForeignCard'', ''DescMalformed'', ''MalformedApprovalFlag'', ''DirForkProofInvalid'',
     ''ImporterMismatch'', ''UnknownDescriptionFormat'', ''VerifierKeyMismatch'', ''NegMalformed'', ''UnknownRole'',
     ''UnknownProfile'', ''NotDescended'', ''NotOffer'', ''NotAccept'', ''MalformedCriticalFlag'',
     ''UnknownCriticalRisk'', ''ReferenceMismatch'', ''MalformedAnnotation'', ''EffectUnderDeclared'',
     ''EffectOutsideLattice'', ''ToolCallMalformed'', ''PayMalformed'', ''UnknownPaymentFormat'', ''GwMalformed'',
     ''UnknownGatewayDecision'', ''UIMalformed'', ''UIChainBroken'', ''UnknownUIEventKind'', ''ActionSubstituted'',
     ''UINoConsent'', ''StaleEpoch'', ''Unauthorized'', ''OwnerImmutable'', ''MemberExists'', ''MemberUnknown'',
     ''OwnerExists'', ''RoleInvalid'', ''RoomOpMismatch'', ''OpUnknown'', ''PrincipalUnknown'', ''PrincipalExists'',
     ''RebindUnauthorized'', ''EgMalformed'', ''UnknownEgressBinding'', ''DecisionMalformed'', ''UnknownOrderingBasis'',
     ''OrderingDisclosureMalformed'', ''TermDispositionMalformed'', ''CheckpointMalformed'', ''WitnessRootMismatch'',
     ''InclusionProofInvalid'', ''ForeignProfileMalformed'', ''HazardMalformed'', ''HazardNotCovered'', ''HazardUnknown'']"

definition name_for_code :: "int \<Rightarrow> pystr \<times> bool" where
  "name_for_code code =
     (if 1 \<le> code \<and> code \<le> int (length NAMES) then (pystr (NAMES ! nat (code - 1)), True) else ([], False))"

text \<open>The dictionary from names to codes, filled in the order of the table; a later entry would win.\<close>

fun codes_from :: "int \<Rightarrow> (pystr \<rightharpoonup> int) \<Rightarrow> string list \<Rightarrow> (pystr \<rightharpoonup> int)" where
  "codes_from i d [] = d"
| "codes_from i d (n # ns) = codes_from (i + 1) (d(pystr n \<mapsto> i + 1)) ns"

definition code_by_name :: "pystr \<rightharpoonup> int" where
  "code_by_name = codes_from 0 Map.empty NAMES"

definition code_for_name :: "pystr \<Rightarrow> int \<times> bool" where
  "code_for_name name = (case code_by_name name of None \<Rightarrow> (0, False) | Some c \<Rightarrow> (c, True))"

section \<open>The error object\<close>

record error_object =
  eo_code :: int
  eo_name :: pystr
  eo_detail :: pystr
  eo_subject :: "bytes option"

definition encode_error :: "int \<Rightarrow> pystr \<Rightarrow> pystr \<Rightarrow> bytes option \<Rightarrow> bytes res" where
  "encode_error code name detail subject =
     encode (M ([(U 1, U code), (U 2, T name)] @ (if detail \<noteq> [] then [(U 3, T detail)] else []) @
       (case subject of None \<Rightarrow> [] | Some s \<Rightarrow> [(U 4, B s)])))"

definition error_step ::
  "int option \<times> pystr option \<times> pystr \<times> bytes option \<Rightarrow> cbor \<times> cbor \<Rightarrow> (int option \<times> pystr option \<times> pystr \<times> bytes option) res" where
  "error_step st p =
     (case st of (code, name, detail, subject) \<Rightarrow>
       (case fst p of
          U k \<Rightarrow>
            if k = 1 then (case snd p of U n \<Rightarrow> Inr (Some n, name, detail, subject) | _ \<Rightarrow> Inl (EnvelopeError ''Malformed''))
            else if k = 2 then (case snd p of T t \<Rightarrow> Inr (code, Some t, detail, subject) | _ \<Rightarrow> Inl (EnvelopeError ''Malformed''))
            else if k = 3 then (case snd p of T t \<Rightarrow> Inr (code, name, t, subject) | _ \<Rightarrow> Inl (EnvelopeError ''Malformed''))
            else if k = 4 then (case snd p of B b \<Rightarrow> Inr (code, name, detail, Some b) | _ \<Rightarrow> Inl (EnvelopeError ''Malformed''))
            else Inl (EnvelopeError ''Malformed'')
        | _ \<Rightarrow> Inl (EnvelopeError ''Malformed'')))"

definition check_error_fields :: "int option \<times> pystr option \<times> pystr \<times> bytes option \<Rightarrow> error_object res" where
  "check_error_fields st =
     (case st of
        (Some code, Some name, detail, subject) \<Rightarrow>
          (case name_for_code code of (reg_name, registered) \<Rightarrow>
             if registered \<and> reg_name \<noteq> name then Inl (EnvelopeError ''Malformed'')
             else Inr \<lparr>eo_code = code, eo_name = name, eo_detail = detail, eo_subject = subject\<rparr>)
      | _ \<Rightarrow> Inl (EnvelopeError ''Malformed''))"

definition decode_error :: "bytes \<Rightarrow> error_object res" where
  "decode_error data =
     (case decode data of
        Inr (M ps) \<Rightarrow> rbind (rfold error_step (None, None, [], None) ps) check_error_fields
      | _ \<Rightarrow> Inl (EnvelopeError ''Malformed''))"

section \<open>Codes and names\<close>

lemma pystr_eq: "pystr s = pystr t \<longleftrightarrow> s = t"
proof -
  have "inj (of_char :: char \<Rightarrow> nat)" by (rule injI) simp
  then show ?thesis by (simp add: pystr_def inj_map_eq_map)
qed

lemma length_NAMES: "length NAMES = 132"
  by code_simp

lemma distinct_NAMES: "distinct NAMES"
  by code_simp

lemma codes_from_other: "x \<notin> pystr ` set ns \<Longrightarrow> codes_from i d ns x = d x"
  by (induction ns arbitrary: i d) auto

lemma codes_from_nth:
  "distinct ns \<Longrightarrow> k < length ns \<Longrightarrow> codes_from i d ns (pystr (ns ! k)) = Some (i + int k + 1)"
proof (induction ns arbitrary: i d k)
  case (Cons n ns)
  show ?case
  proof (cases k)
    case 0
    have "pystr n \<notin> pystr ` set ns" using Cons.prems(1) by (auto simp: pystr_eq)
    then show ?thesis using 0 by (simp add: codes_from_other)
  next
    case (Suc j)
    then show ?thesis using Cons.IH [of j "i + 1"] Cons.prems by simp
  qed
qed simp

lemma name_for_code_registered:
  "name_for_code c = (n, True) \<longleftrightarrow> (\<exists>k < 132. c = int k + 1 \<and> n = pystr (NAMES ! k))"
proof
  assume "name_for_code c = (n, True)"
  then show "\<exists>k < 132. c = int k + 1 \<and> n = pystr (NAMES ! k)"
    by (intro exI [of _ "nat (c - 1)"]) (auto simp: name_for_code_def length_NAMES split: if_splits)
qed (auto simp: name_for_code_def length_NAMES)

lemma code_for_name_registered:
  "code_for_name n = (c, True) \<longleftrightarrow> (\<exists>k < 132. c = int k + 1 \<and> n = pystr (NAMES ! k))"
proof (cases "n \<in> pystr ` set NAMES")
  case True
  then obtain k where k: "k < 132" "n = pystr (NAMES ! k)" by (auto simp: in_set_conv_nth length_NAMES)
  have "j = k" if "j < 132" "NAMES ! k = NAMES ! j" for j
    using that k(1) nth_eq_iff_index_eq [OF distinct_NAMES] length_NAMES by simp
  then show ?thesis
    using k codes_from_nth [OF distinct_NAMES, of k 0 Map.empty]
    by (auto simp: code_for_name_def code_by_name_def length_NAMES pystr_eq)
next
  case False
  then have "code_by_name n = None" by (simp add: code_by_name_def codes_from_other)
  then show ?thesis using False by (force simp: code_for_name_def in_set_conv_nth length_NAMES)
qed

section \<open>Bodies\<close>

text \<open>The body with its optional fields made explicit; the writer leaves an empty detail out.\<close>

definition error_body :: "int \<Rightarrow> pystr \<Rightarrow> pystr option \<Rightarrow> bytes option \<Rightarrow> (cbor \<times> cbor) list" where
  "error_body code name detail subject =
     [(U 1, U code), (U 2, T name)] @ opt_field 3 (map_option T detail) @ opt_field 4 (map_option B subject)"

definition text_of :: "pystr option \<Rightarrow> pystr" where "text_of d = (case d of None \<Rightarrow> [] | Some t \<Rightarrow> t)"

definition name_agrees :: "int \<Rightarrow> pystr \<Rightarrow> bool" where
  "name_agrees code name \<longleftrightarrow> (\<forall>n. name_for_code code = (n, True) \<longrightarrow> name = n)"

lemma encode_error_body: "encode_error code name detail subject = encode (M (error_body code name (if detail = [] then None else Some detail) subject))"
  by (cases subject) (simp_all add: encode_error_def error_body_def del: encode.simps)

lemma error_body_read:
  "rfold error_step (None, None, [], None) (error_body code name d subject) = Inr (Some code, Some name, text_of d, subject)"
  by (cases d; cases subject) (simp_all add: error_body_def error_step_def text_of_def)

lemma error_step_keys: "error_step st p = Inr st' \<Longrightarrow> \<exists>k. 1 \<le> k \<and> k \<le> 4 \<and> fst p = U k"
  by (auto simp: error_step_def split: prod.splits cbor.splits if_splits)

lemma error_body_exact:
  assumes "encodable (M ps)" and "canon (M ps) = M ps"
    and f: "rfold error_step (None, None, [], None) ps = Inr (Some code, Some name, detail, subject)"
  shows "\<exists>d. ps = error_body code name d subject \<and> text_of d = detail"
proof -
  have "keys_from 1 4 ps" by (rule keys_from_rfold [OF assms]) (erule error_step_keys, simp)
  then obtain r p1 where p1: "ps = opt_field 1 r @ p1" "keys_from 2 4 p1" by (rule keys_from_split) simp
  obtain w p2 where p2: "p1 = opt_field 2 w @ p2" "keys_from 3 4 p2" using p1(2) by (rule keys_from_split) simp
  obtain i p3 where p3: "p2 = opt_field 3 i @ p3" "keys_from 4 4 p3" using p2(2) by (rule keys_from_split) simp
  obtain x qs where p4: "p3 = opt_field 4 x @ qs" "keys_from 5 4 qs" using p3(2) by (rule keys_from_split) simp
  have qs: "qs = []" using p4(2) by (rule keys_from_empty) simp
  have ps: "ps = opt_field 1 r @ opt_field 2 w @ opt_field 3 i @ opt_field 4 x" by (simp add: p1 p2 p3 p4 qs)
  have "r = Some (U code)" "w = Some (T name)" "x = map_option B subject" and i: "i = None \<and> detail = [] \<or> i = Some (T detail)"
    using f unfolding ps by (cases r; cases w; cases i; cases x; auto simp: error_step_def res_simps split: cbor.splits)+
  then show ?thesis unfolding ps error_body_def text_of_def
    using i by (cases i) (auto intro: exI [of _ None] exI [of _ "Some detail"])
qed

lemma error_body_asc: "asc_keys (error_body code name d subject)"
  by (cases d; cases subject) (simp_all add: error_body_def)

lemma decode_error_body:
  "encode (M (error_body code name d subject)) = Inr b \<Longrightarrow> decode b = Inr (M (error_body code name d subject))"
  by (erule decode_fields [OF _ error_body_asc]) (cases d; cases subject; auto simp: error_body_def)

lemma name_agrees_iff: "name_agrees code name \<longleftrightarrow> \<not> (snd (name_for_code code) \<and> fst (name_for_code code) \<noteq> name)"
  by (cases "name_for_code code") (auto simp: name_agrees_def)

lemma check_error_fields_eq:
  "check_error_fields (Some code, Some name, detail, subject) =
     (if name_agrees code name then Inr \<lparr>eo_code = code, eo_name = name, eo_detail = detail, eo_subject = subject\<rparr>
      else Inl (EnvelopeError ''Malformed''))"
  "check_error_fields (None, y, z) = Inl (EnvelopeError ''Malformed'')"
  "check_error_fields (x, None, z) = Inl (EnvelopeError ''Malformed'')"
  by (auto simp: check_error_fields_def name_agrees_iff split: prod.splits option.splits)

lemma check_error_fields_Inr:
  "check_error_fields st = Inr eo \<longleftrightarrow>
     st = (Some (eo_code eo), Some (eo_name eo), eo_detail eo, eo_subject eo) \<and> name_agrees (eo_code eo) (eo_name eo)"
proof -
  obtain x y d z where st: "st = (x, y, d, z)" by (cases st)
  show ?thesis unfolding st by (cases x; cases y; cases eo) (auto simp: check_error_fields_eq)
qed

lemma decode_error_Inr:
  "decode_error b = Inr eo \<longleftrightarrow>
     (\<exists>ps. decode b = Inr (M ps) \<and> name_agrees (eo_code eo) (eo_name eo) \<and>
        rfold error_step (None, None, [], None) ps = Inr (Some (eo_code eo), Some (eo_name eo), eo_detail eo, eo_subject eo))"
  by (auto simp: decode_error_def rbind_eq_Inr check_error_fields_Inr split: sum.splits cbor.splits)

lemma error_steps_Inl: "rfold error_step st ps = Inl e \<Longrightarrow> e = EnvelopeError ''Malformed''"
proof (induction ps arbitrary: st)
  case (Cons p ps)
  then show ?case
    by (auto simp: rbind_eq_Inl error_step_def split: prod.splits cbor.splits if_splits)
qed simp

lemma check_error_fields_Inl: "check_error_fields st = Inl e \<Longrightarrow> e = EnvelopeError ''Malformed''"
  by (auto simp: check_error_fields_def split: prod.splits option.splits if_splits)

lemma decode_error_Inl: "decode_error b = Inl e \<Longrightarrow> e = EnvelopeError ''Malformed''"
  by (auto simp: decode_error_def rbind_eq_Inl dest: error_steps_Inl check_error_fields_Inl split: sum.splits cbor.splits)

lemma decode_error_iff:
  "decode_error b = Inr eo \<longleftrightarrow> name_agrees (eo_code eo) (eo_name eo) \<and>
     (\<exists>d. encode (M (error_body (eo_code eo) (eo_name eo) d (eo_subject eo))) = Inr b \<and> text_of d = eo_detail eo)"
proof
  assume "decode_error b = Inr eo"
  then obtain ps where d: "decode b = Inr (M ps)" and n: "name_agrees (eo_code eo) (eo_name eo)"
    and f: "rfold error_step (None, None, [], None) ps = Inr (Some (eo_code eo), Some (eo_name eo), eo_detail eo, eo_subject eo)"
    unfolding decode_error_Inr by blast
  obtain x where "ps = error_body (eo_code eo) (eo_name eo) x (eo_subject eo)" "text_of x = eo_detail eo"
    using error_body_exact [OF decoded_map [OF d] f] by blast
  then show "name_agrees (eo_code eo) (eo_name eo) \<and>
     (\<exists>d. encode (M (error_body (eo_code eo) (eo_name eo) d (eo_subject eo))) = Inr b \<and> text_of d = eo_detail eo)"
    using n cbor_codec.enc_dec [OF d] by blast
next
  assume "name_agrees (eo_code eo) (eo_name eo) \<and>
     (\<exists>d. encode (M (error_body (eo_code eo) (eo_name eo) d (eo_subject eo))) = Inr b \<and> text_of d = eo_detail eo)"
  then show "decode_error b = Inr eo" unfolding decode_error_Inr using decode_error_body error_body_read by metis
qed

section \<open>Properties of the error registry\<close>

text \<open>The table is a bijection between the codes 1 to 132 and their names: looking a code up and looking its name up
  are inverse to each other, and code 0 and every code past the table are unregistered. All codes
  lie in the standards range.\<close>

theorem registry_bijective:
  "(name_for_code c = (n, True) \<longleftrightarrow> code_for_name n = (c, True)) \<and>
   (snd (name_for_code c) \<longleftrightarrow> c \<in> {1..132}) \<and> (snd (name_for_code c) \<longrightarrow> 0 < c \<and> c \<le> STANDARDS_MAX) \<and>
   (\<not> snd (name_for_code c) \<longrightarrow> name_for_code c = ([], False)) \<and> (\<not> snd (code_for_name n) \<longrightarrow> code_for_name n = (0, False))"
proof -
  have "name_for_code c = (n, True) \<longleftrightarrow> code_for_name n = (c, True)"
    unfolding name_for_code_registered code_for_name_registered ..
  then show ?thesis by (auto simp: name_for_code_def length_NAMES STANDARDS_MAX_def code_for_name_def split: option.splits)
qed

theorem registry_bijective_witness:
  "name_for_code 3 = (pystr ''Malformed'', True) \<and> code_for_name (pystr ''Malformed'') = (3, True) \<and> name_for_code 133 = ([], False)"
proof -
  have "name_for_code 3 = (pystr ''Malformed'', True)" by code_simp
  moreover have "\<not> snd (name_for_code 133)" using registry_bijective [of 133] by simp
  ultimately show ?thesis using registry_bijective [of 3 "pystr ''Malformed''"] registry_bijective [of 133] by blast
qed

text \<open>The error object: a byte string decodes to an object exactly when it is the deterministic encoding of its code, name,
  optional detail and optional subject, and its name is the registered one when its code is registered; an
  unregistered code keeps any name. Everything else is refused as malformed. What the writer
  produces for an agreeing pair reads back to the same four values.\<close>

theorem error_object_exact:
  "(decode_error b = Inr eo \<longleftrightarrow> name_agrees (eo_code eo) (eo_name eo) \<and>
      (\<exists>d. encode (M (error_body (eo_code eo) (eo_name eo) d (eo_subject eo))) = Inr b \<and> text_of d = eo_detail eo)) \<and>
   (decode_error b = Inl e \<longrightarrow> e = EnvelopeError ''Malformed'') \<and>
   (encode_error code name detail subject = Inr b \<longrightarrow>
      decode_error b = (if name_agrees code name then Inr \<lparr>eo_code = code, eo_name = name, eo_detail = detail, eo_subject = subject\<rparr>
        else Inl (EnvelopeError ''Malformed'')))"
proof -
  have "decode_error b = (if name_agrees code name then Inr \<lparr>eo_code = code, eo_name = name, eo_detail = detail, eo_subject = subject\<rparr>
        else Inl (EnvelopeError ''Malformed''))" if "encode_error code name detail subject = Inr b"
  proof -
    let ?d = "if detail = [] then None else Some detail"
    have "decode b = Inr (M (error_body code name ?d subject))" using that decode_error_body by (simp only: encode_error_body)
    then show ?thesis by (simp add: decode_error_def error_body_read check_error_fields_eq text_of_def)
  qed
  then show ?thesis using decode_error_iff decode_error_Inl by blast
qed

theorem error_object_exact_witness:
  "\<exists>b. encode_error 3 (pystr ''Other'') [] None = Inr b \<and> decode_error b = Inl (EnvelopeError ''Malformed'') \<and>
     (\<exists>b'. encode_error 200 (pystr ''Later'') [] (Some [7]) = Inr b' \<and>
        decode_error b' = Inr \<lparr>eo_code = 200, eo_name = pystr ''Later'', eo_detail = [], eo_subject = Some [7]\<rparr>)"
proof -
  have "is_ok (encode_error 3 (pystr ''Other'') [] None)" "is_ok (encode_error 200 (pystr ''Later'') [] (Some [7]))" by code_simp+
  then obtain b b' where e: "encode_error 3 (pystr ''Other'') [] None = Inr b" "encode_error 200 (pystr ''Later'') [] (Some [7]) = Inr b'"
    by (auto simp: is_ok_iff)
  have "name_for_code 3 = (pystr ''Malformed'', True)" "name_for_code 200 = ([], False)" by code_simp+
  then have "\<not> name_agrees 3 (pystr ''Other'')" "name_agrees 200 (pystr ''Later'')" by (simp_all add: name_agrees_iff pystr_eq)
  then show ?thesis
    using e error_object_exact [of b undefined undefined 3 "pystr ''Other''" "[]" None]
      error_object_exact [of b' undefined undefined 200 "pystr ''Later''" "[]" "Some [7]"] by simp
qed

end
