(* ===== verification/Gateway.thy ===== *)
theory Gateway
  imports Signed Policy
begin

text \<open>
  Gateway evidence (\<^verbatim>\<open>impl/python/naalp/gateway.py\<close>, first half and the egress part): the portable decision
  object, the ordering disclosure and the foreign-profile pin embedded in it, and the egress attestation
  with its hiding commitment. Decision records and checkpoints are in theory \<open>Evidence\<close>.
\<close>

section \<open>Closed sets\<close>

definition DECISION_ALLOW :: int where "DECISION_ALLOW = 0"
definition DECISION_DENY :: int where "DECISION_DENY = 1"
definition DECISION_HOLD :: int where "DECISION_HOLD = 2"

definition DECISION_NAMES :: "(int \<times> string) list" where
  "DECISION_NAMES = [(DECISION_ALLOW, ''allow''), (DECISION_DENY, ''deny''), (DECISION_HOLD, ''hold'')]"

definition is_known_decision :: "int \<Rightarrow> bool" where
  "is_known_decision code \<longleftrightarrow> code \<in> set (map fst DECISION_NAMES)"

definition decision_name :: "int \<Rightarrow> string" where
  "decision_name code = (case map_of DECISION_NAMES code of Some n \<Rightarrow> n | None \<Rightarrow> ''unknown'')"

definition ORDERING_CORRESPONDENCE_ONLY :: int where "ORDERING_CORRESPONDENCE_ONLY = 0"
definition ORDERING_SINGLE_BOUNDARY :: int where "ORDERING_SINGLE_BOUNDARY = 1"
definition ORDERING_EXTERNAL_MECHANISM :: int where "ORDERING_EXTERNAL_MECHANISM = 2"

definition ORDERING_BASIS_NAMES :: "(int \<times> string) list" where
  "ORDERING_BASIS_NAMES =
     [(ORDERING_CORRESPONDENCE_ONLY, ''correspondence-only''), (ORDERING_SINGLE_BOUNDARY, ''single-boundary''),
      (ORDERING_EXTERNAL_MECHANISM, ''external-mechanism'')]"

definition is_known_ordering_basis :: "int \<Rightarrow> bool" where
  "is_known_ordering_basis code \<longleftrightarrow> code \<in> set (map fst ORDERING_BASIS_NAMES)"

definition ordering_basis_name :: "int \<Rightarrow> string" where
  "ordering_basis_name code = (case map_of ORDERING_BASIS_NAMES code of Some n \<Rightarrow> n | None \<Rightarrow> ''unknown'')"

definition BINDING_CONTENT_BOUND :: int where "BINDING_CONTENT_BOUND = 0"
definition BINDING_CONTENT_FREE :: int where "BINDING_CONTENT_FREE = 1"

definition BINDING_NAMES :: "(int \<times> string) list" where
  "BINDING_NAMES = [(BINDING_CONTENT_BOUND, ''content_bound''), (BINDING_CONTENT_FREE, ''content_free'')]"

definition is_known_binding :: "int \<Rightarrow> bool" where
  "is_known_binding code \<longleftrightarrow> code \<in> set (map fst BINDING_NAMES)"

definition binding_name :: "int \<Rightarrow> string" where
  "binding_name code = (case map_of BINDING_NAMES code of Some n \<Rightarrow> n | None \<Rightarrow> ''unknown'')"

lemmas decision_defs = DECISION_ALLOW_def DECISION_DENY_def DECISION_HOLD_def DECISION_NAMES_def is_known_decision_def
lemmas ordering_defs = ORDERING_CORRESPONDENCE_ONLY_def ORDERING_SINGLE_BOUNDARY_def ORDERING_EXTERNAL_MECHANISM_def
  ORDERING_BASIS_NAMES_def is_known_ordering_basis_def
lemmas binding_defs = BINDING_CONTENT_BOUND_def BINDING_CONTENT_FREE_def BINDING_NAMES_def is_known_binding_def

section \<open>Ordering disclosures\<close>

record ordering_disclosure =
  od_basis :: int
  od_boundary :: bytes
  od_mechanism :: bytes
  od_relation :: bytes

definition nonempty_field :: "int \<Rightarrow> bytes \<Rightarrow> (cbor \<times> cbor) list" where
  "nonempty_field k b = (if b \<noteq> [] then [(U k, B b)] else [])"

definition ordering_value :: "ordering_disclosure \<Rightarrow> cbor" where
  "ordering_value od =
     M ([(U 1, U (od_basis od))] @ nonempty_field 2 (od_boundary od) @ nonempty_field 3 (od_mechanism od) @ nonempty_field 4 (od_relation od))"

definition validate_ordering :: "ordering_disclosure \<Rightarrow> unit res" where
  "validate_ordering od =
     (if \<not> is_known_ordering_basis (od_basis od) then Inl (GatewayError ''UnknownOrderingBasis'')
      else if od_basis od = ORDERING_CORRESPONDENCE_ONLY then
        if od_boundary od \<noteq> [] \<or> od_mechanism od \<noteq> [] \<or> od_relation od \<noteq> [] then Inl (GatewayError ''OrderingDisclosureMalformed'') else Inr ()
      else if od_basis od = ORDERING_SINGLE_BOUNDARY then
        if od_boundary od = [] \<or> od_mechanism od \<noteq> [] \<or> od_relation od \<noteq> [] then Inl (GatewayError ''OrderingDisclosureMalformed'') else Inr ()
      else if od_basis od = ORDERING_EXTERNAL_MECHANISM then
        if od_boundary od \<noteq> [] \<or> od_mechanism od = [] then Inl (GatewayError ''OrderingDisclosureMalformed'') else Inr ()
      else Inr ())"

definition correspondence_only :: ordering_disclosure where
  "correspondence_only = \<lparr>od_basis = ORDERING_CORRESPONDENCE_ONLY, od_boundary = [], od_mechanism = [], od_relation = []\<rparr>"

text \<open>An optional byte string: absent reads as empty, a value of another type fails the decode.\<close>

definition opt_bstr :: "(cbor \<times> cbor) list \<Rightarrow> int \<Rightarrow> bytes option" where
  "opt_bstr m k = (case map_field m k of None \<Rightarrow> Some [] | Some (B b) \<Rightarrow> Some b | _ \<Rightarrow> None)"

definition ordering_from_value :: "cbor \<Rightarrow> ordering_disclosure option" where
  "ordering_from_value v =
     (case v of
        M m \<Rightarrow>
          (case (uint_field m 1, opt_bstr m 2, opt_bstr m 3, opt_bstr m 4) of
             (Some basis, Some boundary, Some mechanism, Some relation) \<Rightarrow>
               Some \<lparr>od_basis = basis, od_boundary = boundary, od_mechanism = mechanism, od_relation = relation\<rparr>
           | _ \<Rightarrow> None)
      | _ \<Rightarrow> None)"

section \<open>Foreign-profile pins\<close>

record foreign_profile_pin =
  fp_id :: pystr
  fp_revision :: pystr
  fp_unknown_field :: bool

definition foreign_profile_value :: "foreign_profile_pin \<Rightarrow> cbor" where
  "foreign_profile_value fp = M [(U 1, T (fp_id fp)), (U 2, T (fp_revision fp))]"

definition validate_foreign_profile :: "foreign_profile_pin \<Rightarrow> unit res" where
  "validate_foreign_profile fp =
     (if fp_id fp = [] \<or> fp_revision fp = [] \<or> fp_unknown_field fp then Inl (GatewayError ''ForeignProfileMalformed'') else Inr ())"

definition opt_tstr :: "(cbor \<times> cbor) list \<Rightarrow> int \<Rightarrow> pystr option" where
  "opt_tstr m k = (case map_field m k of None \<Rightarrow> Some [] | Some (T t) \<Rightarrow> Some t | _ \<Rightarrow> None)"

definition foreign_profile_from_value :: "cbor \<Rightarrow> foreign_profile_pin option" where
  "foreign_profile_from_value v =
     (case v of
        M m \<Rightarrow>
          (case (opt_tstr m 1, opt_tstr m 2) of
             (Some i, Some revn) \<Rightarrow>
               Some \<lparr>fp_id = i, fp_revision = revn, fp_unknown_field = (\<exists>p \<in> set m. fst p \<noteq> U 1 \<and> fst p \<noteq> U 2)\<rparr>
           | _ \<Rightarrow> None)
      | _ \<Rightarrow> None)"

section \<open>Decisions\<close>

record gateway_decision =
  gd_decision :: int
  gd_action :: bytes
  gd_policy :: bytes
  gd_effect :: int
  gd_ordering :: "ordering_disclosure option"
  gd_foreign_profile :: "foreign_profile_pin option"

definition decision_bytes :: "gateway_decision \<Rightarrow> bytes res" where
  "decision_bytes d =
     encode (M ([(U 1, U (gd_decision d)), (U 2, B (gd_action d)), (U 3, B (gd_policy d)), (U 4, U (gd_effect d))] @
       opt_field 5 (map_option ordering_value (gd_ordering d)) @ opt_field 6 (map_option foreign_profile_value (gd_foreign_profile d))))"

definition decision_head :: "prims \<Rightarrow> gateway_decision \<Rightarrow> bytes res" where
  "decision_head P d = rbind (decision_bytes d) (\<lambda>b. Inr (sha384 P b))"

definition decision_id :: "prims \<Rightarrow> gateway_decision \<Rightarrow> bytes res" where
  "decision_id P d = rbind (decision_bytes d) (\<lambda>b. Inr (content_id_bytes (sha384 P) b))"

definition decision_effect_class :: "gateway_decision \<Rightarrow> int" where
  "decision_effect_class d = normalize_effect (gd_effect d)"

text \<open>An optional embedded group: absent is allowed, a present one must decode.\<close>

definition opt_group :: "exn \<Rightarrow> (cbor \<Rightarrow> 'a option) \<Rightarrow> cbor option \<Rightarrow> 'a option res" where
  "opt_group e f v = (case v of None \<Rightarrow> Inr None | Some w \<Rightarrow> (case f w of None \<Rightarrow> Inl e | Some x \<Rightarrow> Inr (Some x)))"

definition parse_decision :: "bytes \<Rightarrow> gateway_decision res" where
  "parse_decision b =
     rbind (decode_map (GatewayError ''GwMalformed'') b) (\<lambda>m.
       case (uint_field m 1, bstr_field m 2, bstr_field m 3, uint_field m 4) of
         (Some dcn, Some action, Some pol, Some eff) \<Rightarrow>
           rbind (opt_group (GatewayError ''GwMalformed'') ordering_from_value (map_field m 5)) (\<lambda>od.
             rbind (opt_group (GatewayError ''GwMalformed'') foreign_profile_from_value (map_field m 6)) (\<lambda>fp.
               Inr \<lparr>gd_decision = dcn, gd_action = action, gd_policy = pol, gd_effect = eff, gd_ordering = od, gd_foreign_profile = fp\<rparr>))
       | _ \<Rightarrow> Inl (GatewayError ''GwMalformed''))"

definition sign_decision :: "prims \<Rightarrow> gateway_decision \<Rightarrow> int \<Rightarrow> bytes \<Rightarrow> bytes res" where
  "sign_decision P d alg seed = sign_body P alg seed (decision_bytes d)"

record resolved_decision =
  rd_decision :: int
  rd_action :: bytes
  rd_policy :: bytes
  rd_effect :: int

definition opt_validate :: "('a \<Rightarrow> unit res) \<Rightarrow> 'a option \<Rightarrow> unit res" where
  "opt_validate f x = (case x of None \<Rightarrow> Inr () | Some y \<Rightarrow> f y)"

definition verify_decision :: "prims \<Rightarrow> bytes \<Rightarrow> int \<Rightarrow> int \<Rightarrow> bytes \<Rightarrow> resolved_decision res" where
  "verify_decision P ob prof alg pubkey =
     rbind (verify_sign1 GatewayError ''GwMalformed'' P ob prof alg pubkey) (\<lambda>payload.
       rbind (parse_decision payload) (\<lambda>d.
         if \<not> is_known_decision (gd_decision d) then Inl (GatewayError ''UnknownGatewayDecision'')
         else rbind (opt_validate validate_ordering (gd_ordering d)) (\<lambda>_.
           rbind (opt_validate validate_foreign_profile (gd_foreign_profile d)) (\<lambda>_.
             Inr \<lparr>rd_decision = gd_decision d, rd_action = gd_action d, rd_policy = gd_policy d, rd_effect = normalize_effect (gd_effect d)\<rparr>))))"

section \<open>Egress attestations\<close>

record egress_attestation =
  ea_binding :: int
  ea_digest :: bytes
  ea_effect :: int
  ea_audience :: bytes
  ea_at :: int
  ea_ordering :: "ordering_disclosure option"

definition egress_bytes :: "egress_attestation \<Rightarrow> bytes res" where
  "egress_bytes a =
     encode (M ([(U 1, U (ea_binding a)), (U 2, B (ea_digest a)), (U 3, U (ea_effect a)), (U 4, B (ea_audience a)), (U 5, U (ea_at a))] @
       opt_field 6 (map_option ordering_value (ea_ordering a))))"

definition egress_head :: "prims \<Rightarrow> egress_attestation \<Rightarrow> bytes res" where
  "egress_head P a = rbind (egress_bytes a) (\<lambda>b. Inr (sha384 P b))"

definition egress_id :: "prims \<Rightarrow> egress_attestation \<Rightarrow> bytes res" where
  "egress_id P a = rbind (egress_bytes a) (\<lambda>b. Inr (content_id_bytes (sha384 P) b))"

definition egress_effect_class :: "egress_attestation \<Rightarrow> int" where
  "egress_effect_class a = normalize_effect (ea_effect a)"

definition parse_egress_attestation :: "bytes \<Rightarrow> egress_attestation res" where
  "parse_egress_attestation b =
     rbind (decode_map (GatewayError ''EgMalformed'') b) (\<lambda>m.
       case (uint_field m 1, bstr_field m 2, uint_field m 3, bstr_field m 4, uint_field m 5) of
         (Some bnd, Some digest, Some eff, Some aud, Some at) \<Rightarrow>
           rbind (opt_group (GatewayError ''EgMalformed'') ordering_from_value (map_field m 6)) (\<lambda>od.
             Inr \<lparr>ea_binding = bnd, ea_digest = digest, ea_effect = eff, ea_audience = aud, ea_at = at, ea_ordering = od\<rparr>)
       | _ \<Rightarrow> Inl (GatewayError ''EgMalformed''))"

definition sign_egress_attestation :: "prims \<Rightarrow> egress_attestation \<Rightarrow> int \<Rightarrow> bytes \<Rightarrow> bytes res" where
  "sign_egress_attestation P a alg seed = sign_body P alg seed (egress_bytes a)"

definition validate_egress_attestation :: "egress_attestation \<Rightarrow> unit res" where
  "validate_egress_attestation a =
     (if \<not> is_known_binding (ea_binding a) then Inl (GatewayError ''UnknownEgressBinding'')
      else opt_validate validate_ordering (ea_ordering a))"

text \<open>The resolved attestation has the fields of the attestation, with the effect normalised.\<close>

definition verify_egress_attestation :: "prims \<Rightarrow> bytes \<Rightarrow> int \<Rightarrow> int \<Rightarrow> bytes \<Rightarrow> egress_attestation res" where
  "verify_egress_attestation P ob prof alg pubkey =
     rbind (verify_sign1 GatewayError ''GwMalformed'' P ob prof alg pubkey) (\<lambda>payload.
       rbind (parse_egress_attestation payload) (\<lambda>a.
         rbind (validate_egress_attestation a) (\<lambda>_. Inr (a\<lparr>ea_effect := normalize_effect (ea_effect a)\<rparr>))))"

definition egress_commit :: "prims \<Rightarrow> bytes \<Rightarrow> bytes \<Rightarrow> bytes" where
  "egress_commit P object_cid salt = sha384 P (object_cid @ salt)"

definition open_egress_commitment :: "prims \<Rightarrow> egress_attestation \<Rightarrow> bytes \<Rightarrow> bytes \<Rightarrow> bool" where
  "open_egress_commitment P a object_cid salt =
     (if ea_binding a \<noteq> BINDING_CONTENT_FREE then False
      else let want = egress_commit P object_cid salt in
        if length want \<noteq> length (ea_digest a) then False else want = ea_digest a)"

section \<open>Groups and bodies\<close>

lemma known_sets:
  "is_known_decision c \<longleftrightarrow> c \<in> {0, 1, 2}" "is_known_ordering_basis c \<longleftrightarrow> c \<in> {0, 1, 2}" "is_known_binding c \<longleftrightarrow> c \<in> {0, 1}"
  by (auto simp: decision_defs ordering_defs binding_defs)

lemma ordering_pairs_asc: "asc_keys ([(U 1, U n)] @ nonempty_field 2 x @ nonempty_field 3 y @ nonempty_field 4 z)"
  by (simp add: nonempty_field_def)

lemma ordering_facts: "canon (ordering_value od) = ordering_value od" "nesting (ordering_value od) \<le> 2"
proof -
  show "canon (ordering_value od) = ordering_value od"
    unfolding ordering_value_def by (rule map_facts(1) [OF ordering_pairs_asc, where k = 1]) (auto simp: nonempty_field_def split: if_splits)
  have "nesting (ordering_value od) \<le> Suc 1"
    unfolding ordering_value_def by (rule map_facts(2) [OF ordering_pairs_asc]) (auto simp: nonempty_field_def split: if_splits)
  then show "nesting (ordering_value od) \<le> 2" by simp
qed

lemma read_ordering [simp]: "ordering_from_value (ordering_value od) = Some od"
  by (cases od) (simp add: ordering_from_value_def ordering_value_def nonempty_field_def opt_bstr_def map_read_defs)

lemma foreign_profile_facts: "canon (foreign_profile_value fp) = foreign_profile_value fp" "nesting (foreign_profile_value fp) \<le> 2"
  unfolding foreign_profile_value_def by (rule map_facts(1) [where k = 1]; auto) simp

lemma read_foreign_profile: "\<not> fp_unknown_field fp \<Longrightarrow> foreign_profile_from_value (foreign_profile_value fp) = Some fp"
  by (cases fp) (simp add: foreign_profile_from_value_def foreign_profile_value_def opt_tstr_def map_read_defs)

lemma opt_group_map: "(\<And>y. x = Some y \<Longrightarrow> f (g y) = Some y) \<Longrightarrow> opt_group e f (map_option g x) = Inr x"
  by (cases x) (auto simp: opt_group_def)

definition decision_wf :: "gateway_decision \<Rightarrow> bool" where
  "decision_wf d \<longleftrightarrow> (\<forall>fp. gd_foreign_profile d = Some fp \<longrightarrow> \<not> fp_unknown_field fp)"

lemma parse_decision_bytes:
  assumes "decision_wf d" and "decision_bytes d = Inr b"
  shows "parse_decision b = Inr d"
proof -
  let ?ps = "[(U 1, U (gd_decision d)), (U 2, B (gd_action d)), (U 3, B (gd_policy d)), (U 4, U (gd_effect d))] @
       opt_field 5 (map_option ordering_value (gd_ordering d)) @ opt_field 6 (map_option foreign_profile_value (gd_foreign_profile d))"
  have dec: "decode b = Inr (M ?ps)"
  proof (rule decode_fields [OF assms(2) [unfolded decision_bytes_def]])
    show "asc_keys ?ps" by (cases "gd_ordering d"; cases "gd_foreign_profile d") simp_all
    have "nesting (ordering_value od) \<le> 64" "nesting (foreign_profile_value fp) \<le> 64" for od fp
      using ordering_facts(2) [of od] foreign_profile_facts(2) [of fp] by linarith+
    then show "\<forall>p \<in> set ?ps. canon (snd p) = snd p \<and> nesting (snd p) \<le> 64"
      by (auto simp: set_opt_field ordering_facts(1) foreign_profile_facts(1))
  qed
  have "map_field ?ps 5 = map_option ordering_value (gd_ordering d)" "map_field ?ps 6 = map_option foreign_profile_value (gd_foreign_profile d)"
    by (cases "gd_ordering d"; cases "gd_foreign_profile d"; simp add: map_field_def)+
  moreover have "opt_group e ordering_from_value (map_option ordering_value (gd_ordering d)) = Inr (gd_ordering d)"
    "opt_group e foreign_profile_from_value (map_option foreign_profile_value (gd_foreign_profile d)) = Inr (gd_foreign_profile d)" for e
    by (rule opt_group_map; use assms(1) in \<open>simp add: read_foreign_profile decision_wf_def\<close>)+
  ultimately show ?thesis
    by (simp add: parse_decision_def decode_map_def dec uint_field_def bstr_field_def del: append.simps opt_field_simps)
      (simp add: map_field_def)
qed

interpretation decision_body: signed_body decision_bytes parse_decision decision_wf
  by unfold_locales (rule parse_decision_bytes)

lemma parse_egress_bytes:
  assumes "egress_bytes a = Inr b"
  shows "parse_egress_attestation b = Inr a"
proof -
  let ?ps = "[(U 1, U (ea_binding a)), (U 2, B (ea_digest a)), (U 3, U (ea_effect a)), (U 4, B (ea_audience a)), (U 5, U (ea_at a))] @
       opt_field 6 (map_option ordering_value (ea_ordering a))"
  have dec: "decode b = Inr (M ?ps)"
  proof (rule decode_fields [OF assms [unfolded egress_bytes_def]])
    show "asc_keys ?ps" by (cases "ea_ordering a") simp_all
    have "nesting (ordering_value od) \<le> 64" for od using ordering_facts(2) [of od] by linarith
    then show "\<forall>p \<in> set ?ps. canon (snd p) = snd p \<and> nesting (snd p) \<le> 64"
      by (auto simp: set_opt_field ordering_facts(1))
  qed
  have "map_field ?ps 6 = map_option ordering_value (ea_ordering a)" by (cases "ea_ordering a"; simp add: map_field_def)
  moreover have "opt_group e ordering_from_value (map_option ordering_value (ea_ordering a)) = Inr (ea_ordering a)" for e
    by (rule opt_group_map) simp
  ultimately show ?thesis
    by (simp add: parse_egress_attestation_def decode_map_def dec uint_field_def bstr_field_def del: append.simps opt_field_simps)
      (simp add: map_field_def)
qed

interpretation egress_body: signed_body egress_bytes parse_egress_attestation "\<lambda>_. True"
  by unfold_locales (rule parse_egress_bytes)

section \<open>What the validators accept\<close>

definition ordering_ok :: "ordering_disclosure \<Rightarrow> bool" where
  "ordering_ok od \<longleftrightarrow>
     od_basis od = 0 \<and> od_boundary od = [] \<and> od_mechanism od = [] \<and> od_relation od = [] \<or>
     od_basis od = 1 \<and> od_boundary od \<noteq> [] \<and> od_mechanism od = [] \<and> od_relation od = [] \<or>
     od_basis od = 2 \<and> od_boundary od = [] \<and> od_mechanism od \<noteq> []"

lemma validate_ordering_Inr: "validate_ordering od = Inr u \<longleftrightarrow> ordering_ok od"
  by (auto simp: validate_ordering_def ordering_ok_def known_sets ordering_defs)

lemma opt_validate_Inr: "opt_validate f x = Inr u \<longleftrightarrow> (\<forall>y. x = Some y \<longrightarrow> f y = Inr ())"
  by (cases x) (auto simp: opt_validate_def)

definition decision_ok :: "gateway_decision \<Rightarrow> bool" where
  "decision_ok d \<longleftrightarrow> gd_decision d \<in> {0, 1, 2} \<and> (\<forall>od. gd_ordering d = Some od \<longrightarrow> ordering_ok od) \<and>
     (\<forall>fp. gd_foreign_profile d = Some fp \<longrightarrow> fp_id fp \<noteq> [] \<and> fp_revision fp \<noteq> [] \<and> \<not> fp_unknown_field fp)"

definition resolved_of :: "gateway_decision \<Rightarrow> resolved_decision" where
  "resolved_of d =
     \<lparr>rd_decision = gd_decision d, rd_action = gd_action d, rd_policy = gd_policy d, rd_effect = normalize_effect (gd_effect d)\<rparr>"

lemma verify_decision_Inr:
  "verify_decision P ob prof alg pk = Inr r \<longleftrightarrow>
     (\<exists>payload d. verify_sign1 GatewayError ''GwMalformed'' P ob prof alg pk = Inr payload \<and> parse_decision payload = Inr d \<and>
        decision_ok d \<and> r = resolved_of d)"
  by (auto simp: verify_decision_def rbind_eq_Inr if_Inl_eq_Inr opt_validate_Inr validate_ordering_Inr known_sets decision_ok_def
      resolved_of_def validate_foreign_profile_def)

section \<open>Properties of gateway evidence\<close>

text \<open>A gateway decision verifies, for bytes from any host, exactly when an object signed under the verifier's algorithm at
  the profile's level carries a body that parses to a decision of the closed set whose disclosure and pin are well
  formed; the resolved evidence is that body's, with an effect in the lattice. What a gateway signs
  verifies to itself exactly when the decision is well formed.\<close>

theorem gateway_decision_exact:
  assumes "md_correct P" and "md_key_derive P alg seed = Inr (pk, sk)" and "profile_min_level prof \<le> fst (alg_level alg)"
    and "decision_wf d" and "sign_decision P d alg seed = Inr ob"
  shows "(verify_decision P ob prof alg pk = Inr r \<longleftrightarrow> decision_ok d \<and> r = resolved_of d) \<and>
    (verify_decision P ob' prof' alg' pk' = Inr r' \<longrightarrow>
      (\<exists>prot payload sig tbs d'. parse_sign1_raw ob' = Inr (prot, payload, sig) \<and> to_be_signed_raw prot payload = Inr tbs \<and>
        cose_verify1_raw P alg' pk' tbs sig = Inr True \<and> profile_min_level prof' \<le> fst (alg_level alg') \<and>
        parse_decision payload = Inr d' \<and> decision_ok d' \<and> r' = resolved_of d' \<and> rd_effect r' \<in> {0..3}))"
proof -
  have "rbind (verify_sign1 GatewayError ''GwMalformed'' P ob prof alg pk) parse_decision = Inr d"
    by (rule decision_body.sign1_roundtrip [OF assms(1) assms(5) [unfolded sign_decision_def] assms(2,3,4)])
  then have "verify_decision P ob prof alg pk = Inr r \<longleftrightarrow> decision_ok d \<and> r = resolved_of d"
    unfolding verify_decision_Inr by (auto simp: rbind_eq_Inr)
  then show ?thesis unfolding verify_decision_Inr verify_sign1_iff
    using normalize_effect_range by (fastforce simp: resolved_of_def)
qed

definition sample_decision :: gateway_decision where
  "sample_decision = \<lparr>gd_decision = 2, gd_action = [1], gd_policy = [2], gd_effect = 9,
     gd_ordering = Some \<lparr>od_basis = 1, od_boundary = [4], od_mechanism = [], od_relation = []\<rparr>,
     gd_foreign_profile = Some \<lparr>fp_id = [117], fp_revision = [49], fp_unknown_field = False\<rparr>\<rparr>"

theorem gateway_decision_exact_witness:
  "\<exists>ob. sign_decision sample_prims sample_decision ALG_MLDSA65 [7] = Inr ob \<and>
     verify_decision sample_prims ob PROFILE_PUBLIC ALG_MLDSA65 [7] =
       Inr \<lparr>rd_decision = 2, rd_action = [1], rd_policy = [2], rd_effect = 3\<rparr>"
proof -
  have "is_ok (sign_decision sample_prims sample_decision ALG_MLDSA65 [7])" by code_simp
  then obtain ob where ob: "sign_decision sample_prims sample_decision ALG_MLDSA65 [7] = Inr ob" by (auto simp: is_ok_iff)
  have l: "profile_min_level PROFILE_PUBLIC \<le> fst (alg_level ALG_MLDSA65)" by (simp add: profile_min_level_def alg_level_def alg_defs profile_defs)
  have "decision_wf sample_decision" "decision_ok sample_decision"
    by (simp_all add: decision_wf_def decision_ok_def ordering_ok_def sample_decision_def)
  moreover have "resolved_of sample_decision = \<lparr>rd_decision = 2, rd_action = [1], rd_policy = [2], rd_effect = 3\<rparr>"
    by (simp add: resolved_of_def sample_decision_def normalize_effect_def effect_defs)
  ultimately show ?thesis
    using gateway_decision_exact [OF sample_prims_correct(1) sample_prims_sel(4) l _ ob] ob by metis
qed

text \<open>The disclosure's rules speak of absent keys, but the code tests for empty values: this group claims
  correspondence only, carries a boundary key all the same, and is accepted.\<close>

theorem empty_boundary_accepted:
  "\<exists>od. ordering_from_value (M [(U 1, U 0), (U 2, B [])]) = Some od \<and> validate_ordering od = Inr () \<and>
     ordering_value od \<noteq> M [(U 1, U 0), (U 2, B [])]"
  by (simp add: ordering_from_value_def opt_bstr_def map_read_defs validate_ordering_def ordering_value_def nonempty_field_def known_sets ordering_defs)

text \<open>Egress attestations. A signed one verifies to itself, with its effect normalised, exactly when its binding is known and its
  disclosure well formed. A commitment opens exactly for a content-free attestation whose digest is that of the content id
  followed by the salt; so among content ids of one length the opening determines both, unless the digest collides.\<close>

theorem egress_attestation_exact:
  assumes "md_correct P" and "md_key_derive P alg seed = Inr (pk, sk)" and "profile_min_level prof \<le> fst (alg_level alg)"
    and "sign_egress_attestation P a alg seed = Inr ob"
  shows "(verify_egress_attestation P ob prof alg pk = Inr r \<longleftrightarrow>
      ea_binding a \<in> {0, 1} \<and> (\<forall>od. ea_ordering a = Some od \<longrightarrow> ordering_ok od) \<and> r = a\<lparr>ea_effect := normalize_effect (ea_effect a)\<rparr>) \<and>
    (open_egress_commitment P a cid salt \<longleftrightarrow> ea_binding a = 1 \<and> ea_digest a = sha384 P (cid @ salt)) \<and>
    (open_egress_commitment P a cid salt \<longrightarrow> open_egress_commitment P a cid' salt' \<longrightarrow> length cid' = length cid \<longrightarrow>
      inj_on (sha384 P) {cid @ salt, cid' @ salt'} \<longrightarrow> cid' = cid \<and> salt' = salt)"
proof -
  have "rbind (verify_sign1 GatewayError ''GwMalformed'' P ob prof alg pk) parse_egress_attestation = Inr a"
    by (rule egress_body.sign1_roundtrip [OF assms(1) assms(4) [unfolded sign_egress_attestation_def] assms(2,3)]) simp
  then have v: "verify_egress_attestation P ob prof alg pk = Inr r \<longleftrightarrow>
      ea_binding a \<in> {0, 1} \<and> (\<forall>od. ea_ordering a = Some od \<longrightarrow> ordering_ok od) \<and> r = a\<lparr>ea_effect := normalize_effect (ea_effect a)\<rparr>"
    by (auto simp: verify_egress_attestation_def validate_egress_attestation_def rbind_eq_Inr if_Inl_eq_Inr opt_validate_Inr
        validate_ordering_Inr known_sets)
  have o1: "open_egress_commitment P a c s \<longleftrightarrow> ea_binding a = 1 \<and> ea_digest a = sha384 P (c @ s)" for c s
    by (auto simp: open_egress_commitment_def egress_commit_def binding_defs Let_def)
  have det: "cid' = cid \<and> salt' = salt" if "open_egress_commitment P a cid salt" "open_egress_commitment P a cid' salt'"
    "length cid' = length cid" "inj_on (sha384 P) {cid @ salt, cid' @ salt'}"
  proof -
    have "sha384 P (cid @ salt) = sha384 P (cid' @ salt')" using that(1,2) unfolding o1 by metis
    then have "cid @ salt = cid' @ salt'" by (rule inj_onD [OF that(4)]) simp_all
    then show ?thesis using that(3) by simp
  qed
  show ?thesis by (rule conjI [OF v conjI [OF o1]]) (intro impI, rule det)
qed

definition sample_egress :: "bytes \<Rightarrow> egress_attestation" where
  "sample_egress dg = \<lparr>ea_binding = 1, ea_digest = dg, ea_effect = 1, ea_audience = [], ea_at = 5, ea_ordering = None\<rparr>"

theorem egress_attestation_exact_witness:
  "\<exists>ob. sign_egress_attestation sample_prims (sample_egress [1, 2, 3]) ALG_MLDSA65 [7] = Inr ob \<and>
     verify_egress_attestation sample_prims ob PROFILE_PUBLIC ALG_MLDSA65 [7] = Inr (sample_egress [1, 2, 3]) \<and>
     open_egress_commitment sample_prims (sample_egress [1, 2, 3]) [1] [2, 3]"
proof -
  have "is_ok (sign_egress_attestation sample_prims (sample_egress [1, 2, 3]) ALG_MLDSA65 [7])" by code_simp
  then obtain ob where ob: "sign_egress_attestation sample_prims (sample_egress [1, 2, 3]) ALG_MLDSA65 [7] = Inr ob" by (auto simp: is_ok_iff)
  have l: "profile_min_level PROFILE_PUBLIC \<le> fst (alg_level ALG_MLDSA65)" by (simp add: profile_min_level_def alg_level_def alg_defs profile_defs)
  note x = egress_attestation_exact [OF sample_prims_correct(1) sample_prims_sel(4) l ob]
  have "verify_egress_attestation sample_prims ob PROFILE_PUBLIC ALG_MLDSA65 [7] = Inr (sample_egress [1, 2, 3])"
    using x [of "sample_egress [1, 2, 3]"] by (simp add: sample_egress_def normalize_effect_def)
  moreover have "open_egress_commitment sample_prims (sample_egress [1, 2, 3]) [1] [2, 3]"
    using x [of _ "[1]" "[2, 3]"] by (simp add: sample_egress_def)
  ultimately show ?thesis using ob by blast
qed

text \<open>The commitment has no length framing: moving the boundary between content id and salt opens it for another content id.\<close>

theorem commitment_boundary_shift:
  "ea_digest a = egress_commit P cid (x # salt) \<longrightarrow> ea_binding a = BINDING_CONTENT_FREE \<longrightarrow>
     open_egress_commitment P a cid (x # salt) \<and> open_egress_commitment P a (cid @ [x]) salt \<and> cid @ [x] \<noteq> cid"
  by (simp add: open_egress_commitment_def egress_commit_def)

end
