(* ===== verification/Merkle.thy ===== *)
theory Merkle
  imports Cose
begin

text \<open>
  The Merkle tree of checkpoints (\<^verbatim>\<open>impl/python/naalp/gateway.py\<close>, the RFC 9162 part): the tree hash of a list of
  leaves, the audit path of one leaf, and the recomputation that checks a path against a root.
\<close>

section \<open>The tree\<close>

definition leaf_hash :: "prims \<Rightarrow> bytes \<Rightarrow> bytes" where
  "leaf_hash P leaf = sha384 P (0x00 # leaf)"

definition node_hash :: "prims \<Rightarrow> bytes \<Rightarrow> bytes \<Rightarrow> bytes" where
  "node_hash P l r = sha384 P (0x01 # l @ r)"

text \<open>The loop doubles \<open>k\<close> from 1; that \<open>k\<close> is positive holds throughout and makes the recursion well-founded.\<close>

function double_while :: "int \<Rightarrow> int \<Rightarrow> int" where
  "double_while n k = (if 0 < k \<and> 2 * k < n then double_while n (2 * k) else k)"
  by auto
termination by (relation "measure (\<lambda>(n, k). nat (n - k))") auto

declare double_while.simps [simp del]

definition largest_power_of_two_less_than :: "int \<Rightarrow> int" where
  "largest_power_of_two_less_than n = double_while n 1"

lemma double_while_bounds:
  "0 < k \<Longrightarrow> k < n \<Longrightarrow> 0 < double_while n k \<and> double_while n k < n \<and> n \<le> 2 * double_while n k"
proof (induction n k rule: double_while.induct)
  case (1 n k)
  then show ?case by (subst (1 2 3) double_while.simps) auto
qed

lemma double_while_power: "\<exists>i. k = 2 ^ i \<Longrightarrow> \<exists>i. double_while n k = 2 ^ i"
proof (induction n k rule: double_while.induct)
  case (1 n k)
  from "1.prems" obtain i where "k = 2 ^ i" by blast
  then have "2 * k = 2 ^ Suc i" by simp
  then show ?case using "1.IH" "1.prems" by (subst double_while.simps) metis
qed

lemma split_point:
  assumes "2 \<le> n"
  shows "0 < largest_power_of_two_less_than n" and "largest_power_of_two_less_than n < n"
    and "n \<le> 2 * largest_power_of_two_less_than n" and "\<exists>i. largest_power_of_two_less_than n = 2 ^ i"
  unfolding largest_power_of_two_less_than_def
  using double_while_bounds [of 1 n] double_while_power [of 1 n, OF exI [of _ 0]] assms by auto

abbreviation split_at :: "bytes list \<Rightarrow> nat" where
  "split_at leaves \<equiv> nat (largest_power_of_two_less_than (int (length leaves)))"

lemma split_at_bounds: "length leaves \<noteq> 0 \<Longrightarrow> length leaves \<noteq> 1 \<Longrightarrow> 0 < split_at leaves \<and> split_at leaves < length leaves"
  using split_point(1,2) [of "int (length leaves)"] by linarith

function merkle_root :: "prims \<Rightarrow> bytes list \<Rightarrow> bytes" where
  "merkle_root P leaves =
     (if length leaves = 0 then sha384 P []
      else if length leaves = 1 then leaf_hash P (leaves ! 0)
      else node_hash P (merkle_root P (take (split_at leaves) leaves)) (merkle_root P (drop (split_at leaves) leaves)))"
  by auto
termination
  by (relation "measure (\<lambda>(P, leaves). length leaves)") (use split_at_bounds in auto)

declare merkle_root.simps [simp del]

function gen_path :: "prims \<Rightarrow> bytes list \<Rightarrow> int \<Rightarrow> bytes list" where
  "gen_path P leaves index =
     (if length leaves \<le> 1 then []
      else let k = largest_power_of_two_less_than (int (length leaves)) in
        if index < k then gen_path P (take (nat k) leaves) index @ [merkle_root P (drop (nat k) leaves)]
        else gen_path P (drop (nat k) leaves) (index - k) @ [merkle_root P (take (nat k) leaves)])"
  by auto
termination
proof (relation "measure (\<lambda>(P, leaves, index). length leaves)")
  fix P :: prims and leaves :: "bytes list" and index k :: int
  assume n: "\<not> length leaves \<le> 1" and k: "k = largest_power_of_two_less_than (int (length leaves))"
  have "0 < nat k \<and> nat k < length leaves" unfolding k by (rule split_at_bounds) (use n in linarith)+
  then show "((P, take (nat k) leaves, index), P, leaves, index) \<in> measure (\<lambda>(P, leaves, index). length leaves)"
    "((P, drop (nat k) leaves, index - k), P, leaves, index) \<in> measure (\<lambda>(P, leaves, index). length leaves)" by auto
qed auto

declare gen_path.simps [simp del]

definition generate_inclusion_proof_path :: "prims \<Rightarrow> bytes list \<Rightarrow> int \<Rightarrow> bytes list res" where
  "generate_inclusion_proof_path P leaves index =
     (if index < 0 \<or> index \<ge> int (length leaves) then Inl (GatewayError ''InclusionProofInvalid'')
      else Inr (gen_path P leaves index))"

text \<open>The recomputation; \<open>None\<close> is the internal exception for a path that is too short or too long.\<close>

function recompute_root :: "prims \<Rightarrow> bytes \<Rightarrow> int \<Rightarrow> int \<Rightarrow> bytes list \<Rightarrow> bytes option" where
  "recompute_root P leaf_h index tsize path =
     (if tsize = 1 then (if length path \<noteq> 0 then None else Some leaf_h)
      else if length path = 0 then None
      else let k = largest_power_of_two_less_than tsize; lst = last path; rest = butlast path in
        if index < k then (case recompute_root P leaf_h index k rest of None \<Rightarrow> None | Some l \<Rightarrow> Some (node_hash P l lst))
        else (case recompute_root P leaf_h (index - k) (tsize - k) rest of None \<Rightarrow> None | Some r \<Rightarrow> Some (node_hash P lst r)))"
  by auto
termination by (relation "measure (\<lambda>(P, h, i, s, path). length path)") auto

declare recompute_root.simps [simp del]

definition verify_inclusion_proof :: "prims \<Rightarrow> bytes \<Rightarrow> int \<Rightarrow> int \<Rightarrow> bytes list \<Rightarrow> bytes \<Rightarrow> unit res" where
  "verify_inclusion_proof P leaf index tsize path root =
     (if tsize = 0 \<or> index \<ge> tsize then Inl (GatewayError ''InclusionProofInvalid'')
      else case recompute_root P (leaf_hash P leaf) index tsize path of
        None \<Rightarrow> Inl (GatewayError ''InclusionProofInvalid'')
      | Some got \<Rightarrow> if got \<noteq> root then Inl (GatewayError ''InclusionProofInvalid'') else Inr ())"

section \<open>Splitting a list of leaves\<close>

text \<open>The shape shared by the tree, the paths and the recomputation: no leaf, one leaf, or two halves.\<close>

lemma leaves_cases:
  obtains "leaves = []" | d where "leaves = [d]"
  | k where "k = largest_power_of_two_less_than (int (length leaves))" and "2 \<le> length leaves" and "0 < k" and "k < int (length leaves)"
      and "length (take (nat k) leaves) = nat k" and "int (length (drop (nat k) leaves)) = int (length leaves) - k"
proof (cases "2 \<le> length leaves")
  case True
  then have b: "0 < largest_power_of_two_less_than (int (length leaves))" "largest_power_of_two_less_than (int (length leaves)) < int (length leaves)"
    using split_point(1,2) [of "int (length leaves)"] by simp_all
  show ?thesis by (rule that(3) [OF refl True b]) (use b in auto)
next
  case False
  then show ?thesis using that(1,2) by (cases leaves; cases "tl leaves") auto
qed

lemma merkle_root_simps [simp]:
  "merkle_root P [] = sha384 P []"
  "merkle_root P [d] = leaf_hash P d"
  by (simp_all add: merkle_root.simps)

lemma merkle_root_split:
  "2 \<le> length leaves \<Longrightarrow> merkle_root P leaves =
     node_hash P (merkle_root P (take (split_at leaves) leaves)) (merkle_root P (drop (split_at leaves) leaves))"
  by (subst merkle_root.simps) auto

lemma gen_path_simps [simp]: "gen_path P [] i = []" "gen_path P [d] i = []"
  by (simp_all add: gen_path.simps)

lemma gen_path_split:
  "2 \<le> length leaves \<Longrightarrow> k = largest_power_of_two_less_than (int (length leaves)) \<Longrightarrow> gen_path P leaves i =
     (if i < k then gen_path P (take (nat k) leaves) i @ [merkle_root P (drop (nat k) leaves)]
      else gen_path P (drop (nat k) leaves) (i - k) @ [merkle_root P (take (nat k) leaves)])"
  by (subst gen_path.simps) (simp add: Let_def)

lemma recompute_one: "recompute_root P h i 1 path = (if path = [] then Some h else None)"
  by (subst recompute_root.simps) simp

lemma recompute_split:
  "tsize \<noteq> 1 \<Longrightarrow> k = largest_power_of_two_less_than tsize \<Longrightarrow> recompute_root P h i tsize path =
     (if path = [] then None
      else if i < k then map_option (\<lambda>l. node_hash P l (last path)) (recompute_root P h i k (butlast path))
      else map_option (node_hash P (last path)) (recompute_root P h (i - k) (tsize - k) (butlast path)))"
  by (subst recompute_root.simps) (simp add: Let_def split: option.split)

section \<open>Completeness\<close>

lemma recompute_gen_path:
  assumes "0 \<le> i" and "i < int (length leaves)"
  shows "recompute_root P (leaf_hash P (leaves ! nat i)) i (int (length leaves)) (gen_path P leaves i) = Some (merkle_root P leaves)"
  using assms
proof (induction "length leaves" arbitrary: leaves i rule: less_induct)
  case less
  show ?case
  proof (cases leaves rule: leaves_cases)
    case (3 k)
    note split = merkle_root_split [OF 3(2)] gen_path_split [OF 3(2,1)] recompute_split [OF _ 3(1)]
    show ?thesis
    proof (cases "i < k")
      case True
      have "recompute_root P (leaf_hash P (take (nat k) leaves ! nat i)) i (int (length (take (nat k) leaves))) (gen_path P (take (nat k) leaves) i)
          = Some (merkle_root P (take (nat k) leaves))"
        by (rule less.hyps) (use 3 True less.prems in auto)
      then show ?thesis using 3 True less.prems by (simp add: split)
    next
      case False
      have "recompute_root P (leaf_hash P (drop (nat k) leaves ! nat (i - k))) (i - k) (int (length (drop (nat k) leaves))) (gen_path P (drop (nat k) leaves) (i - k))
          = Some (merkle_root P (drop (nat k) leaves))"
        by (rule less.hyps) (use 3 False less.prems in auto)
      moreover have "drop (nat k) leaves ! nat (i - k) = leaves ! nat i" using 3 False less.prems by (simp add: nat_diff_distrib)
      ultimately show ?thesis using 3 False less.prems by (simp add: split)
    qed
  qed (use less.prems in \<open>auto simp: recompute_one\<close>)
qed

section \<open>Soundness\<close>

text \<open>Everything that is hashed to compute a root, and to recompute one from a path.\<close>

function merkle_inputs :: "prims \<Rightarrow> bytes list \<Rightarrow> bytes set" where
  "merkle_inputs P leaves =
     (if length leaves = 0 then {[]}
      else if length leaves = 1 then {0x00 # leaves ! 0}
      else insert (0x01 # merkle_root P (take (split_at leaves) leaves) @ merkle_root P (drop (split_at leaves) leaves))
        (merkle_inputs P (take (split_at leaves) leaves) \<union> merkle_inputs P (drop (split_at leaves) leaves)))"
  by auto
termination
  by (relation "measure (\<lambda>(P, leaves). length leaves)") (use split_at_bounds in auto)

function proof_inputs :: "prims \<Rightarrow> bytes \<Rightarrow> int \<Rightarrow> int \<Rightarrow> bytes list \<Rightarrow> bytes set" where
  "proof_inputs P leaf i tsize path =
     (if tsize = 1 \<or> path = [] then {0x00 # leaf}
      else let k = largest_power_of_two_less_than tsize; rest = butlast path in
        if i < k then insert (0x01 # the (recompute_root P (leaf_hash P leaf) i k rest) @ last path) (proof_inputs P leaf i k rest)
        else insert (0x01 # last path @ the (recompute_root P (leaf_hash P leaf) (i - k) (tsize - k) rest))
          (proof_inputs P leaf (i - k) (tsize - k) rest))"
  by auto
termination by (relation "measure (\<lambda>(P, h, i, s, path). length path)") auto

declare merkle_inputs.simps [simp del] proof_inputs.simps [simp del]

lemma merkle_inputs_one [simp]: "merkle_inputs P [d] = {0x00 # d}"
  by (simp add: merkle_inputs.simps)

lemma merkle_inputs_split:
  "2 \<le> length leaves \<Longrightarrow> merkle_inputs P leaves =
     insert (0x01 # merkle_root P (take (split_at leaves) leaves) @ merkle_root P (drop (split_at leaves) leaves))
        (merkle_inputs P (take (split_at leaves) leaves) \<union> merkle_inputs P (drop (split_at leaves) leaves))"
  by (subst merkle_inputs.simps) auto

lemma proof_inputs_one: "proof_inputs P leaf i 1 path = {0x00 # leaf}"
  by (subst proof_inputs.simps) simp

lemma proof_inputs_split:
  "tsize \<noteq> 1 \<Longrightarrow> path \<noteq> [] \<Longrightarrow> k = largest_power_of_two_less_than tsize \<Longrightarrow> proof_inputs P leaf i tsize path =
     (if i < k then insert (0x01 # the (recompute_root P (leaf_hash P leaf) i k (butlast path)) @ last path) (proof_inputs P leaf i k (butlast path))
      else insert (0x01 # last path @ the (recompute_root P (leaf_hash P leaf) (i - k) (tsize - k) (butlast path)))
        (proof_inputs P leaf (i - k) (tsize - k) (butlast path)))"
  by (subst proof_inputs.simps) (simp add: Let_def)

definition digest_length :: "prims \<Rightarrow> bool" where
  "digest_length P \<longleftrightarrow> (\<forall>x. length (sha384 P x) = 48)"

lemma root_length: "digest_length P \<Longrightarrow> length (merkle_root P leaves) = 48"
  by (subst merkle_root.simps) (simp add: leaf_hash_def node_hash_def digest_length_def)

lemma recomputed_length:
  assumes "digest_length P" and "length h = 48" and "recompute_root P h i tsize path = Some r"
  shows "length r = 48"
  using assms(2,3) assms(1) [unfolded digest_length_def]
  by (subst (asm) recompute_root.simps) (auto simp: node_hash_def Let_def split: if_splits option.splits)

text \<open>A root binds its leaves.\<close>

lemma merkle_root_inject:
  assumes "digest_length P" and "merkle_root P xs = merkle_root P ys" and "length xs = length ys" and "xs \<noteq> []"
    and "inj_on (sha384 P) (merkle_inputs P xs \<union> merkle_inputs P ys)"
  shows "xs = ys"
  using assms(2-5)
proof (induction "length xs" arbitrary: xs ys rule: less_induct)
  case less
  show ?case
  proof (cases xs rule: leaves_cases)
    case 1
    then show ?thesis using less.prems by simp
  next
    case (2 d)
    then obtain e where "ys = [e]" using less.prems(2) by (cases ys) auto
    then show ?thesis using less.prems 2 by (auto simp: leaf_hash_def dest: inj_onD)
  next
    case (3 k)
    have ks: "split_at xs = nat k" "split_at ys = nat k" and two: "2 \<le> length ys" using 3 less.prems(2) by auto
    note in_xs = merkle_inputs_split [OF 3(2), of P, unfolded ks] and in_ys = merkle_inputs_split [OF two, of P, unfolded ks]
    let ?l = "take (nat k)" and ?r = "drop (nat k)"
    have "sha384 P (0x01 # merkle_root P (?l xs) @ merkle_root P (?r xs)) = sha384 P (0x01 # merkle_root P (?l ys) @ merkle_root P (?r ys))"
      using less.prems(1) merkle_root_split [OF 3(2), of P] merkle_root_split [OF two, of P] unfolding ks node_hash_def by simp
    then have "merkle_root P (?l xs) @ merkle_root P (?r xs) = merkle_root P (?l ys) @ merkle_root P (?r ys)"
      using inj_onD [OF less.prems(4)] in_xs in_ys by blast
    then have roots: "merkle_root P (?l xs) = merkle_root P (?l ys)" "merkle_root P (?r xs) = merkle_root P (?r ys)"
      using root_length [OF assms(1)] by auto
    have "?l xs = ?l ys"
    proof (rule less.hyps [OF _ roots(1)])
      show "inj_on (sha384 P) (merkle_inputs P (?l xs) \<union> merkle_inputs P (?l ys))"
        by (rule inj_on_subset [OF less.prems(4)]) (unfold in_xs in_ys, blast)
    qed (use 3 less.prems(2) in auto)
    moreover have "?r xs = ?r ys"
    proof (rule less.hyps [OF _ roots(2)])
      show "inj_on (sha384 P) (merkle_inputs P (?r xs) \<union> merkle_inputs P (?r ys))"
        by (rule inj_on_subset [OF less.prems(4)]) (unfold in_xs in_ys, blast)
    qed (use 3 less.prems(2) in auto)
    ultimately show ?thesis using append_take_drop_id by metis
  qed
qed

text \<open>A path that recomputes the root is the audit path of the leaf at that index.\<close>

lemma recompute_sound:
  assumes "digest_length P" and "0 \<le> i" and "i < int (length leaves)"
    and "recompute_root P (leaf_hash P leaf) i (int (length leaves)) path = Some (merkle_root P leaves)"
    and "inj_on (sha384 P) (merkle_inputs P leaves \<union> proof_inputs P leaf i (int (length leaves)) path)"
  shows "leaf = leaves ! nat i \<and> path = gen_path P leaves i"
  using assms(2-5)
proof (induction "length leaves" arbitrary: leaves i path rule: less_induct)
  case less
  show ?case
  proof (cases leaves rule: leaves_cases)
    case 1
    then show ?thesis using less.prems by simp
  next
    case (2 d)
    then have "path = []" "leaf_hash P leaf = leaf_hash P d" "i = 0"
      using less.prems(1-3) by (simp_all add: recompute_one split: if_splits)
    then show ?thesis using less.prems(4) 2 by (auto simp: leaf_hash_def proof_inputs_one dest: inj_onD)
  next
    case (3 k)
    let ?l = "take (nat k) leaves" and ?r = "drop (nat k) leaves"
    have ks: "split_at leaves = nat k" and ne1: "int (length leaves) \<noteq> 1" and kl: "int (length ?l) = k" using 3 by auto
    note ins = merkle_inputs_split [OF 3(2), of P, unfolded ks] and root = merkle_root_split [OF 3(2), of P, unfolded ks]
    note rec = recompute_split [OF ne1 3(1)]
    have path: "path \<noteq> []" using less.prems(3) rec by auto
    note pins = proof_inputs_split [OF ne1 path 3(1), of P leaf i]
    have snoc: "path = p @ [x]" if "butlast path = p" "last path = x" for p x using path that by auto
    show ?thesis
    proof (cases "i < k")
      case True
      obtain l where l: "recompute_root P (leaf_hash P leaf) i k (butlast path) = Some l" and "node_hash P l (last path) = merkle_root P leaves"
        using less.prems(3) True path by (auto simp: rec)
      then have "sha384 P (0x01 # l @ last path) = sha384 P (0x01 # merkle_root P ?l @ merkle_root P ?r)" by (simp add: root node_hash_def)
      from inj_onD [OF less.prems(4) this] have "l @ last path = merkle_root P ?l @ merkle_root P ?r"
        using l True by (simp add: ins pins)
      then have eq: "l = merkle_root P ?l" "last path = merkle_root P ?r"
        using recomputed_length [OF assms(1) _ l] root_length [OF assms(1)] assms(1) by (auto simp: leaf_hash_def digest_length_def)
      have "leaf = ?l ! nat i \<and> butlast path = gen_path P ?l i"
      proof (rule less.hyps)
        show "inj_on (sha384 P) (merkle_inputs P ?l \<union> proof_inputs P leaf i (int (length ?l)) (butlast path))"
          by (rule inj_on_subset [OF less.prems(4)]) (use True in \<open>unfold kl ins pins, auto\<close>)
      qed (use 3 True less.prems l eq in auto)
      then show ?thesis using 3 True less.prems(1) snoc [OF _ eq(2)] by (simp add: gen_path_split [OF 3(2,1)])
    next
      case False
      obtain r where r: "recompute_root P (leaf_hash P leaf) (i - k) (int (length leaves) - k) (butlast path) = Some r"
        and "node_hash P (last path) r = merkle_root P leaves"
        using less.prems(3) False path by (auto simp: rec)
      then have "sha384 P (0x01 # last path @ r) = sha384 P (0x01 # merkle_root P ?l @ merkle_root P ?r)" by (simp add: root node_hash_def)
      from inj_onD [OF less.prems(4) this] have "last path @ r = merkle_root P ?l @ merkle_root P ?r"
        using r False by (simp add: ins pins)
      then have eq: "r = merkle_root P ?r" "last path = merkle_root P ?l"
        using recomputed_length [OF assms(1) _ r] root_length [OF assms(1)] assms(1) by (auto simp: leaf_hash_def digest_length_def)
      have "leaf = ?r ! nat (i - k) \<and> butlast path = gen_path P ?r (i - k)"
      proof (rule less.hyps)
        show "inj_on (sha384 P) (merkle_inputs P ?r \<union> proof_inputs P leaf (i - k) (int (length ?r)) (butlast path))"
          by (rule inj_on_subset [OF less.prems(4)]) (use False in \<open>unfold 3(6) ins pins, auto\<close>)
      qed (use 3 False less.prems r eq in auto)
      moreover have "?r ! nat (i - k) = leaves ! nat i" using 3 False less.prems by (simp add: nat_diff_distrib)
      ultimately show ?thesis using 3 False snoc [OF _ eq(2)] by (simp add: gen_path_split [OF 3(2,1)])
    qed
  qed
qed

section \<open>Properties of the tree\<close>

text \<open>C8: Inclusion proofs are complete and sound. For every leaf of a list, the generated path verifies against the root of the
  list; and whatever leaf and path verify for an index of that list are the list's own leaf at that index and the generated
  path, provided digests have 48 octets and do not collide on what the tree and the proof hash. An index outside
  the list is refused when generating and, if it is too large, when verifying.\<close>

theorem inclusion_proof_exact:
  "(generate_inclusion_proof_path P leaves i = Inr path \<longrightarrow>
      verify_inclusion_proof P (leaves ! nat i) i (int (length leaves)) path (merkle_root P leaves) = Inr ()) \<and>
   (0 \<le> i \<longrightarrow> verify_inclusion_proof P leaf i (int (length leaves)) path' (merkle_root P leaves) = Inr () \<longrightarrow> digest_length P \<longrightarrow>
      inj_on (sha384 P) (merkle_inputs P leaves \<union> proof_inputs P leaf i (int (length leaves)) path') \<longrightarrow>
      i < int (length leaves) \<and> leaf = leaves ! nat i \<and> generate_inclusion_proof_path P leaves i = Inr path') \<and>
   (\<not> (0 \<le> i \<and> i < int (length leaves)) \<longrightarrow> generate_inclusion_proof_path P leaves i = Inl (GatewayError ''InclusionProofInvalid''))"
proof -
  have v: "verify_inclusion_proof P l i n p root = Inr () \<longleftrightarrow> n \<noteq> 0 \<and> i < n \<and> recompute_root P (leaf_hash P l) i n p = Some root"
    for l n p root by (auto simp: verify_inclusion_proof_def split: option.splits)
  show ?thesis
    using recompute_gen_path [of i leaves P] recompute_sound [of P i leaves leaf path']
    by (auto simp: v generate_inclusion_proof_path_def)
qed

definition padded_prims :: prims where
  "padded_prims = sample_prims\<lparr>sha384 := \<lambda>b. take 48 (b @ replicate 48 0)\<rparr>"

lemma padded_digest_length: "digest_length padded_prims"
  by (auto simp: digest_length_def padded_prims_def min_def)

lemma padded_two_leaves:
  "inj_on (sha384 padded_prims) (merkle_inputs padded_prims [[1], [2]] \<union> proof_inputs padded_prims [2] 1 2 (gen_path padded_prims [[1], [2]] 1))"
proof -
  let ?h = "\<lambda>b :: bytes. take 48 (b @ replicate 48 0)"
  have "merkle_inputs padded_prims [[1], [2]] \<union> proof_inputs padded_prims [2] 1 2 (gen_path padded_prims [[1], [2]] 1)
      = set [[0, 1], [0, 2], 1 # ?h [0, 1] @ ?h [0, 2]]" by code_simp
  moreover have "distinct (map (sha384 padded_prims) [[0, 1], [0, 2], 1 # ?h [0, 1] @ ?h [0, 2]])" by code_simp
  ultimately show ?thesis by (simp add: distinct_map)
qed

theorem inclusion_proof_exact_witness:
  "\<exists>path. generate_inclusion_proof_path padded_prims [[1], [2]] 1 = Inr path \<and>
     verify_inclusion_proof padded_prims [2] 1 2 path (merkle_root padded_prims [[1], [2]]) = Inr () \<and>
     inj_on (sha384 padded_prims) (merkle_inputs padded_prims [[1], [2]] \<union> proof_inputs padded_prims [2] 1 2 path)"
proof -
  let ?path = "gen_path padded_prims [[1], [2]] 1"
  have g: "generate_inclusion_proof_path padded_prims [[1], [2]] 1 = Inr ?path" by (simp add: generate_inclusion_proof_path_def)
  have "verify_inclusion_proof padded_prims [2] 1 2 ?path (merkle_root padded_prims [[1], [2]]) = Inr ()"
    using inclusion_proof_exact [of padded_prims "[[1], [2]]" 1 ?path] g by simp
  with g padded_two_leaves show ?thesis by blast
qed

text \<open>A checkpoint's root and size bind the whole list of leaves, in order, unless the digest collides.\<close>

theorem merkle_root_binds_leaves:
  assumes "digest_length P" and "merkle_root P xs = merkle_root P ys" and "length xs = length ys"
    and "inj_on (sha384 P) (merkle_inputs P xs \<union> merkle_inputs P ys)"
  shows "xs = ys"
  using merkle_root_inject [OF assms(1-3) _ assms(4)] assms(3) by (cases "xs = []") auto

theorem merkle_root_binds_leaves_witness:
  "merkle_root padded_prims [[1], [2]] \<noteq> merkle_root padded_prims [[2], [1]]"
proof
  let ?h = "\<lambda>b :: bytes. take 48 (b @ replicate 48 0)"
  let ?xs = "[[0, 1], [0, 2], 1 # ?h [0, 1] @ ?h [0, 2], 1 # ?h [0, 2] @ ?h [0, 1]]"
  have "merkle_inputs padded_prims [[1], [2]] \<union> merkle_inputs padded_prims [[2], [1]] = set ?xs" by code_simp
  moreover have "distinct (map (sha384 padded_prims) ?xs)" by code_simp
  ultimately have inj: "inj_on (sha384 padded_prims) (merkle_inputs padded_prims [[1], [2]] \<union> merkle_inputs padded_prims [[2], [1]])"
    by (simp add: distinct_map)
  assume "merkle_root padded_prims [[1], [2]] = merkle_root padded_prims [[2], [1]]"
  from merkle_root_binds_leaves [OF padded_digest_length this _ inj] show False by simp
qed

text \<open>The verifier compares the index only with the size, so a negative index is treated as the first leaf.\<close>

lemma recompute_negative:
  assumes "i < 0" and "1 \<le> n"
  shows "recompute_root P h i n path = recompute_root P h 0 n path"
  using assms(2)
proof (induction "length path" arbitrary: n path rule: less_induct)
  case less
  show ?case
  proof (cases "n = 1")
    case False
    then have k: "0 < largest_power_of_two_less_than n" using less.prems split_point(1) [of n] by simp
    then have "recompute_root P h i (largest_power_of_two_less_than n) (butlast path) =
        recompute_root P h 0 (largest_power_of_two_less_than n) (butlast path)" if "path \<noteq> []"
      using that by (intro less.hyps) auto
    then show ?thesis using assms(1) k by (simp add: recompute_split [OF False refl])
  qed (simp add: recompute_one)
qed

theorem negative_index_accepted:
  assumes "leaves \<noteq> []" and "i < 0"
  shows "verify_inclusion_proof P (leaves ! 0) i (int (length leaves)) (gen_path P leaves 0) (merkle_root P leaves) = Inr ()"
proof -
  have n: "1 \<le> int (length leaves)" using assms(1) by (cases leaves) auto
  then show ?thesis
    using recompute_gen_path [of 0 leaves P] recompute_negative [OF assms(2) n] assms by (simp add: verify_inclusion_proof_def)
qed

theorem negative_index_accepted_witness:
  "verify_inclusion_proof padded_prims [1] (- 4) 2 (gen_path padded_prims [[1], [2]] 0) (merkle_root padded_prims [[1], [2]]) = Inr ()"
  using negative_index_accepted [of "[[1], [2]]" "- 4" padded_prims] by simp

end
