(* ===== verification/Evidence.thy ===== *)
theory Evidence
  imports Gateway Merkle
begin

text \<open>
  Accountability evidence (\<^verbatim>\<open>impl/python/naalp/gateway.py\<close>, second half): the decision record of a governed decision
  point, and the checkpoint root, witness countersignature and inclusion proof that anchor such records. The
  tree itself is in theory \<open>Merkle\<close>.
\<close>

section \<open>Decision records\<close>

definition ENFORCEMENT_ENFORCED :: int where "ENFORCEMENT_ENFORCED = 1"
definition ENFORCEMENT_ADVISED :: int where "ENFORCEMENT_ADVISED = 2"
definition TERM_OBSERVED :: int where "TERM_OBSERVED = 1"
definition TERM_REPORTED :: int where "TERM_REPORTED = 2"

record term_disposition =
  td_kind :: int
  td_source :: bytes

definition term_disposition_value :: "term_disposition \<Rightarrow> cbor" where
  "term_disposition_value td = M ([(U 1, U (td_kind td))] @ nonempty_field 2 (td_source td))"

definition term_disposition_from_value :: "cbor \<Rightarrow> term_disposition option" where
  "term_disposition_from_value v =
     (case v of
        M m \<Rightarrow> (case (uint_field m 1, opt_bstr m 2) of (Some knd, Some source) \<Rightarrow> Some \<lparr>td_kind = knd, td_source = source\<rparr> | _ \<Rightarrow> None)
      | _ \<Rightarrow> None)"

text \<open>The terms are a dictionary; it is kept as the list of its items.\<close>

record decision_record =
  dc_action :: bytes
  dc_governing :: "bytes list"
  dc_consume :: bytes
  dc_outcome :: int
  dc_ordering :: ordering_disclosure
  dc_terms :: "(int \<times> term_disposition) list"
  dc_enforcement :: int

definition terms_value :: "(int \<times> term_disposition) list \<Rightarrow> cbor" where
  "terms_value ts = M (map (\<lambda>(k, td). (U k, term_disposition_value td)) ts)"

definition decision_record_pairs :: "decision_record \<Rightarrow> (cbor \<times> cbor) list" where
  "decision_record_pairs d =
     [(U 1, B (dc_action d)), (U 2, A (map B (dc_governing d)))] @ nonempty_field 3 (dc_consume d) @
     [(U 4, U (dc_outcome d)), (U 5, ordering_value (dc_ordering d))] @
     (if dc_terms d \<noteq> [] then [(U 6, terms_value (dc_terms d))] else []) @
     (if dc_enforcement d \<noteq> 0 then [(U 7, U (dc_enforcement d))] else [])"

definition decision_record_bytes :: "decision_record \<Rightarrow> bytes res" where
  "decision_record_bytes d = encode (M (decision_record_pairs d))"

definition decision_record_head :: "prims \<Rightarrow> decision_record \<Rightarrow> bytes res" where
  "decision_record_head P d = rbind (decision_record_bytes d) (\<lambda>b. Inr (sha384 P b))"

definition decision_record_id :: "prims \<Rightarrow> decision_record \<Rightarrow> bytes res" where
  "decision_record_id P d = rbind (decision_record_bytes d) (\<lambda>b. Inr (content_id_bytes (sha384 P) b))"

text \<open>One step of the loop over the terms; a repeated key would overwrite the earlier entry.\<close>

definition term_step :: "(int \<times> term_disposition) list \<Rightarrow> cbor \<times> cbor \<Rightarrow> (int \<times> term_disposition) list res" where
  "term_step ts p =
     (case fst p of
        U k \<Rightarrow> (case term_disposition_from_value (snd p) of
            None \<Rightarrow> Inl (GatewayError ''DecisionMalformed'')
          | Some td \<Rightarrow> Inr (if k \<in> fst ` set ts then map (\<lambda>(j, x). (j, if j = k then td else x)) ts else ts @ [(k, td)]))
      | _ \<Rightarrow> Inl (GatewayError ''DecisionMalformed''))"

definition read_terms :: "cbor option \<Rightarrow> (int \<times> term_disposition) list res" where
  "read_terms v =
     (case v of
        None \<Rightarrow> Inr []
      | Some (M ps) \<Rightarrow> rfold term_step [] ps
      | _ \<Rightarrow> Inl (GatewayError ''DecisionMalformed''))"

definition read_enforcement :: "cbor option \<Rightarrow> int res" where
  "read_enforcement v = (case v of None \<Rightarrow> Inr 0 | Some (U n) \<Rightarrow> Inr n | _ \<Rightarrow> Inl (GatewayError ''DecisionMalformed''))"

definition parse_decision_record :: "bytes \<Rightarrow> decision_record res" where
  "parse_decision_record b =
     rbind (decode_map (GatewayError ''DecisionMalformed'') b) (\<lambda>m.
       case (bstr_field m 1, map_field m 2) of
         (Some action, Some (A items)) \<Rightarrow>
           rbind (read_items (read_bstr (GatewayError ''DecisionMalformed'')) items) (\<lambda>governing.
             case opt_bstr m 3 of
               None \<Rightarrow> Inl (GatewayError ''DecisionMalformed'')
             | Some csm \<Rightarrow>
                 (case (uint_field m 4, map_field m 5) of
                    (Some outcome, Some ord_v) \<Rightarrow>
                      (case ordering_from_value ord_v of
                         None \<Rightarrow> Inl (GatewayError ''DecisionMalformed'')
                       | Some od \<Rightarrow>
                           rbind (read_terms (map_field m 6)) (\<lambda>ts.
                             rbind (read_enforcement (map_field m 7)) (\<lambda>enf.
                               Inr \<lparr>dc_action = action, dc_governing = governing, dc_consume = csm, dc_outcome = outcome,
                                 dc_ordering = od, dc_terms = ts, dc_enforcement = enf\<rparr>)))
                  | _ \<Rightarrow> Inl (GatewayError ''DecisionMalformed'')))
       | _ \<Rightarrow> Inl (GatewayError ''DecisionMalformed''))"

definition valid_term_key :: "int \<Rightarrow> bool" where
  "valid_term_key k \<longleftrightarrow> 1 \<le> k \<and> k \<le> 5"

definition validate_decision_record :: "decision_record \<Rightarrow> unit res" where
  "validate_decision_record d =
     (if \<not> is_known_decision (dc_outcome d) then Inl (GatewayError ''UnknownGatewayDecision'')
      else rbind (validate_ordering (dc_ordering d)) (\<lambda>_.
        if dc_outcome d \<noteq> DECISION_ALLOW \<and> dc_consume d \<noteq> [] then Inl (GatewayError ''DecisionMalformed'')
        else if \<not> list_all (\<lambda>(k, _). valid_term_key k) (dc_terms d) then Inl (GatewayError ''TermDispositionMalformed'')
        else Inr ()))"

definition sign_decision_record :: "prims \<Rightarrow> decision_record \<Rightarrow> int \<Rightarrow> bytes \<Rightarrow> bytes res" where
  "sign_decision_record P d alg seed = sign_body P alg seed (decision_record_bytes d)"

text \<open>The resolved record has the fields of the record.\<close>

definition verify_decision_record :: "prims \<Rightarrow> bytes \<Rightarrow> int \<Rightarrow> int \<Rightarrow> bytes \<Rightarrow> decision_record res" where
  "verify_decision_record P ob prof alg pubkey =
     rbind (verify_sign1 GatewayError ''GwMalformed'' P ob prof alg pubkey) (\<lambda>payload.
       rbind (parse_decision_record payload) (\<lambda>d. rbind (validate_decision_record d) (\<lambda>_. Inr d)))"

section \<open>Checkpoints\<close>

definition GW_HEAD_SIZE :: nat where "GW_HEAD_SIZE = 48"

definition genesis_prev :: bytes where "genesis_prev = replicate GW_HEAD_SIZE 0"

record checkpoint_root =
  ck_log :: bytes
  ck_size :: int
  ck_root :: bytes
  ck_prev :: bytes
  ck_at :: int

definition checkpoint_root_bytes :: "checkpoint_root \<Rightarrow> bytes res" where
  "checkpoint_root_bytes c =
     encode (M [(U 1, B (ck_log c)), (U 2, U (ck_size c)), (U 3, B (ck_root c)), (U 4, B (ck_prev c)), (U 5, U (ck_at c))])"

definition checkpoint_root_head :: "prims \<Rightarrow> checkpoint_root \<Rightarrow> bytes res" where
  "checkpoint_root_head P c = rbind (checkpoint_root_bytes c) (\<lambda>b. Inr (sha384 P b))"

definition checkpoint_root_id :: "prims \<Rightarrow> checkpoint_root \<Rightarrow> bytes res" where
  "checkpoint_root_id P c = rbind (checkpoint_root_bytes c) (\<lambda>b. Inr (content_id_bytes (sha384 P) b))"

definition parse_checkpoint_root :: "bytes \<Rightarrow> checkpoint_root res" where
  "parse_checkpoint_root b =
     rbind (decode_map (GatewayError ''CheckpointMalformed'') b) (\<lambda>m.
       case (bstr_field m 1, uint_field m 2, bstr_field m 3, bstr_field m 4, uint_field m 5) of
         (Some lg, Some n, Some root, Some prev, Some at) \<Rightarrow>
           Inr \<lparr>ck_log = lg, ck_size = n, ck_root = root, ck_prev = prev, ck_at = at\<rparr>
       | _ \<Rightarrow> Inl (GatewayError ''CheckpointMalformed''))"

definition sign_checkpoint_root :: "prims \<Rightarrow> checkpoint_root \<Rightarrow> int \<Rightarrow> bytes \<Rightarrow> bytes res" where
  "sign_checkpoint_root P c alg seed = sign_body P alg seed (checkpoint_root_bytes c)"

record witness_cosign =
  wc_witness :: bytes
  wc_root :: bytes
  wc_at :: int

definition witness_cosign_bytes :: "witness_cosign \<Rightarrow> bytes res" where
  "witness_cosign_bytes w = encode (M [(U 1, B (wc_witness w)), (U 2, B (wc_root w)), (U 3, U (wc_at w))])"

definition witness_cosign_head :: "prims \<Rightarrow> witness_cosign \<Rightarrow> bytes res" where
  "witness_cosign_head P w = rbind (witness_cosign_bytes w) (\<lambda>b. Inr (sha384 P b))"

definition witness_cosign_id :: "prims \<Rightarrow> witness_cosign \<Rightarrow> bytes res" where
  "witness_cosign_id P w = rbind (witness_cosign_bytes w) (\<lambda>b. Inr (content_id_bytes (sha384 P) b))"

definition parse_witness_cosign :: "bytes \<Rightarrow> witness_cosign res" where
  "parse_witness_cosign b =
     rbind (decode_map (GatewayError ''CheckpointMalformed'') b) (\<lambda>m.
       case (bstr_field m 1, bstr_field m 2, uint_field m 3) of
         (Some w, Some root, Some at) \<Rightarrow> Inr \<lparr>wc_witness = w, wc_root = root, wc_at = at\<rparr>
       | _ \<Rightarrow> Inl (GatewayError ''CheckpointMalformed''))"

definition sign_witness_cosign :: "prims \<Rightarrow> witness_cosign \<Rightarrow> int \<Rightarrow> bytes \<Rightarrow> bytes res" where
  "sign_witness_cosign P w alg seed = sign_body P alg seed (witness_cosign_bytes w)"

definition validate_witness_cosign :: "witness_cosign \<Rightarrow> bytes \<Rightarrow> unit res" where
  "validate_witness_cosign w accompanied_checkpoint_id =
     (if wc_root w \<noteq> accompanied_checkpoint_id then Inl (GatewayError ''WitnessRootMismatch'') else Inr ())"

record inclusion_proof =
  ip_root :: bytes
  ip_leaf :: bytes
  ip_index :: int
  ip_path :: "bytes list"

definition inclusion_proof_bytes :: "inclusion_proof \<Rightarrow> bytes res" where
  "inclusion_proof_bytes p = encode (M [(U 1, B (ip_root p)), (U 2, B (ip_leaf p)), (U 3, U (ip_index p)), (U 4, A (map B (ip_path p)))])"

definition inclusion_proof_head :: "prims \<Rightarrow> inclusion_proof \<Rightarrow> bytes res" where
  "inclusion_proof_head P p = rbind (inclusion_proof_bytes p) (\<lambda>b. Inr (sha384 P b))"

definition inclusion_proof_id :: "prims \<Rightarrow> inclusion_proof \<Rightarrow> bytes res" where
  "inclusion_proof_id P p = rbind (inclusion_proof_bytes p) (\<lambda>b. Inr (content_id_bytes (sha384 P) b))"

definition parse_inclusion_proof :: "bytes \<Rightarrow> inclusion_proof res" where
  "parse_inclusion_proof b =
     rbind (decode_map (GatewayError ''CheckpointMalformed'') b) (\<lambda>m.
       case (bstr_field m 1, bstr_field m 2, uint_field m 3, map_field m 4) of
         (Some root, Some lf, Some index, Some (A items)) \<Rightarrow>
           rbind (read_items (read_bstr (GatewayError ''CheckpointMalformed'')) items) (\<lambda>path.
             Inr \<lparr>ip_root = root, ip_leaf = lf, ip_index = index, ip_path = path\<rparr>)
       | _ \<Rightarrow> Inl (GatewayError ''CheckpointMalformed''))"

section \<open>Bodies\<close>

lemma parse_checkpoint_root_bytes:
  assumes "checkpoint_root_bytes c = Inr b" shows "parse_checkpoint_root b = Inr c"
proof -
  have "decode b = Inr (M [(U 1, B (ck_log c)), (U 2, U (ck_size c)), (U 3, B (ck_root c)), (U 4, B (ck_prev c)), (U 5, U (ck_at c))])"
    by (rule decode_fields [OF assms [unfolded checkpoint_root_bytes_def]]) auto
  then show ?thesis by (simp add: parse_checkpoint_root_def decode_map_def map_read_defs)
qed

interpretation checkpoint_body: signed_body checkpoint_root_bytes parse_checkpoint_root "\<lambda>_. True"
  by unfold_locales (rule parse_checkpoint_root_bytes)

interpretation checkpoint_chain: hash_chain "sha384 P" checkpoint_root_bytes ck_prev for P :: prims
  by unfold_locales (use checkpoint_body.body_inject in blast)

lemma parse_witness_cosign_bytes:
  assumes "witness_cosign_bytes w = Inr b" shows "parse_witness_cosign b = Inr w"
proof -
  have "decode b = Inr (M [(U 1, B (wc_witness w)), (U 2, B (wc_root w)), (U 3, U (wc_at w))])"
    by (rule decode_fields [OF assms [unfolded witness_cosign_bytes_def]]) auto
  then show ?thesis by (simp add: parse_witness_cosign_def decode_map_def map_read_defs)
qed

interpretation cosign_body: signed_body witness_cosign_bytes parse_witness_cosign "\<lambda>_. True"
  by unfold_locales (rule parse_witness_cosign_bytes)

lemma parse_inclusion_proof_bytes:
  assumes "inclusion_proof_bytes p = Inr b" shows "parse_inclusion_proof b = Inr p"
proof -
  have "decode b = Inr (M [(U 1, B (ip_root p)), (U 2, B (ip_leaf p)), (U 3, U (ip_index p)), (U 4, A (map B (ip_path p)))])"
    by (rule decode_fields [OF assms [unfolded inclusion_proof_bytes_def]])
      (use nesting_bstrs [of "ip_path p"] in \<open>auto simp del: nesting.simps(1)\<close>)
  then show ?thesis by (simp add: parse_inclusion_proof_def decode_map_def map_read_defs)
qed

interpretation inclusion_body: signed_body inclusion_proof_bytes parse_inclusion_proof "\<lambda>_. True"
  by unfold_locales (rule parse_inclusion_proof_bytes)

section \<open>The body of a decision record\<close>

definition record_wf :: "decision_record \<Rightarrow> bool" where
  "record_wf d \<longleftrightarrow> sorted_wrt (<) (map fst (dc_terms d)) \<and> (\<forall>(k, td) \<in> set (dc_terms d). 0 \<le> k \<and> k < 24)"

lemma term_facts: "canon (term_disposition_value td) = term_disposition_value td" "nesting (term_disposition_value td) \<le> 2"
proof -
  have asc: "asc_keys ([(U 1, U (td_kind td))] @ nonempty_field 2 (td_source td))" by (simp add: nonempty_field_def)
  show "canon (term_disposition_value td) = term_disposition_value td"
    unfolding term_disposition_value_def by (rule map_facts(1) [OF asc, where k = 1]) (auto simp: nonempty_field_def split: if_splits)
  have "nesting (term_disposition_value td) \<le> Suc 1"
    unfolding term_disposition_value_def by (rule map_facts(2) [OF asc]) (auto simp: nonempty_field_def split: if_splits)
  then show "nesting (term_disposition_value td) \<le> 2" by simp
qed

lemma read_term [simp]: "term_disposition_from_value (term_disposition_value td) = Some td"
  by (cases td) (simp add: term_disposition_from_value_def term_disposition_value_def nonempty_field_def opt_bstr_def map_read_defs)

lemma terms_facts:
  assumes "sorted_wrt (<) (map fst ts)" and "\<forall>(k, td) \<in> set ts. 0 \<le> k \<and> k < 24"
  shows "canon (terms_value ts) = terms_value ts" and "nesting (terms_value ts) \<le> 3"
proof -
  have asc: "asc_keys (map (\<lambda>(k, td). (U k, term_disposition_value td)) ts)"
    using assms by (auto simp: asc_keys_def small_key_def comp_def case_prod_unfold)
  show "canon (terms_value ts) = terms_value ts"
    unfolding terms_value_def by (rule map_facts(1) [OF asc, where k = 2]) (auto simp: term_facts)
  have "nesting (terms_value ts) \<le> Suc 2"
    unfolding terms_value_def by (rule map_facts(2) [OF asc]) (auto simp: term_facts)
  then show "nesting (terms_value ts) \<le> 3" by simp
qed

lemma term_steps:
  "distinct (map fst (acc @ ts)) \<Longrightarrow> rfold term_step acc (map (\<lambda>(k, td). (U k, term_disposition_value td)) ts) = Inr (acc @ ts)"
proof (induction ts arbitrary: acc)
  case (Cons t ts)
  obtain k td where t: "t = (k, td)" by (cases t)
  have "k \<notin> fst ` set acc" using Cons.prems by (auto simp: t)
  then show ?case using Cons.IH [of "acc @ [(k, td)]"] Cons.prems by (simp add: t term_step_def)
qed simp

lemma parse_decision_record_bytes:
  assumes "record_wf d" and "decision_record_bytes d = Inr b"
  shows "parse_decision_record b = Inr d"
proof -
  have ts: "canon (terms_value (dc_terms d)) = terms_value (dc_terms d)" "nesting (terms_value (dc_terms d)) \<le> 3" "distinct (map fst (dc_terms d))"
    using assms(1) terms_facts [of "dc_terms d"] by (auto simp: record_wf_def strict_sorted_iff)
  have dec: "decode b = Inr (M (decision_record_pairs d))"
  proof (rule decode_fields [OF assms(2) [unfolded decision_record_bytes_def]])
    show "asc_keys (decision_record_pairs d)" by (simp add: decision_record_pairs_def nonempty_field_def)
    have "nesting (ordering_value (dc_ordering d)) \<le> 64" "nesting (A (map B (dc_governing d))) \<le> 64" "nesting (terms_value (dc_terms d)) \<le> 64"
      using ordering_facts(2) [of "dc_ordering d"] nesting_bstrs [of "dc_governing d"] ts(2) by linarith+
    then show "\<forall>p \<in> set (decision_record_pairs d). canon (snd p) = snd p \<and> nesting (snd p) \<le> 64"
      using ts(1) by (auto simp: decision_record_pairs_def nonempty_field_def ordering_facts(1) simp del: canon.simps(1) nesting.simps(1))
  qed
  let ?m = "decision_record_pairs d"
  have f: "bstr_field ?m 1 = Some (dc_action d)" "map_field ?m 2 = Some (A (map B (dc_governing d)))" "opt_bstr ?m 3 = Some (dc_consume d)"
    "uint_field ?m 4 = Some (dc_outcome d)" "map_field ?m 5 = Some (ordering_value (dc_ordering d))"
    "map_field ?m 6 = (if dc_terms d \<noteq> [] then Some (terms_value (dc_terms d)) else None)"
    "map_field ?m 7 = (if dc_enforcement d \<noteq> 0 then Some (U (dc_enforcement d)) else None)"
    by (simp_all add: decision_record_pairs_def nonempty_field_def map_field_def bstr_field_def uint_field_def opt_bstr_def)
  have "read_terms (map_field ?m 6) = Inr (dc_terms d)" "read_enforcement (map_field ?m 7) = Inr (dc_enforcement d)"
    using term_steps [of "[]" "dc_terms d"] ts(3) by (simp_all add: f read_terms_def read_enforcement_def terms_value_def)
  then show ?thesis by (simp add: parse_decision_record_def decode_map_def dec f(1-5))
qed

interpretation record_body: signed_body decision_record_bytes parse_decision_record record_wf
  by unfold_locales (rule parse_decision_record_bytes)

lemma validate_record_Inr:
  "validate_decision_record d = Inr u \<longleftrightarrow> dc_outcome d \<in> {0, 1, 2} \<and> ordering_ok (dc_ordering d) \<and>
     (dc_consume d \<noteq> [] \<longrightarrow> dc_outcome d = 0) \<and> (\<forall>k \<in> fst ` set (dc_terms d). 1 \<le> k \<and> k \<le> 5)"
  by (auto simp: validate_decision_record_def rbind_eq_Inr if_Inl_eq_Inr validate_ordering_Inr known_sets DECISION_ALLOW_def
      valid_term_key_def list_all_iff)

section \<open>Properties of the evidence\<close>

text \<open>A signed decision record verifies, for whoever serves it, exactly when its outcome is in the closed set, its ordering
  disclosure is well formed, only an allowed action carries a consume reference and every term is keyed by one of the
  record's own fields; it then verifies to itself. The same conditions hold of every record that verifies.\<close>

theorem decision_record_exact:
  assumes "md_correct P" and "md_key_derive P alg seed = Inr (pk, sk)" and "profile_min_level prof \<le> fst (alg_level alg)"
    and "record_wf d" and "sign_decision_record P d alg seed = Inr ob"
  shows "(verify_decision_record P ob prof alg pk = Inr r \<longleftrightarrow> r = d \<and> dc_outcome d \<in> {0, 1, 2} \<and> ordering_ok (dc_ordering d) \<and>
      (dc_consume d \<noteq> [] \<longrightarrow> dc_outcome d = 0) \<and> (\<forall>k \<in> fst ` set (dc_terms d). 1 \<le> k \<and> k \<le> 5)) \<and>
    (verify_decision_record P ob' prof' alg' pk' = Inr r' \<longrightarrow> dc_outcome r' \<in> {0, 1, 2} \<and> ordering_ok (dc_ordering r') \<and>
      (dc_consume r' \<noteq> [] \<longrightarrow> dc_outcome r' = 0) \<and> (\<forall>k \<in> fst ` set (dc_terms r'). 1 \<le> k \<and> k \<le> 5))"
proof -
  have v: "verify_decision_record P x y z w = Inr q \<longleftrightarrow>
      rbind (verify_sign1 GatewayError ''GwMalformed'' P x y z w) parse_decision_record = Inr q \<and> validate_decision_record q = Inr ()" for x y z w q
    by (auto simp: verify_decision_record_def rbind_eq_Inr)
  have "rbind (verify_sign1 GatewayError ''GwMalformed'' P ob prof alg pk) parse_decision_record = Inr d"
    by (rule record_body.sign1_roundtrip [OF assms(1) assms(5) [unfolded sign_decision_record_def] assms(2,3,4)])
  then show ?thesis unfolding v validate_record_Inr by auto
qed

definition sample_record :: decision_record where
  "sample_record = \<lparr>dc_action = [1], dc_governing = [[2], [3]], dc_consume = [4], dc_outcome = 0, dc_ordering = correspondence_only,
     dc_terms = [(1, \<lparr>td_kind = 1, td_source = []\<rparr>), (3, \<lparr>td_kind = 2, td_source = [8]\<rparr>)], dc_enforcement = 1\<rparr>"

theorem decision_record_exact_witness:
  "\<exists>ob. sign_decision_record sample_prims sample_record ALG_MLDSA65 [7] = Inr ob \<and>
     verify_decision_record sample_prims ob PROFILE_PUBLIC ALG_MLDSA65 [7] = Inr sample_record"
proof -
  have "is_ok (sign_decision_record sample_prims sample_record ALG_MLDSA65 [7])" by code_simp
  then obtain ob where ob: "sign_decision_record sample_prims sample_record ALG_MLDSA65 [7] = Inr ob" by (auto simp: is_ok_iff)
  have l: "profile_min_level PROFILE_PUBLIC \<le> fst (alg_level ALG_MLDSA65)" by (simp add: profile_min_level_def alg_level_def alg_defs profile_defs)
  have "record_wf sample_record" by (simp add: record_wf_def sample_record_def)
  from decision_record_exact [OF sample_prims_correct(1) sample_prims_sel(4) l this ob, of sample_record] ob show ?thesis
    by (simp add: sample_record_def ordering_ok_def correspondence_only_def ordering_defs)
qed

text \<open>C17: Anchoring. Take a checkpoint over a list of record ids, a witness countersignature that names it, and any inclusion
  proof whose path verifies for a leaf at an index under the checkpoint's size and root. Then the leaf is the
  record id at that index; a second checkpoint that the same countersignature accompanies is the same checkpoint, and
  a second list with that size and root is the same list, unless the digest collides on what was hashed.\<close>

theorem anchored_record_is_a_leaf:
  assumes "digest_length P" and "ck_size c = int (length ids)" and "ck_root c = merkle_root P ids"
    and "checkpoint_root_id P c = Inr cid" and "validate_witness_cosign w cid = Inr ()"
    and "0 \<le> ip_index p" and "verify_inclusion_proof P (ip_leaf p) (ip_index p) (ck_size c) (ip_path p) (ck_root c) = Inr ()"
    and "inj_on (sha384 P) (merkle_inputs P ids \<union> proof_inputs P (ip_leaf p) (ip_index p) (ck_size c) (ip_path p))"
  shows "ip_index p < int (length ids) \<and> ip_leaf p = ids ! nat (ip_index p) \<and> wc_root w = cid \<and>
    (\<forall>c' cid' m n. checkpoint_root_id P c' = Inr cid' \<longrightarrow> validate_witness_cosign w cid' = Inr () \<longrightarrow>
      checkpoint_root_bytes c = Inr m \<longrightarrow> checkpoint_root_bytes c' = Inr n \<longrightarrow> inj_on (sha384 P) {m, n} \<longrightarrow> c' = c) \<and>
    (\<forall>ids'. int (length ids') = ck_size c \<longrightarrow> merkle_root P ids' = ck_root c \<longrightarrow>
      inj_on (sha384 P) (merkle_inputs P ids \<union> merkle_inputs P ids') \<longrightarrow> ids' = ids)"
proof -
  have v: "ip_index p < int (length ids)" "recompute_root P (leaf_hash P (ip_leaf p)) (ip_index p) (int (length ids)) (ip_path p) = Some (merkle_root P ids)"
    using assms(7) by (auto simp: verify_inclusion_proof_def assms(2,3) split: if_splits option.splits)
  have leaf: "ip_leaf p = ids ! nat (ip_index p)"
    using recompute_sound [OF assms(1,6) v] assms(8) by (simp add: assms(2))
  have w: "wc_root w = cid" using assms(5) by (simp add: validate_witness_cosign_def split: if_splits)
  have same: "c' = c" if "checkpoint_root_id P c' = Inr cid'" "validate_witness_cosign w cid' = Inr ()" "checkpoint_root_bytes c = Inr m"
    "checkpoint_root_bytes c' = Inr n" "inj_on (sha384 P) {m, n}" for c' cid' m n
  proof -
    have "cid' = cid" using that(2) w by (simp add: validate_witness_cosign_def split: if_splits)
    then have "content_id_bytes (sha384 P) m = content_id_bytes (sha384 P) n" using that assms(4) by (simp add: checkpoint_root_id_def)
    then show ?thesis using checkpoint_body.id_names [OF _ _ that(3,4,5)] by simp
  qed
  have list: "ids' = ids" if "int (length ids') = ck_size c" "merkle_root P ids' = ck_root c"
    "inj_on (sha384 P) (merkle_inputs P ids \<union> merkle_inputs P ids')" for ids'
    using merkle_root_inject [OF assms(1), of ids ids'] that assms(2,3) v(1) assms(6) by (cases "ids = []") auto
  show ?thesis by (intro conjI allI impI; (rule v(1) leaf w | rule same; assumption | rule list; assumption))
qed

definition sample_checkpoint :: checkpoint_root where
  "sample_checkpoint =
     \<lparr>ck_log = [5], ck_size = 2, ck_root = merkle_root padded_prims [[1], [2]], ck_prev = genesis_prev, ck_at = 6\<rparr>"

theorem anchored_record_is_a_leaf_witness:
  "\<exists>cid (w :: witness_cosign) (p :: inclusion_proof). checkpoint_root_id padded_prims sample_checkpoint = Inr cid \<and> validate_witness_cosign w cid = Inr () \<and>
     verify_inclusion_proof padded_prims (ip_leaf p) (ip_index p) (ck_size sample_checkpoint) (ip_path p) (ck_root sample_checkpoint) = Inr () \<and>
     ip_leaf p = [[1], [2]] ! nat (ip_index p)"
proof -
  have "is_ok (checkpoint_root_id padded_prims sample_checkpoint)" by code_simp
  then obtain cid where cid: "checkpoint_root_id padded_prims sample_checkpoint = Inr cid" by (auto simp: is_ok_iff)
  define w where "w = \<lparr>wc_witness = [3], wc_root = cid, wc_at = 7\<rparr>"
  define p where "p = \<lparr>ip_root = cid, ip_leaf = [2], ip_index = 1, ip_path = gen_path padded_prims [[1], [2]] 1\<rparr>"
  have c: "ck_size sample_checkpoint = int (length [[1 :: byte], [2]])" "ck_root sample_checkpoint = merkle_root padded_prims [[1], [2]]"
    by (simp_all add: sample_checkpoint_def)
  have w: "validate_witness_cosign w cid = Inr ()" by (simp add: validate_witness_cosign_def w_def)
  have i: "0 \<le> ip_index p" by (simp add: p_def)
  have v: "verify_inclusion_proof padded_prims (ip_leaf p) (ip_index p) (ck_size sample_checkpoint) (ip_path p) (ck_root sample_checkpoint) = Inr ()"
    using recompute_gen_path [of 1 "[[1], [2]]" padded_prims] by (simp add: c p_def verify_inclusion_proof_def)
  have j: "inj_on (sha384 padded_prims) (merkle_inputs padded_prims [[1], [2]] \<union>
      proof_inputs padded_prims (ip_leaf p) (ip_index p) (ck_size sample_checkpoint) (ip_path p))"
    using padded_two_leaves by (simp add: c p_def)
  have "ip_leaf p = [[1], [2]] ! nat (ip_index p)"
    using anchored_record_is_a_leaf [OF padded_digest_length c cid w i v j] by (elim conjE)
  with cid w v show ?thesis by (intro exI conjI)
qed

end
