(* ===== verification/Ez.thy ===== *)
theory Ez
  imports Rooms
begin

text \<open>
  The convenience surface (\<^verbatim>\<open>impl/python/naalp/ez.py\<close>): a signer that derives its key and its self-certifying id from a
  seed, one call that signs a message on a registered channel, and one that verifies a received object. System
  randomness and the clock are the caller's arguments here.
\<close>

section \<open>Signing and verifying in one call\<close>

definition KEYGEN_PARAM :: "(int \<times> string) list" where
  "KEYGEN_PARAM = [(ALG_MLDSA65, ''ML-DSA-65''), (ALG_MLDSA87, ''ML-DSA-87'')]"

record ez_signer =
  ez_seed :: bytes
  ez_alg :: int
  ez_profile :: int
  ez_public_key :: bytes
  ez_signer_id :: pystr

definition new_signer :: "prims \<Rightarrow> bytes \<Rightarrow> int \<Rightarrow> int \<Rightarrow> ez_signer res" where
  "new_signer P seed alg prof =
     (case map_of KEYGEN_PARAM alg of
        None \<Rightarrow> Inl ValueError
      | Some param \<Rightarrow>
          if length seed \<noteq> 32 then Inl ValueError
          else rbind (mldsa_keygen P param seed) (\<lambda>pk.
            rbind (signer_id P alg pk) (\<lambda>i.
              Inr \<lparr>ez_seed = seed, ez_alg = alg, ez_profile = prof, ez_public_key = pk, ez_signer_id = i\<rparr>)))"

text \<open>\<^verbatim>\<open>Signer.generate\<close>, with the 32 octets of \<^verbatim>\<open>os.urandom\<close> as an argument.\<close>

definition generate_signer :: "prims \<Rightarrow> bytes \<Rightarrow> int \<Rightarrow> int \<Rightarrow> ez_signer res" where
  "generate_signer P random alg prof =
     (case map_of KEYGEN_PARAM alg of None \<Rightarrow> Inl ValueError | Some _ \<Rightarrow> new_signer P random alg prof)"

definition choose_effect :: "bool \<Rightarrow> int \<Rightarrow> int option \<Rightarrow> int res" where
  "choose_effect variable declared eff =
     (case eff of None \<Rightarrow> if variable then Inl ValueError else Inr declared | Some x \<Rightarrow> Inr x)"

definition ez_sign :: "prims \<Rightarrow> ez_signer \<Rightarrow> int \<Rightarrow> int \<Rightarrow> cbor \<Rightarrow> int option \<Rightarrow> int \<Rightarrow> bytes list \<Rightarrow> (obj \<times> bytes) res" where
  "ez_sign P s ch k payload eff at cs =
     rbind (channel_lookup ch k) (\<lambda>(_, declared, variable).
       rbind (choose_effect variable declared eff) (\<lambda>x.
         rbind (check_effect ch k x) (\<lambda>_.
           rbind (utf8_encode (ez_signer_id s)) (\<lambda>sgnr.
             sign P \<lparr>obj_id = None, kind = k, channel = ch, tier = 0, signer = sgnr, created = at, effect = x, causes = cs,
               profile = ez_profile s, body = payload, ext = None, cext = None, audience = [], suite = 0\<rparr> (ez_alg s) (ez_seed s)))))"

definition ez_registered :: "int \<Rightarrow> int \<Rightarrow> bool" where
  "ez_registered ch k = (case channel_lookup ch k of Inl _ \<Rightarrow> False | Inr _ \<Rightarrow> True)"

definition ez_verify :: "prims \<Rightarrow> bytes \<Rightarrow> bytes \<Rightarrow> int \<Rightarrow> obj res" where
  "ez_verify P public_key envelope_bytes prof = verify P prof ALG_MLDSA65 public_key (Some ez_registered) envelope_bytes []"

section \<open>Properties\<close>

lemma lookup_registered:
  assumes "channel_lookup ch k = Inr (n, declared, variable)"
  shows "0 \<le> ch \<and> ch \<le> 19" and "0 \<le> declared \<and> declared \<le> 3"
proof -
  have t: "list_all (\<lambda>(c, _, ks). 0 \<le> c \<and> c \<le> 19 \<and> list_all (\<lambda>(_, _, e, _). 0 \<le> e \<and> e \<le> 3) ks) TABLE" by code_simp
  obtain nm ks j where m: "(ch, nm, ks) \<in> set TABLE" and f: "(j, n, declared, variable) \<in> set ks"
    using assms by (auto simp: channel_lookup_def find_Some_iff split: option.splits dest!: map_of_SomeD) (metis nth_mem)
  show "0 \<le> ch \<and> ch \<le> 19" "0 \<le> declared \<and> declared \<le> 3"
    using t m f by (fastforce simp: list_all_iff)+
qed

lemma new_signer_Inr:
  "new_signer P seed alg prof = Inr s \<longleftrightarrow>
     length seed = 32 \<and> (\<exists>sk. md_key_derive P alg seed = Inr (ez_public_key s, sk)) \<and> alg \<in> {ALG_MLDSA65, ALG_MLDSA87} \<and>
     signer_id P alg (ez_public_key s) = Inr (ez_signer_id s) \<and> ez_seed s = seed \<and> ez_alg s = alg \<and> ez_profile s = prof"
  by (cases s) (auto simp: new_signer_def KEYGEN_PARAM_def mldsa_keygen_def res_simps alg_defs)

lemma ez_sign_accepted:
  assumes "md_correct P" and "new_signer P seed alg prof = Inr s" and "ez_sign P s ch k payload eff at cs = Inr (o1, bs)"
    and "length bs \<le> MAX_OBJECT_SIZE" and "nesting payload \<le> 14" and "length cs \<le> MAX_CAUSES" and "1 \<le> prof" and "prof \<le> 3"
    and "profile_min_level vp \<le> fst (alg_level alg)" and "\<not> is_rotation_object ch k"
  shows "\<exists>ob n declared variable. ez_verify P (ez_public_key s) bs vp = Inr ob \<and> obj_id ob = obj_id o1 \<and> utf8_encode (ez_signer_id s) = Inr (signer ob) \<and>
    signer_id P alg (ez_public_key s) = Inr (ez_signer_id s) \<and> channel ob = ch \<and> kind ob = k \<and> causes ob = cs \<and> created ob = at \<and>
    body ob = canon payload \<and> channel_lookup ch k = Inr (n, declared, variable) \<and> effect ob \<le> 3 \<and>
    (if variable then eff = Some (effect ob) else effect ob = declared)"
proof -
  obtain n declared variable x sgnr ob where l: "channel_lookup ch k = Inr (n, declared, variable)"
    and x: "choose_effect variable declared eff = Inr x" and c: "check_effect ch k x = Inr ()" and u: "utf8_encode (ez_signer_id s) = Inr sgnr"
    and ob: "ob = \<lparr>obj_id = None, kind = k, channel = ch, tier = 0, signer = sgnr, created = at, effect = x, causes = cs,
        profile = ez_profile s, body = payload, ext = None, cext = None, audience = [], suite = 0\<rparr>"
    and sg: "sign P ob (ez_alg s) (ez_seed s) = Inr (o1, bs)"
    using assms(3) by (auto simp: ez_sign_def rbind_eq_Inr case_prod_eq_Inr)
  note s = assms(2) [unfolded new_signer_Inr]
  then obtain sk where k: "md_key_derive P (ez_alg s) (ez_seed s) = Inr (ez_public_key s, sk)" by auto
  have e: "x \<le> 3" "if variable then eff = Some x else x = declared"
    using c x lookup_registered(2) [OF l] by (auto simp: check_effect_def l DE_def choose_effect_def split: if_splits option.splits)
  have "acceptable (Some ez_registered) [] ob"
    using assms(5-8,10) s e(1) lookup_registered(1) [OF l] by (intro acceptable_plain) (simp_all add: ob ez_registered_def l)
  then have v: "ez_verify P (ez_public_key s) bs vp = Inr (canon_obj o1)"
    unfolding ez_verify_def using assms(9) s by (intro sign_verify [OF assms(1) sg k assms(4)]) (simp_all add: ob)
  obtain i where o1: "o1 = ob\<lparr>obj_id := Some i\<rparr>" using sg by (auto simp: sign_def assign_id_def rbind_eq_Inr Let_def)
  show ?thesis
    by (intro exI [of _ "canon_obj o1"] exI [of _ n] exI [of _ declared] exI [of _ variable] conjI)
      (use v u s l e in \<open>simp_all add: o1 ob canon_obj_def\<close>)
qed

text \<open>One call signs and one call verifies. For a registered channel and kind other than the rotation, what a signer signs is
  accepted under its public key by any verifier whose profile the algorithm meets, and comes back with the
  signer's own self-certifying id, the same channel, kind, causes and body, and an effect that is the registry's declared
  one unless the kind is variable. An unregistered kind, a mislabelled effect or a variable kind without an effect is
  refused before anything is signed.\<close>

theorem ez_roundtrip:
  assumes "md_correct P" and "new_signer P seed alg prof = Inr s" and "ez_sign P s ch k payload eff at cs = Inr (o1, bs)"
    and "length bs \<le> MAX_OBJECT_SIZE" and "nesting payload \<le> 14" and "length cs \<le> MAX_CAUSES" and "1 \<le> prof" and "prof \<le> 3"
    and "profile_min_level vp \<le> fst (alg_level alg)" and "\<not> is_rotation_object ch k"
  shows "\<exists>ob n declared variable. ez_verify P (ez_public_key s) bs vp = Inr ob \<and> utf8_encode (ez_signer_id s) = Inr (signer ob) \<and>
    signer_id P alg (ez_public_key s) = Inr (ez_signer_id s) \<and> channel ob = ch \<and> kind ob = k \<and> causes ob = cs \<and> created ob = at \<and>
    body ob = canon payload \<and> channel_lookup ch k = Inr (n, declared, variable) \<and> effect ob \<le> 3 \<and>
    (if variable then eff = Some (effect ob) else effect ob = declared)"
  using ez_sign_accepted [OF assms] by blast

definition short_key_prims :: prims where
  "short_key_prims = sample_prims\<lparr>md_key_derive := \<lambda>alg seed. Inr (take 1 seed, take 1 seed)\<rparr>"

definition sample_ez :: ez_signer where
  "sample_ez = \<lparr>ez_seed = replicate 32 7, ez_alg = - 49, ez_profile = 1, ez_public_key = [7], ez_signer_id = pystr ''bcibzcjah''\<rparr>"

lemma short_key_correct: "md_correct short_key_prims"
  by (auto simp: md_correct_def short_key_prims_def sample_prims_def)

lemma sample_short_sha: "sha256 short_key_prims = sha256 sample_prims"
  by (simp add: short_key_prims_def)

lemma sample_ez_new: "new_signer short_key_prims (replicate 32 7) (- 49) 1 = Inr sample_ez"
proof -
  have "signer_id short_key_prims (- 49) [7] = signer_id sample_prims (- 49) [7]"
    by (simp only: signer_id_def sample_short_sha)
  then show ?thesis unfolding new_signer_Inr using sample_ids(1) by (simp add: sample_ez_def short_key_prims_def alg_defs)
qed

theorem ez_roundtrip_witness:
  "\<exists>o1 bs ob. ez_sign short_key_prims sample_ez 1 3 (U 5) None 9 [] = Inr (o1, bs) \<and>
     ez_verify short_key_prims [7] bs 1 = Inr ob \<and> effect ob = 0"
proof -
  have "case ez_sign short_key_prims sample_ez 1 3 (U 5) None 9 [] of Inl _ \<Rightarrow> False | Inr (o1, bs) \<Rightarrow> length bs \<le> 1000" by code_simp
  then obtain o1 bs where s: "ez_sign short_key_prims sample_ez 1 3 (U 5) None 9 [] = Inr (o1, bs)" and "length bs \<le> 1000"
    by (auto split: sum.splits)
  then have len: "length bs \<le> MAX_OBJECT_SIZE" by (simp add: MAX_OBJECT_SIZE_def)
  have l: "channel_lookup 1 3 = Inr (''MemoryRead'', 0, False)" by code_simp
  have "\<exists>ob. ez_verify short_key_prims [7] bs 1 = Inr ob \<and> effect ob = 0"
    using ez_roundtrip [OF short_key_correct sample_ez_new s len, where vp = 1] l
    by (auto simp: MAX_CAUSES_def is_rotation_object_def profile_min_level_def alg_level_def alg_defs profile_defs sample_ez_def)
  with s show ?thesis by blast
qed

end
