(* ===== verification/Pinning.thy ===== *)
theory Pinning
  imports Identity RotationObject
begin

text \<open>
  The fingerprint cache (\<^verbatim>\<open>ecosystem/naalp-fingerprint-cache\<close>): the key first seen for a logical identity is pinned, and
  another key is accepted in its place only with a rotation object that the pinned key has co-signed.
\<close>

section \<open>The cache\<close>

definition is_identity_rotation_kind :: "int \<Rightarrow> int \<Rightarrow> bool" where
  "is_identity_rotation_kind ch k \<longleftrightarrow> ch = 3 \<and> k = 0"

record pinned_identity =
  pi_alg :: int
  pi_pubkey :: bytes
  pi_fingerprint :: pystr

record fingerprint_cache =
  fc_profile :: int
  fc_pins :: "pystr \<rightharpoonup> pinned_identity"

definition new_cache :: "int \<Rightarrow> fingerprint_cache" where
  "new_cache prof = \<lparr>fc_profile = prof, fc_pins = Map.empty\<rparr>"

definition get_pin :: "fingerprint_cache \<Rightarrow> pystr \<Rightarrow> pinned_identity option" where
  "get_pin c lid = fc_pins c lid"

text \<open>A call returns the cache together with its result, since a refusal leaves a cache behind too.\<close>

definition check_and_pin ::
  "prims \<Rightarrow> fingerprint_cache \<Rightarrow> pystr \<Rightarrow> int \<Rightarrow> bytes \<Rightarrow> bytes option \<Rightarrow> fingerprint_cache \<times> pinned_identity res" where
  "check_and_pin P c lid alg pubkey rotation_object =
     (case signer_id P alg pubkey of
        Inl e \<Rightarrow> (c, Inl e)
      | Inr new_fingerprint \<Rightarrow>
          let entry = \<lparr>pi_alg = alg, pi_pubkey = pubkey, pi_fingerprint = new_fingerprint\<rparr>;
              pinned_now = c\<lparr>fc_pins := (fc_pins c)(lid \<mapsto> entry)\<rparr> in
          (case fc_pins c lid of
             None \<Rightarrow> (pinned_now, Inr entry)
           | Some pinned \<Rightarrow>
               if pi_fingerprint pinned = new_fingerprint then (c, Inr pinned)
               else (case rotation_object of
                   None \<Rightarrow> (c, Inl (FingerprintCacheError ''KeyPinViolation''))
                 | Some ro \<Rightarrow>
                     (case verify_rotation_object P (fc_profile c) (pi_alg pinned) (pi_pubkey pinned) alg pubkey
                         (Some is_identity_rotation_kind) ro [] of
                        Inl e \<Rightarrow> (c, Inl e)
                      | Inr _ \<Rightarrow> (pinned_now, Inr entry)))))"

section \<open>Histories of a cache\<close>

record pin_call =
  pc_id :: pystr
  pc_alg :: int
  pc_pubkey :: bytes
  pc_rotation :: "bytes option"

definition pin_step :: "prims \<Rightarrow> fingerprint_cache \<Rightarrow> pin_call \<Rightarrow> fingerprint_cache \<times> pinned_identity res" where
  "pin_step P c k = check_and_pin P c (pc_id k) (pc_alg k) (pc_pubkey k) (pc_rotation k)"

text \<open>\<open>pin_run P c tr c'\<close>: the calls \<open>tr\<close> with their results lead from \<open>c\<close> to \<open>c'\<close>.\<close>

inductive pin_run :: "prims \<Rightarrow> fingerprint_cache \<Rightarrow> (pin_call \<times> pinned_identity res) list \<Rightarrow> fingerprint_cache \<Rightarrow> bool" for P c where
  start: "pin_run P c [] c"
| call: "pin_run P c tr d \<Longrightarrow> pin_step P d k = (d', r) \<Longrightarrow> pin_run P c (tr @ [(k, r)]) d'"

text \<open>The abstract view: an identity moves from one pinned key to the next only by a rotation the old key co-signed.\<close>

definition rotated :: "prims \<Rightarrow> int \<Rightarrow> pinned_identity \<Rightarrow> pinned_identity \<Rightarrow> bool" where
  "rotated P prof old new \<longleftrightarrow>
     (\<exists>ro ob. verify_rotation_object P prof (pi_alg old) (pi_pubkey old) (pi_alg new) (pi_pubkey new)
        (Some is_identity_rotation_kind) ro [] = Inr ob)"

definition genuine :: "prims \<Rightarrow> pinned_identity \<Rightarrow> bool" where
  "genuine P p \<longleftrightarrow> signer_id P (pi_alg p) (pi_pubkey p) = Inr (pi_fingerprint p)"

text \<open>The successive entries of the answers to one identity, without repetitions.\<close>

definition answers :: "pystr \<Rightarrow> (pin_call \<times> pinned_identity res) list \<Rightarrow> pinned_identity list" where
  "answers lid tr = List.map_filter (\<lambda>(k, r). if pc_id k = lid then (case r of Inl _ \<Rightarrow> None | Inr p \<Rightarrow> Some p) else None) tr"

fun rotation_chain :: "prims \<Rightarrow> int \<Rightarrow> pinned_identity list \<Rightarrow> bool" where
  "rotation_chain P prof (p # q # ps) \<longleftrightarrow> (p = q \<or> rotated P prof p q) \<and> rotation_chain P prof (q # ps)"
| "rotation_chain P prof _ \<longleftrightarrow> True"

section \<open>The decision table\<close>

lemma answers_simps [simp]:
  "answers lid [] = []"
  "answers lid (tr @ [(k, Inl e)]) = answers lid tr"
  "answers lid (tr @ [(k, Inr p)]) = answers lid tr @ (if pc_id k = lid then [p] else [])"
  by (auto simp: answers_def map_filter_def)

lemma rotation_chain_snoc:
  "rotation_chain P prof (ps @ [q]) \<longleftrightarrow> rotation_chain P prof ps \<and> (ps = [] \<or> last ps = q \<or> rotated P prof (last ps) q)"
  by (induction P prof ps rule: rotation_chain.induct) auto

definition cache_ok :: "prims \<Rightarrow> fingerprint_cache \<Rightarrow> bool" where
  "cache_ok P c \<longleftrightarrow> (\<forall>lid p. fc_pins c lid = Some p \<longrightarrow> genuine P p)"

lemma check_and_pin_cases:
  assumes "check_and_pin P c lid alg pk ro = (c', r)"
  obtains (refused) e where "r = Inl e" "c' = c"
  | (kept) p where "r = Inr p" "c' = c" "fc_pins c lid = Some p" "signer_id P alg pk = Inr (pi_fingerprint p)"
  | (pinned) p where "r = Inr p" "c' = c\<lparr>fc_pins := (fc_pins c)(lid \<mapsto> p)\<rparr>" "genuine P p" "pi_alg p = alg" "pi_pubkey p = pk"
      "fc_pins c lid = None \<or> (\<exists>old. fc_pins c lid = Some old \<and> pi_fingerprint old \<noteq> pi_fingerprint p \<and>
         (\<exists>b ob. ro = Some b \<and> verify_rotation_object P (fc_profile c) (pi_alg old) (pi_pubkey old) alg pk
            (Some is_identity_rotation_kind) b [] = Inr ob))"
proof (cases "signer_id P alg pk")
  case (Inl e)
  then show ?thesis using assms refused by (auto simp: check_and_pin_def)
next
  case (Inr f)
  let ?p = "\<lparr>pi_alg = alg, pi_pubkey = pk, pi_fingerprint = f\<rparr>"
  have g: "genuine P ?p" using Inr by (simp add: genuine_def)
  show ?thesis
    using assms Inr refused kept pinned [of ?p, OF _ _ g]
    by (auto simp: check_and_pin_def Let_def split: option.splits if_splits sum.splits)
qed

definition tracks :: "prims \<Rightarrow> int \<Rightarrow> (pin_call \<times> pinned_identity res) list \<Rightarrow> fingerprint_cache \<Rightarrow> bool" where
  "tracks P prof tr c \<longleftrightarrow> fc_profile c = prof \<and>
     (\<forall>lid. fc_pins c lid = (if answers lid tr = [] then None else Some (last (answers lid tr))) \<and>
        rotation_chain P prof (answers lid tr) \<and> (\<forall>p \<in> set (answers lid tr). genuine P p))"

lemma tracks_step:
  assumes t: "tracks P prof tr c" and s: "pin_step P c k = (c', r)"
  shows "tracks P prof (tr @ [(k, r)]) c'"
  using s unfolding pin_step_def
proof (cases rule: check_and_pin_cases)
  case refused
  then show ?thesis using t by (auto simp: tracks_def)
next
  case (kept p)
  then have "answers (pc_id k) tr \<noteq> []" "last (answers (pc_id k) tr) = p"
    using t by (auto simp: tracks_def split: if_splits)
  moreover from this have "genuine P p" using t by (metis last_in_set tracks_def)
  ultimately show ?thesis using t kept(1,2) by (auto simp: tracks_def rotation_chain_snoc)
next
  case (pinned p)
  have "answers (pc_id k) tr = [] \<or> rotated P prof (last (answers (pc_id k) tr)) p"
    using t pinned(4-6) by (auto simp: tracks_def rotated_def split: if_splits)
  then show ?thesis using t pinned(1-3) by (auto simp: tracks_def rotation_chain_snoc)
qed

lemma run_tracks: "pin_run P (new_cache prof) tr c \<Longrightarrow> tracks P prof tr c"
  by (induction rule: pin_run.induct) (auto simp: tracks_step, simp add: tracks_def new_cache_def)

section \<open>Properties of the cache\<close>

text \<open>C27: Continuity. After any sequence of accepted and refused calls on a new cache, the pin of an identity is the entry last
  answered for it, if any; every entry carries the id of its own key; and each entry answered for an identity is the one
  before it or is reached from it by a rotation object that verifies with the earlier key as the old key and the later one
  as the new key. A further call is accepted only for the pinned fingerprint, or on first use, or with such a rotation;
  an accepted call answers with the key presented, unless SHA-256 collides on the two tagged keys; and a refused call
  leaves the cache as it was.\<close>

theorem pins_follow_rotations:
  assumes "pin_run P (new_cache prof) tr c" and "pin_step P c k = (c', r)"
  shows "(\<forall>lid. get_pin c lid = (if answers lid tr = [] then None else Some (last (answers lid tr))) \<and>
       rotation_chain P prof (answers lid tr) \<and> (\<forall>p \<in> set (answers lid tr). genuine P p)) \<and>
    (case r of
       Inl _ \<Rightarrow> c' = c
     | Inr p \<Rightarrow> get_pin c' (pc_id k) = Some p \<and> genuine P p \<and> signer_id P (pc_alg k) (pc_pubkey k) = Inr (pi_fingerprint p) \<and>
         (get_pin c (pc_id k) = None \<or> get_pin c (pc_id k) = Some p \<or>
          (\<exists>old. get_pin c (pc_id k) = Some old \<and> rotated P prof old p)) \<and>
         (inj_on (sha256 P) {uvarint (the (MULTICODEC (pi_alg p))) @ pi_pubkey p, uvarint (the (MULTICODEC (pc_alg k))) @ pc_pubkey k} \<longrightarrow>
          pi_alg p = pc_alg k \<and> pi_pubkey p = pc_pubkey k) \<and>
         (\<forall>lid. lid \<noteq> pc_id k \<longrightarrow> get_pin c' lid = get_pin c lid))"
proof
  have t: "tracks P prof tr c" by (rule run_tracks [OF assms(1)])
  then show "\<forall>lid. get_pin c lid = (if answers lid tr = [] then None else Some (last (answers lid tr))) \<and>
       rotation_chain P prof (answers lid tr) \<and> (\<forall>p \<in> set (answers lid tr). genuine P p)"
    by (simp add: tracks_def get_pin_def)
  have g: "genuine P p" if "fc_pins c lid = Some p" for lid p
    using t that by (auto simp: tracks_def split: if_splits)
  have inj: "pi_alg p = pc_alg k \<and> pi_pubkey p = pc_pubkey k"
    if "genuine P p" "signer_id P (pc_alg k) (pc_pubkey k) = Inr (pi_fingerprint p)"
      "inj_on (sha256 P) {uvarint (the (MULTICODEC (pi_alg p))) @ pi_pubkey p, uvarint (the (MULTICODEC (pc_alg k))) @ pc_pubkey k}" for p
    using signer_id_inject [of P "pi_alg p" "pi_pubkey p" "pi_fingerprint p" "pc_alg k" "pc_pubkey k"] that by (simp add: genuine_def)
  from assms(2) [unfolded pin_step_def]
  show "case r of
       Inl _ \<Rightarrow> c' = c
     | Inr p \<Rightarrow> get_pin c' (pc_id k) = Some p \<and> genuine P p \<and> signer_id P (pc_alg k) (pc_pubkey k) = Inr (pi_fingerprint p) \<and>
         (get_pin c (pc_id k) = None \<or> get_pin c (pc_id k) = Some p \<or>
          (\<exists>old. get_pin c (pc_id k) = Some old \<and> rotated P prof old p)) \<and>
         (inj_on (sha256 P) {uvarint (the (MULTICODEC (pi_alg p))) @ pi_pubkey p, uvarint (the (MULTICODEC (pc_alg k))) @ pc_pubkey k} \<longrightarrow>
          pi_alg p = pc_alg k \<and> pi_pubkey p = pc_pubkey k) \<and>
         (\<forall>lid. lid \<noteq> pc_id k \<longrightarrow> get_pin c' lid = get_pin c lid)"
  proof (cases rule: check_and_pin_cases)
    case refused
    then show ?thesis by simp
  next
    case (kept p)
    then show ?thesis using g inj by (auto simp: get_pin_def)
  next
    case (pinned p)
    then show ?thesis using t by (auto simp: get_pin_def genuine_def rotated_def tracks_def)
  qed
qed

theorem pins_follow_rotations_witness:
  "\<exists>c1 c2 r1 r2 p. check_and_pin sample_prims (new_cache 1) [112] (- 49) [7] None = (c1, Inr p) \<and> pi_pubkey p = [7] \<and>
     check_and_pin sample_prims c1 [112] (- 19) [7] None = (c2, r2) \<and> get_pin c1 [112] = Some p \<and>
     get_pin c2 [112] = Some p"
proof -
  define p where "p = \<lparr>pi_alg = - 49, pi_pubkey = [7], pi_fingerprint = pystr ''bcibzcjah''\<rparr>"
  define c1 where "c1 = (new_cache 1)\<lparr>fc_pins := [[112] \<mapsto> p]\<rparr>"
  let ?k = "\<lparr>pc_id = [112], pc_alg = - 49, pc_pubkey = [7], pc_rotation = None\<rparr>"
  let ?l = "\<lparr>pc_id = [112], pc_alg = - 19, pc_pubkey = [7], pc_rotation = None\<rparr>"
  have s1: "pin_step sample_prims (new_cache 1) ?k = (c1, Inr p)"
    using sample_ids(1) by (simp add: pin_step_def check_and_pin_def new_cache_def p_def c1_def Let_def)
  have run: "pin_run sample_prims (new_cache 1) [(?k, Inr p)] c1"
    using pin_run.call [OF pin_run.start s1] by simp
  obtain c2 r2 where s2: "pin_step sample_prims c1 ?l = (c2, r2)" by fastforce
  note w = pins_follow_rotations [OF run s2]
  have pin: "get_pin c1 [112] = Some p" using w by (simp add: answers_def map_filter_def)
  have "get_pin c2 [112] = Some p"
  proof (cases r2)
    case (Inl e)
    then show ?thesis using w pin by simp
  next
    case (Inr q)
    have "signer_id sample_prims (- 19) [7] \<noteq> Inr (pystr ''bcibzcjah'')"
      using signer_id_inject [OF sample_ids(1), of "- 19" "[7]"] by (auto simp: inj_on_def)
    then show ?thesis using s2 Inr by (auto simp: pin_step_def check_and_pin_def c1_def p_def get_pin_def Let_def split: sum.splits)
  qed
  then show ?thesis using s1 s2 pin by (auto simp: pin_step_def p_def)
qed

end
