(* ===== verification/Gate.thy ===== *)
theory Gate
  imports Ledger
begin

text \<open>
  What every gate in front of the consume ledger shares. A gate is a step relation with a view of its ledger and, for each
  event, the approval id the event spent, if any; the one law is that an event moves the ledger by exactly that consume and
  an event without an id leaves it alone. Then no id is spent twice in any history of the gate.
\<close>

section \<open>Histories\<close>

inductive run_of :: "('s \<Rightarrow> 'e \<Rightarrow> 's \<Rightarrow> bool) \<Rightarrow> 's \<Rightarrow> 'e list \<Rightarrow> 's \<Rightarrow> bool" for step s where
  start: "run_of step s [] s"
| more: "run_of step s tr t \<Longrightarrow> step t e u \<Longrightarrow> run_of step s (tr @ [e]) u"

lemma run_of_snoc: "run_of step s (tr @ [e]) u \<longleftrightarrow> (\<exists>t. run_of step s tr t \<and> step t e u)"
proof
  assume "run_of step s (tr @ [e]) u"
  then show "\<exists>t. run_of step s tr t \<and> step t e u" by (cases rule: run_of.cases) auto
qed (blast intro: run_of.more)

lemma run_of_one: "step s e u \<Longrightarrow> run_of step s [e] u"
  using run_of.more [OF run_of.start, of step s e u] by simp

lemma run_of_split:
  assumes "run_of step s (xs @ e # ys) u"
  obtains t t' where "run_of step s xs t" and "step t e t'" and "run_of step t' ys u"
proof -
  have "\<exists>t t'. run_of step s xs t \<and> step t e t' \<and> run_of step t' ys u"
    using assms
  proof (induction ys arbitrary: u rule: rev_induct)
    case Nil
    then show ?case using run_of_snoc [of step s xs e] run_of.start by fastforce
  next
    case (snoc y ys)
    then obtain v where "run_of step s (xs @ e # ys) v" "step v y u"
      using run_of_snoc [of step s "xs @ e # ys" y u] by auto
    with snoc.IH show ?case by (blast intro: run_of.more)
  qed
  with that show ?thesis by blast
qed

section \<open>What an approval must say\<close>

text \<open>\<open>m\<close> is the signed body of the approval; its content id is the id that is spent.\<close>

definition approval_covers ::
  "prims \<Rightarrow> int \<Rightarrow> bytes \<Rightarrow> pystr \<Rightarrow> cbor \<Rightarrow> int \<Rightarrow> int \<Rightarrow> approval_record \<Rightarrow> bytes \<Rightarrow> bytes \<Rightarrow> bool" where
  "approval_covers P alg pk aud args eff t rec sig m \<longleftrightarrow>
     approval_bytes rec = Inr m \<and> cose_verify1_raw P alg pk m sig = Inr True \<and> content_id (sha384 P) args = Inr (approves rec) \<and>
     t \<le> not_after rec \<and> grant_effect rec \<le> 3 \<and> eff \<le> grant_effect rec \<and> (ap_audience rec = [] \<or> ap_audience rec = aud)"

lemma covered_consume:
  assumes "content_id (sha384 P) args = Inr args_id"
  shows "verify_audience rec aud = Inr () \<and> consume_approval P rec alg pk sig args_id t eff led w = Inr (led', e) \<longleftrightarrow>
    (\<exists>m. approval_covers P alg pk aud args eff t rec sig m \<and> consume P led (content_id_bytes (sha384 P) m) w = Inr (led', e))"
  using assms
  by (auto simp: approval_covers_def verify_audience_def consume_approval_Inr verify_approval_Inr approval_record_id_def rbind_eq_Inr)

lemma covers_id: "approval_covers P alg pk aud args eff t rec sig m \<Longrightarrow> approval_record_id P rec = Inr (content_id_bytes (sha384 P) m)"
  by (simp add: approval_covers_def approval_record_id_def)

section \<open>Gates\<close>

locale spend_gate =
  fixes P :: prims
    and led :: "'s \<Rightarrow> ledger"
    and step :: "'s \<Rightarrow> 'e \<Rightarrow> 's \<Rightarrow> bool"
    and spent :: "'e \<Rightarrow> bytes option"
  assumes step_quiet: "step s e s' \<Longrightarrow> spent e = None \<Longrightarrow> ledger_ok P (led s) \<Longrightarrow> led s' = led s"
    and step_spends: "step s e s' \<Longrightarrow> spent e = Some aid \<Longrightarrow> \<exists>w en. consume P (led s) aid w = Inr (led s', en)"
begin

definition spends :: "'e list \<Rightarrow> bytes list" where
  "spends tr = List.map_filter spent tr"

lemma spends_simps [simp]:
  "spends [] = []"
  "spends (tr @ [e]) = spends tr @ (case spent e of None \<Rightarrow> [] | Some aid \<Rightarrow> [aid])"
  by (auto simp: spends_def map_filter_def split: option.split)

lemma run_is_ledger_run:
  assumes "run_of step s tr t" and "ledger_ok P (led s)"
  shows "\<exists>ltr. ledger_run P (led s) ltr (led t) \<and> map (op_id \<circ> fst) (winners ltr) = spends tr"
  using assms(1)
proof induction
  case start
  then show ?case using ledger_run.start by (intro exI [of _ "[]"]) simp
next
  case (more tr t e u)
  then obtain ltr where l: "ledger_run P (led s) ltr (led t)" "map (op_id \<circ> fst) (winners ltr) = spends tr" by blast
  have ok: "ledger_ok P (led t)" using run_reaches [OF l(1) assms(2)] by (simp add: run_inv_def)
  show ?case
  proof (cases "spent e")
    case None
    then show ?thesis using step_quiet [OF more.hyps(2) None ok] l by (intro exI [of _ ltr]) (simp add: comp_def)
  next
    case (Some aid)
    then obtain w en where "perform P (led t) (Consume aid w) = Inr (led u, en)" using step_spends [OF more.hyps(2)] by auto
    from ledger_run.accept [OF l(1) this] show ?thesis
      using Some l(2) by (intro exI [of _ "ltr @ [(Consume aid w, Inr en)]"]) (simp add: comp_def)
  qed
qed

lemma spends_in: "spent e = Some aid \<Longrightarrow> aid \<in> set (spends (xs @ e # ys))"
  by (force simp: spends_def map_filter_def)

lemma spent_once:
  assumes "run_of step s tr t" and "ledger_ok P (led s)"
  shows "distinct (spends tr)" and "aid \<in> set (spends tr) \<Longrightarrow> \<not> is_consumed (led s) aid"
    and "is_consumed (led t) aid \<longleftrightarrow> is_consumed (led s) aid \<or> aid \<in> set (spends tr)" and "ledger_ok P (led t)"
proof -
  obtain ltr where l: "ledger_run P (led s) ltr (led t)" "map (op_id \<circ> fst) (winners ltr) = spends tr"
    using run_is_ledger_run [OF assms] by blast
  note inv = run_reaches [OF l(1) assms(2)]
  show "distinct (spends tr)" "ledger_ok P (led t)" using inv l(2) by (simp_all add: run_inv_def)
  have s: "set (spends tr) = (op_id \<circ> fst) ` set (winners ltr)" by (simp flip: l(2))
  show "is_consumed (led t) aid \<longleftrightarrow> is_consumed (led s) aid \<or> aid \<in> set (spends tr)"
    unfolding s by (rule run_inv_consumed [OF inv])
  show "aid \<in> set (spends tr) \<Longrightarrow> \<not> is_consumed (led s) aid"
    using inv unfolding s run_inv_def is_consumed_def by auto
qed

end

end
