(* ===== verification/UseGuard.thy ===== *)
theory UseGuard
  imports Gate Identity
begin

text \<open>
  The verify-at-use guard (\<^verbatim>\<open>ecosystem/naalp-verify-at-use\<close>): at the instant an action is about to run, its approval is checked
  again in full, the approver's key must not be revoked, and the approval is spent in the ledger before the action runs.
\<close>

section \<open>The guard\<close>

text \<open>
  An action's \<^verbatim>\<open>run\<close> is a function on the world it acts on, returning a value or an exception. The guard's clock is the
  argument \<open>now\<close> of the operations that read it.
\<close>

record ('w, 'r) guarded_action =
  ga_args :: cbor
  ga_effect :: int
  ga_run :: "'w \<Rightarrow> 'w \<times> 'r res"
  ga_kind :: pystr

record use_guard =
  ug_ledger :: ledger
  ug_approver_alg :: int
  ug_approver_pubkey :: bytes
  ug_audience :: pystr
  ug_identity :: pystr
  ug_revocations :: "pystr \<rightharpoonup> revocation_record"

definition use_time :: "int option \<Rightarrow> int \<Rightarrow> int" where
  "use_time pos_time now = (case pos_time of None \<Rightarrow> now | Some t \<Rightarrow> t)"

definition key_live :: "prims \<Rightarrow> use_guard \<Rightarrow> int \<Rightarrow> unit res" where
  "key_live P g t =
     rbind (signer_id P (ug_approver_alg g) (ug_approver_pubkey g)) (\<lambda>approver_id.
       case ug_revocations g approver_id of
         None \<Rightarrow> Inr ()
       | Some revocation \<Rightarrow> if revoked_at revocation t then Inl (ApprovalError ''KeyRevoked'') else Inr ())"

definition guard_verify_and_consume ::
  "prims \<Rightarrow> use_guard \<Rightarrow> approval_record \<Rightarrow> bytes \<Rightarrow> bytes \<Rightarrow> int \<Rightarrow> int option \<Rightarrow> int \<Rightarrow> (use_guard \<times> entry) res" where
  "guard_verify_and_consume P g rec sig args_content_id required_effect pos_time now =
     (let t = use_time pos_time now in
      rbind (key_live P g t) (\<lambda>_.
        rbind (verify_audience rec (ug_audience g)) (\<lambda>_.
          rbind (consume_approval P rec (ug_approver_alg g) (ug_approver_pubkey g) sig args_content_id t required_effect
              (ug_ledger g) (ug_identity g)) (\<lambda>(led', e).
            Inr (g\<lparr>ug_ledger := led'\<rparr>, e)))))"

text \<open>\<^verbatim>\<open>execute\<close> reads the clock once, before the content id is computed, and hands that instant on.\<close>

definition authorise_use ::
  "prims \<Rightarrow> use_guard \<Rightarrow> ('w, 'r) guarded_action \<Rightarrow> approval_record \<Rightarrow> bytes \<Rightarrow> int \<Rightarrow> (use_guard \<times> entry) res" where
  "authorise_use P g a rec sig t =
     rbind (content_id (sha384 P) (ga_args a)) (\<lambda>args_id. guard_verify_and_consume P g rec sig args_id (ga_effect a) (Some t) t)"

definition execute_guarded ::
  "prims \<Rightarrow> use_guard \<Rightarrow> ('w, 'r) guarded_action \<Rightarrow> approval_record \<Rightarrow> bytes \<Rightarrow> int option \<Rightarrow> int \<Rightarrow> 'w \<Rightarrow> use_guard \<times> 'w \<times> 'r res" where
  "execute_guarded P g a rec sig pos_time now w =
     (case authorise_use P g a rec sig (use_time pos_time now) of
        Inl e \<Rightarrow> (g, w, Inl e)
      | Inr (g', _) \<Rightarrow> (case ga_run a w of (w', r) \<Rightarrow> (g', w', r)))"

definition register_revocation :: "use_guard \<Rightarrow> pystr \<Rightarrow> revocation_record \<Rightarrow> use_guard" where
  "register_revocation g sid rec = g\<lparr>ug_revocations := (ug_revocations g)(sid \<mapsto> rec)\<rparr>"

section \<open>Histories of a guard\<close>

datatype ('w, 'r) use_event =
    Ran "('w, 'r) guarded_action" approval_record bytes int
  | Denied
  | Revoked pystr revocation_record
  | Restarted

definition use_event_of ::
  "prims \<Rightarrow> use_guard \<Rightarrow> ('w, 'r) guarded_action \<Rightarrow> approval_record \<Rightarrow> bytes \<Rightarrow> int \<Rightarrow> ('w, 'r) use_event" where
  "use_event_of P g a rec sig t = (if is_ok (authorise_use P g a rec sig t) then Ran a rec sig t else Denied)"

inductive use_step :: "prims \<Rightarrow> use_guard \<times> 'w \<Rightarrow> ('w, 'r) use_event \<Rightarrow> use_guard \<times> 'w \<Rightarrow> bool" for P where
  used: "execute_guarded P g a rec sig pos now w = (g', w', r) \<Longrightarrow>
    use_step P (g, w) (use_event_of P g a rec sig (use_time pos now)) (g', w')"
| revoked: "use_step P (g, w) (Revoked sid r) (register_revocation g sid r, w)"
| restarted: "reopen P (ug_ledger g) = Inr led \<Longrightarrow> use_step P (g, w) Restarted (g\<lparr>ug_ledger := led\<rparr>, w)"

inductive_simps use_step_simps:
  "use_step P (g, w) (Ran a rec sig t) s'"
  "use_step P (g, w) Denied s'"
  "use_step P (g, w) (Revoked sid r) s'"
  "use_step P (g, w) Restarted s'"

definition use_spent :: "prims \<Rightarrow> ('w, 'r) use_event \<Rightarrow> bytes option" where
  "use_spent P ev =
     (case ev of Ran a rec sig t \<Rightarrow> (case approval_record_id P rec of Inl _ \<Rightarrow> None | Inr aid \<Rightarrow> Some aid) | _ \<Rightarrow> None)"

definition revocations_after :: "(pystr \<rightharpoonup> revocation_record) \<Rightarrow> ('w, 'r) use_event list \<Rightarrow> pystr \<rightharpoonup> revocation_record" where
  "revocations_after m tr = fold (\<lambda>ev m. case ev of Revoked sid r \<Rightarrow> m(sid \<mapsto> r) | _ \<Rightarrow> m) tr m"

definition world_after :: "'w \<Rightarrow> ('w, 'r) use_event list \<Rightarrow> 'w" where
  "world_after w tr = fold (\<lambda>ev w. case ev of Ran a rec sig t \<Rightarrow> fst (ga_run a w) | _ \<Rightarrow> w) tr w"

section \<open>One use\<close>

lemma authorise_use_Inr:
  "authorise_use P g a rec sig t = Inr (g', e) \<longleftrightarrow>
     (\<exists>i m led'. signer_id P (ug_approver_alg g) (ug_approver_pubkey g) = Inr i \<and>
        \<not> (\<exists>r. ug_revocations g i = Some r \<and> revoked_at r t) \<and>
        approval_covers P (ug_approver_alg g) (ug_approver_pubkey g) (ug_audience g) (ga_args a) (ga_effect a) t rec sig m \<and>
        consume P (ug_ledger g) (content_id_bytes (sha384 P) m) (ug_identity g) = Inr (led', e) \<and> g' = g\<lparr>ug_ledger := led'\<rparr>)"
proof (cases "content_id (sha384 P) (ga_args a)")
  case (Inl x)
  then show ?thesis by (simp add: authorise_use_def approval_covers_def)
next
  case (Inr args_id)
  let ?rest = "rbind (verify_audience rec (ug_audience g)) (\<lambda>_. rbind (consume_approval P rec (ug_approver_alg g) (ug_approver_pubkey g)
        sig args_id t (ga_effect a) (ug_ledger g) (ug_identity g)) (\<lambda>(led', e). Inr (g\<lparr>ug_ledger := led'\<rparr>, e)))"
  have live: "(\<exists>u. key_live P g t = Inr u) \<longleftrightarrow> (\<exists>i. signer_id P (ug_approver_alg g) (ug_approver_pubkey g) = Inr i \<and>
      \<not> (\<exists>r. ug_revocations g i = Some r \<and> revoked_at r t))"
    by (auto simp: key_live_def rbind_eq_Inr split: option.splits if_splits)
  have "?rest = Inr (g', e) \<longleftrightarrow> (\<exists>led'. (verify_audience rec (ug_audience g) = Inr () \<and> consume_approval P rec (ug_approver_alg g)
      (ug_approver_pubkey g) sig args_id t (ga_effect a) (ug_ledger g) (ug_identity g) = Inr (led', e)) \<and> g' = g\<lparr>ug_ledger := led'\<rparr>)"
    by (auto simp: rbind_eq_Inr)
  then have rest: "?rest = Inr (g', e) \<longleftrightarrow>
      (\<exists>led' m. approval_covers P (ug_approver_alg g) (ug_approver_pubkey g) (ug_audience g) (ga_args a) (ga_effect a) t rec sig m \<and>
        consume P (ug_ledger g) (content_id_bytes (sha384 P) m) (ug_identity g) = Inr (led', e) \<and> g' = g\<lparr>ug_ledger := led'\<rparr>)"
    unfolding covered_consume [OF Inr] by blast
  have "authorise_use P g a rec sig t = rbind (key_live P g t) (\<lambda>_. ?rest)"
    by (simp add: authorise_use_def Inr guard_verify_and_consume_def use_time_def)
  then have "authorise_use P g a rec sig t = Inr (g', e) \<longleftrightarrow> (\<exists>u. key_live P g t = Inr u) \<and> ?rest = Inr (g', e)"
    by (simp add: rbind_eq_Inr [of "key_live P g t"])
  then show ?thesis unfolding live rest by blast
qed

lemma use_step_cases:
  assumes "use_step P (g, w) ev s'"
  obtains (ran) a rec sig t g' e where "ev = Ran a rec sig t" "authorise_use P g a rec sig t = Inr (g', e)" "s' = (g', fst (ga_run a w))"
  | (denied) "ev = Denied" "s' = (g, w)"
  | (revoked) sid r where "ev = Revoked sid r" "s' = (register_revocation g sid r, w)"
  | (restarted) led where "ev = Restarted" "reopen P (ug_ledger g) = Inr led" "s' = (g\<lparr>ug_ledger := led\<rparr>, w)"
  using assms
proof cases
  case (used a rec sig pos now g' w' r)
  then show ?thesis
    using that(1,2) by (cases "authorise_use P g a rec sig (use_time pos now)")
      (auto simp: execute_guarded_def use_event_of_def is_ok_iff split: prod.splits)
qed (use that(3,4) in auto)

interpretation use_gate: spend_gate P "\<lambda>s. ug_ledger (fst s)" "use_step P" "use_spent P" for P :: prims
proof
  fix s s' :: "use_guard \<times> 'w" and e :: "('w, 'r) use_event" and aid
  obtain g w where s: "s = (g, w)" by (cases s)
  assume st: "use_step P s e s'"
  show "ug_ledger (fst s') = ug_ledger (fst s)" if "use_spent P e = None" and "ledger_ok P (ug_ledger (fst s))"
    using st that unfolding s
    by (cases rule: use_step_cases) (auto simp: use_spent_def authorise_use_Inr register_revocation_def covers_id dest: reopen_ok)
  show "\<exists>w en. consume P (ug_ledger (fst s)) aid w = Inr (ug_ledger (fst s'), en)" if "use_spent P e = Some aid"
    using st that unfolding s
    by (cases rule: use_step_cases) (auto simp: use_spent_def authorise_use_Inr covers_id; blast)+
qed

section \<open>Any number of uses\<close>

lemma revocations_after_simps [simp]:
  "revocations_after m [] = m"
  "revocations_after m (tr @ [ev]) = (case ev of Revoked sid r \<Rightarrow> (revocations_after m tr)(sid \<mapsto> r) | _ \<Rightarrow> revocations_after m tr)"
  by (simp_all add: revocations_after_def split: use_event.split)

lemma world_after_simps [simp]:
  "world_after w [] = w"
  "world_after w (tr @ [ev]) = (case ev of Ran a rec sig t \<Rightarrow> fst (ga_run a (world_after w tr)) | _ \<Rightarrow> world_after w tr)"
  by (simp_all add: world_after_def split: use_event.split)

text \<open>A history changes nothing of a guard but its ledger and its revocations, and the world only by the actions that ran.\<close>

lemma use_run_frame:
  assumes "run_of (use_step P) (g, w) tr s'"
  shows "snd s' = world_after w tr" and "ug_revocations (fst s') = revocations_after (ug_revocations g) tr"
    and "ug_approver_alg (fst s') = ug_approver_alg g" and "ug_approver_pubkey (fst s') = ug_approver_pubkey g"
    and "ug_audience (fst s') = ug_audience g" and "ug_identity (fst s') = ug_identity g"
proof -
  have "snd s' = world_after w tr \<and> ug_revocations (fst s') = revocations_after (ug_revocations g) tr \<and>
    ug_approver_alg (fst s') = ug_approver_alg g \<and> ug_approver_pubkey (fst s') = ug_approver_pubkey g \<and>
    ug_audience (fst s') = ug_audience g \<and> ug_identity (fst s') = ug_identity g"
    using assms
  proof (induction rule: run_of.induct)
    case (more tr t e u)
    obtain h v where t: "t = (h, v)" by (cases t)
    from more.hyps(2) more.IH show ?case unfolding t
      by (cases rule: use_step_cases) (auto simp: authorise_use_Inr register_revocation_def)
  qed simp
  then show "snd s' = world_after w tr" "ug_revocations (fst s') = revocations_after (ug_revocations g) tr"
    "ug_approver_alg (fst s') = ug_approver_alg g" "ug_approver_pubkey (fst s') = ug_approver_pubkey g"
    "ug_audience (fst s') = ug_audience g" "ug_identity (fst s') = ug_identity g" by simp_all
qed

text \<open>C16: An approval lets one action run. Let a guard start on any ledger that replays, and let any number of uses,
  registrations of revocations and restarts happen. Then the approvals of the actions that ran are pairwise different and
  were unspent at the start; the world is changed by these actions alone, in their order; and each action ran at an instant
  at which its approval was signed by the approver's key, bound exactly its arguments, had not expired, granted a known
  effect at least the action's, named no other audience, and no revocation registered before had the key revoked.\<close>

theorem guarded_actions_run_once:
  assumes "open_ledger P file auth = Inr (ug_ledger g)" and "run_of (use_step P) (g, w) tr (g', w')"
  shows "distinct (List.map_filter (use_spent P) tr) \<and> w' = world_after w tr \<and>
    (\<forall>pre a rec sig t post. tr = pre @ Ran a rec sig t # post \<longrightarrow>
      (\<exists>m i. approval_covers P (ug_approver_alg g) (ug_approver_pubkey g) (ug_audience g) (ga_args a) (ga_effect a) t rec sig m \<and>
         use_spent P (Ran a rec sig t) = Some (content_id_bytes (sha384 P) m) \<and>
         \<not> is_consumed (ug_ledger g) (content_id_bytes (sha384 P) m) \<and> is_consumed (ug_ledger g') (content_id_bytes (sha384 P) m) \<and>
         signer_id P (ug_approver_alg g) (ug_approver_pubkey g) = Inr i \<and>
         (\<forall>r. revocations_after (ug_revocations g) pre i = Some r \<longrightarrow> \<not> revoked_at r t)))"
proof (intro conjI allI impI)
  have ok: "ledger_ok P (ug_ledger (fst (g, w)))" using opened_ok(1) [OF assms(1)] by simp
  note once = use_gate.spent_once [OF assms(2) ok]
  show "distinct (List.map_filter (use_spent P) tr)" using once(1) by (simp add: use_gate.spends_def)
  show "w' = world_after w tr" using use_run_frame(1) [OF assms(2)] by simp
  fix pre a rec sig t post
  assume tr: "tr = pre @ Ran a rec sig t # post"
  obtain s s2 where s: "run_of (use_step P) (g, w) pre s" "use_step P s (Ran a rec sig t) s2"
    using run_of_split [OF assms(2) [unfolded tr]] by blast
  obtain h v where hv: "s = (h, v)" by (cases s)
  note h = use_run_frame(2-5) [OF s(1), unfolded hv fst_conv]
  obtain h' e where a: "authorise_use P h a rec sig t = Inr (h', e)"
    using s(2) unfolding hv by (cases rule: use_step_cases) auto
  then obtain m i where m: "approval_covers P (ug_approver_alg g) (ug_approver_pubkey g) (ug_audience g) (ga_args a) (ga_effect a) t rec sig m"
    and i: "signer_id P (ug_approver_alg g) (ug_approver_pubkey g) = Inr i"
      "\<forall>r. revocations_after (ug_revocations g) pre i = Some r \<longrightarrow> \<not> revoked_at r t"
    by (auto simp: authorise_use_Inr h)
  have sp: "use_spent P (Ran a rec sig t) = Some (content_id_bytes (sha384 P) m)" by (simp add: use_spent_def covers_id [OF m])
  then show "\<exists>m i. approval_covers P (ug_approver_alg g) (ug_approver_pubkey g) (ug_audience g) (ga_args a) (ga_effect a) t rec sig m \<and>
         use_spent P (Ran a rec sig t) = Some (content_id_bytes (sha384 P) m) \<and>
         \<not> is_consumed (ug_ledger g) (content_id_bytes (sha384 P) m) \<and> is_consumed (ug_ledger g') (content_id_bytes (sha384 P) m) \<and>
         signer_id P (ug_approver_alg g) (ug_approver_pubkey g) = Inr i \<and>
         (\<forall>r. revocations_after (ug_revocations g) pre i = Some r \<longrightarrow> \<not> revoked_at r t)"
    using once(2,3) use_gate.spends_in [OF sp, of pre post] m i unfolding tr by auto
qed

definition sample_guarded :: "(nat, unit) guarded_action" where
  "sample_guarded = \<lparr>ga_args = U 5, ga_effect = 1, ga_run = \<lambda>n. (n + 1, Inr ()), ga_kind = []\<rparr>"

definition sample_use_approval :: approval_record where
  "sample_use_approval = sample_approval\<lparr>approves := [0x20, 0x30, 5]\<rparr>"

definition sample_guard :: use_guard where
  "sample_guard = \<lparr>ug_ledger = sample_ledger, ug_approver_alg = - 49, ug_approver_pubkey = [7], ug_audience = [97], ug_identity = [98],
     ug_revocations = Map.empty\<rparr>"

theorem guarded_actions_run_once_witness:
  "\<exists>sig g'. run_of (use_step sample_prims) (sample_guard, 0) [Ran sample_guarded sample_use_approval sig 8] (g', 1) \<and>
     (\<exists>m. approval_covers sample_prims (- 49) [7] [97] (U 5) 1 8 sample_use_approval sig m \<and> is_consumed (ug_ledger g') (content_id_bytes (sha384 sample_prims) m))"
proof -
  have "case sign_approval sample_prims sample_use_approval (- 49) [7] of Inl _ \<Rightarrow> False | Inr sig \<Rightarrow>
      is_ok (consume_approval sample_prims sample_use_approval (- 49) [7] sig [0x20, 0x30, 5] 8 1 sample_ledger [98])"
    by code_simp
  then obtain sig led' e
    where c: "consume_approval sample_prims sample_use_approval (- 49) [7] sig [0x20, 0x30, 5] 8 1 sample_ledger [98] = Inr (led', e)"
    by (auto simp: is_ok_iff split: sum.splits)
  have id: "content_id (sha384 sample_prims) (U 5) = Inr [0x20, 0x30, 5]" by code_simp
  let ?g = "sample_guard\<lparr>ug_ledger := led'\<rparr>"
  have a: "authorise_use sample_prims sample_guard sample_guarded sample_use_approval sig 8 = Inr (?g, e)"
    using c id sample_ids(1)
    by (simp add: authorise_use_def guard_verify_and_consume_def key_live_def use_time_def verify_audience_def sample_guard_def
        sample_guarded_def sample_use_approval_def sample_approval_def)
  have x: "execute_guarded sample_prims sample_guard sample_guarded sample_use_approval sig (Some 8) 0 0 = (?g, 1, Inr ())"
    by (simp add: execute_guarded_def use_time_def a) (simp add: sample_guarded_def)
  have run: "run_of (use_step sample_prims) (sample_guard, 0) [Ran sample_guarded sample_use_approval sig 8] (?g, 1)"
    using run_of_one [of "use_step sample_prims", OF use_step.used [OF x]] by (simp add: use_event_of_def use_time_def a is_ok_iff)
  have "open_ledger sample_prims [] [97] = Inr (ug_ledger sample_guard)" using sample_ledger_opens by (simp add: sample_guard_def)
  note once = guarded_actions_run_once [OF this run, THEN conjunct2, THEN conjunct2, rule_format, of "[]" _ _ _ _ "[]", OF append_Nil [symmetric]]
  show ?thesis by (rule exI [of _ sig], rule exI [of _ ?g], rule conjI [OF run]) (use once in \<open>auto simp: sample_guard_def sample_guarded_def\<close>)
qed

end
