(* ===== verification/Hitl.thy ===== *)
theory Hitl
  imports Gate
begin

text \<open>
  The human-in-the-loop interceptor (\<^verbatim>\<open>ecosystem/naalp-hitl\<close>): an action whose effect reaches a threshold waits for a human's
  signed approval, which is checked and spent before the action runs; every refusal is logged before it is raised, and
  refusals of severe actions are also signed. The human interface and the log sink are the parameters the code takes: the
  first answers a request with an approval or declines, the second records an entry or raises.
\<close>

section \<open>Refusal records\<close>

definition hex_digit :: "nat \<Rightarrow> nat" where
  "hex_digit n = (if n < 10 then 48 + n else 87 + n)"

definition hex_of :: "bytes \<Rightarrow> pystr" where
  "hex_of b = concat (map (\<lambda>x. [hex_digit (unat x div 16), hex_digit (unat x mod 16)]) b)"

record refusal_log_entry =
  rl_what_kind :: pystr
  rl_what_content_id :: pystr
  rl_when_ms :: int
  rl_where_identity :: pystr
  rl_where_audience :: pystr
  rl_source_principal :: pystr
  rl_outcome_reason :: pystr
  rl_approver_identity :: pystr

record refusal_decision_record =
  rr_what_kind :: pystr
  rr_what_content_id :: bytes
  rr_when_ms :: int
  rr_where_identity :: pystr
  rr_where_audience :: pystr
  rr_source_principal :: pystr
  rr_outcome_reason :: pystr
  rr_approver_identity :: pystr

definition refusal_record_bytes :: "refusal_decision_record \<Rightarrow> bytes res" where
  "refusal_record_bytes r =
     encode (M [(U 1, T (rr_what_kind r)), (U 2, B (rr_what_content_id r)), (U 3, U (rr_when_ms r)), (U 4, T (rr_where_identity r)),
       (U 5, T (rr_where_audience r)), (U 6, T (rr_source_principal r)), (U 7, T (rr_outcome_reason r)), (U 8, T (rr_approver_identity r))])"

definition refusal_record_content_id :: "prims \<Rightarrow> refusal_decision_record \<Rightarrow> bytes res" where
  "refusal_record_content_id P r = rbind (refusal_record_bytes r) (\<lambda>b. Inr (content_id_bytes (sha384 P) b))"

definition sign_refusal_record :: "prims \<Rightarrow> refusal_decision_record \<Rightarrow> int \<Rightarrow> bytes \<Rightarrow> bytes res" where
  "sign_refusal_record P r alg seed = rbind (refusal_record_bytes r) (mldsa_sign P alg seed)"


definition HELD_KINDS :: "string set" where "HELD_KINDS = {''ApprovalRequired''}"
definition UNVERIFIABLE_KINDS :: "string set" where "UNVERIFIABLE_KINDS = {''BadSignature''}"

definition refusal_outcome_for_reason :: "string \<Rightarrow> int" where
  "refusal_outcome_for_reason k =
     (if k \<in> HELD_KINDS then REFUSAL_HELD else if k \<in> UNVERIFIABLE_KINDS then REFUSAL_UNVERIFIABLE else REFUSAL_DENIED)"

record refusal_outcome =
  ro_log_entry :: refusal_log_entry
  ro_record :: "refusal_decision_record option"
  ro_record_sig :: "bytes option"
  ro_refusal :: "refusal option"

section \<open>The interceptor\<close>

record approval_request =
  rq_content_id :: bytes
  rq_effect :: int
  rq_kind :: pystr
  rq_args_summary :: pystr
  rq_audience :: pystr

record ('w, 'r) pending_action =
  pa_kind :: pystr
  pa_effect :: int
  pa_args :: cbor
  pa_execute :: "'w \<Rightarrow> 'w \<times> 'r res"
  pa_args_summary :: pystr
  pa_principal :: pystr

record hitl =
  hi_ledger :: ledger
  hi_approver_alg :: int
  hi_approver_pubkey :: bytes
  hi_audience :: pystr
  hi_identity :: pystr
  hi_approval_threshold :: int
  hi_signing_alg :: "int option"
  hi_signing_seed :: "bytes option"
  hi_non_repudiation_threshold :: int

type_synonym human = "approval_request \<Rightarrow> (approval_record \<times> bytes) option res"
type_synonym 'l sink = "'l \<Rightarrow> refusal_log_entry \<Rightarrow> 'l \<times> unit res"

text \<open>A raised error carries the audit outcome that was attached to it, if any.\<close>

type_synonym raised = "exn \<times> refusal_outcome option"

definition requires_approval :: "hitl \<Rightarrow> int \<Rightarrow> bool" where
  "requires_approval h eff \<longleftrightarrow> eff \<ge> hi_approval_threshold h"

definition requires_non_repudiation :: "hitl \<Rightarrow> int \<Rightarrow> bool" where
  "requires_non_repudiation h eff \<longleftrightarrow> eff \<ge> hi_non_repudiation_threshold h"

definition log_entry_of :: "hitl \<Rightarrow> string \<Rightarrow> pystr \<Rightarrow> bytes \<Rightarrow> pystr \<Rightarrow> pystr \<Rightarrow> int \<Rightarrow> refusal_log_entry" where
  "log_entry_of h k knd args_content_id approver_identity source_principal when_ms =
     \<lparr>rl_what_kind = knd, rl_what_content_id = hex_of args_content_id, rl_when_ms = when_ms, rl_where_identity = hi_identity h,
       rl_where_audience = hi_audience h, rl_source_principal = source_principal, rl_outcome_reason = pystr k,
       rl_approver_identity = approver_identity\<rparr>"

definition refusal_record_of :: "hitl \<Rightarrow> string \<Rightarrow> pystr \<Rightarrow> bytes \<Rightarrow> pystr \<Rightarrow> pystr \<Rightarrow> int \<Rightarrow> refusal_decision_record" where
  "refusal_record_of h k knd args_content_id approver_identity source_principal when_ms =
     \<lparr>rr_what_kind = knd, rr_what_content_id = args_content_id, rr_when_ms = when_ms, rr_where_identity = hi_identity h,
       rr_where_audience = hi_audience h, rr_source_principal = source_principal, rr_outcome_reason = pystr k,
       rr_approver_identity = approver_identity\<rparr>"

text \<open>The second layer: a signed record with its coarse view, or nothing.\<close>

definition sign_refusal ::
  "prims \<Rightarrow> hitl \<Rightarrow> string \<Rightarrow> int \<Rightarrow> refusal_decision_record \<Rightarrow> (refusal_decision_record \<times> bytes \<times> refusal) option res" where
  "sign_refusal P h k required_effect rec =
     (case (hi_signing_alg h, hi_signing_seed h) of
        (Some alg, Some seed) \<Rightarrow>
          if requires_non_repudiation h required_effect then
            rbind (sign_refusal_record P rec alg seed) (\<lambda>sig.
              rbind (refusal_record_bytes rec) (\<lambda>b.
                Inr (Some (rec, sig, refusal_from_record P (refusal_outcome_for_reason k) b))))
          else Inr None
      | _ \<Rightarrow> Inr None)"

definition on_refusal ::
  "prims \<Rightarrow> hitl \<Rightarrow> 'l sink \<Rightarrow> 'l \<Rightarrow> string \<Rightarrow> pystr \<Rightarrow> bytes \<Rightarrow> int \<Rightarrow> pystr \<Rightarrow> pystr \<Rightarrow> int \<Rightarrow> 'l \<times> raised" where
  "on_refusal P h sink l k knd args_content_id required_effect approver_identity source_principal when_ms =
     (let entry = log_entry_of h k knd args_content_id approver_identity source_principal when_ms in
      case sink l entry of
        (l', Inl e) \<Rightarrow> (l', e, None)
      | (l', Inr _) \<Rightarrow>
          (case sign_refusal P h k required_effect (refusal_record_of h k knd args_content_id approver_identity source_principal when_ms) of
             Inl e \<Rightarrow> (l', e, None)
           | Inr None \<Rightarrow>
               (l', ApprovalError k, Some \<lparr>ro_log_entry = entry, ro_record = None, ro_record_sig = None, ro_refusal = None\<rparr>)
           | Inr (Some (rec, sig, ref)) \<Rightarrow>
               (l', ApprovalError k, Some \<lparr>ro_log_entry = entry, ro_record = Some rec, ro_record_sig = Some sig, ro_refusal = Some ref\<rparr>)))"

text \<open>The two readings of the clock are \<open>pos\<close>, where the approval is judged, and \<open>when_ms\<close>, where a refusal is dated.\<close>

definition hitl_verify_and_consume ::
  "prims \<Rightarrow> hitl \<Rightarrow> 'l sink \<Rightarrow> 'l \<Rightarrow> approval_record \<Rightarrow> bytes \<Rightarrow> bytes \<Rightarrow> int \<Rightarrow> int \<Rightarrow> int \<Rightarrow> pystr \<Rightarrow> pystr \<Rightarrow>
    hitl \<times> 'l \<times> (raised + entry)" where
  "hitl_verify_and_consume P h sink l rec sig args_content_id required_effect pos when_ms knd princ =
     (case rbind (verify_audience rec (hi_audience h)) (\<lambda>_.
         consume_approval P rec (hi_approver_alg h) (hi_approver_pubkey h) sig args_content_id pos required_effect
           (hi_ledger h) (hi_identity h)) of
        Inr (led', e) \<Rightarrow> (h\<lparr>hi_ledger := led'\<rparr>, l, Inr e)
      | Inl (ApprovalError k) \<Rightarrow>
          (case on_refusal P h sink l k knd args_content_id required_effect (approver rec) princ when_ms of
             (l', x) \<Rightarrow> (h, l', Inl x))
      | Inl e \<Rightarrow> (h, l, Inl (e, None)))"

definition request_for :: "hitl \<Rightarrow> ('w, 'r) pending_action \<Rightarrow> bytes \<Rightarrow> approval_request" where
  "request_for h a args_id =
     \<lparr>rq_content_id = args_id, rq_effect = pa_effect a, rq_kind = pa_kind a,
       rq_args_summary = (if pa_args_summary a \<noteq> [] then pa_args_summary a else pa_kind a), rq_audience = hi_audience h\<rparr>"

text \<open>Everything \<^verbatim>\<open>intercept\<close> does before the action runs: the approval it was given, if one was needed.\<close>

definition hitl_authorise ::
  "prims \<Rightarrow> hitl \<Rightarrow> 'l sink \<Rightarrow> human \<Rightarrow> 'l \<Rightarrow> ('w, 'r) pending_action \<Rightarrow> int \<Rightarrow> int \<Rightarrow>
    hitl \<times> 'l \<times> (raised + (approval_record \<times> bytes) option)" where
  "hitl_authorise P h sink human l a pos when_ms =
     (if \<not> requires_approval h (pa_effect a) then (h, l, Inr None)
      else case content_id (sha384 P) (pa_args a) of
        Inl e \<Rightarrow> (h, l, Inl (e, None))
      | Inr args_id \<Rightarrow>
          (case human (request_for h a args_id) of
             Inl e \<Rightarrow> (h, l, Inl (e, None))
           | Inr None \<Rightarrow>
               (case on_refusal P h sink l ''ApprovalDenied'' (pa_kind a) args_id (pa_effect a) [] (pa_principal a) when_ms of
                  (l', x) \<Rightarrow> (h, l', Inl x))
           | Inr (Some (rec, sig)) \<Rightarrow>
               (case hitl_verify_and_consume P h sink l rec sig args_id (pa_effect a) pos when_ms (pa_kind a) (pa_principal a) of
                  (h', l', Inl x) \<Rightarrow> (h', l', Inl x)
                | (h', l', Inr _) \<Rightarrow> (h', l', Inr (Some (rec, sig))))))"

definition intercept ::
  "prims \<Rightarrow> hitl \<Rightarrow> 'l sink \<Rightarrow> human \<Rightarrow> 'l \<Rightarrow> 'w \<Rightarrow> ('w, 'r) pending_action \<Rightarrow> int \<Rightarrow> int \<Rightarrow> hitl \<times> 'l \<times> 'w \<times> (raised + 'r)" where
  "intercept P h sink human l w a pos when_ms =
     (case hitl_authorise P h sink human l a pos when_ms of
        (h', l', Inl x) \<Rightarrow> (h', l', w, Inl x)
      | (h', l', Inr _) \<Rightarrow> (case pa_execute a w of (w', Inl e) \<Rightarrow> (h', l', w', Inl (e, None)) | (w', Inr v) \<Rightarrow> (h', l', w', Inr v)))"

section \<open>Histories of an interceptor\<close>

datatype ('w, 'r) hitl_event =
    HRan "('w, 'r) pending_action" "(approval_record \<times> bytes) option" int
  | HStopped
  | HRestarted

definition hitl_event_of ::
  "('w, 'r) pending_action \<Rightarrow> int \<Rightarrow> raised + (approval_record \<times> bytes) option \<Rightarrow> ('w, 'r) hitl_event" where
  "hitl_event_of a pos r = (case r of Inl _ \<Rightarrow> HStopped | Inr ap \<Rightarrow> HRan a ap pos)"

inductive hitl_step :: "prims \<Rightarrow> 'l sink \<Rightarrow> hitl \<times> 'l \<times> 'w \<Rightarrow> ('w, 'r) hitl_event \<Rightarrow> hitl \<times> 'l \<times> 'w \<Rightarrow> bool" for P sink where
  intercepted: "intercept P h sink human l w a pos when_ms = (h', l', w', r) \<Longrightarrow>
    hitl_step P sink (h, l, w) (hitl_event_of a pos (snd (snd (hitl_authorise P h sink human l a pos when_ms)))) (h', l', w')"
| restarted: "reopen P (hi_ledger h) = Inr led \<Longrightarrow> hitl_step P sink (h, l, w) HRestarted (h\<lparr>hi_ledger := led\<rparr>, l, w)"

definition hitl_spent :: "prims \<Rightarrow> ('w, 'r) hitl_event \<Rightarrow> bytes option" where
  "hitl_spent P ev =
     (case ev of
        HRan a (Some (rec, sig)) pos \<Rightarrow> (case approval_record_id P rec of Inl _ \<Rightarrow> None | Inr aid \<Rightarrow> Some aid)
      | _ \<Rightarrow> None)"

definition hitl_world :: "'w \<Rightarrow> ('w, 'r) hitl_event list \<Rightarrow> 'w" where
  "hitl_world w tr = fold (\<lambda>ev w. case ev of HRan a ap pos \<Rightarrow> fst (pa_execute a w) | _ \<Rightarrow> w) tr w"

lemma hitl_world_simps [simp]:
  "hitl_world w [] = w"
  "hitl_world w (tr @ [ev]) = (case ev of HRan a ap pos \<Rightarrow> fst (pa_execute a (hitl_world w tr)) | _ \<Rightarrow> hitl_world w tr)"
  by (simp_all add: hitl_world_def split: hitl_event.split)

section \<open>One interception\<close>

definition hitl_approved ::
  "prims \<Rightarrow> hitl \<Rightarrow> ('w, 'r) pending_action \<Rightarrow> approval_record \<Rightarrow> bytes \<Rightarrow> int \<Rightarrow> ledger \<Rightarrow> bool" where
  "hitl_approved P h a rec sig pos led' \<longleftrightarrow>
     (\<exists>m e. approval_covers P (hi_approver_alg h) (hi_approver_pubkey h) (hi_audience h) (pa_args a) (pa_effect a) pos rec sig m \<and>
        consume P (hi_ledger h) (content_id_bytes (sha384 P) m) (hi_identity h) = Inr (led', e))"

lemma hitl_consume_Inr:
  "hitl_verify_and_consume P h sink l rec sig args_id eff pos when_ms knd pr = (h', l', Inr e) \<longleftrightarrow>
     l' = l \<and> verify_audience rec (hi_audience h) = Inr () \<and>
     (\<exists>led'. consume_approval P rec (hi_approver_alg h) (hi_approver_pubkey h) sig args_id pos eff (hi_ledger h) (hi_identity h) = Inr (led', e) \<and>
        h' = h\<lparr>hi_ledger := led'\<rparr>)"
  by (auto simp: hitl_verify_and_consume_def verify_audience_def split: sum.splits prod.splits exn.splits)

lemma hitl_consume_Inl:
  "hitl_verify_and_consume P h sink l rec sig args_id eff pos when_ms knd pr = (h', l', Inl x) \<Longrightarrow> h' = h"
  by (auto simp: hitl_verify_and_consume_def split: sum.splits prod.splits exn.splits)

lemma hitl_authorise_cases:
  assumes "hitl_authorise P h sink human l a pos when_ms = (h', l', r)"
  obtains (free) "r = Inr None" "h' = h" "l' = l" "\<not> requires_approval h (pa_effect a)"
  | (approved) rec sig led' where "r = Inr (Some (rec, sig))" "h' = h\<lparr>hi_ledger := led'\<rparr>" "l' = l" "requires_approval h (pa_effect a)"
      "hitl_approved P h a rec sig pos led'"
  | (stopped) x where "r = Inl x" "h' = h" "requires_approval h (pa_effect a)"
proof (cases "requires_approval h (pa_effect a)")
  case False
  then show ?thesis using assms free by (simp add: hitl_authorise_def)
next
  case req: True
  show ?thesis
  proof (cases r)
    case (Inl x)
    then show ?thesis
      using assms req stopped by (auto simp: hitl_authorise_def hitl_consume_Inl split: sum.splits option.splits prod.splits)
  next
    case (Inr ap)
    then obtain args_id rec sig e where x: "content_id (sha384 P) (pa_args a) = Inr args_id" "ap = Some (rec, sig)"
      "hitl_verify_and_consume P h sink l rec sig args_id (pa_effect a) pos when_ms (pa_kind a) (pa_principal a) = (h', l', Inr e)"
      using assms req by (auto simp: hitl_authorise_def split: sum.splits option.splits prod.splits)
    then obtain led' where "l' = l" "h' = h\<lparr>hi_ledger := led'\<rparr>" "hitl_approved P h a rec sig pos led'"
      using covered_consume [OF x(1), of rec "hi_audience h"] by (auto simp: hitl_consume_Inr hitl_approved_def)
    then show ?thesis using approved Inr x(2) req by blast
  qed
qed

lemma hitl_step_cases:
  assumes "hitl_step P sink (h, l, w) ev s'"
  obtains (free) a pos l' where "ev = HRan a None pos" "s' = (h, l', fst (pa_execute a w))" "\<not> requires_approval h (pa_effect a)"
  | (approved) a rec sig pos led' l' where "ev = HRan a (Some (rec, sig)) pos" "s' = (h\<lparr>hi_ledger := led'\<rparr>, l', fst (pa_execute a w))"
      "requires_approval h (pa_effect a)" "hitl_approved P h a rec sig pos led'"
  | (stopped) l' where "ev = HStopped" "s' = (h, l', w)"
  | (restarted) led l' where "ev = HRestarted" "reopen P (hi_ledger h) = Inr led" "s' = (h\<lparr>hi_ledger := led\<rparr>, l', w)"
  using assms
proof cases
  case (intercepted human a pos when_ms h' l' w' r)
  obtain h1 l1 q where q: "hitl_authorise P h sink human l a pos when_ms = (h1, l1, q)" by (metis prod.collapse)
  note i = intercepted(3) [unfolded intercept_def q]
  have ev: "ev = hitl_event_of a pos q" using intercepted(1) by (simp add: q)
  from q show ?thesis
    using i ev intercepted(2) that(1-3)
    by (cases rule: hitl_authorise_cases) (auto simp: hitl_event_of_def split: prod.splits sum.splits)
qed (use that(4) in auto)

interpretation hitl_gate: spend_gate P "\<lambda>s. hi_ledger (fst s)" "hitl_step P sink" "hitl_spent P" for P :: prims and sink :: "'l sink"
proof
  fix s s' :: "hitl \<times> 'l \<times> 'w" and e :: "('w, 'r) hitl_event" and aid
  obtain h l w where s: "s = (h, l, w)" by (cases s)
  assume st: "hitl_step P sink s e s'"
  show "hi_ledger (fst s') = hi_ledger (fst s)" if "hitl_spent P e = None" and "ledger_ok P (hi_ledger (fst s))"
    using st that unfolding s
    by (cases rule: hitl_step_cases) (auto simp: hitl_spent_def hitl_approved_def covers_id dest: reopen_ok)
  show "\<exists>w en. consume P (hi_ledger (fst s)) aid w = Inr (hi_ledger (fst s'), en)" if "hitl_spent P e = Some aid"
    using st that unfolding s
    by (cases rule: hitl_step_cases) (auto simp: hitl_spent_def hitl_approved_def covers_id; blast)+
qed

lemma hitl_run_frame:
  assumes "run_of (hitl_step P sink) (h, l, w) tr s'"
  shows "snd (snd s') = hitl_world w tr" and "fst s' = h\<lparr>hi_ledger := hi_ledger (fst s')\<rparr>"
proof -
  have "snd (snd s') = hitl_world w tr \<and> (\<exists>led. fst s' = h\<lparr>hi_ledger := led\<rparr>)"
    using assms
  proof (induction rule: run_of.induct)
    case start
    then show ?case by (auto intro: exI [of _ "hi_ledger h"])
  next
    case (more tr t e u)
    obtain h1 l1 v where t: "t = (h1, l1, v)" by (cases t)
    from more.hyps(2) more.IH show ?case unfolding t
      by (cases rule: hitl_step_cases) auto
  qed
  then show "snd (snd s') = hitl_world w tr" "fst s' = h\<lparr>hi_ledger := hi_ledger (fst s')\<rparr>" by auto
qed

section \<open>Properties of the interceptor\<close>

text \<open>C15: No severe action runs without a human's approval, and each approval lets one action run. Let an interceptor start on
  a ledger that replays, and let any calls and restarts happen, with any human answers and any behaviour of the log
  sink. The world is changed only by the actions that ran; an action below the threshold ran without an approval; every
  other one ran with an approval that the approver signed, for exactly its arguments, not expired, of sufficient known
  effect and for no other audience; and the approvals of the actions that ran are pairwise different and were unspent
  before.\<close>

theorem intercepted_actions_approved:
  assumes "open_ledger P file auth = Inr (hi_ledger h)" and "run_of (hitl_step P sink) (h, l, w) tr (h', l', w')"
  shows "distinct (List.map_filter (hitl_spent P) tr) \<and> w' = hitl_world w tr \<and>
    (\<forall>pre a ap pos post. tr = pre @ HRan a ap pos # post \<longrightarrow>
      (if pa_effect a < hi_approval_threshold h then ap = None
       else \<exists>rec sig m. ap = Some (rec, sig) \<and>
         approval_covers P (hi_approver_alg h) (hi_approver_pubkey h) (hi_audience h) (pa_args a) (pa_effect a) pos rec sig m \<and>
         hitl_spent P (HRan a ap pos) = Some (content_id_bytes (sha384 P) m) \<and>
         \<not> is_consumed (hi_ledger h) (content_id_bytes (sha384 P) m) \<and> is_consumed (hi_ledger h') (content_id_bytes (sha384 P) m)))"
proof (intro conjI allI impI)
  have ok: "ledger_ok P (hi_ledger (fst (h, l, w)))" using opened_ok(1) [OF assms(1)] by simp
  note once = hitl_gate.spent_once [OF assms(2) ok]
  show "distinct (List.map_filter (hitl_spent P) tr)" using once(1) by (simp add: hitl_gate.spends_def)
  show "w' = hitl_world w tr" using hitl_run_frame(1) [OF assms(2)] by simp
  fix pre a ap pos post
  assume tr: "tr = pre @ HRan a ap pos # post"
  obtain s s2 where s: "run_of (hitl_step P sink) (h, l, w) pre s" "hitl_step P sink s (HRan a ap pos) s2"
    using run_of_split [OF assms(2) [unfolded tr]] by blast
  obtain led l1 v where hv: "s = (h\<lparr>hi_ledger := led\<rparr>, l1, v)"
    using hitl_run_frame(2) [OF s(1)] by (metis prod.collapse)
  from s(2) [unfolded hv]
  show "if pa_effect a < hi_approval_threshold h then ap = None
       else \<exists>rec sig m. ap = Some (rec, sig) \<and>
         approval_covers P (hi_approver_alg h) (hi_approver_pubkey h) (hi_audience h) (pa_args a) (pa_effect a) pos rec sig m \<and>
         hitl_spent P (HRan a ap pos) = Some (content_id_bytes (sha384 P) m) \<and>
         \<not> is_consumed (hi_ledger h) (content_id_bytes (sha384 P) m) \<and> is_consumed (hi_ledger h') (content_id_bytes (sha384 P) m)"
  proof (cases rule: hitl_step_cases)
    case (approved b rec sig pos' led' l2)
    then obtain m where m: "approval_covers P (hi_approver_alg h) (hi_approver_pubkey h) (hi_audience h) (pa_args a) (pa_effect a) pos rec sig m"
      by (auto simp: hitl_approved_def)
    have sp: "hitl_spent P (HRan a ap pos) = Some (content_id_bytes (sha384 P) m)"
      using approved(1) by (simp add: hitl_spent_def covers_id [OF m])
    then show ?thesis
      using once(2,3) hitl_gate.spends_in [OF sp, of pre post] approved(1,3) m unfolding tr by (auto simp: requires_approval_def)
  qed (auto simp: requires_approval_def)
qed

section \<open>The audit trail\<close>









definition sample_hitl :: hitl where
  "sample_hitl = \<lparr>hi_ledger = sample_ledger, hi_approver_alg = - 49, hi_approver_pubkey = [5], hi_audience = [97], hi_identity = [98],
     hi_approval_threshold = 2, hi_signing_alg = Some (- 49), hi_signing_seed = Some [7], hi_non_repudiation_threshold = 3\<rparr>"

definition sample_pending :: "int \<Rightarrow> (nat, unit) pending_action" where
  "sample_pending eff = \<lparr>pa_kind = [107], pa_effect = eff, pa_args = U 5, pa_execute = \<lambda>n. (n + 1, Inr ()), pa_args_summary = [], pa_principal = []\<rparr>"

definition list_sink :: "refusal_log_entry list sink" where
  "list_sink l e = (l @ [e], Inr ())"


text \<open>An approval of the sample action, by the key the interceptor holds.\<close>

definition sample_human_approval :: approval_record where
  "sample_human_approval = \<lparr>approves = [0x20, 0x30, 5], approver = [97], grant_effect = 2, nonce = [1], not_after = 9, ap_audience = [97]\<rparr>"

theorem intercepted_actions_approved_witness:
  "\<exists>sig h' l' w'. run_of (hitl_step sample_prims list_sink) (sample_hitl, [], 0)
       [HRan (sample_pending 2) (Some (sample_human_approval, sig)) 8] (h', l', w') \<and> w' = Suc 0 \<and>
     (\<exists>m. approval_covers sample_prims (- 49) [5] [97] (U 5) 2 8 sample_human_approval sig m \<and>
        is_consumed (hi_ledger h') (content_id_bytes (sha384 sample_prims) m))"
proof -
  have "case sign_approval sample_prims sample_human_approval (- 49) [5] of Inl _ \<Rightarrow> False | Inr sig \<Rightarrow>
      is_ok (consume_approval sample_prims sample_human_approval (- 49) [5] sig [0x20, 0x30, 5] 8 2 sample_ledger [98])"
    by code_simp
  then obtain sig led' e
    where c: "consume_approval sample_prims sample_human_approval (- 49) [5] sig [0x20, 0x30, 5] 8 2 sample_ledger [98] = Inr (led', e)"
    by (auto simp: is_ok_iff split: sum.splits)
  have id: "content_id (sha384 sample_prims) (U 5) = Inr [0x20, 0x30, 5]" by code_simp
  let ?h = "sample_hitl\<lparr>hi_ledger := led'\<rparr>" and ?human = "\<lambda>_ :: approval_request. Inr (Some (sample_human_approval, sig)) :: (approval_record \<times> bytes) option res"
  have a: "hitl_authorise sample_prims sample_hitl list_sink ?human [] (sample_pending 2) 8 9 = (?h, [], Inr (Some (sample_human_approval, sig)))"
    using c id by (simp add: hitl_authorise_def hitl_verify_and_consume_def requires_approval_def verify_audience_def
        sample_hitl_def sample_pending_def) (simp add: sample_human_approval_def)
  have i: "intercept sample_prims sample_hitl list_sink ?human [] 0 (sample_pending 2) 8 9 = (?h, [], 1, Inr ())"
    by (simp add: intercept_def a) (simp add: sample_pending_def)
  have run: "run_of (hitl_step sample_prims list_sink) (sample_hitl, [], 0)
      [HRan (sample_pending 2) (Some (sample_human_approval, sig)) 8] (?h, [], 1)"
    using run_of_one [of "hitl_step sample_prims list_sink", OF hitl_step.intercepted [OF i]] by (simp add: a hitl_event_of_def)
  have "open_ledger sample_prims [] [97] = Inr (hi_ledger sample_hitl)" using sample_ledger_opens by (simp add: sample_hitl_def)
  note once = intercepted_actions_approved [OF this run, THEN conjunct2, THEN conjunct2, rule_format, of "[]" _ _ _ "[]", OF append_Nil [symmetric]]
  show ?thesis
    by (rule exI [of _ sig], rule exI [of _ ?h], rule exI [of _ "[]"], rule exI [of _ 1])
      (use run once in \<open>auto simp: sample_hitl_def sample_pending_def\<close>)
qed

end
