(* ===== verification/Bundle.thy ===== *)
theory Bundle
  imports Signed Ledger
begin

text \<open>
  Offline proof bundles (\<^verbatim>\<open>ecosystem/naalp-bundle\<close>): a signed object, the approval that authorised it and the ledger's receipt
  that the approval was consumed, in one byte string that is verified later with keys the verifier already holds. A bundle
  names keys by reference only; an anchor read from the bundle itself is refused.
\<close>

section \<open>Reading approvals and receipts back\<close>

definition approval_field :: "int \<Rightarrow> cbor \<Rightarrow> bool" where
  "approval_field n v \<longleftrightarrow> n = 1 \<and> is_B v \<or> n = 2 \<and> is_T v \<or> n = 3 \<and> is_U v \<or> n = 4 \<and> is_B v \<or> n = 5 \<and> is_U v \<or> n = 6 \<and> is_T v"

definition parse_approval_body :: "bytes \<Rightarrow> approval_record res" where
  "parse_approval_body b =
     rbind (decode b) (\<lambda>v.
       rbind (typed_fields approval_field (BundleError ''Malformed'') v) (\<lambda>m.
         case (m 1, m 2, m 3, m 4, m 5) of
           (Some (B apv), Some (T who), Some (U g), Some (B n), Some (U na)) \<Rightarrow>
             Inr \<lparr>approves = apv, approver = who, grant_effect = g, nonce = n, not_after = na,
               ap_audience = (case m 6 of Some (T aud) \<Rightarrow> aud | _ \<Rightarrow> [])\<rparr>
         | _ \<Rightarrow> Inl (BundleError ''Malformed'')))"

definition receipt_field :: "int \<Rightarrow> cbor \<Rightarrow> bool" where
  "receipt_field n v \<longleftrightarrow> n = 1 \<and> is_B v \<or> n = 2 \<and> is_B v \<or> n = 3 \<and> is_U v"

definition parse_receipt_body :: "bytes \<Rightarrow> consume_receipt res" where
  "parse_receipt_body b =
     rbind (decode b) (\<lambda>v.
       rbind (typed_fields receipt_field (BundleError ''Malformed'') v) (\<lambda>m.
         case (m 1, m 2, m 3) of
           (Some (B led), Some (B aid), Some (U pos)) \<Rightarrow> Inr \<lparr>cr_ledger = led, cr_approval_id = aid, cr_position = pos\<rparr>
         | _ \<Rightarrow> Inl (BundleError ''Malformed'')))"

text \<open>The first signer field of the payload, read before anything is verified; the code skips entries of another type.\<close>

definition peek_object_signer :: "bytes \<Rightarrow> bytes res" where
  "peek_object_signer ob =
     rbind (parse_sign1_raw ob) (\<lambda>(_, payload, _).
       rbind (decode_bounded payload MAX_NESTING_DEPTH) (\<lambda>bv.
         case bv of
           M ps \<Rightarrow> (case find (\<lambda>p. fst p = U FIELD_SIGNER \<and> is_B (snd p)) ps of
               Some (_, B s) \<Rightarrow> Inr s
             | _ \<Rightarrow> Inl (BundleError ''Malformed''))
         | _ \<Rightarrow> Inl (BundleError ''Malformed'')))"

definition object_alg :: "bytes \<Rightarrow> int res" where
  "object_alg ob = rbind (parse_sign1_raw ob) (\<lambda>(prot, _, _). alg_from_protected prot)"

section \<open>Anchors and bundles\<close>

record trust_anchor =
  ta_known :: "pystr \<times> bytes \<rightharpoonup> bytes"
  ta_self_derived :: bool

definition new_anchor :: "(pystr \<times> bytes \<rightharpoonup> bytes) \<Rightarrow> trust_anchor" where
  "new_anchor known = \<lparr>ta_known = known, ta_self_derived = False\<rparr>"

definition resolve_key :: "trust_anchor \<Rightarrow> pystr \<Rightarrow> bytes \<Rightarrow> bytes option" where
  "resolve_key an role i = ta_known an (role, i)"

text \<open>The fields for approval and receipt can hold \<^verbatim>\<open>None\<close>, which the verifier refuses.\<close>

record proof_bundle =
  pb_object_bytes :: bytes
  pb_profile :: int
  pb_approval :: "approval_record option"
  pb_approval_sig :: bytes
  pb_approval_alg :: int
  pb_receipt :: "consume_receipt option"
  pb_receipt_sig :: bytes
  pb_receipt_alg :: int
  pb_self_asserted_keys :: "(pystr \<times> bytes \<times> bytes) list"

definition from_bundle_self_asserted :: "proof_bundle \<Rightarrow> trust_anchor" where
  "from_bundle_self_asserted b =
     (new_anchor (fold (\<lambda>(role, i, pk) m. m((role, i) \<mapsto> pk)) (pb_self_asserted_keys b) Map.empty))\<lparr>ta_self_derived := True\<rparr>"

definition attr :: "'a option \<Rightarrow> 'a res" where
  "attr x = (case x of None \<Rightarrow> Inl AttributeError | Some y \<Rightarrow> Inr y)"

type_synonym key_ref = "pystr \<times> bytes \<times> int"

definition key_refs :: "proof_bundle \<Rightarrow> (key_ref \<times> key_ref \<times> key_ref) res" where
  "key_refs b =
     rbind (peek_object_signer (pb_object_bytes b)) (\<lambda>sgnr.
       rbind (object_alg (pb_object_bytes b)) (\<lambda>alg.
         rbind (attr (pb_approval b)) (\<lambda>ap.
           rbind (utf8_encode (approver ap)) (\<lambda>who.
             rbind (attr (pb_receipt b)) (\<lambda>rc.
               Inr ((pystr ''object'', sgnr, alg), (pystr ''approval'', who, pb_approval_alg b), (pystr ''receipt'', cr_ledger rc, pb_receipt_alg b)))))))"

definition self_asserted_value :: "(pystr \<times> bytes \<times> bytes) list \<Rightarrow> cbor" where
  "self_asserted_value ks = A (map (\<lambda>(role, i, pk). A [T role, B i, B pk]) ks)"

definition bundle_map :: "proof_bundle \<Rightarrow> cbor res" where
  "bundle_map b =
     rbind (rbind (attr (pb_approval b)) approval_bytes) (\<lambda>ap.
       rbind (rbind (attr (pb_receipt b)) consume_receipt_bytes) (\<lambda>rc.
         Inr (M ([(U 1, B (pb_object_bytes b)), (U 2, U (pb_profile b)), (U 3, B ap), (U 4, B (pb_approval_sig b)),
             (U 5, N (pb_approval_alg b)), (U 6, B rc), (U 7, B (pb_receipt_sig b)), (U 8, N (pb_receipt_alg b))] @
             (if pb_self_asserted_keys b \<noteq> [] then [(U 9, self_asserted_value (pb_self_asserted_keys b))] else [])))))"

definition bundle_content_id :: "prims \<Rightarrow> proof_bundle \<Rightarrow> bytes res" where
  "bundle_content_id P b = rbind (bundle_map b) (content_id (sha384 P))"

definition bundle_to_bytes :: "proof_bundle \<Rightarrow> bytes res" where
  "bundle_to_bytes b = rbind (bundle_map b) encode"

definition bundle_field_step :: "(int \<rightharpoonup> cbor) \<Rightarrow> cbor \<times> cbor \<Rightarrow> (int \<rightharpoonup> cbor) res" where
  "bundle_field_step m p = (case p of (U n, v) \<Rightarrow> Inr (m(n \<mapsto> v)) | _ \<Rightarrow> Inl (BundleError ''Malformed''))"

definition get_B :: "cbor \<Rightarrow> bytes option" where "get_B v = (case v of B b \<Rightarrow> Some b | _ \<Rightarrow> None)"
definition get_U :: "cbor \<Rightarrow> int option" where "get_U v = (case v of U n \<Rightarrow> Some n | _ \<Rightarrow> None)"
definition get_N :: "cbor \<Rightarrow> int option" where "get_N v = (case v of N n \<Rightarrow> Some n | _ \<Rightarrow> None)"

definition bundle_need :: "(int \<rightharpoonup> cbor) \<Rightarrow> int \<Rightarrow> (cbor \<Rightarrow> 'a option) \<Rightarrow> 'a res" where
  "bundle_need fs n f = (case Option.bind (fs n) f of None \<Rightarrow> Inl (BundleError ''Malformed'') | Some x \<Rightarrow> Inr x)"

definition read_self_asserted_key :: "cbor \<Rightarrow> (pystr \<times> bytes \<times> bytes) res" where
  "read_self_asserted_key v = (case v of A [T role, B i, B pk] \<Rightarrow> Inr (role, i, pk) | _ \<Rightarrow> Inl (BundleError ''Malformed''))"

definition read_self_asserted :: "cbor option \<Rightarrow> (pystr \<times> bytes \<times> bytes) list res" where
  "read_self_asserted v =
     (case v of
        None \<Rightarrow> Inr []
      | Some (A items) \<Rightarrow> read_items read_self_asserted_key items
      | Some _ \<Rightarrow> Inl (BundleError ''Malformed''))"

definition bundle_from_bytes :: "bytes \<Rightarrow> proof_bundle res" where
  "bundle_from_bytes data =
     rbind (decode data) (\<lambda>v.
       case v of
         M ps \<Rightarrow>
           rbind (rfold bundle_field_step Map.empty ps) (\<lambda>fs.
             rbind (bundle_need fs 1 get_B) (\<lambda>ob.
             rbind (bundle_need fs 2 get_U) (\<lambda>prof.
             rbind (rbind (bundle_need fs 3 get_B) parse_approval_body) (\<lambda>ap.
             rbind (bundle_need fs 4 get_B) (\<lambda>asig.
             rbind (bundle_need fs 5 get_N) (\<lambda>aalg.
             rbind (rbind (bundle_need fs 6 get_B) parse_receipt_body) (\<lambda>rc.
             rbind (bundle_need fs 7 get_B) (\<lambda>rsig.
             rbind (bundle_need fs 8 get_N) (\<lambda>ralg.
             rbind (read_self_asserted (fs 9)) (\<lambda>ks.
               Inr \<lparr>pb_object_bytes = ob, pb_profile = prof, pb_approval = Some ap, pb_approval_sig = asig, pb_approval_alg = aalg,
                 pb_receipt = Some rc, pb_receipt_sig = rsig, pb_receipt_alg = ralg, pb_self_asserted_keys = ks\<rparr>))))))))))
       | _ \<Rightarrow> Inl (BundleError ''Malformed''))"

section \<open>Building and verifying\<close>

definition object_body_without_id :: "bytes \<Rightarrow> cbor res" where
  "object_body_without_id ob =
     rbind (parse_sign1_raw ob) (\<lambda>(_, payload, _).
       rbind (decode_bounded payload MAX_NESTING_DEPTH) (\<lambda>bv.
         case bv of
           M ps \<Rightarrow> Inr (M (filter (\<lambda>p. fst p \<noteq> U FIELD_ID) ps))
         | _ \<Rightarrow> Inl (BundleError ''Malformed'')))"

definition build_bundle ::
  "prims \<Rightarrow> bytes \<Rightarrow> int \<Rightarrow> approval_record \<Rightarrow> bytes \<Rightarrow> int \<Rightarrow> consume_receipt \<Rightarrow> bytes \<Rightarrow> int \<Rightarrow> (pystr \<times> bytes \<times> bytes) list \<Rightarrow> proof_bundle res" where
  "build_bundle P ob prof ap asig aalg rc rsig ralg ks =
     rbind (rbind (object_body_without_id ob) (content_id (sha384 P))) (\<lambda>obj_cid.
       if approves ap \<noteq> obj_cid then Inl (BundleError ''ApprovalObjectMismatch'')
       else rbind (approval_record_id P ap) (\<lambda>aid.
         if cr_approval_id rc \<noteq> aid then Inl (BundleError ''ReceiptApprovalMismatch'')
         else Inr \<lparr>pb_object_bytes = ob, pb_profile = prof, pb_approval = Some ap, pb_approval_sig = asig, pb_approval_alg = aalg,
           pb_receipt = Some rc, pb_receipt_sig = rsig, pb_receipt_alg = ralg, pb_self_asserted_keys = ks\<rparr>))"

definition is_named_error :: "exn \<Rightarrow> bool" where
  "is_named_error e \<longleftrightarrow> (case e of EnvelopeError _ \<Rightarrow> True | ApprovalError _ \<Rightarrow> True | NonCanonical \<Rightarrow> True | DepthExceeded \<Rightarrow> True | _ \<Rightarrow> False)"

definition call_named :: "'a res \<Rightarrow> 'a res" where
  "call_named r = (case r of Inl e \<Rightarrow> Inl (if is_named_error e then e else BundleError ''MalformedSignatureInput'') | Inr x \<Rightarrow> Inr x)"

definition anchored :: "trust_anchor \<Rightarrow> key_ref \<Rightarrow> bytes res" where
  "anchored an ref =
     (case ref of (role, i, _) \<Rightarrow> (case resolve_key an role i of None \<Rightarrow> Inl (BundleError ''UnresolvedAnchor'') | Some pk \<Rightarrow> Inr pk))"

definition verify_bundle :: "prims \<Rightarrow> proof_bundle \<Rightarrow> trust_anchor option \<Rightarrow> kind_validator \<Rightarrow> int \<Rightarrow> int list \<Rightarrow> obj res" where
  "verify_bundle P b an validator pos_time known_cext =
     (case an of
        None \<Rightarrow> Inl (BundleError ''AnchorRequired'')
      | Some anchor \<Rightarrow>
          if ta_self_derived anchor then Inl (BundleError ''CircularAnchor'')
          else case (pb_approval b, pb_receipt b) of
            (Some ap, Some rc) \<Rightarrow>
              rbind (key_refs b) (\<lambda>(obj_ref, approval_ref, receipt_ref).
                rbind (anchored anchor obj_ref) (\<lambda>object_pk.
                rbind (call_named (verify P (pb_profile b) (snd (snd obj_ref)) object_pk validator (pb_object_bytes b) known_cext)) (\<lambda>ob.
                rbind (anchored anchor approval_ref) (\<lambda>approval_pk.
                rbind (rbind (object_content_id P ob) (\<lambda>cid.
                    call_named (verify_approval P ap (snd (snd approval_ref)) approval_pk (pb_approval_sig b) cid pos_time))) (\<lambda>_.
                rbind (approval_record_id P ap) (\<lambda>aid.
                if cr_approval_id rc \<noteq> aid then Inl (BundleError ''ReceiptApprovalMismatch'')
                else rbind (anchored anchor receipt_ref) (\<lambda>receipt_pk.
                rbind (call_named (verify_consume_receipt P rc (snd (snd receipt_ref)) receipt_pk (pb_receipt_sig b))) (\<lambda>_.
                Inr ob))))))))
          | _ \<Rightarrow> Inl (BundleError ''IncompleteBundle''))"

section \<open>What the references name\<close>

text \<open>The key is chosen by a signer that is read before verification; it is the signer of the object that then verifies.\<close>

lemma peek_verified:
  assumes "parse_sign1_raw ob = Inr (prot, payload, sig)" and "check_body P payload = Inr x"
  shows "peek_object_signer ob = Inr (signer x)"
  using assms(2)
proof (rule check_body_Inr)
  fix ps i
  assume p: "encode (M ps) = Inr payload" "canon (M ps) = M ps" "nesting (M ps) \<le> MAX_NESTING_DEPTH" "object_from_map ps = Inr x"
  have d: "decode_bounded payload MAX_NESTING_DEPTH = Inr (M ps)"
    using p(1-3) cbor_bounded.dec_iff [of payload MAX_NESTING_DEPTH "M ps"] by blast
  have dist: "distinct (map fst ps)" using canon_M_distinct [OF p(2)] encodeD [OF p(1)] by blast
  obtain f where f: "rfold field_step Map.empty ps = Inr f" "object_from_fields f = Inr x"
    using p(4) by (auto simp: object_from_map_def rbind_eq_Inr)
  then have v: "f FIELD_SIGNER = Some (B (signer x))"
    by (auto simp: object_from_fields_def need_B_def need_def rbind_eq_Inr if_Inl_eq_Inr split: option.splits cbor.splits)
  have "U FIELD_SIGNER \<in> fst ` set ps" using fields_other [OF f(1)] v by (metis option.distinct(1))
  then obtain w where w: "(U FIELD_SIGNER, w) \<in> set ps" by auto
  then have mem: "(U FIELD_SIGNER, B (signer x)) \<in> set ps" using fields_lookup [OF f(1) dist w] v by simp
  have "find (\<lambda>p. fst p = U FIELD_SIGNER \<and> is_B (snd p)) ps = Some (U FIELD_SIGNER, B (signer x))"
  proof (cases "find (\<lambda>p. fst p = U FIELD_SIGNER \<and> is_B (snd p)) ps")
    case None
    then show ?thesis using mem by (auto simp: find_None_iff)
  next
    case (Some q)
    then have "q \<in> set ps" "fst q = U FIELD_SIGNER" by (auto simp: find_Some_iff)
    moreover obtain k v where q: "q = (k, v)" by (cases q)
    ultimately have "(U FIELD_SIGNER, v) \<in> set ps" "k = U FIELD_SIGNER" by simp_all
    then have "q = (U FIELD_SIGNER, B (signer x))" using eq_key_imp_eq_value [OF dist _ mem] q by simp
    then show ?thesis using Some by simp
  qed
  then show ?thesis using assms(1) d by (simp add: peek_object_signer_def)
qed

lemma naalp_entries_alg: "r_alg (foldl naalp_entry r ps) = r_alg r"
  by (induction ps arbitrary: r) (auto simp: naalp_entry_def split: cbor.splits)

lemma header_alg_first:
  assumes "r_alg (foldl header_entry r ps) = Some a" and "distinct (map fst ps)" and "r_alg r = None"
  shows "find_alg ps = Inr a"
proof -
  have keep: "r_alg (foldl header_entry s qs) = r_alg s" if "U 1 \<notin> fst ` set qs" for s qs
    using that by (induction qs arbitrary: s) (auto simp: header_entry_def naalp_entries_alg split: cbor.splits)
  show ?thesis using assms
  proof (induction ps arbitrary: r)
    case (Cons p ps)
    obtain k v where p: "p = (k, v)" by fastforce
    show ?case
    proof (cases "\<exists>b. p = (U 1, N b)")
      case True
      then obtain b where b: "p = (U 1, N b)" by blast
      have "r_alg (foldl header_entry (header_entry r p) ps) = r_alg (header_entry r p)"
        using Cons.prems(2) b by (intro keep) simp
      then have "r_alg (header_entry r p) = Some a" using Cons.prems(1) by simp
      then show ?thesis using b by (simp add: header_entry_def)
    next
      case False
      then have "r_alg (header_entry r p) = None" "find_alg (p # ps) = find_alg ps"
        using Cons.prems(3) p by (auto simp: header_entry_def naalp_entries_alg split: cbor.splits)
      then show ?thesis using Cons.IH Cons.prems by simp
    qed
  qed simp
qed

lemma alg_of_parsed:
  assumes "parse_protected prot = Inr (a, s, p, w)"
  shows "alg_from_protected prot = Inr a"
proof -
  let ?r = "\<lparr>r_alg = None, r_signer = None, r_profile = None, r_version = None\<rparr>"
  obtain v where v: "prot \<noteq> [0xA0]" "decode prot = Inr v"
    using assms by (auto simp: parse_protected_def rbind_eq_Inr if_Inl_eq_Inr)
  then obtain ps where d: "prot \<noteq> [0xA0]" "decode prot = Inr (M ps)"
    using assms by (cases v) (auto simp: parse_protected_def)
  then have a: "r_alg (foldl header_entry ?r ps) = Some a"
    using assms by (simp add: parse_protected_def Let_def split: option.split_asm)
  have "distinct (map fst ps)" using decoded_map [OF d(2)] by (metis canon_M_distinct)
  then show ?thesis using header_alg_first [OF a] d by (simp add: alg_from_protected_def)
qed

lemma verified_refs:
  assumes "verify P vp va pk V ob K = Inr x"
  obtains alg where "peek_object_signer ob = Inr (signer x)" and "object_alg ob = Inr alg"
  using assms peek_verified alg_of_parsed by (auto simp: verify_iff check_header_Inr object_alg_def)

lemma verify_alg_unused: "verify P vp va pk V ob K = verify P vp vb pk V ob K"
  by (simp add: verify_def)

section \<open>Exactness\<close>

lemma call_named_Inr [res_simps]: "call_named r = Inr x \<longleftrightarrow> r = Inr x"
  by (cases r) (auto simp: call_named_def)

lemma anchored_Inr [res_simps]: "anchored an (role, i, a) = Inr pk \<longleftrightarrow> ta_known an (role, i) = Some pk"
  by (auto simp: anchored_def resolve_key_def split: option.splits)

lemma attr_Inr [res_simps]: "attr x = Inr y \<longleftrightarrow> x = Some y"
  by (auto simp: attr_def split: option.splits)

lemma verify_consume_receipt_Inr:
  "verify_consume_receipt P r alg pk sig = Inr u \<longleftrightarrow>
     cr_ledger r \<noteq> [] \<and> (\<exists>m. consume_receipt_bytes r = Inr m \<and> cose_verify1_raw P alg pk m sig = Inr True)"
  by (auto simp: verify_consume_receipt_def rbind_eq_Inr)

text \<open>
  The chain of three signed facts, every key taken from what the verifier knows: the object \<open>x\<close>, an approval of the content
  id \<open>cid\<close>, and a receipt that this approval was consumed.
\<close>

definition proven_chain ::
    "prims \<Rightarrow> proof_bundle \<Rightarrow> (pystr \<times> bytes \<rightharpoonup> bytes) \<Rightarrow> kind_validator \<Rightarrow> int \<Rightarrow> int list \<Rightarrow> obj \<Rightarrow> bytes \<Rightarrow> bool" where
  "proven_chain P b known V t K x cid \<longleftrightarrow>
     (\<exists>ap rc pk apk lpk who am rm alg. pb_approval b = Some ap \<and> pb_receipt b = Some rc \<and>
        known (pystr ''object'', signer x) = Some pk \<and> verify P (pb_profile b) alg pk V (pb_object_bytes b) K = Inr x \<and>
        utf8_encode (approver ap) = Inr who \<and> known (pystr ''approval'', who) = Some apk \<and> approval_bytes ap = Inr am \<and>
        cose_verify1_raw P (pb_approval_alg b) apk am (pb_approval_sig b) = Inr True \<and>
        approves ap = cid \<and> t \<le> not_after ap \<and>
        known (pystr ''receipt'', cr_ledger rc) = Some lpk \<and> consume_receipt_bytes rc = Inr rm \<and>
        cose_verify1_raw P (pb_receipt_alg b) lpk rm (pb_receipt_sig b) = Inr True \<and>
        cr_ledger rc \<noteq> [] \<and> cr_approval_id rc = content_id_bytes (sha384 P) am)"

lemma verify_bundle_Inr:
  "verify_bundle P b (Some an) V t K = Inr x \<longleftrightarrow> \<not> ta_self_derived an \<and>
     (\<exists>ap rc sg alg who pk apk lpk. pb_approval b = Some ap \<and> pb_receipt b = Some rc \<and>
        peek_object_signer (pb_object_bytes b) = Inr sg \<and> object_alg (pb_object_bytes b) = Inr alg \<and>
        utf8_encode (approver ap) = Inr who \<and> ta_known an (pystr ''object'', sg) = Some pk \<and>
        verify P (pb_profile b) alg pk V (pb_object_bytes b) K = Inr x \<and> ta_known an (pystr ''approval'', who) = Some apk \<and>
        (\<exists>cid. object_content_id P x = Inr cid \<and> verify_approval P ap (pb_approval_alg b) apk (pb_approval_sig b) cid t = Inr ()) \<and>
        approval_record_id P ap = Inr (cr_approval_id rc) \<and> ta_known an (pystr ''receipt'', cr_ledger rc) = Some lpk \<and>
        verify_consume_receipt P rc (pb_receipt_alg b) lpk (pb_receipt_sig b) = Inr ())"
  by (cases "pb_approval b"; cases "pb_receipt b")
    (auto simp: verify_bundle_def key_refs_def res_simps)

lemma approval_record_id_Inr: "approval_record_id P a = Inr i \<longleftrightarrow> (\<exists>m. approval_bytes a = Inr m \<and> i = content_id_bytes (sha384 P) m)"
  by (auto simp: approval_record_id_def rbind_eq_Inr)

lemma verify_bundle_exact:
  "verify_bundle P b (Some an) V t K = Inr x \<longleftrightarrow> \<not> ta_self_derived an \<and>
     (\<exists>cid. object_content_id P x = Inr cid \<and> proven_chain P b (ta_known an) V t K x cid)"
proof (cases "\<exists>pk alg. verify P (pb_profile b) alg pk V (pb_object_bytes b) K = Inr x")
  case True
  then obtain alg where refs: "peek_object_signer (pb_object_bytes b) = Inr (signer x)" "object_alg (pb_object_bytes b) = Inr alg"
    by (auto elim: verified_refs)
  have va: "(\<exists>a. verify P (pb_profile b) a pk V (pb_object_bytes b) K = Inr x) \<longleftrightarrow> verify P (pb_profile b) alg pk V (pb_object_bytes b) K = Inr x" for pk
    using verify_alg_unused by metis
  show ?thesis
    unfolding verify_bundle_Inr proven_chain_def verify_approval_Inr verify_consume_receipt_Inr approval_record_id_Inr refs
    by (simp add: va) (metis Inr_inject)
qed (auto simp: verify_bundle_Inr proven_chain_def)

section \<open>Round trips\<close>

lemma parse_approval_written:
  assumes "approval_bytes a = Inr m"
  shows "parse_approval_body m = Inr a"
proof -
  let ?ps = "[(U 1, B (approves a)), (U 2, T (approver a)), (U 3, U (grant_effect a)), (U 4, B (nonce a)), (U 5, U (not_after a))] @
      (if ap_audience a \<noteq> [] then [(U 6, T (ap_audience a))] else [])"
  have "decode m = Inr (M ?ps)"
    by (rule decode_fields [OF assms [unfolded approval_bytes_def]]) auto
  then show ?thesis
    by (simp add: parse_approval_body_def typed_fields_def typed_step_def approval_field_def)
qed

lemma parse_receipt_written:
  assumes "consume_receipt_bytes r = Inr m"
  shows "parse_receipt_body m = Inr r"
proof -
  have "decode m = Inr (M [(U 1, B (cr_ledger r)), (U 2, B (cr_approval_id r)), (U 3, U (cr_position r))])"
    by (rule decode_fields [OF assms [unfolded consume_receipt_bytes_def]]) auto
  then show ?thesis
    by (simp add: parse_receipt_body_def typed_fields_def typed_step_def receipt_field_def)
qed

interpretation approval_wire: signed_body approval_bytes parse_approval_body "\<lambda>_. True"
  by unfold_locales (rule parse_approval_written)

interpretation receipt_wire: signed_body consume_receipt_bytes parse_receipt_body "\<lambda>_. True"
  by unfold_locales (rule parse_receipt_written)

lemma self_asserted_facts:
  "canon (self_asserted_value ks) = self_asserted_value ks" "nesting (self_asserted_value ks) \<le> Suc 2"
  unfolding self_asserted_value_def
  by (rule array_facts(1) [where k = 2] array_facts(2); auto simp: nesting_A_le)+

lemma read_self_asserted_written: "read_self_asserted (Some (self_asserted_value ks)) = Inr ks"
  by (simp add: read_self_asserted_def self_asserted_value_def read_items_map read_self_asserted_key_def split: prod.split)

lemma bundle_wire:
  assumes "bundle_to_bytes b = Inr data"
  shows "bundle_from_bytes data = Inr b"
proof -
  obtain ap rc am rm where b: "pb_approval b = Some ap" "pb_receipt b = Some rc" "approval_bytes ap = Inr am" "consume_receipt_bytes rc = Inr rm"
    and e: "encode (M ([(U 1, B (pb_object_bytes b)), (U 2, U (pb_profile b)), (U 3, B am), (U 4, B (pb_approval_sig b)),
             (U 5, N (pb_approval_alg b)), (U 6, B rm), (U 7, B (pb_receipt_sig b)), (U 8, N (pb_receipt_alg b))] @
             (if pb_self_asserted_keys b \<noteq> [] then [(U 9, self_asserted_value (pb_self_asserted_keys b))] else []))) = Inr data"
    using assms by (auto simp: bundle_to_bytes_def bundle_map_def res_simps simp del: encode.simps)
  have "decode data = Inr (M ([(U 1, B (pb_object_bytes b)), (U 2, U (pb_profile b)), (U 3, B am), (U 4, B (pb_approval_sig b)),
             (U 5, N (pb_approval_alg b)), (U 6, B rm), (U 7, B (pb_receipt_sig b)), (U 8, N (pb_receipt_alg b))] @
             (if pb_self_asserted_keys b \<noteq> [] then [(U 9, self_asserted_value (pb_self_asserted_keys b))] else [])))"
    by (rule decode_fields [OF e]) (use self_asserted_facts [of "pb_self_asserted_keys b"] in \<open>auto intro: le_trans\<close>)
  moreover have "read_self_asserted (if pb_self_asserted_keys b \<noteq> [] then Some (self_asserted_value (pb_self_asserted_keys b)) else None)
      = Inr (pb_self_asserted_keys b)"
    by (simp add: read_self_asserted_written) (simp add: read_self_asserted_def)
  ultimately show ?thesis
    using b by (cases b) (auto simp: bundle_from_bytes_def bundle_field_step_def bundle_need_def get_B_def get_U_def get_N_def
        approval_wire.parse_body receipt_wire.parse_body split: if_splits)
qed

section \<open>The object's own id\<close>

text \<open>The bytes of an object as the SDK writes it.\<close>

definition sdk_object :: "bytes \<Rightarrow> bool" where
  "sdk_object ob \<longleftrightarrow>
     (case rbind (parse_sign1_raw ob) (\<lambda>(_, payload, _). decode_bounded payload MAX_NESTING_DEPTH) of
        Inr (M ps) \<Rightarrow> sdk_fields ps | _ \<Rightarrow> False)"

text \<open>For such an object the id the bundle verifier recomputes from the fields it read is the verified one.\<close>

lemma verified_object_id:
  assumes "verify P vp alg pk V ob K = Inr x" and "sdk_object ob"
  shows "object_content_id P x = Inr i \<longleftrightarrow> obj_id x = Some i"
proof -
  obtain prot payload sig ps where p: "parse_sign1_raw ob = Inr (prot, payload, sig)"
      "decode_bounded payload MAX_NESTING_DEPTH = Inr (M ps)" "carries ps x"
    and i: "obj_id x = Some (content_id_bytes (sha384 P) (enc_of (M (filter (\<lambda>p. fst p \<noteq> U FIELD_ID) ps))))"
    using assms(1) unfolding verify_iff check_body_iff by blast
  have c: "canon (M ps) = M ps" "encodable (M ps)"
    using p(2) cbor_bounded.dec_iff [of payload MAX_NESTING_DEPTH "M ps"] encodeD by blast+
  have "sdk_fields ps" using assms(2) p(1,2) by (simp add: sdk_object_def)
  then have f: "filter (\<lambda>p. fst p \<noteq> U FIELD_ID) ps = body_fields x" by (rule carried_body [OF c p(3)])
  have "encode (M (body_fields x)) = Inr (enc_of (M (body_fields x)))"
    using encodable_filter [OF c(2)] unfolding f [symmetric] by (simp only: encode_enc_of simp_thms)
  then show ?thesis
    using i unfolding f by (auto simp add: object_content_id_def body_map_def content_id_def simp del: encode.simps)
qed

lemma signed_sdk_object:
  assumes "sign P x alg seed = Inr (x1, bs)" and "nesting (M ((U FIELD_ID, B []) # body_fields x)) \<le> MAX_NESTING_DEPTH"
  shows "sdk_object bs"
proof -
  obtain payload prot tbs sig where a: "assign_id P x = Inr (x1, payload)" and b: "assemble_sign1_raw prot payload sig = Inr bs"
    using assms(1) by (auto simp: sign_def res_simps)
  obtain i where p: "encode (M ((U FIELD_ID, B i) # body_fields x)) = Inr payload"
    using a by (rule assign_id_Inr)
  have d: "decode_bounded payload MAX_NESTING_DEPTH = Inr (M ((U FIELD_ID, B i) # body_fields (canon_obj x)))"
    using decode_bounded_encode [OF p] assms(2) canon_asc_map [OF body_fields_asc(2) [of i x]] body_fields_canon [of x]
    by simp
  then show ?thesis using parse_assemble_sign1 [OF b] sdk_fields_body by (simp add: sdk_object_def)
qed

section \<open>An honest chain\<close>

lemma signed_body_without_id:
  assumes "sign P x alg seed = Inr (x1, bs)" and "nesting (M ((U FIELD_ID, B []) # body_fields x)) \<le> MAX_NESTING_DEPTH"
  obtains i where "obj_id x1 = Some i" and "object_content_id P (canon_obj x1) = Inr i"
    and "rbind (object_body_without_id bs) (content_id (sha384 P)) = Inr i"
proof -
  obtain payload prot tbs sig where a: "assign_id P x = Inr (x1, payload)" and b: "assemble_sign1_raw prot payload sig = Inr bs"
    using assms(1) by (auto simp: sign_def res_simps)
  obtain i m where i: "encode (M (body_fields x)) = Inr m" "i = content_id_bytes (sha384 P) m" "x1 = x\<lparr>obj_id := Some i\<rparr>"
    and p: "encode (M ((U FIELD_ID, B i) # body_fields x)) = Inr payload"
    using a by (rule assign_id_Inr)
  have e: "content_id (sha384 P) (M (body_fields (canon_obj x))) = Inr i"
    using encode_canon [OF i(1)] canon_asc_map [OF body_fields_asc(1) [of x]] body_fields_canon [of x] i(2)
    by (simp add: content_id_def)
  have d: "decode_bounded payload MAX_NESTING_DEPTH = Inr (M ((U FIELD_ID, B i) # body_fields (canon_obj x)))"
    using decode_bounded_encode [OF p] assms(2) canon_asc_map [OF body_fields_asc(2) [of i x]] body_fields_canon [of x]
    by simp
  have "filter (\<lambda>p. fst p \<noteq> U FIELD_ID) ((U FIELD_ID, B i) # body_fields (canon_obj x)) = body_fields (canon_obj x)"
    using body_fields_no_id by (simp add: filter_id_conv)
  moreover have "body_fields (canon_obj x1) = body_fields (canon_obj x)"
    unfolding i(3) by (simp add: canon_obj_def body_fields_def)
  ultimately show thesis
    using that [of i] i(3) e d parse_assemble_sign1 [OF b]
    by (simp add: object_body_without_id_def object_content_id_def body_map_def)
qed

text \<open>An honest chain is packaged and verifies: an object that was signed, an approval of its id that was signed, and the receipt
  that the ledger signed when it consumed the approval go into a bundle; written to bytes and read back it is the same bundle, and
  a verifier that holds the three keys accepts it until the approval expires and gets the object that was signed.\<close>

theorem honest_bundle_verifies:
  assumes "md_correct P" and "sign P x alg seed = Inr (x1, bs)" and "md_key_derive P alg seed = Inr (pk, sk)"
    and "length bs \<le> MAX_OBJECT_SIZE" and "acceptable V K x" and "suite x = 0" and "profile_min_level vp \<le> fst (alg_level alg)"
    and "obj_id x1 = Some (approves ap)" and "sign_approval P ap aalg aseed = Inr asig" and "md_key_derive P aalg aseed = Inr (apk, ask)"
    and "utf8_encode (approver ap) = Inr who" and "t \<le> not_after ap" and "approval_record_id P ap = Inr aid"
    and "consume_with_receipt P led aid w = Inr (led', e, rc, rsig)" and "receipt_key led = Some (lalg, lseed)"
    and "md_key_derive P lalg lseed = Inr (lpk, lsk)"
    and "known (pystr ''object'', signer x) = Some pk" and "known (pystr ''approval'', who) = Some apk"
    and "known (pystr ''receipt'', receipt_ledger_id led) = Some lpk"
  shows "\<exists>b. build_bundle P bs vp ap asig aalg rc rsig lalg ks = Inr b \<and>
    verify_bundle P b (Some (new_anchor known)) V t K = Inr (canon_obj x1) \<and>
    (\<forall>data. bundle_to_bytes b = Inr data \<longrightarrow> bundle_from_bytes data = Inr b)"
proof -
  have n: "nesting (M ((U FIELD_ID, B []) # body_fields x)) \<le> MAX_NESTING_DEPTH" using assms(5) by (simp add: acceptable_def)
  have ids: "object_content_id P (canon_obj x1) = Inr (approves ap)" "rbind (object_body_without_id bs) (content_id (sha384 P)) = Inr (approves ap)"
    using signed_body_without_id [OF assms(2) n] assms(8) by (metis option.inject)+
  have sg: "signer (canon_obj x1) = signer x"
    using assms(2) by (auto simp: sign_def assign_id_def Let_def rbind_eq_Inr)
  have rc: "verify_consume_receipt P rc lalg lpk rsig = Inr ()" "cr_ledger rc = receipt_ledger_id led" "cr_approval_id rc = aid"
    using assms(14,15) mldsa_sign_verify(1) [OF assms(1) _ assms(16)]
    by (auto simp: consume_with_receipt_def rbind_eq_Inr Let_def sign_consume_receipt_def verify_consume_receipt_def split: if_splits)
  obtain am where am: "approval_bytes ap = Inr am" "cose_verify1_raw P aalg apk am asig = Inr True" "aid = content_id_bytes (sha384 P) am"
    using assms(9,13) mldsa_sign_verify(1) [OF assms(1) _ assms(10)] by (auto simp: sign_approval_def approval_record_id_Inr rbind_eq_Inr)
  let ?b = "\<lparr>pb_object_bytes = bs, pb_profile = vp, pb_approval = Some ap, pb_approval_sig = asig, pb_approval_alg = aalg,
           pb_receipt = Some rc, pb_receipt_sig = rsig, pb_receipt_alg = lalg, pb_self_asserted_keys = ks\<rparr>"
  have "build_bundle P bs vp ap asig aalg rc rsig lalg ks = Inr ?b"
    using ids(2) assms(13) rc(3) unfolding build_bundle_def by simp
  moreover have "proven_chain P ?b known V t K (canon_obj x1) (approves ap)"
    unfolding proven_chain_def
    using sign_verify [OF assms(1-7)] assms(11,12,17-19) am rc sg by (auto simp: verify_consume_receipt_Inr)
  then have "verify_bundle P ?b (Some (new_anchor known)) V t K = Inr (canon_obj x1)"
    using ids(1) by (simp add: verify_bundle_exact new_anchor_def)
  ultimately show ?thesis using bundle_wire by blast
qed

definition sample_bundle_approval :: "bytes \<Rightarrow> approval_record" where
  "sample_bundle_approval i = \<lparr>approves = i, approver = [97], grant_effect = 1, nonce = [1], not_after = 9, ap_audience = []\<rparr>"

definition sample_receipt_ledger :: ledger where
  "sample_receipt_ledger = sample_ledger\<lparr>authority := [], receipt_ledger_id := [3], receipt_key := Some (- 49, [5])\<rparr>"

lemma sample_bundle_chain:
  obtains x1 bs i asig aid led' e rc rsig where "sign sample_prims sample_obj (- 49) [5] = Inr (x1, bs)" "length bs \<le> MAX_OBJECT_SIZE"
    "obj_id x1 = Some i" "sign_approval sample_prims (sample_bundle_approval i) (- 49) [5] = Inr asig"
    "approval_record_id sample_prims (sample_bundle_approval i) = Inr aid"
    "consume_with_receipt sample_prims sample_receipt_ledger aid [98] = Inr (led', e, rc, rsig)"
proof -
  have "is_ok (rbind (sign sample_prims sample_obj (- 49) [5]) (\<lambda>(x1, bs). if length bs > 300 then Inl TypeError
      else rbind (attr (obj_id x1)) (\<lambda>i. rbind (sign_approval sample_prims (sample_bundle_approval i) (- 49) [5]) (\<lambda>_.
        rbind (approval_record_id sample_prims (sample_bundle_approval i)) (\<lambda>aid.
          consume_with_receipt sample_prims sample_receipt_ledger aid [98])))))"
    by code_simp
  then show thesis
    using that by (auto simp: is_ok_iff MAX_OBJECT_SIZE_def res_simps)
qed

definition sample_known :: "pystr \<times> bytes \<rightharpoonup> bytes" where
  "sample_known = [(pystr ''object'', [9]) \<mapsto> [5], (pystr ''approval'', [97]) \<mapsto> [5], (pystr ''receipt'', [3]) \<mapsto> [5]]"

lemma sample_bundle_verifies:
  obtains x1 bs ap asig rc rsig b where "sign sample_prims sample_obj (- 49) [5] = Inr (x1, bs)" and "pb_object_bytes b = bs"
    and "verify_bundle sample_prims b (Some (new_anchor sample_known)) sample_validator 5 [] = Inr (canon_obj x1)"
    and "build_bundle sample_prims bs 1 ap asig (- 49) rc rsig (- 49) [] = Inr b"
proof -
  obtain x1 bs i asig aid led' e rc rsig where c: "sign sample_prims sample_obj (- 49) [5] = Inr (x1, bs)" "length bs \<le> MAX_OBJECT_SIZE"
    "obj_id x1 = Some i" "sign_approval sample_prims (sample_bundle_approval i) (- 49) [5] = Inr asig"
    "approval_record_id sample_prims (sample_bundle_approval i) = Inr aid"
    "consume_with_receipt sample_prims sample_receipt_ledger aid [98] = Inr (led', e, rc, rsig)"
    by (rule sample_bundle_chain)
  have u: "utf8_encode (approver (sample_bundle_approval i)) = Inr [97]" by (simp add: sample_bundle_approval_def utf8_byte_def)
  have k: "sample_known (pystr ''object'', signer sample_obj) = Some [5]" "sample_known (pystr ''approval'', [97]) = Some [5]"
    "sample_known (pystr ''receipt'', receipt_ledger_id sample_receipt_ledger) = Some [5]"
    by code_simp+
  have r: "receipt_key sample_receipt_ledger = Some (- 49, [5])" "obj_id x1 = Some (approves (sample_bundle_approval i))"
    "5 \<le> not_after (sample_bundle_approval i)"
    using c(3) by (simp_all add: sample_receipt_ledger_def sample_bundle_approval_def)
  from honest_bundle_verifies [OF sample_prims_correct(1) c(1) sample_prims_sel(4) c(2) sample_acceptable sample_level(2,1) r(2) c(4)
      sample_prims_sel(4) u r(3) c(5,6) r(1) sample_prims_sel(4) k, of "[]"]
  obtain b where b: "build_bundle sample_prims bs 1 (sample_bundle_approval i) asig (- 49) rc rsig (- 49) [] = Inr b"
    "verify_bundle sample_prims b (Some (new_anchor sample_known)) sample_validator 5 [] = Inr (canon_obj x1)"
    by blast
  moreover have "pb_object_bytes b = bs" using b(1) by (auto simp: build_bundle_def res_simps)
  ultimately show thesis using that c(1) by blast
qed

theorem honest_bundle_verifies_witness:
  "\<exists>bs ap asig rc rsig b x1. build_bundle sample_prims bs 1 ap asig (- 49) rc rsig (- 49) [] = Inr b \<and>
     verify_bundle sample_prims b (Some (new_anchor sample_known)) sample_validator 5 [] = Inr (canon_obj x1)"
  by (metis sample_bundle_verifies)

text \<open>C14: A proof bundle is accepted exactly when the verifier's own anchor, never one read from a bundle, holds the keys of a
  complete chain: the object verifies under the key held for the signer named in its verified body; the approval verifies under the
  key held for its approver, approves the object's own, just verified content id and has not expired; the receipt verifies under the
  key held for its ledger and names that very approval. Keys a bundle carries about itself are refused whatever it contains. This is
  for objects as the SDK writes them, with no body field beyond its own and no default written out: the code compares the approval
  with an id recomputed from the fields it knows, which for these objects is the verified one.\<close>

theorem bundle_verified_exactly:
  assumes "sdk_object (pb_object_bytes b)"
  shows "(verify_bundle P b an V t K = Inr x \<longleftrightarrow>
      (\<exists>a i. an = Some a \<and> \<not> ta_self_derived a \<and> obj_id x = Some i \<and> proven_chain P b (ta_known a) V t K x i)) \<and>
    verify_bundle P b (Some (from_bundle_self_asserted b')) V t K = Inl (BundleError ''CircularAnchor'')"
proof
  have "proven_chain P b (ta_known a) V t K x i \<Longrightarrow> object_content_id P x = Inr i' \<longleftrightarrow> obj_id x = Some i'" for a i i'
    using verified_object_id [OF _ assms] unfolding proven_chain_def by blast
  then show "verify_bundle P b an V t K = Inr x \<longleftrightarrow>
      (\<exists>a i. an = Some a \<and> \<not> ta_self_derived a \<and> obj_id x = Some i \<and> proven_chain P b (ta_known a) V t K x i)"
    by (cases an) (auto simp: verify_bundle_exact, simp add: verify_bundle_def)
qed (simp add: verify_bundle_def from_bundle_self_asserted_def)

theorem bundle_verified_exactly_witness:
  "\<exists>b x i. sdk_object (pb_object_bytes b) \<and>
     verify_bundle sample_prims b (Some (new_anchor sample_known)) sample_validator 5 [] = Inr x \<and>
     obj_id x = Some i \<and> proven_chain sample_prims b sample_known sample_validator 5 [] x i"
proof -
  obtain x1 bs b where s: "sign sample_prims sample_obj (- 49) [5] = Inr (x1, bs)" and b: "pb_object_bytes b = bs"
    and v: "verify_bundle sample_prims b (Some (new_anchor sample_known)) sample_validator 5 [] = Inr (canon_obj x1)"
    by (rule sample_bundle_verifies)
  have o: "sdk_object (pb_object_bytes b)"
    unfolding b by (rule signed_sdk_object [OF s]) (use sample_acceptable in \<open>simp add: acceptable_def\<close>)
  have "\<exists>a i. Some (new_anchor sample_known) = Some a \<and> \<not> ta_self_derived a \<and> obj_id (canon_obj x1) = Some i \<and>
      proven_chain sample_prims b (ta_known a) sample_validator 5 [] (canon_obj x1) i"
    using v bundle_verified_exactly [OF o] by blast
  with o v show ?thesis by (auto simp: new_anchor_def)
qed

end
