(* ===== verification/React.thy ===== *)
theory React
  imports Hitl Channels
begin

text \<open>
  The bridge between an agent's loop and signed objects (\<^verbatim>\<open>ecosystem/naalp-react\<close>): an action becomes a signed request,
  a response becomes an observation that names the request as its cause. The injected validator, interceptor, transport and clock
  are functions on a state \<open>'w\<close> of their own.
\<close>

section \<open>Actions, requests and observations\<close>

record action =
  ac_name :: pystr
  ac_channel :: int
  ac_kind :: int
  ac_effect :: int
  ac_args :: cbor
  ac_args_summary :: pystr
  ac_causes :: "bytes list"

record request =
  req_payload :: bytes
  req_id :: bytes

record observation =
  ob_ok :: bool
  ob_name :: string
  ob_body :: "cbor option"
  ob_error :: "string option"

text \<open>What an interceptor is shown of a paused action; its \<^verbatim>\<open>execute\<close> is the instruction \<open>HExecute\<close> below.\<close>

record react_pending =
  rp_kind :: pystr
  rp_effect :: int
  rp_args :: cbor
  rp_args_summary :: pystr

text \<open>
  An interceptor as the bridge sees it: between its own steps it may call \<^verbatim>\<open>execute\<close>, any number of times, with the result or
  the exception handed back to it; it ends by returning or by raising.
\<close>

datatype 'w interceptor =
    HReturn 'w
  | HRaise exn 'w
  | HExecute 'w "bytes res \<times> 'w \<Rightarrow> 'w interceptor"

record 'w react_bridge =
  rb_alg :: int
  rb_seed :: bytes
  rb_signer_id :: pystr
  rb_profile :: int
  rb_audience :: pystr
  rb_self_identity :: pystr
  rb_responder_alg :: int
  rb_responder_pubkey :: bytes
  rb_clock :: "'w \<Rightarrow> int \<times> 'w"
  rb_validator :: "(obj \<Rightarrow> 'w \<Rightarrow> bool res \<times> 'w) option"
  rb_hitl :: "(react_pending \<Rightarrow> 'w \<Rightarrow> 'w interceptor) option"
  rb_transport :: "(bytes \<Rightarrow> 'w \<Rightarrow> unit res \<times> 'w) option"

definition react_init :: "'w react_bridge \<Rightarrow> 'w react_bridge res" where
  "react_init b = (if rb_audience b = [] then Inl ValueError else if rb_self_identity b = [] then Inl ValueError else Inr b)"

definition react_kind_validator :: kind_validator where
  "react_kind_validator = Some (\<lambda>ch k. is_ok (channel_lookup ch k))"

section \<open>From an action to a request\<close>

definition react_candidate :: "'w react_bridge \<Rightarrow> action \<Rightarrow> bytes \<Rightarrow> int \<Rightarrow> obj" where
  "react_candidate b a sgnr t =
     \<lparr>obj_id = None, kind = ac_kind a, channel = ac_channel a, tier = 0, signer = sgnr, created = t, effect = ac_effect a,
       causes = ac_causes a, profile = rb_profile b, body = ac_args a, ext = None, cext = None, audience = rb_audience b, suite = 0\<rparr>"

text \<open>The state that the closure \<^verbatim>\<open>_sign_and_emit\<close> shares with its caller: what was emitted, and the candidate it signs.\<close>

record 'w emit_state =
  em_emitted :: "bytes list"
  em_candidate :: obj
  em_world :: 'w

definition sign_and_emit :: "prims \<Rightarrow> 'w react_bridge \<Rightarrow> 'w emit_state \<Rightarrow> bytes res \<times> 'w emit_state" where
  "sign_and_emit P b s =
     (case sign P (em_candidate s) (rb_alg b) (rb_seed b) of
        Inl e \<Rightarrow> (Inl e, s)
      | Inr (cand, sb) \<Rightarrow>
          let s1 = s\<lparr>em_emitted := em_emitted s @ [sb], em_candidate := cand\<rparr> in
          (case rb_transport b of
             None \<Rightarrow> (Inr sb, s1)
           | Some send \<Rightarrow>
               (case send sb (em_world s1) of
                  (Inl e, w) \<Rightarrow> (Inl e, s1\<lparr>em_world := w\<rparr>)
                | (Inr _, w) \<Rightarrow> (Inr sb, s1\<lparr>em_world := w\<rparr>))))"

primrec run_interceptor :: "('w emit_state \<Rightarrow> bytes res \<times> 'w emit_state) \<Rightarrow> 'w interceptor \<Rightarrow> 'w emit_state \<Rightarrow> unit res \<times> 'w emit_state" where
  "run_interceptor ex (HReturn w) s = (Inr (), s\<lparr>em_world := w\<rparr>)"
| "run_interceptor ex (HRaise e w) s = (Inl e, s\<lparr>em_world := w\<rparr>)"
| "run_interceptor ex (HExecute w k) s =
     (case ex (s\<lparr>em_world := w\<rparr>) of (r, s1) \<Rightarrow> run_interceptor ex (k (r, em_world s1)) s1)"

definition react_pending_of :: "action \<Rightarrow> react_pending" where
  "react_pending_of a =
     \<lparr>rp_kind = ac_name a, rp_effect = ac_effect a, rp_args = ac_args a,
       rp_args_summary = (if ac_args_summary a \<noteq> [] then ac_args_summary a else ac_name a)\<rparr>"

definition react_emit :: "prims \<Rightarrow> 'w react_bridge \<Rightarrow> action \<Rightarrow> 'w emit_state \<Rightarrow> unit res \<times> 'w emit_state" where
  "react_emit P b a s =
     (case rb_hitl b of
        Some hook \<Rightarrow> run_interceptor (sign_and_emit P b) (hook (react_pending_of a) (em_world s)) s
      | None \<Rightarrow> (case sign_and_emit P b s of (Inl e, s1) \<Rightarrow> (Inl e, s1) | (Inr _, s1) \<Rightarrow> (Inr (), s1)))"

definition react_validate :: "'w react_bridge \<Rightarrow> obj \<Rightarrow> 'w \<Rightarrow> unit res \<times> 'w" where
  "react_validate b cand w =
     (case rb_validator b of
        None \<Rightarrow> (Inr (), w)
      | Some f \<Rightarrow>
          (case f cand w of
             (Inl e, w1) \<Rightarrow> (Inl e, w1)
           | (Inr ok, w1) \<Rightarrow> (if ok then Inr () else Inl (ReActError ''ValidationRefused''), w1)))"

text \<open>The id is read from the candidate after the call that signed it; signing sets it, so an emitted request has one.\<close>

definition action_to_request :: "prims \<Rightarrow> 'w react_bridge \<Rightarrow> action \<Rightarrow> 'w \<Rightarrow> request res \<times> 'w" where
  "action_to_request P b a w =
     (case utf8_encode (rb_signer_id b) of
        Inl e \<Rightarrow> (Inl e, w)
      | Inr sgnr \<Rightarrow>
          (case rb_clock b w of (t, w1) \<Rightarrow>
             let cand = react_candidate b a sgnr t in
             (case react_validate b cand w1 of
                (Inl e, w2) \<Rightarrow> (Inl e, w2)
              | (Inr _, w2) \<Rightarrow>
                  (case react_emit P b a \<lparr>em_emitted = [], em_candidate = cand, em_world = w2\<rparr> of
                     (Inl e, s) \<Rightarrow> (Inl e, em_world s)
                   | (Inr _, s) \<Rightarrow>
                       (case (em_emitted s, obj_id (em_candidate s)) of
                          (p # _, Some i) \<Rightarrow> (Inr \<lparr>req_payload = p, req_id = i\<rparr>, em_world s)
                        | _ \<Rightarrow> (Inl (ReActError ''NotEmitted''), em_world s))))))"

section \<open>From a response to an observation\<close>

definition refused_observation :: "string \<Rightarrow> observation" where
  "refused_observation err = \<lparr>ob_ok = False, ob_name = [], ob_body = None, ob_error = Some err\<rparr>"

definition error_name :: "exn \<Rightarrow> string" where
  "error_name e = (case exn_kind e of None \<Rightarrow> ''Malformed'' | Some k \<Rightarrow> k)"

definition response_to_observation :: "prims \<Rightarrow> 'w react_bridge \<Rightarrow> bytes \<Rightarrow> request \<Rightarrow> observation res" where
  "response_to_observation P b resp rq =
     (case verify P (rb_profile b) (rb_responder_alg b) (rb_responder_pubkey b) react_kind_validator resp [] of
        Inl e \<Rightarrow> if is_value_error e \<or> e = TypeError then Inr (refused_observation (error_name e)) else Inl e
      | Inr ob \<Rightarrow>
          (case check_audience ob (rb_self_identity b) True of
             Inl (EnvelopeError k) \<Rightarrow> Inr (refused_observation k)
           | Inl e \<Rightarrow> Inl e
           | Inr _ \<Rightarrow>
               if req_id rq \<notin> set (causes ob) then Inr (refused_observation ''CausalViolation'')
               else rbind (channel_lookup (channel ob) (kind ob)) (\<lambda>(name, _, _).
                 Inr \<lparr>ob_ok = True, ob_name = name, ob_body = Some (body ob), ob_error = None\<rparr>)))"

section \<open>What is emitted\<close>

lemma sign_again:
  assumes "sign P x alg seed = Inr (x1, b)"
  shows "sign P x1 alg seed = Inr (x1, b)"
proof -
  obtain payload where a: "assign_id P x = Inr (x1, payload)" using assms by (auto simp: sign_def rbind_eq_Inr)
  then obtain i where x1: "x1 = x\<lparr>obj_id := Some i\<rparr>" by (auto elim: assign_id_Inr)
  have "assign_id P x1 = assign_id P x" unfolding x1 by (simp add: assign_id_def object_content_id_def body_map_def)
  then show ?thesis using assms a by (simp add: sign_def)
qed

text \<open>However an interceptor uses \<^verbatim>\<open>execute\<close>, what was emitted is the signed candidate, and the candidate then has its id.\<close>

definition emits :: "prims \<Rightarrow> 'w react_bridge \<Rightarrow> obj \<Rightarrow> 'w emit_state \<Rightarrow> bool" where
  "emits P b x s \<longleftrightarrow>
     (em_emitted s = [] \<and> em_candidate s = x) \<or>
     (\<exists>p. sign P x (rb_alg b) (rb_seed b) = Inr (em_candidate s, p) \<and> em_emitted s \<noteq> [] \<and> (\<forall>q \<in> set (em_emitted s). q = p))"

lemma sign_and_emit_emits:
  assumes "emits P b x s" and "sign_and_emit P b s = (r, s1)"
  shows "emits P b x s1"
proof (cases "sign P (em_candidate s) (rb_alg b) (rb_seed b)")
  case (Inl e)
  then show ?thesis using assms by (simp add: sign_and_emit_def)
next
  case (Inr y)
  obtain c p where y: "y = (c, p)" by (cases y)
  have e: "em_emitted s1 = em_emitted s @ [p]" "em_candidate s1 = c"
    using assms(2) Inr by (auto simp: y sign_and_emit_def Let_def split: option.splits prod.splits sum.splits)
  show ?thesis
    using assms(1) Inr sign_again unfolding emits_def y e by fastforce
qed

lemma run_interceptor_emits:
  assumes "emits P b x s" and "run_interceptor (sign_and_emit P b) i s = (r, s1)"
  shows "emits P b x s1"
  using assms
proof (induction i arbitrary: s)
  case (HExecute w k)
  obtain q s2 where q: "sign_and_emit P b (s\<lparr>em_world := w\<rparr>) = (q, s2)" by fastforce
  have "emits P b x (s\<lparr>em_world := w\<rparr>)" using HExecute.prems(1) by (simp add: emits_def)
  from sign_and_emit_emits [OF this q] show ?case
    using HExecute.IH [of "k (q, em_world s2)" s2] HExecute.prems(2) q by simp
qed (auto simp: emits_def)

lemma react_emit_emits: "emits P b x s \<Longrightarrow> react_emit P b a s = (r, s1) \<Longrightarrow> emits P b x s1"
  by (auto simp: react_emit_def split: option.splits prod.splits sum.splits dest: run_interceptor_emits sign_and_emit_emits)

lemma sign_id: "sign P x alg seed = Inr (x1, b) \<Longrightarrow> obj_id x1 = None \<Longrightarrow> False"
  by (auto simp: sign_def rbind_eq_Inr elim!: assign_id_Inr)

lemma action_to_request_Inr:
  assumes "action_to_request P b a w = (Inr rq, w')"
  obtains sgnr t w1 w2 x1 where "utf8_encode (rb_signer_id b) = Inr sgnr" and "rb_clock b w = (t, w1)"
    and "react_validate b (react_candidate b a sgnr t) w1 = (Inr (), w2)"
    and "sign P (react_candidate b a sgnr t) (rb_alg b) (rb_seed b) = Inr (x1, req_payload rq)" and "obj_id x1 = Some (req_id rq)"
proof -
  obtain sgnr t w1 w2 s where u: "utf8_encode (rb_signer_id b) = Inr sgnr" "rb_clock b w = (t, w1)"
    "react_validate b (react_candidate b a sgnr t) w1 = (Inr (), w2)"
    and e: "react_emit P b a \<lparr>em_emitted = [], em_candidate = react_candidate b a sgnr t, em_world = w2\<rparr> = (Inr (), s)"
    and f: "(case (em_emitted s, obj_id (em_candidate s)) of (p # _, Some i) \<Rightarrow> (Inr \<lparr>req_payload = p, req_id = i\<rparr>, em_world s)
        | _ \<Rightarrow> (Inl (ReActError ''NotEmitted''), em_world s)) = (Inr rq, w')"
    using assms by (auto simp: action_to_request_def Let_def split: sum.splits prod.splits)
  obtain p ps i where p: "em_emitted s = p # ps" "obj_id (em_candidate s) = Some i" "rq = \<lparr>req_payload = p, req_id = i\<rparr>"
    using f by (auto split: list.splits option.splits)
  have "emits P b (react_candidate b a sgnr t) s" by (rule react_emit_emits [OF _ e]) (simp add: emits_def)
  then show thesis using that [OF u] p by (auto simp: emits_def)
qed

section \<open>What is observed\<close>

lemma check_audience_Inr: "check_audience x who True = Inr u \<longleftrightarrow> audience x \<noteq> [] \<and> audience x = who"
  by (auto simp: check_audience_def)

lemma verified_kind:
  assumes "verify P vp alg pk react_kind_validator resp K = Inr x"
  obtains name eff var where "channel_lookup (channel x) (kind x) = Inr (name, eff, var)"
  using assms by (auto simp: verify_iff check_kind_def react_kind_validator_def is_ok_iff split: if_splits)

lemma observed_ok:
  "response_to_observation P b resp rq = Inr ob \<and> ob_ok ob \<longleftrightarrow>
     (\<exists>x name eff var. verify P (rb_profile b) (rb_responder_alg b) (rb_responder_pubkey b) react_kind_validator resp [] = Inr x \<and>
        audience x \<noteq> [] \<and> audience x = rb_self_identity b \<and> req_id rq \<in> set (causes x) \<and>
        channel_lookup (channel x) (kind x) = Inr (name, eff, var) \<and>
        ob = \<lparr>ob_ok = True, ob_name = name, ob_body = Some (body x), ob_error = None\<rparr>)" (is "?l \<longleftrightarrow> ?r")
proof (cases "verify P (rb_profile b) (rb_responder_alg b) (rb_responder_pubkey b) react_kind_validator resp []")
  case (Inl e)
  then show ?thesis by (auto simp: response_to_observation_def refused_observation_def)
next
  case (Inr x)
  show ?thesis
  proof (cases "check_audience x (rb_self_identity b) True")
    case e: (Inl e)
    then have "e = EnvelopeError ''WrongAudience''" by (auto simp: check_audience_def split: if_splits)
    then show ?thesis using Inr e check_audience_Inr [of x "rb_self_identity b" "()"]
      by (auto simp: response_to_observation_def refused_observation_def)
  next
    case a: (Inr u)
    then show ?thesis using Inr check_audience_Inr [of x "rb_self_identity b" u]
      by (auto simp: response_to_observation_def refused_observation_def rbind_eq_Inr split: if_splits)
  qed
qed

text \<open>A refused response gives an error name and no body.\<close>

lemma observed_refusal:
  "response_to_observation P b resp rq = Inr ob \<Longrightarrow> \<not> ob_ok ob \<Longrightarrow> ob_body ob = None \<and> ob_error ob \<noteq> None"
  by (auto simp: response_to_observation_def refused_observation_def rbind_eq_Inr split: sum.split_asm if_split_asm exn.split_asm)

section \<open>Properties of the bridge\<close>

text \<open>The object a response verified as, and what the observation takes from it.\<close>

definition answers_request :: "prims \<Rightarrow> 'w react_bridge \<Rightarrow> request \<Rightarrow> bytes \<Rightarrow> observation \<Rightarrow> bool" where
  "answers_request P b rq resp ob \<longleftrightarrow>
     (\<exists>x. verify P (rb_profile b) (rb_responder_alg b) (rb_responder_pubkey b) react_kind_validator resp [] = Inr x \<and>
        audience x = rb_self_identity b \<and> audience x \<noteq> [] \<and> req_id rq \<in> set (causes x) \<and> ob_body ob = Some (body x) \<and>
        map_option fst (case channel_lookup (channel x) (kind x) of Inl _ \<Rightarrow> None | Inr r \<Rightarrow> Some r) = Some (ob_name ob))"

text \<open>C28: An exchange through the bridge is sound whatever validator, interceptor, transport and clock are injected: a request that
  is returned is the signature of the very object the action describes (its kind, effect, arguments and causes, the bridge's signer
  and audience), accepted by the validator before, and its id is that object's content id; a response is observed as a success exactly
  when it verifies under the responder's key, is addressed to this bridge and names that id among its causes, and a refusal
  carries no body.\<close>

theorem react_exchange_sound:
  assumes "action_to_request P b a w = (Inr rq, w')" and "response_to_observation P b resp rq = Inr ob"
  shows "(\<exists>sgnr t w1 w2 x1. utf8_encode (rb_signer_id b) = Inr sgnr \<and> rb_clock b w = (t, w1) \<and>
      react_validate b (react_candidate b a sgnr t) w1 = (Inr (), w2) \<and>
      sign P (react_candidate b a sgnr t) (rb_alg b) (rb_seed b) = Inr (x1, req_payload rq) \<and> obj_id x1 = Some (req_id rq) \<and>
      object_content_id P (react_candidate b a sgnr t) = Inr (req_id rq)) \<and>
    (ob_ok ob \<longleftrightarrow> answers_request P b rq resp ob) \<and> (\<not> ob_ok ob \<longrightarrow> ob_body ob = None \<and> ob_error ob \<noteq> None)"
proof (intro conjI)
  obtain sgnr t w1 w2 x1 where r: "utf8_encode (rb_signer_id b) = Inr sgnr" "rb_clock b w = (t, w1)"
      "react_validate b (react_candidate b a sgnr t) w1 = (Inr (), w2)"
      "sign P (react_candidate b a sgnr t) (rb_alg b) (rb_seed b) = Inr (x1, req_payload rq)" "obj_id x1 = Some (req_id rq)"
    using assms(1) by (rule action_to_request_Inr)
  then have "object_content_id P (react_candidate b a sgnr t) = Inr (req_id rq)"
    by (auto simp: sign_def assign_id_def Let_def rbind_eq_Inr)
  with r show "\<exists>sgnr t w1 w2 x1. utf8_encode (rb_signer_id b) = Inr sgnr \<and> rb_clock b w = (t, w1) \<and>
      react_validate b (react_candidate b a sgnr t) w1 = (Inr (), w2) \<and>
      sign P (react_candidate b a sgnr t) (rb_alg b) (rb_seed b) = Inr (x1, req_payload rq) \<and> obj_id x1 = Some (req_id rq) \<and>
      object_content_id P (react_candidate b a sgnr t) = Inr (req_id rq)" by blast
  show refused: "\<not> ob_ok ob \<longrightarrow> ob_body ob = None \<and> ob_error ob \<noteq> None" using observed_refusal [OF assms(2)] by blast
  show "ob_ok ob \<longleftrightarrow> answers_request P b rq resp ob"
  proof
    assume "ob_ok ob"
    then show "answers_request P b rq resp ob" using observed_ok [of P b resp rq ob] assms(2) by (auto simp: answers_request_def)
  next
    assume "answers_request P b rq resp ob"
    then have "ob_body ob \<noteq> None" by (auto simp: answers_request_def)
    then show "ob_ok ob" using refused by auto
  qed
qed

definition sample_bridge :: "unit react_bridge" where
  "sample_bridge = \<lparr>rb_alg = - 49, rb_seed = [5], rb_signer_id = [97], rb_profile = 1, rb_audience = [98], rb_self_identity = [97],
     rb_responder_alg = - 49, rb_responder_pubkey = [5], rb_clock = (\<lambda>w. (7, w)), rb_validator = None, rb_hitl = None, rb_transport = None\<rparr>"

definition sample_react_action :: action where
  "sample_react_action = \<lparr>ac_name = [120], ac_channel = 4, ac_kind = 1, ac_effect = 2, ac_args = M [(U 1, U 3)], ac_args_summary = [], ac_causes = []\<rparr>"

lemma sample_request: "is_ok (fst (action_to_request sample_prims sample_bridge sample_react_action ()))"
proof -
  let ?c = "react_candidate sample_bridge sample_react_action [97] 7"
  have "is_ok (sign sample_prims ?c (- 49) [5])" by code_simp
  then obtain x1 p where s: "sign sample_prims ?c (- 49) [5] = Inr (x1, p)" by (auto simp: is_ok_iff)
  then obtain i where "obj_id x1 = Some i" using sign_id by blast
  with s show ?thesis
    by (simp add: action_to_request_def sample_bridge_def utf8_byte_def react_validate_def react_emit_def sign_and_emit_def is_ok_def)
qed

lemma no_response: "response_to_observation sample_prims sample_bridge [] rq = Inr (refused_observation ''NonCanonical'')"
proof -
  have "parse_sign1_raw [] = Inl NonCanonical" unfolding parse_sign1_raw_def decode_def by (subst dec.simps) (simp add: dec_head_def UNBOUNDED_DEPTH_def)
  then show ?thesis by (simp add: response_to_observation_def verify_def is_value_error_def error_name_def)
qed

theorem react_exchange_sound_witness:
  "\<exists>rq. action_to_request sample_prims sample_bridge sample_react_action () = (Inr rq, ()) \<and>
     (\<exists>x1. sign sample_prims (react_candidate sample_bridge sample_react_action [97] 7) (- 49) [5] = Inr (x1, req_payload rq))"
proof -
  obtain rq where r: "action_to_request sample_prims sample_bridge sample_react_action () = (Inr rq, ())"
    using sample_request by (cases "action_to_request sample_prims sample_bridge sample_react_action ()") (auto simp: is_ok_iff)
  from react_exchange_sound [OF r no_response] r show ?thesis by (auto simp: sample_bridge_def utf8_byte_def)
qed

text \<open>The exchange completes: a responder that signs an object of a registered kind, within the limits of a verifier, addressed
  to the bridge and naming the request among its causes, is observed as a success with the body it signed.\<close>

theorem react_exchange_completes:
  assumes "md_correct P" and "sign P x (rb_responder_alg b) seed = Inr (x1, resp)"
    and "md_key_derive P (rb_responder_alg b) seed = Inr (rb_responder_pubkey b, sk)" and "length resp \<le> MAX_OBJECT_SIZE"
    and "acceptable react_kind_validator [] x" and "suite x = 0" and "profile_min_level (rb_profile b) \<le> fst (alg_level (rb_responder_alg b))"
    and "audience x = rb_self_identity b" and "rb_self_identity b \<noteq> []" and "req_id rq \<in> set (causes x)"
  shows "\<exists>ob. response_to_observation P b resp rq = Inr ob \<and> ob_ok ob \<and> ob_body ob = Some (canon (body x))"
proof -
  note v = sign_verify [OF assms(1-7), of "rb_responder_alg b"]
  obtain name eff var where n: "channel_lookup (channel (canon_obj x1)) (kind (canon_obj x1)) = Inr (name, eff, var)"
    using v by (rule verified_kind)
  obtain i where x1: "x1 = x\<lparr>obj_id := i\<rparr>" using assms(2) by (auto simp: sign_def rbind_eq_Inr elim!: assign_id_Inr)
  then have "audience (canon_obj x1) = rb_self_identity b" "causes (canon_obj x1) = causes x" "body (canon_obj x1) = canon (body x)"
    using assms(8) by (simp_all add: canon_obj_def)
  with v n assms(9,10) observed_ok [of P b resp rq "\<lparr>ob_ok = True, ob_name = name, ob_body = Some (canon (body x)), ob_error = None\<rparr>"]
  show ?thesis by auto
qed

definition sample_response :: obj where
  "sample_response = sample_obj\<lparr>audience := [97], causes := [[1], [4]], ext := None\<rparr>"

theorem react_exchange_completes_witness:
  "\<exists>resp ob. response_to_observation sample_prims sample_bridge resp \<lparr>req_payload = [], req_id = [4]\<rparr> = Inr ob \<and> ob_ok ob"
proof -
  have "case sign sample_prims sample_response (- 49) [5] of Inl _ \<Rightarrow> False | Inr (x1, bs) \<Rightarrow> length bs \<le> 300" by code_simp
  then obtain x1 resp where s: "sign sample_prims sample_response (- 49) [5] = Inr (x1, resp)" "length resp \<le> MAX_OBJECT_SIZE"
    by (auto simp: MAX_OBJECT_SIZE_def split: sum.split_asm)
  have acc: "acceptable react_kind_validator [] sample_response"
    unfolding react_kind_validator_def by (rule acceptable_plain) code_simp+
  have r: "rb_responder_alg sample_bridge = - 49" "rb_responder_pubkey sample_bridge = [5]" "suite sample_response = 0"
    "audience sample_response = rb_self_identity sample_bridge" "rb_self_identity sample_bridge \<noteq> []" "[4] \<in> set (causes sample_response)"
    "profile_min_level (rb_profile sample_bridge) \<le> fst (alg_level (rb_responder_alg sample_bridge))"
    by code_simp+
  from react_exchange_completes [of sample_prims sample_response sample_bridge "[5]" x1 resp _ "\<lparr>req_payload = [], req_id = [4]\<rparr>"]
    sample_prims_correct(1) s sample_prims_sel(4) acc r show ?thesis by auto
qed

end
