(* ===== verification/Ready.thy ===== *)
theory Ready
  imports Toposort "HOL-Library.While_Combinator"
begin

text \<open>
  Kahn's algorithm with a list of ready items that is sorted before each is taken, as the plan orchestrator and the
  chain verifier write it: the edges are counted into an in-degree and lists of dependents; taking an item releases its dependents. The loop
  is an instance of \<open>kahn_sort\<close>: it ends on every input, and computes the least-first linearisation exactly when there is no cycle.
\<close>

section \<open>The loop\<close>

text \<open>An item with what it depends on; the in-degree counts a dependency as often as it is named.\<close>

type_synonym 'a edges = "('a \<times> 'a list) list"

definition edge_step :: "'a \<Rightarrow> 'a \<Rightarrow> ('a \<Rightarrow> int) \<times> ('a \<Rightarrow> 'a list) \<Rightarrow> ('a \<Rightarrow> int) \<times> ('a \<Rightarrow> 'a list)" where
  "edge_step x p s = (case s of (ind, deps) \<Rightarrow> (ind(x := ind x + 1), deps(p := deps p @ [x])))"

definition edges_of :: "'a edges \<Rightarrow> ('a \<Rightarrow> int) \<times> ('a \<Rightarrow> 'a list)" where
  "edges_of es = fold (\<lambda>(x, ps). fold (edge_step x) ps) es (\<lambda>_. 0, \<lambda>_. [])"

record 'a ready_state =
  rd_indegree :: "'a \<Rightarrow> int"
  rd_ready :: "'a list"
  rd_order :: "'a list"

definition release :: "'a \<Rightarrow> ('a \<Rightarrow> int) \<times> 'a list \<Rightarrow> ('a \<Rightarrow> int) \<times> 'a list" where
  "release d s = (case s of (ind, rd) \<Rightarrow> let ind1 = ind(d := ind d - 1) in (ind1, if ind1 d = 0 then rd @ [d] else rd))"

definition ready_step :: "('a \<Rightarrow> 'k::linorder) \<Rightarrow> ('a \<Rightarrow> 'a list) \<Rightarrow> 'a ready_state \<Rightarrow> 'a ready_state" where
  "ready_step key deps s =
     (case sort_key key (rd_ready s) of
        [] \<Rightarrow> s
      | cur # rest \<Rightarrow>
          (case fold release (deps cur) (rd_indegree s, rest) of
             (ind, rd) \<Rightarrow> \<lparr>rd_indegree = ind, rd_ready = rd, rd_order = rd_order s @ [cur]\<rparr>))"

definition ready_loop :: "('a \<Rightarrow> 'k::linorder) \<Rightarrow> ('a \<Rightarrow> 'a list) \<Rightarrow> 'a ready_state \<Rightarrow> 'a ready_state option" where
  "ready_loop key deps = while_option (\<lambda>s. rd_ready s \<noteq> []) (ready_step key deps)"

section \<open>The edges\<close>

definition needs :: "'a edges \<Rightarrow> 'a \<Rightarrow> 'a list" where
  "needs es x = (case map_of es x of None \<Rightarrow> [] | Some ps \<Rightarrow> ps)"

definition closed_edges :: "'a edges \<Rightarrow> bool" where
  "closed_edges es \<longleftrightarrow> distinct (map fst es) \<and> (\<forall>e \<in> set es. set (snd e) \<subseteq> fst ` set es)"

lemma needs_edge: "distinct (map fst es) \<Longrightarrow> e \<in> set es \<Longrightarrow> needs es (fst e) = snd e"
  by (cases e) (simp add: needs_def)

lemma fold_edges:
  "fold (edge_step tid) ps (ind, deps) = (ind(tid := ind tid + int (length ps)), \<lambda>p. deps p @ replicate (count_list ps p) tid)"
  by (induction ps arbitrary: ind deps) (auto simp: edge_step_def fun_eq_iff replicate_app_Cons_same)

lemma fold_all_edges:
  "fold (\<lambda>(x, ps). fold (edge_step x) ps) es (ind, deps) =
     (\<lambda>x. ind x + (\<Sum>t\<leftarrow>es. if fst t = x then int (length (snd t)) else 0),
      \<lambda>p. deps p @ concat (map (\<lambda>t. replicate (count_list (snd t) p) (fst t)) es))"
  by (induction es arbitrary: ind deps) (auto simp: fold_edges fun_eq_iff)

lemma sum_list_unique:
  fixes c :: "'a \<Rightarrow> 'b::comm_monoid_add"
  assumes "distinct (map f m)" and "u \<in> set m"
  shows "(\<Sum>t\<leftarrow>m. if f t = f u then c t else 0) = c u"
proof -
  have none: "(\<Sum>t\<leftarrow>xs. if f t = y then c t else 0) = 0" if "y \<notin> f ` set xs" for xs y
    using that by (induction xs) auto
  show ?thesis using assms
  proof (induction m)
    case (Cons v m)
    show ?case
    proof (cases "u = v")
      case True
      then show ?thesis using Cons.prems(1) none [of "f v" m] by simp
    next
      case False
      then have "f v \<noteq> f u" using Cons.prems by force
      then show ?thesis using Cons.IH Cons.prems False by simp
    qed
  qed simp
qed

lemma count_replicate: "count_list (replicate n a) x = (if a = x then n else 0)"
  by (induction n) auto

lemma count_concat_replicate:
  "count_list (concat (map (\<lambda>t. replicate (c t) (f t)) m)) x = (\<Sum>t\<leftarrow>m. if f t = x then c t else 0)"
  by (induction m) (auto simp: count_replicate count_list_append)

lemma edges_of_item:
  assumes "distinct (map fst es)" and "t \<in> set es"
  shows "fst (edges_of es) (fst t) = int (length (snd t))"
    and "count_list (snd (edges_of es) p) (fst t) = count_list (snd t) p"
    and "set (snd (edges_of es) p) \<subseteq> fst ` set es"
  using sum_list_unique [OF assms, of "\<lambda>t. int (length (snd t))"] sum_list_unique [OF assms, of "\<lambda>t. count_list (snd t) p"]
  by (auto simp: edges_of_def fold_all_edges count_concat_replicate intro: rev_image_eqI)

section \<open>The loop as a sort\<close>

lemma fold_release:
  assumes "\<forall>x. int (count_list ds x) \<le> ind x \<or> x \<notin> set ds" and "\<forall>x \<in> set rd. ind x = 0" and "distinct rd"
    and "fold release ds (ind, rd) = (ind', rd')"
  shows "(\<forall>x. ind' x = ind x - int (count_list ds x)) \<and> set rd' = set rd \<union> {x \<in> set ds. ind x = int (count_list ds x)} \<and> distinct rd'"
  using assms
proof (induction ds arbitrary: ind rd)
  case (Cons d ds)
  define ind1 where "ind1 = ind(d := ind d - 1)"
  define rd1 where "rd1 = (if ind1 d = 0 then rd @ [d] else rd)"
  have pos: "1 + int (count_list ds d) \<le> ind d" using Cons.prems(1) by (auto dest: spec [of _ d])
  then have new: "d \<notin> set rd" using Cons.prems(2) by force
  have "release d (ind, rd) = (ind1, rd1)" by (simp add: release_def Let_def ind1_def rd1_def)
  then have "fold release ds (ind1, rd1) = (ind', rd')" using Cons.prems(4) by simp
  moreover have "\<forall>x. int (count_list ds x) \<le> ind1 x \<or> x \<notin> set ds"
    using Cons.prems(1) pos by (auto simp: ind1_def split: if_splits)
  moreover have "\<forall>x \<in> set rd1. ind1 x = 0" "distinct rd1" using Cons.prems(2,3) new by (auto simp: rd1_def ind1_def)
  ultimately have IH: "\<forall>x. ind' x = ind1 x - int (count_list ds x)"
    "set rd' = set rd1 \<union> {x \<in> set ds. ind1 x = int (count_list ds x)}" "distinct rd'"
    using Cons.IH [of ind1 rd1] by blast+
  have "set rd1 \<union> {x \<in> set ds. ind1 x = int (count_list ds x)} = set rd \<union> {x \<in> set (d # ds). ind x = int (count_list (d # ds) x)}"
  proof (rule set_eqI)
    fix x
    show "x \<in> set rd1 \<union> {x \<in> set ds. ind1 x = int (count_list ds x)} \<longleftrightarrow> x \<in> set rd \<union> {x \<in> set (d # ds). ind x = int (count_list (d # ds) x)}"
    proof (cases "x = d")
      case True
      have "d \<in> set ds \<longleftrightarrow> count_list ds d \<noteq> 0" by (simp add: count_list_0_iff)
      then show ?thesis using True pos by (auto simp: rd1_def ind1_def)
    next
      case False
      then show ?thesis by (auto simp: rd1_def ind1_def)
    qed
  qed
  then show ?case using IH by (auto simp: ind1_def)
qed simp

definition ready_rel :: "'a edges \<Rightarrow> 'a ready_state \<Rightarrow> 'a list \<Rightarrow> bool" where
  "ready_rel es s os \<longleftrightarrow> closed_edges es \<and> rd_order s = os \<and> distinct os \<and> set os \<subseteq> fst ` set es \<and> distinct (rd_ready s) \<and>
     (\<forall>t \<in> set es. fst t \<in> set os \<longrightarrow> set (snd t) \<subseteq> set os) \<and>
     (\<forall>t \<in> set es. rd_indegree s (fst t) = int (length (filter (\<lambda>p. p \<notin> set os) (snd t)))) \<and>
     set (rd_ready s) = {x \<in> fst ` set es - set os. rd_indegree s x = 0}"

definition ready_pick :: "('a \<Rightarrow> 'k::linorder) \<Rightarrow> 'a ready_state \<Rightarrow> 'a option" where
  "ready_pick key s = (case sort_key key (rd_ready s) of [] \<Rightarrow> None | x # _ \<Rightarrow> Some x)"

lemma ready_pick_None: "ready_pick key s = None \<longleftrightarrow> rd_ready s = []"
  by (auto simp: ready_pick_def split: list.split dest: arg_cong [of _ _ set])

lemma ready_pick_Some:
  assumes "ready_pick key s = Some p"
  shows "p \<in> set (rd_ready s)" and "x \<in> set (rd_ready s) \<Longrightarrow> key p \<le> key x"
proof -
  obtain rest where r: "sort_key key (rd_ready s) = p # rest" using assms by (auto simp: ready_pick_def split: list.splits)
  have "set (rd_ready s) = set (p # rest)" "sorted (map key (p # rest))" using r by (metis set_sort, metis sorted_sort_key)
  then show "p \<in> set (rd_ready s)" and "x \<in> set (rd_ready s) \<Longrightarrow> key p \<le> key x" by auto
qed

lemma ready_iff_free:
  assumes "ready_rel es s os" and "t \<in> set es"
  shows "fst t \<in> set (rd_ready s) \<longleftrightarrow> fst t \<notin> set os \<and> set (needs es (fst t)) \<inter> (fst ` set es - set os) = {}"
proof -
  have w: "distinct (map fst es)" "set (snd t) \<subseteq> fst ` set es" using assms by (auto simp: ready_rel_def closed_edges_def)
  have "rd_indegree s (fst t) = 0 \<longleftrightarrow> filter (\<lambda>p. p \<notin> set os) (snd t) = []" using assms by (simp add: ready_rel_def)
  also have "\<dots> \<longleftrightarrow> set (snd t) \<inter> (fst ` set es - set os) = {}" using w(2) by (auto simp: filter_empty_conv)
  finally show ?thesis using assms by (auto simp: ready_rel_def needs_edge [OF w(1)])
qed

lemma length_filter_split:
  assumes "p \<notin> S"
  shows "int (length (filter (\<lambda>q. q \<notin> S) ps)) = int (length (filter (\<lambda>q. q \<notin> insert p S) ps)) + int (count_list ps p)"
  using assms by (induction ps) auto

lemma ready_step_rel:
  assumes rel: "ready_rel es s os" and pick: "ready_pick key s = Some p"
  shows "ready_rel es (ready_step key (snd (edges_of es)) s) (os @ [p])"
proof -
  let ?deps = "snd (edges_of es)"
  have w: "closed_edges es" "distinct (map fst es)" using rel by (simp_all add: ready_rel_def closed_edges_def)
  obtain rest where r: "sort_key key (rd_ready s) = p # rest" using pick by (auto simp: ready_pick_def split: list.splits)
  obtain ind' rd' where f: "fold release (?deps p) (rd_indegree s, rest) = (ind', rd')" by fastforce
  have s': "ready_step key ?deps s = \<lparr>rd_indegree = ind', rd_ready = rd', rd_order = os @ [p]\<rparr>"
    using r f rel by (simp add: ready_step_def ready_rel_def)
  have ready: "set (rd_ready s) = insert p (set rest)" "distinct (p # rest)"
    using r rel by (metis list.simps(15) set_sort, metis distinct_sort ready_rel_def)
  have p: "p \<in> fst ` set es" "p \<notin> set os" using ready_pick_Some(1) [OF pick] rel by (auto simp: ready_rel_def)
  have ind: "rd_indegree s (fst t) = int (length (filter (\<lambda>q. q \<notin> set (os @ [p])) (snd t))) + int (count_list (?deps p) (fst t))"
    if "t \<in> set es" for t
    using rel that length_filter_split [OF p(2), of "snd t"] edges_of_item(2) [OF w(2) that, of p] by (simp add: ready_rel_def)
  have taken: "set (snd t) \<subseteq> set os" if "t \<in> set es" "fst t = p" for t
  proof -
    have "set (snd t) \<inter> (fst ` set es - set os) = {}"
      using ready_iff_free [OF rel that(1)] ready_pick_Some(1) [OF pick] that needs_edge [OF w(2) that(1)] by simp
    moreover have "set (snd t) \<subseteq> fst ` set es" using w(1) that(1) unfolding closed_edges_def by blast
    ultimately show ?thesis by blast
  qed
  have le: "\<forall>x. int (count_list (?deps p) x) \<le> rd_indegree s x \<or> x \<notin> set (?deps p)"
    using ind edges_of_item(3) [OF w(2)] p(1) by (fastforce simp: subset_iff)
  have zero: "\<forall>x \<in> set rest. rd_indegree s x = 0" using ready(1) rel by (auto simp: ready_rel_def)
  have dr: "distinct rest" using ready(2) by simp
  note fr = fold_release [OF le zero dr f]
  have new: "ind' (fst t) = int (length (filter (\<lambda>q. q \<notin> set (os @ [p])) (snd t)))" if "t \<in> set es" for t
    using ind [OF that] fr by simp
  have "set rd' = {x \<in> fst ` set es - set (os @ [p]). ind' x = 0}"
  proof (rule set_eqI)
    fix x
    have own: "x \<in> set rest \<longleftrightarrow> x \<in> fst ` set es - set (os @ [p]) \<and> rd_indegree s x = 0"
      using ready rel by (auto simp: ready_rel_def)
    have "x \<in> set rd' \<longleftrightarrow> x \<in> set rest \<or> x \<in> set (?deps p) \<and> ind' x = 0" using fr by auto
    also have "\<dots> \<longleftrightarrow> x \<in> fst ` set es - set (os @ [p]) \<and> ind' x = 0"
    proof (cases "x \<in> set (?deps p)")
      case True
      then have c: "0 < count_list (?deps p) x" using count_list_0_iff by fastforce
      obtain t where t: "t \<in> set es" "x = fst t" using True edges_of_item(3) [OF w(2), of _ p] p(1) by blast
      have "count_list (snd t) p \<noteq> 0" using c edges_of_item(2) [OF w(2) t(1), of p] t(2) by simp
      then have pre: "p \<in> set (snd t)" by (simp add: count_list_0_iff)
      then have "x \<notin> set os" using rel t p(2) by (auto simp: ready_rel_def)
      moreover have "x \<noteq> p" using taken [OF t(1)] t(2) pre p(2) by blast
      moreover have "x \<notin> set rest"
      proof
        assume "x \<in> set rest"
        then have "rd_indegree s x = 0" using zero by blast
        moreover have "int (count_list (?deps p) x) \<le> rd_indegree s x" using le True by blast
        ultimately show False using c by simp
      qed
      ultimately show ?thesis using True t by auto
    next
      case False
      then have "ind' x = rd_indegree s x" using fr count_list_0_iff [of "?deps p" x] by simp
      then show ?thesis using own False by auto
    qed
    finally show "x \<in> set rd' \<longleftrightarrow> x \<in> {x \<in> fst ` set es - set (os @ [p]). ind' x = 0}" by simp
  qed
  moreover have "\<forall>t \<in> set es. fst t \<in> set (os @ [p]) \<longrightarrow> set (snd t) \<subseteq> set (os @ [p])"
    using rel taken by (auto simp: ready_rel_def)
  ultimately show ?thesis using w(1) p rel new fr unfolding s' by (simp add: ready_rel_def)
qed

definition ready_all :: "('a \<Rightarrow> 'k::linorder) \<Rightarrow> 'a edges \<Rightarrow> 'a ready_state \<Rightarrow> 'a list res" where
  "ready_all key es s =
     (case ready_loop key (snd (edges_of es)) s of
        None \<Rightarrow> Inl OutOfFuel
      | Some s1 \<Rightarrow> if length (rd_order s1) \<noteq> length es then Inl CausalViolation else Inr (rd_order s1))"

lemma ready_loop_unfold:
  "ready_loop key deps s = (if rd_ready s \<noteq> [] then ready_loop key deps (ready_step key deps s) else Some s)"
  unfolding ready_loop_def by (subst while_option_unfold) simp

interpretation ready: kahn_sort "fst ` set es" key "\<lambda>x. set (needs es x)" "ready_rel es" "\<lambda>p. p" "ready_pick key"
    "\<lambda>s _. ready_step key (snd (edges_of es)) s" "\<lambda>os. os" "ready_all key es" for es and key :: "'a \<Rightarrow> 'k::linorder"
proof unfold_locales
  fix s os p x y
  assume rel: "ready_rel es s os"
  have card: "card (fst ` set es) = length es" using rel distinct_card [of "map fst es"] by (simp add: ready_rel_def closed_edges_def)
  show "distinct os \<and> set os \<subseteq> fst ` set es" using rel by (simp add: ready_rel_def)
  show "set (needs es x) \<inter> (fst ` set es - set os) \<noteq> {}" if "ready_pick key s = None" "x \<in> fst ` set es - set os"
    using that ready_iff_free [OF rel] by (auto simp: ready_pick_None)
  show "ready_all key es s = (if length os < card (fst ` set es)
      then (case ready_pick key s of None \<Rightarrow> Inl CausalViolation | Some p \<Rightarrow> ready_all key es (ready_step key (snd (edges_of es)) s)) else Inr os)"
  proof (cases "rd_ready s = []")
    case True
    then have "ready_all key es s = (if length os \<noteq> length es then Inl CausalViolation else Inr os)"
      using rel by (simp add: ready_all_def ready_loop_unfold ready_rel_def)
    moreover have "length os \<le> length es" using rel card card_mono [of "fst ` set es" "set os"] by (simp add: ready_rel_def distinct_card)
    ultimately show ?thesis using True ready_pick_None [of key s] card by auto
  next
    case False
    then obtain q where q: "ready_pick key s = Some q" using ready_pick_None [of key s] by auto
    have "set os \<subset> fst ` set es" using ready_pick_Some(1) [OF q] rel by (auto simp: ready_rel_def)
    then have "length os < card (fst ` set es)" using rel psubset_card_mono [of "fst ` set es" "set os"] by (simp add: ready_rel_def distinct_card)
    then show ?thesis using q False by (simp add: ready_all_def ready_loop_unfold [of _ _ s])
  qed
  assume p: "ready_pick key s = Some p"
  show "p \<in> fst ` set es - set os \<and> set (needs es p) \<inter> (fst ` set es - set os) = {}"
  proof -
    obtain t where t: "t \<in> set es" "p = fst t" using ready_pick_Some(1) [OF p] rel by (auto simp: ready_rel_def)
    then show ?thesis using ready_pick_Some(1) [OF p] ready_iff_free [OF rel t(1)] by blast
  qed
  show "key p \<le> key y" if "y \<in> fst ` set es - set os" "set (needs es y) \<inter> (fst ` set es - set os) = {}"
    using that ready_iff_free [OF rel] ready_pick_Some(2) [OF p] by auto
  show "ready_rel es (ready_step key (snd (edges_of es)) s) (os @ [p])" by (rule ready_step_rel [OF rel p])
qed simp

section \<open>The order\<close>

definition edge_rel :: "'a edges \<Rightarrow> ('a \<times> 'a) set" where
  "edge_rel es = {(x, c). x \<in> fst ` set es \<and> c \<in> set (needs es x) \<inter> fst ` set es}"

text \<open>From a start that has the free items ready, the loop computes the linearisation, or falls short of it exactly on a cycle.\<close>

lemma ready_all_iff:
  fixes key :: "'a \<Rightarrow> 'k::linorder"
  assumes "ready_rel es s []" and "inj_on key (fst ` set es)"
  shows "ready_all key es s = Inr os \<longleftrightarrow> lin key (\<lambda>x. set (needs es x)) (fst ` set es) os"
    and "ready_all key es s = Inl e \<longleftrightarrow> \<not> acyclic (edge_rel es) \<and> e = CausalViolation"
proof -
  let ?lin = "lin key (\<lambda>x. set (needs es x)) (fst ` set es)"
  note cases = ready.loop_cases [OF assms(1), of key]
  have acyc: "(\<exists>os. ?lin os) \<longleftrightarrow> acyclic (edge_rel es)"
    using lin_acyclic [of key "\<lambda>x. set (needs es x)" "fst ` set es"] ready.loop_lin [OF _ assms(1), of key]
    by (auto simp: edge_rel_def)
  have "ready_all key es s = Inr os" if "?lin os" for os
  proof -
    have "acyclic (edge_rel es)" using that acyc by blast
    then obtain ys where ys: "ready_all key es s = Inr ys" "?lin ys"
      using ready.loop_lin [OF _ assms(1), of key] by (auto simp: edge_rel_def)
    then show ?thesis using lin_unique [OF assms(2) ys(2) that] by simp
  qed
  moreover have "?lin os" if "ready_all key es s = Inr os" for os using cases that by auto
  ultimately have ok: "ready_all key es s = Inr os \<longleftrightarrow> ?lin os" for os by blast
  then show "ready_all key es s = Inr os \<longleftrightarrow> ?lin os" .
  from cases have "(\<exists>ys. ready_all key es s = Inr ys) \<or> ready_all key es s = Inl CausalViolation" by auto
  then show "ready_all key es s = Inl e \<longleftrightarrow> \<not> acyclic (edge_rel es) \<and> e = CausalViolation"
    unfolding acyc [symmetric] ok [symmetric] by auto
qed

lemma ready_start:
  assumes "closed_edges es" and "rd_indegree s = fst (edges_of es)" and "rd_order s = []" and "distinct (rd_ready s)"
    and "set (rd_ready s) = {x \<in> fst ` set es. fst (edges_of es) x = 0}"
  shows "ready_rel es s []"
  using assms edges_of_item(1) by (auto simp: ready_rel_def closed_edges_def)

end
