(* ===== verification/Plan.thy ===== *)
theory Plan
  imports React Ready
begin

text \<open>
  The plan orchestrator (\<^verbatim>\<open>ecosystem/naalp-plan\<close>): tasks with prerequisites are scheduled by Kahn's algorithm, least
  id first, and each becomes a request whose causes are its prerequisites' requests. One task's failure blocks what depends on it and
  nothing else. The part of a step that all orchestrators share, an agent's request and the exchange that follows it, comes first.
\<close>

section \<open>One exchange\<close>

text \<open>The injected bridge and executor; \<open>'w\<close> is the state they act on.\<close>

record 'w agent =
  ag_request :: "action \<Rightarrow> 'w \<Rightarrow> request res \<times> 'w"
  ag_observe :: "bytes \<Rightarrow> request \<Rightarrow> 'w \<Rightarrow> observation res \<times> 'w"

type_synonym 'w exec = "request \<Rightarrow> 'w \<Rightarrow> bytes res \<times> 'w"

definition react_agent :: "prims \<Rightarrow> 'w react_bridge \<Rightarrow> 'w agent" where
  "react_agent P b = \<lparr>ag_request = action_to_request P b, ag_observe = (\<lambda>resp rq w. (response_to_observation P b resp rq, w))\<rparr>"

datatype node_status = Executed | Refused | Blocked

record node_result =
  nr_status :: node_status
  nr_request :: "request option"
  nr_observation :: "observation option"

text \<open>A failing executor refuses the node; an exception out of \<^verbatim>\<open>response_to_observation\<close> is not caught.\<close>

definition exchange :: "'w agent \<Rightarrow> 'w exec \<Rightarrow> request \<Rightarrow> 'w \<Rightarrow> node_result res \<times> 'w" where
  "exchange ag ex rq w =
     (case ex rq w of
        (Inl _, w1) \<Rightarrow> (Inr \<lparr>nr_status = Refused, nr_request = Some rq, nr_observation = None\<rparr>, w1)
      | (Inr resp, w1) \<Rightarrow>
          (case ag_observe ag resp rq w1 of
             (Inl e, w2) \<Rightarrow> (Inl e, w2)
           | (Inr ob, w2) \<Rightarrow>
               (Inr \<lparr>nr_status = (if \<not> ob_ok ob then Refused else Executed), nr_request = Some rq, nr_observation = Some ob\<rparr>, w2)))"

definition refused_node :: node_result where
  "refused_node = \<lparr>nr_status = Refused, nr_request = None, nr_observation = None\<rparr>"

definition blocked_node :: node_result where
  "blocked_node = \<lparr>nr_status = Blocked, nr_request = None, nr_observation = None\<rparr>"

section \<open>Tasks and their order\<close>

record plan_task =
  tk_id :: pystr
  tk_action :: action
  tk_prereqs :: "pystr list"

text \<open>\<^verbatim>\<open>tasks_by_id\<close> is a dictionary in insertion order: the tasks themselves, once their ids are distinct.\<close>

definition index_step :: "plan_task list \<Rightarrow> plan_task \<Rightarrow> plan_task list res" where
  "index_step m t = (if tk_id t \<in> tk_id ` set m then Inl (PlanError ''DuplicateTaskId'') else Inr (m @ [t]))"

definition check_prereqs :: "plan_task list \<Rightarrow> unit \<Rightarrow> plan_task \<Rightarrow> unit res" where
  "check_prereqs m u t =
     rfold (\<lambda>_ p. if p \<notin> tk_id ` set m then Inl (PlanError ''UnknownPrerequisite'') else Inr ()) () (tk_prereqs t)"

text \<open>The edges and the loop of \<^verbatim>\<open>_topological_order\<close> are those of theory \<open>Ready\<close>, sorted by task id.\<close>

definition plan_task_edges :: "plan_task list \<Rightarrow> pystr edges" where
  "plan_task_edges m = map (\<lambda>t. (tk_id t, tk_prereqs t)) m"

definition plan_start :: "plan_task list \<Rightarrow> pystr ready_state" where
  "plan_start m = (let ind = fst (edges_of (plan_task_edges m)) in
     \<lparr>rd_indegree = ind, rd_ready = sort (filter (\<lambda>tid. ind tid = 0) (map tk_id m)), rd_order = []\<rparr>)"

text \<open>The loop always ends (\<open>plan_order_exact\<close> below): \<open>OutOfFuel\<close> stands for one that would not.\<close>

definition topological_order :: "plan_task list \<Rightarrow> pystr list res" where
  "topological_order m =
     (case ready_loop (\<lambda>x. x) (snd (edges_of (plan_task_edges m))) (plan_start m) of
        None \<Rightarrow> Inl OutOfFuel
      | Some s \<Rightarrow> if length (rd_order s) \<noteq> length m then Inl (PlanError ''CyclicPlan'') else Inr (rd_order s))"

definition validate_and_order :: "plan_task list \<Rightarrow> (plan_task list \<times> pystr list) res" where
  "validate_and_order ts =
     rbind (rfold index_step [] ts) (\<lambda>m.
       rbind (rfold (check_prereqs m) () m) (\<lambda>_.
         rbind (topological_order m) (\<lambda>os. Inr (m, os))))"

section \<open>Running a plan\<close>

fun unresolved :: "(pystr \<rightharpoonup> node_result) \<Rightarrow> pystr list \<Rightarrow> pystr list res" where
  "unresolved rs [] = Inr []"
| "unresolved rs (p # ps) =
     (case rs p of
        None \<Rightarrow> Inl KeyError
      | Some r \<Rightarrow> rbind (unresolved rs ps) (\<lambda>us. Inr (if nr_status r \<noteq> Executed then p # us else us)))"

fun cause_ids :: "(pystr \<rightharpoonup> bytes) \<Rightarrow> pystr list \<Rightarrow> bytes list res" where
  "cause_ids ids [] = Inr []"
| "cause_ids ids (p # ps) =
     (case ids p of None \<Rightarrow> Inl KeyError | Some i \<Rightarrow> rbind (cause_ids ids ps) (\<lambda>is. Inr (i # is)))"

record plan_state =
  ps_results :: "pystr \<rightharpoonup> node_result"
  ps_ids :: "pystr \<rightharpoonup> bytes"

definition set_result :: "pystr \<Rightarrow> node_result \<Rightarrow> plan_state \<Rightarrow> plan_state" where
  "set_result tid r st = st\<lparr>ps_results := (ps_results st)(tid \<mapsto> r)\<rparr>"

definition plan_node ::
  "'w agent \<Rightarrow> (plan_task \<Rightarrow> 'w exec) \<Rightarrow> plan_task \<Rightarrow> plan_state \<Rightarrow> 'w \<Rightarrow> plan_state res \<times> 'w" where
  "plan_node ag ex t st w =
     (case unresolved (ps_results st) (tk_prereqs t) of
        Inl e \<Rightarrow> (Inl e, w)
      | Inr us \<Rightarrow>
          if us \<noteq> [] then (Inr (set_result (tk_id t) blocked_node st), w)
          else (case cause_ids (ps_ids st) (tk_prereqs t) of
              Inl e \<Rightarrow> (Inl e, w)
            | Inr cs \<Rightarrow>
                (case ag_request ag ((tk_action t)\<lparr>ac_causes := cs\<rparr>) w of
                   (Inl _, w1) \<Rightarrow> (Inr (set_result (tk_id t) refused_node st), w1)
                 | (Inr rq, w1) \<Rightarrow>
                     (case exchange ag (ex t) rq w1 of
                        (Inl e, w2) \<Rightarrow> (Inl e, w2)
                      | (Inr r, w2) \<Rightarrow> (Inr (set_result (tk_id t) r (st\<lparr>ps_ids := (ps_ids st)(tk_id t \<mapsto> req_id rq)\<rparr>)), w2)))))"

fun plan_nodes ::
  "plan_task list \<Rightarrow> 'w agent \<Rightarrow> (plan_task \<Rightarrow> 'w exec) \<Rightarrow> pystr list \<Rightarrow> plan_state \<Rightarrow> 'w \<Rightarrow> plan_state res \<times> 'w" where
  "plan_nodes m ag ex [] st w = (Inr st, w)"
| "plan_nodes m ag ex (tid # tids) st w =
     (case find (\<lambda>t. tk_id t = tid) m of
        None \<Rightarrow> (Inl KeyError, w)
      | Some t \<Rightarrow>
          (case plan_node ag ex t st w of (Inl e, w1) \<Rightarrow> (Inl e, w1) | (Inr st1, w1) \<Rightarrow> plan_nodes m ag ex tids st1 w1))"

record plan_run =
  pr_order :: "pystr list"
  pr_results :: "pystr \<rightharpoonup> node_result"
  pr_started_at :: int
  pr_finished_at :: int

definition run_plan ::
  "'w agent \<Rightarrow> (plan_task \<Rightarrow> 'w exec) \<Rightarrow> ('w \<Rightarrow> int \<times> 'w) \<Rightarrow> plan_task list \<Rightarrow> 'w \<Rightarrow> plan_run res \<times> 'w" where
  "run_plan ag ex clock ts w =
     (case validate_and_order ts of
        Inl e \<Rightarrow> (Inl e, w)
      | Inr (m, os) \<Rightarrow>
          (case clock w of (started, w1) \<Rightarrow>
             (case plan_nodes m ag ex os \<lparr>ps_results = Map.empty, ps_ids = Map.empty\<rparr> w1 of
                (Inl e, w2) \<Rightarrow> (Inl e, w2)
              | (Inr st, w2) \<Rightarrow>
                  (case clock w2 of (finished, w3) \<Rightarrow>
                     (Inr \<lparr>pr_order = os, pr_results = ps_results st, pr_started_at = started, pr_finished_at = finished\<rparr>, w3)))))"

definition plan_observation_for :: "plan_run \<Rightarrow> pystr \<Rightarrow> observation option res" where
  "plan_observation_for pr tid = (case pr_results pr tid of None \<Rightarrow> Inl KeyError | Some r \<Rightarrow> Inr (nr_observation r))"

definition plan_request_id_for :: "plan_run \<Rightarrow> pystr \<Rightarrow> bytes option res" where
  "plan_request_id_for pr tid = (case pr_results pr tid of None \<Rightarrow> Inl KeyError | Some r \<Rightarrow> Inr (map_option req_id (nr_request r)))"

definition plan_executed :: "plan_run \<Rightarrow> pystr list" where
  "plan_executed pr = filter (\<lambda>tid. map_option nr_status (pr_results pr tid) = Some Executed) (pr_order pr)"

section \<open>The edges\<close>

definition prereqs_of :: "plan_task list \<Rightarrow> pystr \<Rightarrow> pystr list" where
  "prereqs_of m x = (case find (\<lambda>t. tk_id t = x) m of None \<Rightarrow> [] | Some t \<Rightarrow> tk_prereqs t)"

definition well_formed_plan :: "plan_task list \<Rightarrow> bool" where
  "well_formed_plan m \<longleftrightarrow> distinct (map tk_id m) \<and> (\<forall>t \<in> set m. set (tk_prereqs t) \<subseteq> tk_id ` set m)"

lemma find_task:
  assumes "distinct (map tk_id m)" and "t \<in> set m"
  shows "find (\<lambda>u. tk_id u = tk_id t) m = Some t"
  using assms by (induction m) auto

lemma prereqs_of_task: "distinct (map tk_id m) \<Longrightarrow> t \<in> set m \<Longrightarrow> prereqs_of m (tk_id t) = tk_prereqs t"
  by (simp add: prereqs_of_def find_task)

lemma plan_task_edges_facts:
  "map fst (plan_task_edges m) = map tk_id m" "fst ` set (plan_task_edges m) = tk_id ` set m" "length (plan_task_edges m) = length m"
  "closed_edges (plan_task_edges m) \<longleftrightarrow> well_formed_plan m"
  by (auto simp: plan_task_edges_def comp_def closed_edges_def well_formed_plan_def image_image)

lemma needs_task: "needs (plan_task_edges m) x = prereqs_of m x"
  by (induction m) (simp_all add: needs_def plan_task_edges_def prereqs_of_def)

lemma plan_start_ready: "well_formed_plan m \<Longrightarrow> ready_rel (plan_task_edges m) (plan_start m) []"
  by (rule ready_start) (auto simp: plan_task_edges_facts plan_start_def Let_def well_formed_plan_def)

definition plan_edges :: "plan_task list \<Rightarrow> (pystr \<times> pystr) set" where
  "plan_edges m = {(x, c). x \<in> tk_id ` set m \<and> c \<in> set (prereqs_of m x) \<inter> tk_id ` set m}"

text \<open>The order is the unique one that always takes the least task whose prerequisites were taken; there is one exactly without a cycle.\<close>

lemma topological_order_iff:
  assumes "well_formed_plan m"
  shows "topological_order m = Inr os \<longleftrightarrow> lin (\<lambda>x. x) (\<lambda>x. set (prereqs_of m x)) (tk_id ` set m) os"
    and "topological_order m = Inl e \<longleftrightarrow> \<not> acyclic (plan_edges m) \<and> e = PlanError ''CyclicPlan''"
proof -
  let ?r = "ready_all (\<lambda>x. x) (plan_task_edges m) (plan_start m)"
  have t: "topological_order m = (case ?r of Inr os \<Rightarrow> Inr os | Inl e \<Rightarrow> Inl (if e = CausalViolation then PlanError ''CyclicPlan'' else e))"
    by (simp add: topological_order_def ready_all_def plan_task_edges_facts split: option.split)
  have "edge_rel (plan_task_edges m) = plan_edges m" by (simp add: edge_rel_def plan_edges_def plan_task_edges_facts needs_task)
  note iff = ready_all_iff [OF plan_start_ready [OF assms], of "\<lambda>x. x", unfolded needs_task plan_task_edges_facts this]
  have "topological_order m = Inr os \<longleftrightarrow> ?r = Inr os" using t by (cases ?r) auto
  also have "\<dots> \<longleftrightarrow> lin (\<lambda>x. x) (\<lambda>x. set (prereqs_of m x)) (tk_id ` set m) os" by (rule iff(1)) simp
  finally show "topological_order m = Inr os \<longleftrightarrow> lin (\<lambda>x. x) (\<lambda>x. set (prereqs_of m x)) (tk_id ` set m) os" .
  have e: "?r = Inl x \<longleftrightarrow> \<not> acyclic (plan_edges m) \<and> x = CausalViolation" for x by (rule iff(2)) simp
  show "topological_order m = Inl e \<longleftrightarrow> \<not> acyclic (plan_edges m) \<and> e = PlanError ''CyclicPlan''"
  proof (cases ?r)
    case (Inl x)
    then show ?thesis using t e [of x] by auto
  next
    case (Inr os)
    then show ?thesis using t e [of CausalViolation] by auto
  qed
qed

lemma index_tasks:
  "distinct (map tk_id m) \<Longrightarrow>
     rfold index_step m ts = (if distinct (map tk_id (m @ ts)) then Inr (m @ ts) else Inl (PlanError ''DuplicateTaskId''))"
  by (induction ts arbitrary: m) (auto simp: index_step_def)

lemma check_prereqs_iff:
  "rfold (check_prereqs m) () ts =
     (if \<forall>t \<in> set ts. set (tk_prereqs t) \<subseteq> tk_id ` set m then Inr () else Inl (PlanError ''UnknownPrerequisite''))"
proof -
  have "rfold (\<lambda>_ p. if p \<notin> tk_id ` set m then Inl (PlanError ''UnknownPrerequisite'') else Inr ()) () ps =
      (if set ps \<subseteq> tk_id ` set m then Inr () else Inl (PlanError ''UnknownPrerequisite''))" for ps
    by (induction ps) auto
  then show ?thesis by (induction ts) (auto simp: check_prereqs_def)
qed

lemma validate_and_order_cases:
  "validate_and_order ts =
     (if \<not> distinct (map tk_id ts) then Inl (PlanError ''DuplicateTaskId'')
      else if \<not> well_formed_plan ts then Inl (PlanError ''UnknownPrerequisite'')
      else rbind (topological_order ts) (\<lambda>os. Inr (ts, os)))"
  using index_tasks [of "[]" ts] check_prereqs_iff [of ts ts] by (auto simp: validate_and_order_def well_formed_plan_def)

section \<open>What a run leaves\<close>

definition executed :: "(pystr \<rightharpoonup> node_result) \<Rightarrow> pystr \<Rightarrow> bool" where
  "executed rs p \<longleftrightarrow> map_option nr_status (rs p) = Some Executed"

definition linked_action :: "(pystr \<rightharpoonup> node_result) \<Rightarrow> plan_task \<Rightarrow> action" where
  "linked_action rs t = (tk_action t)\<lparr>ac_causes := map (\<lambda>p. req_id (the (nr_request (the (rs p))))) (tk_prereqs t)\<rparr>"

text \<open>The result of one task: blocked exactly on an unexecuted prerequisite, and every request made for the action linked to its prerequisites' requests.\<close>

definition node_done :: "(action \<Rightarrow> request \<Rightarrow> bool) \<Rightarrow> (pystr \<rightharpoonup> node_result) \<Rightarrow> plan_task \<Rightarrow> bool" where
  "node_done made rs t \<longleftrightarrow>
     (\<exists>r. rs (tk_id t) = Some r \<and>
        (nr_status r = Blocked \<longleftrightarrow> \<not> (\<forall>p \<in> set (tk_prereqs t). executed rs p)) \<and>
        (nr_status r = Blocked \<longrightarrow> nr_request r = None) \<and>
        (\<forall>rq. nr_request r = Some rq \<longrightarrow> made (linked_action rs t) rq) \<and>
        (nr_status r = Executed \<longleftrightarrow> (\<exists>rq ob. nr_request r = Some rq \<and> nr_observation r = Some ob \<and> ob_ok ob)))"

lemma node_done_cong:
  assumes "\<And>p. p = tk_id t \<or> p \<in> set (tk_prereqs t) \<Longrightarrow> rs p = rs' p"
  shows "node_done made rs t \<longleftrightarrow> node_done made rs' t"
proof -
  have "linked_action rs t = linked_action rs' t" using assms by (simp add: linked_action_def)
  moreover have "(\<forall>p \<in> set (tk_prereqs t). executed rs p) \<longleftrightarrow> (\<forall>p \<in> set (tk_prereqs t). executed rs' p)"
    using assms by (simp add: executed_def)
  ultimately show ?thesis using assms [of "tk_id t"] by (simp add: node_done_def)
qed

lemma unresolved_defined:
  "\<forall>p \<in> set ps. rs p \<noteq> None \<Longrightarrow> unresolved rs ps = Inr (filter (\<lambda>p. \<not> executed rs p) ps)"
  by (induction ps) (auto simp: executed_def)

lemma cause_ids_defined: "\<forall>p \<in> set ps. ids p \<noteq> None \<Longrightarrow> cause_ids ids ps = Inr (map (\<lambda>p. the (ids p)) ps)"
  by (induction ps) auto

definition unblocked :: "(pystr \<rightharpoonup> node_result) \<Rightarrow> plan_task \<Rightarrow> bool" where
  "unblocked rs t \<longleftrightarrow> map_option nr_status (rs (tk_id t)) \<noteq> Some Blocked"

definition plan_inv :: "(action \<Rightarrow> request \<Rightarrow> bool) \<Rightarrow> plan_task list \<Rightarrow> plan_state \<Rightarrow> action list \<Rightarrow> bool" where
  "plan_inv made ts st calls \<longleftrightarrow> dom (ps_results st) = tk_id ` set ts \<and> (\<forall>t \<in> set ts. node_done made (ps_results st) t) \<and>
     (\<forall>x r rq. ps_results st x = Some r \<longrightarrow> nr_request r = Some rq \<longrightarrow> ps_ids st x = Some (req_id rq)) \<and>
     calls = map (linked_action (ps_results st)) (filter (unblocked (ps_results st)) ts)"

text \<open>Adding the result of a task that no earlier one depends on.\<close>

lemma plan_inv_add:
  assumes inv: "plan_inv made ts st calls" and new: "tk_id t \<notin> tk_id ` set ts"
    and pre: "\<forall>u \<in> set ts. set (tk_prereqs u) \<subseteq> tk_id ` set ts"
    and rs: "ps_results st' = (ps_results st)(tk_id t \<mapsto> r)" and nd: "node_done made (ps_results st') t"
    and ids: "\<forall>x. x \<noteq> tk_id t \<longrightarrow> ps_ids st' x = ps_ids st x" and own: "\<forall>rq. nr_request r = Some rq \<longrightarrow> ps_ids st' (tk_id t) = Some (req_id rq)"
  shows "plan_inv made (ts @ [t]) st' (calls @ (if nr_status r = Blocked then [] else [linked_action (ps_results st') t]))"
proof -
  have same: "ps_results st' p = ps_results st p" if "u \<in> set ts" "p = tk_id u \<or> p \<in> set (tk_prereqs u)" for u p
    using that new pre rs by auto
  have "node_done made (ps_results st') u" if "u \<in> set ts" for u
    using inv that node_done_cong [of u "ps_results st'" "ps_results st"] same [OF that] by (simp add: plan_inv_def)
  moreover have "map (linked_action (ps_results st')) (filter (unblocked (ps_results st')) ts) = calls"
  proof -
    have "filter (unblocked (ps_results st')) ts = filter (unblocked (ps_results st)) ts"
      using same by (intro filter_cong) (auto simp: unblocked_def)
    moreover have "linked_action (ps_results st') u = linked_action (ps_results st) u" if "u \<in> set ts" for u
      using same [OF that] by (simp add: linked_action_def)
    ultimately show ?thesis using inv by (auto simp: plan_inv_def)
  qed
  moreover have "dom (ps_results st') = tk_id ` set (ts @ [t])" using inv rs by (auto simp: plan_inv_def)
  moreover have "unblocked (ps_results st') t \<longleftrightarrow> nr_status r \<noteq> Blocked" by (simp add: rs unblocked_def)
  moreover have "ps_ids st' x = Some (req_id rq)" if "ps_results st' x = Some q" "nr_request q = Some rq" for x q rq
    using that inv ids own rs by (cases "x = tk_id t") (auto simp: plan_inv_def)
  ultimately show ?thesis using nd by (auto simp: plan_inv_def)
qed

text \<open>The tasks in the order of a linearisation: every prerequisite stands before.\<close>

lemma ordered_tasks:
  assumes w: "well_formed_plan m" and lin: "lin (\<lambda>x. x) (\<lambda>x. set (prereqs_of m x)) (tk_id ` set m) os"
  shows "\<exists>us. os = map tk_id us \<and> set us = set m \<and> distinct us \<and>
    (\<forall>i < length us. set (tk_prereqs (us ! i)) \<subseteq> tk_id ` set (take i us))"
proof -
  have d: "distinct (map tk_id m)" and inj: "inj_on tk_id (set m)" using w by (simp_all add: well_formed_plan_def distinct_map)
  have os: "set os = tk_id ` set m" "distinct os" using lin_set [OF lin] by simp_all
  define task where "task x = the (find (\<lambda>t. tk_id t = x) m)" for x
  have task: "task (tk_id t) = t" if "t \<in> set m" for t using find_task [OF d that] by (simp add: task_def)
  let ?us = "map task os"
  have ids: "map tk_id ?us = os" using os(1) task by (auto intro!: map_idI)
  have set: "set ?us = set m" using os(1) task by force
  have "set (tk_prereqs (?us ! i)) \<subseteq> tk_id ` set (take i ?us)" if i: "i < length ?us" for i
  proof
    fix p assume p: "p \<in> set (tk_prereqs (?us ! i))"
    have u: "?us ! i \<in> set m" using i set nth_mem by blast
    have id: "tk_id (?us ! i) = os ! i" using ids i by (metis length_map nth_map)
    have "p \<in> set os" using p u w os(1) by (auto simp: well_formed_plan_def)
    then obtain j where j: "j < length os" "os ! j = p" by (auto simp: in_set_conv_nth)
    have "os ! j \<in> set (prereqs_of m (os ! i))" using p j(2) prereqs_of_task [OF d u] id by simp
    then have "j < i" using lin_before [OF lin, of i j] i j(1) by simp
    then have "p \<in> set (take i os)" using j i by (auto simp: in_set_conv_nth)
    also have "take i os = map tk_id (take i ?us)" using ids by (metis take_map)
    finally show "p \<in> tk_id ` set (take i ?us)" by simp
  qed
  moreover have "distinct ?us" using ids os(2) by (metis distinct_map)
  ultimately show ?thesis using ids set by (intro exI [of _ ?us]) simp
qed

section \<open>The contract of an agent\<close>

text \<open>
  What the orchestrator needs of its bridge and executor: a request is made for the action it is asked for, and \<open>log\<close> is a view of
  the state that records exactly the calls of \<^verbatim>\<open>action_to_request\<close>.
\<close>

definition observe_raises :: "'w agent \<Rightarrow> exn \<Rightarrow> bool" where
  "observe_raises ag e \<longleftrightarrow> (\<exists>resp rq w w'. ag_observe ag resp rq w = (Inl e, w'))"

locale plan_agent =
  fixes ag :: "'w agent"
    and ex :: "plan_task \<Rightarrow> request \<Rightarrow> 'w \<Rightarrow> (exn + bytes) \<times> 'w"
    and made :: "action \<Rightarrow> request \<Rightarrow> bool"
    and log :: "'w \<Rightarrow> action list"
  assumes request_made: "ag_request ag a w = (Inr rq, w') \<Longrightarrow> made a rq"
    and request_log: "ag_request ag a w = (r, w') \<Longrightarrow> log w' = log w @ [a]"
    and observe_log: "ag_observe ag resp rq w = (ob, w') \<Longrightarrow> log w' = log w"
    and exec_log: "ex t rq w = (q, w') \<Longrightarrow> log w' = log w"
begin

lemma exchange_result:
  assumes "exchange ag (ex t) rq w = (q, w')"
  shows "log w' = log w" and "q = Inl e \<Longrightarrow> observe_raises ag e"
    and "q = Inr r \<Longrightarrow> nr_request r = Some rq \<and> nr_status r \<noteq> Blocked \<and>
      (nr_status r = Executed \<longleftrightarrow> (\<exists>ob. nr_observation r = Some ob \<and> ob_ok ob))"
proof -
  show "log w' = log w"
    using assms by (auto simp: exchange_def split: prod.split_asm sum.split_asm; metis exec_log observe_log)
  show "q = Inl e \<Longrightarrow> observe_raises ag e"
    using assms by (auto simp: exchange_def observe_raises_def split: prod.split_asm sum.split_asm)
  show "q = Inr r \<Longrightarrow> nr_request r = Some rq \<and> nr_status r \<noteq> Blocked \<and>
      (nr_status r = Executed \<longleftrightarrow> (\<exists>ob. nr_observation r = Some ob \<and> ob_ok ob))"
    using assms by (auto simp: exchange_def split: prod.split_asm sum.split_asm if_split_asm)
qed

lemma node_step:
  assumes inv: "plan_inv made ts st (log w)" and new: "tk_id t \<notin> tk_id ` set ts"
    and pre: "\<forall>u \<in> set ts. set (tk_prereqs u) \<subseteq> tk_id ` set ts" and tp: "set (tk_prereqs t) \<subseteq> tk_id ` set ts"
    and run: "plan_node ag ex t st w = (q, w')"
  shows "q = Inr st' \<Longrightarrow> plan_inv made (ts @ [t]) st' (log w')" and "q = Inl e \<Longrightarrow> observe_raises ag e"
proof -
  let ?rs = "ps_results st"
  have dom: "\<forall>p \<in> set (tk_prereqs t). ?rs p \<noteq> None" using inv tp by (auto simp: plan_inv_def dom_def)
  note un = unresolved_defined [OF dom]
  note add = plan_inv_add [OF inv new pre]
  have keep: "executed (?rs(tk_id t \<mapsto> r)) p = executed ?rs p" if "p \<in> set (tk_prereqs t)" for p r
    using that tp new by (auto simp: executed_def)
  have link: "linked_action (?rs(tk_id t \<mapsto> r)) t = linked_action ?rs t" for r
  proof -
    have "p \<noteq> tk_id t" if "p \<in> set (tk_prereqs t)" for p using that tp new by auto
    then have "map (\<lambda>p. req_id (the (nr_request (the ((?rs(tk_id t \<mapsto> r)) p))))) (tk_prereqs t) =
        map (\<lambda>p. req_id (the (nr_request (the (?rs p))))) (tk_prereqs t)" by (intro map_cong) auto
    then show ?thesis by (simp only: linked_action_def)
  qed
  have "(\<forall>st'. q = Inr st' \<longrightarrow> plan_inv made (ts @ [t]) st' (log w')) \<and> (\<forall>e. q = Inl e \<longrightarrow> observe_raises ag e)"
  proof (cases "\<forall>p \<in> set (tk_prereqs t). executed ?rs p")
    case False
    then have "filter (\<lambda>p. \<not> executed ?rs p) (tk_prereqs t) \<noteq> []" by (auto simp: filter_empty_conv)
    then have q: "q = Inr (set_result (tk_id t) blocked_node st)" "w' = w" using run un by (simp_all add: plan_node_def)
    have "node_done made (?rs(tk_id t \<mapsto> blocked_node)) t" using False keep by (auto simp: node_done_def blocked_node_def)
    then show ?thesis using add [of "set_result (tk_id t) blocked_node st" blocked_node] q by (simp add: set_result_def blocked_node_def)
  next
    case True
    have id: "ps_ids st p = Some (req_id (the (nr_request (the (?rs p)))))" if mem: "p \<in> set (tk_prereqs t)" for p
    proof -
      obtain u where u: "u \<in> set ts" "tk_id u = p" using mem tp by blast
      have "executed ?rs p" "node_done made ?rs u" using True mem inv u(1) by (auto simp: plan_inv_def)
      then obtain r rq where "?rs p = Some r" "nr_request r = Some rq" by (auto simp: node_done_def executed_def u(2))
      then show ?thesis using inv by (simp add: plan_inv_def)
    qed
    then have "cause_ids (ps_ids st) (tk_prereqs t) = Inr (map (\<lambda>p. the (ps_ids st p)) (tk_prereqs t))" by (intro cause_ids_defined) simp
    then have act: "cause_ids (ps_ids st) (tk_prereqs t) = Inr (ac_causes (linked_action ?rs t))"
      "(tk_action t)\<lparr>ac_causes := ac_causes (linked_action ?rs t)\<rparr> = linked_action ?rs t"
      using id by (simp_all add: linked_action_def)
    have us: "unresolved ?rs (tk_prereqs t) = Inr []" using True un by (simp add: filter_empty_conv)
    obtain o1 w1 where o: "ag_request ag (linked_action ?rs t) w = (o1, w1)" by fastforce
    note log1 = request_log [OF o]
    show ?thesis
    proof (cases o1)
      case (Inl x)
      then have q: "q = Inr (set_result (tk_id t) refused_node st)" "w' = w1" using run us act o by (simp_all add: plan_node_def)
      have "node_done made (?rs(tk_id t \<mapsto> refused_node)) t" using True keep by (auto simp: node_done_def refused_node_def)
      then show ?thesis using add [of "set_result (tk_id t) refused_node st" refused_node] q log1
        by (simp add: set_result_def refused_node_def link)
    next
      case (Inr rq)
      obtain o2 w2 where x: "exchange ag (ex t) rq w1 = (o2, w2)" by fastforce
      note xr = exchange_result [OF x]
      show ?thesis
      proof (cases o2)
        case (Inl e)
        then show ?thesis using run us act o Inr x xr(2) by (auto simp: plan_node_def)
      next
        case r: (Inr r)
        let ?st = "set_result (tk_id t) r (st\<lparr>ps_ids := (ps_ids st)(tk_id t \<mapsto> req_id rq)\<rparr>)"
        have q: "q = Inr ?st" "w' = w2" using run us act o Inr x r by (simp_all add: plan_node_def)
        have "node_done made (?rs(tk_id t \<mapsto> r)) t"
          using True keep xr(3) [OF r] request_made [OF o [unfolded Inr]] by (auto simp: node_done_def link)
        then show ?thesis using add [of ?st r] q log1 xr(1) xr(3) [OF r] by (simp add: set_result_def link)
      qed
    qed
  qed
  then show "q = Inr st' \<Longrightarrow> plan_inv made (ts @ [t]) st' (log w')" and "q = Inl e \<Longrightarrow> observe_raises ag e" by blast+
qed

text \<open>Running on from a prefix whose tasks are done; the rest follows in an order in which prerequisites come first.\<close>

lemma nodes_run:
  assumes "distinct (map tk_id m)" and "set (ds @ us) \<subseteq> set m" and "distinct (ds @ us)"
    and "\<forall>i < length (ds @ us). set (tk_prereqs ((ds @ us) ! i)) \<subseteq> tk_id ` set (take i (ds @ us))"
    and "plan_inv made ds st (log w)" and "plan_nodes m ag ex (map tk_id us) st w = (q, w')"
  shows "(\<forall>st'. q = Inr st' \<longrightarrow> plan_inv made (ds @ us) st' (log w')) \<and> (\<forall>e. q = Inl e \<longrightarrow> observe_raises ag e)"
  using assms(2-6)
proof (induction us arbitrary: ds st w)
  case (Cons t us)
  have t: "t \<in> set m" "find (\<lambda>u. tk_id u = tk_id t) m = Some t" using Cons.prems(1) find_task [OF assms(1)] by auto
  have inj: "inj_on tk_id (set m)" using assms(1) by (simp add: distinct_map)
  have new: "tk_id t \<notin> tk_id ` set ds" using Cons.prems(1,2) t(1) inj by (auto simp: inj_on_def)
  have pre: "\<forall>u \<in> set ds. set (tk_prereqs u) \<subseteq> tk_id ` set ds"
  proof
    fix u assume "u \<in> set ds"
    then obtain i where i: "i < length ds" "u = ds ! i" by (auto simp: in_set_conv_nth)
    then have "set (tk_prereqs u) \<subseteq> tk_id ` set (take i ds)" using Cons.prems(3) by (auto dest!: spec [of _ i] simp: nth_append)
    then show "set (tk_prereqs u) \<subseteq> tk_id ` set ds" using set_take_subset [of i ds] by blast
  qed
  have tp: "set (tk_prereqs t) \<subseteq> tk_id ` set ds" using Cons.prems(3) by (auto dest!: spec [of _ "length ds"])
  obtain q1 w1 where n: "plan_node ag ex t st w = (q1, w1)" by fastforce
  note step = node_step [OF Cons.prems(4) new pre tp n]
  show ?case
  proof (cases q1)
    case (Inl e)
    then show ?thesis using Cons.prems(5) t(2) n step(2) by auto
  next
    case (Inr st1)
    then show ?thesis using Cons.IH [of "ds @ [t]" st1 w1] Cons.prems(1-3,5) t(2) n step(1) by simp
  qed
qed (auto)

lemma run_result:
  assumes "run_plan ag ex clock ts w = (q, w')" and "\<And>w t w1. clock w = (t, w1) \<Longrightarrow> log w1 = log w" and "log w = []"
  shows "q = Inr pr \<Longrightarrow> \<exists>us. validate_and_order ts = Inr (ts, pr_order pr) \<and> pr_order pr = map tk_id us \<and> set us = set ts \<and>
      dom (pr_results pr) = tk_id ` set ts \<and> (\<forall>t \<in> set ts. node_done made (pr_results pr) t) \<and>
      log w' = map (linked_action (pr_results pr)) (filter (unblocked (pr_results pr)) us)"
    and "q = Inl e \<Longrightarrow> validate_and_order ts = Inl e \<and> w' = w \<or> observe_raises ag e"
proof -
  have "(\<forall>pr. q = Inr pr \<longrightarrow> (\<exists>us. validate_and_order ts = Inr (ts, pr_order pr) \<and> pr_order pr = map tk_id us \<and> set us = set ts \<and>
      dom (pr_results pr) = tk_id ` set ts \<and> (\<forall>t \<in> set ts. node_done made (pr_results pr) t) \<and>
      log w' = map (linked_action (pr_results pr)) (filter (unblocked (pr_results pr)) us))) \<and>
    (\<forall>e. q = Inl e \<longrightarrow> validate_and_order ts = Inl e \<and> w' = w \<or> observe_raises ag e)"
  proof (cases "validate_and_order ts")
    case (Inl e)
    then show ?thesis using assms(1) by (auto simp: run_plan_def)
  next
    case (Inr p)
    then obtain os where v: "validate_and_order ts = Inr (ts, os)" "well_formed_plan ts" "topological_order ts = Inr os"
      by (auto simp: validate_and_order_cases rbind_eq_Inr split: if_splits)
    note lin = v(3) [unfolded topological_order_iff(1) [OF v(2)]]
    obtain us where us: "os = map tk_id us" "set us = set ts" "distinct us"
      and first: "\<forall>i < length us. set (tk_prereqs (us ! i)) \<subseteq> tk_id ` set (take i us)"
      using ordered_tasks [OF v(2) lin] by blast
    obtain t0 w1 where c: "clock w = (t0, w1)" by fastforce
    let ?s0 = "\<lparr>ps_results = Map.empty, ps_ids = Map.empty\<rparr>"
    obtain q1 w2 where n: "plan_nodes ts ag ex (map tk_id us) ?s0 w1 = (q1, w2)" by fastforce
    have "plan_inv made [] ?s0 (log w1)" using assms(2) [OF c] assms(3) by (simp add: plan_inv_def)
    from nodes_run [of ts "[]" us ?s0 w1, OF _ _ _ _ _ n] this v(2) us(2,3) first
    have r: "\<forall>st'. q1 = Inr st' \<longrightarrow> plan_inv made us st' (log w2)" "\<forall>e. q1 = Inl e \<longrightarrow> observe_raises ag e"
      by (simp_all add: well_formed_plan_def)
    show ?thesis
    proof (cases q1)
      case (Inl e)
      then show ?thesis using assms(1) v(1) c n us(1) r(2) by (auto simp: run_plan_def)
    next
      case (Inr st)
      obtain t1 w3 where c2: "clock w2 = (t1, w3)" by fastforce
      have "q = Inr \<lparr>pr_order = os, pr_results = ps_results st, pr_started_at = t0, pr_finished_at = t1\<rparr>" "w' = w3"
        using assms(1) v(1) c n us(1) Inr c2 by (simp_all add: run_plan_def)
      then show ?thesis using r(1) Inr us(1,2) v(1) assms(2) [OF c2] by (auto simp: plan_inv_def)
    qed
  qed
  then show "q = Inr pr \<Longrightarrow> \<exists>us. validate_and_order ts = Inr (ts, pr_order pr) \<and> pr_order pr = map tk_id us \<and> set us = set ts \<and>
      dom (pr_results pr) = tk_id ` set ts \<and> (\<forall>t \<in> set ts. node_done made (pr_results pr) t) \<and>
      log w' = map (linked_action (pr_results pr)) (filter (unblocked (pr_results pr)) us)"
    and "q = Inl e \<Longrightarrow> validate_and_order ts = Inl e \<and> w' = w \<or> observe_raises ag e" by blast+
qed

end

section \<open>The bridge as an agent\<close>

text \<open>A recorder around a bridge: it hands every call on and keeps the actions it was asked to request.\<close>

definition recording :: "'w agent \<Rightarrow> ('w \<times> action list) agent" where
  "recording ag = \<lparr>ag_request = (\<lambda>a (w, calls). case ag_request ag a w of (r, w') \<Rightarrow> (r, w', calls @ [a])),
     ag_observe = (\<lambda>resp rq (w, calls). case ag_observe ag resp rq w of (r, w') \<Rightarrow> (r, w', calls))\<rparr>"

definition beside :: "('w \<Rightarrow> 'r \<times> 'w) \<Rightarrow> 'w \<times> action list \<Rightarrow> 'r \<times> 'w \<times> action list" where
  "beside f s = (case s of (w, calls) \<Rightarrow> (case f w of (r, w') \<Rightarrow> (r, w', calls)))"

text \<open>A request that the bridge signed for an action.\<close>

definition react_made :: "prims \<Rightarrow> 'w react_bridge \<Rightarrow> action \<Rightarrow> request \<Rightarrow> bool" where
  "react_made P b a rq \<longleftrightarrow>
     (\<exists>sgnr t x1. utf8_encode (rb_signer_id b) = Inr sgnr \<and>
        sign P (react_candidate b a sgnr t) (rb_alg b) (rb_seed b) = Inr (x1, req_payload rq) \<and> obj_id x1 = Some (req_id rq))"

interpretation react_plan: plan_agent "recording (react_agent P b)" "\<lambda>t rq. beside (ex t rq)" "react_made P b" snd for P b ex
  by unfold_locales
    (auto simp: recording_def react_agent_def beside_def react_made_def split: prod.split_asm elim!: action_to_request_Inr)

text \<open>Recording changes nothing of a run.\<close>

lemma recording_node:
  "\<exists>l'. plan_node (recording ag) (\<lambda>t rq. beside (ex t rq)) t st (w, l) =
     (fst (plan_node ag ex t st w), snd (plan_node ag ex t st w), l')"
  by (auto simp: plan_node_def exchange_def recording_def beside_def split: sum.split prod.split)

lemma recording_nodes:
  "\<exists>l'. plan_nodes m (recording ag) (\<lambda>t rq. beside (ex t rq)) os st (w, l) =
     (fst (plan_nodes m ag ex os st w), snd (plan_nodes m ag ex os st w), l')"
proof (induction os arbitrary: st w l)
  case (Cons x os)
  show ?case
  proof (cases "find (\<lambda>t. tk_id t = x) m")
    case (Some t)
    obtain l' where n: "plan_node (recording ag) (\<lambda>t rq. beside (ex t rq)) t st (w, l) =
        (fst (plan_node ag ex t st w), snd (plan_node ag ex t st w), l')" using recording_node [of ag ex t st w l] by metis
    show ?thesis
    proof (cases "fst (plan_node ag ex t st w)")
      case (Inl e)
      then show ?thesis using Some n by (auto split: prod.splits)
    next
      case (Inr st1)
      then show ?thesis using Some n Cons.IH [of st1 "snd (plan_node ag ex t st w)" l'] by (auto split: prod.splits)
    qed
  qed simp
qed simp

lemma recording_run:
  "\<exists>l'. run_plan (recording ag) (\<lambda>t rq. beside (ex t rq)) (beside clock) ts (w, l) =
     (fst (run_plan ag ex clock ts w), snd (run_plan ag ex clock ts w), l')"
proof (cases "validate_and_order ts")
  case (Inr p)
  obtain m os where p: "p = (m, os)" by (cases p)
  obtain t0 w1 where c: "clock w = (t0, w1)" by fastforce
  let ?s0 = "\<lparr>ps_results = Map.empty, ps_ids = Map.empty\<rparr>"
  obtain l' where n: "plan_nodes m (recording ag) (\<lambda>t rq. beside (ex t rq)) os ?s0 (w1, l) =
      (fst (plan_nodes m ag ex os ?s0 w1), snd (plan_nodes m ag ex os ?s0 w1), l')" using recording_nodes [of m ag ex os ?s0 w1 l] by metis
  show ?thesis using Inr p c n
    by (cases "plan_nodes m ag ex os ?s0 w1"; cases "fst (plan_nodes m ag ex os ?s0 w1)")
      (auto simp: run_plan_def beside_def split: prod.split)
qed (simp add: run_plan_def)

interpretation any_plan: plan_agent "recording ag" "\<lambda>t rq. beside (ex t rq)" "\<lambda>_ _. True" snd for ag ex
  by unfold_locales (auto simp: recording_def beside_def split: prod.split_asm)

section \<open>Properties of the orchestrator\<close>

text \<open>A plan is accepted exactly when its task ids are distinct, its prerequisites are tasks of the plan and it has no cycle, and
  then its order is the unique one that always takes the least task, by id, whose prerequisites were taken; otherwise the error names the
  first of the three conditions that fails. The loop of Kahn's algorithm ends on every plan, also on one with cycles.\<close>

theorem plan_order_exact:
  "(validate_and_order ts = Inr (m, os) \<longleftrightarrow>
     m = ts \<and> well_formed_plan ts \<and> lin (\<lambda>x. x) (\<lambda>x. set (prereqs_of ts x)) (tk_id ` set ts) os) \<and>
   (validate_and_order ts = Inl e \<longleftrightarrow>
     \<not> (well_formed_plan ts \<and> acyclic (plan_edges ts)) \<and>
     e = PlanError (if \<not> distinct (map tk_id ts) then ''DuplicateTaskId'' else if \<not> well_formed_plan ts then ''UnknownPrerequisite'' else ''CyclicPlan''))"
proof (cases "well_formed_plan ts")
  case True
  then have "distinct (map tk_id ts)" by (simp add: well_formed_plan_def)
  then show ?thesis
    using topological_order_iff [OF True] True by (auto simp: validate_and_order_cases rbind_eq_Inr rbind_eq_Inl)
next
  case False
  then show ?thesis by (auto simp: validate_and_order_cases)
qed

text \<open>C22: What a run of a plan over the signing bridge leaves, whatever the executor and the bridge's hooks do: every task has a
  result; it is blocked exactly when a prerequisite was not executed, and then no request exists for it; it is executed exactly when its
  response verified; and every request is the signature of the task's action whose causes are its prerequisites' request ids. The bridge was
  called for exactly the tasks that were not blocked, in the order of the plan.\<close>

theorem plan_run_sound:
  assumes "run_plan (recording (react_agent P b)) (\<lambda>t rq. beside (ex t rq)) (beside clock) ts (w, []) = (Inr pr, w', calls)"
  shows "\<exists>us. validate_and_order ts = Inr (ts, pr_order pr) \<and> pr_order pr = map tk_id us \<and> set us = set ts \<and>
    dom (pr_results pr) = tk_id ` set ts \<and> (\<forall>t \<in> set ts. node_done (react_made P b) (pr_results pr) t) \<and>
    calls = map (linked_action (pr_results pr)) (filter (unblocked (pr_results pr)) us)"
proof -
  have "snd s1 = snd s" if "beside clock s = (t, s1)" for s t s1
    using that by (auto simp: beside_def split: prod.split_asm)
  from react_plan.run_result(1) [OF assms this] show ?thesis by auto
qed

text \<open>A plan that is accepted runs to its end: with a bridge that turns every response into an observation, no failing request or
  executor stops the plan, so the run returns a result for every task. A plan that is not accepted reaches neither bridge nor executor.\<close>

theorem plan_run_completes:
  assumes "\<And>resp rq w. \<exists>ob w1. ag_observe ag resp rq w = (Inr ob, w1)"
  shows "case validate_and_order ts of Inl e \<Rightarrow> run_plan ag ex clock ts w = (Inl e, w)
    | Inr _ \<Rightarrow> (\<exists>pr w'. run_plan ag ex clock ts w = (Inr pr, w') \<and> dom (pr_results pr) = tk_id ` set ts)"
proof (cases "validate_and_order ts")
  case (Inl e)
  then show ?thesis by (simp add: run_plan_def)
next
  case (Inr p)
  obtain l' where r: "run_plan (recording ag) (\<lambda>t rq. beside (ex t rq)) (beside clock) ts (w, []) =
      (fst (run_plan ag ex clock ts w), snd (run_plan ag ex clock ts w), l')" using recording_run [of ag ex clock ts w "[]"] by metis
  have c: "snd s1 = snd s" if "beside clock s = (t, s1)" for s t s1
    using that by (auto simp: beside_def split: prod.split_asm)
  have "\<not> observe_raises (recording ag) e" for e
    using assms by (auto simp: observe_raises_def recording_def split: prod.split_asm) (metis Pair_inject sum.distinct(1))
  moreover have "validate_and_order ts = Inl e \<and> (snd (run_plan ag ex clock ts w), l') = (w, []) \<or> observe_raises (recording ag) e"
    if "fst (run_plan ag ex clock ts w) = Inl e" for e
    by (rule any_plan.run_result(2) [OF r]) (use c that in auto)
  ultimately obtain pr where pr: "fst (run_plan ag ex clock ts w) = Inr pr"
    using Inr by (cases "fst (run_plan ag ex clock ts w)") auto
  have "\<exists>us. validate_and_order ts = Inr (ts, pr_order pr) \<and> pr_order pr = map tk_id us \<and> set us = set ts \<and>
      dom (pr_results pr) = tk_id ` set ts \<and> (\<forall>t \<in> set ts. node_done (\<lambda>_ _. True) (pr_results pr) t) \<and>
      snd (snd (run_plan ag ex clock ts w), l') = map (linked_action (pr_results pr)) (filter (unblocked (pr_results pr)) us)"
    by (rule any_plan.run_result(1) [OF r]) (use c pr in auto)
  then have "dom (pr_results pr) = tk_id ` set ts" by blast
  with pr Inr show ?thesis by (cases "run_plan ag ex clock ts w") auto
qed

definition sample_plan :: "plan_task list" where
  "sample_plan = [\<lparr>tk_id = [98], tk_action = sample_react_action, tk_prereqs = [[97]]\<rparr>, \<lparr>tk_id = [97], tk_action = sample_react_action, tk_prereqs = []\<rparr>]"

lemma sample_plan_ordered: "validate_and_order sample_plan = Inr (sample_plan, [[97], [98]])"
  by code_simp

lemma sample_plan_runs:
  "\<exists>pr w'. run_plan (recording (react_agent sample_prims sample_bridge)) (\<lambda>t rq. beside (\<lambda>w. (Inl ValueError, w))) (beside (\<lambda>w. (0, w)))
     sample_plan ((), []) = (Inr pr, w')"
proof -
  obtain rq where r: "action_to_request sample_prims sample_bridge sample_react_action () = (Inr rq, ())"
    using sample_request by (cases "action_to_request sample_prims sample_bridge sample_react_action ()") (auto simp: is_ok_iff)
  have a: "sample_react_action\<lparr>ac_causes := []\<rparr> = sample_react_action" by (simp add: sample_react_action_def)
  show ?thesis
    unfolding run_plan_def sample_plan_ordered
    by (simp add: beside_def recording_def react_agent_def plan_node_def exchange_def set_result_def sample_plan_def a r)
qed

theorem plan_run_sound_witness:
  "\<exists>pr w' calls. run_plan (recording (react_agent sample_prims sample_bridge)) (\<lambda>t rq. beside (\<lambda>w. (Inl ValueError, w))) (beside (\<lambda>w. (0, w)))
     sample_plan ((), []) = (Inr pr, w', calls) \<and> dom (pr_results pr) = {[97], [98]} \<and> pr_order pr = [[97], [98]]"
proof -
  obtain pr w' calls where r: "run_plan (recording (react_agent sample_prims sample_bridge)) (\<lambda>t rq. beside (\<lambda>w. (Inl ValueError, w)))
      (beside (\<lambda>w. (0, w))) sample_plan ((), []) = (Inr pr, w', calls)"
    using sample_plan_runs by (metis prod.collapse)
  from plan_run_sound [OF r] r sample_plan_ordered show ?thesis by (auto simp: sample_plan_def)
qed

theorem plan_run_completes_witness:
  "\<exists>pr w'. run_plan \<lparr>ag_request = (\<lambda>a w. (Inl ValueError, w)), ag_observe = (\<lambda>resp rq w. (Inr (refused_observation ''Malformed''), w))\<rparr>
     (\<lambda>t rq w. (Inl ValueError, w)) (\<lambda>w. (0, w)) sample_plan () = (Inr pr, w') \<and> dom (pr_results pr) = {[97], [98]}"
  using plan_run_completes [where ag = "\<lparr>ag_request = (\<lambda>a w. (Inl ValueError, w)), ag_observe = (\<lambda>resp rq w. (Inr (refused_observation ''Malformed''), w))\<rparr>"
      and ts = sample_plan and ex = "\<lambda>t rq w. (Inl ValueError, w)" and clock = "\<lambda>w. (0, w)" and w = "()"] sample_plan_ordered
  by (simp add: sample_plan_def insert_commute)

end
