(* ===== verification/Multiagent.thy ===== *)
theory Multiagent
  imports Plan Federation
begin

text \<open>
  Several agents (\<^verbatim>\<open>ecosystem/naalp-multiagent\<close>): a pipeline in which each stage's request is caused by the one before, and a
  fan-out in which concurrent branches share one cause and their requests are merged into one order. Branches run on a thread pool;
  the model interleaves their calls in any order.
\<close>

section \<open>The pipeline\<close>

record 'w stage =
  sg_agent_id :: pystr
  sg_bridge :: "'w agent"
  sg_executor :: "'w exec"
  sg_build_action :: "observation option \<Rightarrow> 'w \<Rightarrow> action res \<times> 'w"

definition stage_request :: "'w stage \<Rightarrow> observation option \<Rightarrow> bytes option \<Rightarrow> 'w \<Rightarrow> request res \<times> 'w" where
  "stage_request s prev_observation prev_id w =
     (case sg_build_action s prev_observation w of
        (Inl e, w1) \<Rightarrow> (Inl e, w1)
      | (Inr a, w1) \<Rightarrow> ag_request (sg_bridge s) (a\<lparr>ac_causes := (case prev_id of None \<Rightarrow> [] | Some i \<Rightarrow> [i])\<rparr>) w1)"

fun pipeline_stages ::
  "'w stage list \<Rightarrow> observation option \<Rightarrow> bytes option \<Rightarrow> bool \<Rightarrow> 'w \<Rightarrow> node_result list res \<times> 'w" where
  "pipeline_stages [] prev_observation prev_id chain_broken w = (Inr [], w)"
| "pipeline_stages (s # ss) prev_observation prev_id chain_broken w =
     (let and_then = (\<lambda>r (q, w1). (rbind q (\<lambda>rs. Inr (r # rs)), w1)) in
      if chain_broken then and_then blocked_node (pipeline_stages ss prev_observation prev_id True w)
      else (case stage_request s prev_observation prev_id w of
          (Inl _, w1) \<Rightarrow> and_then refused_node (pipeline_stages ss prev_observation prev_id True w1)
        | (Inr rq, w1) \<Rightarrow>
            (case exchange (sg_bridge s) (sg_executor s) rq w1 of
               (Inl e, w2) \<Rightarrow> (Inl e, w2)
             | (Inr r, w2) \<Rightarrow>
                 if nr_status r = Executed then and_then r (pipeline_stages ss (nr_observation r) (Some (req_id rq)) False w2)
                 else and_then r (pipeline_stages ss prev_observation prev_id True w2))))"

definition run_pipeline :: "'w stage list \<Rightarrow> 'w \<Rightarrow> (pystr \<times> node_result) list res \<times> 'w" where
  "run_pipeline ss w =
     (case pipeline_stages ss None None False w of (q, w1) \<Rightarrow> (rbind q (\<lambda>rs. Inr (zip (map sg_agent_id ss) rs)), w1))"

definition pipeline_executed :: "(pystr \<times> node_result) list \<Rightarrow> pystr list" where
  "pipeline_executed rs = map fst (filter (\<lambda>(_, r). nr_status r = Executed) rs)"

definition pipeline_result_for :: "(pystr \<times> node_result) list \<Rightarrow> pystr \<Rightarrow> node_result res" where
  "pipeline_result_for rs i = (case find (\<lambda>p. fst p = i) rs of None \<Rightarrow> Inl KeyError | Some p \<Rightarrow> Inr (snd p))"

section \<open>The fan-out\<close>

record 'w branch =
  br_agent_id :: pystr
  br_bridge :: "'w agent"
  br_executor :: "'w exec"
  br_build_action :: "bytes \<Rightarrow> 'w \<Rightarrow> action res \<times> 'w"

text \<open>Where one branch stands in \<^verbatim>\<open>_run_branch\<close>; an exception out of the observation is raised again by \<^verbatim>\<open>future.result()\<close>.\<close>

datatype phase = Waiting | Built action | Requested request | Answered request bytes | Finished node_result | Crashed exn

definition branch_step :: "'w branch \<Rightarrow> bytes \<Rightarrow> phase \<Rightarrow> 'w \<Rightarrow> phase \<times> 'w" where
  "branch_step b shared ph w =
     (case ph of
        Waiting \<Rightarrow> (case br_build_action b shared w of
            (Inl _, w1) \<Rightarrow> (Finished refused_node, w1) | (Inr a, w1) \<Rightarrow> (Built (a\<lparr>ac_causes := [shared]\<rparr>), w1))
      | Built a \<Rightarrow> (case ag_request (br_bridge b) a w of
            (Inl _, w1) \<Rightarrow> (Finished refused_node, w1) | (Inr rq, w1) \<Rightarrow> (Requested rq, w1))
      | Requested rq \<Rightarrow> (case br_executor b rq w of
            (Inl _, w1) \<Rightarrow> (Finished \<lparr>nr_status = Refused, nr_request = Some rq, nr_observation = None\<rparr>, w1)
          | (Inr resp, w1) \<Rightarrow> (Answered rq resp, w1))
      | Answered rq resp \<Rightarrow> (case ag_observe (br_bridge b) resp rq w of
            (Inl e, w1) \<Rightarrow> (Crashed e, w1)
          | (Inr ob, w1) \<Rightarrow>
              (Finished \<lparr>nr_status = (if \<not> ob_ok ob then Refused else Executed), nr_request = Some rq, nr_observation = Some ob\<rparr>, w1))
      | _ \<Rightarrow> (ph, w))"

text \<open>A branch runs alone by repeating its step; threads interleave the steps of the branches.\<close>

definition active :: "phase \<Rightarrow> bool" where
  "active ph \<longleftrightarrow> (case ph of Finished _ \<Rightarrow> False | Crashed _ \<Rightarrow> False | _ \<Rightarrow> True)"

inductive fanout_steps :: "'w branch list \<Rightarrow> bytes \<Rightarrow> phase list \<times> 'w \<Rightarrow> nat \<Rightarrow> phase list \<times> 'w \<Rightarrow> bool" for bs shared where
  none: "fanout_steps bs shared s 0 s"
| step: "fanout_steps bs shared s n (ps, w) \<Longrightarrow> i < length bs \<Longrightarrow> active (ps ! i) \<Longrightarrow> branch_step (bs ! i) shared (ps ! i) w = (ph, w') \<Longrightarrow>
    fanout_steps bs shared s (Suc n) (ps[i := ph], w')"

definition fanout_init :: "'w branch list \<Rightarrow> unit res" where
  "fanout_init bs = (if distinct (map br_agent_id bs) then Inr () else Inl (MultiAgentError ''DuplicateAgentId''))"

record branch_result =
  bk_executed :: bool
  bk_request :: "request option"
  bk_observation :: "observation option"
  bk_error :: string

definition branch_result_of :: "node_result \<Rightarrow> branch_result" where
  "branch_result_of a =
     (if nr_status a = Executed
      then \<lparr>bk_executed = True, bk_request = nr_request a, bk_observation = nr_observation a, bk_error = []\<rparr>
      else \<lparr>bk_executed = False, bk_request = nr_request a, bk_observation = nr_observation a,
        bk_error = (case nr_observation a of
            Some ob \<Rightarrow> (case ob_error ob of Some e \<Rightarrow> e | None \<Rightarrow> []) | None \<Rightarrow> ''SigningOrExecutionRefused'')\<rparr>)"

text \<open>An executed attempt has a request, so the node of the graph exists.\<close>

definition attempt_node :: "bytes \<Rightarrow> node_result \<Rightarrow> federation_node list" where
  "attempt_node shared a =
     (if nr_status a = Executed
      then (case nr_request a of None \<Rightarrow> [] | Some rq \<Rightarrow> [\<lparr>fn_id = req_id rq, fn_causes = [shared]\<rparr>]) else [])"

definition fanout_result :: "bytes \<Rightarrow> (pystr \<times> node_result) list \<Rightarrow> ((pystr \<times> branch_result) list \<times> bytes list) res" where
  "fanout_result shared attempts =
     rbind (federation_reconcile (\<lparr>fn_id = shared, fn_causes = []\<rparr> # concat (map (attempt_node shared \<circ> snd) attempts))) (\<lambda>ord.
       Inr (map (\<lambda>(i, a). (i, branch_result_of a)) attempts, ord))"

text \<open>Once every branch has ended; of several crashes the first to complete is raised, which one is left open here.\<close>

definition fanout_outcome :: "'w branch list \<Rightarrow> bytes \<Rightarrow> phase list \<Rightarrow> ((pystr \<times> branch_result) list \<times> bytes list) res \<Rightarrow> bool" where
  "fanout_outcome bs shared ps r \<longleftrightarrow>
     (if \<exists>e. Crashed e \<in> set ps then \<exists>e. Crashed e \<in> set ps \<and> r = Inl e
      else r = fanout_result shared (zip (map br_agent_id bs) (List.map_filter (\<lambda>ph. case ph of Finished a \<Rightarrow> Some a | _ \<Rightarrow> None) ps)))"

section \<open>The chain of a pipeline\<close>

lemma pipeline_broken: "pipeline_stages ss po i True w = (Inr (replicate (length ss) blocked_node), w)"
  by (induction ss) simp_all

text \<open>The causes the stage at index \<open>k\<close> must have, from the results before it.\<close>

definition causes_at :: "bytes option \<Rightarrow> node_result list \<Rightarrow> nat \<Rightarrow> bytes list" where
  "causes_at i rs k =
     (case k of 0 \<Rightarrow> (case i of None \<Rightarrow> [] | Some x \<Rightarrow> [x]) | Suc j \<Rightarrow> [req_id (the (nr_request (rs ! j)))])"

definition requested_by :: "'w agent \<Rightarrow> bytes list \<Rightarrow> request \<Rightarrow> bool" where
  "requested_by ag cs rq \<longleftrightarrow> (\<exists>a w w'. ac_causes a = cs \<and> ag_request ag a w = (Inr rq, w'))"

definition stage_chain :: "'w stage list \<Rightarrow> bytes option \<Rightarrow> node_result list \<Rightarrow> bool" where
  "stage_chain ss i rs \<longleftrightarrow> length rs = length ss \<and>
     (\<exists>es ts. rs = es @ ts \<and> list_all (\<lambda>r. nr_status r = Executed) es \<and>
        (ts = [] \<or> (\<exists>r. nr_status r = Refused \<and> ts = r # replicate (length ss - Suc (length es)) blocked_node))) \<and>
     (\<forall>k < length rs. \<forall>rq. nr_request (rs ! k) = Some rq \<longrightarrow> requested_by (sg_bridge (ss ! k)) (causes_at i rs k) rq)"

lemma stage_request_made:
  assumes "stage_request s po i w = (Inr rq, w1)"
  shows "requested_by (sg_bridge s) (causes_at i rs 0) rq"
proof -
  obtain a v where "ag_request (sg_bridge s) (a\<lparr>ac_causes := (case i of None \<Rightarrow> [] | Some x \<Rightarrow> [x])\<rparr>) v = (Inr rq, w1)"
    using assms by (auto simp: stage_request_def split: prod.split_asm sum.split_asm)
  moreover have "ac_causes (a\<lparr>ac_causes := (case i of None \<Rightarrow> [] | Some x \<Rightarrow> [x])\<rparr>) = causes_at i rs 0" by (simp add: causes_at_def)
  ultimately show ?thesis unfolding requested_by_def by blast
qed

lemma exchange_cases:
  assumes "exchange ag ex rq w = (Inr r, w')"
  shows "nr_request r = Some rq" and "nr_status r \<noteq> Blocked"
  using assms by (auto simp: exchange_def split: prod.split_asm sum.split_asm if_split_asm)

lemma stage_chain_stop:
  assumes "nr_status r = Refused" and "\<And>rq. nr_request r = Some rq \<Longrightarrow> requested_by (sg_bridge s) (causes_at i (r # rs) 0) rq"
    and "rs = replicate (length ss) blocked_node"
  shows "stage_chain (s # ss) i (r # rs)"
proof -
  have "requested_by (sg_bridge ((s # ss) ! k)) (causes_at i (r # rs) k) rq"
    if "k < length (r # rs)" "nr_request ((r # rs) ! k) = Some rq" for k rq
    using that assms by (cases k) (auto simp: blocked_node_def)
  then show ?thesis using assms(1,3) unfolding stage_chain_def by (intro conjI exI [of _ "[]"] exI [of _ "r # rs"]) auto
qed

lemma stage_chain_go:
  assumes "nr_status r = Executed" and "nr_request r = Some rq0" and "requested_by (sg_bridge s) (causes_at i (r # rs) 0) rq0"
    and "stage_chain ss (Some (req_id rq0)) rs"
  shows "stage_chain (s # ss) i (r # rs)"
proof -
  obtain es ts where e: "rs = es @ ts" "list_all (\<lambda>r. nr_status r = Executed) es" "length rs = length ss"
    "ts = [] \<or> (\<exists>r. nr_status r = Refused \<and> ts = r # replicate (length ss - Suc (length es)) blocked_node)"
    using assms(4) unfolding stage_chain_def by blast
  have "requested_by (sg_bridge ((s # ss) ! k)) (causes_at i (r # rs) k) rq"
    if k: "k < length (r # rs)" "nr_request ((r # rs) ! k) = Some rq" for k rq
  proof (cases k)
    case 0
    then show ?thesis using k assms(2,3) by simp
  next
    case (Suc j)
    then have "requested_by (sg_bridge (ss ! j)) (causes_at (Some (req_id rq0)) rs j) rq" using assms(4) k by (simp add: stage_chain_def)
    moreover have "causes_at i (r # rs) k = causes_at (Some (req_id rq0)) rs j" using Suc assms(2) by (cases j) (simp_all add: causes_at_def)
    ultimately show ?thesis using Suc by simp
  qed
  then show ?thesis
    using assms(1) e unfolding stage_chain_def by (intro conjI exI [of _ "r # es"] exI [of _ ts]) auto
qed

lemma pipeline_stages_chain:
  assumes "pipeline_stages ss po i False w = (Inr rs, w')"
  shows "stage_chain ss i rs"
  using assms
proof (induction ss arbitrary: po i w rs)
  case Nil
  then show ?case by (simp add: stage_chain_def)
next
  case (Cons s ss)
  obtain q w1 where q: "stage_request s po i w = (q, w1)" by fastforce
  show ?case
  proof (cases q)
    case (Inl e)
    then have "rs = refused_node # replicate (length ss) blocked_node" using Cons.prems q by (simp add: pipeline_broken)
    moreover have "stage_chain (s # ss) i (refused_node # replicate (length ss) blocked_node)"
      by (rule stage_chain_stop) (simp_all add: refused_node_def)
    ultimately show ?thesis by simp
  next
    case (Inr rq)
    note made = stage_request_made [OF q [unfolded Inr]]
    obtain r w2 where x: "exchange (sg_bridge s) (sg_executor s) rq w1 = (Inr r, w2)"
      using Cons.prems q Inr by (auto split: prod.split_asm sum.split_asm)
    show ?thesis
    proof (cases "nr_status r = Executed")
      case True
      obtain rs1 where "rs = r # rs1" "pipeline_stages ss (nr_observation r) (Some (req_id rq)) False w2 = (Inr rs1, w')"
        using Cons.prems q Inr x True by (auto simp: Let_def rbind_eq_Inr split: prod.split_asm)
      then show ?thesis using stage_chain_go [OF True exchange_cases(1) [OF x] made] Cons.IH by blast
    next
      case False
      then have "nr_status r = Refused" using exchange_cases(2) [OF x] by (cases "nr_status r") auto
      moreover have "rs = r # replicate (length ss) blocked_node" using Cons.prems q Inr x False by (simp add: pipeline_broken)
      ultimately show ?thesis using stage_chain_stop [of r s i] made exchange_cases(1) [OF x] by auto
    qed
  qed
qed

text \<open>What follows the first failure leaves no trace: a pipeline cut off after it ends in the same state.\<close>

lemma pipeline_cut:
  assumes "pipeline_stages (ss @ ts) po i False w = (Inr (rs @ qs), w')" and "length rs = length ss" and "rs \<noteq> []" and "nr_status (last rs) \<noteq> Executed"
  shows "pipeline_stages ss po i False w = (Inr rs, w')"
  using assms
proof (induction ss arbitrary: po i w rs)
  case (Cons s ss)
  obtain r rs1 where rs: "rs = r # rs1" "length rs1 = length ss" using Cons.prems(2) by (cases rs) auto
  obtain q w1 where q: "stage_request s po i w = (q, w1)" by fastforce
  show ?case
  proof (cases q)
    case (Inl e)
    then show ?thesis using Cons.prems(1) q rs by (auto simp: pipeline_broken replicate_add dest: append_eq_append_conv [THEN iffD1, rotated])
  next
    case (Inr rq)
    obtain x w2 where x: "exchange (sg_bridge s) (sg_executor s) rq w1 = (Inr x, w2)"
      using Cons.prems(1) q Inr by (auto split: prod.split_asm sum.split_asm)
    show ?thesis
    proof (cases "nr_status x = Executed")
      case True
      have "x = r" "pipeline_stages (ss @ ts) (nr_observation x) (Some (req_id rq)) False w2 = (Inr (rs1 @ qs), w')"
        using Cons.prems(1) q Inr x True rs by (auto simp: Let_def rbind_eq_Inr split: prod.split_asm)
      moreover have "rs1 \<noteq> []" using Cons.prems(4) True \<open>x = r\<close> rs by auto
      ultimately have "pipeline_stages ss (nr_observation x) (Some (req_id rq)) False w2 = (Inr rs1, w')"
        using Cons.IH [of _ _ _ rs1] Cons.prems(4) rs by simp
      then show ?thesis using q Inr x True rs \<open>x = r\<close> by simp
    next
      case False
      then show ?thesis using Cons.prems(1) q Inr x rs
        by (auto simp: pipeline_broken replicate_add dest: append_eq_append_conv [THEN iffD1, rotated])
    qed
  qed
qed simp

section \<open>Every interleaving of a fan-out\<close>

definition attempt_ok :: "'w branch \<Rightarrow> bytes \<Rightarrow> node_result \<Rightarrow> bool" where
  "attempt_ok b shared r \<longleftrightarrow> nr_status r \<noteq> Blocked \<and>
     (\<forall>rq. nr_request r = Some rq \<longrightarrow> requested_by (br_bridge b) [shared] rq) \<and>
     (nr_status r = Executed \<longleftrightarrow> (\<exists>rq ob. nr_request r = Some rq \<and> nr_observation r = Some ob \<and> ob_ok ob))"

definition phase_ok :: "'w branch \<Rightarrow> bytes \<Rightarrow> phase \<Rightarrow> bool" where
  "phase_ok b shared ph \<longleftrightarrow>
     (case ph of
        Waiting \<Rightarrow> True
      | Built a \<Rightarrow> ac_causes a = [shared]
      | Requested rq \<Rightarrow> requested_by (br_bridge b) [shared] rq
      | Answered rq _ \<Rightarrow> requested_by (br_bridge b) [shared] rq
      | Finished r \<Rightarrow> attempt_ok b shared r
      | Crashed _ \<Rightarrow> True)"

lemma branch_step_ok:
  assumes "phase_ok b shared ph" and "branch_step b shared ph w = (ph', w')"
  shows "phase_ok b shared ph'"
proof (cases ph)
  case (Built a)
  have "requested_by (br_bridge b) [shared] rq" if "ag_request (br_bridge b) a w = (Inr rq, w')" for rq
    using that assms(1) Built unfolding requested_by_def phase_ok_def by auto
  then show ?thesis using assms Built
    by (auto simp: branch_step_def phase_ok_def attempt_ok_def refused_node_def split: prod.split_asm sum.split_asm)
qed (use assms in \<open>auto simp: branch_step_def phase_ok_def attempt_ok_def refused_node_def split: prod.split_asm sum.split_asm if_split_asm\<close>)

lemma fanout_steps_ok:
  assumes "fanout_steps bs shared (replicate (length bs) Waiting, w) n s"
  shows "length (fst s) = length bs \<and> (\<forall>i < length bs. phase_ok (bs ! i) shared (fst s ! i))"
  using assms
proof (induction "(replicate (length bs) Waiting, w)" n s rule: fanout_steps.induct)
  case none
  then show ?case by (simp add: phase_ok_def)
next
  case (step n ps v i ph v')
  then have "phase_ok (bs ! i) shared ph" using branch_step_ok [of "bs ! i" shared "ps ! i" v ph v'] by simp
  then show ?case using step by (auto simp: nth_list_update)
qed

text \<open>Each branch takes at most four steps, so every interleaving ends.\<close>

definition steps_left :: "phase \<Rightarrow> nat" where
  "steps_left ph = (case ph of Waiting \<Rightarrow> 4 | Built _ \<Rightarrow> 3 | Requested _ \<Rightarrow> 2 | Answered _ _ \<Rightarrow> 1 | _ \<Rightarrow> 0)"

lemma branch_step_left: "active ph \<Longrightarrow> branch_step b shared ph w = (ph', w') \<Longrightarrow> steps_left ph' < steps_left ph"
  by (cases ph) (auto simp: active_def branch_step_def steps_left_def split: prod.split_asm sum.split_asm)

lemma sum_list_update_less:
  fixes f :: "'a \<Rightarrow> nat"
  shows "i < length xs \<Longrightarrow> f x < f (xs ! i) \<Longrightarrow> sum_list (map f (xs[i := x])) < sum_list (map f xs)"
  by (induction xs arbitrary: i) (auto split: nat.split)

lemma fanout_steps_bound:
  "fanout_steps bs shared s n t \<Longrightarrow> length (fst s) = length bs \<Longrightarrow>
     n + sum_list (map steps_left (fst t)) \<le> sum_list (map steps_left (fst s)) \<and> length (fst t) = length bs"
proof (induction rule: fanout_steps.induct)
  case (step s n ps w i ph w')
  then have "sum_list (map steps_left (ps[i := ph])) < sum_list (map steps_left ps)"
    using sum_list_update_less [of i ps steps_left ph] branch_step_left [OF step.hyps(3,4)] by simp
  then show ?case using step by simp
qed simp

section \<open>The calls of a branch\<close>

text \<open>
  The calls a fan-out makes into the code it is given, recorded by wrapping every branch: the wrapped branch does what the
  branch does and appends to a log, with the branch's position, each call it receives.
\<close>

datatype call = Build bytes | Request action | Execute request | Observe request bytes

type_synonym 'w logging = "'w \<times> (nat \<times> call) list"

definition log_call :: "nat \<Rightarrow> call \<Rightarrow> ('w \<Rightarrow> 'a \<times> 'w) \<Rightarrow> 'w logging \<Rightarrow> 'a \<times> 'w logging" where
  "log_call i c f s = (case f (fst s) of (r, w) \<Rightarrow> (r, (w, snd s @ [(i, c)])))"

definition logged :: "nat \<Rightarrow> 'w branch \<Rightarrow> 'w logging branch" where
  "logged i b = \<lparr>br_agent_id = br_agent_id b,
     br_bridge = \<lparr>ag_request = (\<lambda>a. log_call i (Request a) (ag_request (br_bridge b) a)),
       ag_observe = (\<lambda>resp rq. log_call i (Observe rq resp) (ag_observe (br_bridge b) resp rq))\<rparr>,
     br_executor = (\<lambda>rq. log_call i (Execute rq) (br_executor b rq)),
     br_build_action = (\<lambda>sh. log_call i (Build sh) (br_build_action b sh))\<rparr>"

definition logged_branches :: "'w branch list \<Rightarrow> 'w logging branch list" where
  "logged_branches bs = map (\<lambda>(i, b). logged i b) (enumerate 0 bs)"

definition calls_of :: "nat \<Rightarrow> (nat \<times> call) list \<Rightarrow> call list" where
  "calls_of i l = map snd (filter (\<lambda>c. fst c = i) l)"

text \<open>
  The exchange of one branch as its calls must show it: the action is built once from the shared input, one request is made for
  it with the shared input as its only cause, the executor is called once with that request, and the answer is observed once.
  A refusal at any point ends the sequence there.
\<close>

definition exchange_calls :: "bytes \<Rightarrow> phase \<Rightarrow> call list \<Rightarrow> bool" where
  "exchange_calls shared ph cs \<longleftrightarrow>
     (case ph of
        Waiting \<Rightarrow> cs = []
      | Built a \<Rightarrow> ac_causes a = [shared] \<and> cs = [Build shared]
      | Requested rq \<Rightarrow> \<exists>a. ac_causes a = [shared] \<and> cs = [Build shared, Request a]
      | Answered rq resp \<Rightarrow> \<exists>a. ac_causes a = [shared] \<and> cs = [Build shared, Request a, Execute rq]
      | Finished r \<Rightarrow>
          (case nr_request r of
             None \<Rightarrow> cs = [Build shared] \<or> (\<exists>a. ac_causes a = [shared] \<and> cs = [Build shared, Request a])
           | Some rq \<Rightarrow> \<exists>a. ac_causes a = [shared] \<and>
               (nr_observation r = None \<and> cs = [Build shared, Request a, Execute rq] \<or>
                nr_observation r \<noteq> None \<and> (\<exists>resp. cs = [Build shared, Request a, Execute rq, Observe rq resp])))
      | Crashed e \<Rightarrow> \<exists>a rq resp. ac_causes a = [shared] \<and> cs = [Build shared, Request a, Execute rq, Observe rq resp])"

definition call_of :: "bytes \<Rightarrow> phase \<Rightarrow> call" where
  "call_of shared ph =
     (case ph of Built a \<Rightarrow> Request a | Requested rq \<Rightarrow> Execute rq | Answered rq resp \<Rightarrow> Observe rq resp | _ \<Rightarrow> Build shared)"

text \<open>Logging changes nothing, and one step makes one call.\<close>

lemma logged_step:
  "active ph \<Longrightarrow> branch_step (logged i b) shared ph s =
     (case branch_step b shared ph (fst s) of (ph', w') \<Rightarrow> (ph', (w', snd s @ [(i, call_of shared ph)])))"
  by (cases ph) (auto simp: active_def branch_step_def logged_def log_call_def call_of_def split: prod.splits sum.splits)

lemma branch_step_calls:
  assumes "exchange_calls shared ph cs" and "active ph" and "branch_step b shared ph w = (ph', w')"
  shows "exchange_calls shared ph' (cs @ [call_of shared ph])"
  using assms
  by (cases ph) (auto simp: active_def branch_step_def exchange_calls_def call_of_def refused_node_def
      split: prod.split_asm sum.split_asm)

lemma logged_nth: "i < length bs \<Longrightarrow> logged_branches bs ! i = logged i (bs ! i)" "length (logged_branches bs) = length bs"
  by (simp_all add: logged_branches_def nth_enumerate_eq)

lemma calls_of_snoc: "calls_of i (l @ [(j, c)]) = calls_of i l @ (if i = j then [c] else [])"
  by (simp add: calls_of_def)

lemma fanout_logged:
  assumes "fanout_steps bs shared (replicate (length bs) Waiting, w) n s"
  shows "\<exists>l. fanout_steps (logged_branches bs) shared (replicate (length bs) Waiting, (w, [])) n (fst s, (snd s, l)) \<and> length l = n \<and>
    length (fst s) = length bs \<and> (\<forall>i < length bs. exchange_calls shared (fst s ! i) (calls_of i l))"
  using assms
proof (induction "(replicate (length bs) Waiting, w)" n s rule: fanout_steps.induct)
  case none
  have "fanout_steps (logged_branches bs) shared (replicate (length bs) Waiting, (w, [])) 0 (replicate (length bs) Waiting, (w, []))"
    by (rule fanout_steps.none)
  then show ?case by (intro exI [of _ "[]"]) (auto simp: exchange_calls_def calls_of_def)
next
  case (step n ps v i ph v')
  then obtain l where l: "fanout_steps (logged_branches bs) shared (replicate (length bs) Waiting, (w, [])) n (ps, (v, l))"
      "length l = n" "length ps = length bs" "\<forall>j < length bs. exchange_calls shared (ps ! j) (calls_of j l)"
    by auto
  let ?l = "l @ [(i, call_of shared (ps ! i))]"
  have "branch_step (logged_branches bs ! i) shared (ps ! i) (v, l) = (ph, (v', ?l))"
    using step.hyps(3-5) by (simp add: logged_nth logged_step)
  then have "fanout_steps (logged_branches bs) shared (replicate (length bs) Waiting, (w, [])) (Suc n) (ps[i := ph], (v', ?l))"
    using step.hyps(3,4) by (intro fanout_steps.step [OF l(1)]) (simp_all add: logged_nth)
  moreover have "exchange_calls shared (ps[i := ph] ! j) (calls_of j ?l)" if "j < length bs" for j
    using that l(3,4) branch_step_calls [OF _ step.hyps(4,5)] by (auto simp: nth_list_update calls_of_snoc)
  ultimately show ?case using l(2,3) by (intro exI [of _ ?l]) simp
qed

section \<open>The merged order\<close>

lemma lin_sorted:
  assumes "\<And>y. y \<in> set xs \<Longrightarrow> C y \<inter> set xs = {}" and "sorted xs" and "distinct xs"
  shows "lin (\<lambda>x. x) C (set xs) xs"
  using assms
proof (induction xs)
  case (Cons x xs)
  have "set (x # xs) - {x} = set xs" using Cons.prems(3) by auto
  moreover have "lin (\<lambda>x. x) C (set xs) xs" using Cons by auto
  ultimately show ?case using Cons.prems(1,2) by auto
qed simp

text \<open>One cause shared by all the others comes first, and the others follow sorted.\<close>

lemma star_order:
  assumes d: "distinct (shared # ids)"
  shows "federation_reconcile (\<lparr>fn_id = shared, fn_causes = []\<rparr> # map (\<lambda>i. \<lparr>fn_id = i, fn_causes = [shared]\<rparr>) ids) = Inr (shared # sort ids)"
proof -
  let ?ns = "\<lparr>fn_id = shared, fn_causes = []\<rparr> # map (\<lambda>i. \<lparr>fn_id = i, fn_causes = [shared]\<rparr>) ids"
  let ?C = "causes_of (map graph_node ?ns)" and ?R = "node_id ` set (map graph_node ?ns)"
  have dn: "distinct (map node_id (map graph_node ?ns))" using d by (simp add: comp_def)
  have R: "?R = insert shared (set ids)" by (simp add: image_image)
  have C: "?C shared = {}" "\<And>i. i \<in> set ids \<Longrightarrow> ?C i = {shared}"
    using causes_of_node [OF dn, of "graph_node \<lparr>fn_id = shared, fn_causes = []\<rparr>"]
      causes_of_node [OF dn, of "graph_node \<lparr>fn_id = i, fn_causes = [shared]\<rparr>" for i] by auto
  have "lin (\<lambda>x. x) ?C (set (sort ids)) (sort ids)" by (rule lin_sorted) (use C d in auto)
  moreover have "?R - {shared} = set ids" using d R by auto
  ultimately have l: "lin (\<lambda>x. x) ?C ?R (shared # sort ids)"
    using C unfolding R by auto
  have "acyclic (id_edges (map graph_node ?ns))" unfolding id_edges_def by (rule lin_acyclic [OF l])
  then have "scope_ok ?ns" using d by (auto simp: scope_ok_def comp_def)
  note ok = scope_okD [OF this]
  obtain ys where y: "federation_reconcile ?ns = Inr ys" "lin (\<lambda>x. x) ?C ?R ys"
    using reconcile_lin [OF ok] unfolding federation_reconcile_eq by blast
  have "ys = shared # sort ids" by (rule lin_unique [OF _ y(2) l]) (simp add: inj_on_def)
  then show ?thesis using y(1) by simp
qed

definition attempt_ids :: "node_result list \<Rightarrow> bytes list" where
  "attempt_ids as = map (\<lambda>a. req_id (the (nr_request a))) (filter (\<lambda>a. nr_status a = Executed) as)"

lemma attempt_nodes:
  assumes "\<And>a. a \<in> set as \<Longrightarrow> nr_status a = Executed \<Longrightarrow> nr_request a \<noteq> None"
  shows "concat (map (attempt_node shared) as) = map (\<lambda>i. \<lparr>fn_id = i, fn_causes = [shared]\<rparr>) (attempt_ids as)"
  using assms by (induction as) (force simp: attempt_node_def attempt_ids_def)+

lemma finished_attempts: "List.map_filter (\<lambda>ph. case ph of Finished a \<Rightarrow> Some a | _ \<Rightarrow> None) (map Finished as) = as"
  by (induction as) (simp_all add: map_filter_def)

lemma fanout_all_finished:
  assumes "length as = length bs" and "\<forall>i < length bs. attempt_ok (bs ! i) shared (as ! i)" and "distinct (shared # attempt_ids as)"
  shows "fanout_outcome bs shared (map Finished as) r \<longleftrightarrow>
    r = Inr (zip (map br_agent_id bs) (map branch_result_of as), shared # sort (attempt_ids as))"
proof -
  have "nr_request a \<noteq> None" if "a \<in> set as" "nr_status a = Executed" for a
    using that assms(1,2) by (fastforce simp: in_set_conv_nth attempt_ok_def)
  then have nodes: "concat (map (attempt_node shared) as) = map (\<lambda>i. \<lparr>fn_id = i, fn_causes = [shared]\<rparr>) (attempt_ids as)"
    by (rule attempt_nodes)
  have "map (attempt_node shared \<circ> snd) (zip (map br_agent_id bs) as) = map (attempt_node shared) as"
    using assms(1) by (metis length_map map_map map_snd_zip)
  then have "fanout_result shared (zip (map br_agent_id bs) as)
      = Inr (map (\<lambda>(i, a). (i, branch_result_of a)) (zip (map br_agent_id bs) as), shared # sort (attempt_ids as))"
    using star_order [OF assms(3)] nodes by (simp add: fanout_result_def)
  moreover have "\<not> (\<exists>e. Crashed e \<in> set (map Finished as))" by auto
  ultimately show ?thesis
    using finished_attempts [of as] unfolding fanout_outcome_def by (simp add: zip_map2)
qed

section \<open>Properties of several agents\<close>

text \<open>The chain of a pipeline: the stages before the first failure were executed, the failing one is refused and all after it are
  blocked; every request that was made names exactly the request of the stage before it as its cause, the first none; and a stage after
  the first failure has no effect at all, since the pipeline cut off there ends in the same state with the same results.\<close>

theorem pipeline_chain_sound:
  assumes "run_pipeline ss w = (Inr rs, w')"
  shows "map fst rs = map sg_agent_id ss \<and> stage_chain ss None (map snd rs) \<and>
    (\<forall>k < length rs. nr_status (snd (rs ! k)) \<noteq> Executed \<longrightarrow> run_pipeline (take (Suc k) ss) w = (Inr (take (Suc k) rs), w'))"
proof -
  obtain qs where q: "pipeline_stages ss None None False w = (Inr qs, w')" "rs = zip (map sg_agent_id ss) qs"
    using assms by (auto simp: run_pipeline_def rbind_eq_Inr split: prod.split_asm)
  note c = pipeline_stages_chain [OF q(1)]
  then have len: "length qs = length ss" by (simp add: stage_chain_def)
  have "run_pipeline (take (Suc k) ss) w = (Inr (take (Suc k) rs), w')"
    if k: "k < length rs" "nr_status (snd (rs ! k)) \<noteq> Executed" for k
  proof -
    have "pipeline_stages (take (Suc k) ss @ drop (Suc k) ss) None None False w = (Inr (take (Suc k) qs @ drop (Suc k) qs), w')"
      using q(1) by simp
    then have "pipeline_stages (take (Suc k) ss) None None False w = (Inr (take (Suc k) qs), w')"
      by (rule pipeline_cut) (use k q(2) len in \<open>auto simp: take_Suc_conv_app_nth\<close>)
    then show ?thesis using q(2) by (simp add: run_pipeline_def take_zip take_map)
  qed
  then show ?thesis using q(2) c len by simp
qed

definition sample_stage :: "unit stage" where
  "sample_stage = \<lparr>sg_agent_id = [97], sg_bridge = react_agent sample_prims sample_bridge, sg_executor = (\<lambda>rq w. (Inl ValueError, w)),
     sg_build_action = (\<lambda>ob w. (Inr sample_react_action, w))\<rparr>"

theorem pipeline_chain_sound_witness:
  "\<exists>rs w'. run_pipeline [sample_stage, sample_stage] () = (Inr rs, w') \<and> run_pipeline [sample_stage] () = (Inr (take 1 rs), w') \<and>
     map (nr_status \<circ> snd) rs = [Refused, Blocked]"
proof -
  obtain rq where r: "action_to_request sample_prims sample_bridge sample_react_action () = (Inr rq, ())"
    using sample_request by (cases "action_to_request sample_prims sample_bridge sample_react_action ()") (auto simp: is_ok_iff)
  have a: "sample_react_action\<lparr>ac_causes := []\<rparr> = sample_react_action" by (simp add: sample_react_action_def)
  let ?rs = "[([97], \<lparr>nr_status = Refused, nr_request = Some rq, nr_observation = None\<rparr>), ([97], blocked_node)]"
  have run: "run_pipeline [sample_stage, sample_stage] () = (Inr ?rs, ())"
    by (simp add: run_pipeline_def sample_stage_def stage_request_def react_agent_def exchange_def a r)
  from pipeline_chain_sound [OF run] run show ?thesis by (auto simp: blocked_node_def)
qed

text \<open>C23: A fan-out ends, performs each branch's exchange once, and is deterministic although its branches run concurrently.
  Whatever the interleaving, it makes at most four calls per branch and can go on as long as a branch has not ended, so every
  interleaving ends. The calls of each branch, as a log put around the branches shows them, are exactly those of one exchange, cut
  off where it was refused: built once, requested once with the shared input as the only cause, executed once with that request,
  observed once. When no branch crashed and the executed requests differ, the outcome is this and no other: every branch's result in
  the order of the branches, and an order that is the shared input followed by the requests of the executed branches, ascending.\<close>

theorem fanout_order_deterministic:
  assumes "fanout_steps bs shared (replicate (length bs) Waiting, w) n (ps, w')"
  shows "n \<le> 4 * length bs \<and>
    ((\<exists>ph \<in> set ps. active ph) \<longrightarrow> (\<exists>s. fanout_steps bs shared (replicate (length bs) Waiting, w) (Suc n) s)) \<and>
    (\<exists>l. fanout_steps (logged_branches bs) shared (replicate (length bs) Waiting, (w, [])) n (ps, (w', l)) \<and> length l = n \<and>
       (\<forall>i < length bs. exchange_calls shared (ps ! i) (calls_of i l))) \<and>
    (\<forall>as r. ps = map Finished as \<and> distinct (shared # attempt_ids as) \<longrightarrow>
       (\<forall>i < length bs. attempt_ok (bs ! i) shared (as ! i)) \<and>
       (fanout_outcome bs shared ps r \<longleftrightarrow>
          r = Inr (zip (map br_agent_id bs) (map branch_result_of as), shared # sort (attempt_ids as))))"
proof (intro conjI impI allI)
  have "sum_list (map steps_left (replicate (length bs) Waiting)) = 4 * length bs" by (simp add: steps_left_def sum_list_replicate)
  then show "n \<le> 4 * length bs" using fanout_steps_bound [OF assms] by simp
  show "\<exists>s. fanout_steps bs shared (replicate (length bs) Waiting, w) (Suc n) s" if ex: "\<exists>ph \<in> set ps. active ph"
  proof -
    obtain i where i: "i < length bs" "active (ps ! i)" using ex fanout_steps_ok [OF assms] by (auto simp: in_set_conv_nth)
    obtain ph v where "branch_step (bs ! i) shared (ps ! i) w' = (ph, v)" by fastforce
    then show ?thesis using fanout_steps.step [OF assms i] by blast
  qed
  show "\<exists>l. fanout_steps (logged_branches bs) shared (replicate (length bs) Waiting, (w, [])) n (ps, (w', l)) \<and> length l = n \<and>
       (\<forall>i < length bs. exchange_calls shared (ps ! i) (calls_of i l))"
    using fanout_logged [OF assms] by auto
next
  fix as r
  assume as: "ps = map Finished as \<and> distinct (shared # attempt_ids as)"
  then have at: "length as = length bs" "\<forall>i < length bs. attempt_ok (bs ! i) shared (as ! i)"
    using fanout_steps_ok [OF assms] by (auto simp: phase_ok_def)
  then show "attempt_ok (bs ! i) shared (as ! i)" if "i < length bs" for i using that by blast
  show "fanout_outcome bs shared ps r \<longleftrightarrow>
      r = Inr (zip (map br_agent_id bs) (map branch_result_of as), shared # sort (attempt_ids as))"
    using fanout_all_finished [OF at] as by blast
qed

definition sample_branch :: "unit branch" where
  "sample_branch = \<lparr>br_agent_id = [97],
     br_bridge = \<lparr>ag_request = (\<lambda>a w. (Inr \<lparr>req_payload = [], req_id = [7]\<rparr>, w)), ag_observe = (\<lambda>resp rq w. (Inr \<lparr>ob_ok = True, ob_name = [], ob_body = None, ob_error = None\<rparr>, w))\<rparr>,
     br_executor = (\<lambda>rq w. (Inr [], w)), br_build_action = (\<lambda>i w. (Inr sample_react_action, w))\<rparr>"

definition sample_attempt :: node_result where
  "sample_attempt = \<lparr>nr_status = Executed, nr_request = Some \<lparr>req_payload = [], req_id = [7]\<rparr>,
     nr_observation = Some \<lparr>ob_ok = True, ob_name = [], ob_body = None, ob_error = None\<rparr>\<rparr>"

lemma sample_fanout: "fanout_steps [sample_branch] [9] ([Waiting], ()) 4 ([Finished sample_attempt], ())"
proof -
  let ?run = "\<lambda>n ph. fanout_steps [sample_branch] [9] ([Waiting], ()) n ([ph], ())"
  have go: "?run (Suc n) ph'" if "?run n ph" "active ph" "branch_step sample_branch [9] ph () = (ph', ())" for n ph ph'
    using fanout_steps.step [OF that(1), of 0 ph' "()"] that(2,3) by simp
  have "?run 0 Waiting" by (rule fanout_steps.none)
  then have "?run 1 (Built (sample_react_action\<lparr>ac_causes := [[9]]\<rparr>))"
    using go [of 0] by (simp add: active_def branch_step_def sample_branch_def)
  then have "?run 2 (Requested \<lparr>req_payload = [], req_id = [7]\<rparr>)"
    using go [of 1] by (simp add: active_def branch_step_def sample_branch_def numeral_2_eq_2)
  then have "?run 3 (Answered \<lparr>req_payload = [], req_id = [7]\<rparr> [])"
    using go [of 2] by (simp add: active_def branch_step_def sample_branch_def numeral_3_eq_3)
  then show "?run 4 (Finished sample_attempt)"
    using go [of 3] by (simp add: active_def branch_step_def sample_branch_def sample_attempt_def eval_nat_numeral)
qed

theorem fanout_order_deterministic_witness:
  "\<exists>l results. fanout_outcome [sample_branch] [9] [Finished sample_attempt] (Inr (results, [[9], [7]])) \<and> length results = 1 \<and>
     fanout_steps (logged_branches [sample_branch]) [9] ([Waiting], ((), [])) 4 ([Finished sample_attempt], ((), l)) \<and> length l = 4 \<and>
     (\<exists>a resp. calls_of 0 l = [Build [9], Request a, Execute \<lparr>req_payload = [], req_id = [7]\<rparr>, Observe \<lparr>req_payload = [], req_id = [7]\<rparr> resp])"
proof -
  have d: "distinct ([9] # attempt_ids [sample_attempt])" "shared # sort (attempt_ids [sample_attempt]) = [shared, [7]]" for shared
    by (simp_all add: attempt_ids_def sample_attempt_def)
  have s: "fanout_steps [sample_branch] [9] (replicate (length [sample_branch]) Waiting, ()) 4 ([Finished sample_attempt], ())"
    using sample_fanout by simp
  note det = fanout_order_deterministic [OF s]
  have out: "fanout_outcome [sample_branch] [9] [Finished sample_attempt]
      (Inr (zip (map br_agent_id [sample_branch]) (map branch_result_of [sample_attempt]), [[9], [7]]))"
    using conjunct2 [OF conjunct2 [OF conjunct2 [OF det]], rule_format, of "[sample_attempt]"] d by simp
  obtain l where l: "fanout_steps (logged_branches [sample_branch]) [9] ([Waiting], ((), [])) 4 ([Finished sample_attempt], ((), l))"
      "length l = 4" "exchange_calls [9] (Finished sample_attempt) (calls_of 0 l)"
    using conjunct1 [OF conjunct2 [OF conjunct2 [OF det]]] by auto
  have "\<exists>a resp. calls_of 0 l = [Build [9], Request a, Execute \<lparr>req_payload = [], req_id = [7]\<rparr>, Observe \<lparr>req_payload = [], req_id = [7]\<rparr> resp]"
    using l(3) by (auto simp: exchange_calls_def sample_attempt_def)
  then show ?thesis
    using out l(1,2) by (intro exI [of _ l] exI [of _ "zip (map br_agent_id [sample_branch]) (map branch_result_of [sample_attempt])"]) simp
qed

end
