(* ===== verification/Validator.thy ===== *)
theory Validator
  imports Channels Envelope Bodies Streaming
begin

text \<open>
  The validator that is run before signing (\<^verbatim>\<open>ecosystem/naalp-validator\<close>): it collects every violation of a candidate object
  instead of stopping at the first. Candidates are objects with fields of the right Python types; what the code does with a
  field-keyed dictionary or a field of another type is not in the model.
\<close>

section \<open>The checks\<close>

record violation =
  vi_error :: string
  vi_field :: "string option"

abbreviation violates :: "bool \<Rightarrow> string \<Rightarrow> string option \<Rightarrow> violation list" where
  "violates c e f \<equiv> (if c then [\<lparr>vi_error = e, vi_field = f\<rparr>] else [])"

definition is_consume_once_kind :: "int \<Rightarrow> int \<Rightarrow> bool" where
  "is_consume_once_kind ch k \<longleftrightarrow> (ch, k) \<in> {(0x0004, 3)}"

definition uint_field_check :: "string \<Rightarrow> int \<Rightarrow> violation list" where
  "uint_field_check name v = violates (v < 0) ''Malformed'' (Some name)"

definition pair_count :: "ext_map \<Rightarrow> nat option" where
  "pair_count m = (if list_all (\<lambda>p. is_U (fst p)) m then Some (length m) else None)"

definition ext_ok :: "ext_map option \<Rightarrow> bool" where
  "ext_ok m = (case m of None \<Rightarrow> True | Some ps \<Rightarrow> pair_count ps \<noteq> None)"

definition uints_ok :: "obj \<Rightarrow> bool" where
  "uints_ok ob \<longleftrightarrow> 0 \<le> kind ob \<and> 0 \<le> channel ob \<and> 0 \<le> tier ob \<and> 0 \<le> created ob \<and> 0 \<le> effect ob \<and> 0 \<le> profile ob \<and> 0 \<le> suite ob"

definition field_violations :: "obj \<Rightarrow> violation list" where
  "field_violations ob =
     uint_field_check ''kind'' (kind ob) @ uint_field_check ''channel'' (channel ob) @ uint_field_check ''tier'' (tier ob) @
     uint_field_check ''created'' (created ob) @ uint_field_check ''effect'' (effect ob) @ uint_field_check ''profile'' (profile ob) @
     uint_field_check ''suite'' (suite ob) @
     violates (\<not> ext_ok (ext ob)) ''Malformed'' (Some ''ext'') @ violates (\<not> ext_ok (cext ob)) ''Malformed'' (Some ''cext'')"

definition range_violations :: "obj \<Rightarrow> violation list" where
  "range_violations ob =
     violates (0 \<le> channel ob \<and> channel ob > 19) ''RangeError'' (Some ''channel'') @
     violates (0 \<le> effect ob \<and> effect ob > DE) ''RangeError'' (Some ''effect'') @
     violates (0 \<le> profile ob \<and> \<not> (PROFILE_PUBLIC \<le> profile ob \<and> profile ob \<le> PROFILE_SOVEREIGN)) ''RangeError'' (Some ''profile'')"

definition count_violations :: "obj \<Rightarrow> violation list" where
  "count_violations ob =
     violates (length (causes ob) > MAX_CAUSES) ''TooManyCauses'' (Some ''causes'') @
     violates (case ext ob of None \<Rightarrow> False | Some ps \<Rightarrow> ext_ok (Some ps) \<and> length ps > MAX_EXT) ''TooManyExtensions'' (Some ''ext'') @
     violates (case cext ob of None \<Rightarrow> False | Some ps \<Rightarrow> ext_ok (Some ps) \<and> length ps > MAX_CEXT) ''TooManyExtensions'' (Some ''cext'')"

definition channel_in_range :: "obj \<Rightarrow> bool" where
  "channel_in_range ob \<longleftrightarrow> 0 \<le> channel ob \<and> channel ob \<le> 19"

definition registry_violations :: "obj \<Rightarrow> violation list" where
  "registry_violations ob =
     (if channel_in_range ob \<and> 0 \<le> kind ob then
        (case channel_lookup (channel ob) (kind ob) of
           Inl _ \<Rightarrow> [\<lparr>vi_error = ''UnknownKind'', vi_field = Some ''kind''\<rparr>]
         | Inr _ \<Rightarrow>
             if 0 \<le> effect ob \<and> effect ob \<le> DE
             then violates (check_effect (channel ob) (kind ob) (effect ob) \<noteq> Inr ()) ''EffectDeclarationMismatch'' (Some ''effect'')
             else [])
      else [])"

definition audience_violations :: "pystr option \<Rightarrow> obj \<Rightarrow> violation list" where
  "audience_violations self_authority ob =
     (if channel_in_range ob \<and> 0 \<le> kind ob then
        if is_consume_once_kind (channel ob) (kind ob) \<and> audience ob = [] then [\<lparr>vi_error = ''WrongAudience'', vi_field = Some ''audience''\<rparr>]
        else (case self_authority of
            None \<Rightarrow> []
          | Some who \<Rightarrow> violates (audience ob \<noteq> [] \<and> audience ob \<noteq> who) ''WrongAudience'' (Some ''audience''))
      else [])"

definition bound_violations :: "bytes \<Rightarrow> violation list res" where
  "bound_violations payload =
     (let large = violates (length payload > MAX_OBJECT_SIZE) ''TooLarge'' None in
      case decode_bounded payload MAX_NESTING_DEPTH of
        Inr _ \<Rightarrow> Inr large
      | Inl e \<Rightarrow>
          if e = DepthExceeded then Inr (large @ [\<lparr>vi_error = ''DepthExceeded'', vi_field = None\<rparr>])
          else if e = NonCanonical then Inr (large @ [\<lparr>vi_error = ''NonCanonical'', vi_field = None\<rparr>])
          else Inl e)"

text \<open>The body is encoded only when every field is well typed; the candidate's id, set to encode it, is put back afterwards.\<close>

definition encode_violations :: "prims \<Rightarrow> obj \<Rightarrow> violation list res" where
  "encode_violations P ob =
     (if uints_ok ob \<and> ext_ok (ext ob) \<and> ext_ok (cext ob) then
        (case assign_id P ob of
           Inr (_, payload) \<Rightarrow> bound_violations payload
         | Inl e \<Rightarrow>
             if e = NonCanonical then Inr [\<lparr>vi_error = ''NonCanonical'', vi_field = None\<rparr>]
             else if is_value_error e \<or> e = TypeError \<or> e = AttributeError then Inr [\<lparr>vi_error = ''Malformed'', vi_field = None\<rparr>]
             else Inl e)
      else Inr [])"

definition validate :: "prims \<Rightarrow> pystr option \<Rightarrow> obj \<Rightarrow> violation list res" where
  "validate P self_authority ob =
     rbind (encode_violations P ob) (\<lambda>vs.
       Inr (field_violations ob @ range_violations ob @ count_violations ob @ registry_violations ob @
         audience_violations self_authority ob @ vs))"

definition validation_errors :: "violation list \<Rightarrow> string list" where
  "validation_errors vs = fold (\<lambda>v seen. if vi_error v \<in> set seen then seen else seen @ [vi_error v]) vs []"

definition validate_stream_chunk_count :: "int \<Rightarrow> violation list" where
  "validate_stream_chunk_count n =
     (if n < 0 then [\<lparr>vi_error = ''Malformed'', vi_field = None\<rparr>]
      else violates (n > MAX_STREAM_CHUNKS) ''TooManyChunks'' None)"

record firewall_decision =
  fw_allow :: bool
  fw_violations :: "violation list"

definition pre_send_hook :: "prims \<Rightarrow> pystr option \<Rightarrow> obj \<Rightarrow> firewall_decision res" where
  "pre_send_hook P self_authority ob =
     rbind (validate P self_authority ob) (\<lambda>vs. Inr \<lparr>fw_allow = (vs = []), fw_violations = vs\<rparr>)"

section \<open>What a clean candidate is\<close>

lemma violates_Nil [simp]: "(if c then [x] else []) = [] \<longleftrightarrow> \<not> c"
  by simp

definition clean_fields :: "pystr option \<Rightarrow> obj \<Rightarrow> bool" where
  "clean_fields who ob \<longleftrightarrow>
     uints_ok ob \<and> ext_ok (ext ob) \<and> ext_ok (cext ob) \<and> channel ob \<le> 19 \<and> effect ob \<le> 3 \<and> 1 \<le> profile ob \<and> profile ob \<le> 3 \<and>
     within_counts ob \<and> check_effect (channel ob) (kind ob) (effect ob) = Inr () \<and>
     (is_consume_once_kind (channel ob) (kind ob) \<longrightarrow> audience ob \<noteq> []) \<and>
     (case who of None \<Rightarrow> True | Some w \<Rightarrow> audience ob = [] \<or> audience ob = w)"

lemma registered: "check_effect ch k e = Inr () \<Longrightarrow> is_ok (channel_lookup ch k)"
  by (auto simp: check_effect_def rbind_eq_Inr is_ok_iff)

lemma uint_checks: "uint_field_check n v = [] \<longleftrightarrow> 0 \<le> v"
  by (simp add: uint_field_check_def not_less)

lemma clean_fields_iff:
  "field_violations ob @ range_violations ob @ count_violations ob @ registry_violations ob @ audience_violations who ob = [] \<longleftrightarrow>
     clean_fields who ob"
proof (cases "uints_ok ob \<and> ext_ok (ext ob) \<and> ext_ok (cext ob)")
  case False
  then show ?thesis by (auto simp: field_violations_def uint_checks clean_fields_def uints_ok_def)
next
  case True
  have f: "field_violations ob = []" using True by (auto simp: field_violations_def uint_checks uints_ok_def)
  have r: "range_violations ob = [] \<longleftrightarrow> channel ob \<le> 19 \<and> effect ob \<le> 3 \<and> 1 \<le> profile ob \<and> profile ob \<le> 3"
    using True by (auto simp: range_violations_def uints_ok_def DE_def profile_defs)
  have c: "count_violations ob = [] \<longleftrightarrow> within_counts ob"
    using True by (auto simp: count_violations_def within_counts_def split: option.splits)
  have g: "registry_violations ob = [] \<longleftrightarrow> check_effect (channel ob) (kind ob) (effect ob) = Inr ()"
    if "channel ob \<le> 19" "effect ob \<le> 3"
    using True that registered [of "channel ob" "kind ob" "effect ob"]
    by (auto simp: registry_violations_def channel_in_range_def uints_ok_def DE_def is_ok_iff split: sum.splits)
  have a: "audience_violations who ob = [] \<longleftrightarrow>
      (is_consume_once_kind (channel ob) (kind ob) \<longrightarrow> audience ob \<noteq> []) \<and> (case who of None \<Rightarrow> True | Some w \<Rightarrow> audience ob = [] \<or> audience ob = w)"
    if "channel ob \<le> 19"
    using True that by (auto simp: audience_violations_def channel_in_range_def uints_ok_def split: option.splits)
  show ?thesis using True f r c g a by (auto simp: clean_fields_def)
qed

definition body_fits :: "prims \<Rightarrow> obj \<Rightarrow> bool" where
  "body_fits P ob \<longleftrightarrow>
     (\<exists>x payload. assign_id P ob = Inr (x, payload) \<and> length payload \<le> MAX_OBJECT_SIZE) \<and>
     nesting (M ((U FIELD_ID, B []) # body_fields ob)) \<le> MAX_NESTING_DEPTH"

lemma assign_id_errors: "assign_id P ob = Inl e \<Longrightarrow> e \<in> {NonCanonical, ValueError, OverflowError, UnicodeEncodeError}"
  using encode_errors(1)
  by (auto simp: assign_id_def object_content_id_def body_map_def content_id_def Let_def rbind_eq_Inl simp del: encode.simps)

lemma bound_violations_signed:
  assumes "assign_id P ob = Inr (x, payload)"
  shows "bound_violations payload = Inr (violates (length payload > MAX_OBJECT_SIZE) ''TooLarge'' None @
    violates (nesting (M ((U FIELD_ID, B []) # body_fields ob)) > MAX_NESTING_DEPTH) ''DepthExceeded'' None)"
proof -
  obtain i where "encode (M ((U FIELD_ID, B i) # body_fields ob)) = Inr payload" using assms by (rule assign_id_Inr)
  from decode_bounded_encode [OF this, of MAX_NESTING_DEPTH]
  show ?thesis by (simp add: bound_violations_def Let_def)
qed

lemma encode_violations_iff:
  assumes "uints_ok ob \<and> ext_ok (ext ob) \<and> ext_ok (cext ob)"
  shows "encode_violations P ob = Inr [] \<longleftrightarrow> body_fits P ob"
proof (cases "assign_id P ob")
  case (Inl e)
  then show ?thesis using assms by (auto simp: encode_violations_def body_fits_def)
next
  case (Inr y)
  obtain x payload where "y = (x, payload)" by fastforce
  then show ?thesis using assms Inr bound_violations_signed [of P ob x payload] by (auto simp: encode_violations_def body_fits_def not_less)
qed

section \<open>The rules, one by one\<close>

text \<open>
  A candidate whose numbers are natural and whose extensions have natural keys can be encoded; the rules on its bytes apply to it
  alone. The registry rules apply to a channel of the table and a natural kind.
\<close>

definition well_typed :: "obj \<Rightarrow> bool" where
  "well_typed ob \<longleftrightarrow> uints_ok ob \<and> ext_ok (ext ob) \<and> ext_ok (cext ob)"

definition kind_known :: "obj \<Rightarrow> bool" where
  "kind_known ob \<longleftrightarrow> is_ok (channel_lookup (channel ob) (kind ob))"

definition too_many :: "ext_map option \<Rightarrow> nat \<Rightarrow> bool" where
  "too_many m bound \<longleftrightarrow> (case m of None \<Rightarrow> False | Some ps \<Rightarrow> list_all (\<lambda>p. is_U (fst p)) ps \<and> bound < length ps)"

definition wrong_keys :: "ext_map option \<Rightarrow> bool" where
  "wrong_keys m \<longleftrightarrow> (case m of None \<Rightarrow> False | Some ps \<Rightarrow> \<not> list_all (\<lambda>p. is_U (fst p)) ps)"

definition undeclared_effect :: "obj \<Rightarrow> bool" where
  "undeclared_effect ob \<longleftrightarrow>
     (case channel_lookup (channel ob) (kind ob) of Inl _ \<Rightarrow> False | Inr (_, declared, variable) \<Rightarrow> \<not> variable \<and> effect ob \<noteq> declared)"

text \<open>The rules in the order in which violations are reported, each with the error it names, the field and the condition that breaks it.\<close>

definition rules :: "prims \<Rightarrow> pystr option \<Rightarrow> obj \<Rightarrow> (string \<times> string option \<times> bool) list" where
  "rules P who ob =
     (let registry = (0 \<le> channel ob \<and> channel ob \<le> 19 \<and> 0 \<le> kind ob); bytes = assign_id P ob in
      [(''Malformed'', Some ''kind'', kind ob < 0), (''Malformed'', Some ''channel'', channel ob < 0),
       (''Malformed'', Some ''tier'', tier ob < 0), (''Malformed'', Some ''created'', created ob < 0),
       (''Malformed'', Some ''effect'', effect ob < 0), (''Malformed'', Some ''profile'', profile ob < 0),
       (''Malformed'', Some ''suite'', suite ob < 0),
       (''Malformed'', Some ''ext'', wrong_keys (ext ob)), (''Malformed'', Some ''cext'', wrong_keys (cext ob)),
       (''RangeError'', Some ''channel'', 19 < channel ob), (''RangeError'', Some ''effect'', 3 < effect ob),
       (''RangeError'', Some ''profile'', profile ob = 0 \<or> 3 < profile ob),
       (''TooManyCauses'', Some ''causes'', 1024 < length (causes ob)),
       (''TooManyExtensions'', Some ''ext'', too_many (ext ob) 64), (''TooManyExtensions'', Some ''cext'', too_many (cext ob) 64),
       (''UnknownKind'', Some ''kind'', registry \<and> \<not> kind_known ob),
       (''EffectDeclarationMismatch'', Some ''effect'', registry \<and> 0 \<le> effect ob \<and> effect ob \<le> 3 \<and> undeclared_effect ob),
       (''WrongAudience'', Some ''audience'', registry \<and>
          (if audience ob = [] then channel ob = 4 \<and> kind ob = 3 else who \<noteq> None \<and> who \<noteq> Some (audience ob))),
       (''NonCanonical'', None, well_typed ob \<and> bytes = Inl NonCanonical),
       (''Malformed'', None, well_typed ob \<and> (bytes = Inl ValueError \<or> bytes = Inl UnicodeEncodeError)),
       (''TooLarge'', None, well_typed ob \<and> (case bytes of Inl _ \<Rightarrow> False | Inr (_, payload) \<Rightarrow> 1048576 < length payload)),
       (''DepthExceeded'', None, well_typed ob \<and> is_ok bytes \<and> 16 < nesting (M ((U FIELD_ID, B []) # body_fields ob)))])"

definition broken :: "(string \<times> string option \<times> bool) list \<Rightarrow> violation list" where
  "broken rs = map (\<lambda>(e, f, _). \<lparr>vi_error = e, vi_field = f\<rparr>) (filter (\<lambda>(_, _, c). c) rs)"

lemma broken_simps [simp]:
  "broken [] = []" "broken ((e, f, c) # rs) = (if c then [\<lparr>vi_error = e, vi_field = f\<rparr>] else []) @ broken rs"
  "broken (rs @ qs) = broken rs @ broken qs"
  by (simp_all add: broken_def)

lemma wrong_keys_iff: "wrong_keys m \<longleftrightarrow> \<not> ext_ok m"
  by (auto simp: wrong_keys_def ext_ok_def pair_count_def split: option.splits)

lemma too_many_iff: "too_many m n \<longleftrightarrow> (case m of None \<Rightarrow> False | Some ps \<Rightarrow> ext_ok (Some ps) \<and> length ps > n)"
  by (auto simp: too_many_def ext_ok_def pair_count_def split: option.splits)

lemma undeclared_effect_iff:
  "effect ob \<le> 3 \<Longrightarrow> kind_known ob \<Longrightarrow> undeclared_effect ob \<longleftrightarrow> check_effect (channel ob) (kind ob) (effect ob) \<noteq> Inr ()"
  by (auto simp: undeclared_effect_def check_effect_def kind_known_def is_ok_iff DE_def split: sum.splits)

text \<open>The checks of the code, group by group, are the rules.\<close>

lemma field_rules:
  "field_violations ob = broken [(''Malformed'', Some ''kind'', kind ob < 0), (''Malformed'', Some ''channel'', channel ob < 0),
     (''Malformed'', Some ''tier'', tier ob < 0), (''Malformed'', Some ''created'', created ob < 0),
     (''Malformed'', Some ''effect'', effect ob < 0), (''Malformed'', Some ''profile'', profile ob < 0),
     (''Malformed'', Some ''suite'', suite ob < 0),
     (''Malformed'', Some ''ext'', wrong_keys (ext ob)), (''Malformed'', Some ''cext'', wrong_keys (cext ob))]"
  by (simp only: field_violations_def uint_field_check_def wrong_keys_iff broken_simps append_assoc append_Nil2)

lemma range_rules:
  "range_violations ob = broken [(''RangeError'', Some ''channel'', 19 < channel ob), (''RangeError'', Some ''effect'', 3 < effect ob),
     (''RangeError'', Some ''profile'', profile ob = 0 \<or> 3 < profile ob)]"
  by (auto simp: range_violations_def DE_def profile_defs)

lemma count_rules:
  "count_violations ob = broken [(''TooManyCauses'', Some ''causes'', 1024 < length (causes ob)),
     (''TooManyExtensions'', Some ''ext'', too_many (ext ob) 64), (''TooManyExtensions'', Some ''cext'', too_many (cext ob) 64)]"
  unfolding count_violations_def too_many_iff MAX_CAUSES_def MAX_EXT_def MAX_CEXT_def broken_simps append_assoc append_Nil2 ..

lemma registry_rules:
  "registry_violations ob = broken [
     (''UnknownKind'', Some ''kind'', (0 \<le> channel ob \<and> channel ob \<le> 19 \<and> 0 \<le> kind ob) \<and> \<not> kind_known ob),
     (''EffectDeclarationMismatch'', Some ''effect'',
        (0 \<le> channel ob \<and> channel ob \<le> 19 \<and> 0 \<le> kind ob) \<and> 0 \<le> effect ob \<and> effect ob \<le> 3 \<and> undeclared_effect ob)]"
proof (cases "channel_lookup (channel ob) (kind ob)")
  case (Inl e)
  then show ?thesis by (simp add: registry_violations_def channel_in_range_def kind_known_def undeclared_effect_def)
next
  case (Inr d)
  then show ?thesis
    using undeclared_effect_iff [of ob] by (auto simp: registry_violations_def channel_in_range_def kind_known_def DE_def)
qed

lemma audience_rules:
  "audience_violations who ob = broken [(''WrongAudience'', Some ''audience'', (0 \<le> channel ob \<and> channel ob \<le> 19 \<and> 0 \<le> kind ob) \<and>
     (if audience ob = [] then channel ob = 4 \<and> kind ob = 3 else who \<noteq> None \<and> who \<noteq> Some (audience ob)))]"
  by (cases who) (auto simp: audience_violations_def channel_in_range_def is_consume_once_kind_def)

lemma encode_rules:
  "encode_violations P ob =
     (if well_typed ob \<and> assign_id P ob = Inl OverflowError then Inl OverflowError
      else Inr (broken [(''NonCanonical'', None, well_typed ob \<and> assign_id P ob = Inl NonCanonical),
       (''Malformed'', None, well_typed ob \<and> (assign_id P ob = Inl ValueError \<or> assign_id P ob = Inl UnicodeEncodeError)),
       (''TooLarge'', None, well_typed ob \<and> (case assign_id P ob of Inl _ \<Rightarrow> False | Inr (_, payload) \<Rightarrow> 1048576 < length payload)),
       (''DepthExceeded'', None, well_typed ob \<and> is_ok (assign_id P ob) \<and> 16 < nesting (M ((U FIELD_ID, B []) # body_fields ob)))]))"
proof (cases "assign_id P ob")
  case (Inl e)
  then show ?thesis
    using assign_id_errors [OF Inl] by (auto simp: encode_violations_def well_typed_def is_value_error_def)
next
  case (Inr y)
  obtain x payload where "y = (x, payload)" by fastforce
  then show ?thesis
    using Inr bound_violations_signed [of P ob x payload]
    by (auto simp add: encode_violations_def well_typed_def MAX_OBJECT_SIZE_def MAX_NESTING_DEPTH_def simp del: nesting.simps)
qed

lemma validate_rules:
  "validate P who ob =
     (if well_typed ob \<and> assign_id P ob = Inl OverflowError then Inl OverflowError else Inr (broken (rules P who ob)))"
  unfolding validate_def field_rules range_rules count_rules registry_rules audience_rules encode_rules rules_def Let_def
  by (simp add: rbind_def del: nesting.simps)

section \<open>Properties of the validator\<close>

text \<open>C29: The report is exact. The rules of the module are listed once, in order, each with the error and the field it reports and the
  condition that breaks it: negative numbers and extension keys, ranges, counts, an unregistered kind, an effect the registry does not
  declare for the kind, a missing or foreign audience, and an encoding that is not canonical, malformed, too large or nested too deep.
  For every candidate the validator returns precisely the violations of the rules the candidate breaks, in that order, no other and none
  left out; the report is empty exactly when the fields are clean and the body fits. The one exception: a number of a well typed
  candidate with no 64-bit encoding makes it raise OverflowError instead of reporting a violation.\<close>

theorem validate_exact:
  "validate P who ob =
     (if well_typed ob \<and> assign_id P ob = Inl OverflowError then Inl OverflowError else Inr (broken (rules P who ob))) \<and>
   (validate P who ob = Inr [] \<longleftrightarrow> clean_fields who ob \<and> body_fits P ob)"
proof
  show "validate P who ob =
     (if well_typed ob \<and> assign_id P ob = Inl OverflowError then Inl OverflowError else Inr (broken (rules P who ob)))"
    by (rule validate_rules)
  have "validate P who ob = Inr [] \<longleftrightarrow> encode_violations P ob = Inr [] \<and>
      field_violations ob @ range_violations ob @ count_violations ob @ registry_violations ob @ audience_violations who ob = []"
    by (auto simp: validate_def rbind_eq_Inr)
  also have "\<dots> \<longleftrightarrow> clean_fields who ob \<and> body_fits P ob"
    unfolding clean_fields_iff using encode_violations_iff [of ob P] by (auto simp: clean_fields_def)
  finally show "validate P who ob = Inr [] \<longleftrightarrow> clean_fields who ob \<and> body_fits P ob" .
qed

text \<open>Nothing that passes is refused later for its content: a candidate the pre-send hook allows, once signed, verifies under the
  signer's key at any verifier of the kind registry, provided the signed bytes fit the size bound (which the hook measures without the
  signature), its critical extensions are understood, the algorithm reaches the verifier's profile, and it is not a key rotation, which has
  a verifier of its own.\<close>

theorem validated_object_verifies:
  assumes "md_correct P" and "pre_send_hook P who ob = Inr d" and "fw_allow d" and "sign P ob alg seed = Inr (x1, bs)"
    and "md_key_derive P alg seed = Inr (pk, sk)" and "length bs \<le> MAX_OBJECT_SIZE" and "suite ob = 0"
    and "profile_min_level vp \<le> fst (alg_level alg)" and "check_cext known_cext (canon_obj ob) = Inr ()"
    and "\<not> is_rotation_object (channel ob) (kind ob)"
  shows "verify P vp va pk (Some (\<lambda>ch k. is_ok (channel_lookup ch k))) bs known_cext = Inr (canon_obj x1)"
proof (rule sign_verify [OF assms(1,4,5,6) _ assms(7,8)])
  have "validate P who ob = Inr []" using assms(2,3) by (auto simp: pre_send_hook_def rbind_eq_Inr)
  then have "clean_fields who ob" "body_fits P ob"
    unfolding validate_def using encode_violations_iff [of ob P] clean_fields_iff [of ob who] by (auto simp: rbind_eq_Inr clean_fields_def)
  then show "acceptable (Some (\<lambda>ch k. is_ok (channel_lookup ch k))) known_cext ob"
    using assms(9,10) registered by (auto simp: acceptable_def clean_fields_def body_fits_def check_kind_def)
qed

definition sample_candidate :: obj where
  "sample_candidate = sample_obj\<lparr>effect := 2\<rparr>"

lemma sample_candidate_allowed: "pre_send_hook sample_prims None sample_candidate = Inr \<lparr>fw_allow = True, fw_violations = []\<rparr>"
proof -
  have "case assign_id sample_prims sample_candidate of Inl _ \<Rightarrow> False | Inr (x, payload) \<Rightarrow> length payload \<le> 300" by code_simp
  then obtain x payload where a: "assign_id sample_prims sample_candidate = Inr (x, payload)" "length payload \<le> 300"
    by (auto split: sum.split_asm)
  have n: "nesting (M ((U FIELD_ID, B []) # body_fields sample_candidate)) \<le> MAX_NESTING_DEPTH" by code_simp
  have fit: "body_fits sample_prims sample_candidate" using a n unfolding body_fits_def by (auto simp: MAX_OBJECT_SIZE_def)
  have e: "check_effect 4 1 2 = Inr ()" by code_simp
  have "clean_fields None sample_candidate"
    using e by (simp add: clean_fields_def sample_candidate_def sample_obj_def uints_ok_def ext_ok_def pair_count_def within_counts_def
        MAX_CAUSES_def MAX_EXT_def is_consume_once_kind_def)
  then show ?thesis
    using clean_fields_iff [of sample_candidate None] encode_violations_iff [of sample_candidate sample_prims] fit
    by (simp add: pre_send_hook_def validate_def clean_fields_def)
qed

theorem validated_object_verifies_witness:
  "\<exists>x1 bs. sign sample_prims sample_candidate (- 49) [5] = Inr (x1, bs) \<and>
     verify sample_prims 1 (- 49) [5] (Some (\<lambda>ch k. is_ok (channel_lookup ch k))) bs [] = Inr (canon_obj x1)"
proof -
  have "case sign sample_prims sample_candidate (- 49) [5] of Inl _ \<Rightarrow> False | Inr (x1, bs) \<Rightarrow> length bs \<le> 300" by code_simp
  then obtain x1 bs where s: "sign sample_prims sample_candidate (- 49) [5] = Inr (x1, bs)" "length bs \<le> MAX_OBJECT_SIZE"
    by (auto simp: MAX_OBJECT_SIZE_def split: sum.split_asm)
  have "verify sample_prims 1 (- 49) [5] (Some (\<lambda>ch k. is_ok (channel_lookup ch k))) bs [] = Inr (canon_obj x1)"
    by (rule validated_object_verifies [OF sample_prims_correct(1) sample_candidate_allowed _ s(1) sample_prims_sel(4) s(2)])
      (simp_all add: sample_candidate_def sample_level check_cext_def canon_obj_def is_rotation_object_def sample_obj_def
        profile_min_level_def alg_level_def alg_defs profile_defs)
  with s show ?thesis by blast
qed

end
