(* ===== verification/Governance.thy ===== *)
theory Governance
  imports Ez Ready Wal
begin

text \<open>
  The recorder of a governed session (\<^verbatim>\<open>ChainRecorder\<close> in \<^verbatim>\<open>ecosystem/naalp-mcp-hook\<close> and \<^verbatim>\<open>ecosystem/naalp-adk-plugin\<close>)
  and the offline verifier of its log (\<^verbatim>\<open>ecosystem/naalp-governance-verify\<close>): every object must verify, every cause must be an
  earlier object of the log, and the chain is replayed in causal order.
\<close>

section \<open>The recorder\<close>

record chain_recorder =
  cr_stream :: bytes
  cr_last_id :: "pystr \<rightharpoonup> bytes"

definition recorder_append :: "chain_recorder \<Rightarrow> pystr \<Rightarrow> bytes \<Rightarrow> bytes \<Rightarrow> chain_recorder res" where
  "recorder_append r session_key sb cid =
     (if cid = [] then Inl TypeError
      else rbind (frame StructError sb) (\<lambda>rec. Inr (r\<lparr>cr_stream := cr_stream r @ rec, cr_last_id := (cr_last_id r)(session_key \<mapsto> cid)\<rparr>)))"

definition last_cause :: "chain_recorder \<Rightarrow> pystr \<Rightarrow> bytes list" where
  "last_cause r session_key = (case cr_last_id r session_key of None \<Rightarrow> [] | Some prev \<Rightarrow> [prev])"

definition recorder_read_all :: "bytes \<Rightarrow> bytes list res" where
  "recorder_read_all stream = replay_log ValueError (\<lambda>records rec. Inr (records @ [rec])) [] stream"

section \<open>Capturing tool calls\<close>

text \<open>
  The adapters sign through \<^verbatim>\<open>naalp_kit.binding\<close>, which is not part of the repository: its three operations, with the adapter's signer
  and grant applied, are the record \<open>kit\<close>.
\<close>

definition BRIDGE_CHANNEL :: int where "BRIDGE_CHANNEL = 0x000D"
definition KIND_CARRIAGE :: int where "KIND_CARRIAGE = 0"

record captured_action =
  ca_channel :: int
  ca_kind :: int
  ca_payload :: bytes
  ca_effect :: "int option"
  ca_causes :: "bytes list"

record verified_action =
  va_content_id :: bytes
  va_effect :: int

record kit =
  sign_action :: "captured_action \<Rightarrow> bytes res"
  verify_action :: "bytes \<Rightarrow> verified_action res"
  authorize_action :: "verified_action \<Rightarrow> unit res"

definition capture_and_record :: "kit \<Rightarrow> chain_recorder \<Rightarrow> pystr \<Rightarrow> bytes \<Rightarrow> int option \<Rightarrow> (verified_action \<times> chain_recorder) res" where
  "capture_and_record K r session_key payload eff =
     rbind (sign_action K \<lparr>ca_channel = BRIDGE_CHANNEL, ca_kind = KIND_CARRIAGE, ca_payload = payload, ca_effect = eff,
         ca_causes = last_cause r session_key\<rparr>) (\<lambda>sb.
       rbind (verify_action K sb) (\<lambda>v.
         rbind (recorder_append r session_key sb (va_content_id v)) (\<lambda>r'. Inr (v, r'))))"

text \<open>
  One outbound call: \<open>tc_run\<close> is the request to the server, with what it does to the rest of the world, \<open>tc_payload\<close> and
  \<open>tc_result_payload\<close> the serialised call and result, \<open>tc_effect\<close> the classifier's answer. Without gating the grant is not asked.
\<close>

record ('r, 'w) governed_call =
  tc_session :: pystr
  tc_payload :: bytes
  tc_effect :: "int option"
  tc_run :: "'w \<Rightarrow> 'r res \<times> 'w"
  tc_result_payload :: "'r \<Rightarrow> bytes"

datatype 'r tool_outcome = Denied exn | Returned 'r

definition gate_call :: "kit \<Rightarrow> bool \<Rightarrow> verified_action \<Rightarrow> exn option res" where
  "gate_call K gating v =
     (if \<not> gating then Inr None
      else case authorize_action K v of Inr _ \<Rightarrow> Inr None | Inl (PolicyError k) \<Rightarrow> Inr (Some (PolicyError k)) | Inl e \<Rightarrow> Inl e)"

definition call_tool :: "kit \<Rightarrow> bool \<Rightarrow> ('r, 'w) governed_call \<Rightarrow> chain_recorder \<Rightarrow> 'w \<Rightarrow> 'r tool_outcome res \<times> chain_recorder \<times> 'w" where
  "call_tool K gating c r w =
     (case capture_and_record K r (tc_session c) (tc_payload c) (tc_effect c) of
        Inl e \<Rightarrow> (Inl e, r, w)
      | Inr (v, r1) \<Rightarrow>
          (case gate_call K gating v of
             Inl e \<Rightarrow> (Inl e, r1, w)
           | Inr (Some e) \<Rightarrow> (Inr (Denied e), r1, w)
           | Inr None \<Rightarrow>
               (case tc_run c w of
                  (Inl e, w1) \<Rightarrow> (Inl e, r1, w1)
                | (Inr x, w1) \<Rightarrow>
                    (case capture_and_record K r1 (tc_session c) (tc_result_payload c x) (tc_effect c) of
                       Inl e \<Rightarrow> (Inl e, r1, w1)
                     | Inr (_, r2) \<Rightarrow> (Inr (Returned x), r2, w1)))))"

text \<open>The callbacks of the second adapter: before a tool runs, and after it or on an event.\<close>

definition before_tool_callback ::
    "kit \<Rightarrow> bool \<Rightarrow> chain_recorder \<Rightarrow> pystr \<Rightarrow> bytes \<Rightarrow> int option \<Rightarrow> exn option res \<times> chain_recorder" where
  "before_tool_callback K gating r session_key payload eff =
     (case capture_and_record K r session_key payload eff of
        Inl e \<Rightarrow> (Inl e, r)
      | Inr (v, r1) \<Rightarrow> (gate_call K gating v, r1))"

definition after_tool_callback :: "kit \<Rightarrow> chain_recorder \<Rightarrow> pystr \<Rightarrow> bytes \<Rightarrow> int option \<Rightarrow> unit res \<times> chain_recorder" where
  "after_tool_callback K r session_key payload eff =
     (case capture_and_record K r session_key payload eff of Inl e \<Rightarrow> (Inl e, r) | Inr (_, r1) \<Rightarrow> (Inr (), r1))"

definition on_event_callback :: "kit \<Rightarrow> chain_recorder \<Rightarrow> pystr \<Rightarrow> bytes \<Rightarrow> unit res \<times> chain_recorder" where
  "on_event_callback K r session_key payload = after_tool_callback K r session_key payload None"

section \<open>Reading a log\<close>

text \<open>The errors of the verifier, with the position of the record they are about; \<open>SignatureInvalid\<close> keeps its cause.\<close>

datatype chain_error =
    LogMalformed nat | SignatureInvalid nat exn | UnresolvedSigner nat | BrokenReferent nat | ChainOrderBroken "nat option"

function read_log_from :: "nat \<Rightarrow> bytes \<Rightarrow> chain_error + bytes list" where
  "read_log_from i file =
     (let header = take 4 file in
      if header = [] then Inr []
      else if length header \<noteq> 4 then Inl (LogMalformed i)
      else
        let n = be_nat header; payload = take n (drop 4 file) in
        if length payload \<noteq> n then Inl (LogMalformed i)
        else rbind (read_log_from (Suc i) (drop (4 + n) file)) (\<lambda>rs. Inr (payload # rs)))"
  by pat_completeness auto
termination
  by (relation "measure (\<lambda>(_, file). length file)") auto

declare read_log_from.simps [simp del]

definition read_log :: "bytes \<Rightarrow> chain_error + bytes list" where
  "read_log file = read_log_from 0 file"

section \<open>Verifying the records\<close>

text \<open>The caller's keys: one for the whole chain, or one for each signer.\<close>

datatype pubkey_resolver = OneKey bytes | KeyFor "bytes \<Rightarrow> bytes option"

record verified_link =
  vl_index :: nat
  vl_content_id :: bytes
  vl_channel :: int
  vl_kind :: int
  vl_effect :: int
  vl_signer :: bytes
  vl_created :: int
  vl_body :: cbor
  vl_causes :: "bytes list"
  vl_raw :: bytes

text \<open>A verified object has an id (\<open>check_body_id\<close>).\<close>

definition link_of :: "nat \<Rightarrow> bytes \<Rightarrow> obj \<Rightarrow> verified_link" where
  "link_of i raw ob =
     \<lparr>vl_index = i, vl_content_id = (case obj_id ob of None \<Rightarrow> [] | Some c \<Rightarrow> c), vl_channel = channel ob, vl_kind = kind ob,
       vl_effect = effect ob, vl_signer = signer ob, vl_created = created ob, vl_body = body ob, vl_causes = causes ob, vl_raw = raw\<rparr>"

definition claimed_signer :: "bytes \<Rightarrow> bytes res" where
  "claimed_signer raw = rbind (parse_sign1_raw raw) (\<lambda>(prot, _, _). rbind (parse_protected prot) (\<lambda>(_, sgnr, _, _). Inr sgnr))"

definition record_key :: "pubkey_resolver \<Rightarrow> nat \<Rightarrow> bytes \<Rightarrow> chain_error + bytes" where
  "record_key res i raw =
     (case res of
        OneKey pk \<Rightarrow> Inr pk
      | KeyFor f \<Rightarrow>
          (case claimed_signer raw of
             Inl e \<Rightarrow> Inl (SignatureInvalid i e)
           | Inr s \<Rightarrow> (case f s of None \<Rightarrow> Inl (UnresolvedSigner i) | Some pk \<Rightarrow> Inr pk)))"

definition verify_one :: "prims \<Rightarrow> pubkey_resolver \<Rightarrow> int \<Rightarrow> nat \<Rightarrow> bytes \<Rightarrow> chain_error + verified_link" where
  "verify_one P res prof i raw =
     rbind (record_key res i raw) (\<lambda>pk.
       case ez_verify P pk raw prof of Inl e \<Rightarrow> Inl (SignatureInvalid i e) | Inr ob \<Rightarrow> Inr (link_of i raw ob))"

fun verify_records :: "prims \<Rightarrow> pubkey_resolver \<Rightarrow> int \<Rightarrow> verified_link list \<Rightarrow> bytes list \<Rightarrow> chain_error + verified_link list" where
  "verify_records P res prof links [] = Inr links"
| "verify_records P res prof links (raw # raws) =
     rbind (verify_one P res prof (length links) raw) (\<lambda>l.
       if vl_content_id l \<in> vl_content_id ` set links then Inl (ChainOrderBroken (Some (length links)))
       else verify_records P res prof (links @ [l]) raws)"

section \<open>Causal links and replay\<close>

definition seen_at :: "verified_link list \<Rightarrow> bytes \<rightharpoonup> nat" where
  "seen_at links = map_of (map (\<lambda>l. (vl_content_id l, vl_index l)) links)"

fun check_link_causes :: "(bytes \<rightharpoonup> nat) \<Rightarrow> nat \<Rightarrow> bytes list \<Rightarrow> chain_error + unit" where
  "check_link_causes seen i [] = Inr ()"
| "check_link_causes seen i (c # cs) =
     (case seen c of
        None \<Rightarrow> Inl (BrokenReferent i)
      | Some j \<Rightarrow> if j \<ge> i then Inl (ChainOrderBroken (Some i)) else check_link_causes seen i cs)"

fun check_links :: "(bytes \<rightharpoonup> nat) \<Rightarrow> verified_link list \<Rightarrow> chain_error + unit" where
  "check_links seen [] = Inr ()"
| "check_links seen (l # ls) = rbind (check_link_causes seen (vl_index l) (vl_causes l)) (\<lambda>_. check_links seen ls)"

text \<open>The loop is that of theory \<open>Ready\<close>, on positions, sorted by creation time and content id; every cause was found before.\<close>

definition link_edges :: "verified_link list \<Rightarrow> nat edges" where
  "link_edges links = map (\<lambda>l. (vl_index l, map (\<lambda>c. the (seen_at links c)) (vl_causes l))) links"

definition link_key :: "verified_link list \<Rightarrow> nat \<Rightarrow> int \<times> bytes" where
  "link_key links i = (vl_created (links ! i), vl_content_id (links ! i))"

definition replay_order_of :: "verified_link list \<Rightarrow> chain_error + nat list" where
  "replay_order_of links =
     (let n = length links; ind = fst (edges_of (link_edges links)) in
      case ready_loop (link_key links) (snd (edges_of (link_edges links)))
          \<lparr>rd_indegree = ind, rd_ready = filter (\<lambda>i. ind i = 0) [0..<n], rd_order = []\<rparr> of
        None \<Rightarrow> Inl (ChainOrderBroken None)
      | Some s \<Rightarrow> if length (rd_order s) \<noteq> n then Inl (ChainOrderBroken None) else Inr (rd_order s))"

record verified_chain =
  vc_links :: "verified_link list"
  vc_replay_order :: "nat list"

definition verify_governed_chain :: "prims \<Rightarrow> bytes list \<Rightarrow> pubkey_resolver \<Rightarrow> int \<Rightarrow> chain_error + verified_chain" where
  "verify_governed_chain P records res prof =
     rbind (verify_records P res prof [] records) (\<lambda>links.
       rbind (check_links (seen_at links) links) (\<lambda>_.
         rbind (replay_order_of links) (\<lambda>ord. Inr \<lparr>vc_links = links, vc_replay_order = ord\<rparr>)))"

definition replay_chain :: "verified_chain \<Rightarrow> verified_link list" where
  "replay_chain ch = map (\<lambda>i. vc_links ch ! i) (vc_replay_order ch)"

definition verify_and_replay :: "prims \<Rightarrow> bytes list \<Rightarrow> pubkey_resolver \<Rightarrow> int \<Rightarrow> chain_error + verified_link list" where
  "verify_and_replay P records res prof = rbind (verify_governed_chain P records res prof) (\<lambda>ch. Inr (replay_chain ch))"

section \<open>The signed verdict\<close>

definition VERIFICATION_CHANNEL :: int where "VERIFICATION_CHANNEL = 0x000B"
definition VERIFICATION_KIND :: int where "VERIFICATION_KIND = 0"

definition verification_body :: "prims \<Rightarrow> verified_chain \<Rightarrow> cbor res" where
  "verification_body P ch =
     (let ids = map vl_content_id (replay_chain ch) in
      rbind (content_id (sha384 P) (A (map B ids))) (\<lambda>digest.
        Inr (M ([(U 1, U (int (length (vc_links ch)))), (U 2, B digest)] @ (if ids \<noteq> [] then [(U 3, B (hd ids)), (U 4, B (last ids))] else [])))))"

definition sign_verification_receipt :: "prims \<Rightarrow> ez_signer \<Rightarrow> verified_chain \<Rightarrow> bytes list \<Rightarrow> int \<Rightarrow> (obj \<times> bytes) res" where
  "sign_verification_receipt P s ch cs at =
     rbind (verification_body P ch) (\<lambda>b. ez_sign P s VERIFICATION_CHANNEL VERIFICATION_KIND b None at cs)"

section \<open>What a verified chain is\<close>

text \<open>The records an item's causes name, and that all of them come before it.\<close>

definition cause_positions :: "verified_link list \<Rightarrow> nat \<Rightarrow> nat set" where
  "cause_positions links i = {j. j < length links \<and> i < length links \<and> vl_content_id (links ! j) \<in> set (vl_causes (links ! i))}"

definition causes_earlier :: "verified_link list \<Rightarrow> bool" where
  "causes_earlier links \<longleftrightarrow> list_all (\<lambda>i. set (vl_causes (links ! i)) \<subseteq> vl_content_id ` set (take i links)) [0..<length links]"

lemma verify_one_Inr:
  "verify_one P res prof i raw = Inr l \<longleftrightarrow>
     (\<exists>pk ob. record_key res i raw = Inr pk \<and> ez_verify P pk raw prof = Inr ob \<and> l = link_of i raw ob)"
  by (cases "record_key res i raw") (auto simp: verify_one_def split: sum.split sum.split_asm)

lemma verify_one_index: "verify_one P res prof i raw = Inr l \<Longrightarrow> vl_index l = i"
  by (auto simp: verify_one_Inr link_of_def)

lemma verify_records_iff:
  assumes "distinct (map vl_content_id ls)"
  shows "verify_records P res prof ls raws = Inr links \<longleftrightarrow>
    (\<exists>new. links = ls @ new \<and> distinct (map vl_content_id links) \<and>
      map (\<lambda>(i, raw). verify_one P res prof i raw) (enumerate (length ls) raws) = map Inr new)"
  using assms
proof (induction raws arbitrary: ls)
  case Nil
  then show ?case by auto
next
  case (Cons raw raws)
  have "verify_records P res prof ls (raw # raws) = Inr links \<longleftrightarrow>
      (\<exists>l. verify_one P res prof (length ls) raw = Inr l \<and> vl_content_id l \<notin> vl_content_id ` set ls \<and>
        verify_records P res prof (ls @ [l]) raws = Inr links)"
    by (auto simp: rbind_eq_Inr)
  also have "\<dots> \<longleftrightarrow> (\<exists>l new. verify_one P res prof (length ls) raw = Inr l \<and> links = ls @ l # new \<and> distinct (map vl_content_id links) \<and>
      map (\<lambda>(i, raw). verify_one P res prof i raw) (enumerate (Suc (length ls)) raws) = map Inr new)"
    using Cons.IH [of "ls @ [_]"] Cons.prems by (auto simp: image_iff)
  also have "\<dots> \<longleftrightarrow> (\<exists>new. links = ls @ new \<and> distinct (map vl_content_id links) \<and>
      map (\<lambda>(i, raw). verify_one P res prof i raw) (enumerate (length ls) (raw # raws)) = map Inr new)"
    by (auto simp: Cons_eq_map_conv)
  finally show ?case .
qed

definition numbered :: "verified_link list \<Rightarrow> bool" where
  "numbered links \<longleftrightarrow> map vl_index links = [0..<length links]"

lemma numbered_nth: "numbered links \<Longrightarrow> i < length links \<Longrightarrow> vl_index (links ! i) = i"
  unfolding numbered_def by (metis add_0 diff_zero length_upt nth_map nth_upt)

lemma verified_numbered:
  assumes "map (\<lambda>(i, raw). verify_one P res prof i raw) (enumerate 0 raws) = map Inr links"
  shows "numbered links" and "length links = length raws"
proof -
  show len: "length links = length raws" using assms by (metis length_enumerate length_map)
  have "verify_one P res prof i (raws ! i) = Inr (links ! i)" if "i < length links" for i
    using arg_cong [OF assms, of "\<lambda>xs. xs ! i"] that len by (simp add: nth_enumerate_eq)
  then show "numbered links" unfolding numbered_def by (intro nth_equalityI) (auto dest: verify_one_index)
qed

lemma seen_at_iff:
  assumes "numbered links" and "distinct (map vl_content_id links)"
  shows "seen_at links c = Some j \<longleftrightarrow> j < length links \<and> vl_content_id (links ! j) = c"
proof -
  have "distinct (map fst (map (\<lambda>l. (vl_content_id l, vl_index l)) links))" using assms(2) by (simp add: comp_def)
  then have "seen_at links c = Some j \<longleftrightarrow> (\<exists>l \<in> set links. vl_content_id l = c \<and> vl_index l = j)"
    unfolding seen_at_def by (subst map_of_eq_Some_iff) auto
  also have "\<dots> \<longleftrightarrow> j < length links \<and> vl_content_id (links ! j) = c"
    using numbered_nth [OF assms(1)] by (metis in_set_conv_nth)
  finally show ?thesis .
qed

lemma check_link_causes_iff: "check_link_causes seen i cs = Inr u \<longleftrightarrow> (\<forall>c \<in> set cs. \<exists>j < i. seen c = Some j)"
  by (induction cs) (auto split: option.split)

lemma check_links_iff:
  "check_links seen ls = Inr u \<longleftrightarrow> (\<forall>l \<in> set ls. \<forall>c \<in> set (vl_causes l). \<exists>j < vl_index l. seen c = Some j)"
  by (induction ls) (auto simp: rbind_eq_Inr check_link_causes_iff)

lemma causes_checked:
  assumes "numbered links" and "distinct (map vl_content_id links)"
  shows "check_links (seen_at links) links = Inr u \<longleftrightarrow> causes_earlier links"
proof -
  have "(\<exists>j < i. seen_at links c = Some j) \<longleftrightarrow> c \<in> vl_content_id ` set (take i links)" if "i < length links" for i c
    using that by (auto simp: seen_at_iff [OF assms] in_set_conv_nth image_iff Bex_def)
  moreover have "check_links (seen_at links) links = Inr u \<longleftrightarrow> (\<forall>i < length links. \<forall>c \<in> set (vl_causes (links ! i)). \<exists>j < i. seen_at links c = Some j)"
    using numbered_nth [OF assms(1)] unfolding check_links_iff all_set_conv_all_nth [of links] by simp
  ultimately show ?thesis by (auto simp: causes_earlier_def list_all_iff subset_iff)
qed

section \<open>The replay order\<close>

lemma cause_before:
  assumes "causes_earlier links" and "i < length links" and "c \<in> set (vl_causes (links ! i))"
  shows "\<exists>j < i. vl_content_id (links ! j) = c"
proof -
  have "c \<in> vl_content_id ` set (take i links)" using assms by (auto simp: causes_earlier_def list_all_iff)
  then obtain l where "l \<in> set (take i links)" "vl_content_id l = c" by blast
  then obtain j where "j < i" "j < length links" "links ! j = l" by (auto simp: in_set_conv_nth)
  then show ?thesis using \<open>vl_content_id l = c\<close> by blast
qed

lemma cause_position_less:
  assumes "causes_earlier links" and "distinct (map vl_content_id links)" and "j \<in> cause_positions links i"
  shows "j < i"
proof -
  have ij: "i < length links" "j < length links" "vl_content_id (links ! j) \<in> set (vl_causes (links ! i))"
    using assms(3) by (simp_all add: cause_positions_def)
  obtain k where k: "k < i" "vl_content_id (links ! k) = vl_content_id (links ! j)" using cause_before [OF assms(1) ij(1,3)] by blast
  then have "map vl_content_id links ! k = map vl_content_id links ! j" using ij by simp
  then have "k = j" using k ij nth_eq_iff_index_eq [OF assms(2), of k j] by simp
  with k show ?thesis by simp
qed

lemma link_edges_facts:
  assumes "numbered links" and "distinct (map vl_content_id links)" and "causes_earlier links"
  shows "fst ` set (link_edges links) = {..<length links}" and "map fst (link_edges links) = [0..<length links]"
    and "i < length links \<Longrightarrow> set (needs (link_edges links) i) = cause_positions links i"
    and "closed_edges (link_edges links)"
proof -
  show items: "map fst (link_edges links) = [0..<length links]" using assms(1) by (simp add: link_edges_def numbered_def comp_def)
  show dom: "fst ` set (link_edges links) = {..<length links}" using arg_cong [OF items, of set] by (simp add: atLeast0LessThan)
  have pos: "(\<lambda>c. the (seen_at links c)) ` set (vl_causes (links ! i)) = cause_positions links i" if i: "i < length links" for i
  proof -
    have at: "seen_at links (vl_content_id (links ! j)) = Some j" if "j < length links" for j
      using that by (simp add: seen_at_iff [OF assms(1,2)])
    have "the (seen_at links c) \<in> cause_positions links i" if c: "c \<in> set (vl_causes (links ! i))" for c
    proof -
      obtain j where j: "j < i" "vl_content_id (links ! j) = c" using cause_before [OF assms(3) i c] by blast
      then show ?thesis using at [of j] i c by (simp add: cause_positions_def)
    qed
    moreover have "j \<in> (\<lambda>c. the (seen_at links c)) ` set (vl_causes (links ! i))" if "j \<in> cause_positions links i" for j
      using that at [of j] by (intro image_eqI [of _ _ "vl_content_id (links ! j)"]) (simp_all add: cause_positions_def)
    ultimately show ?thesis by blast
  qed
  have e: "link_edges links ! i = (i, map (\<lambda>c. the (seen_at links c)) (vl_causes (links ! i)))" if "i < length links" for i
    using that numbered_nth [OF assms(1)] by (simp add: link_edges_def)
  have d: "distinct (map fst (link_edges links))" unfolding items by simp
  have len: "length (link_edges links) = length links" by (simp add: link_edges_def)
  show "set (needs (link_edges links) i) = cause_positions links i" if "i < length links"
    using needs_edge [OF d nth_mem, of i] e [OF that] pos [OF that] that len by simp
  have "set (snd x) \<subseteq> {..<length links}" if x: "x \<in> set (link_edges links)" for x
  proof -
    obtain i where i: "i < length links" "x = link_edges links ! i" using x unfolding in_set_conv_nth len by blast
    have "set (snd x) = cause_positions links i" using e [OF i(1)] pos [OF i(1)] i(2) by simp
    then show ?thesis by (auto simp: cause_positions_def)
  qed
  then show "closed_edges (link_edges links)" using d by (simp add: closed_edges_def dom)
qed

lemma replay_order_iff:
  assumes "numbered links" and "distinct (map vl_content_id links)" and "causes_earlier links"
  shows "replay_order_of links = Inr os \<longleftrightarrow> lin (link_key links) (cause_positions links) {..<length links} os"
    and "\<exists>os. replay_order_of links = Inr os"
proof -
  let ?es = "link_edges links" and ?n = "length links"
  let ?ind = "fst (edges_of ?es)"
  define s where "s = \<lparr>rd_indegree = ?ind, rd_ready = filter (\<lambda>i. ?ind i = 0) [0..<?n], rd_order = []\<rparr>"
  note facts = link_edges_facts [OF assms]
  have len: "length ?es = ?n" by (simp add: link_edges_def)
  have rel: "ready_rel ?es s []" by (rule ready_start) (auto simp: s_def facts)
  have inj: "inj_on (link_key links) (fst ` set ?es)"
    using assms(2) by (auto simp: facts(1) inj_on_def link_key_def distinct_conv_nth)
  have cases: "replay_order_of links = (case ready_all (link_key links) ?es s of Inr os \<Rightarrow> Inr os | Inl e \<Rightarrow> Inl (ChainOrderBroken None))"
    by (simp add: replay_order_of_def ready_all_def s_def len Let_def split: option.split)
  have lin: "lin (link_key links) (\<lambda>x. set (needs ?es x)) (fst ` set ?es) os \<longleftrightarrow> lin (link_key links) (cause_positions links) {..<?n} os" for os
    unfolding facts(1) by (rule lin_cong) (simp add: facts(3))
  have "edge_rel ?es \<subseteq> (measure id)\<inverse>"
    using cause_position_less [OF assms(3,2)] by (auto simp: edge_rel_def facts(1,3))
  then have "acyclic (edge_rel ?es)" by (meson acyclic_converse acyclic_subset wf_acyclic wf_measure)
  then obtain os' where ok: "ready_all (link_key links) ?es s = Inr os'"
    using ready_all_iff(2) [OF rel inj] by (cases "ready_all (link_key links) ?es s") auto
  then show "\<exists>os. replay_order_of links = Inr os" by (simp add: cases)
  show "replay_order_of links = Inr os \<longleftrightarrow> lin (link_key links) (cause_positions links) {..<length links} os"
    using ready_all_iff(1) [OF rel inj, of os] ok by (simp add: cases lin)
qed

section \<open>Verified chains\<close>

lemma verify_records_no_cycle: "verify_records P res prof ls raws \<noteq> Inl (ChainOrderBroken None)"
  by (induction P res prof ls raws rule: verify_records.induct)
    (auto simp: rbind_eq_Inl verify_one_def record_key_def split: sum.splits pubkey_resolver.splits option.splits)

lemma check_links_no_cycle: "check_links seen ls \<noteq> Inl (ChainOrderBroken None)"
proof (induction ls)
  case (Cons l ls)
  have "check_link_causes seen i cs \<noteq> Inl (ChainOrderBroken None)" for i cs
    by (induction cs) (auto split: option.split)
  then show ?case using Cons by (auto simp: rbind_eq_Inl)
qed simp

lemma verified_chain_iff:
  "verify_governed_chain P records res prof = Inr ch \<longleftrightarrow>
     map (\<lambda>(i, raw). verify_one P res prof i raw) (enumerate 0 records) = map Inr (vc_links ch) \<and>
     distinct (map vl_content_id (vc_links ch)) \<and> causes_earlier (vc_links ch) \<and>
     lin (link_key (vc_links ch)) (cause_positions (vc_links ch)) {..<length records} (vc_replay_order ch)"
  and no_cycle_reported: "verify_governed_chain P records res prof \<noteq> Inl (ChainOrderBroken None)"
proof -
  let ?ok = "\<lambda>links. map (\<lambda>(i, raw). verify_one P res prof i raw) (enumerate 0 records) = map Inr links"
  have v: "verify_records P res prof [] records = Inr links \<longleftrightarrow> distinct (map vl_content_id links) \<and> ?ok links" for links
    using verify_records_iff [of "[]"] by simp
  have c: "verify_governed_chain P records res prof = Inr ch \<longleftrightarrow> ?ok (vc_links ch) \<and> distinct (map vl_content_id (vc_links ch)) \<and>
      check_links (seen_at (vc_links ch)) (vc_links ch) = Inr () \<and> replay_order_of (vc_links ch) = Inr (vc_replay_order ch)"
    by (cases ch) (auto simp: verify_governed_chain_def rbind_eq_Inr v)
  show "verify_governed_chain P records res prof \<noteq> Inl (ChainOrderBroken None)"
  proof
    assume "verify_governed_chain P records res prof = Inl (ChainOrderBroken None)"
    then obtain links where l: "distinct (map vl_content_id links)" "?ok links"
      and "check_links (seen_at links) links = Inr ()" "replay_order_of links = Inl (ChainOrderBroken None)"
      using verify_records_no_cycle check_links_no_cycle by (fastforce simp: verify_governed_chain_def rbind_eq_Inl rbind_eq_Inr v)
    then show False
      using replay_order_iff(2) [OF verified_numbered(1) [OF l(2)] l(1)] causes_checked [OF verified_numbered(1) [OF l(2)] l(1)] by auto
  qed
  show "verify_governed_chain P records res prof = Inr ch \<longleftrightarrow> ?ok (vc_links ch) \<and> distinct (map vl_content_id (vc_links ch)) \<and>
      causes_earlier (vc_links ch) \<and> lin (link_key (vc_links ch)) (cause_positions (vc_links ch)) {..<length records} (vc_replay_order ch)"
    unfolding c using causes_checked [OF verified_numbered(1)] replay_order_iff(1) [OF verified_numbered(1)] verified_numbered(2) by metis
qed

section \<open>Recorded sessions\<close>

text \<open>A host that makes calls one after the other, whatever each returns or raises.\<close>

definition new_recorder :: chain_recorder where
  "new_recorder = \<lparr>cr_stream = [], cr_last_id = Map.empty\<rparr>"

fun run_calls :: "kit \<Rightarrow> bool \<Rightarrow> ('r, 'w) governed_call list \<Rightarrow> chain_recorder \<Rightarrow> 'w \<Rightarrow> 'r tool_outcome res list \<times> chain_recorder \<times> 'w" where
  "run_calls K gating [] r w = ([], r, w)"
| "run_calls K gating (c # cs) r w =
     (case call_tool K gating c r w of (q, r1, w1) \<Rightarrow> (case run_calls K gating cs r1 w1 of (qs, r2, w2) \<Rightarrow> (q # qs, r2, w2)))"

text \<open>What the adapters need of the kit: an action that it signed and verified is an object the core verifies, with the id it
  reported and the causes it was given.\<close>

definition kit_sound :: "prims \<Rightarrow> bytes \<Rightarrow> int \<Rightarrow> kit \<Rightarrow> bool" where
  "kit_sound P pk prof K \<longleftrightarrow> (\<forall>a sb v. sign_action K a = Inr sb \<longrightarrow> verify_action K sb = Inr v \<longrightarrow>
     (\<exists>ob. ez_verify P pk sb prof = Inr ob \<and> obj_id ob = Some (va_content_id v) \<and> causes ob = ca_causes a))"

text \<open>The recorded objects, each with its session and its bytes.\<close>

type_synonym log_entry = "pystr \<times> bytes \<times> obj"

definition entry_id :: "log_entry \<Rightarrow> bytes" where
  "entry_id e = (case obj_id (snd (snd e)) of None \<Rightarrow> [] | Some c \<Rightarrow> c)"

definition session_head :: "log_entry list \<Rightarrow> pystr \<rightharpoonup> bytes" where
  "session_head log = map_of (rev (map (\<lambda>e. (fst e, entry_id e)) log))"

definition session_causes :: "log_entry list \<Rightarrow> pystr \<Rightarrow> bytes list" where
  "session_causes log key = (case session_head log key of None \<Rightarrow> [] | Some c \<Rightarrow> [c])"

definition chain_links :: "log_entry list \<Rightarrow> verified_link list" where
  "chain_links log = map (\<lambda>(i, e). link_of i (fst (snd e)) (snd (snd e))) (enumerate 0 log)"

inductive recorded :: "prims \<Rightarrow> bytes \<Rightarrow> int \<Rightarrow> log_entry list \<Rightarrow> chain_recorder \<Rightarrow> bool" for P pk prof where
  start: "recorded P pk prof [] new_recorder"
| append: "recorded P pk prof log r \<Longrightarrow> ez_verify P pk raw prof = Inr ob \<Longrightarrow> obj_id ob = Some cid \<Longrightarrow> causes ob = last_cause r key \<Longrightarrow>
    frame StructError raw = Inr b \<Longrightarrow>
    recorded P pk prof (log @ [(key, raw, ob)]) (r\<lparr>cr_stream := cr_stream r @ b, cr_last_id := (cr_last_id r)(key \<mapsto> cid)\<rparr>)"

lemma capture_recorded:
  assumes "kit_sound P pk prof K" and "recorded P pk prof log r" and "capture_and_record K r key payload eff = Inr (v, r')"
  shows "\<exists>raw ob. recorded P pk prof (log @ [(key, raw, ob)]) r'"
proof -
  obtain sb b where sb: "sign_action K \<lparr>ca_channel = BRIDGE_CHANNEL, ca_kind = KIND_CARRIAGE, ca_payload = payload, ca_effect = eff,
      ca_causes = last_cause r key\<rparr> = Inr sb" "verify_action K sb = Inr v" and b: "frame StructError sb = Inr b"
    and r': "r' = r\<lparr>cr_stream := cr_stream r @ b, cr_last_id := (cr_last_id r)(key \<mapsto> va_content_id v)\<rparr>"
    using assms(3) by (auto simp: capture_and_record_def recorder_append_def rbind_eq_Inr split: if_splits)
  then obtain ob where "ez_verify P pk sb prof = Inr ob" "obj_id ob = Some (va_content_id v)" "causes ob = last_cause r key"
    using assms(1) by (fastforce simp: kit_sound_def)
  then show ?thesis using recorded.append [OF assms(2) _ _ _ b] r' by blast
qed

lemma call_recorded:
  assumes "kit_sound P pk prof K" and "recorded P pk prof log r" and "call_tool K gating c r w = (q, r', w')"
  shows "\<exists>new. recorded P pk prof (log @ new) r' \<and> set (map fst new) \<subseteq> {tc_session c}"
proof (cases "capture_and_record K r (tc_session c) (tc_payload c) (tc_effect c)")
  case (Inl e)
  then show ?thesis using assms(2,3) by (intro exI [of _ "[]"]) (simp add: call_tool_def)
next
  case (Inr p)
  obtain v r1 where p: "p = (v, r1)" by (cases p)
  obtain raw ob where one: "recorded P pk prof (log @ [(tc_session c, raw, ob)]) r1"
    using capture_recorded [OF assms(1,2)] Inr p by blast
  have "r' = r1 \<or> (\<exists>x v2. capture_and_record K r1 (tc_session c) (tc_result_payload c x) (tc_effect c) = Inr (v2, r'))"
    using assms(3) Inr p by (auto simp: call_tool_def split: sum.splits option.splits prod.splits)
  then show ?thesis
  proof
    assume "r' = r1"
    then show ?thesis using one by (intro exI [of _ "[(tc_session c, raw, ob)]"]) simp
  next
    assume "\<exists>x v2. capture_and_record K r1 (tc_session c) (tc_result_payload c x) (tc_effect c) = Inr (v2, r')"
    then obtain raw2 ob2 where "recorded P pk prof ((log @ [(tc_session c, raw, ob)]) @ [(tc_session c, raw2, ob2)]) r'"
      using capture_recorded [OF assms(1) one] by blast
    then show ?thesis by (intro exI [of _ "[(tc_session c, raw, ob), (tc_session c, raw2, ob2)]"]) simp
  qed
qed

lemma calls_recorded:
  assumes "kit_sound P pk prof K" and "recorded P pk prof log r" and "run_calls K gating cs r w = (qs, r', w')"
  shows "\<exists>new. recorded P pk prof (log @ new) r' \<and> set (map fst new) \<subseteq> tc_session ` set cs"
  using assms(2,3)
proof (induction cs arbitrary: log r w qs)
  case Nil
  then show ?case by (intro exI [of _ "[]"]) simp
next
  case (Cons c cs)
  obtain q r1 w1 where c: "call_tool K gating c r w = (q, r1, w1)" by (cases "call_tool K gating c r w") auto
  obtain n1 where n1: "recorded P pk prof (log @ n1) r1" "set (map fst n1) \<subseteq> {tc_session c}"
    using call_recorded [OF assms(1) Cons.prems(1) c] by blast
  obtain qs' where "run_calls K gating cs r1 w1 = (qs', r', w')"
    using Cons.prems(2) c by (auto split: prod.splits)
  from Cons.IH [OF n1(1) this] obtain n2 where n2: "recorded P pk prof ((log @ n1) @ n2) r'" "set (map fst n2) \<subseteq> tc_session ` set cs"
    by blast
  then show ?case using n1(2) by (intro exI [of _ "n1 @ n2"]) auto
qed

section \<open>Reading a recorded session back\<close>

lemma read_log_frame:
  assumes "frame e raw = Inr b"
  shows "read_log_from i (b @ file) = rbind (read_log_from (Suc i) file) (\<lambda>rs. Inr (raw # rs))"
proof -
  have b: "b = be_bytes 4 (length raw) @ raw" and l: "length raw < 256 ^ 4"
    using assms by (auto simp: frame_def split: if_splits)
  have n: "be_nat (be_bytes 4 (length raw)) = length raw" using l by (rule be_nat_be_bytes)
  have "be_bytes 4 (length raw) \<noteq> []" by (metis length_be_bytes list.size(3) zero_neq_numeral)
  then show ?thesis
    unfolding b append_assoc by (subst read_log_from.simps) (simp add: n Let_def)
qed

lemma read_frames:
  assumes "list_all2 (\<lambda>raw b. frame e raw = Inr b) raws bs"
  shows "read_log_from i (concat bs) = Inr raws"
    and "replay_log c (\<lambda>records rec. Inr (records @ [rec])) old (concat bs) = Inr (old @ raws)"
  using assms
proof (induction raws bs arbitrary: i old rule: list_all2_induct)
  case Nil
  { case 1 show ?case by (simp add: read_log_from.simps)
  next case 2 show ?case by simp }
next
  case (Cons raw raws b bs)
  { case 1 show ?case using Cons by (simp add: read_log_frame)
  next case 2 show ?case using Cons by (simp add: replay_frame) }
qed

lemma recorded_stream:
  assumes "recorded P pk prof log r"
  shows "\<exists>bs. cr_stream r = concat bs \<and> list_all2 (\<lambda>raw b. frame StructError raw = Inr b) (map (\<lambda>e. fst (snd e)) log) bs"
  using assms
proof (induction rule: recorded.induct)
  case start
  show ?case by (simp add: new_recorder_def)
next
  case (append log r raw ob cid key b)
  then obtain bs where "cr_stream r = concat bs" "list_all2 (\<lambda>raw b. frame StructError raw = Inr b) (map (\<lambda>e. fst (snd e)) log) bs"
    by blast
  then show ?case using append.hyps(5) by (intro exI [of _ "bs @ [b]"]) (simp add: list_all2_appendI)
qed

lemma recorded_heads: "recorded P pk prof log r \<Longrightarrow> cr_last_id r = session_head log"
  by (induction rule: recorded.induct) (auto simp: session_head_def new_recorder_def entry_id_def fun_eq_iff)

lemma recorded_entry:
  assumes "recorded P pk prof log r" and "i < length log"
  shows "ez_verify P pk (fst (snd (log ! i))) prof = Inr (snd (snd (log ! i))) \<and>
    causes (snd (snd (log ! i))) = session_causes (take i log) (fst (log ! i))"
  using assms
proof (induction rule: recorded.induct)
  case (append log r raw ob cid key b)
  then show ?case
    by (cases "i < length log")
      (auto simp: nth_append session_causes_def last_cause_def recorded_heads [OF append.hyps(1)])
qed simp

lemma chain_links_facts:
  "length (chain_links log) = length log"
  "i < length log \<Longrightarrow> vl_content_id (chain_links log ! i) = entry_id (log ! i)"
  "i < length log \<Longrightarrow> vl_causes (chain_links log ! i) = causes (snd (snd (log ! i)))"
  "map vl_content_id (chain_links log) = map entry_id log"
  by (auto simp: chain_links_def nth_enumerate_eq link_of_def entry_id_def intro!: nth_equalityI)

lemma recorded_verifies:
  assumes "recorded P pk prof log r"
  shows "map (\<lambda>(i, raw). verify_one P (OneKey pk) prof i raw) (enumerate 0 (map (\<lambda>e. fst (snd e)) log)) = map Inr (chain_links log)"
  using recorded_entry [OF assms]
  by (intro nth_equalityI) (auto simp: nth_enumerate_eq chain_links_def verify_one_def record_key_def)

lemma recorded_causes_earlier:
  assumes "recorded P pk prof log r"
  shows "causes_earlier (chain_links log)"
proof -
  have "set (session_causes (take i log) key) \<subseteq> entry_id ` set (take i log)" for i key
    by (auto simp: session_causes_def session_head_def split: option.split dest!: map_of_SomeD [OF sym])
  moreover have "vl_content_id ` set (take i (chain_links log)) = entry_id ` set (take i log)" for i
    using arg_cong [OF chain_links_facts(4) [of log], of "\<lambda>xs. set (take i xs)"] by (simp add: take_map)
  ultimately show ?thesis
    using recorded_entry [OF assms] by (auto simp: causes_earlier_def list_all_iff chain_links_facts)
qed

text \<open>In a log of one session every object but the first names the one before it.\<close>

lemma session_causes_one:
  assumes "\<forall>e \<in> set log. fst e = k" and "log \<noteq> []"
  shows "session_causes log k = [entry_id (last log)]"
  using assms by (cases log rule: rev_cases) (auto simp: session_causes_def session_head_def)

lemma lin_succ:
  assumes "\<And>i. i < n \<Longrightarrow> C i = (if i = 0 then {} else {i - 1})" and "m \<le> n"
  shows "lin key C {m..<n} [m..<n]"
  using assms(2)
proof (induction rule: inc_induct)
  case (step m)
  have "C y \<inter> {m..<n} \<noteq> {}" if "y \<in> {m..<n}" "y \<noteq> m" for y
    using that assms(1) [of y] by auto
  moreover have "C m \<inter> {m..<n} = {}" using assms(1) [OF step.hyps(2)] by auto
  moreover have "{m..<n} - {m} = {Suc m..<n}" by auto
  ultimately have "\<forall>y \<in> {m..<n}. C y \<inter> {m..<n} = {} \<longrightarrow> key m \<le> key y" "C m \<inter> {m..<n} = {}" "{m..<n} - {m} = {Suc m..<n}"
    by (metis order_refl)+
  then show ?case using step by (simp add: upt_conv_Cons)
qed simp

lemma one_session_order:
  assumes "recorded P pk prof log r" and "\<forall>e \<in> set log. fst e = k" and "distinct (map entry_id log)"
  shows "lin (link_key (chain_links log)) (cause_positions (chain_links log)) {..<length log} [0..<length log]"
proof -
  have "cause_positions (chain_links log) i = (if i = 0 then {} else {i - 1})" if i: "i < length log" for i
  proof (cases i)
    case 0
    then show ?thesis
      using recorded_entry [OF assms(1) i] i by (simp add: cause_positions_def chain_links_facts session_causes_def session_head_def)
  next
    case (Suc j)
    have "\<forall>e \<in> set (take i log). fst e = k" "take i log \<noteq> []" using assms(2) i Suc by (auto dest: in_set_takeD)
    then have "session_causes (take i log) k = [entry_id (log ! j)]"
      using session_causes_one [of "take i log" k] i Suc by (simp add: last_conv_nth)
    moreover have "fst (log ! i) = k" using assms(2) i by simp
    ultimately have "causes (snd (snd (log ! i))) = [entry_id (log ! j)]" using recorded_entry [OF assms(1) i] by simp
    moreover have "entry_id (log ! j') = entry_id (log ! j) \<longleftrightarrow> j' = j" if "j' < length log" for j'
      using nth_eq_iff_index_eq [OF assms(3), of j' j] that i Suc by simp
    ultimately show ?thesis using i Suc by (auto simp: cause_positions_def chain_links_facts)
  qed
  from lin_succ [OF this, of "length log" 0] show ?thesis by (simp add: atLeast0LessThan)
qed

section \<open>Properties\<close>

text \<open>C25: The offline verifier accepts a log exactly as it promises. A chain is returned if and only if every record verifies under the key
  the caller's resolver gives for it, no content id occurs twice, every cause is the content id of an earlier record, and the replay
  order is the one that always takes the earliest (by creation time, then content id) record whose causes were taken. The
  defensive error for a cycle is never returned.\<close>

theorem governed_chain_exact:
  "(verify_governed_chain P records res prof = Inr ch \<longleftrightarrow>
     map (\<lambda>(i, raw). verify_one P res prof i raw) (enumerate 0 records) = map Inr (vc_links ch) \<and>
     distinct (map vl_content_id (vc_links ch)) \<and> causes_earlier (vc_links ch) \<and>
     lin (link_key (vc_links ch)) (cause_positions (vc_links ch)) {..<length records} (vc_replay_order ch)) \<and>
   verify_governed_chain P records res prof \<noteq> Inl (ChainOrderBroken None)"
  using verified_chain_iff no_cycle_reported by metis

text \<open>C24: What an adapter recorded, the offline verifier accepts. Whatever sequence of tool calls a host makes, gated or not, denied,
  failing or completed, the log reads back, in both readers, to exactly the recorded objects; each names as its cause the previous object
  of its own session, if any; and the log verifies under the recorder's key, with exactly these objects, unless two of them have the
  same content id. The log of a single session is replayed in the order in which it was written.\<close>

theorem governed_session_verifies:
  assumes "kit_sound P pk prof K" and "run_calls K gating calls new_recorder w = (outs, r, w')"
  shows "\<exists>log. read_log (cr_stream r) = Inr (map (\<lambda>e. fst (snd e)) log) \<and> recorder_read_all (cr_stream r) = Inr (map (\<lambda>e. fst (snd e)) log) \<and>
    fst ` set log \<subseteq> tc_session ` set calls \<and>
    map vl_causes (chain_links log) = map (\<lambda>i. session_causes (take i log) (fst (log ! i))) [0..<length log] \<and>
    (if distinct (map entry_id log)
     then \<exists>ch. verify_governed_chain P (map (\<lambda>e. fst (snd e)) log) (OneKey pk) prof = Inr ch \<and> vc_links ch = chain_links log \<and>
       (fst ` set log \<subseteq> {k} \<longrightarrow> vc_replay_order ch = [0..<length log])
     else \<exists>e. verify_governed_chain P (map (\<lambda>e. fst (snd e)) log) (OneKey pk) prof = Inl e)"
proof -
  obtain log where log: "recorded P pk prof log r" and keys: "fst ` set log \<subseteq> tc_session ` set calls"
    using calls_recorded [OF assms(1) recorded.start assms(2)] by auto
  let ?raws = "map (\<lambda>e. fst (snd e)) log" and ?links = "chain_links log"
  obtain bs where bs: "cr_stream r = concat bs" "list_all2 (\<lambda>raw b. frame StructError raw = Inr b) ?raws bs"
    using recorded_stream [OF log] by blast
  have rd: "read_log (cr_stream r) = Inr ?raws" "recorder_read_all (cr_stream r) = Inr ?raws"
    using read_frames [OF bs(2)] by (simp_all add: read_log_def recorder_read_all_def bs(1))
  have cs: "map vl_causes ?links = map (\<lambda>i. session_causes (take i log) (fst (log ! i))) [0..<length log]"
    using recorded_entry [OF log] by (intro nth_equalityI) (simp_all add: chain_links_facts)
  note ok = recorded_verifies [OF log] recorded_causes_earlier [OF log]
  have one: "verify_governed_chain P ?raws (OneKey pk) prof = Inr ch \<longleftrightarrow> vc_links ch = ?links \<and> distinct (map entry_id log) \<and>
      lin (link_key ?links) (cause_positions ?links) {..<length log} (vc_replay_order ch)" for ch
  proof -
    have "map (Inr :: _ \<Rightarrow> chain_error + _) ?links = map Inr (vc_links ch) \<longleftrightarrow> vc_links ch = ?links" by (auto simp: inj_map_eq_map)
    then show ?thesis unfolding verified_chain_iff ok(1) chain_links_facts(4) [symmetric]
      by (cases "vc_links ch = ?links") (simp_all add: ok(2))
  qed
  show ?thesis
  proof (cases "distinct (map entry_id log)")
    case True
    have d: "distinct (map vl_content_id ?links)" using True by (simp add: chain_links_facts)
    have num: "numbered ?links" by (rule verified_numbered(1) [OF ok(1)])
    obtain os where os: "lin (link_key ?links) (cause_positions ?links) {..<length log} os"
      using replay_order_iff [OF num d ok(2)] by (auto simp: chain_links_facts)
    have inj: "inj_on (link_key ?links) {..<length log}"
      using d by (auto simp: inj_on_def link_key_def distinct_conv_nth chain_links_facts)
    have "os = [0..<length log]" if "fst ` set log \<subseteq> {k}"
      using lin_unique [OF inj os] one_session_order [OF log _ True, of k] that by blast
    then show ?thesis
      using rd keys cs True one [of "\<lparr>vc_links = ?links, vc_replay_order = os\<rparr>"] os by (intro exI [of _ log]) auto
  next
    case False
    then have "\<exists>e. verify_governed_chain P ?raws (OneKey pk) prof = Inl e"
      using one by (cases "verify_governed_chain P ?raws (OneKey pk) prof") auto
    then show ?thesis using rd keys cs False by (intro exI [of _ log]) simp
  qed
qed

text \<open>A kit made of the convenience surface, with a grant that covers nothing.\<close>

definition sample_kit :: kit where
  "sample_kit = \<lparr>
     sign_action = (\<lambda>a.
       if length (ca_causes a) \<le> 1 \<and> \<not> is_rotation_object (ca_channel a) (ca_kind a)
       then rbind (ez_sign short_key_prims sample_ez (ca_channel a) (ca_kind a) (M [(U 1, B (ca_payload a))])
           (Some (case ca_effect a of None \<Rightarrow> DESTRUCTIVE | Some x \<Rightarrow> x)) 9 (ca_causes a)) (\<lambda>(_, sb). if length sb \<le> 1000 then Inr sb else Inl ValueError)
       else Inl ValueError),
     verify_action = (\<lambda>sb. rbind (ez_verify short_key_prims [7] sb 1) (\<lambda>ob.
       case obj_id ob of None \<Rightarrow> Inl ValueError | Some c \<Rightarrow> Inr \<lparr>va_content_id = c, va_effect = effect ob\<rparr>)),
     authorize_action = (\<lambda>v. Inl (PolicyError ''AuthInsufficient''))\<rparr>"

lemma sample_ez_accepted:
  assumes "ez_sign short_key_prims sample_ez ch k (M [(U 1, B p)]) eff 9 cs = Inr (o1, sb)" and "length sb \<le> 1000" and "length cs \<le> 1"
    and "\<not> is_rotation_object ch k"
  shows "\<exists>ob. ez_verify short_key_prims [7] sb 1 = Inr ob \<and> obj_id ob = obj_id o1 \<and> causes ob = cs"
proof -
  have "length sb \<le> MAX_OBJECT_SIZE" "nesting (M [(U 1, B p)]) \<le> 14" "length cs \<le> MAX_CAUSES"
    using assms(2,3) by (simp_all add: MAX_OBJECT_SIZE_def MAX_CAUSES_def)
  from ez_sign_accepted [OF short_key_correct sample_ez_new assms(1) this, of 1] assms(4) show ?thesis
    by (auto simp: profile_min_level_def alg_level_def alg_defs profile_defs sample_ez_def)
qed

lemma sample_kit_sound: "kit_sound short_key_prims [7] 1 sample_kit"
  unfolding kit_sound_def
proof (intro allI impI)
  fix a sb v
  assume s: "sign_action sample_kit a = Inr sb" and v: "verify_action sample_kit sb = Inr v"
  obtain o1 where "ez_sign short_key_prims sample_ez (ca_channel a) (ca_kind a) (M [(U 1, B (ca_payload a))])
      (Some (case ca_effect a of None \<Rightarrow> DESTRUCTIVE | Some x \<Rightarrow> x)) 9 (ca_causes a) = Inr (o1, sb)" "length sb \<le> 1000"
      "length (ca_causes a) \<le> 1" "\<not> is_rotation_object (ca_channel a) (ca_kind a)"
    using s by (auto simp: sample_kit_def rbind_eq_Inr split: if_splits prod.splits)
  then obtain ob where "ez_verify short_key_prims [7] sb 1 = Inr ob" "causes ob = ca_causes a" using sample_ez_accepted by blast
  then show "\<exists>ob. ez_verify short_key_prims [7] sb 1 = Inr ob \<and> obj_id ob = Some (va_content_id v) \<and> causes ob = ca_causes a"
    using v by (auto simp: sample_kit_def split: option.splits)
qed

definition sample_call :: "(unit, unit) governed_call" where
  "sample_call = \<lparr>tc_session = [115], tc_payload = [1, 2], tc_effect = None, tc_run = (\<lambda>w. (Inr (), w)), tc_result_payload = (\<lambda>_. [3])\<rparr>"

lemma sample_call_denied:
  "\<exists>r sb b. call_tool sample_kit True sample_call new_recorder () = (Inr (Denied (PolicyError ''AuthInsufficient'')), r, ()) \<and>
     frame StructError sb = Inr b \<and> cr_stream r = b"
proof -
  have "case ez_sign short_key_prims sample_ez 13 0 (M [(U 1, B [1, 2])]) (Some 3) 9 [] of Inl _ \<Rightarrow> False
      | Inr (o1, sb) \<Rightarrow> length sb \<le> 1000 \<and> (case obj_id o1 of Some c \<Rightarrow> c \<noteq> [] | None \<Rightarrow> False)" by code_simp
  then obtain o1 sb c where s: "ez_sign short_key_prims sample_ez 13 0 (M [(U 1, B [1, 2])]) (Some 3) 9 [] = Inr (o1, sb)"
    "length sb \<le> 1000" "obj_id o1 = Some c" "c \<noteq> []" by (auto split: sum.splits option.splits)
  obtain ob where ob: "ez_verify short_key_prims [7] sb 1 = Inr ob" "obj_id ob = Some c"
    using sample_ez_accepted [OF s(1,2)] s(3) by (auto simp: is_rotation_object_def)
  obtain b where b: "frame StructError sb = Inr b" using s(2) by (simp add: frame_def)
  have "capture_and_record sample_kit new_recorder [115] [1, 2] None =
      Inr (\<lparr>va_content_id = c, va_effect = effect ob\<rparr>, \<lparr>cr_stream = b, cr_last_id = Map.empty([115] \<mapsto> c)\<rparr>)"
    using s ob b by (simp add: capture_and_record_def sample_kit_def new_recorder_def last_cause_def recorder_append_def BRIDGE_CHANNEL_def
      KIND_CARRIAGE_def is_rotation_object_def DESTRUCTIVE_def)
  then have "call_tool sample_kit True sample_call new_recorder () =
      (Inr (Denied (PolicyError ''AuthInsufficient'')), \<lparr>cr_stream = b, cr_last_id = Map.empty([115] \<mapsto> c)\<rparr>, ())"
    by (simp add: call_tool_def sample_call_def gate_call_def sample_kit_def)
  with b show ?thesis by auto
qed

theorem governed_session_verifies_witness:
  "\<exists>r raws ch. run_calls sample_kit True [sample_call] new_recorder () = ([Inr (Denied (PolicyError ''AuthInsufficient''))], r, ()) \<and>
     read_log (cr_stream r) = Inr raws \<and> length raws = 1 \<and> verify_governed_chain short_key_prims raws (OneKey [7]) 1 = Inr ch \<and>
     vc_replay_order ch = [0]"
proof -
  obtain r sb b where c: "call_tool sample_kit True sample_call new_recorder () = (Inr (Denied (PolicyError ''AuthInsufficient'')), r, ())"
    and b: "frame StructError sb = Inr b" "cr_stream r = b" using sample_call_denied by blast
  have run: "run_calls sample_kit True [sample_call] new_recorder () = ([Inr (Denied (PolicyError ''AuthInsufficient''))], r, ())"
    by (simp add: c)
  have rd: "read_log (cr_stream r) = Inr [sb]" using read_frames(1) [of StructError "[sb]" "[b]" 0] b by (simp add: read_log_def)
  from governed_session_verifies [OF sample_kit_sound run, of "[115]"] rd
  obtain ch where "verify_governed_chain short_key_prims [sb] (OneKey [7]) 1 = Inr ch" "vc_replay_order ch = [0]"
    by (auto simp: sample_call_def split: if_splits)
  with run rd show ?thesis by auto
qed

end
