(* ===== verification/Spec2Isabelle.thy ===== *)
theory Spec2Isabelle
  imports EnvelopeExt RotationObject Federation AuditOrder Delivery Switchboard Streaming Registry Delegation
    TaskState Negotiation Payment Carriage Continuation Description Hazard Agui Mcp ErrorRegistry Evidence Ez
    Pinning UseGuard Hitl Bundle React Plan Multiagent Validator Governance
begin

text \<open>
  A verification of the Python SDK of the N-AALP protocol (\<^verbatim>\<open>src/impl/python/naalp\<close>) and of the agent-side packages built on it
  (\<^verbatim>\<open>src/ecosystem\<close>).

  \<^bold>\<open>The program.\<close> N-AALP objects are maps in deterministic CBOR (\<^verbatim>\<open>cbor.py\<close>), signed as COSE objects with ML-DSA,
  optionally composed with Ed25519 (\<^verbatim>\<open>cose.py\<close>), by keys whose hash is the signer's identity (\<^verbatim>\<open>identity.py\<close>). An object
  (\<^verbatim>\<open>envelope.py\<close>) has a kind on one of twenty channels (\<^verbatim>\<open>channels.py\<close>), an effect class (\<^verbatim>\<open>policy.py\<close>) and the content
  ids of its causes. On the envelope rest: approvals spent once in a durable ledger (\<^verbatim>\<open>approval.py\<close>), receipts and forks
  (\<^verbatim>\<open>audit.py\<close>), the deterministic merge of causal graphs (\<^verbatim>\<open>graph.py\<close>, \<^verbatim>\<open>federation.py\<close>), staged delivery (\<^verbatim>\<open>delivery.py\<close>),
  streams (\<^verbatim>\<open>streaming.py\<close>), records and transport bindings (\<^verbatim>\<open>records.py\<close>, \<^verbatim>\<open>transport.py\<close>), rooms and the principal
  registry (\<^verbatim>\<open>rooms.py\<close>), and multi-hop delegation (\<^verbatim>\<open>delegation.py\<close>). A second family of signed bodies, each a COSE_Sign1
  under a bare algorithm header, adds name bindings and task states (\<^verbatim>\<open>naming.py\<close>), negotiation, risk labels and trust references
  (\<^verbatim>\<open>negotiation.py\<close>), imported payments (\<^verbatim>\<open>payment.py\<close>), foreign carriage (\<^verbatim>\<open>carriage.py\<close>), flows (\<^verbatim>\<open>continuation.py\<close>), descriptions
  and directories (\<^verbatim>\<open>description.py\<close>) and physical-hazard authorization (\<^verbatim>\<open>hazard.py\<close>). Bridges carry tool calls (\<^verbatim>\<open>mcp.py\<close>) and
  shown user-interface events (\<^verbatim>\<open>agui.py\<close>), the gateway (\<^verbatim>\<open>gateway.py\<close>) leaves decision records under Merkle checkpoints, every error name is
  registered (\<^verbatim>\<open>naalperror.py\<close>), and \<^verbatim>\<open>ez.py\<close> signs and verifies in one call.

  The packages of \<^verbatim>\<open>ecosystem\<close> use the SDK only through these modules. Keys are pinned on first use (\<^verbatim>\<open>naalp-fingerprint-cache\<close>); approvals
  are checked and spent when the action runs (\<^verbatim>\<open>naalp-verify-at-use\<close>) or after a human decided (\<^verbatim>\<open>naalp-hitl\<close>), with audited refusals; object,
  approval and receipt travel as one bundle (\<^verbatim>\<open>naalp-bundle\<close>); candidates are validated before they are signed (\<^verbatim>\<open>naalp-validator\<close>); an
  agent's actions become signed requests and their responses observations (\<^verbatim>\<open>naalp-react\<close>), one by one, along a task graph
  (\<^verbatim>\<open>naalp-plan\<close>), in a pipeline or in parallel (\<^verbatim>\<open>naalp-multiagent\<close>); and governed sessions (\<^verbatim>\<open>naalp-mcp-hook\<close>, \<^verbatim>\<open>naalp-adk-plugin\<close>) are
  recorded as chains that an offline verifier replays (\<^verbatim>\<open>naalp-governance-verify\<close>).

  \<^bold>\<open>How code becomes HOL.\<close> A function that can raise returns a value of type \<open>exn + 'a\<close> (theory \<open>Prelude\<close>), one
  constructor per exception class and the \<^verbatim>\<open>.kind\<close> string where the class carries one; messages are dropped. An object
  with mutable attributes is a record that operations return updated; when a method can raise after it has changed
  something, the model returns the changed state together with the error (\<open>Registry\<close>). Python ints are \<^typ>\<open>int\<close>, bytes are
  lists of 8-bit words, str is a list of code points, dictionaries are maps, or association lists where their order
  matters. SHA-2, ML-DSA, Ed25519 and Unicode NFC are fields of the record \<open>prims\<close> that every operation using them takes as an
  argument; theorems name what they need of them (a signature made with a seed verifies under the key of that seed; a
  digest has 48 bytes; no collision on the byte strings in question), and each such theorem has a witness on a concrete
  instance. What a component takes from its caller (a clock, a human, a transport, an executor, a log sink) is an argument over an
  arbitrary world, so its theorems hold whatever these do. Files are byte lists. A crash loses the memory: between two calls for
  the ledger and the workflow gate; for the delivery tracker also inside a call, with any part of its record written, so that a
  call may have become durable without having returned; what is left of a torn write is refused when the file is reopened. Locks
  make an operation atomic; the pump threads and queues of the switchboard are interleaved step by step.

  \<^bold>\<open>The theories.\<close>
  \<^item> \<open>Prelude\<close>, \<open>Utf8\<close>, \<open>Cbor\<close>, \<open>CborMaps\<close>, \<open>Bodies\<close>: bytes, results, UTF-8, the encoder and the strict decoder, and the
    loop every module uses to read a numbered map. The bounded decoder accepts exactly the canonical encodings within its
    depth and raises no other error than its documented ones.
  \<^item> \<open>Cose\<close>, \<open>Identity\<close>, \<open>Policy\<close>, \<open>Envelope\<close>, \<open>EnvelopeExt\<close>, \<open>RotationObject\<close>: signing, ids, effects, objects. Signed objects
    verify and are read back; verification is exact, for bytes from anyone, down to every field of the object; an id names one object; a signer id
    certifies one key; rotations need the old key.
  \<^item> \<open>Wal\<close> (write-ahead logs of length-prefixed records) and \<open>Chain\<close> (hash chains) are interfaces, stated as locales over the
    record codec and the state; \<open>Ledger\<close>, \<open>Delivery\<close> and \<open>Channels\<close> interpret the first, \<open>Ledger\<close>, \<open>AuditChain\<close>, \<open>Registry\<close>
    and \<open>Continuation\<close> the second. \<open>Signed\<close> has two more: \<open>signed_body\<close>, a body whose parser inverts it, so that the signed object
    verifies to it (interpreted once per signed record), and \<open>gap_detector\<close>, a numbered hash chain with a scan for its first
    break (interpreted by \<open>Naming\<close> and \<open>TaskState\<close>).
  \<^item> \<open>Records\<close>, \<open>Approval\<close>, \<open>Ledger\<close>: record bodies, approvals, the ledger. Single use across crashes; torn writes are
    refused; reported double spends carry a proof.
  \<^item> \<open>Dfs\<close> (three-colour search) serves \<open>Graph\<close> and \<open>Channels\<close>; \<open>Toposort\<close> (the locale of a Kahn loop with a selection rule, and
    the one order such a loop can produce) serves \<open>Reconcile\<close>, \<open>Federation\<close>, \<open>AuditOrder\<close> and \<open>Ready\<close>. The causal check is exact; merging
    ends, is a total order that respects causes and does not depend on how nodes are listed.
  \<^item> \<open>AuditChain\<close>: receipts, chains, auditors: the head determines the history; the auditor is sound and complete.
  \<^item> \<open>Delivery\<close>, \<open>Switchboard\<close>, \<open>Streaming\<close>: the tracker refines the greatest durable stage, which is never below an
    acknowledged one; the switchboard is a bounded FIFO in which everything sent before the close arrives; the stream guard refines its state table and a commitment binds the stream.
  \<^item> \<open>Channels\<close>, \<open>Rooms\<close>, \<open>Registry\<close>: the kind registry, the frame tree and the workflow gate, which no crash bypasses; rooms
    keep an owner, serialise changes by epoch and have a log that verifies and determines the members; a principal's
    handle changes only along verified rotations.
  \<^item> \<open>Delegation\<close>: the chain walk decides exactly its declarative definition, every grant lies within all grants above it, and a
    destructive action needs a chain and an approval that is spent with it.
  \<^item> \<open>Naming\<close>, \<open>TaskState\<close>: chains of name bindings are accepted exactly when linked, numbered and of one name; holes and forks are
    reported exactly; a registrar is never accused; a task's chain is accepted exactly as a run of the imported state machine.
  \<^item> \<open>Negotiation\<close>: the descent walk decides reachability through known messages, and ends; the critical-extension rule.
  \<^item> \<open>Payment\<close>: a charge spends its approval once, and the approval binds every term and the foreign payload. \<open>Carriage\<close>: foreign
    bytes travel octet for octet. \<open>Continuation\<close>: one commit binds one sequence of links within the ceiling; checkpoints are
    exact, with the error of every refusal. \<open>Description\<close>: what is signed verifies to itself or is refused by name, fork positions are
    exact and an import's authority is the key that signed it. \<open>Hazard\<close>: coverage is
    containment of regions, speeds and times, and the wire form is exact.
  \<^item> \<open>Mcp\<close>, \<open>Agui\<close>: a tool call is accepted exactly when its declared effect covers its annotations, and spends an approval of its
    arguments once; consent is given exactly for the action whose shown chain was approved. \<open>Merkle\<close>, \<open>Gateway\<close>, \<open>Evidence\<close>: inclusion
    proofs are exact unless the hash collides, so an anchored record is a leaf of the log; decisions and attestations verify
    exactly. \<open>ErrorRegistry\<close>: codes and names correspond; error objects are read exactly. \<open>Ez\<close>: what it signs verifies.
  \<^item> \<open>Pinning\<close>: a pin changes only along verified rotations. \<open>Gate\<close> is the locale \<open>spend_gate\<close> of a component that spends an approval
    before it acts; \<open>UseGuard\<close> and \<open>Hitl\<close> interpret it: an action runs once per approval, whose arguments and audience are its own. Refusals
    are logged before they are raised. \<open>Bundle\<close>: a bundle verifies exactly when an independent anchor proves its three parts.
    \<open>Validator\<close>: the report is the list of broken rules, in order, and a clean object verifies once signed.
  \<^item> \<open>React\<close>: an observation is accepted only for a verified answer to the request, whatever interceptor is plugged in; \<open>Ready\<close>: the Kahn loop over a list of ready items, shared
    by \<open>Plan\<close> and \<open>Governance\<close>. \<open>Plan\<close> states its runs once for any bridge in the locale \<open>plan_agent\<close>: who is blocked, what each request
    names as its causes, and that a run ends. \<open>Multiagent\<close>: the pipeline's chain, and for a fan-out, under every interleaving, that it
    ends, makes the calls of one exchange per branch, and has one order. \<open>Governance\<close>: the chain verifier is exact, and accepts what the recorders wrote.

  \<^bold>\<open>Bounds and fuel.\<close> The depth-first searches recurse with fuel: the number of nodes for causal graphs, twice the number of
  entries for frames (a parent need not be an entry); \<open>search_iff\<close> of \<open>Dfs\<close> shows that this suffices, so the value for fuel run
  out is never returned. The loop of \<open>Ready\<close> is a \<open>while_option\<close>, and \<open>ready_all_iff\<close> shows that it ends on every input. The decoder
  recurses on the remaining depth, as the code does. The Kahn loops recurse on the number of nodes not yet taken. The delegation walk is total because the declared depth grows at every hop, and the negotiation walk
  because each step shortens its stack or visits one more known message. Encoders reject integers
  of 65 bits, so theorems on counters that are encoded say up to what count they hold.

  \<^bold>\<open>Not modelled.\<close> Python's recursion limit, failures of write and fsync, memory, timeouts of a blocking receive; the human interceptor
  plugged into the agent bridge, whose pending action lacks an attribute the interceptor reads; diagnostic messages and \<^verbatim>\<open>repr\<close>; arguments of a wrong Python type where a module only raises \<^verbatim>\<open>TypeError\<close> for them, and the dictionary form of a
  validator's candidate; \<^verbatim>\<open>cli.py\<close> and \<^verbatim>\<open>__init__.py\<close>, process I/O over modelled operations; \<^verbatim>\<open>_dilithium_thread_safety.py\<close>, which patches a
  third-party package; the JSON form of logs and tool calls; the remaining packages under \<^verbatim>\<open>ecosystem\<close>, which translate between the
  SDK and a third-party framework's own classes; the test-vector tools and the ports to other languages. The package
  \<^verbatim>\<open>naalp_kit\<close> is not in the repository: what the recorders need of it is the hypothesis \<open>kit_sound\<close>.
\<close>

end
